(* ===== verification/Prelude.thy ===== *)
theory Prelude
  imports
    Main
    "HOL-Library.AList"
    "HOL-Library.Char_ord"
    "HOL-Library.Countable"
    "HOL-Library.List_Lexorder"
    "HOL-Library.Signed_Division"
    "HOL-Library.Sublist"
    "HOL-Library.Word"
begin

text \<open>
  What every component shares.

  A Go map that the program iterates over, or whose size it asks for, is an association list with
  distinct keys (\<^theory_text>\<open>gomap\<close>): a lookup is \<^theory_text>\<open>get\<close>, an assignment \<^theory_text>\<open>put\<close>, the builtin delete
  \<^theory_text>\<open>del\<close>. Go leaves the order of an iteration open; the order of the list stands for it, and where
  the source sorts what it collected the result does not depend on that order.

  A Go string is a list of bytes, ordered bytewise, which is the order of \<^theory_text>\<open>sort.Strings\<close>
  and of Go's comparison operators. A time is an integer, and the zero value of Go's time is 0.
  A function that returns an error returns an option, None being nil; one that returns a value or
  an error returns a sum with the error on the left.
\<close>

named_theorems inv_intros \<open>introduction rules for the invariants of the components\<close>
named_theorems frame_simps \<open>which fields an operation leaves alone\<close>

type_synonym ('k, 'v) gomap = "('k \<times> 'v) list"
type_synonym time = int
type_synonym repoerr = string

abbreviation get :: "('k, 'v) gomap \<Rightarrow> 'k \<Rightarrow> 'v option" where
  "get \<equiv> map_of"

abbreviation put :: "'k \<Rightarrow> 'v \<Rightarrow> ('k, 'v) gomap \<Rightarrow> ('k, 'v) gomap" where
  "put k v m \<equiv> AList.update k v m"

abbreviation del :: "'k \<Rightarrow> ('k, 'v) gomap \<Rightarrow> ('k, 'v) gomap" where
  "del k m \<equiv> AList.delete k m"

abbreviation wf_map :: "('k, 'v) gomap \<Rightarrow> bool" where
  "wf_map m \<equiv> distinct (map fst m)"

text \<open>A map is reasoned about through its lookups, not through the entries of its list.\<close>

declare map_of_eq_Some_iff [simp del] Some_eq_map_of_iff [simp del]

text \<open>Reading a missing key gives Go's zero value of the map's element type.\<close>

definition get_or :: "'v \<Rightarrow> ('k, 'v) gomap \<Rightarrow> 'k \<Rightarrow> 'v" where
  "get_or z m k = (case get m k of None \<Rightarrow> z | Some v \<Rightarrow> v)"

lemma get_put [simp]: "get (put k v m) k' = (if k' = k then Some v else get m k')"
  by (simp add: update_conv')

lemma get_del [simp]: "get (del k m) k' = (if k' = k then None else get m k')"
  by (simp add: delete_conv')

lemma get_put_map: "map_of (put k v m) = (map_of m)(k \<mapsto> v)"
  by (rule update_conv')

lemma get_del_map: "map_of (del k m) = (map_of m)(k := None)"
  by (rule delete_conv')

lemma dom_get_put [simp]: "dom (get (put k v m)) = insert k (dom (get m))"
  by (auto split: if_splits)

lemma dom_get_del [simp]: "dom (get (del k m)) = dom (get m) - {k}"
  by (auto split: if_splits)

lemma get_known_dom: "get m k \<noteq> None \<Longrightarrow> insert k (dom (get m)) = dom (get m)"
  by auto

lemma wf_map_put [simp]: "wf_map m \<Longrightarrow> wf_map (put k v m)"
  by (rule distinct_update)

lemma wf_map_del [simp]: "wf_map m \<Longrightarrow> wf_map (del k m)"
  by (rule distinct_delete)

lemma put_not_Nil [simp]: "put k v m \<noteq> []"
  by (cases m) auto

lemma get_in_set: "wf_map m \<Longrightarrow> (k, v) \<in> set m \<longleftrightarrow> get m k = Some v"
  by (auto dest: map_of_SomeD map_of_is_SomeI)

lemma get_Some_key: "get m k = Some v \<Longrightarrow> k \<in> fst ` set m"
  by (force dest: map_of_SomeD)

lemma get_empty_iff: "(\<forall>k. get m k = None) \<longleftrightarrow> m = []"
  by (cases m) (auto simp: map_of_eq_None_iff split: if_splits)

lemma set_put_values: "(k', v') \<in> set (put k v m) \<Longrightarrow> (k' = k \<and> v' = v) \<or> (k', v') \<in> set m"
  by (induction m) (auto split: if_splits)

lemma set_del_values: "(k', v') \<in> set (del k m) \<Longrightarrow> k' \<noteq> k \<and> (k', v') \<in> set m"
  by (induction m) (auto split: if_splits)

lemma get_or_put [simp]: "get_or z (put k v m) k' = (if k' = k then v else get_or z m k')"
  by (simp add: get_or_def)

lemma get_or_del [simp]: "get_or z (del k m) k' = (if k' = k then z else get_or z m k')"
  by (simp add: get_or_def)

lemma get_or_Some [simp]: "get m k = Some v \<Longrightarrow> get_or z m k = v"
  by (simp add: get_or_def)

lemma get_or_None [simp]: "get m k = None \<Longrightarrow> get_or z m k = z"
  by (simp add: get_or_def)

text \<open>Counters kept in a map: the sum of all counts under an assignment and a delete.\<close>

definition total :: "('k, int) gomap \<Rightarrow> int" where
  "total m = sum_list (map snd m)"

lemma total_Nil [simp]: "total [] = 0"
  by (simp add: total_def)

lemma total_put: "wf_map m \<Longrightarrow> total (put k v m) = total m - get_or 0 m k + v"
proof (induction m)
  case (Cons a m)
  then show ?case
    by (cases a) (auto simp: total_def get_or_def split: option.splits dest: get_Some_key)
qed (simp add: total_def get_or_def)

lemma del_no_key: "k \<notin> fst ` set m \<Longrightarrow> del k m = m"
  by (induction m) force+

lemma total_del: "wf_map m \<Longrightarrow> total (del k m) = total m - get_or 0 m k"
proof (induction m)
  case (Cons a m)
  obtain k' v where a: "a = (k', v)" by (cases a)
  show ?case
  proof (cases "k' = k")
    case True
    with Cons.prems a have "del k m = m" by (intro del_no_key) auto
    with True a show ?thesis by (simp add: total_def get_or_def)
  next
    case False
    with Cons a show ?thesis by (simp add: total_def get_or_def)
  qed
qed (simp add: total_def get_or_def)

lemma total_nonneg: "(\<And>k v. (k, v) \<in> set m \<Longrightarrow> 0 < v) \<Longrightarrow> 0 \<le> total m"
  by (induction m) (fastforce simp: total_def)+

lemma total_pos: "m \<noteq> [] \<Longrightarrow> (\<And>k v. (k, v) \<in> set m \<Longrightarrow> 0 < v) \<Longrightarrow> 0 < total m"
proof (induction m)
  case (Cons a m)
  have "0 < snd a" using Cons.prems(2) [of "fst a" "snd a"] by simp
  moreover have "0 \<le> total m" using Cons.prems(2) by (intro total_nonneg) auto
  ultimately show ?case by (simp add: total_def)
qed simp

text \<open>Two readings of one map that agree everywhere are permutations of each other.\<close>

lemma get_eq_set_eq: "wf_map m \<Longrightarrow> wf_map m' \<Longrightarrow> map_of m = map_of m' \<Longrightarrow> set m = set m'"
  by (simp add: map_of_inject_set)

lemma sort_key_same_set:
  assumes "distinct xs" "distinct ys" "set xs = set ys" "inj_on f (set xs)"
  shows "sort_key f xs = sort_key f ys"
proof (rule map_sorted_distinct_set_unique [of f])
  show "inj_on f (set (sort_key f xs) \<union> set (sort_key f ys))" using assms(3,4) by simp
  show "distinct (map f (sort_key f xs))" "distinct (map f (sort_key f ys))"
    using assms by (simp_all add: distinct_map)
qed (use assms in simp_all)

end
