(* ===== verification/Leasing_Types.thy ===== *)
theory Leasing_Types
  imports Prelude
begin

text \<open>
  The data of the leasing package (src/leasing/leasing.go) and its built-in selection strategy
  (src/leasing/roundrobin.go): kinds, resources, groups, assignments, the repository port, the
  selection port and the errors.

  A Go model embeds the resource by value and adds fields of its own; here the resource is an
  extensible record, and a model is an extension of it. The constraint Leasable, a pointer to a
  struct that embeds Resource, is then the type \<^theory_text>\<open>'x resource_scheme\<close>, and every operation of the
  manager is polymorphic in \<^theory_text>\<open>'x\<close>, the fields it never looks at.
\<close>

section \<open>Kinds\<close>

datatype kind_error = KindEmpty | KindBadChar string char

definition kind_char :: "char \<Rightarrow> bool" where
  "kind_char r \<longleftrightarrow>
     CHR ''a'' \<le> r \<and> r \<le> CHR ''z'' \<or> CHR ''A'' \<le> r \<and> r \<le> CHR ''Z'' \<or>
     CHR ''0'' \<le> r \<and> r \<le> CHR ''9'' \<or> r = CHR ''-'' \<or> r = CHR ''_''"

fun first_bad_char :: "string \<Rightarrow> char option" where
  "first_bad_char [] = None"
| "first_bad_char (r # rs) = (if kind_char r then first_bad_char rs else Some r)"

text \<open>Validate ranges over the runes of the kind; a byte outside ASCII starts a rune that no
  case accepts, so scanning bytes refuses the same kinds.\<close>

definition kind_Validate :: "string \<Rightarrow> kind_error option" where
  "kind_Validate k =
     (if k = [] then Some KindEmpty
      else (case first_bad_char k of Some r \<Rightarrow> Some (KindBadChar k r) | None \<Rightarrow> None))"

lemma first_bad_char_None: "first_bad_char k = None \<longleftrightarrow> (\<forall>r \<in> set k. kind_char r)"
  by (induction k) auto

lemma first_bad_char_Some:
  "first_bad_char k = Some r \<longleftrightarrow>
     (\<exists>us vs. k = us @ r # vs \<and> (\<forall>u \<in> set us. kind_char u) \<and> \<not> kind_char r)"
proof (induction k)
  case (Cons a k)
  show ?case
  proof (cases "kind_char a")
    case True
    then have "(\<exists>us vs. a # k = us @ r # vs \<and> (\<forall>u \<in> set us. kind_char u) \<and> \<not> kind_char r) \<longleftrightarrow>
        (\<exists>us vs. k = us @ r # vs \<and> (\<forall>u \<in> set us. kind_char u) \<and> \<not> kind_char r)"
      by (auto simp: Cons_eq_append_conv) (metis set_ConsD append_Cons)
    with True Cons show ?thesis by simp
  next
    case False
    then show ?thesis by (auto simp: Cons_eq_append_conv)
  qed
qed simp

lemma kind_Validate_None: "kind_Validate k = None \<longleftrightarrow> k \<noteq> [] \<and> (\<forall>r \<in> set k. kind_char r)"
  by (auto simp: kind_Validate_def first_bad_char_None [symmetric] split: option.splits)

section \<open>Resources, groups, assignments\<close>

definition GlobalGroup :: string where
  "GlobalGroup = ''global''"

definition UnlimitedHolders :: int where
  "UnlimitedHolders = -1"

definition StrategyRoundRobin :: string where
  "StrategyRoundRobin = ''roundrobin''"

lemma GlobalGroup_not_Nil [simp]: "GlobalGroup \<noteq> []"
  by (simp add: GlobalGroup_def)

record resource =
  resID :: string
  resGroup :: string
  resOwner :: string
  resMax :: int
  resCreated :: time
  resUpdated :: time

record group =
  grpID :: string
  grpStrategy :: string
  grpRefs :: "(string, string) gomap"
  grpCreated :: time
  grpUpdated :: time

text \<open>The zero group, what a read of a missing key of the group map gives.\<close>

definition zeroGroup :: group where
  "zeroGroup = \<lparr>grpID = [], grpStrategy = [], grpRefs = [], grpCreated = 0, grpUpdated = 0\<rparr>"

record assignment =
  asgTask :: string
  asgGroup :: string
  asgRes :: string

text \<open>The embedded resource of a model, and putting one back: the method core of Resource, read
  and written through its pointer.\<close>

definition core :: "'x resource_scheme \<Rightarrow> resource" where
  "core p = resource.truncate p"

definition set_core :: "resource \<Rightarrow> 'x resource_scheme \<Rightarrow> 'x resource_scheme" where
  "set_core c p = resource.extend c (resource.more p)"

lemma core_set_core [simp]: "core (set_core c p) = c"
  by (simp add: core_def set_core_def resource.defs)

lemma set_core_core [simp]: "set_core (core p) p = p"
  by (simp add: core_def set_core_def resource.defs)

lemma set_core_fields [simp]:
  "resID (set_core c p) = resID c" "resGroup (set_core c p) = resGroup c"
  "resOwner (set_core c p) = resOwner c" "resMax (set_core c p) = resMax c"
  "resCreated (set_core c p) = resCreated c" "resUpdated (set_core c p) = resUpdated c"
  "resource.more (set_core c p) = resource.more p"
  by (simp_all add: set_core_def resource.defs)

lemma core_fields [simp]:
  "resID (core p) = resID p" "resGroup (core p) = resGroup p" "resOwner (core p) = resOwner p"
  "resMax (core p) = resMax p" "resCreated (core p) = resCreated p"
  "resUpdated (core p) = resUpdated p"
  by (simp_all add: core_def resource.defs)

section \<open>The ports\<close>

text \<open>
  The repository port: a store the consumer implements. Each operation takes the state of the store
  and gives its answer and the state it leaves, so a store may fail at any call; the state also
  stands for whatever decides that.
\<close>

record ('s, 'x) repository =
  repoList :: "'s \<Rightarrow> (repoerr + 'x resource_scheme list) \<times> 's"
  repoSave :: "'x resource_scheme \<Rightarrow> 's \<Rightarrow> repoerr option \<times> 's"
  repoDelete :: "string \<Rightarrow> 's \<Rightarrow> repoerr option \<times> 's"
  repoListGroups :: "'s \<Rightarrow> (repoerr + group list) \<times> 's"
  repoSaveGroup :: "group \<Rightarrow> 's \<Rightarrow> repoerr option \<times> 's"
  repoDeleteGroup :: "string \<Rightarrow> 's \<Rightarrow> repoerr option \<times> 's"

text \<open>
  The selection port: an object with one method and a state of its own. Select answers with a
  candidate, an error, or a panic, and leaves the object it will be at the next call. A strategy
  factory is the object a fresh call of it gives.
\<close>

datatype 'a sel_result = Picked 'a | SelectErr string | SelectPanic

codatatype (dead 'a) selection =
  Selection (select: "'a list \<Rightarrow> 'a sel_result \<times> 'a selection")

section \<open>Round robin\<close>

text \<open>
  The cursor is a Go int, 64 bits, and Go's remainder takes the sign of the dividend: once the
  cursor has wrapped below zero the index can be negative, and indexing panics.
\<close>

definition rr_Select :: "64 word \<Rightarrow> 'a list \<Rightarrow> 'a sel_result \<times> 64 word" where
  "rr_Select next cs =
     (if cs = [] then (SelectErr ''no candidates'', next)
      else (let i = sint next smod int (length cs)
            in if i < 0 then (SelectPanic, next)
               else (Picked (cs ! nat i), next + 1)))"

primcorec round_robin :: "64 word \<Rightarrow> 'a selection" where
  "select (round_robin next) = (\<lambda>cs. map_prod id round_robin (rr_Select next cs))"

definition NewRoundRobin :: "'a selection" where
  "NewRoundRobin = round_robin 0"

lemma smod_nonneg: "0 \<le> (a :: int) \<Longrightarrow> 0 < b \<Longrightarrow> a smod b = a mod b"
  by (simp add: signed_modulo_int_def signed_divide_int_def sgn_mult
      minus_div_mult_eq_mod [symmetric] sgn_if)

lemma rr_Select_pick:
  assumes "cs \<noteq> []" "0 \<le> sint next"
  shows "rr_Select next cs = (Picked (cs ! nat (sint next mod int (length cs))), next + 1)"
proof -
  have "0 < int (length cs)" using assms(1) by simp
  with assms show ?thesis by (simp add: rr_Select_def smod_nonneg Let_def not_less)
qed

lemma rr_index_bound: "cs \<noteq> [] \<Longrightarrow> nat (k mod int (length cs)) < length cs"
  by (simp add: nat_less_iff)

text \<open>Running one instance over a list of calls, the candidates of each given.\<close>

fun select_run :: "'a selection \<Rightarrow> 'a list list \<Rightarrow> 'a sel_result list \<times> 'a selection" where
  "select_run s [] = ([], s)"
| "select_run s (cs # css) =
     (let (r, s') = select s cs; (rs, s'') = select_run s' css in (r # rs, s''))"

section \<open>Errors\<close>

datatype sentinel =
    ErrNoResources | ErrGroupNotFound | ErrGroupInUse | ErrResourceInUse | ErrResourceNotFound
  | ErrResourceNotInGroup | ErrResourceLocked | ErrPinConflict

text \<open>One constructor per error the package returns, with what the message names.\<close>

datatype lease_error =
    ELoadGroups repoerr
  | EDuplicateGroup string
  | EPersistGlobal repoerr
  | ELoadPool repoerr
  | EDuplicateResource string
  | EUnknownGroup string string
  | EHolderPolicy string int
  | EMultipleLocks string string string
  | EGroupIDRequired
  | EUnknownStrategy string string
  | EGroupExists string
  | EPersistGroup string repoerr
  | EUpdateMissingGroup string
  | EDeleteGlobal
  | EDeleteMissingGroup string
  | EGroupHeld string "string list"
  | EDeleteGroupRow string repoerr
  | EResourceIDRequired
  | EResourceExists string
  | EAddLocked string
  | EAddMissingGroup string string
  | EPersistResource string repoerr
  | EUpdateMissing string
  | ETaskIDRequired
  | EContext string
  | EPinMissing string
  | EPinGroup string string string
  | EPinLocked string string
  | EPinConflict string string string
  | EAcquireMissingGroup string
  | ENoResources string
  | ESelection string
  | ENotCandidate string
  | EPersistLock repoerr
  | ECheckMissingGroup string
  | EPersistUnlock repoerr
  | EResourceHeld string "string list"
  | EDeleteResource string repoerr
  | EDeleteUnknown repoerr

text \<open>The sentinel an error wraps, what \<^theory_text>\<open>errors.Is\<close> finds in it.\<close>

fun wraps :: "lease_error \<Rightarrow> sentinel option" where
  "wraps (EUnknownGroup _ _) = Some ErrGroupNotFound"
| "wraps (EUpdateMissingGroup _) = Some ErrGroupNotFound"
| "wraps (EDeleteMissingGroup _) = Some ErrGroupNotFound"
| "wraps (EGroupHeld _ _) = Some ErrGroupInUse"
| "wraps (EAddMissingGroup _ _) = Some ErrGroupNotFound"
| "wraps (EPinMissing _) = Some ErrResourceNotFound"
| "wraps (EPinGroup _ _ _) = Some ErrResourceNotInGroup"
| "wraps (EPinLocked _ _) = Some ErrResourceLocked"
| "wraps (EPinConflict _ _ _) = Some ErrPinConflict"
| "wraps (EAcquireMissingGroup _) = Some ErrGroupNotFound"
| "wraps (ENoResources _) = Some ErrNoResources"
| "wraps (ECheckMissingGroup _) = Some ErrGroupNotFound"
| "wraps (EResourceHeld _ _) = Some ErrResourceInUse"
| "wraps _ = None"

end
