(* ===== verification/Leasing_Manager.thy ===== *)
theory Leasing_Manager
  imports Leasing_Types
begin

text \<open>
  The leasing manager (src/leasing/manager.go): its state and every operation, each as the critical
  section it is under the manager's mutex. An operation takes the manager and gives its answer and
  the manager it leaves. The state of the store is a field of the manager, since the manager is the
  only writer the program gives it. The field \<^theory_text>\<open>mGen\<close> counts the broadcasts on the condition
  variable: an acquire that went to sleep may only run again once the count has moved.
  \<^theory_text>\<open>time.Now()\<close> is a parameter of the operations that read the clock.

  A model's value read from the pool under an absent id is Go's zero value, whose strings are empty;
  the two places where that can be seen read it through \<^theory_text>\<open>groupAt\<close> and \<^theory_text>\<open>ownerAt\<close>.
\<close>

section \<open>State\<close>

record ('s, 'x) manager =
  mRepo :: "('s, 'x) repository"
  mStore :: "'s"
  mFactories :: "(string, 'x resource_scheme selection) gomap"
  mGroups :: "(string, group) gomap"
  mStrategies :: "(string, 'x resource_scheme selection) gomap"
  mPool :: "(string, 'x resource_scheme) gomap"
  mOrder :: "string list"
  mHolders :: "(string, (string, int) gomap) gomap"
  mBindings :: "(string, string) gomap"
  mGen :: nat

record 'x lease =
  lseRes :: "'x resource_scheme"
  lseGroup :: group
  lseTask :: string

definition broadcast :: "('s, 'x) manager \<Rightarrow> ('s, 'x) manager" where
  "broadcast m = m\<lparr>mGen := Suc (mGen m)\<rparr>"

definition groupAt :: "('s, 'x) manager \<Rightarrow> string \<Rightarrow> string" where
  "groupAt m rid = (case get (mPool m) rid of None \<Rightarrow> [] | Some p \<Rightarrow> resGroup p)"

definition ownerAt :: "('s, 'x) manager \<Rightarrow> string \<Rightarrow> string" where
  "ownerAt m rid = (case get (mPool m) rid of None \<Rightarrow> [] | Some p \<Rightarrow> resOwner p)"

text \<open>Calls through the repository port.\<close>

definition repo_save ::
    "'x resource_scheme \<Rightarrow> ('s, 'x) manager \<Rightarrow> repoerr option \<times> ('s, 'x) manager" where
  "repo_save p m = (let (e, s) = repoSave (mRepo m) p (mStore m) in (e, m\<lparr>mStore := s\<rparr>))"

definition repo_delete :: "string \<Rightarrow> ('s, 'x) manager \<Rightarrow> repoerr option \<times> ('s, 'x) manager" where
  "repo_delete rid m = (let (e, s) = repoDelete (mRepo m) rid (mStore m) in (e, m\<lparr>mStore := s\<rparr>))"

definition repo_save_group :: "group \<Rightarrow> ('s, 'x) manager \<Rightarrow> repoerr option \<times> ('s, 'x) manager" where
  "repo_save_group g m = (let (e, s) = repoSaveGroup (mRepo m) g (mStore m) in (e, m\<lparr>mStore := s\<rparr>))"

definition repo_delete_group :: "string \<Rightarrow> ('s, 'x) manager \<Rightarrow> repoerr option \<times> ('s, 'x) manager" where
  "repo_delete_group gid m =
     (let (e, s) = repoDeleteGroup (mRepo m) gid (mStore m) in (e, m\<lparr>mStore := s\<rparr>))"

section \<open>Construction\<close>

definition noopRepository :: "('s, 'x) repository" where
  "noopRepository =
     \<lparr>repoList = (\<lambda>s. (Inr [], s)), repoSave = (\<lambda>_ s. (None, s)), repoDelete = (\<lambda>_ s. (None, s)),
      repoListGroups = (\<lambda>s. (Inr [], s)), repoSaveGroup = (\<lambda>_ s. (None, s)),
      repoDeleteGroup = (\<lambda>_ s. (None, s))\<rparr>"

definition strategyName :: "group \<Rightarrow> string" where
  "strategyName g = (if grpStrategy g = [] then StrategyRoundRobin else grpStrategy g)"

text \<open>The name is resolved inline here and by \<^theory_text>\<open>strategyName\<close> in UpdateGroup, by the same rule.\<close>

definition validateGroup ::
    "('s, 'x) manager \<Rightarrow> group \<Rightarrow> lease_error + 'x resource_scheme selection" where
  "validateGroup m g =
     (if grpID g = [] then Inl EGroupIDRequired
      else (let name = (if grpStrategy g = [] then StrategyRoundRobin else grpStrategy g)
            in case get (mFactories m) name of
                 None \<Rightarrow> Inl (EUnknownStrategy (grpID g) name)
               | Some factory \<Rightarrow> Inr factory))"

definition adoptGroup ::
    "group \<Rightarrow> ('s, 'x) manager \<Rightarrow> lease_error option \<times> ('s, 'x) manager" where
  "adoptGroup g m =
     (case validateGroup m g of
        Inl e \<Rightarrow> (Some e, m)
      | Inr factory \<Rightarrow>
          (None, m\<lparr>mGroups := put (grpID g) g (mGroups m),
                   mStrategies := put (grpID g) factory (mStrategies m)\<rparr>))"

definition validateHolderPolicy :: "string \<Rightarrow> int \<Rightarrow> lease_error option" where
  "validateHolderPolicy rid n = (if n < UnlimitedHolders then Some (EHolderPolicy rid n) else None)"

text \<open>The loop of NewManager over the stored groups.\<close>

fun loadGroups :: "group list \<Rightarrow> ('s, 'x) manager \<Rightarrow> lease_error option \<times> ('s, 'x) manager" where
  "loadGroups [] m = (None, m)"
| "loadGroups (g # gs) m =
     (if get (mGroups m) (grpID g) \<noteq> None then (Some (EDuplicateGroup (grpID g)), m)
      else (case adoptGroup g m of
              (Some e, m') \<Rightarrow> (Some e, m')
            | (None, m') \<Rightarrow> loadGroups gs m'))"

text \<open>The loop of NewManager over the stored resources: one record, then all of them.\<close>

definition loadResource ::
    "'x resource_scheme \<Rightarrow> ('s, 'x) manager \<Rightarrow> lease_error option \<times> ('s, 'x) manager" where
  "loadResource p0 m =
     (let p = (if resGroup p0 = [] then p0\<lparr>resGroup := GlobalGroup\<rparr> else p0)
      in if get (mPool m) (resID p0) \<noteq> None then (Some (EDuplicateResource (resID p0)), m)
         else if get (mGroups m) (resGroup p) = None
           then (Some (EUnknownGroup (resID p) (resGroup p)), m)
         else (case validateHolderPolicy (resID p) (resMax p) of
             Some e \<Rightarrow> (Some e, m)
           | None \<Rightarrow>
               (let m' = m\<lparr>mPool := put (resID p) p (mPool m), mOrder := mOrder m @ [resID p]\<rparr>
                in if resOwner p = [] then (None, m')
                   else (case get (mBindings m') (resOwner p) of
                       Some prior \<Rightarrow> (Some (EMultipleLocks (resOwner p) prior (resID p)), m')
                     | None \<Rightarrow>
                         (None, m'\<lparr>mBindings := put (resOwner p) (resID p) (mBindings m')\<rparr>)))))"

fun loadPool ::
    "'x resource_scheme list \<Rightarrow> ('s, 'x) manager \<Rightarrow> lease_error option \<times> ('s, 'x) manager" where
  "loadPool [] m = (None, m)"
| "loadPool (p # ps) m =
     (case loadResource p m of
        (Some e, m') \<Rightarrow> (Some e, m')
      | (None, m') \<Rightarrow> loadPool ps m')"

text \<open>An option is WithStrategy of a name and a factory; options apply in order.\<close>

definition WithStrategy ::
    "string \<Rightarrow> 'x resource_scheme selection \<Rightarrow> ('s, 'x) manager \<Rightarrow> ('s, 'x) manager" where
  "WithStrategy name factory m = m\<lparr>mFactories := put name factory (mFactories m)\<rparr>"

definition emptyManager :: "('s, 'x) repository \<Rightarrow> 's \<Rightarrow> ('s, 'x) manager" where
  "emptyManager R s =
     \<lparr>mRepo = R, mStore = s, mFactories = [(StrategyRoundRobin, NewRoundRobin)], mGroups = [],
      mStrategies = [], mPool = [], mOrder = [], mHolders = [], mBindings = [], mGen = 0\<rparr>"

text \<open>The step of NewManager that persists and adopts the global group if no stored one was.\<close>

definition ensureGlobal :: "time \<Rightarrow> ('s, 'x) manager \<Rightarrow> lease_error option \<times> ('s, 'x) manager" where
  "ensureGlobal now m =
     (if get (mGroups m) GlobalGroup \<noteq> None then (None, m)
      else (let g = \<lparr>grpID = GlobalGroup, grpStrategy = StrategyRoundRobin, grpRefs = [],
                     grpCreated = now, grpUpdated = now\<rparr>
            in case repo_save_group g m of
                 (Some e, m') \<Rightarrow> (Some (EPersistGlobal e), m')
               | (None, m') \<Rightarrow> adoptGroup g m'))"

text \<open>A nil repository is None. On an error the manager is discarded, but the store it was
  being built on keeps what was written.\<close>

definition NewManager ::
    "('s, 'x) repository option \<Rightarrow> (string \<times> 'x resource_scheme selection) list \<Rightarrow> time \<Rightarrow> 's
      \<Rightarrow> (lease_error + ('s, 'x) manager) \<times> 's" where
  "NewManager repo opts now s =
     (let R = (case repo of None \<Rightarrow> noopRepository | Some R \<Rightarrow> R);
          m0 = fold (\<lambda>(name, factory). WithStrategy name factory) opts (emptyManager R s)
      in case repoListGroups R s of
           (Inl e, s1) \<Rightarrow> (Inl (ELoadGroups e), s1)
         | (Inr listedGroups, s1) \<Rightarrow>
       (case loadGroups listedGroups (m0\<lparr>mStore := s1\<rparr>) of
           (Some e, m1) \<Rightarrow> (Inl e, mStore m1)
         | (None, m1) \<Rightarrow>
       (case ensureGlobal now m1 of
           (Some e, m2) \<Rightarrow> (Inl e, mStore m2)
         | (None, m2) \<Rightarrow>
       (case repoList R (mStore m2) of
           (Inl e, s3) \<Rightarrow> (Inl (ELoadPool e), s3)
         | (Inr listed, s3) \<Rightarrow>
       (case loadPool listed (m2\<lparr>mStore := s3\<rparr>) of
           (Some e, m4) \<Rightarrow> (Inl e, mStore m4)
         | (None, m4) \<Rightarrow> (Inr m4, mStore m4))))))"

section \<open>Groups\<close>

definition CreateGroup ::
    "time \<Rightarrow> group \<Rightarrow> ('s, 'x) manager \<Rightarrow> lease_error option \<times> ('s, 'x) manager" where
  "CreateGroup now g m =
     (if get (mGroups m) (grpID g) \<noteq> None then (Some (EGroupExists (grpID g)), m)
      else (case validateGroup m g of
          Inl e \<Rightarrow> (Some e, m)
        | Inr factory \<Rightarrow>
            (let g' = g\<lparr>grpCreated := now, grpUpdated := now\<rparr>
             in case repo_save_group g' m of
                  (Some e, m') \<Rightarrow> (Some (EPersistGroup (grpID g) e), m')
                | (None, m') \<Rightarrow>
                    (None, m'\<lparr>mGroups := put (grpID g) g' (mGroups m'),
                              mStrategies := put (grpID g) factory (mStrategies m')\<rparr>))))"

text \<open>
  UpdateGroup hands its callback a copy of the group, but the copy's Refs is the same Go map the
  manager keeps, so the callback can also write that map in place. A callback is therefore a
  function of the group that gives the group it leaves and the content it leaves the shared map
  with; the shared content is what the kept group has afterwards, on every path.
\<close>

definition UpdateGroup ::
    "time \<Rightarrow> string \<Rightarrow> (group \<Rightarrow> group \<times> (string, string) gomap) \<Rightarrow> ('s, 'x) manager
      \<Rightarrow> lease_error option \<times> ('s, 'x) manager" where
  "UpdateGroup now gid fn m =
     (case get (mGroups m) gid of
        None \<Rightarrow> (Some (EUpdateMissingGroup gid), m)
      | Some kept \<Rightarrow>
          (let (g1, shared) = fn kept;
               m1 = m\<lparr>mGroups := put gid (kept\<lparr>grpRefs := shared\<rparr>) (mGroups m)\<rparr>;
               g2 = g1\<lparr>grpID := grpID kept, grpCreated := grpCreated kept\<rparr>
           in case validateGroup m1 g2 of
                Inl e \<Rightarrow> (Some e, m1)
              | Inr factory \<Rightarrow>
                  (let g = g2\<lparr>grpUpdated := now\<rparr>
                   in case repo_save_group g m1 of
                        (Some e, m2) \<Rightarrow> (Some (EPersistGroup gid e), m2)
                      | (None, m2) \<Rightarrow>
                          (let m3 = m2\<lparr>mGroups := put gid g (mGroups m2)\<rparr>
                           in (None,
                               if strategyName g \<noteq> strategyName kept
                               then m3\<lparr>mStrategies := put gid factory (mStrategies m3)\<rparr>
                               else m3)))))"

definition members :: "('s, 'x) manager \<Rightarrow> string \<Rightarrow> string list" where
  "members m groupID = filter (\<lambda>rid. groupAt m rid = groupID) (mOrder m)"

section \<open>Holders\<close>

definition holdersOf :: "('s, 'x) manager \<Rightarrow> string \<Rightarrow> (string, int) gomap" where
  "holdersOf m resourceID = get_or [] (mHolders m) resourceID"

definition hold :: "string \<Rightarrow> string \<Rightarrow> ('s, 'x) manager \<Rightarrow> ('s, 'x) manager" where
  "hold resourceID taskID m =
     (let hs = holdersOf m resourceID
      in m\<lparr>mHolders := put resourceID (put taskID (get_or 0 hs taskID + 1) hs) (mHolders m)\<rparr>)"

text \<open>The source decrements the entry in place, then drops it at zero, then drops an empty inner
  map from the outer one. A missing inner map is nil: reads give 0, delete does nothing.\<close>

definition unheld :: "string \<Rightarrow> (string, int) gomap \<Rightarrow> (string, int) gomap" where
  "unheld taskID hs0 =
     (let hs1 = (if get_or 0 hs0 taskID > 0 then put taskID (get_or 0 hs0 taskID - 1) hs0 else hs0)
      in if get_or 0 hs1 taskID = 0 then del taskID hs1 else hs1)"

definition unhold :: "string \<Rightarrow> string \<Rightarrow> ('s, 'x) manager \<Rightarrow> ('s, 'x) manager" where
  "unhold resourceID taskID m =
     (let hs = unheld taskID (holdersOf m resourceID)
      in if hs = [] then m\<lparr>mHolders := del resourceID (mHolders m)\<rparr>
         else m\<lparr>mHolders := put resourceID hs (mHolders m)\<rparr>)"

definition heldCount :: "('s, 'x) manager \<Rightarrow> string \<Rightarrow> int" where
  "heldCount m resourceID = total (holdersOf m resourceID)"

definition holderIDs :: "('s, 'x) manager \<Rightarrow> string \<Rightarrow> string list" where
  "holderIDs m resourceID = sort (map fst (holdersOf m resourceID))"

definition effectiveCap :: "'x resource_scheme \<Rightarrow> int" where
  "effectiveCap c = (if resMax c \<noteq> 0 then resMax c else 1)"

section \<open>Deleting resources and groups\<close>

text \<open>The loop of remove over the order drops the first occurrence only.\<close>

definition remove :: "string \<Rightarrow> ('s, 'x) manager \<Rightarrow> lease_error option \<times> ('s, 'x) manager" where
  "remove rid m =
     (case repo_delete rid m of
        (Some e, m') \<Rightarrow> (Some (EDeleteResource rid e), m')
      | (None, m') \<Rightarrow>
          (None, broadcast (m'\<lparr>mPool := del rid (mPool m'), mHolders := del rid (mHolders m'),
                               mOrder := remove1 rid (mOrder m')\<rparr>)))"

text \<open>The first member with a live lease, if any: the loop of DeleteGroup that refuses.\<close>

fun firstHeld :: "('s, 'x) manager \<Rightarrow> string list \<Rightarrow> (string \<times> string list) option" where
  "firstHeld m [] = None"
| "firstHeld m (rid # ids) =
     (if holderIDs m rid \<noteq> [] then Some (rid, holderIDs m rid) else firstHeld m ids)"

text \<open>The loop of DeleteGroup that removes the members, collecting the tasks it unbinds.\<close>

fun removeMembers ::
    "string list \<Rightarrow> string list \<Rightarrow> ('s, 'x) manager
      \<Rightarrow> string list \<times> lease_error option \<times> ('s, 'x) manager" where
  "removeMembers [] unbound m = (unbound, None, m)"
| "removeMembers (rid # ids) unbound m =
     (let owner = ownerAt m rid
      in case remove rid m of
           (Some e, m') \<Rightarrow> (unbound, Some e, m')
         | (None, m') \<Rightarrow>
             if owner \<noteq> []
             then removeMembers ids (unbound @ [owner]) (m'\<lparr>mBindings := del owner (mBindings m')\<rparr>)
             else removeMembers ids unbound m')"

definition DeleteGroup ::
    "string \<Rightarrow> ('s, 'x) manager \<Rightarrow> string list \<times> lease_error option \<times> ('s, 'x) manager" where
  "DeleteGroup gid m =
     (if gid = GlobalGroup then ([], Some EDeleteGlobal, m)
      else if get (mGroups m) gid = None then ([], Some (EDeleteMissingGroup gid), m)
      else (case firstHeld m (members m gid) of
          Some (resourceID, hs) \<Rightarrow> ([], Some (EGroupHeld resourceID hs), m)
        | None \<Rightarrow>
            (case removeMembers (members m gid) [] m of
               (unbound, Some e, m') \<Rightarrow> (unbound, Some e, m')
             | (unbound, None, m') \<Rightarrow>
                 (case repo_delete_group gid m' of
                    (Some e, m'') \<Rightarrow> (unbound, Some (EDeleteGroupRow gid e), m'')
                  | (None, m'') \<Rightarrow>
                      (sort unbound, None,
                       broadcast (m''\<lparr>mGroups := del gid (mGroups m''),
                                      mStrategies := del gid (mStrategies m'')\<rparr>))))))"

definition Delete ::
    "string \<Rightarrow> ('s, 'x) manager \<Rightarrow> string list \<times> lease_error option \<times> ('s, 'x) manager" where
  "Delete rid m =
     (case get (mPool m) rid of
        None \<Rightarrow>
          (case repo_delete rid m of
             (Some e, m') \<Rightarrow> ([], Some (EDeleteUnknown e), m')
           | (None, m') \<Rightarrow> ([], None, m'))
      | Some p \<Rightarrow>
          if holderIDs m rid \<noteq> [] then ([], Some (EResourceHeld rid (holderIDs m rid)), m)
          else (case remove rid m of
              (Some e, m') \<Rightarrow> ([], Some e, m')
            | (None, m') \<Rightarrow>
                if resOwner p \<noteq> []
                then ([resOwner p], None, m'\<lparr>mBindings := del (resOwner p) (mBindings m')\<rparr>)
                else ([], None, m')))"

section \<open>Adding and updating resources\<close>

definition Add ::
    "time \<Rightarrow> 'x resource_scheme \<Rightarrow> ('s, 'x) manager \<Rightarrow> lease_error option \<times> ('s, 'x) manager" where
  "Add now p0 m =
     (if resID p0 = [] then (Some EResourceIDRequired, m)
      else if get (mPool m) (resID p0) \<noteq> None then (Some (EResourceExists (resID p0)), m)
      else if resOwner p0 \<noteq> [] then (Some (EAddLocked (resID p0)), m)
      else (case validateHolderPolicy (resID p0) (resMax p0) of
          Some e \<Rightarrow> (Some e, m)
        | None \<Rightarrow>
            (let p1 = (if resGroup p0 = [] then p0\<lparr>resGroup := GlobalGroup\<rparr> else p0)
             in if get (mGroups m) (resGroup p1) = None
                then (Some (EAddMissingGroup (resID p1) (resGroup p1)), m)
                else (let p = p1\<lparr>resCreated := now, resUpdated := now\<rparr>
                      in case repo_save p m of
                           (Some e, m') \<Rightarrow> (Some (EPersistResource (resID p) e), m')
                         | (None, m') \<Rightarrow>
                             (None, broadcast (m'\<lparr>mPool := put (resID p) p (mPool m'),
                                                  mOrder := mOrder m' @ [resID p]\<rparr>))))))"

text \<open>The callback edits a copy; the embedded resource is put back as it was, save UpdatedAt.\<close>

definition Update ::
    "time \<Rightarrow> string \<Rightarrow> ('x resource_scheme \<Rightarrow> 'x resource_scheme) \<Rightarrow> ('s, 'x) manager
      \<Rightarrow> lease_error option \<times> ('s, 'x) manager" where
  "Update now rid fn m =
     (case get (mPool m) rid of
        None \<Rightarrow> (Some (EUpdateMissing rid), m)
      | Some p0 \<Rightarrow>
          (let p = set_core ((core p0)\<lparr>resUpdated := now\<rparr>) (fn p0)
           in case repo_save p m of
                (Some e, m') \<Rightarrow> (Some (EPersistResource rid e), m')
              | (None, m') \<Rightarrow> (None, m'\<lparr>mPool := put rid p (mPool m')\<rparr>)))"

section \<open>Acquiring\<close>

definition lease_of :: "'x resource_scheme \<Rightarrow> string \<Rightarrow> ('s, 'x) manager \<Rightarrow> 'x lease" where
  "lease_of p taskID m =
     \<lparr>lseRes = p, lseGroup = get_or zeroGroup (mGroups m) (resGroup p), lseTask = taskID\<rparr>"

definition checkPin :: "assignment \<Rightarrow> ('s, 'x) manager \<Rightarrow> lease_error option" where
  "checkPin a m =
     (if asgRes a = [] then None
      else (case get (mPool m) (asgRes a) of
          None \<Rightarrow> Some (EPinMissing (asgRes a))
        | Some p \<Rightarrow>
            if resGroup p \<noteq> asgGroup a
            then Some (EPinGroup (asgRes a) (resGroup p) (asgGroup a))
            else if resOwner p \<noteq> [] \<and> resOwner p \<noteq> asgTask a
            then Some (EPinLocked (asgRes a) (resOwner p))
            else None))"

definition groupHasResources :: "('s, 'x) manager \<Rightarrow> string \<Rightarrow> bool" where
  "groupHasResources m groupID = (\<exists>rid \<in> set (mOrder m). groupAt m rid = groupID)"

text \<open>The tests of the loop of selectUnlocked, in its order.\<close>

definition is_candidate ::
    "assignment \<Rightarrow> bool \<Rightarrow> ('s, 'x) manager \<Rightarrow> string \<Rightarrow> 'x resource_scheme \<Rightarrow> bool" where
  "is_candidate a requireIdle m rid p =
     (if resGroup p \<noteq> asgGroup a \<or> resOwner p \<noteq> [] then False
      else if asgRes a \<noteq> [] \<and> resID p \<noteq> asgRes a then False
      else if requireIdle \<and> heldCount m rid > 0 then False
      else effectiveCap p = UnlimitedHolders \<or> heldCount m rid < effectiveCap p)"

text \<open>An id of the order without a pooled record would read the zero record, whose group is empty
  and so never the assignment's: it is passed over.\<close>

fun collect_candidates ::
    "assignment \<Rightarrow> bool \<Rightarrow> ('s, 'x) manager \<Rightarrow> string list \<Rightarrow> 'x resource_scheme list" where
  "collect_candidates a requireIdle m [] = []"
| "collect_candidates a requireIdle m (rid # ids) =
     (case get (mPool m) rid of
        Some p \<Rightarrow>
          if is_candidate a requireIdle m rid p then p # collect_candidates a requireIdle m ids
          else collect_candidates a requireIdle m ids
      | None \<Rightarrow> collect_candidates a requireIdle m ids)"

definition candidates ::
    "assignment \<Rightarrow> bool \<Rightarrow> ('s, 'x) manager \<Rightarrow> 'x resource_scheme list" where
  "candidates a requireIdle m = collect_candidates a requireIdle m (mOrder m)"

definition eligible :: "'x resource_scheme list \<Rightarrow> (string, 'x resource_scheme) gomap" where
  "eligible cs = fold (\<lambda>p. put (resID p) p) cs []"

datatype 'a found = Found 'a | NoneFound | SelFailed lease_error | SelPanicked

text \<open>A missing strategy would be a call on a nil interface, which panics.\<close>

definition selectUnlocked ::
    "assignment \<Rightarrow> bool \<Rightarrow> ('s, 'x) manager \<Rightarrow> 'x resource_scheme found \<times> ('s, 'x) manager" where
  "selectUnlocked a requireIdle m =
     (let cs = candidates a requireIdle m
      in if cs = [] then (NoneFound, m)
         else if asgRes a \<noteq> [] then (Found (hd cs), m)
         else (case get (mStrategies m) (asgGroup a) of
             None \<Rightarrow> (SelPanicked, m)
           | Some strategy \<Rightarrow>
               (let (r, strategy') = select strategy cs;
                    m' = m\<lparr>mStrategies := put (asgGroup a) strategy' (mStrategies m)\<rparr>
                in case r of
                     SelectPanic \<Rightarrow> (SelPanicked, m')
                   | SelectErr e \<Rightarrow> (SelFailed (ESelection e), m')
                   | Picked picked \<Rightarrow>
                       (case get (eligible cs) (resID picked) of
                          None \<Rightarrow> (SelFailed (ENotCandidate (resID picked)), m')
                        | Some live \<Rightarrow> (Found live, m')))))"

datatype 'x outcome = Leased "'x lease" | Refused lease_error | Waiting | Panicked

text \<open>
  One pass of the loop of acquire, from the point where it holds the mutex to where it returns or
  calls Wait. The first argument is \<^theory_text>\<open>ctx.Err()\<close> at that moment. A pass that waits gives
  \<^theory_text>\<open>Waiting\<close>; it is run again after a broadcast.
\<close>

definition acquire_unbound ::
    "time \<Rightarrow> assignment \<Rightarrow> bool \<Rightarrow> ('s, 'x) manager \<Rightarrow> 'x outcome \<times> ('s, 'x) manager" where
  "acquire_unbound now a lock m =
     (case get (mGroups m) (asgGroup a) of
        None \<Rightarrow> (Refused (EAcquireMissingGroup (asgGroup a)), m)
      | Some g \<Rightarrow>
      if \<not> groupHasResources m (grpID g) then (Refused (ENoResources (grpID g)), m)
      else (case selectUnlocked a lock m of
          (SelFailed e, m') \<Rightarrow> (Refused e, m')
        | (SelPanicked, m') \<Rightarrow> (Panicked, m')
        | (NoneFound, m') \<Rightarrow> (Waiting, m')
        | (Found p0, m') \<Rightarrow>
            if lock
            then (let p = p0\<lparr>resOwner := asgTask a, resUpdated := now\<rparr>
                  in case repo_save p m' of
                       (Some e, m'') \<Rightarrow> (Refused (EPersistLock e), m'')
                     | (None, m'') \<Rightarrow>
                         (let m3 = hold (resID p) (asgTask a)
                                     (m''\<lparr>mPool := put (resID p) p (mPool m''),
                                          mBindings := put (asgTask a) (resID p) (mBindings m'')\<rparr>)
                          in (Leased (lease_of p (asgTask a) m3), m3)))
            else (let m3 = hold (resID p0) (asgTask a) m'
                  in (Leased (lease_of p0 (asgTask a) m3), m3))))"

definition acquire_bound ::
    "assignment \<Rightarrow> string \<Rightarrow> 'x resource_scheme \<Rightarrow> ('s, 'x) manager
      \<Rightarrow> 'x outcome \<times> ('s, 'x) manager" where
  "acquire_bound a rid p m =
     (if asgRes a \<noteq> [] \<and> asgRes a \<noteq> rid then (Refused (EPinConflict (asgTask a) rid (asgRes a)), m)
      else if heldCount m rid = 0
      then (let m' = hold rid (asgTask a) m in (Leased (lease_of p (asgTask a) m'), m'))
      else (Waiting, m))"

definition acquire_pass ::
    "string option \<Rightarrow> time \<Rightarrow> assignment \<Rightarrow> bool \<Rightarrow> ('s, 'x) manager
      \<Rightarrow> 'x outcome \<times> ('s, 'x) manager" where
  "acquire_pass ctxErr now a lock m =
     (case ctxErr of
        Some e \<Rightarrow> (Refused (EContext e), m)
      | None \<Rightarrow>
     (case checkPin a m of
        Some e \<Rightarrow> (Refused e, m)
      | None \<Rightarrow>
     (case get (mBindings m) (asgTask a) of
        None \<Rightarrow> acquire_unbound now a lock m
      | Some rid \<Rightarrow>
          (case get (mPool m) rid of
             Some p \<Rightarrow> acquire_bound a rid p m
           | None \<Rightarrow> acquire_unbound now a lock
                       (m\<lparr>mBindings := del (asgTask a) (mBindings m)\<rparr>)))))"

text \<open>What acquire does before its first pass: refuse an empty task, default the group.\<close>

definition acquire_prepare :: "assignment \<Rightarrow> lease_error + assignment" where
  "acquire_prepare a =
     (if asgTask a = [] then Inl ETaskIDRequired
      else Inr (if asgGroup a = [] then a\<lparr>asgGroup := GlobalGroup\<rparr> else a))"

section \<open>Unlocking and releasing\<close>

definition unlock ::
    "time \<Rightarrow> string \<Rightarrow> string \<Rightarrow> ('s, 'x) manager \<Rightarrow> lease_error option \<times> ('s, 'x) manager" where
  "unlock now taskID resourceID m =
     (case get (mPool m) resourceID of
        None \<Rightarrow> (None, m\<lparr>mBindings := del taskID (mBindings m)\<rparr>)
      | Some p0 \<Rightarrow>
          (let p = p0\<lparr>resOwner := [], resUpdated := now\<rparr>
           in case repo_save p m of
                (Some e, m') \<Rightarrow> (Some (EPersistUnlock e), m')
              | (None, m') \<Rightarrow>
                  (None, broadcast (m'\<lparr>mPool := put resourceID p (mPool m'),
                                       mBindings := del taskID (mBindings m')\<rparr>))))"

definition Unlock ::
    "time \<Rightarrow> string \<Rightarrow> ('s, 'x) manager \<Rightarrow> lease_error option \<times> ('s, 'x) manager" where
  "Unlock now taskID m =
     (case get (mBindings m) taskID of
        None \<Rightarrow> (None, m)
      | Some rid \<Rightarrow> unlock now taskID rid m)"

definition fits :: "assignment \<Rightarrow> 'x resource_scheme \<Rightarrow> bool" where
  "fits a c =
     (if asgRes a \<noteq> [] then asgRes a = resID c
      else asgGroup a \<noteq> [] \<and> asgGroup a = resGroup c)"

definition ReleaseStaleLock ::
    "time \<Rightarrow> assignment \<Rightarrow> ('s, 'x) manager \<Rightarrow> lease_error option \<times> ('s, 'x) manager" where
  "ReleaseStaleLock now a m =
     (case get (mBindings m) (asgTask a) of
        None \<Rightarrow> (None, m)
      | Some rid \<Rightarrow>
          (case get (mPool m) rid of
             Some locked \<Rightarrow> if fits a locked then (None, m) else unlock now (asgTask a) rid m
           | None \<Rightarrow> unlock now (asgTask a) rid m))"

definition release :: "string \<Rightarrow> string \<Rightarrow> ('s, 'x) manager \<Rightarrow> ('s, 'x) manager" where
  "release rid taskID m = broadcast (unhold rid taskID m)"

section \<open>Reads\<close>

definition CheckAssignment :: "assignment \<Rightarrow> ('s, 'x) manager \<Rightarrow> lease_error option" where
  "CheckAssignment a0 m =
     (let a = (if asgGroup a0 = [] then a0\<lparr>asgGroup := GlobalGroup\<rparr> else a0)
      in if get (mGroups m) (asgGroup a) = None then Some (ECheckMissingGroup (asgGroup a))
         else checkPin a m)"

definition GetGroup :: "string \<Rightarrow> ('s, 'x) manager \<Rightarrow> group option" where
  "GetGroup gid m = get (mGroups m) gid"

definition ListGroups :: "('s, 'x) manager \<Rightarrow> group list" where
  "ListGroups m = sort_key grpID (map snd (mGroups m))"

definition Get :: "string \<Rightarrow> ('s, 'x) manager \<Rightarrow> 'x resource_scheme option" where
  "Get rid m = get (mPool m) rid"

definition ListAll :: "('s, 'x) manager \<Rightarrow> 'x resource_scheme list" where
  "ListAll m = List.map_filter (get (mPool m)) (mOrder m)"

definition assignment_key :: "assignment \<Rightarrow> string \<times> string" where
  "assignment_key a = (asgTask a, asgRes a)"

definition assignment_le :: "assignment \<Rightarrow> assignment \<Rightarrow> bool" where
  "assignment_le a b = (if asgTask a \<noteq> asgTask b then asgTask a < asgTask b else asgRes a \<le> asgRes b)"

text \<open>sortAssignments by insertion along its comparison: tasks first, then resources.\<close>

fun insert_assignment :: "assignment \<Rightarrow> assignment list \<Rightarrow> assignment list" where
  "insert_assignment a [] = [a]"
| "insert_assignment a (b # bs) =
     (if assignment_le a b then a # b # bs else b # insert_assignment a bs)"

definition sortAssignments :: "assignment list \<Rightarrow> assignment list" where
  "sortAssignments as = foldr insert_assignment as []"

definition asg_at :: "'x resource_scheme \<Rightarrow> string \<Rightarrow> assignment" where
  "asg_at c taskID = \<lparr>asgTask = taskID, asgGroup = resGroup c, asgRes = resID c\<rparr>"

definition held_of ::
    "('x resource_scheme \<Rightarrow> group \<Rightarrow> bool) \<Rightarrow> ('s, 'x) manager \<Rightarrow> string \<times> (string, int) gomap
      \<Rightarrow> assignment list" where
  "held_of pred m e =
     (case get (mPool m) (fst e) of
        None \<Rightarrow> []
      | Some p \<Rightarrow>
          if pred p (get_or zeroGroup (mGroups m) (resGroup p))
          then map (asg_at p) (map fst (snd e)) else [])"

definition Held ::
    "('x resource_scheme \<Rightarrow> group \<Rightarrow> bool) \<Rightarrow> ('s, 'x) manager \<Rightarrow> assignment list" where
  "Held pred m = sortAssignments (concat (map (held_of pred m) (mHolders m)))"

definition locked_of ::
    "('x resource_scheme \<Rightarrow> group \<Rightarrow> bool) \<Rightarrow> ('s, 'x) manager \<Rightarrow> string \<times> string
      \<Rightarrow> assignment list" where
  "locked_of pred m e =
     (case get (mPool m) (snd e) of
        None \<Rightarrow> []
      | Some p \<Rightarrow>
          if pred p (get_or zeroGroup (mGroups m) (resGroup p)) then [asg_at p (fst e)] else [])"

definition Locked ::
    "('x resource_scheme \<Rightarrow> group \<Rightarrow> bool) \<Rightarrow> ('s, 'x) manager \<Rightarrow> assignment list" where
  "Locked pred m = sortAssignments (concat (map (locked_of pred m) (mBindings m)))"

end
