(* ===== verification/Leasing_Invariant.thy ===== *)
theory Leasing_Invariant
  imports Leasing_Manager
begin

text \<open>
  The invariant of the leasing manager and its preservation by every operation. The first group of
  lemmas treats the elementary changes the operations are made of (a hold, a durable lock set or
  cleared, a resource installed or removed); the second composes them.
\<close>

section \<open>The invariant\<close>

definition inv_maps :: "('s, 'x) manager \<Rightarrow> bool" where
  "inv_maps m \<longleftrightarrow> wf_map (mGroups m) \<and> wf_map (mStrategies m) \<and> wf_map (mPool m) \<and>
     wf_map (mHolders m) \<and> wf_map (mBindings m)"

text \<open>The order lists the pool, every record is filed under its own id, in a known group, with a
  legal holder policy.\<close>

definition inv_pool :: "('s, 'x) manager \<Rightarrow> bool" where
  "inv_pool m \<longleftrightarrow> distinct (mOrder m) \<and>
     (\<forall>rid. rid \<in> set (mOrder m) \<longleftrightarrow> get (mPool m) rid \<noteq> None) \<and>
     (\<forall>rid p. get (mPool m) rid = Some p \<longrightarrow>
        resID p = rid \<and> get (mGroups m) (resGroup p) \<noteq> None \<and> UnlimitedHolders \<le> resMax p)"

text \<open>Every group is filed under its own id, names a registered strategy and has an instance of
  one; the global group is there.\<close>

definition inv_groups :: "('s, 'x) manager \<Rightarrow> bool" where
  "inv_groups m \<longleftrightarrow>
     (\<forall>gid. get (mStrategies m) gid \<noteq> None \<longleftrightarrow> get (mGroups m) gid \<noteq> None) \<and>
     get (mGroups m) GlobalGroup \<noteq> None \<and>
     (\<forall>gid g. get (mGroups m) gid = Some g \<longrightarrow>
        grpID g = gid \<and> gid \<noteq> [] \<and> get (mFactories m) (strategyName g) \<noteq> None)"

text \<open>Holders are kept for pooled resources only, with positive counts and no empty entry.\<close>

definition inv_holders :: "('s, 'x) manager \<Rightarrow> bool" where
  "inv_holders m \<longleftrightarrow>
     (\<forall>rid h. get (mHolders m) rid = Some h \<longrightarrow>
        get (mPool m) rid \<noteq> None \<and> wf_map h \<and> h \<noteq> [] \<and> (\<forall>t n. (t, n) \<in> set h \<longrightarrow> 0 < n))"

text \<open>The bindings are exactly the durable locks the pooled records carry.\<close>

definition inv_bind :: "('s, 'x) manager \<Rightarrow> bool" where
  "inv_bind m \<longleftrightarrow>
     (\<forall>t rid. get (mBindings m) t = Some rid \<longleftrightarrow>
        t \<noteq> [] \<and> (\<exists>p. get (mPool m) rid = Some p \<and> resOwner p = t))"

text \<open>No resource has more live leases than its holder cap.\<close>

definition inv_cap :: "('s, 'x) manager \<Rightarrow> bool" where
  "inv_cap m \<longleftrightarrow>
     (\<forall>rid p. get (mPool m) rid = Some p \<longrightarrow>
        effectiveCap p = UnlimitedHolders \<or> heldCount m rid \<le> effectiveCap p)"

text \<open>A durably locked resource is leased by its owner alone, at most once.\<close>

definition inv_excl :: "('s, 'x) manager \<Rightarrow> bool" where
  "inv_excl m \<longleftrightarrow>
     (\<forall>rid p. get (mPool m) rid = Some p \<and> resOwner p \<noteq> [] \<longrightarrow>
        holdersOf m rid = [] \<or> holdersOf m rid = [(resOwner p, 1)])"

definition lease_inv :: "('s, 'x) manager \<Rightarrow> bool" where
  "lease_inv m \<longleftrightarrow> inv_maps m \<and> inv_pool m \<and> inv_groups m \<and> inv_holders m \<and> inv_bind m \<and>
     inv_cap m \<and> inv_excl m"

lemmas inv_defs = inv_maps_def inv_pool_def inv_groups_def inv_holders_def inv_bind_def
  inv_cap_def inv_excl_def

lemma lease_invI:
  "inv_maps m \<Longrightarrow> inv_pool m \<Longrightarrow> inv_groups m \<Longrightarrow> inv_holders m \<Longrightarrow> inv_bind m \<Longrightarrow>
    inv_cap m \<Longrightarrow> inv_excl m \<Longrightarrow> lease_inv m"
  by (simp add: lease_inv_def)

lemma lease_invD:
  assumes "lease_inv m"
  shows "inv_maps m" "inv_pool m" "inv_groups m" "inv_holders m" "inv_bind m" "inv_cap m"
    "inv_excl m"
  using assms by (simp_all add: lease_inv_def)

text \<open>Fields the readers of the state do not look at.\<close>

lemma holdersOf_frame [simp, frame_simps]:
  "holdersOf (m\<lparr>mStore := s\<rparr>) rid = holdersOf m rid"
  "holdersOf (m\<lparr>mGen := n\<rparr>) rid = holdersOf m rid"
  "holdersOf (m\<lparr>mGroups := gs\<rparr>) rid = holdersOf m rid"
  "holdersOf (m\<lparr>mStrategies := ss\<rparr>) rid = holdersOf m rid"
  "holdersOf (m\<lparr>mPool := ps\<rparr>) rid = holdersOf m rid"
  "holdersOf (m\<lparr>mOrder := os\<rparr>) rid = holdersOf m rid"
  "holdersOf (m\<lparr>mBindings := bs\<rparr>) rid = holdersOf m rid"
  by (simp_all add: holdersOf_def)

lemma heldCount_frame [simp, frame_simps]:
  "heldCount (m\<lparr>mStore := s\<rparr>) rid = heldCount m rid"
  "heldCount (m\<lparr>mGen := n\<rparr>) rid = heldCount m rid"
  "heldCount (m\<lparr>mGroups := gs\<rparr>) rid = heldCount m rid"
  "heldCount (m\<lparr>mStrategies := ss\<rparr>) rid = heldCount m rid"
  "heldCount (m\<lparr>mPool := ps\<rparr>) rid = heldCount m rid"
  "heldCount (m\<lparr>mOrder := os\<rparr>) rid = heldCount m rid"
  "heldCount (m\<lparr>mBindings := bs\<rparr>) rid = heldCount m rid"
  by (simp_all add: heldCount_def)

lemma holdersOf_holders [simp]:
  "holdersOf (m\<lparr>mHolders := put r h hs\<rparr>) rid =
     (if rid = r then h else holdersOf (m\<lparr>mHolders := hs\<rparr>) rid)"
  "holdersOf (m\<lparr>mHolders := del r hs\<rparr>) rid =
     (if rid = r then [] else holdersOf (m\<lparr>mHolders := hs\<rparr>) rid)"
  by (simp_all add: holdersOf_def)

lemma lease_inv_store [simp]: "lease_inv (m\<lparr>mStore := s\<rparr>) = lease_inv m"
  by (simp add: lease_inv_def inv_defs)

lemma lease_inv_gen [simp]: "lease_inv (m\<lparr>mGen := n\<rparr>) = lease_inv m"
  by (simp add: lease_inv_def inv_defs)

lemma lease_inv_broadcast [simp]: "lease_inv (broadcast m) = lease_inv m"
  by (simp add: broadcast_def)

lemma repo_save_result:
  "repo_save p m = (e, m') \<longleftrightarrow>
     (\<exists>s. repoSave (mRepo m) p (mStore m) = (e, s) \<and> m' = m\<lparr>mStore := s\<rparr>)"
  by (auto simp: repo_save_def split: prod.splits)

lemma repo_delete_result:
  "repo_delete rid m = (e, m') \<longleftrightarrow>
     (\<exists>s. repoDelete (mRepo m) rid (mStore m) = (e, s) \<and> m' = m\<lparr>mStore := s\<rparr>)"
  by (auto simp: repo_delete_def split: prod.splits)

lemma repo_save_group_result:
  "repo_save_group g m = (e, m') \<longleftrightarrow>
     (\<exists>s. repoSaveGroup (mRepo m) g (mStore m) = (e, s) \<and> m' = m\<lparr>mStore := s\<rparr>)"
  by (auto simp: repo_save_group_def split: prod.splits)

lemma repo_delete_group_result:
  "repo_delete_group gid m = (e, m') \<longleftrightarrow>
     (\<exists>s. repoDeleteGroup (mRepo m) gid (mStore m) = (e, s) \<and> m' = m\<lparr>mStore := s\<rparr>)"
  by (auto simp: repo_delete_group_def split: prod.splits)

lemmas repo_results = repo_save_result repo_delete_result repo_save_group_result
  repo_delete_group_result

section \<open>Reading the invariant\<close>

lemma pool_id: "lease_inv m \<Longrightarrow> get (mPool m) rid = Some p \<Longrightarrow> resID p = rid"
  by (simp add: lease_inv_def inv_pool_def)

lemma pool_group: "lease_inv m \<Longrightarrow> get (mPool m) rid = Some p \<Longrightarrow> \<exists>g. get (mGroups m) (resGroup p) = Some g"
  by (simp add: lease_inv_def inv_pool_def)

lemma pool_policy: "lease_inv m \<Longrightarrow> get (mPool m) rid = Some p \<Longrightarrow> UnlimitedHolders \<le> resMax p"
  by (simp add: lease_inv_def inv_pool_def)

lemma order_pool: "lease_inv m \<Longrightarrow> rid \<in> set (mOrder m) \<longleftrightarrow> (\<exists>p. get (mPool m) rid = Some p)"
  by (auto simp: lease_inv_def inv_pool_def)

lemma binding_owner:
  "lease_inv m \<Longrightarrow> get (mBindings m) t = Some rid \<longleftrightarrow>
     t \<noteq> [] \<and> (\<exists>p. get (mPool m) rid = Some p \<and> resOwner p = t)"
  by (simp add: lease_inv_def inv_bind_def)

lemma holdersOf_wf: "lease_inv m \<Longrightarrow> wf_map (holdersOf m rid)"
  by (auto simp: holdersOf_def get_or_def lease_inv_def inv_holders_def split: option.splits)

lemma holdersOf_pos:
  assumes "lease_inv m" "(t, n) \<in> set (holdersOf m rid)"
  shows "0 < n"
proof (cases "get (mHolders m) rid")
  case None
  with assms show ?thesis by (simp add: holdersOf_def)
next
  case (Some h)
  with assms show ?thesis unfolding lease_inv_def inv_holders_def holdersOf_def by fastforce
qed

lemma holdersOf_pooled:
  "lease_inv m \<Longrightarrow> holdersOf m rid \<noteq> [] \<Longrightarrow> \<exists>p. get (mPool m) rid = Some p"
  by (auto simp: holdersOf_def get_or_def lease_inv_def inv_holders_def split: option.splits)

lemma heldCount_nonneg: "lease_inv m \<Longrightarrow> 0 \<le> heldCount m rid"
  unfolding heldCount_def by (rule total_nonneg) (rule holdersOf_pos)

lemma heldCount_zero:
  assumes "lease_inv m"
  shows "heldCount m rid = 0 \<longleftrightarrow> holdersOf m rid = []"
proof (cases "holdersOf m rid = []")
  case False
  then have "0 < heldCount m rid"
    unfolding heldCount_def by (rule total_pos) (rule holdersOf_pos [OF assms])
  with False show ?thesis by simp
qed (simp add: heldCount_def)

lemma holderIDs_Nil: "holderIDs m rid = [] \<longleftrightarrow> holdersOf m rid = []"
  by (metis holderIDs_def length_sort length_map length_0_conv)

lemma effectiveCap_cases:
  "UnlimitedHolders \<le> resMax p \<Longrightarrow> effectiveCap p = UnlimitedHolders \<or> 1 \<le> effectiveCap p"
  by (auto simp: effectiveCap_def UnlimitedHolders_def)

lemma get_or_holders_nonneg: "lease_inv m \<Longrightarrow> 0 \<le> get_or 0 (holdersOf m rid) t"
  by (cases "get (holdersOf m rid) t") (auto dest!: map_of_SomeD dest: holdersOf_pos)

section \<open>Elementary changes\<close>

text \<open>Holding and releasing.\<close>

lemma hold_fields [simp, frame_simps]:
  "mRepo (hold rid t m) = mRepo m" "mStore (hold rid t m) = mStore m"
  "mFactories (hold rid t m) = mFactories m" "mGroups (hold rid t m) = mGroups m"
  "mStrategies (hold rid t m) = mStrategies m" "mPool (hold rid t m) = mPool m"
  "mOrder (hold rid t m) = mOrder m" "mBindings (hold rid t m) = mBindings m"
  "mGen (hold rid t m) = mGen m"
  by (simp_all add: hold_def Let_def)

lemma unhold_fields [simp, frame_simps]:
  "mRepo (unhold rid t m) = mRepo m" "mStore (unhold rid t m) = mStore m"
  "mFactories (unhold rid t m) = mFactories m" "mGroups (unhold rid t m) = mGroups m"
  "mStrategies (unhold rid t m) = mStrategies m" "mPool (unhold rid t m) = mPool m"
  "mOrder (unhold rid t m) = mOrder m" "mBindings (unhold rid t m) = mBindings m"
  "mGen (unhold rid t m) = mGen m"
  by (simp_all add: unhold_def Let_def)

lemma holdersOf_hold:
  "holdersOf (hold rid t m) r =
     (if r = rid then put t (get_or 0 (holdersOf m rid) t + 1) (holdersOf m rid) else holdersOf m r)"
  by (simp add: hold_def Let_def holdersOf_def)

lemma heldCount_hold:
  "lease_inv m \<Longrightarrow> heldCount (hold rid t m) r = heldCount m r + (if r = rid then 1 else 0)"
  by (simp add: heldCount_def holdersOf_hold total_put holdersOf_wf)

lemma holdersOf_unhold:
  "holdersOf (unhold rid t m) r = (if r = rid then unheld t (holdersOf m rid) else holdersOf m r)"
  by (simp add: unhold_def Let_def holdersOf_def)

lemma wf_unheld: "wf_map hs \<Longrightarrow> wf_map (unheld t hs)"
  by (simp add: unheld_def Let_def)

text \<open>The three ways a decrement goes: to a smaller count, to a dropped entry, or nowhere.\<close>

lemma unheld_cases:
  "1 < get_or 0 hs t \<Longrightarrow> unheld t hs = put t (get_or 0 hs t - 1) hs"
  "get_or 0 hs t = 1 \<Longrightarrow> unheld t hs = del t (put t 0 hs)"
  "get_or 0 hs t = 0 \<Longrightarrow> unheld t hs = del t hs"
  "get_or 0 hs t < 0 \<Longrightarrow> unheld t hs = hs"
  by (simp_all add: unheld_def)

lemma count_cases:
  fixes v :: int
  obtains "1 < v" | "v = 1" | "v = 0" | "v < 0"
  by linarith

lemma get_or_unheld:
  assumes "wf_map hs" "0 \<le> get_or 0 hs t"
  shows "get_or 0 (unheld t hs) t' =
    (if t' = t then max 0 (get_or 0 hs t - 1) else get_or 0 hs t')"
  using assms by (cases "get_or 0 hs t" rule: count_cases) (simp_all add: unheld_cases)

lemma total_unheld:
  assumes "wf_map hs" "0 \<le> get_or 0 hs t"
  shows "total (unheld t hs) = total hs - (if 0 < get_or 0 hs t then 1 else 0)"
  using assms
  by (cases "get_or 0 hs t" rule: count_cases) (simp_all add: unheld_cases total_put total_del)

lemma unheld_pos:
  assumes "\<And>t n. (t, n) \<in> set hs \<Longrightarrow> 0 < n" "wf_map hs" "(t', n) \<in> set (unheld t hs)"
  shows "0 < n"
proof -
  have "(t', n) \<in> set hs \<or> 0 < n"
    using assms(3) by (cases "get_or 0 hs t" rule: count_cases)
      (auto simp: unheld_cases dest!: set_put_values set_del_values)
  with assms(1) show ?thesis by blast
qed

lemma unheld_single: "unheld t [(u, 1)] = (if t = u then [] else [(u, 1)])"
  by (simp add: unheld_def get_or_def)

lemma unheld_Nil [simp]: "unheld t [] = []"
  by (simp add: unheld_def)

lemma unheld_absent: "get_or 0 hs t = 0 \<Longrightarrow> t \<notin> fst ` set hs \<Longrightarrow> unheld t hs = hs"
  by (simp add: unheld_def Let_def del_no_key)

lemma heldCount_unhold:
  "lease_inv m \<Longrightarrow> heldCount (unhold rid t m) r =
     heldCount m r - (if r = rid \<and> 0 < get_or 0 (holdersOf m rid) t then 1 else 0)"
  by (simp add: heldCount_def holdersOf_unhold total_unheld holdersOf_wf get_or_holders_nonneg)

lemma mHolders_hold: "mHolders (hold rid t m) = put rid (holdersOf (hold rid t m) rid) (mHolders m)"
  by (simp add: hold_def Let_def holdersOf_def)

lemma mHolders_unhold:
  "mHolders (unhold rid t m) =
     (let h = unheld t (holdersOf m rid)
      in if h = [] then del rid (mHolders m) else put rid h (mHolders m))"
  by (simp add: unhold_def Let_def)

lemma lease_inv_hold:
  assumes inv: "lease_inv m" and p: "get (mPool m) rid = Some p"
    and cap: "effectiveCap p = UnlimitedHolders \<or> heldCount m rid < effectiveCap p"
    and own: "resOwner p \<noteq> [] \<Longrightarrow> t = resOwner p \<and> holdersOf m rid = []"
  shows "lease_inv (hold rid t m)"
proof (rule lease_invI)
  note D = lease_invD [OF inv]
  show "inv_maps (hold rid t m)" using D(1) by (simp add: inv_maps_def mHolders_hold)
  show "inv_pool (hold rid t m)" using D(2) by (simp add: inv_pool_def)
  show "inv_groups (hold rid t m)" using D(3) by (simp add: inv_groups_def)
  show "inv_bind (hold rid t m)" using D(5) by (simp add: inv_bind_def)
  show "inv_holders (hold rid t m)"
    unfolding inv_holders_def
  proof (intro allI impI)
    fix r h assume h: "get (mHolders (hold rid t m)) r = Some h"
    show "get (mPool (hold rid t m)) r \<noteq> None \<and> wf_map h \<and> h \<noteq> [] \<and> (\<forall>t n. (t, n) \<in> set h \<longrightarrow> 0 < n)"
    proof (cases "r = rid")
      case True
      with h have h: "h = put t (get_or 0 (holdersOf m rid) t + 1) (holdersOf m rid)"
        by (simp add: mHolders_hold holdersOf_hold)
      have "0 < n" if "(t', n) \<in> set h" for t' n
        using that holdersOf_pos [OF inv] get_or_holders_nonneg [OF inv, of rid t]
        by (auto simp: h dest!: set_put_values)
      with True p h holdersOf_wf [OF inv, of rid] show ?thesis by simp
    next
      case False
      with h D(4) show ?thesis by (simp add: mHolders_hold inv_holders_def)
    qed
  qed
  show "inv_cap (hold rid t m)"
    using D(6) p cap by (auto simp: inv_cap_def heldCount_hold [OF inv])
  show "inv_excl (hold rid t m)"
    unfolding inv_excl_def
  proof (intro allI impI)
    fix r q assume q: "get (mPool (hold rid t m)) r = Some q \<and> resOwner q \<noteq> []"
    show "holdersOf (hold rid t m) r = [] \<or> holdersOf (hold rid t m) r = [(resOwner q, 1)]"
      using q p own D(7) by (auto simp: holdersOf_hold inv_excl_def)
  qed
qed

lemma lease_inv_unhold [inv_intros]:
  assumes inv: "lease_inv m"
  shows "lease_inv (unhold rid t m)"
proof (rule lease_invI)
  note D = lease_invD [OF inv]
  show "inv_maps (unhold rid t m)" using D(1) by (simp add: inv_maps_def mHolders_unhold Let_def)
  show "inv_pool (unhold rid t m)" using D(2) by (simp add: inv_pool_def)
  show "inv_groups (unhold rid t m)" using D(3) by (simp add: inv_groups_def)
  show "inv_bind (unhold rid t m)" using D(5) by (simp add: inv_bind_def)
  show "inv_holders (unhold rid t m)"
    unfolding inv_holders_def
  proof (intro allI impI)
    fix r h assume h: "get (mHolders (unhold rid t m)) r = Some h"
    show "get (mPool (unhold rid t m)) r \<noteq> None \<and> wf_map h \<and> h \<noteq> [] \<and> (\<forall>t n. (t, n) \<in> set h \<longrightarrow> 0 < n)"
    proof (cases "r = rid")
      case True
      with h have h: "h = unheld t (holdersOf m rid)" and ne: "h \<noteq> []"
        by (auto simp: mHolders_unhold Let_def split: if_splits)
      have "holdersOf m rid \<noteq> []" using ne h by (auto simp: unheld_def get_or_def)
      then have "\<exists>p. get (mPool m) rid = Some p" by (rule holdersOf_pooled [OF inv])
      moreover have "0 < n" if "(t', n) \<in> set h" for t' n
        using unheld_pos [of "holdersOf m rid" t' n t] that h holdersOf_pos [OF inv]
          holdersOf_wf [OF inv] by blast
      ultimately show ?thesis using True ne h holdersOf_wf [OF inv, of rid] by (auto simp: wf_unheld)
    next
      case False
      with h D(4) show ?thesis by (auto simp: mHolders_unhold Let_def inv_holders_def split: if_splits)
    qed
  qed
  show "inv_cap (unhold rid t m)"
    using D(6) by (fastforce simp: inv_cap_def heldCount_unhold [OF inv])
  show "inv_excl (unhold rid t m)"
    unfolding inv_excl_def
  proof (intro allI impI)
    fix r q assume q: "get (mPool (unhold rid t m)) r = Some q \<and> resOwner q \<noteq> []"
    then have "holdersOf m r = [] \<or> holdersOf m r = [(resOwner q, 1)]"
      using D(7) by (simp add: inv_excl_def)
    then show "holdersOf (unhold rid t m) r = [] \<or> holdersOf (unhold rid t m) r = [(resOwner q, 1)]"
      by (auto simp: holdersOf_unhold unheld_single split: if_splits)
  qed
qed

text \<open>A record replaced by one with the same id, group and policy; the durable lock may change,
  together with the bindings.\<close>

lemma lease_inv_replace:
  assumes inv: "lease_inv m" and p: "get (mPool m) rid = Some p"
    and same: "resID q = resID p" "resGroup q = resGroup p" "resMax q = resMax p"
    and wf: "wf_map bs"
    and bind: "\<And>t r. get bs t = Some r \<longleftrightarrow>
        t \<noteq> [] \<and> (if r = rid then resOwner q = t else (\<exists>p. get (mPool m) r = Some p \<and> resOwner p = t))"
    and excl: "resOwner q \<noteq> [] \<Longrightarrow> holdersOf m rid = [] \<or> holdersOf m rid = [(resOwner q, 1)]"
  shows "lease_inv (m\<lparr>mPool := put rid q (mPool m), mBindings := bs\<rparr>)"
proof (rule lease_invI)
  note D = lease_invD [OF inv]
  let ?m = "m\<lparr>mPool := put rid q (mPool m), mBindings := bs\<rparr>"
  have cap: "effectiveCap q = effectiveCap p" using same by (simp add: effectiveCap_def)
  show "inv_maps ?m" using D(1) wf by (simp add: inv_maps_def)
  show "inv_pool ?m" using D(2) p same by (auto simp: inv_pool_def)
  show "inv_groups ?m" using D(3) by (simp add: inv_groups_def)
  show "inv_holders ?m" using D(4) by (fastforce simp: inv_holders_def)
  show "inv_bind ?m" using bind by (simp add: inv_bind_def)
  show "inv_cap ?m" using D(6) p cap by (auto simp: inv_cap_def)
  show "inv_excl ?m" using D(7) excl by (auto simp: inv_excl_def)
qed

text \<open>Writing back a record whose embedded resource only changed its timestamps.\<close>

lemma lease_inv_rewrite:
  assumes inv: "lease_inv m" and p: "get (mPool m) rid = Some p"
    and same: "resID q = resID p" "resGroup q = resGroup p" "resMax q = resMax p"
      "resOwner q = resOwner p"
  shows "lease_inv (m\<lparr>mPool := put rid q (mPool m)\<rparr>)"
proof -
  have "lease_inv (m\<lparr>mPool := put rid q (mPool m), mBindings := mBindings m\<rparr>)"
    using inv p same(1-3)
  proof (rule lease_inv_replace)
    show "wf_map (mBindings m)" using lease_invD(1) [OF inv] by (simp add: inv_maps_def)
    show "get (mBindings m) t = Some r \<longleftrightarrow>
        t \<noteq> [] \<and> (if r = rid then resOwner q = t else (\<exists>p. get (mPool m) r = Some p \<and> resOwner p = t))"
      for t r using p same(4) by (auto simp: binding_owner [OF inv])
    show "holdersOf m rid = [] \<or> holdersOf m rid = [(resOwner q, 1)]" if "resOwner q \<noteq> []"
      using lease_invD(7) [OF inv] p that same(4) by (simp add: inv_excl_def)
  qed
  then show ?thesis by simp
qed

text \<open>A durable lock set on an idle, unlocked resource for an unbound task.\<close>

lemma lease_inv_bind:
  assumes inv: "lease_inv m" and p: "get (mPool m) rid = Some p" "resOwner p = []"
    and t: "t \<noteq> []" "get (mBindings m) t = None" and idle: "holdersOf m rid = []"
  shows "lease_inv (m\<lparr>mPool := put rid (p\<lparr>resOwner := t, resUpdated := now\<rparr>) (mPool m),
                      mBindings := put t rid (mBindings m)\<rparr>)"
  using inv p(1)
proof (rule lease_inv_replace)
  let ?q = "p\<lparr>resOwner := t, resUpdated := now\<rparr>"
  show "wf_map (put t rid (mBindings m))"
    using lease_invD(1) [OF inv] by (simp add: inv_maps_def)
  show "get (put t rid (mBindings m)) t' = Some r \<longleftrightarrow>
      t' \<noteq> [] \<and> (if r = rid then resOwner ?q = t' else (\<exists>p. get (mPool m) r = Some p \<and> resOwner p = t'))"
    for t' r
  proof (cases "t' = t")
    case True
    have "\<not> (\<exists>p. get (mPool m) r = Some p \<and> resOwner p = t)" using t binding_owner [OF inv, of t r] by auto
    with True t show ?thesis by auto
  next
    case False
    with p show ?thesis by (auto simp: binding_owner [OF inv])
  qed
qed (use idle in simp_all)

text \<open>A durable lock cleared, with its binding.\<close>

lemma lease_inv_unbind:
  assumes inv: "lease_inv m" and p: "get (mPool m) rid = Some p" "resOwner p = t"
  shows "lease_inv (m\<lparr>mPool := put rid (p\<lparr>resOwner := [], resUpdated := now\<rparr>) (mPool m),
                      mBindings := del t (mBindings m)\<rparr>)"
  using inv p(1)
proof (rule lease_inv_replace)
  show "wf_map (del t (mBindings m))" using lease_invD(1) [OF inv] by (simp add: inv_maps_def)
  show "get (del t (mBindings m)) t' = Some r \<longleftrightarrow> t' \<noteq> [] \<and>
      (if r = rid then resOwner (p\<lparr>resOwner := [], resUpdated := now\<rparr>) = t'
       else (\<exists>p. get (mPool m) r = Some p \<and> resOwner p = t'))"
    for t' r
  proof (cases "t' = t")
    case True
    have "r = rid" if "t \<noteq> []" "get (mPool m) r = Some q" "resOwner q = t" for q
      using that p binding_owner [OF inv, of t r] binding_owner [OF inv, of t rid] by auto
    with True p show ?thesis by auto
  next
    case False
    with p show ?thesis by (auto simp: binding_owner [OF inv])
  qed
qed simp_all

text \<open>A new resource, with the durable lock it carries, if any.\<close>

lemma lease_inv_install_locked:
  assumes inv: "lease_inv m" and new: "get (mPool m) rid = None"
    and q: "resID q = rid" "get (mGroups m) (resGroup q) \<noteq> None" "UnlimitedHolders \<le> resMax q"
    and own: "resOwner q \<noteq> [] \<Longrightarrow> get (mBindings m) (resOwner q) = None"
  shows "lease_inv (m\<lparr>mPool := put rid q (mPool m), mOrder := mOrder m @ [rid],
                      mBindings := (if resOwner q = [] then mBindings m
                                    else put (resOwner q) rid (mBindings m))\<rparr>)" (is "lease_inv ?m")
proof (rule lease_invI)
  note D = lease_invD [OF inv]
  have idle: "holdersOf m rid = []" using holdersOf_pooled [OF inv, of rid] new by auto
  have fresh: "rid \<notin> set (mOrder m)" using new by (simp add: order_pool [OF inv])
  show "inv_maps ?m" using D(1) by (simp add: inv_maps_def)
  show "inv_pool ?m" using D(2) q fresh by (auto simp: inv_pool_def)
  show "inv_groups ?m" using D(3) by (simp add: inv_groups_def)
  show "inv_holders ?m" using D(4) by (fastforce simp: inv_holders_def)
  show "inv_bind ?m"
    unfolding inv_bind_def
  proof (intro allI)
    fix t r
    have free: "\<not> (\<exists>p. get (mPool m) r = Some p \<and> resOwner p = resOwner q)" if "resOwner q \<noteq> []"
      using own [OF that] that binding_owner [OF inv, of "resOwner q" r] by auto
    show "get (mBindings ?m) t = Some r \<longleftrightarrow>
        t \<noteq> [] \<and> (\<exists>p. get (mPool ?m) r = Some p \<and> resOwner p = t)"
    proof (cases "resOwner q \<noteq> [] \<and> t = resOwner q")
      case True
      with free show ?thesis by auto
    next
      case False
      with new show ?thesis by (auto simp: binding_owner [OF inv])
    qed
  qed
  have "effectiveCap q = UnlimitedHolders \<or> heldCount m rid \<le> effectiveCap q"
    using effectiveCap_cases [OF q(3)] idle by (auto simp: heldCount_def)
  then show "inv_cap ?m" using D(6) by (auto simp: inv_cap_def)
  show "inv_excl ?m" using D(7) idle by (auto simp: inv_excl_def)
qed

lemma lease_inv_install:
  assumes inv: "lease_inv m" and new: "get (mPool m) rid = None"
    and q: "resID q = rid" "resOwner q = []" "get (mGroups m) (resGroup q) \<noteq> None"
      "UnlimitedHolders \<le> resMax q"
  shows "lease_inv (m\<lparr>mPool := put rid q (mPool m), mOrder := mOrder m @ [rid]\<rparr>)"
proof -
  have "m\<lparr>mPool := put rid q (mPool m), mOrder := mOrder m @ [rid]\<rparr> =
      m\<lparr>mPool := put rid q (mPool m), mOrder := mOrder m @ [rid],
        mBindings := (if resOwner q = [] then mBindings m else put (resOwner q) rid (mBindings m))\<rparr>"
    using q(2) by simp
  with lease_inv_install_locked [OF inv new q(1,3,4)] q(2) show ?thesis by simp
qed

text \<open>A resource removed with its lock, while nobody holds it.\<close>

lemma lease_inv_remove:
  assumes inv: "lease_inv m" and p: "get (mPool m) rid = Some p" and idle: "holdersOf m rid = []"
  shows "lease_inv (m\<lparr>mPool := del rid (mPool m), mHolders := del rid (mHolders m),
                      mOrder := remove1 rid (mOrder m),
                      mBindings := (if resOwner p \<noteq> [] then del (resOwner p) (mBindings m)
                                    else mBindings m)\<rparr>)" (is "lease_inv ?m")
proof (rule lease_invI)
  note D = lease_invD [OF inv]
  have hs: "get (mHolders m) rid = None"
    using idle D(4) by (cases "get (mHolders m) rid") (auto simp: holdersOf_def inv_holders_def)
  have held: "holdersOf ?m r = holdersOf m r" for r
    using hs by (simp add: holdersOf_def get_or_def)
  then have count: "heldCount ?m r = heldCount m r" for r
    by (simp add: heldCount_def)
  show "inv_maps ?m" using D(1) by (simp add: inv_maps_def)
  show "inv_pool ?m" using D(2) by (auto simp: inv_pool_def split: if_splits)
  show "inv_groups ?m" using D(3) by (simp add: inv_groups_def)
  show "inv_holders ?m" using D(4) by (auto simp: inv_holders_def split: if_splits)
  show "inv_cap ?m" using D(6) count by (simp add: inv_cap_def)
  show "inv_excl ?m" using D(7) held by (simp add: inv_excl_def)
  have "r = rid" if "get (mBindings m) (resOwner p) = Some r" "resOwner p \<noteq> []" for r
    using that p binding_owner [OF inv, of "resOwner p" rid] by auto
  then show "inv_bind ?m"
    using p by (auto simp: inv_bind_def binding_owner [OF inv])
qed

text \<open>Groups and their strategies.\<close>

lemma lease_inv_strategy:
  assumes inv: "lease_inv m" and g: "get (mGroups m) gid \<noteq> None"
  shows "lease_inv (m\<lparr>mStrategies := put gid s (mStrategies m)\<rparr>)" (is "lease_inv ?m")
proof (rule lease_invI)
  note D = lease_invD [OF inv]
  show "inv_maps ?m" using D(1) by (simp add: inv_maps_def)
  show "inv_groups ?m" using D(3) g by (auto simp: inv_groups_def)
qed (use lease_invD [OF inv] in \<open>simp_all add: inv_defs\<close>)

lemma lease_inv_put_group:
  assumes inv: "lease_inv m" and gid: "grpID g = gid" "gid \<noteq> []"
    and strategy: "get (mFactories m) (strategyName g) \<noteq> None"
    and known: "get (mGroups m) gid \<noteq> None"
  shows "lease_inv (m\<lparr>mGroups := put gid g (mGroups m)\<rparr>)" (is "lease_inv ?m")
proof (rule lease_invI)
  note D = lease_invD [OF inv]
  show "inv_maps ?m" using D(1) by (simp add: inv_maps_def)
  show "inv_groups ?m" using D(3) gid strategy known by (auto simp: inv_groups_def)
  show "inv_pool ?m" using D(2) by (auto simp: inv_pool_def)
qed (use lease_invD [OF inv] in \<open>simp_all add: inv_defs\<close>)

lemma lease_inv_new_group:
  assumes inv: "lease_inv m" and gid: "grpID g = gid" "gid \<noteq> []"
    and strategy: "get (mFactories m) (strategyName g) \<noteq> None"
  shows "lease_inv (m\<lparr>mGroups := put gid g (mGroups m),
                      mStrategies := put gid s (mStrategies m)\<rparr>)" (is "lease_inv ?m")
proof (rule lease_invI)
  note D = lease_invD [OF inv]
  show "inv_maps ?m" using D(1) by (simp add: inv_maps_def)
  show "inv_groups ?m" using D(3) gid strategy by (auto simp: inv_groups_def)
  show "inv_pool ?m" using D(2) by (auto simp: inv_pool_def)
qed (use lease_invD [OF inv] in \<open>simp_all add: inv_defs\<close>)

lemma lease_inv_del_group:
  assumes inv: "lease_inv m" and glob: "gid \<noteq> GlobalGroup"
    and empty: "\<And>rid p. get (mPool m) rid = Some p \<Longrightarrow> resGroup p \<noteq> gid"
  shows "lease_inv (m\<lparr>mGroups := del gid (mGroups m),
                      mStrategies := del gid (mStrategies m)\<rparr>)" (is "lease_inv ?m")
proof (rule lease_invI)
  note D = lease_invD [OF inv]
  show "inv_maps ?m" using D(1) by (simp add: inv_maps_def)
  show "inv_groups ?m" using D(3) glob by (auto simp: inv_groups_def)
  show "inv_pool ?m" using D(2) empty by (auto simp: inv_pool_def)
qed (use lease_invD [OF inv] in \<open>simp_all add: inv_defs\<close>)

end
