(* ===== verification/Leasing_Acquire.thy ===== *)
theory Leasing_Acquire
  imports Leasing_Invariant
begin

text \<open>
  What an acquire does: the candidates of an assignment, the ways a selection and a pass of the
  acquire loop end, and the preservation of the invariant by a pass.
\<close>

section \<open>Candidates\<close>

lemma set_collect_candidates:
  "p \<in> set (collect_candidates a ri m ids) \<longleftrightarrow>
     (\<exists>rid \<in> set ids. get (mPool m) rid = Some p \<and> is_candidate a ri m rid p)"
  by (induction ids) (auto split: option.splits)

lemma is_candidate_iff:
  "is_candidate a ri m rid p \<longleftrightarrow> resGroup p = asgGroup a \<and> resOwner p = [] \<and>
     (asgRes a = [] \<or> resID p = asgRes a) \<and> (ri \<longrightarrow> heldCount m rid \<le> 0) \<and>
     (effectiveCap p = UnlimitedHolders \<or> heldCount m rid < effectiveCap p)"
  by (auto simp: is_candidate_def)

lemma set_candidates:
  assumes "lease_inv m"
  shows "p \<in> set (candidates a ri m) \<longleftrightarrow>
    get (mPool m) (resID p) = Some p \<and> is_candidate a ri m (resID p) p"
  using assms by (auto simp: candidates_def set_collect_candidates order_pool dest: pool_id)

lemma eligible_fold:
  "get (fold (\<lambda>p. put (resID p) p) cs acc) rid = Some p \<Longrightarrow>
     (p \<in> set cs \<and> resID p = rid) \<or> get acc rid = Some p"
proof (induction cs arbitrary: acc)
  case (Cons c cs)
  have "(p \<in> set cs \<and> resID p = rid) \<or> get (put (resID c) c acc) rid = Some p"
    using Cons.prems by (intro Cons.IH) simp
  then show ?case by (cases "rid = resID c") auto
qed simp

lemma eligible_Some: "get (eligible cs) rid = Some p \<Longrightarrow> p \<in> set cs \<and> resID p = rid"
  unfolding eligible_def using eligible_fold [of cs "[]" rid p] by simp

text \<open>The ways a selection ends.\<close>

lemma selectUnlocked_cases:
  assumes "selectUnlocked a ri m = (r, m')"
  obtains (none) "candidates a ri m = []" "r = NoneFound" "m' = m"
  | (pinned) p where "asgRes a \<noteq> []" "p \<in> set (candidates a ri m)" "r = Found p" "m' = m"
  | (unknown) "candidates a ri m \<noteq> []" "get (mStrategies m) (asgGroup a) = None"
      "r = SelPanicked" "m' = m"
  | (asked) s x s' where "candidates a ri m \<noteq> []" "asgRes a = []"
      "get (mStrategies m) (asgGroup a) = Some s"
      "select s (candidates a ri m) = (x, s')"
      "m' = m\<lparr>mStrategies := put (asgGroup a) s' (mStrategies m)\<rparr>"
      "x = SelectPanic \<and> r = SelPanicked \<or> (\<exists>e. x = SelectErr e \<and> r = SelFailed (ESelection e)) \<or>
       (\<exists>p. x = Picked p \<and> get (eligible (candidates a ri m)) (resID p) = None \<and>
            r = SelFailed (ENotCandidate (resID p))) \<or>
       (\<exists>p q. x = Picked p \<and> get (eligible (candidates a ri m)) (resID p) = Some q \<and> r = Found q)"
proof (cases "candidates a ri m = []")
  case True
  with assms show thesis by (intro none) (auto simp: selectUnlocked_def)
next
  case ne: False
  show thesis
  proof (cases "asgRes a = []")
    case False
    with assms ne have "r = Found (hd (candidates a ri m))" "m' = m"
      by (auto simp: selectUnlocked_def)
    with False ne show thesis by (intro pinned) auto
  next
    case unpinned: True
    show thesis
    proof (cases "get (mStrategies m) (asgGroup a)")
      case None
      with assms ne unpinned show thesis by (intro unknown) (auto simp: selectUnlocked_def)
    next
      case (Some s)
      obtain x s' where x: "select s (candidates a ri m) = (x, s')" by fastforce
      note run = assms [unfolded selectUnlocked_def Let_def]
      show thesis
      proof (rule asked [OF ne unpinned Some x])
        show "m' = m\<lparr>mStrategies := put (asgGroup a) s' (mStrategies m)\<rparr>"
          using run ne unpinned Some x by (cases x) (simp_all split: option.splits)
        show "x = SelectPanic \<and> r = SelPanicked \<or>
            (\<exists>e. x = SelectErr e \<and> r = SelFailed (ESelection e)) \<or>
            (\<exists>p. x = Picked p \<and> get (eligible (candidates a ri m)) (resID p) = None \<and>
                 r = SelFailed (ENotCandidate (resID p))) \<or>
            (\<exists>p q. x = Picked p \<and> get (eligible (candidates a ri m)) (resID p) = Some q \<and> r = Found q)"
          using run ne unpinned Some x by (cases x) (simp_all split: option.splits)
      qed
    qed
  qed
qed

lemma selectUnlocked_frame:
  "selectUnlocked a ri m = (r, m') \<Longrightarrow> \<exists>ss. m' = m\<lparr>mStrategies := ss\<rparr>"
proof -
  assume "selectUnlocked a ri m = (r, m')"
  moreover have "m = m\<lparr>mStrategies := mStrategies m\<rparr>" by simp
  ultimately show ?thesis by (cases rule: selectUnlocked_cases) metis+
qed

lemma selectUnlocked_inv:
  assumes "selectUnlocked a ri m = (r, m')" "lease_inv m" "get (mGroups m) (asgGroup a) \<noteq> None"
  shows "lease_inv m'"
  using assms(1)
  by (rule selectUnlocked_cases) (use assms(2,3) lease_inv_strategy in simp_all)

lemma selectUnlocked_Found:
  assumes "selectUnlocked a ri m = (Found p, m')"
  shows "p \<in> set (candidates a ri m)"
  using assms
  by (rule selectUnlocked_cases) (auto dest: eligible_Some)

lemma selectUnlocked_NoneFound:
  "selectUnlocked a ri m = (NoneFound, m') \<longleftrightarrow> candidates a ri m = [] \<and> m' = m"
proof
  assume "selectUnlocked a ri m = (NoneFound, m')"
  then show "candidates a ri m = [] \<and> m' = m" by (rule selectUnlocked_cases) simp_all
qed (simp add: selectUnlocked_def)

section \<open>Acquiring preserves the invariant\<close>

text \<open>What a pass for an unbound task can do.\<close>

lemma acquire_unbound_cases:
  assumes "acquire_unbound now a lock m = (out, m')"
  obtains (refused) e m1 s where "out = Refused e" "m' = m1\<lparr>mStore := s\<rparr>"
      "m1 = m \<or> get (mGroups m) (asgGroup a) \<noteq> None \<and> (\<exists>r. selectUnlocked a lock m = (r, m1))"
  | (panicked) "out = Panicked" "get (mGroups m) (asgGroup a) \<noteq> None"
      "selectUnlocked a lock m = (SelPanicked, m')"
  | (waiting) "out = Waiting" "m' = m" "candidates a lock m = []"
  | (rotated) p m1 where "\<not> lock" "selectUnlocked a lock m = (Found p, m1)"
      "get (mGroups m) (asgGroup a) \<noteq> None"
      "m' = hold (resID p) (asgTask a) m1" "out = Leased (lease_of p (asgTask a) m')"
  | (locked) p q m1 s where "lock" "selectUnlocked a lock m = (Found p, m1)"
      "get (mGroups m) (asgGroup a) \<noteq> None"
      "q = p\<lparr>resOwner := asgTask a, resUpdated := now\<rparr>"
      "repoSave (mRepo m) q (mStore m) = (None, s)"
      "m' = hold (resID p) (asgTask a) (m1\<lparr>mStore := s, mPool := put (resID p) q (mPool m1),
                 mBindings := put (asgTask a) (resID p) (mBindings m1)\<rparr>)"
      "out = Leased (lease_of q (asgTask a) m')"
proof -
  have keep: "m1 = m1\<lparr>mStore := mStore m1\<rparr>" for m1 :: "('b, 'a) manager" by simp
  show thesis
  proof (cases "get (mGroups m) (asgGroup a)")
    case None
    with assms have "out = Refused (EAcquireMissingGroup (asgGroup a))" "m' = m"
      by (simp_all add: acquire_unbound_def)
    with keep show thesis by (metis refused)
  next
    case (Some g)
    note known = this
    show thesis
    proof (cases "groupHasResources m (grpID g)")
      case False
      with assms Some have "out = Refused (ENoResources (grpID g))" "m' = m"
        by (simp_all add: acquire_unbound_def)
      with keep show thesis by (metis refused)
    next
      case True
      obtain r m1 where r: "selectUnlocked a lock m = (r, m1)" by fastforce
      have sel: "get (mGroups m) (asgGroup a) \<noteq> None \<and> (\<exists>r. selectUnlocked a lock m = (r, m1))"
        using r known by auto
      obtain ss where m1: "m1 = m\<lparr>mStrategies := ss\<rparr>" using selectUnlocked_frame [OF r] by blast
      show thesis
      proof (cases r)
        case (SelFailed e)
        with assms Some True r have "out = Refused e" "m' = m1" by (simp_all add: acquire_unbound_def)
        with keep sel show thesis by (metis refused)
      next
        case SelPanicked
        with assms Some True r have "out = Panicked" "m' = m1" by (simp_all add: acquire_unbound_def)
        with r known SelPanicked show thesis by (intro panicked) simp_all
      next
        case NoneFound
        with r have "candidates a lock m = []" "m1 = m" by (simp_all add: selectUnlocked_NoneFound)
        with assms Some True r NoneFound show thesis by (auto simp: acquire_unbound_def intro: waiting)
      next
        case (Found p)
        show thesis
        proof (cases lock)
          case False
          with assms Some True r Found show thesis
            by (intro rotated [of p m1]) (auto simp: acquire_unbound_def Let_def)
        next
          case lock: True
          let ?q = "p\<lparr>resOwner := asgTask a, resUpdated := now\<rparr>"
          obtain e s where e: "repoSave (mRepo m) ?q (mStore m) = (e, s)" by fastforce
          then have save: "repo_save ?q m1 = (e, m1\<lparr>mStore := s\<rparr>)"
            by (simp add: repo_save_result m1)
          show thesis
          proof (cases e)
            case None
            with assms Some True r Found lock save e show thesis
              by (intro locked [of p m1 ?q s]) (auto simp: acquire_unbound_def Let_def)
          next
            case (Some err)
            with assms known True r Found lock save
            have "out = Refused (EPersistLock err)" "m' = m1\<lparr>mStore := s\<rparr>"
              by (auto simp: acquire_unbound_def Let_def)
            with sel show thesis by (metis refused)
          qed
        qed
      qed
    qed
  qed
qed

lemma candidate_facts:
  assumes "lease_inv m" "p \<in> set (candidates a ri m)"
  shows "get (mPool m) (resID p) = Some p" "resGroup p = asgGroup a" "resOwner p = []"
    "asgRes a \<noteq> [] \<Longrightarrow> resID p = asgRes a"
    "ri \<Longrightarrow> holdersOf m (resID p) = []"
    "effectiveCap p = UnlimitedHolders \<or> heldCount m (resID p) < effectiveCap p"
proof -
  from assms have c: "get (mPool m) (resID p) = Some p" "is_candidate a ri m (resID p) p"
    by (simp_all add: set_candidates)
  then show "get (mPool m) (resID p) = Some p" "resGroup p = asgGroup a" "resOwner p = []"
    "asgRes a \<noteq> [] \<Longrightarrow> resID p = asgRes a"
    "effectiveCap p = UnlimitedHolders \<or> heldCount m (resID p) < effectiveCap p"
    by (auto simp: is_candidate_iff)
  show "holdersOf m (resID p) = []" if ri
  proof -
    have "heldCount m (resID p) \<le> 0" using c(2) that by (simp add: is_candidate_iff)
    with heldCount_nonneg [OF assms(1), of "resID p"] heldCount_zero [OF assms(1), of "resID p"]
    show ?thesis by simp
  qed
qed

lemma candidates_frame [simp]:
  "candidates a ri (m\<lparr>mStrategies := ss\<rparr>) = candidates a ri m"
  "candidates a ri (m\<lparr>mStore := s\<rparr>) = candidates a ri m"
  "candidates a ri (m\<lparr>mGen := n\<rparr>) = candidates a ri m"
proof -
  have "collect_candidates a ri (m\<lparr>mStrategies := ss\<rparr>) ids = collect_candidates a ri m ids"
    "collect_candidates a ri (m\<lparr>mStore := s\<rparr>) ids = collect_candidates a ri m ids"
    "collect_candidates a ri (m\<lparr>mGen := n\<rparr>) ids = collect_candidates a ri m ids" for ids
    by (induction ids) (simp_all add: is_candidate_iff option.case_eq_if)
  then show "candidates a ri (m\<lparr>mStrategies := ss\<rparr>) = candidates a ri m"
    "candidates a ri (m\<lparr>mStore := s\<rparr>) = candidates a ri m"
    "candidates a ri (m\<lparr>mGen := n\<rparr>) = candidates a ri m"
    by (simp_all add: candidates_def)
qed

lemma lease_inv_pick:
  assumes inv: "lease_inv m" and c: "p \<in> set (candidates a ri m)"
  shows "lease_inv (hold (resID p) t m)"
  using inv
proof (rule lease_inv_hold)
  show "get (mPool m) (resID p) = Some p"
    "effectiveCap p = UnlimitedHolders \<or> heldCount m (resID p) < effectiveCap p"
    by (rule candidate_facts [OF inv c])+
qed (simp add: candidate_facts [OF inv c])

lemma lease_inv_lock:
  assumes inv: "lease_inv m" and c: "p \<in> set (candidates a True m)"
    and t: "t \<noteq> []" "get (mBindings m) t = None"
  shows "lease_inv (hold (resID p) t
    (m\<lparr>mPool := put (resID p) (p\<lparr>resOwner := t, resUpdated := now\<rparr>) (mPool m),
       mBindings := put t (resID p) (mBindings m)\<rparr>))" (is "lease_inv (hold _ _ ?m)")
proof (rule lease_inv_hold)
  note C = candidate_facts [OF inv c]
  let ?q = "p\<lparr>resOwner := t, resUpdated := now\<rparr>"
  show "lease_inv ?m" using inv C(1,3) t C(5) by (intro lease_inv_bind) simp_all
  show "get (mPool ?m) (resID p) = Some ?q" by simp
  show "effectiveCap ?q = UnlimitedHolders \<or> heldCount ?m (resID p) < effectiveCap ?q"
    using C(6) by (simp add: effectiveCap_def split: if_splits)
  show "t = resOwner ?q \<and> holdersOf ?m (resID p) = []" using C(5) by simp
qed

lemma acquire_unbound_inv:
  assumes run: "acquire_unbound now a lock m = (out, m')" and inv: "lease_inv m"
    and t: "asgTask a \<noteq> []" "get (mBindings m) (asgTask a) = None"
  shows "lease_inv m'"
  using run
proof (cases rule: acquire_unbound_cases)
  case (refused e m1 s)
  then show ?thesis using selectUnlocked_inv [OF _ inv] inv by fastforce
next
  case panicked
  then show ?thesis using selectUnlocked_inv inv by blast
next
  case waiting
  then show ?thesis using inv by simp
next
  case (rotated p m1)
  then show ?thesis
    using lease_inv_pick selectUnlocked_inv [OF rotated(2) inv rotated(3)]
      selectUnlocked_Found [OF rotated(2)] selectUnlocked_frame [OF rotated(2)] by fastforce
next
  case (locked p q m1 s)
  obtain ss where m1: "m1 = m\<lparr>mStrategies := ss\<rparr>" using selectUnlocked_frame [OF locked(2)] by blast
  have "lease_inv (m1\<lparr>mStore := s\<rparr>)" using selectUnlocked_inv [OF locked(2) inv locked(3)] by simp
  moreover have "p \<in> set (candidates a True (m1\<lparr>mStore := s\<rparr>))"
    using selectUnlocked_Found [OF locked(2)] locked(1) by (simp add: m1)
  moreover have "get (mBindings (m1\<lparr>mStore := s\<rparr>)) (asgTask a) = None" using t(2) by (simp add: m1)
  ultimately show ?thesis
    using lease_inv_lock [of "m1\<lparr>mStore := s\<rparr>" p a "asgTask a" now] t(1) locked(4,6) by simp
qed

text \<open>A bound task finds its binding, which the invariant keeps in the pool.\<close>

lemma acquire_pass_cases:
  assumes run: "acquire_pass ctx now a lock m = (out, m')" and inv: "lease_inv m"
  obtains (gone) e where "ctx = Some e" "out = Refused (EContext e)" "m' = m"
  | (pin) e where "ctx = None" "checkPin a m = Some e" "out = Refused e" "m' = m"
  | (conflict) rid where "ctx = None" "checkPin a m = None"
      "get (mBindings m) (asgTask a) = Some rid" "asgRes a \<noteq> []" "asgRes a \<noteq> rid"
      "out = Refused (EPinConflict (asgTask a) rid (asgRes a))" "m' = m"
  | (again) rid p where "ctx = None" "checkPin a m = None"
      "get (mBindings m) (asgTask a) = Some rid" "asgRes a = [] \<or> asgRes a = rid"
      "get (mPool m) rid = Some p" "resOwner p = asgTask a" "holdersOf m rid = []"
      "m' = hold rid (asgTask a) m" "out = Leased (lease_of p (asgTask a) m')"
  | (busy) rid p where "ctx = None" "checkPin a m = None"
      "get (mBindings m) (asgTask a) = Some rid" "asgRes a = [] \<or> asgRes a = rid"
      "get (mPool m) rid = Some p" "holdersOf m rid \<noteq> []" "out = Waiting" "m' = m"
  | (unbound) "ctx = None" "checkPin a m = None" "get (mBindings m) (asgTask a) = None"
      "acquire_unbound now a lock m = (out, m')"
proof (cases ctx)
  case (Some e)
  with run show thesis by (intro gone) (auto simp: acquire_pass_def)
next
  case ctx: None
  show thesis
  proof (cases "checkPin a m")
    case (Some e)
    with run ctx show thesis by (intro pin) (auto simp: acquire_pass_def)
  next
    case ok: None
    show thesis
    proof (cases "get (mBindings m) (asgTask a)")
      case None
      with run ctx ok show thesis by (intro unbound) (simp_all add: acquire_pass_def)
    next
      case (Some rid)
      then obtain p where p: "get (mPool m) rid = Some p" "resOwner p = asgTask a"
        using binding_owner [OF inv] by blast
      have run': "acquire_bound a rid p m = (out, m')"
        using run ctx ok Some p by (simp add: acquire_pass_def)
      show thesis
      proof (cases "asgRes a \<noteq> [] \<and> asgRes a \<noteq> rid")
        case True
        with run' ctx ok Some show thesis by (intro conflict) (auto simp: acquire_bound_def)
      next
        case False
        note free = this
        show thesis
        proof (cases "holdersOf m rid = []")
          case True
          with run' free ctx ok Some p show thesis
            by (intro again) (auto simp: acquire_bound_def Let_def heldCount_def)
        next
          case False
          then have "heldCount m rid \<noteq> 0" by (simp add: heldCount_zero [OF inv])
          with False run' free ctx ok Some p show thesis
            by (intro busy) (auto simp: acquire_bound_def)
        qed
      qed
    qed
  qed
qed

lemma acquire_pass_inv:
  assumes run: "acquire_pass ctx now a lock m = (out, m')" and inv: "lease_inv m"
    and t: "asgTask a \<noteq> []"
  shows "lease_inv m'"
  using run inv
proof (cases rule: acquire_pass_cases)
  case (again rid p)
  have "effectiveCap p = UnlimitedHolders \<or> heldCount m rid < effectiveCap p"
    using effectiveCap_cases [OF pool_policy [OF inv again(5)]] again(7)
    by (auto simp: heldCount_def)
  with again inv show ?thesis by (auto intro: lease_inv_hold)
next
  case unbound
  then show ?thesis using acquire_unbound_inv inv t by blast
qed (use inv in simp_all)

end
