(* ===== verification/Leasing_Ops.thy ===== *)
theory Leasing_Ops
  imports Leasing_Acquire
begin

text \<open>
  Every other operation of the manager: what each does on every path, and that each keeps the
  invariant. NewManager establishes it.
\<close>

section \<open>Validation\<close>

lemma validateGroup_Inr:
  "validateGroup m g = Inr f \<longleftrightarrow> grpID g \<noteq> [] \<and> get (mFactories m) (strategyName g) = Some f"
  by (auto simp: validateGroup_def strategyName_def Let_def split: option.splits if_splits)

lemma validateHolderPolicy_None: "validateHolderPolicy rid n = None \<longleftrightarrow> UnlimitedHolders \<le> n"
  by (auto simp: validateHolderPolicy_def)

lemma adoptGroup_None:
  "adoptGroup g m = (None, m') \<longleftrightarrow>
     (\<exists>f. validateGroup m g = Inr f \<and>
       m' = m\<lparr>mGroups := put (grpID g) g (mGroups m),
              mStrategies := put (grpID g) f (mStrategies m)\<rparr>)"
  by (cases "validateGroup m g") (auto simp: adoptGroup_def)

lemma strategyName_frame [simp]:
  "strategyName (g\<lparr>grpID := i\<rparr>) = strategyName g" "strategyName (g\<lparr>grpRefs := r\<rparr>) = strategyName g"
  "strategyName (g\<lparr>grpCreated := c\<rparr>) = strategyName g"
  "strategyName (g\<lparr>grpUpdated := u\<rparr>) = strategyName g"
  by (simp_all add: strategyName_def)

lemma validateGroup_frame [simp]:
  "validateGroup (m\<lparr>mGroups := gs\<rparr>) g = validateGroup m g"
  "validateGroup m (g\<lparr>grpCreated := c\<rparr>) = validateGroup m g"
  "validateGroup m (g\<lparr>grpUpdated := u\<rparr>) = validateGroup m g"
  by (simp_all add: validateGroup_def cong: if_cong option.case_cong)

section \<open>Groups\<close>

lemma CreateGroup_cases:
  assumes "CreateGroup now g m = (e, m')"
  obtains (exists) "get (mGroups m) (grpID g) \<noteq> None" "e = Some (EGroupExists (grpID g))" "m' = m"
  | (invalid) er where "get (mGroups m) (grpID g) = None" "validateGroup m g = Inl er"
      "e = Some er" "m' = m"
  | (unsaved) f er s where "get (mGroups m) (grpID g) = None" "validateGroup m g = Inr f"
      "repoSaveGroup (mRepo m) (g\<lparr>grpCreated := now, grpUpdated := now\<rparr>) (mStore m) = (Some er, s)"
      "e = Some (EPersistGroup (grpID g) er)" "m' = m\<lparr>mStore := s\<rparr>"
  | (created) f s where "get (mGroups m) (grpID g) = None" "validateGroup m g = Inr f"
      "repoSaveGroup (mRepo m) (g\<lparr>grpCreated := now, grpUpdated := now\<rparr>) (mStore m) = (None, s)"
      "e = None"
      "m' = m\<lparr>mStore := s,
             mGroups := put (grpID g) (g\<lparr>grpCreated := now, grpUpdated := now\<rparr>) (mGroups m),
             mStrategies := put (grpID g) f (mStrategies m)\<rparr>"
proof (cases "get (mGroups m) (grpID g)")
  case (Some g')
  with assms show thesis by (intro exists) (auto simp: CreateGroup_def)
next
  case new: None
  show thesis
  proof (cases "validateGroup m g")
    case (Inl er)
    with assms new show thesis by (intro invalid) (auto simp: CreateGroup_def)
  next
    case (Inr f)
    obtain r s where r: "repoSaveGroup (mRepo m) (g\<lparr>grpCreated := now, grpUpdated := now\<rparr>) (mStore m)
        = (r, s)" by fastforce
    show thesis
    proof (cases r)
      case None
      with assms new Inr r show thesis
        by (intro created) (auto simp: CreateGroup_def repo_save_group_def)
    next
      case (Some er)
      with assms new Inr r show thesis
        by (intro unsaved) (auto simp: CreateGroup_def repo_save_group_def)
    qed
  qed
qed

lemma CreateGroup_inv:
  assumes run: "CreateGroup now g m = (e, m')" and inv: "lease_inv m"
  shows "lease_inv m'"
  using run
proof (cases rule: CreateGroup_cases)
  case (created f s)
  let ?g = "g\<lparr>grpCreated := now, grpUpdated := now\<rparr>"
  have "lease_inv ((m\<lparr>mStore := s\<rparr>)\<lparr>mGroups := put (grpID g) ?g (mGroups (m\<lparr>mStore := s\<rparr>)),
      mStrategies := put (grpID g) f (mStrategies (m\<lparr>mStore := s\<rparr>))\<rparr>)"
    using inv created(2) by (intro lease_inv_new_group) (auto simp: validateGroup_Inr)
  with created show ?thesis by simp
qed (use inv in simp_all)

text \<open>The manager an update of a group runs on: the callback has already written the shared map.\<close>

definition shared_refs :: "string \<Rightarrow> group \<Rightarrow> (string, string) gomap \<Rightarrow> ('s, 'x) manager
    \<Rightarrow> ('s, 'x) manager" where
  "shared_refs gid kept shared m = m\<lparr>mGroups := put gid (kept\<lparr>grpRefs := shared\<rparr>) (mGroups m)\<rparr>"

lemma UpdateGroup_cases:
  assumes "UpdateGroup now gid fn m = (e, m')"
  obtains (missing) "get (mGroups m) gid = None" "e = Some (EUpdateMissingGroup gid)" "m' = m"
  | (invalid) kept g1 shared er where "get (mGroups m) gid = Some kept" "fn kept = (g1, shared)"
      "validateGroup m (g1\<lparr>grpID := grpID kept\<rparr>) = Inl er" "e = Some er"
      "m' = shared_refs gid kept shared m"
  | (unsaved) kept g1 shared er s where "get (mGroups m) gid = Some kept" "fn kept = (g1, shared)"
      "repoSaveGroup (mRepo m) (g1\<lparr>grpID := grpID kept, grpCreated := grpCreated kept,
         grpUpdated := now\<rparr>) (mStore m) = (Some er, s)"
      "e = Some (EPersistGroup gid er)" "m' = (shared_refs gid kept shared m)\<lparr>mStore := s\<rparr>"
  | (updated) kept g1 shared g f s where "get (mGroups m) gid = Some kept" "fn kept = (g1, shared)"
      "g = g1\<lparr>grpID := grpID kept, grpCreated := grpCreated kept, grpUpdated := now\<rparr>"
      "validateGroup m g = Inr f" "repoSaveGroup (mRepo m) g (mStore m) = (None, s)" "e = None"
      "m' = m\<lparr>mStore := s, mGroups := put gid g (put gid (kept\<lparr>grpRefs := shared\<rparr>) (mGroups m)),
             mStrategies := (if strategyName g \<noteq> strategyName kept then put gid f (mStrategies m)
                             else mStrategies m)\<rparr>"
proof (cases "get (mGroups m) gid")
  case None
  with assms show thesis by (intro missing) (auto simp: UpdateGroup_def)
next
  case (Some kept)
  obtain g1 shared where fn: "fn kept = (g1, shared)" by fastforce
  let ?g = "g1\<lparr>grpID := grpID kept, grpCreated := grpCreated kept, grpUpdated := now\<rparr>"
  have same: "validateGroup m ?g = validateGroup m (g1\<lparr>grpID := grpID kept\<rparr>)" by simp
  show thesis
  proof (cases "validateGroup m (g1\<lparr>grpID := grpID kept\<rparr>)")
    case (Inl er)
    with assms Some fn show thesis
      by (intro invalid) (auto simp: UpdateGroup_def shared_refs_def Let_def)
  next
    case (Inr f)
    obtain r s where r: "repoSaveGroup (mRepo m) ?g (mStore m) = (r, s)" by fastforce
    show thesis
    proof (cases r)
      case None
      with assms Some fn Inr same r show thesis
        by (intro updated [of kept g1 shared ?g f s])
          (auto simp: UpdateGroup_def repo_save_group_def Let_def)
    next
      case (Some er)
      with assms \<open>get (mGroups m) gid = Some kept\<close> fn Inr r show thesis
        by (intro unsaved) (auto simp: UpdateGroup_def repo_save_group_def shared_refs_def Let_def)
    qed
  qed
qed

lemma shared_refs_inv:
  assumes inv: "lease_inv m" and g: "get (mGroups m) gid = Some kept"
  shows "lease_inv (shared_refs gid kept shared m)"
  unfolding shared_refs_def using inv
proof (rule lease_inv_put_group)
  have "grpID kept = gid \<and> gid \<noteq> [] \<and> get (mFactories m) (strategyName kept) \<noteq> None"
    using lease_invD(3) [OF inv] g by (simp add: inv_groups_def)
  then show "grpID (kept\<lparr>grpRefs := shared\<rparr>) = gid" "gid \<noteq> []"
    "get (mFactories m) (strategyName (kept\<lparr>grpRefs := shared\<rparr>)) \<noteq> None" by simp_all
qed (simp add: g)

lemma UpdateGroup_inv:
  assumes run: "UpdateGroup now gid fn m = (e, m')" and inv: "lease_inv m"
  shows "lease_inv m'"
  using run
proof (cases rule: UpdateGroup_cases)
  case (updated kept g1 shared g f s)
  let ?m = "(shared_refs gid kept shared m)\<lparr>mStore := s\<rparr>"
  have kept: "grpID kept = gid \<and> gid \<noteq> []"
    using lease_invD(3) [OF inv] updated(1) by (simp add: inv_groups_def)
  have ok: "lease_inv (?m\<lparr>mGroups := put gid g (mGroups ?m)\<rparr>)" (is "lease_inv ?m3")
  proof (rule lease_inv_put_group)
    show "lease_inv ?m" using shared_refs_inv [OF inv updated(1)] by simp
    show "get (mFactories ?m) (strategyName g) \<noteq> None"
      using updated(4) by (simp add: validateGroup_Inr shared_refs_def)
  qed (use kept updated(3) in \<open>simp_all add: shared_refs_def\<close>)
  have "m' = (if strategyName g \<noteq> strategyName kept
      then ?m3\<lparr>mStrategies := put gid f (mStrategies ?m3)\<rparr> else ?m3)"
    by (simp add: updated(7) shared_refs_def)
  moreover have "lease_inv (?m3\<lparr>mStrategies := put gid f (mStrategies ?m3)\<rparr>)"
    using ok by (rule lease_inv_strategy) simp
  ultimately show ?thesis using ok by simp
qed (use inv shared_refs_inv in simp_all)

section \<open>Adding and updating resources\<close>

lemma Add_cases:
  assumes "Add now p0 m = (e, m')"
  obtains (refused) er where "e = Some er" "m' = m"
  | (unsaved) p er s where "repoSave (mRepo m) p (mStore m) = (Some er, s)"
      "e = Some (EPersistResource (resID p0) er)" "m' = m\<lparr>mStore := s\<rparr>"
  | (added) p s where "e = None" "resID p0 \<noteq> []" "get (mPool m) (resID p0) = None"
      "resOwner p0 = []" "UnlimitedHolders \<le> resMax p0"
      "p = p0\<lparr>resGroup := if resGroup p0 = [] then GlobalGroup else resGroup p0,
              resCreated := now, resUpdated := now\<rparr>"
      "get (mGroups m) (resGroup p) \<noteq> None"
      "repoSave (mRepo m) p (mStore m) = (None, s)"
      "m' = broadcast (m\<lparr>mStore := s, mPool := put (resID p) p (mPool m),
                         mOrder := mOrder m @ [resID p]\<rparr>)"
proof -
  let ?p1 = "if resGroup p0 = [] then p0\<lparr>resGroup := GlobalGroup\<rparr> else p0"
  let ?p = "?p1\<lparr>resCreated := now, resUpdated := now\<rparr>"
  have p: "?p = p0\<lparr>resGroup := if resGroup p0 = [] then GlobalGroup else resGroup p0,
      resCreated := now, resUpdated := now\<rparr>" by simp
  obtain r s where r: "repoSave (mRepo m) ?p (mStore m) = (r, s)" by fastforce
  then have save: "repo_save ?p m = (r, m\<lparr>mStore := s\<rparr>)" by (simp add: repo_save_def)
  consider "resID p0 = [] \<or> get (mPool m) (resID p0) \<noteq> None \<or> resOwner p0 \<noteq> [] \<or>
      validateHolderPolicy (resID p0) (resMax p0) \<noteq> None \<or> get (mGroups m) (resGroup ?p1) = None"
    | "resID p0 \<noteq> []" "get (mPool m) (resID p0) = None" "resOwner p0 = []"
      "validateHolderPolicy (resID p0) (resMax p0) = None" "get (mGroups m) (resGroup ?p1) \<noteq> None"
    by blast
  then show thesis
  proof cases
    case 1
    with assms have "e \<noteq> None" "m' = m"
      by (cases "validateHolderPolicy (resID p0) (resMax p0)";
          auto simp: Add_def Let_def split: if_splits)+
    then show thesis by (auto intro: refused)
  next
    case 2
    show thesis
    proof (cases r)
      case None
      have "m' = broadcast (m\<lparr>mStore := s, mPool := put (resID ?p) ?p (mPool m),
          mOrder := mOrder m @ [resID ?p]\<rparr>)" "e = None"
        using assms 2 save None by (simp_all add: Add_def Let_def)
      with 2 r None show thesis
        by (intro added [of ?p s]) (simp_all add: validateHolderPolicy_None)
    next
      case (Some er)
      with assms 2 save have "m' = m\<lparr>mStore := s\<rparr>" "e = Some (EPersistResource (resID p0) er)"
        by (simp_all add: Add_def Let_def split: if_splits)
      with r Some show thesis by (intro unsaved) auto
    qed
  qed
qed

lemma Add_inv:
  assumes run: "Add now p0 m = (e, m')" and inv: "lease_inv m"
  shows "lease_inv m'"
  using run
proof (cases rule: Add_cases)
  case (added p s)
  let ?m = "m\<lparr>mStore := s\<rparr>"
  have "lease_inv (?m\<lparr>mPool := put (resID p) p (mPool ?m), mOrder := mOrder ?m @ [resID p]\<rparr>)"
    using inv added by (intro lease_inv_install) simp_all
  with added show ?thesis by simp
qed (use inv in simp_all)

lemma Update_cases:
  assumes "Update now rid fn m = (e, m')"
  obtains (missing) "get (mPool m) rid = None" "e = Some (EUpdateMissing rid)" "m' = m"
  | (unsaved) p0 p er s where "get (mPool m) rid = Some p0"
      "repoSave (mRepo m) p (mStore m) = (Some er, s)"
      "e = Some (EPersistResource rid er)" "m' = m\<lparr>mStore := s\<rparr>"
  | (updated) p0 p s where "get (mPool m) rid = Some p0"
      "p = set_core ((core p0)\<lparr>resUpdated := now\<rparr>) (fn p0)"
      "repoSave (mRepo m) p (mStore m) = (None, s)" "e = None"
      "m' = m\<lparr>mStore := s, mPool := put rid p (mPool m)\<rparr>"
proof (cases "get (mPool m) rid")
  case None
  with assms show thesis by (intro missing) (auto simp: Update_def)
next
  case (Some p0)
  note known = this
  let ?p = "set_core ((core p0)\<lparr>resUpdated := now\<rparr>) (fn p0)"
  obtain r s where r: "repoSave (mRepo m) ?p (mStore m) = (r, s)" by fastforce
  show thesis
  proof (cases r)
    case None
    with assms known r show thesis
      by (intro updated [of p0 ?p s]) (auto simp: Update_def repo_save_def Let_def)
  next
    case (Some er)
    with assms known r show thesis
      by (intro unsaved [of p0 ?p er s]) (auto simp: Update_def repo_save_def Let_def)
  qed
qed

lemma Update_inv:
  assumes run: "Update now rid fn m = (e, m')" and inv: "lease_inv m"
  shows "lease_inv m'"
  using run
proof (cases rule: Update_cases)
  case (updated p0 p s)
  let ?m = "m\<lparr>mStore := s\<rparr>"
  have "lease_inv (?m\<lparr>mPool := put rid p (mPool ?m)\<rparr>)"
    using inv updated by (intro lease_inv_rewrite [of _ _ p0]) simp_all
  with updated show ?thesis by simp
qed (use inv in simp_all)

section \<open>Unlocking and releasing\<close>

lemma unlock_cases:
  assumes run: "unlock now t rid m = (e, m')" and p: "get (mPool m) rid = Some p"
  obtains (unsaved) er s where
      "repoSave (mRepo m) (p\<lparr>resOwner := [], resUpdated := now\<rparr>) (mStore m) = (Some er, s)"
      "e = Some (EPersistUnlock er)" "m' = m\<lparr>mStore := s\<rparr>"
  | (unlocked) s where
      "repoSave (mRepo m) (p\<lparr>resOwner := [], resUpdated := now\<rparr>) (mStore m) = (None, s)" "e = None"
      "m' = broadcast (m\<lparr>mStore := s,
              mPool := put rid (p\<lparr>resOwner := [], resUpdated := now\<rparr>) (mPool m),
              mBindings := del t (mBindings m)\<rparr>)"
proof -
  obtain r s where r: "repoSave (mRepo m) (p\<lparr>resOwner := [], resUpdated := now\<rparr>) (mStore m) = (r, s)"
    by fastforce
  show thesis
  proof (cases r)
    case None
    with run p r show thesis by (intro unlocked) (auto simp: unlock_def repo_save_def Let_def)
  next
    case (Some er)
    with run p r show thesis by (intro unsaved) (auto simp: unlock_def repo_save_def Let_def)
  qed
qed

lemma unlock_inv:
  assumes run: "unlock now t rid m = (e, m')" and inv: "lease_inv m"
    and b: "get (mBindings m) t = Some rid"
  shows "lease_inv m'"
proof -
  obtain p where p: "get (mPool m) rid = Some p" "resOwner p = t"
    using b binding_owner [OF inv] by blast
  from run p(1) show ?thesis
  proof (cases rule: unlock_cases)
    case (unlocked s)
    have "lease_inv (m\<lparr>mStore := s\<rparr>)" using inv by simp
    from lease_inv_unbind [OF this, of rid p t now] p unlocked show ?thesis by simp
  qed (use inv in simp)
qed

lemma Unlock_inv: "Unlock now t m = (e, m') \<Longrightarrow> lease_inv m \<Longrightarrow> lease_inv m'"
  by (auto simp: Unlock_def unlock_inv split: option.splits)

lemma ReleaseStaleLock_inv: "ReleaseStaleLock now a m = (e, m') \<Longrightarrow> lease_inv m \<Longrightarrow> lease_inv m'"
  by (auto simp: ReleaseStaleLock_def unlock_inv split: option.splits if_splits)

lemma release_inv: "lease_inv m \<Longrightarrow> lease_inv (release rid t m)"
  by (simp add: release_def lease_inv_unhold)

section \<open>Deleting\<close>

lemma remove_cases:
  assumes "remove rid m = (e, m')"
  obtains (unsaved) er s where "repoDelete (mRepo m) rid (mStore m) = (Some er, s)"
      "e = Some (EDeleteResource rid er)" "m' = m\<lparr>mStore := s\<rparr>"
  | (removed) s where "repoDelete (mRepo m) rid (mStore m) = (None, s)" "e = None"
      "m' = broadcast (m\<lparr>mStore := s, mPool := del rid (mPool m), mHolders := del rid (mHolders m),
                         mOrder := remove1 rid (mOrder m)\<rparr>)"
proof -
  obtain r s where r: "repoDelete (mRepo m) rid (mStore m) = (r, s)" by fastforce
  show thesis
  proof (cases r)
    case None
    with assms r show thesis by (intro removed) (auto simp: remove_def repo_delete_def)
  next
    case (Some er)
    with assms r show thesis by (intro unsaved) (auto simp: remove_def repo_delete_def)
  qed
qed

lemma Delete_cases:
  assumes "Delete rid m = (ts, e, m')"
  obtains (unknown) s where "get (mPool m) rid = None" "ts = []" "m' = m\<lparr>mStore := s\<rparr>"
  | (held) p where "get (mPool m) rid = Some p" "holdersOf m rid \<noteq> []" "ts = []"
      "e = Some (EResourceHeld rid (holderIDs m rid))" "m' = m"
  | (unsaved) p er s where "get (mPool m) rid = Some p" "holdersOf m rid = []"
      "repoDelete (mRepo m) rid (mStore m) = (Some er, s)" "ts = []"
      "e = Some (EDeleteResource rid er)" "m' = m\<lparr>mStore := s\<rparr>"
  | (deleted) p s where "get (mPool m) rid = Some p" "holdersOf m rid = []"
      "repoDelete (mRepo m) rid (mStore m) = (None, s)" "e = None"
      "ts = (if resOwner p \<noteq> [] then [resOwner p] else [])"
      "m' = broadcast (m\<lparr>mStore := s, mPool := del rid (mPool m), mHolders := del rid (mHolders m),
                         mOrder := remove1 rid (mOrder m),
                         mBindings := (if resOwner p \<noteq> [] then del (resOwner p) (mBindings m)
                                       else mBindings m)\<rparr>)"
proof (cases "get (mPool m) rid")
  case None
  obtain r s where "repoDelete (mRepo m) rid (mStore m) = (r, s)" by fastforce
  with assms None show thesis
    by (intro unknown [of s]) (auto simp: Delete_def repo_delete_def split: option.splits)
next
  case (Some p)
  note known = this
  show thesis
  proof (cases "holdersOf m rid = []")
    case False
    with assms Some show thesis by (intro held) (auto simp: Delete_def holderIDs_Nil)
  next
    case idle: True
    obtain r m1 where r: "remove rid m = (r, m1)" by fastforce
    then show thesis
    proof (cases rule: remove_cases)
      case (unsaved er s)
      with assms known idle r show thesis
        by (intro \<open>\<And>p er s. \<lbrakk>get (mPool m) rid = Some p; holdersOf m rid = [];
            repoDelete (mRepo m) rid (mStore m) = (Some er, s); ts = [];
            e = Some (EDeleteResource rid er); m' = m\<lparr>mStore := s\<rparr>\<rbrakk> \<Longrightarrow> thesis\<close>)
          (auto simp: Delete_def holderIDs_Nil)
    next
      case (removed s)
      with assms known idle r show thesis
        by (intro deleted) (auto simp: Delete_def holderIDs_Nil broadcast_def split: if_splits)
    qed
  qed
qed

lemma Delete_inv:
  assumes run: "Delete rid m = (ts, e, m')" and inv: "lease_inv m"
  shows "lease_inv m'"
  using run
proof (cases rule: Delete_cases)
  case (deleted p s)
  have "lease_inv (m\<lparr>mStore := s\<rparr>)" using inv by simp
  from lease_inv_remove [OF this, of rid p] deleted show ?thesis
    by (cases "resOwner p = []") simp_all
qed (use inv in simp_all)

text \<open>Removing the idle members of a group, one after the other.\<close>

definition unbound_of :: "('s, 'x) manager \<Rightarrow> string list \<Rightarrow> string list" where
  "unbound_of m ids = filter (\<lambda>t. t \<noteq> []) (map (ownerAt m) ids)"

lemma firstHeld_None: "firstHeld m ids = None \<longleftrightarrow> (\<forall>rid \<in> set ids. holdersOf m rid = [])"
  by (induction ids) (auto simp: holderIDs_Nil)

lemma firstHeld_Some:
  "firstHeld m ids = Some (rid, hs) \<Longrightarrow> rid \<in> set ids \<and> holdersOf m rid \<noteq> [] \<and> hs = holderIDs m rid"
  by (induction ids) (auto simp: holderIDs_Nil split: if_splits)

lemma removeMembers_step:
  assumes run: "removeMembers (rid # ids) ub m = (ts, e, m')" and inv: "lease_inv m"
    and p: "get (mPool m) rid = Some p" and idle: "holdersOf m rid = []"
  obtains (unsaved) er s where "repoDelete (mRepo m) rid (mStore m) = (Some er, s)"
      "e = Some (EDeleteResource rid er)" "m' = m\<lparr>mStore := s\<rparr>" "ts = ub"
  | (removed) m1 s where "repoDelete (mRepo m) rid (mStore m) = (None, s)" "lease_inv m1"
      "m1 = broadcast (m\<lparr>mStore := s, mPool := del rid (mPool m), mHolders := del rid (mHolders m),
              mOrder := remove1 rid (mOrder m),
              mBindings := (if resOwner p \<noteq> [] then del (resOwner p) (mBindings m)
                            else mBindings m)\<rparr>)"
      "removeMembers ids (ub @ (if resOwner p \<noteq> [] then [resOwner p] else [])) m1 = (ts, e, m')"
proof -
  obtain r m1 where r: "remove rid m = (r, m1)" by fastforce
  have owner: "ownerAt m rid = resOwner p" by (simp add: ownerAt_def p)
  from r show thesis
  proof (cases rule: remove_cases)
    case (unsaved er s)
    with run r owner show thesis by (intro that(1)) (auto simp: Let_def)
  next
    case (removed s)
    let ?m1 = "m1\<lparr>mBindings := (if resOwner p \<noteq> [] then del (resOwner p) (mBindings m)
        else mBindings m)\<rparr>"
    have "lease_inv (m\<lparr>mStore := s\<rparr>)" using inv by simp
    from lease_inv_remove [OF this, of rid p] removed p idle
    have "lease_inv (broadcast ?m1)"
      by (cases "resOwner p = []") (simp_all add: broadcast_def)
    then have "lease_inv ?m1" by simp
    with run r owner removed show thesis
      by (intro that(2) [of s ?m1]) (auto simp: broadcast_def Let_def split: if_splits)
  qed
qed

text \<open>A run of removals stops at the first failed delete; the members before it are gone, the
  tasks they were locked for are reported, and everything else is as it was.\<close>

lemma unbound_of_Cons:
  "get (mPool m) rid = Some p \<Longrightarrow>
     unbound_of m (rid # ids) = (if resOwner p \<noteq> [] then [resOwner p] else []) @ unbound_of m ids"
  by (simp add: unbound_of_def ownerAt_def)

lemma unbound_of_cong:
  "(\<And>r. r \<in> set ids \<Longrightarrow> get (mPool m) r = get (mPool m') r) \<Longrightarrow>
     unbound_of m ids = unbound_of m' ids"
  by (simp add: unbound_of_def ownerAt_def cong: map_cong)

lemma removeMembers_run:
  assumes "removeMembers ids ub m = (ts, e, m')" "lease_inv m" "distinct ids"
    and "\<And>rid. rid \<in> set ids \<Longrightarrow> get (mPool m) rid \<noteq> None \<and> holdersOf m rid = []"
  shows "lease_inv m' \<and> mGroups m' = mGroups m \<and> mStrategies m' = mStrategies m \<and>
    (\<exists>k \<le> length ids. (e = None \<longrightarrow> k = length ids) \<and> ts = ub @ unbound_of m (take k ids) \<and>
       (\<forall>r. get (mPool m') r = (if r \<in> set (take k ids) then None else get (mPool m) r)) \<and>
       (\<forall>r. holdersOf m' r = holdersOf m r) \<and>
       (mGen m < mGen m' \<or> (\<exists>s. m' = m\<lparr>mStore := s\<rparr>)))"
  using assms
proof (induction ids arbitrary: ub m)
  case Nil
  moreover have "\<exists>s. m = m\<lparr>mStore := s\<rparr>" by (rule exI [of _ "mStore m"]) simp
  ultimately show ?case by (simp add: unbound_of_def)
next
  case (Cons rid ids)
  obtain p where p: "get (mPool m) rid = Some p" using Cons.prems(4) [of rid] by auto
  have idle: "holdersOf m rid = []" using Cons.prems(4) [of rid] by simp
  from Cons.prems(1,2) p idle show ?case
  proof (cases rule: removeMembers_step)
    case (unsaved er s)
    then show ?thesis using Cons.prems(2)
      by (intro conjI exI [of _ 0]) (auto simp: unbound_of_def)
  next
    case (removed m1 s)
    have pool1: "get (mPool m1) r = (if r = rid then None else get (mPool m) r)" for r
      by (simp add: removed(3) broadcast_def)
    have held1: "holdersOf m1 r = (if r = rid then [] else holdersOf m r)" for r
      by (simp add: removed(3) broadcast_def holdersOf_def)
    have rest: "get (mPool m1) r \<noteq> None \<and> holdersOf m1 r = []" if "r \<in> set ids" for r
      using that Cons.prems(3) Cons.prems(4) [of r] by (auto simp: pool1 held1)
    have d: "distinct ids" using Cons.prems(3) by simp
    from Cons.IH [OF removed(4,2) d rest]
    obtain k where IH: "lease_inv m'" "mGroups m' = mGroups m1" "mStrategies m' = mStrategies m1"
      "k \<le> length ids" "e = None \<longrightarrow> k = length ids"
      "ts = (ub @ (if resOwner p \<noteq> [] then [resOwner p] else [])) @ unbound_of m1 (take k ids)"
      "\<forall>r. get (mPool m') r = (if r \<in> set (take k ids) then None else get (mPool m1) r)"
      "\<forall>r. holdersOf m' r = holdersOf m1 r"
      "mGen m1 < mGen m' \<or> (\<exists>s. m' = m1\<lparr>mStore := s\<rparr>)"
      by blast
    have "unbound_of m1 (take k ids) = unbound_of m (take k ids)"
      using Cons.prems(3) by (intro unbound_of_cong) (auto simp: pool1 dest: in_set_takeD)
    then have ts: "ts = ub @ unbound_of m (take (Suc k) (rid # ids))"
      using IH(6) p by (simp add: unbound_of_Cons)
    have pool: "\<forall>r. get (mPool m') r =
        (if r \<in> set (take (Suc k) (rid # ids)) then None else get (mPool m) r)"
      using IH(7) by (simp add: pool1)
    have held: "\<forall>r. holdersOf m' r = holdersOf m r"
      using IH(8) idle by (simp add: held1)
    have "mGen m1 = Suc (mGen m)" by (simp add: removed(3) broadcast_def)
    then have gen: "mGen m < mGen m'" using IH(9) by auto
    have frame: "mGroups m' = mGroups m" "mStrategies m' = mStrategies m"
      using IH(2,3) by (simp_all add: removed(3) broadcast_def)
    have "Suc k \<le> length (rid # ids)" "e = None \<longrightarrow> Suc k = length (rid # ids)" using IH(4,5) by simp_all
    with IH(1) frame ts pool held gen show ?thesis by blast
  qed
qed

lemma members_facts:
  assumes "lease_inv m"
  shows "distinct (members m gid)"
    "rid \<in> set (members m gid) \<longleftrightarrow> (\<exists>p. get (mPool m) rid = Some p \<and> resGroup p = gid)"
proof -
  show "distinct (members m gid)"
    using lease_invD(2) [OF assms] by (simp add: members_def inv_pool_def)
  show "rid \<in> set (members m gid) \<longleftrightarrow> (\<exists>p. get (mPool m) rid = Some p \<and> resGroup p = gid)"
    by (auto simp: members_def groupAt_def order_pool [OF assms])
qed

lemma DeleteGroup_cases:
  assumes run: "DeleteGroup gid m = (ts, e, m')" and inv: "lease_inv m"
  obtains (refused) er where "e = Some er" "ts = []" "m' = m"
      "er = EDeleteGlobal \<and> gid = GlobalGroup \<or>
       er = EDeleteMissingGroup gid \<and> get (mGroups m) gid = None \<or>
       (\<exists>rid. rid \<in> set (members m gid) \<and> holdersOf m rid \<noteq> [] \<and>
          er = EGroupHeld rid (holderIDs m rid))"
  | (partial) er ub m1 s where "e = Some er" "gid \<noteq> GlobalGroup"
      "\<And>rid. rid \<in> set (members m gid) \<Longrightarrow> holdersOf m rid = []"
      "removeMembers (members m gid) [] m = (ts, ub, m1)" "m' = m1\<lparr>mStore := s\<rparr>"
  | (deleted) ub m1 s where "e = None" "gid \<noteq> GlobalGroup"
      "\<And>rid. rid \<in> set (members m gid) \<Longrightarrow> holdersOf m rid = []"
      "removeMembers (members m gid) [] m = (ub, None, m1)" "ts = sort ub"
      "repoDeleteGroup (mRepo m1) gid (mStore m1) = (None, s)"
      "m' = broadcast (m1\<lparr>mStore := s, mGroups := del gid (mGroups m1),
                          mStrategies := del gid (mStrategies m1)\<rparr>)"
proof -
  consider (glob) "gid = GlobalGroup" | (missing) "gid \<noteq> GlobalGroup" "get (mGroups m) gid = None"
    | (held) rid hs where "gid \<noteq> GlobalGroup" "get (mGroups m) gid \<noteq> None"
        "firstHeld m (members m gid) = Some (rid, hs)"
    | (idle) "gid \<noteq> GlobalGroup" "get (mGroups m) gid \<noteq> None" "firstHeld m (members m gid) = None"
    by (cases "firstHeld m (members m gid)") auto
  then show thesis
  proof cases
    case glob
    with run show thesis by (intro refused [of EDeleteGlobal]) (auto simp: DeleteGroup_def)
  next
    case missing
    with run show thesis by (intro refused [of "EDeleteMissingGroup gid"]) (auto simp: DeleteGroup_def)
  next
    case (held rid hs)
    with run show thesis
      by (intro refused [of "EGroupHeld rid (holderIDs m rid)"])
        (auto simp: DeleteGroup_def dest: firstHeld_Some)
  next
    case idle
    have free: "\<And>rid. rid \<in> set (members m gid) \<Longrightarrow> holdersOf m rid = []"
      using idle(3) by (simp add: firstHeld_None)
    obtain ub r m1 where r: "removeMembers (members m gid) [] m = (ub, r, m1)"
      by (cases "removeMembers (members m gid) [] m") auto
    have keep: "m1 = m1\<lparr>mStore := mStore m1\<rparr>" by simp
    show thesis
    proof (cases r)
      case (Some er)
      with run idle r have "e = Some er" "ts = ub" "m' = m1" by (auto simp: DeleteGroup_def)
      with idle free r keep show thesis by (metis partial)
    next
      case None
      obtain q s where q: "repoDeleteGroup (mRepo m1) gid (mStore m1) = (q, s)" by fastforce
      show thesis
      proof (cases q)
        case (Some er)
        with run idle r None q have "e = Some (EDeleteGroupRow gid er)" "ts = ub" "m' = m1\<lparr>mStore := s\<rparr>"
          by (auto simp: DeleteGroup_def repo_delete_group_def)
        with idle free r show thesis by (metis partial)
      next
        case none: None
        with run idle r None q free show thesis
          by (intro deleted [of ub m1 s]) (auto simp: DeleteGroup_def repo_delete_group_def)
      qed
    qed
  qed
qed

lemma members_run:
  assumes "removeMembers (members m gid) [] m = (ts, e, m')" "lease_inv m"
    and "\<And>rid. rid \<in> set (members m gid) \<Longrightarrow> holdersOf m rid = []"
  shows "lease_inv m'" "mGroups m' = mGroups m"
    "\<exists>k \<le> length (members m gid). (e = None \<longrightarrow> k = length (members m gid)) \<and>
       ts = unbound_of m (take k (members m gid)) \<and>
       (\<forall>r. get (mPool m') r = (if r \<in> set (take k (members m gid)) then None else get (mPool m) r))"
    "e = None \<Longrightarrow> get (mPool m') r = (if r \<in> set (members m gid) then None else get (mPool m) r)"
    "e = None \<Longrightarrow> ts = unbound_of m (members m gid)"
    "holdersOf m' r = holdersOf m r" "mGen m < mGen m' \<or> (\<exists>s. m' = m\<lparr>mStore := s\<rparr>)"
proof -
  have "get (mPool m) rid \<noteq> None \<and> holdersOf m rid = []" if "rid \<in> set (members m gid)" for rid
    using that assms(3) members_facts(2) [OF assms(2), of rid gid] by auto
  from removeMembers_run [OF assms(1,2) members_facts(1) [OF assms(2)] this]
  obtain k where R: "lease_inv m'" "mGroups m' = mGroups m"
    "k \<le> length (members m gid)" "e = None \<longrightarrow> k = length (members m gid)"
    "ts = unbound_of m (take k (members m gid))"
    "\<forall>r. get (mPool m') r = (if r \<in> set (take k (members m gid)) then None else get (mPool m) r)"
    "\<forall>r. holdersOf m' r = holdersOf m r" "mGen m < mGen m' \<or> (\<exists>s. m' = m\<lparr>mStore := s\<rparr>)"
    by auto
  show "lease_inv m'" "mGroups m' = mGroups m" by (fact R)+
  show "holdersOf m' r = holdersOf m r" using R(7) by simp
  show "mGen m < mGen m' \<or> (\<exists>s. m' = m\<lparr>mStore := s\<rparr>)" by (fact R)
  show "\<exists>k \<le> length (members m gid). (e = None \<longrightarrow> k = length (members m gid)) \<and>
       ts = unbound_of m (take k (members m gid)) \<and>
       (\<forall>r. get (mPool m') r = (if r \<in> set (take k (members m gid)) then None else get (mPool m) r))"
    using R by blast
  show "get (mPool m') r = (if r \<in> set (members m gid) then None else get (mPool m) r)" if "e = None"
    using R that by simp
  show "ts = unbound_of m (members m gid)" if "e = None"
    using R that by simp
qed

lemma DeleteGroup_inv:
  assumes run: "DeleteGroup gid m = (ts, e, m')" and inv: "lease_inv m"
  shows "lease_inv m'"
  using run inv
proof (cases rule: DeleteGroup_cases)
  case (partial er ub m1 s)
  have "lease_inv m1" using members_run(1) [OF partial(4) inv partial(3)] .
  with partial show ?thesis by simp
next
  case (deleted ub m1 s)
  note R = members_run [OF deleted(4) inv deleted(3)]
  have empty: "resGroup p \<noteq> gid" if "get (mPool m1) rid = Some p" for rid p
    using that R(4) [of rid] members_facts(2) [OF inv, of rid gid] by (auto split: if_splits)
  have "lease_inv (m1\<lparr>mStore := s\<rparr>)" using R(1) by simp
  from lease_inv_del_group [OF this deleted(2)] empty deleted show ?thesis by simp
qed (use inv in simp_all)

section \<open>Construction\<close>

text \<open>What holds of the groups while they are being loaded, before the global one is certain.\<close>

definition loading_groups :: "('s, 'x) manager \<Rightarrow> bool" where
  "loading_groups m \<longleftrightarrow> wf_map (mGroups m) \<and> wf_map (mStrategies m) \<and>
     (\<forall>gid. get (mStrategies m) gid = None \<longleftrightarrow> get (mGroups m) gid = None) \<and>
     (\<forall>gid g. get (mGroups m) gid = Some g \<longrightarrow>
        grpID g = gid \<and> gid \<noteq> [] \<and> get (mFactories m) (strategyName g) \<noteq> None)"

definition nothing_loaded :: "('s, 'x) manager \<Rightarrow> bool" where
  "nothing_loaded m \<longleftrightarrow> mPool m = [] \<and> mOrder m = [] \<and> mHolders m = [] \<and> mBindings m = []"

lemma loading_frame [simp]:
  "loading_groups (m\<lparr>mStore := s\<rparr>) = loading_groups m"
  "nothing_loaded (m\<lparr>mStore := s\<rparr>) = nothing_loaded m"
  by (simp_all add: loading_groups_def nothing_loaded_def)

lemma adoptGroup_loading:
  assumes "adoptGroup g m = (None, m')" "loading_groups m" "nothing_loaded m"
  shows "loading_groups m'" "nothing_loaded m'" "mStore m' = mStore m" "mRepo m' = mRepo m"
    "mFactories m' = mFactories m" "mGroups m' = put (grpID g) g (mGroups m)"
proof -
  from assms(1) obtain f where f: "grpID g \<noteq> []" "get (mFactories m) (strategyName g) = Some f"
    and m': "m' = m\<lparr>mGroups := put (grpID g) g (mGroups m),
                   mStrategies := put (grpID g) f (mStrategies m)\<rparr>"
    by (auto simp: adoptGroup_None validateGroup_Inr)
  show "loading_groups m'" using assms(2) f by (simp add: m' loading_groups_def)
  show "nothing_loaded m'" using assms(3) by (simp add: m' nothing_loaded_def)
qed (use assms(1) in \<open>auto simp: adoptGroup_None\<close>)

lemma loadGroups_loading:
  assumes "loadGroups gs m = (None, m')" "loading_groups m" "nothing_loaded m"
  shows "loading_groups m' \<and> nothing_loaded m' \<and> mStore m' = mStore m \<and> mRepo m' = mRepo m \<and>
    mFactories m' = mFactories m"
  using assms
proof (induction gs arbitrary: m)
  case (Cons g gs)
  from Cons.prems(1) obtain m1 where m1: "adoptGroup g m = (None, m1)" "loadGroups gs m1 = (None, m')"
    by (auto split: if_splits prod.splits option.splits)
  from adoptGroup_loading [OF m1(1) Cons.prems(2,3)] Cons.IH [OF m1(2)] show ?case by simp
qed simp

lemma ensureGlobal_loading:
  assumes "ensureGlobal now m = (None, m')" "loading_groups m" "nothing_loaded m"
  shows "loading_groups m' \<and> nothing_loaded m' \<and> get (mGroups m') GlobalGroup \<noteq> None \<and>
    mRepo m' = mRepo m"
proof (cases "get (mGroups m) GlobalGroup")
  case (Some g)
  with assms show ?thesis by (simp add: ensureGlobal_def)
next
  case None
  let ?g = "\<lparr>grpID = GlobalGroup, grpStrategy = StrategyRoundRobin, grpRefs = [],
             grpCreated = now, grpUpdated = now\<rparr>"
  obtain e s where r: "repoSaveGroup (mRepo m) ?g (mStore m) = (e, s)" by fastforce
  with assms(1) None have "adoptGroup ?g (m\<lparr>mStore := s\<rparr>) = (None, m')"
    by (auto simp: ensureGlobal_def repo_save_group_def split: option.splits)
  from adoptGroup_loading [OF this] assms(2,3) show ?thesis by simp
qed

lemma loading_lease_inv:
  assumes "loading_groups m" "nothing_loaded m" "get (mGroups m) GlobalGroup \<noteq> None"
  shows "lease_inv m"
  using assms
  by (intro lease_invI)
    (simp_all add: loading_groups_def nothing_loaded_def inv_defs holdersOf_def heldCount_def)

lemma loadResource_cases:
  assumes "loadResource p0 m = (None, m')"
  obtains p where "p = p0\<lparr>resGroup := if resGroup p0 = [] then GlobalGroup else resGroup p0\<rparr>"
    "get (mPool m) (resID p0) = None" "get (mGroups m) (resGroup p) \<noteq> None"
    "UnlimitedHolders \<le> resMax p0" "resOwner p0 \<noteq> [] \<Longrightarrow> get (mBindings m) (resOwner p0) = None"
    "m' = m\<lparr>mPool := put (resID p) p (mPool m), mOrder := mOrder m @ [resID p],
            mBindings := (if resOwner p = [] then mBindings m
                          else put (resOwner p) (resID p) (mBindings m))\<rparr>"
proof
  let ?p = "p0\<lparr>resGroup := if resGroup p0 = [] then GlobalGroup else resGroup p0\<rparr>"
  show "?p = ?p" ..
  show "get (mPool m) (resID p0) = None" "get (mGroups m) (resGroup ?p) \<noteq> None"
    using assms by (auto simp: loadResource_def Let_def split: if_splits option.splits)
  show "UnlimitedHolders \<le> resMax p0"
    using assms by (auto simp: loadResource_def Let_def validateHolderPolicy_None [of "resID p0", symmetric]
        split: if_splits option.splits)
  show "get (mBindings m) (resOwner p0) = None" if "resOwner p0 \<noteq> []"
    using assms that by (auto simp: loadResource_def Let_def split: if_splits option.splits)
  show "m' = m\<lparr>mPool := put (resID ?p) ?p (mPool m), mOrder := mOrder m @ [resID ?p],
            mBindings := (if resOwner ?p = [] then mBindings m
                          else put (resOwner ?p) (resID ?p) (mBindings m))\<rparr>"
    using assms by (auto simp: loadResource_def Let_def split: if_splits option.splits)
qed

lemma loadPool_inv:
  assumes "loadPool ps m = (None, m')" "lease_inv m"
  shows "lease_inv m' \<and> mGroups m' = mGroups m \<and> mHolders m' = mHolders m"
  using assms
proof (induction ps arbitrary: m)
  case (Cons p0 ps)
  from Cons.prems(1) obtain m1 where m1: "loadResource p0 m = (None, m1)" "loadPool ps m1 = (None, m')"
    by (auto split: prod.splits option.splits)
  from m1(1) have "lease_inv m1 \<and> mGroups m1 = mGroups m \<and> mHolders m1 = mHolders m"
  proof (cases rule: loadResource_cases)
    case (1 p)
    then show ?thesis
      using lease_inv_install_locked [OF Cons.prems(2), of "resID p" p] by simp
  qed
  with Cons.IH [OF m1(2)] show ?case by simp
qed simp

lemma fold_options_frame:
  "loading_groups m \<Longrightarrow> mGroups m = [] \<Longrightarrow> nothing_loaded m \<Longrightarrow>
     loading_groups (fold (\<lambda>(n, f). WithStrategy n f) opts m) \<and>
     nothing_loaded (fold (\<lambda>(n, f). WithStrategy n f) opts m) \<and>
     mRepo (fold (\<lambda>(n, f). WithStrategy n f) opts m) = mRepo m"
proof (induction opts arbitrary: m)
  case (Cons opt opts)
  obtain n f where opt: "opt = (n, f)" by fastforce
  have "loading_groups (WithStrategy n f m)" "mGroups (WithStrategy n f m) = []"
    "nothing_loaded (WithStrategy n f m)" "mRepo (WithStrategy n f m) = mRepo m"
    using Cons.prems by (simp_all add: WithStrategy_def loading_groups_def nothing_loaded_def)
  with Cons.IH [of "WithStrategy n f m"] opt show ?case by simp
qed simp

text \<open>The stages a successful construction went through.\<close>

lemma NewManager_stages:
  assumes "NewManager repo opts now s = (Inr m, s')"
  obtains R m0 gs s1 m1 m2 ps s3 where
    "R = (case repo of None \<Rightarrow> noopRepository | Some R \<Rightarrow> R)"
    "m0 = fold (\<lambda>(n, f). WithStrategy n f) opts (emptyManager R s)"
    "repoListGroups R s = (Inr gs, s1)" "loadGroups gs (m0\<lparr>mStore := s1\<rparr>) = (None, m1)"
    "ensureGlobal now m1 = (None, m2)" "repoList R (mStore m2) = (Inr ps, s3)"
    "loadPool ps (m2\<lparr>mStore := s3\<rparr>) = (None, m)" "s' = mStore m"
  using assms
  by (auto simp: NewManager_def Let_def split: prod.splits sum.splits option.splits)

lemma NewManager_inv:
  assumes "NewManager repo opts now s = (Inr m, s')"
  shows "lease_inv m \<and> mHolders m = []"
  using assms
proof (cases rule: NewManager_stages)
  case (1 R m0 gs s1 m1 m2 ps s3)
  have "loading_groups (emptyManager R s)" "mGroups (emptyManager R s) = []"
    "nothing_loaded (emptyManager R s)"
    by (simp_all add: emptyManager_def loading_groups_def nothing_loaded_def)
  from fold_options_frame [OF this, of opts] 1(2)
  have "loading_groups (m0\<lparr>mStore := s1\<rparr>)" "nothing_loaded (m0\<lparr>mStore := s1\<rparr>)" by simp_all
  from loadGroups_loading [OF 1(4) this] have "loading_groups m1" "nothing_loaded m1" by simp_all
  from ensureGlobal_loading [OF 1(5) this]
  have m2: "loading_groups m2" "nothing_loaded m2" "get (mGroups m2) GlobalGroup \<noteq> None" by simp_all
  then have "lease_inv (m2\<lparr>mStore := s3\<rparr>)" using loading_lease_inv by simp
  from loadPool_inv [OF 1(7) this] m2(2) show ?thesis by (simp add: nothing_loaded_def)
qed

end
