(* ===== verification/Leasing_System.thy ===== *)
theory Leasing_System
  imports Leasing_Ops
begin

text \<open>
  The manager under concurrent callers. Every operation is one critical section, so a run of the
  program is an interleaving of steps: a call of an operation, the first pass of an Acquire or Lock,
  a later pass of one that went to sleep, the cancellation of a context, the release of a lease.

  The step relation keeps the manager, the acquires asleep in Wait (with the count of broadcasts
  they went to sleep at) and the leases handed out (with the flag of their \<^theory_text>\<open>sync.Once\<close>). Waiters
  and leases are reached by their position, in the order they came to be.
\<close>

record sleeper =
  slpAsg :: assignment
  slpLock :: bool
  slpGen :: nat

record 'x handle =
  hndLease :: "'x lease"
  hndDone :: bool

record ('s, 'x) sys =
  sysMgr :: "('s, 'x) manager"
  sysAsleep :: "sleeper list"
  sysLeases :: "'x handle list"

text \<open>Lease.Release: only the first call acts.\<close>

definition Release :: "nat \<Rightarrow> ('s, 'x) sys \<Rightarrow> ('s, 'x) sys" where
  "Release i S =
     (let h = sysLeases S ! i in
      if hndDone h then S
      else S\<lparr>sysMgr := release (resID (lseRes (hndLease h))) (lseTask (hndLease h)) (sysMgr S),
             sysLeases := (sysLeases S)[i := h\<lparr>hndDone := True\<rparr>]\<rparr>)"

text \<open>What the end of a pass does to the callers: a lease is handed out, or the call goes to sleep.\<close>

definition settle ::
    "assignment \<Rightarrow> bool \<Rightarrow> 'x outcome \<Rightarrow> ('s, 'x) manager \<Rightarrow> ('s, 'x) sys \<Rightarrow> ('s, 'x) sys" where
  "settle a lock out m S =
     (case out of
        Leased l \<Rightarrow> S\<lparr>sysMgr := m, sysLeases := sysLeases S @ [\<lparr>hndLease = l, hndDone = False\<rparr>]\<rparr>
      | Waiting \<Rightarrow>
          S\<lparr>sysMgr := m,
            sysAsleep := sysAsleep S @ [\<lparr>slpAsg = a, slpLock = lock, slpGen = mGen m\<rparr>]\<rparr>
      | Refused e \<Rightarrow> S\<lparr>sysMgr := m\<rparr>
      | Panicked \<Rightarrow> S\<lparr>sysMgr := m\<rparr>)"

definition dropAt :: "nat \<Rightarrow> 'a list \<Rightarrow> 'a list" where
  "dropAt i xs = take i xs @ drop (Suc i) xs"

inductive sys_step :: "('s, 'x) sys \<Rightarrow> ('s, 'x) sys \<Rightarrow> bool" where
  create_group: "CreateGroup now g (sysMgr S) = (e, m) \<Longrightarrow> sys_step S (S\<lparr>sysMgr := m\<rparr>)"
| update_group: "UpdateGroup now gid fn (sysMgr S) = (e, m) \<Longrightarrow> sys_step S (S\<lparr>sysMgr := m\<rparr>)"
| delete_group: "DeleteGroup gid (sysMgr S) = (ts, e, m) \<Longrightarrow> sys_step S (S\<lparr>sysMgr := m\<rparr>)"
| add: "Add now p (sysMgr S) = (e, m) \<Longrightarrow> sys_step S (S\<lparr>sysMgr := m\<rparr>)"
| update: "Update now rid f (sysMgr S) = (e, m) \<Longrightarrow> sys_step S (S\<lparr>sysMgr := m\<rparr>)"
| delete: "Delete rid (sysMgr S) = (ts, e, m) \<Longrightarrow> sys_step S (S\<lparr>sysMgr := m\<rparr>)"
| unlock: "Unlock now t (sysMgr S) = (e, m) \<Longrightarrow> sys_step S (S\<lparr>sysMgr := m\<rparr>)"
| release_stale: "ReleaseStaleLock now a (sysMgr S) = (e, m) \<Longrightarrow> sys_step S (S\<lparr>sysMgr := m\<rparr>)"
| start: "acquire_prepare a0 = Inr a \<Longrightarrow> acquire_pass ctx now a lock (sysMgr S) = (out, m) \<Longrightarrow>
    sys_step S (settle a lock out m S)"
| wake: "i < length (sysAsleep S) \<Longrightarrow> w = sysAsleep S ! i \<Longrightarrow> slpGen w < mGen (sysMgr S) \<Longrightarrow>
    acquire_pass ctx now (slpAsg w) (slpLock w) (sysMgr S) = (out, m) \<Longrightarrow>
    sys_step S (settle (slpAsg w) (slpLock w) out m (S\<lparr>sysAsleep := dropAt i (sysAsleep S)\<rparr>))"
| cancel: "sys_step S (S\<lparr>sysMgr := broadcast (sysMgr S)\<rparr>)"
| let_go: "i < length (sysLeases S) \<Longrightarrow> sys_step S (Release i S)"

text \<open>The runs of a process: it starts with a manager NewManager built, nobody asleep, no lease.\<close>

inductive reachable :: "('s, 'x) sys \<Rightarrow> bool" where
  boot: "NewManager repo opts now s = (Inr m, s') \<Longrightarrow>
    reachable \<lparr>sysMgr = m, sysAsleep = [], sysLeases = []\<rparr>"
| step: "reachable S \<Longrightarrow> sys_step S S' \<Longrightarrow> reachable S'"

section \<open>What an operation can do to the manager\<close>

text \<open>
  Three facts about an operation carry every theorem below. It keeps the invariant, it leaves the
  holders alone, and either it broadcasts or it takes nothing from a sleeper's reasons to wait.
\<close>

text \<open>Why a pass with no pending cancellation would not lease anything.\<close>

definition stuck :: "assignment \<Rightarrow> bool \<Rightarrow> ('s, 'x) manager \<Rightarrow> bool" where
  "stuck a lock m =
     (case get (mBindings m) (asgTask a) of
        Some rid \<Rightarrow> holdersOf m rid \<noteq> []
      | None \<Rightarrow> candidates a lock m = [])"

definition held_same :: "('s, 'x) manager \<Rightarrow> ('s, 'x) manager \<Rightarrow> bool" where
  "held_same m m' \<longleftrightarrow> (\<forall>rid. holdersOf m' rid = holdersOf m rid)"

definition quiet :: "('s, 'x) manager \<Rightarrow> ('s, 'x) manager \<Rightarrow> bool" where
  "quiet m m' \<longleftrightarrow> mGen m < mGen m' \<or> mGen m' = mGen m \<and>
     (\<forall>a lock. stuck a lock m \<longrightarrow> stuck a lock m')"

definition op_ok :: "('s, 'x) manager \<Rightarrow> ('s, 'x) manager \<Rightarrow> bool" where
  "op_ok m m' \<longleftrightarrow> lease_inv m' \<and> held_same m m' \<and> quiet m m'"

lemma quiet_refl [simp]: "quiet m m"
  by (simp add: quiet_def)

lemma quiet_trans: "quiet m1 m2 \<Longrightarrow> quiet m2 m3 \<Longrightarrow> quiet m1 m3"
  unfolding quiet_def by fastforce

lemma held_same_refl [simp]: "held_same m m"
  by (simp add: held_same_def)

lemma stuck_frame [simp]:
  "stuck a lock (m\<lparr>mStore := s\<rparr>) = stuck a lock m"
  "stuck a lock (m\<lparr>mStrategies := ss\<rparr>) = stuck a lock m"
  "stuck a lock (m\<lparr>mGen := n\<rparr>) = stuck a lock m"
  by (simp_all add: stuck_def cong: option.case_cong)

lemma quiet_broadcast [simp]: "quiet m (broadcast m)"
  by (simp add: quiet_def broadcast_def)

lemma quietI: "mGen m < mGen m' \<Longrightarrow> quiet m m'"
  by (simp add: quiet_def)

lemma mGen_broadcast [simp]: "mGen (broadcast m) = Suc (mGen m)"
  by (simp add: broadcast_def)

lemma candidates_groups [simp]:
  "candidates a ri (m\<lparr>mGroups := gs\<rparr>) = candidates a ri m"
proof -
  have "collect_candidates a ri (m\<lparr>mGroups := gs\<rparr>) ids = collect_candidates a ri m ids" for ids
    by (induction ids) (simp_all add: is_candidate_iff option.case_eq_if)
  then show ?thesis by (simp add: candidates_def)
qed

lemma stuck_groups [simp]: "stuck a lock (m\<lparr>mGroups := gs\<rparr>) = stuck a lock m"
  by (simp add: stuck_def cong: option.case_cong)

lemma candidates_Nil:
  "lease_inv m \<Longrightarrow> candidates a ri m = [] \<longleftrightarrow>
     (\<forall>rid p. get (mPool m) rid = Some p \<longrightarrow> \<not> is_candidate a ri m rid p)"
  using set_candidates [of m _ a ri] pool_id [of m] by (metis list.set_intros(1) neq_Nil_conv empty_iff list.set(1))

lemma op_okI: "lease_inv m' \<Longrightarrow> held_same m m' \<Longrightarrow> quiet m m' \<Longrightarrow> op_ok m m'"
  by (simp add: op_ok_def)

text \<open>A failed write leaves the manager as it was, up to the store.\<close>

lemma op_ok_store: "lease_inv m \<Longrightarrow> op_ok m (m\<lparr>mStore := s\<rparr>)"
  by (simp add: op_ok_def held_same_def quiet_def)

lemma op_ok_refl: "lease_inv m \<Longrightarrow> op_ok m m"
  by (simp add: op_ok_def)

lemma op_ok_CreateGroup:
  assumes run: "CreateGroup now g m = (e, m')" and inv: "lease_inv m"
  shows "op_ok m m'"
proof (rule op_okI)
  show "lease_inv m'" using CreateGroup_inv assms .
  show "held_same m m'" using run by (cases rule: CreateGroup_cases) (simp_all add: held_same_def)
  show "quiet m m'" using run by (cases rule: CreateGroup_cases) (simp_all add: quiet_def)
qed

lemma op_ok_UpdateGroup:
  assumes run: "UpdateGroup now gid fn m = (e, m')" and inv: "lease_inv m"
  shows "op_ok m m'"
proof (rule op_okI)
  show "lease_inv m'" using UpdateGroup_inv assms .
  show "held_same m m'"
    using run by (cases rule: UpdateGroup_cases) (simp_all add: held_same_def shared_refs_def)
  show "quiet m m'"
    using run by (cases rule: UpdateGroup_cases) (simp_all add: quiet_def shared_refs_def)
qed

lemma op_ok_DeleteGroup:
  assumes run: "DeleteGroup gid m = (ts, e, m')" and inv: "lease_inv m"
  shows "op_ok m m'"
proof (rule op_okI)
  show "lease_inv m'" using DeleteGroup_inv assms .
  from run inv show "held_same m m'"
  proof (cases rule: DeleteGroup_cases)
    case (partial er ub m1 s)
    then show ?thesis using members_run(6) [OF partial(4) inv] by (simp add: held_same_def)
  next
    case (deleted ub m1 s)
    then show ?thesis
      using members_run(6) [OF deleted(4) inv] by (simp add: held_same_def broadcast_def)
  qed simp
  from run inv show "quiet m m'"
  proof (cases rule: DeleteGroup_cases)
    case (partial er ub m1 s)
    from members_run(7) [OF partial(4) inv partial(3)] show ?thesis
      by (auto simp: partial(5) quiet_def)
  next
    case (deleted ub m1 s)
    from members_run(7) [OF deleted(4) inv deleted(3)] show ?thesis
      by (auto simp: deleted(7) intro: quietI)
  qed simp
qed

lemma op_ok_Add:
  assumes run: "Add now p0 m = (e, m')" and inv: "lease_inv m"
  shows "op_ok m m'"
proof (rule op_okI)
  show "lease_inv m'" using Add_inv assms .
  show "held_same m m'"
    using run by (cases rule: Add_cases) (simp_all add: held_same_def broadcast_def)
  show "quiet m m'"
    using run by (cases rule: Add_cases) (simp_all add: quiet_def)
qed

text \<open>A model edit keeps the embedded resource, so it frees nothing and takes nothing.\<close>

lemma stuck_rewrite:
  assumes inv: "lease_inv m" and p: "get (mPool m) rid = Some p"
    and same: "resID q = resID p" "resGroup q = resGroup p" "resMax q = resMax p"
      "resOwner q = resOwner p"
  shows "stuck a lock (m\<lparr>mPool := put rid q (mPool m)\<rparr>) = stuck a lock m"
proof -
  let ?m = "m\<lparr>mPool := put rid q (mPool m)\<rparr>"
  have inv': "lease_inv ?m" using lease_inv_rewrite assms .
  have same_test: "is_candidate a lock ?m r x \<longleftrightarrow> is_candidate a lock m r x" for r and x :: "'b resource_scheme"
    by (simp add: is_candidate_iff)
  have "is_candidate a lock m rid q \<longleftrightarrow> is_candidate a lock m rid p"
    using same by (simp add: is_candidate_iff effectiveCap_def)
  then have "candidates a lock ?m = [] \<longleftrightarrow> candidates a lock m = []"
    using p by (auto simp: candidates_Nil [OF inv] candidates_Nil [OF inv'] same_test)
  then show ?thesis by (simp add: stuck_def cong: option.case_cong)
qed

lemma op_ok_Update:
  assumes run: "Update now rid f m = (e, m')" and inv: "lease_inv m"
  shows "op_ok m m'"
proof (rule op_okI)
  show "lease_inv m'" using Update_inv assms .
  show "held_same m m'"
    using run by (cases rule: Update_cases) (simp_all add: held_same_def)
  from run show "quiet m m'"
  proof (cases rule: Update_cases)
    case (updated p0 p s)
    have "stuck a lock m' = stuck a lock (m\<lparr>mStore := s\<rparr>)" for a lock
      using stuck_rewrite [of "m\<lparr>mStore := s\<rparr>" rid p0 p a lock] updated inv by simp
    with updated show ?thesis by (simp add: quiet_def)
  qed (simp_all add: quiet_def)
qed

lemma op_ok_Delete:
  assumes run: "Delete rid m = (ts, e, m')" and inv: "lease_inv m"
  shows "op_ok m m'"
proof (rule op_okI)
  show "lease_inv m'" using Delete_inv assms .
  show "held_same m m'"
    using run by (cases rule: Delete_cases) (simp_all add: held_same_def broadcast_def holdersOf_def)
  show "quiet m m'"
    using run by (cases rule: Delete_cases) (simp_all add: quiet_def)
qed

lemma op_ok_unlock:
  assumes run: "unlock now t rid m = (e, m')" and inv: "lease_inv m"
    and b: "get (mBindings m) t = Some rid"
  shows "op_ok m m'"
proof (rule op_okI)
  show "lease_inv m'" using unlock_inv assms .
  obtain p where p: "get (mPool m) rid = Some p" using b binding_owner [OF inv] by blast
  show "held_same m m'"
    using run p by (cases rule: unlock_cases) (simp_all add: held_same_def broadcast_def)
  show "quiet m m'"
    using run p by (cases rule: unlock_cases) (simp_all add: quiet_def)
qed

lemma op_ok_Unlock:
  assumes run: "Unlock now t m = (e, m')" and inv: "lease_inv m"
  shows "op_ok m m'"
proof (cases "get (mBindings m) t")
  case None
  with run inv show ?thesis by (auto simp: Unlock_def op_ok_refl)
next
  case (Some rid)
  with run have "unlock now t rid m = (e, m')" by (simp add: Unlock_def)
  from op_ok_unlock [OF this inv Some] show ?thesis .
qed

lemma op_ok_ReleaseStaleLock:
  assumes run: "ReleaseStaleLock now a m = (e, m')" and inv: "lease_inv m"
  shows "op_ok m m'"
proof (cases "get (mBindings m) (asgTask a)")
  case None
  with run inv show ?thesis by (auto simp: ReleaseStaleLock_def op_ok_refl)
next
  case (Some rid)
  then have "m' = m \<or> unlock now (asgTask a) rid m = (e, m')"
    using run by (auto simp: ReleaseStaleLock_def split: option.splits if_splits)
  then show ?thesis using op_ok_unlock [OF _ inv Some] op_ok_refl [OF inv] by auto
qed

lemma op_ok_broadcast: "lease_inv m \<Longrightarrow> op_ok m (broadcast m)"
  by (simp add: op_ok_def held_same_def broadcast_def quiet_def)

lemmas op_ok_intros = op_ok_CreateGroup op_ok_UpdateGroup op_ok_DeleteGroup op_ok_Add op_ok_Update
  op_ok_Delete op_ok_Unlock op_ok_ReleaseStaleLock

section \<open>What a pass can do to the manager\<close>

lemma is_candidate_hold:
  assumes "lease_inv m" "is_candidate a ri (hold rid t m) r p"
  shows "is_candidate a ri m r p"
  using assms(2) by (auto simp: is_candidate_iff heldCount_hold [OF assms(1)] split: if_splits)

lemma candidates_hold:
  assumes "lease_inv m" "lease_inv (hold rid t m)" "candidates a ri m = []"
  shows "candidates a ri (hold rid t m) = []"
  unfolding candidates_Nil [OF assms(2)]
proof (intro allI impI notI)
  fix r p assume "get (mPool (hold rid t m)) r = Some p" "is_candidate a ri (hold rid t m) r p"
  then have "get (mPool m) r = Some p" "is_candidate a ri m r p"
    using is_candidate_hold [OF assms(1)] by simp_all
  with assms(3) show False by (simp add: candidates_Nil [OF assms(1)])
qed

lemma holdersOf_hold_Nil [simp]: "holdersOf (hold rid t m) r = [] \<longleftrightarrow> r \<noteq> rid \<and> holdersOf m r = []"
  by (simp add: holdersOf_hold)

lemma stuck_hold:
  assumes "lease_inv m" "lease_inv (hold rid t m)" "stuck a lock m"
  shows "stuck a lock (hold rid t m)"
  using assms(3) candidates_hold [OF assms(1,2)] by (auto simp: stuck_def split: option.splits)

text \<open>A durable lock with its hold: the task itself is bound to what it holds, and no other task
  gains a candidate.\<close>

lemma stuck_lock:
  assumes inv: "lease_inv m" and c: "p \<in> set (candidates b True m)"
    and t: "t \<noteq> []" "get (mBindings m) t = None" and st: "stuck a lock m"
  shows "stuck a lock (hold (resID p) t
    (m\<lparr>mPool := put (resID p) (p\<lparr>resOwner := t, resUpdated := now\<rparr>) (mPool m),
       mBindings := put t (resID p) (mBindings m)\<rparr>))" (is "stuck a lock ?m")
proof -
  have inv': "lease_inv ?m" using lease_inv_lock [OF inv c t] .
  have none: "candidates a lock ?m = []" if "candidates a lock m = []"
    unfolding candidates_Nil [OF inv']
  proof (intro allI impI notI)
    fix r q assume q: "get (mPool ?m) r = Some q" "is_candidate a lock ?m r q"
    have "r \<noteq> resID p" using q t(1) by (auto simp: is_candidate_iff)
    with q have "get (mPool m) r = Some q" "is_candidate a lock m r q"
      by (simp_all add: is_candidate_iff heldCount_def holdersOf_hold)
    with that show False by (auto simp: candidates_Nil [OF inv])
  qed
  show ?thesis
  proof (cases "get (mBindings m) (asgTask a)")
    case None
    with none st show ?thesis by (auto simp: stuck_def)
  next
    case (Some rid)
    with st t have "get (mBindings ?m) (asgTask a) = Some rid" "holdersOf m rid \<noteq> []"
      by (auto simp: stuck_def)
    then show ?thesis by (simp add: stuck_def)
  qed
qed

text \<open>The hold a handed-out lease stands for.\<close>

lemma acquire_pass_Leased:
  assumes run: "acquire_pass ctx now a lock m = (Leased l, m')" and inv: "lease_inv m"
    and t: "asgTask a \<noteq> []"
  obtains "lseTask l = asgTask a"
    "\<And>r. holdersOf m' r = holdersOf (hold (resID (lseRes l)) (asgTask a) m) r"
    "quiet m m'" "lease_inv m'"
proof
  show inv': "lease_inv m'" using acquire_pass_inv [OF run inv t] .
  from run inv have all: "lseTask l = asgTask a \<and>
      (\<forall>r. holdersOf m' r = holdersOf (hold (resID (lseRes l)) (asgTask a) m) r) \<and> quiet m m'"
  proof (cases rule: acquire_pass_cases)
    case (again rid p)
    moreover have "resID p = rid" using pool_id [OF inv again(5)] .
    ultimately show ?thesis
      using stuck_hold [OF inv] inv' by (simp add: lease_of_def quiet_def)
  next
    case unbound
    note b = unbound(3)
    from unbound(4) show ?thesis
    proof (cases rule: acquire_unbound_cases)
      case (rotated p m1)
      obtain ss where m1: "m1 = m\<lparr>mStrategies := ss\<rparr>"
        using selectUnlocked_frame [OF rotated(2)] by blast
      have inv1: "lease_inv m1" using selectUnlocked_inv [OF rotated(2) inv rotated(3)] .
      have "stuck b k m \<longrightarrow> stuck b k m'" for b k
        using stuck_hold [OF inv1, of "resID p" "asgTask a" b k] inv' by (simp add: rotated(4) m1)
      with rotated m1 show ?thesis by (simp add: lease_of_def quiet_def holdersOf_hold)
    next
      case (locked p q m1 s)
      obtain ss where m1: "m1 = m\<lparr>mStrategies := ss\<rparr>"
        using selectUnlocked_frame [OF locked(2)] by blast
      let ?m = "m1\<lparr>mStore := s\<rparr>"
      have inv1: "lease_inv ?m" using selectUnlocked_inv [OF locked(2) inv locked(3)] by simp
      have c: "p \<in> set (candidates a True ?m)"
        using selectUnlocked_Found [OF locked(2)] locked(1) by (simp add: m1)
      have "get (mBindings ?m) (asgTask a) = None" using b by (simp add: m1)
      from stuck_lock [OF inv1 c t this, where now = now]
      have "stuck b k m \<longrightarrow> stuck b k m'" for b k by (simp add: locked(4,6) m1)
      with locked m1 show ?thesis by (simp add: lease_of_def quiet_def holdersOf_hold)
    qed simp_all
  qed simp_all
  then show "lseTask l = asgTask a" "quiet m m'"
    "\<And>r. holdersOf m' r = holdersOf (hold (resID (lseRes l)) (asgTask a) m) r" by simp_all
qed

lemma acquire_pass_Waiting:
  assumes run: "acquire_pass ctx now a lock m = (Waiting, m')" and inv: "lease_inv m"
  shows "m' = m \<and> stuck a lock m"
  using run inv
proof (cases rule: acquire_pass_cases)
  case unbound
  from unbound(4) show ?thesis
    by (cases rule: acquire_unbound_cases) (simp_all add: stuck_def unbound(3))
qed (simp_all add: stuck_def)

lemma acquire_pass_other:
  assumes run: "acquire_pass ctx now a lock m = (out, m')" and inv: "lease_inv m"
    and t: "asgTask a \<noteq> []" and out: "\<And>l. out \<noteq> Leased l"
  shows "op_ok m m'"
proof (rule op_okI)
  show "lease_inv m'" using acquire_pass_inv [OF run inv t] .
  have keep: "\<exists>ss s. m1\<lparr>mStore := x\<rparr> = m1\<lparr>mStrategies := ss, mStore := s\<rparr>"
    "\<exists>ss s. m1 = m1\<lparr>mStrategies := ss, mStore := s\<rparr>" for m1 :: "('b, 'a) manager" and x
  proof -
    have "m1\<lparr>mStore := x\<rparr> = m1\<lparr>mStrategies := mStrategies m1, mStore := x\<rparr>"
      "m1 = m1\<lparr>mStrategies := mStrategies m1, mStore := mStore m1\<rparr>" by simp_all
    then show "\<exists>ss s. m1\<lparr>mStore := x\<rparr> = m1\<lparr>mStrategies := ss, mStore := s\<rparr>"
      "\<exists>ss s. m1 = m1\<lparr>mStrategies := ss, mStore := s\<rparr>" by blast+
  qed
  have "\<exists>ss s. m' = m\<lparr>mStrategies := ss, mStore := s\<rparr>"
    using run inv
  proof (cases rule: acquire_pass_cases)
    case unbound
    from unbound(4) show ?thesis
    proof (cases rule: acquire_unbound_cases)
      case (refused e m1 s)
      have "m1 = m \<or> (\<exists>ss. m1 = m\<lparr>mStrategies := ss\<rparr>)"
        using refused(3) selectUnlocked_frame by blast
      with refused(2) keep(1) [of s m] show ?thesis by auto
    next
      case panicked
      from selectUnlocked_frame [OF panicked(3)] obtain ss where "m' = m\<lparr>mStrategies := ss\<rparr>" by blast
      then have "m' = m\<lparr>mStrategies := ss, mStore := mStore m\<rparr>" by simp
      then show ?thesis by blast
    qed (use out keep(2) [of m] in simp_all)
  qed (use out keep(2) [of m] in simp_all)
  then show "held_same m m'" "quiet m m'" by (auto simp: held_same_def quiet_def)
qed

text \<open>A pass from a stuck state leases nothing and does not panic.\<close>

lemma stuck_no_lease:
  assumes run: "acquire_pass ctx now a lock m = (out, m')" and inv: "lease_inv m"
    and st: "stuck a lock m"
  shows "out = Waiting \<or> (\<exists>e. out = Refused e)"
  using run inv
proof (cases rule: acquire_pass_cases)
  case unbound
  then have none: "candidates a lock m = []" using st by (simp add: stuck_def)
  from unbound(4) show ?thesis
  proof (cases rule: acquire_unbound_cases)
    case panicked
    with none show ?thesis by (simp add: selectUnlocked_def)
  next
    case (rotated p m1)
    with none show ?thesis using selectUnlocked_Found by fastforce
  next
    case (locked p q m1 s)
    with none show ?thesis using selectUnlocked_Found by fastforce
  qed simp_all
next
  case (again rid p)
  with st show ?thesis by (simp add: stuck_def)
qed simp_all

section \<open>The invariant of the system\<close>

text \<open>The leases a predicate picks out that have not been released.\<close>

definition live :: "('x lease \<Rightarrow> bool) \<Rightarrow> ('s, 'x) sys \<Rightarrow> nat" where
  "live P S = length (filter (\<lambda>h. \<not> hndDone h \<and> P (hndLease h)) (sysLeases S))"

definition lease_on :: "string \<Rightarrow> 'x lease \<Rightarrow> bool" where
  "lease_on rid l \<longleftrightarrow> resID (lseRes l) = rid"

definition lease_by :: "string \<Rightarrow> string \<Rightarrow> 'x lease \<Rightarrow> bool" where
  "lease_by rid t l \<longleftrightarrow> resID (lseRes l) = rid \<and> lseTask l = t"

lemma live_frame [simp]:
  "live P (S\<lparr>sysMgr := m\<rparr>) = live P S" "live P (S\<lparr>sysAsleep := ws\<rparr>) = live P S"
  by (simp_all add: live_def)

lemma live_new:
  "live P (S\<lparr>sysLeases := sysLeases S @ [\<lparr>hndLease = l, hndDone = False\<rparr>]\<rparr>) =
     live P S + (if P l then 1 else 0)"
  by (simp add: live_def)

lemma length_filter_update:
  "i < length xs \<Longrightarrow> length (filter P (xs[i := x])) + (if P (xs ! i) then 1 else 0) =
     length (filter P xs) + (if P x then 1 else 0)"
proof (induction xs arbitrary: i)
  case (Cons y ys)
  show ?case
  proof (cases i)
    case (Suc j)
    with Cons.prems have "j < length ys" by simp
    from Cons.IH [OF this] Suc show ?thesis by simp
  qed simp
qed simp

lemma live_done:
  assumes "i < length (sysLeases S)" "\<not> hndDone (sysLeases S ! i)"
  shows "live P (S\<lparr>sysLeases := (sysLeases S)[i := (sysLeases S ! i)\<lparr>hndDone := True\<rparr>]\<rparr>) +
      (if P (hndLease (sysLeases S ! i)) then 1 else 0) = live P S"
  using length_filter_update [OF assms(1), of "\<lambda>h. \<not> hndDone h \<and> P (hndLease h)"
      "(sysLeases S ! i)\<lparr>hndDone := True\<rparr>"] assms(2)
  by (simp add: live_def)

definition sleepers_ok :: "('s, 'x) manager \<Rightarrow> sleeper list \<Rightarrow> bool" where
  "sleepers_ok m ws \<longleftrightarrow> (\<forall>w \<in> set ws. asgTask (slpAsg w) \<noteq> [] \<and> slpGen w \<le> mGen m \<and>
     (slpGen w = mGen m \<longrightarrow> stuck (slpAsg w) (slpLock w) m))"

definition holds_ok :: "('s, 'x) sys \<Rightarrow> bool" where
  "holds_ok S \<longleftrightarrow>
     (\<forall>rid t. get_or 0 (holdersOf (sysMgr S) rid) t = int (live (lease_by rid t) S)) \<and>
     (\<forall>rid. heldCount (sysMgr S) rid = int (live (lease_on rid) S))"

definition sys_inv :: "('s, 'x) sys \<Rightarrow> bool" where
  "sys_inv S \<longleftrightarrow> lease_inv (sysMgr S) \<and> holds_ok S \<and> sleepers_ok (sysMgr S) (sysAsleep S)"

lemma sleepers_ok_quiet: "sleepers_ok m ws \<Longrightarrow> quiet m m' \<Longrightarrow> sleepers_ok m' ws"
  unfolding sleepers_ok_def quiet_def by fastforce

lemma sleepers_ok_dropAt: "sleepers_ok m ws \<Longrightarrow> sleepers_ok m (dropAt i ws)"
  by (auto simp: sleepers_ok_def dropAt_def dest: in_set_takeD in_set_dropD)

lemma holds_ok_same:
  assumes "holds_ok S" "held_same (sysMgr S) m" "sysLeases S' = sysLeases S" "sysMgr S' = m"
  shows "holds_ok S'"
proof -
  have "live P S' = live P S" for P using assms(3) by (simp add: live_def)
  with assms show ?thesis by (simp add: holds_ok_def held_same_def heldCount_def)
qed

lemma sys_inv_op: "sys_inv S \<Longrightarrow> op_ok (sysMgr S) m \<Longrightarrow> sys_inv (S\<lparr>sysMgr := m\<rparr>)"
  using holds_ok_same [of S m "S\<lparr>sysMgr := m\<rparr>"] sleepers_ok_quiet
  by (auto simp: sys_inv_def op_ok_def)

lemma sys_inv_settle:
  assumes S: "sys_inv S" and run: "acquire_pass ctx now a lock (sysMgr S) = (out, m)"
    and t: "asgTask a \<noteq> []"
  shows "sys_inv (settle a lock out m S)"
proof (cases out)
  case (Leased l)
  note inv = S [unfolded sys_inv_def, THEN conjunct1]
  from run inv t show ?thesis unfolding Leased
  proof (rule acquire_pass_Leased)
    assume l: "lseTask l = asgTask a" "quiet (sysMgr S) m" "lease_inv m"
      "\<And>r. holdersOf m r = holdersOf (hold (resID (lseRes l)) (asgTask a) (sysMgr S)) r"
    let ?S = "S\<lparr>sysMgr := m, sysLeases := sysLeases S @ [\<lparr>hndLease = l, hndDone = False\<rparr>]\<rparr>"
    have live: "live P ?S = live P S + (if P l then 1 else 0)" for P
      using live_new [of P "S\<lparr>sysMgr := m\<rparr>" l] by simp
    have "heldCount m r = heldCount (hold (resID (lseRes l)) (asgTask a) (sysMgr S)) r" for r
      by (simp add: heldCount_def l(4))
    then have "holds_ok ?S"
      using S l(1,4) by (simp add: holds_ok_def sys_inv_def live lease_by_def lease_on_def
          holdersOf_hold heldCount_hold [OF inv])
    with l(2,3) S show "sys_inv (settle a lock (Leased l) m S)"
      by (auto simp: sys_inv_def settle_def intro: sleepers_ok_quiet)
  qed
next
  case Waiting
  with run S have "m = sysMgr S \<and> stuck a lock (sysMgr S)"
    by (auto simp: sys_inv_def dest: acquire_pass_Waiting)
  with S t Waiting show ?thesis
    using holds_ok_same [OF _ held_same_refl, of S "settle a lock Waiting m S"]
    by (auto simp: sys_inv_def settle_def sleepers_ok_def)
next
  case (Refused e)
  with run S t have "op_ok (sysMgr S) m"
    by (intro acquire_pass_other [OF run]) (simp_all add: sys_inv_def)
  with S Refused show ?thesis by (simp add: settle_def sys_inv_op)
next
  case Panicked
  with run S t have "op_ok (sysMgr S) m"
    by (intro acquire_pass_other [OF run]) (simp_all add: sys_inv_def)
  with S Panicked show ?thesis by (simp add: settle_def sys_inv_op)
qed

lemma sys_inv_Release:
  assumes S: "sys_inv S" and i: "i < length (sysLeases S)"
  shows "sys_inv (Release i S)"
proof (cases "hndDone (sysLeases S ! i)")
  case True
  with S show ?thesis by (simp add: Release_def Let_def)
next
  case False
  let ?h = "sysLeases S ! i"
  let ?rid = "resID (lseRes (hndLease ?h))" and ?t = "lseTask (hndLease ?h)"
  let ?S = "Release i S"
  have inv: "lease_inv (sysMgr S)" using S by (simp add: sys_inv_def)
  have S': "?S = S\<lparr>sysMgr := release ?rid ?t (sysMgr S),
      sysLeases := (sysLeases S)[i := ?h\<lparr>hndDone := True\<rparr>]\<rparr>"
    using False by (simp add: Release_def Let_def)
  have live: "live P ?S + (if P (hndLease ?h) then 1 else 0) = live P S" for P
    using live_done [OF i False, of P] unfolding S' live_def by simp
  have held: "holdersOf (sysMgr ?S) r = holdersOf (unhold ?rid ?t (sysMgr S)) r" for r
    by (simp add: S' release_def broadcast_def)
  then have count: "heldCount (sysMgr ?S) r = heldCount (unhold ?rid ?t (sysMgr S)) r" for r
    by (simp add: heldCount_def)
  have per: "get_or 0 (holdersOf (sysMgr S) rid) t = int (live (lease_by rid t) S)"
    and on: "heldCount (sysMgr S) rid = int (live (lease_on rid) S)" for rid t
    using S by (simp_all add: sys_inv_def holds_ok_def)
  have one: "1 \<le> live (lease_by ?rid ?t) S" using live [of "lease_by ?rid ?t"] by (simp add: lease_by_def)
  have "holds_ok ?S"
    unfolding holds_ok_def
  proof (intro conjI allI)
    fix rid t
    show "get_or 0 (holdersOf (sysMgr ?S) rid) t = int (live (lease_by rid t) ?S)"
      using live [of "lease_by rid t"] one
      by (auto simp: held holdersOf_unhold get_or_unheld holdersOf_wf inv per lease_by_def
          split: if_splits)
    show "heldCount (sysMgr ?S) rid = int (live (lease_on rid) ?S)"
      using live [of "lease_on rid"] one
      by (auto simp: count heldCount_unhold [OF inv] per on lease_on_def split: if_splits)
  qed
  moreover have "lease_inv (sysMgr ?S)" using inv by (simp add: S' release_inv)
  moreover have "sleepers_ok (sysMgr ?S) (sysAsleep ?S)"
    using S sleepers_ok_quiet [OF _ quietI, of "sysMgr S" "sysAsleep S" "sysMgr ?S"]
    by (simp add: S' sys_inv_def release_def)
  ultimately show ?thesis by (simp add: sys_inv_def)
qed

lemma acquire_prepare_Inr: "acquire_prepare a0 = Inr a \<Longrightarrow> asgTask a \<noteq> [] \<and> asgGroup a \<noteq> []"
  by (auto simp: acquire_prepare_def split: if_splits)

lemma sys_step_inv: "sys_step S S' \<Longrightarrow> sys_inv S \<Longrightarrow> sys_inv S'"
proof (induction rule: sys_step.induct)
  case (start a0 a ctx now lock S out m)
  then show ?case using sys_inv_settle acquire_prepare_Inr by blast
next
  case (wake i S w ctx now out m)
  let ?S = "S\<lparr>sysAsleep := dropAt i (sysAsleep S)\<rparr>"
  have "sys_inv ?S"
    using wake.prems holds_ok_same [OF _ held_same_refl, of S ?S] sleepers_ok_dropAt
    by (auto simp: sys_inv_def)
  moreover have "asgTask (slpAsg w) \<noteq> []"
    using wake.prems wake.hyps(1,2) nth_mem by (fastforce simp: sys_inv_def sleepers_ok_def)
  ultimately show ?case using sys_inv_settle [of ?S ctx now "slpAsg w" "slpLock w" out m] wake.hyps(4)
    by simp
next
  case (let_go i S)
  then show ?case using sys_inv_Release by blast
next
  case (cancel S)
  then show ?case by (intro sys_inv_op op_ok_broadcast) (simp_all add: sys_inv_def)
qed (rule sys_inv_op, assumption, erule op_ok_intros, simp add: sys_inv_def)+

lemma reachable_inv: "reachable S \<Longrightarrow> sys_inv S"
proof (induction rule: reachable.induct)
  case (boot repo opts now s m s')
  from NewManager_inv [OF boot] show ?case
    by (simp add: sys_inv_def holds_ok_def live_def sleepers_ok_def heldCount_def holdersOf_def)
next
  case (step S S')
  then show ?case using sys_step_inv by blast
qed

end
