(* ===== verification/Leasing_Demo.thy ===== *)
theory Leasing_Demo
  imports Leasing_System
begin

text \<open>
  A small process run by hand, on which the hypotheses of the theorems about the leasing manager
  are met: a manager over no repository, two resources in the global group, task a holding a lease
  on the first and task b locked onto the second, and a third task asleep.
\<close>

definition demo_res :: "string \<Rightarrow> resource" where
  "demo_res rid =
     \<lparr>resID = rid, resGroup = [], resOwner = [], resMax = 0, resCreated = 0, resUpdated = 0\<rparr>"

definition demo_asg :: "string \<Rightarrow> assignment" where
  "demo_asg t = \<lparr>asgTask = t, asgGroup = GlobalGroup, asgRes = []\<rparr>"

definition demo_group :: group where
  "demo_group = \<lparr>grpID = GlobalGroup, grpStrategy = StrategyRoundRobin, grpRefs = [],
     grpCreated = 1, grpUpdated = 1\<rparr>"

definition demo_m0 :: "(unit, unit) manager" where
  "demo_m0 = (emptyManager noopRepository ())\<lparr>mGroups := [(GlobalGroup, demo_group)],
     mStrategies := [(GlobalGroup, NewRoundRobin)]\<rparr>"

definition demo_live :: "string \<Rightarrow> string \<Rightarrow> resource" where
  "demo_live rid t = \<lparr>resID = rid, resGroup = GlobalGroup, resOwner = t, resMax = 0,
     resCreated = 2, resUpdated = (if t = [] then 2 else 3)\<rparr>"

definition demo_m2 :: "(unit, unit) manager" where
  "demo_m2 = demo_m0\<lparr>mPool := [(''x'', demo_live ''x'' []), (''y'', demo_live ''y'' [])],
     mOrder := [''x'', ''y''], mGen := 2\<rparr>"

definition demo_m3 :: "(unit, unit) manager" where
  "demo_m3 = demo_m2\<lparr>mStrategies := [(GlobalGroup, round_robin 1)],
     mHolders := [(''x'', [(''a'', 1)])]\<rparr>"

definition demo_m4 :: "(unit, unit) manager" where
  "demo_m4 = demo_m3\<lparr>mPool := [(''x'', demo_live ''x'' []), (''y'', demo_live ''y'' ''b'')],
     mStrategies := [(GlobalGroup, round_robin 2)],
     mHolders := [(''x'', [(''a'', 1)]), (''y'', [(''b'', 1)])], mBindings := [(''b'', ''y'')]\<rparr>"

definition demo_lease :: "string \<Rightarrow> string \<Rightarrow> string \<Rightarrow> unit lease" where
  "demo_lease rid owner t =
     \<lparr>lseRes = demo_live rid owner, lseGroup = demo_group, lseTask = t\<rparr>"

lemmas demo_defs = demo_m0_def demo_m2_def demo_m3_def demo_m4_def demo_lease_def demo_live_def
  demo_group_def demo_asg_def demo_res_def

lemma demo_NewManager: "NewManager None [] 1 () = (Inr demo_m0, ())"
  by (simp add: NewManager_def noopRepository_def emptyManager_def ensureGlobal_def Let_def
      repo_save_group_def adoptGroup_def validateGroup_def demo_defs)

lemma demo_add:
  "Add 2 (demo_res ''x'') demo_m0 =
     (None, demo_m0\<lparr>mPool := [(''x'', demo_live ''x'' [])], mOrder := [''x''], mGen := 1\<rparr>)"
  "Add 2 (demo_res ''y'') (demo_m0\<lparr>mPool := [(''x'', demo_live ''x'' [])], mOrder := [''x''], mGen := 1\<rparr>)
     = (None, demo_m2)"
  by (simp_all add: Add_def demo_defs validateHolderPolicy_def UnlimitedHolders_def Let_def
      repo_save_def noopRepository_def emptyManager_def broadcast_def)

lemma demo_select [simp]:
  "select (NewRoundRobin :: unit resource_scheme selection) = (\<lambda>cs. map_prod id round_robin (rr_Select 0 cs))"
  by (simp add: NewRoundRobin_def)

lemma demo_acquire: "acquire_pass None 3 (demo_asg ''a'') False demo_m2 =
    (Leased (demo_lease ''x'' [] ''a''), demo_m3)"
  by (simp add: acquire_pass_def checkPin_def acquire_unbound_def groupHasResources_def groupAt_def
      selectUnlocked_def candidates_def is_candidate_def heldCount_def holdersOf_def effectiveCap_def
      UnlimitedHolders_def rr_Select_def eligible_def hold_def lease_of_def
      demo_defs emptyManager_def)

lemma demo_lock: "acquire_pass None 3 (demo_asg ''b'') True demo_m3 =
    (Leased (demo_lease ''y'' ''b'' ''b''), demo_m4)"
  by (simp add: acquire_pass_def checkPin_def acquire_unbound_def groupHasResources_def groupAt_def
      selectUnlocked_def candidates_def is_candidate_def heldCount_def holdersOf_def effectiveCap_def
      UnlimitedHolders_def rr_Select_def eligible_def hold_def lease_of_def repo_save_def
      noopRepository_def get_or_def total_def smod_nonneg Let_def demo_defs emptyManager_def)

lemma demo_wait: "acquire_pass None 3 (demo_asg ''c'') False demo_m4 = (Waiting, demo_m4)"
  by (simp add: acquire_pass_def checkPin_def acquire_unbound_def groupHasResources_def groupAt_def
      selectUnlocked_def candidates_def is_candidate_def heldCount_def holdersOf_def effectiveCap_def
      UnlimitedHolders_def get_or_def total_def demo_defs emptyManager_def)

definition demo_sys :: "(unit, unit) sys" where
  "demo_sys =
     \<lparr>sysMgr = demo_m4,
      sysAsleep = [\<lparr>slpAsg = demo_asg ''c'', slpLock = False, slpGen = 2\<rparr>],
      sysLeases = [\<lparr>hndLease = demo_lease ''x'' [] ''a'', hndDone = False\<rparr>,
                   \<lparr>hndLease = demo_lease ''y'' ''b'' ''b'', hndDone = False\<rparr>]\<rparr>"

lemma demo_prepare: "t \<noteq> [] \<Longrightarrow> acquire_prepare (demo_asg t) = Inr (demo_asg t)"
  by (simp add: acquire_prepare_def demo_asg_def)

lemma demo_reachable: "reachable demo_sys"
proof -
  have s0: "reachable \<lparr>sysMgr = demo_m0, sysAsleep = [], sysLeases = []\<rparr>"
    by (rule boot [OF demo_NewManager])
  have s1: "reachable \<lparr>sysMgr = demo_m2, sysAsleep = [], sysLeases = []\<rparr>"
    using step [OF step [OF s0 sys_step.add [where p = "demo_res ''x''"]]
        sys_step.add [where p = "demo_res ''y''"]] demo_add by simp
  from step [OF s1 sys_step.start [OF demo_prepare, of "''a''"]] demo_acquire
  have s2: "reachable \<lparr>sysMgr = demo_m3, sysAsleep = [],
      sysLeases = [\<lparr>hndLease = demo_lease ''x'' [] ''a'', hndDone = False\<rparr>]\<rparr>"
    by (fastforce simp: settle_def)
  from step [OF s2 sys_step.start [OF demo_prepare, of "''b''"]] demo_lock
  have s3: "reachable \<lparr>sysMgr = demo_m4, sysAsleep = [],
      sysLeases = [\<lparr>hndLease = demo_lease ''x'' [] ''a'', hndDone = False\<rparr>,
                   \<lparr>hndLease = demo_lease ''y'' ''b'' ''b'', hndDone = False\<rparr>]\<rparr>"
    by (fastforce simp: settle_def)
  have "mGen demo_m4 = 2" by (simp add: demo_defs)
  with step [OF s3 sys_step.start [OF demo_prepare, of "''c''"]] demo_wait
  show ?thesis unfolding demo_sys_def by (fastforce simp: settle_def)
qed

lemma demo_m2_inv: "lease_inv demo_m2"
  using Add_inv [OF demo_add(2)] Add_inv [OF demo_add(1)] NewManager_inv [OF demo_NewManager] by simp

lemma demo_m3_inv: "lease_inv demo_m3"
  using acquire_pass_inv [OF demo_acquire demo_m2_inv] by (simp add: demo_asg_def)

lemma demo_m4_inv: "lease_inv demo_m4"
  using acquire_pass_inv [OF demo_lock demo_m3_inv] by (simp add: demo_asg_def)

lemma demo_sys_facts:
  "sysMgr demo_sys = demo_m4" "get (mPool demo_m4) ''x'' = Some (demo_live ''x'' [])"
  "get (mPool demo_m4) ''y'' = Some (demo_live ''y'' ''b'')" "mGen demo_m4 = 2"
  "sysAsleep demo_sys = [\<lparr>slpAsg = demo_asg ''c'', slpLock = False, slpGen = 2\<rparr>]"
  "sysLeases demo_sys = [\<lparr>hndLease = demo_lease ''x'' [] ''a'', hndDone = False\<rparr>,
     \<lparr>hndLease = demo_lease ''y'' ''b'' ''b'', hndDone = False\<rparr>]"
  by (simp_all add: demo_sys_def demo_m4_def)
    (simp_all add: demo_defs)

end
