(* ===== verification/Leasing_Properties.thy ===== *)
theory Leasing_Properties
  imports Leasing_Demo
begin

text \<open>
  What the leasing manager promises its callers, over every interleaving of their calls, and what
  one pass of an acquire does. Each property is met on the process of \<^theory_text>\<open>Leasing_Demo\<close>.
\<close>

lemmas reachable_lease_inv = reachable_inv [unfolded sys_inv_def, THEN conjunct1]
lemmas reachable_holds = reachable_inv [unfolded sys_inv_def, THEN conjunct2, THEN conjunct1]
lemmas reachable_sleepers = reachable_inv [unfolded sys_inv_def, THEN conjunct2, THEN conjunct2]

lemma reachable_by:
  "reachable S \<Longrightarrow> get_or 0 (holdersOf (sysMgr S) rid) t = int (live (lease_by rid t) S)"
  using reachable_holds [of S] by (simp add: holds_ok_def)

lemma reachable_on:
  "reachable S \<Longrightarrow> heldCount (sysMgr S) rid = int (live (lease_on rid) S)"
  using reachable_holds [of S] by (simp add: holds_ok_def)

section \<open>Safety\<close>

text \<open>C1. In every reachable state of the process, no resource has more unreleased leases than its
  holder cap allows: one when none is declared, the declared number when one is.\<close>

theorem cap_never_exceeded:
  assumes "reachable S" "get (mPool (sysMgr S)) rid = Some p" "resMax p \<noteq> UnlimitedHolders"
  shows "int (live (lease_on rid) S) \<le> (if resMax p = 0 then 1 else resMax p)"
proof -
  have "effectiveCap p = UnlimitedHolders \<or> heldCount (sysMgr S) rid \<le> effectiveCap p"
    using lease_invD(6) [OF reachable_lease_inv [OF assms(1)]] assms(2) by (simp add: inv_cap_def)
  then show ?thesis
    using assms(3) by (auto simp: reachable_on [OF assms(1)] effectiveCap_def UnlimitedHolders_def
        split: if_splits)
qed

lemma cap_never_exceeded_witness:
  "int (live (lease_on ''x'') demo_sys) \<le> 1 \<and> live (lease_on ''x'') demo_sys = 1"
  using cap_never_exceeded [OF demo_reachable, of "''x''" "demo_live ''x'' []"]
  by (simp add: demo_sys_facts live_def lease_on_def demo_lease_def demo_live_def UnlimitedHolders_def)

text \<open>C2. A resource that carries a durable lock is leased by its owner alone, and at most once at
  a time, in every reachable state.\<close>

theorem locked_is_exclusive:
  assumes "reachable S" "get (mPool (sysMgr S)) rid = Some p" "resOwner p \<noteq> []"
  shows "live (lease_on rid) S \<le> 1 \<and>
    (\<forall>t. t \<noteq> resOwner p \<longrightarrow> live (lease_by rid t) S = 0)"
proof -
  have "holdersOf (sysMgr S) rid = [] \<or> holdersOf (sysMgr S) rid = [(resOwner p, 1)]"
    using lease_invD(7) [OF reachable_lease_inv [OF assms(1)]] assms(2,3) by (simp add: inv_excl_def)
  then have "heldCount (sysMgr S) rid \<le> 1"
    "t \<noteq> resOwner p \<Longrightarrow> get_or 0 (holdersOf (sysMgr S) rid) t = 0" for t
    by (auto simp: heldCount_def total_def get_or_def)
  then show ?thesis
    using reachable_by [OF assms(1), of rid] reachable_on [OF assms(1), of rid] by simp
qed

lemma locked_is_exclusive_witness:
  "live (lease_on ''y'') demo_sys = 1 \<and> live (lease_by ''y'' ''a'') demo_sys = 0"
  using locked_is_exclusive [OF demo_reachable, of "''y''" "demo_live ''y'' ''b''"]
  by (simp add: demo_sys_facts live_def lease_on_def lease_by_def demo_lease_def demo_live_def)

text \<open>The manager's in-memory holder counts are the leases its callers hold: for every resource
  and task the count is the number of leases handed out to that task and not yet released, however
  often Release is called on each.\<close>

theorem holders_are_live_leases:
  assumes "reachable S"
  shows "get_or 0 (holdersOf (sysMgr S) rid) t = int (live (lease_by rid t) S)"
  using reachable_by [OF assms] .

lemma holders_are_live_leases_witness:
  "get_or 0 (holdersOf (sysMgr demo_sys) ''x'') ''a'' = 1"
  using holders_are_live_leases [OF demo_reachable, of "''x''" "''a''"]
  by (simp add: demo_sys_facts live_def lease_by_def demo_lease_def demo_live_def)

text \<open>A resource somebody holds a lease on is still in the pool, in a group that exists: no
  Delete and no DeleteGroup takes a leased resource away.\<close>

theorem leased_is_pooled:
  assumes "reachable S" "0 < live (lease_on rid) S"
  shows "\<exists>p g. get (mPool (sysMgr S)) rid = Some p \<and> get (mGroups (sysMgr S)) (resGroup p) = Some g"
proof -
  have inv: "lease_inv (sysMgr S)" using reachable_lease_inv assms(1) .
  have "holdersOf (sysMgr S) rid \<noteq> []"
    using reachable_on [OF assms(1), of rid] assms(2) heldCount_zero [OF inv, of rid] by auto
  from holdersOf_pooled [OF inv this] obtain p where p: "get (mPool (sysMgr S)) rid = Some p" ..
  with pool_group [OF inv p] show ?thesis by blast
qed

lemma leased_is_pooled_witness:
  "\<exists>p g. get (mPool demo_m4) ''x'' = Some p \<and> get (mGroups demo_m4) (resGroup p) = Some g"
  using leased_is_pooled [OF demo_reachable, of "''x''"]
  by (simp add: demo_sys_facts live_def lease_on_def demo_lease_def demo_live_def)

text \<open>The bindings and the durable locks of the pooled records are the same relation: a task is
  bound to a resource exactly when that record names it as its owner. So a task owns at most one
  resource, and no binding dangles.\<close>

theorem bindings_are_locks:
  assumes "reachable S"
  shows "get (mBindings (sysMgr S)) t = Some rid \<longleftrightarrow>
    t \<noteq> [] \<and> (\<exists>p. get (mPool (sysMgr S)) rid = Some p \<and> resOwner p = t)"
  using binding_owner [OF reachable_lease_inv [OF assms]] .

lemma bindings_are_locks_witness:
  "get (mBindings demo_m4) ''b'' = Some ''y'' \<and> get (mBindings demo_m4) ''a'' = None"
  using bindings_are_locks [OF demo_reachable, of "''b''" "''y''"]
    bindings_are_locks [OF demo_reachable, of "''a''"]
  by (simp add: demo_sys_facts demo_live_def) (simp add: demo_defs emptyManager_def)

section \<open>Waiting\<close>

text \<open>C13. No wake-up is lost. While an acquire sleeps and no broadcast has come since it went to
  sleep, running it again would neither lease it anything nor panic: whatever became available
  since would have been broadcast.\<close>

theorem no_lost_wakeup:
  assumes "reachable S" "w \<in> set (sysAsleep S)" "slpGen w = mGen (sysMgr S)"
  shows "case fst (acquire_pass ctx now (slpAsg w) (slpLock w) (sysMgr S)) of
           Leased l \<Rightarrow> False | Panicked \<Rightarrow> False | Waiting \<Rightarrow> True | Refused e \<Rightarrow> True"
proof -
  have "stuck (slpAsg w) (slpLock w) (sysMgr S)"
    using reachable_sleepers [OF assms(1)] assms(2,3) by (simp add: sleepers_ok_def)
  moreover obtain out m' where run: "acquire_pass ctx now (slpAsg w) (slpLock w) (sysMgr S) = (out, m')"
    by fastforce
  ultimately have "out = Waiting \<or> (\<exists>e. out = Refused e)"
    using stuck_no_lease reachable_lease_inv [OF assms(1)] by blast
  with run show ?thesis by auto
qed

lemma no_lost_wakeup_witness:
  "fst (acquire_pass None 9 (demo_asg ''c'') False demo_m4) \<noteq> Panicked"
  using no_lost_wakeup [OF demo_reachable, of "hd (sysAsleep demo_sys)" None 9]
  by (auto simp: demo_sys_facts)

text \<open>Releasing a lease wakes everybody: once an unreleased lease has been released, every
  acquire that was asleep may run again.\<close>

theorem release_wakes_all:
  assumes "reachable S" "i < length (sysLeases S)" "\<not> hndDone (sysLeases S ! i)"
    "w \<in> set (sysAsleep S)"
  shows "w \<in> set (sysAsleep (Release i S)) \<and> slpGen w < mGen (sysMgr (Release i S))"
proof -
  have "slpGen w \<le> mGen (sysMgr S)"
    using reachable_sleepers [OF assms(1)] assms(4) by (simp add: sleepers_ok_def)
  then show ?thesis using assms(3,4) by (simp add: Release_def Let_def release_def)
qed

lemma release_wakes_all_witness:
  "slpGen (hd (sysAsleep demo_sys)) < mGen (sysMgr (Release 0 demo_sys))"
  using release_wakes_all [OF demo_reachable, of 0 "hd (sysAsleep demo_sys)"]
  by (simp add: demo_sys_facts)

end
