(* ===== verification/Leasing_Selection.thy ===== *)
theory Leasing_Selection
  imports Leasing_Demo
begin

text \<open>
  The contract of the selection port, as the manager relies on it, and the built-in round robin as
  an instance of it. A strategy serves k more calls when each of them, given some candidates, will
  answer with one of the candidates it was given. Under the contract an acquire with a candidate
  never waits, errs or panics for want of a resource.
\<close>

section \<open>The port\<close>

lemma eligible_fold_known:
  "get acc (resID c) \<noteq> None \<or> c \<in> set cs \<Longrightarrow>
     get (fold (\<lambda>p. put (resID p) p) cs acc) (resID c) \<noteq> None"
proof (induction cs arbitrary: acc)
  case (Cons a cs)
  then show ?case by (cases "a = c") (simp_all del: not_None_eq)
qed simp

lemma eligible_known: "c \<in> set cs \<Longrightarrow> \<exists>q. get (eligible cs) (resID c) = Some q"
  using eligible_fold_known [of "[]" c cs] by (auto simp: eligible_def)

lemma candidate_group:
  assumes inv: "lease_inv m" and c: "p \<in> set (candidates a ri m)"
  obtains g where "get (mGroups m) (asgGroup a) = Some g" "grpID g = asgGroup a"
    "groupHasResources m (grpID g)"
proof -
  note C = candidate_facts [OF inv c]
  obtain g where g: "get (mGroups m) (asgGroup a) = Some g" using pool_group [OF inv C(1)] C(2) by auto
  have gid: "grpID g = asgGroup a" using lease_invD(3) [OF inv] g by (simp add: inv_groups_def)
  have "resID p \<in> set (mOrder m)" using C(1) by (simp add: order_pool [OF inv])
  moreover have "groupAt m (resID p) = grpID g" using C(1,2) gid by (simp add: groupAt_def)
  ultimately have "groupHasResources m (grpID g)" by (auto simp: groupHasResources_def)
  with g gid show thesis by (rule that)
qed

locale selection_port =
  fixes serves :: "nat \<Rightarrow> 'x resource_scheme selection \<Rightarrow> bool"
  assumes serves_pick: "serves (Suc k) s \<Longrightarrow> cs \<noteq> [] \<Longrightarrow>
    \<exists>c s'. select s cs = (Picked c, s') \<and> c \<in> set cs \<and> serves k s'"
begin

lemma select_found:
  assumes "candidates a ri m \<noteq> []" "asgRes a = [] \<Longrightarrow> \<exists>s. get (mStrategies m) (asgGroup a) = Some s \<and> serves (Suc k) s"
  shows "\<exists>p m'. selectUnlocked a ri m = (Found p, m') \<and> p \<in> set (candidates a ri m)"
proof -
  obtain r m' where r: "selectUnlocked a ri m = (r, m')" by fastforce
  then have "\<exists>p. r = Found p"
  proof (cases rule: selectUnlocked_cases)
    case unknown
    with assms r show ?thesis by (cases "asgRes a = []") (auto simp: selectUnlocked_def)
  next
    case (asked s x s')
    with assms(2) have "serves (Suc k) s" by auto
    from serves_pick [OF this asked(1)] asked(4) obtain c where c: "x = Picked c"
      "c \<in> set (candidates a ri m)" by auto
    from eligible_known [OF c(2)] asked(6) c(1) show ?thesis by auto
  qed (use assms(1) in auto)
  with r selectUnlocked_Found show ?thesis by blast
qed

text \<open>An unbound task that has a candidate gets one: the pass ends with a lease on a candidate,
  unless the durable lock it asked for could not be written.\<close>

lemma acquire_available:
  assumes inv: "lease_inv m" and pin: "checkPin a m = None" and free: "get (mBindings m) (asgTask a) = None"
    and c: "candidates a lock m \<noteq> []"
    and s: "asgRes a = [] \<Longrightarrow> \<exists>s. get (mStrategies m) (asgGroup a) = Some s \<and> serves (Suc k) s"
  shows "case fst (acquire_pass None now a lock m) of
           Leased l \<Rightarrow> lseTask l = asgTask a \<and> resID (lseRes l) \<in> resID ` set (candidates a lock m)
         | Refused e \<Rightarrow> lock \<and> (\<exists>r. e = EPersistLock r)
         | Waiting \<Rightarrow> False | Panicked \<Rightarrow> False"
proof -
  obtain p m1 where p: "selectUnlocked a lock m = (Found p, m1)" "p \<in> set (candidates a lock m)"
    using select_found [OF c s] by blast
  obtain g where g: "get (mGroups m) (asgGroup a) = Some g" "groupHasResources m (grpID g)"
    using candidate_group [OF inv p(2)] by metis
  have run: "acquire_pass None now a lock m = acquire_unbound now a lock m"
    by (simp add: acquire_pass_def pin free)
  show ?thesis
  proof (cases lock)
    case False
    with p g show ?thesis unfolding run by (simp add: acquire_unbound_def Let_def lease_of_def)
  next
    case True
    obtain e m2 where e: "repo_save (p\<lparr>resOwner := asgTask a, resUpdated := now\<rparr>) m1 = (e, m2)"
      by fastforce
    show ?thesis
      using p g True e unfolding run
      by (cases e) (auto simp: acquire_unbound_def Let_def lease_of_def)
  qed
qed

end

section \<open>Round robin as a selection\<close>

definition rr_serves :: "nat \<Rightarrow> 'a selection \<Rightarrow> bool" where
  "rr_serves k s \<longleftrightarrow> (\<exists>n. s = round_robin n \<and> 0 \<le> sint n \<and> sint n + int k < 2 ^ 63)"

lemma sint_next:
  fixes n :: "64 word"
  assumes "0 \<le> sint n" "sint n + 1 < 2 ^ 63"
  shows "sint (n + 1) = sint n + 1"
proof -
  have one: "sint (1 :: 64 word) = 1" by simp
  have "sint (n + 1) = signed_take_bit 63 (sint n + 1)"
    using sint_word_add [of n 1] unfolding one by simp
  moreover have "signed_take_bit 63 (sint n + 1) = sint n + 1"
    using assms by (intro signed_take_bit_int_eq_self) simp_all
  ultimately show ?thesis by simp
qed

lemma select_round_robin:
  assumes "cs \<noteq> []" "0 \<le> sint n"
  shows "select (round_robin n) cs =
    (Picked (cs ! nat (sint n mod int (length cs))), round_robin (n + 1))"
  by (simp add: rr_Select_pick [OF assms])

lemma rr_serves_pick:
  assumes "rr_serves (Suc k) s" "cs \<noteq> []"
  shows "\<exists>c s'. select s cs = (Picked c, s') \<and> c \<in> set cs \<and> rr_serves k s'"
proof -
  obtain n where n: "s = round_robin n" "0 \<le> sint n" "sint n + int (Suc k) < 2 ^ 63"
    using assms(1) by (auto simp: rr_serves_def)
  have "sint (n + 1) = sint n + 1" using n(2,3) by (intro sint_next) simp_all
  then have "rr_serves k (round_robin (n + 1))"
    using n(2,3) unfolding rr_serves_def by (intro exI [of _ "n + 1"]) simp
  moreover have "cs ! nat (sint n mod int (length cs)) \<in> set cs"
    using rr_index_bound [OF assms(2)] by simp
  ultimately show ?thesis using select_round_robin [OF assms(2) n(2)] n(1) by auto
qed

interpretation rr: selection_port rr_serves
  by unfold_locales (rule rr_serves_pick)

lemma NewRoundRobin_serves: "k < 2 ^ 63 \<Longrightarrow> rr_serves k NewRoundRobin"
  unfolding rr_serves_def NewRoundRobin_def by (rule exI [of _ 0]) simp

text \<open>An acquire of an unbound task that has a candidate never waits and never fails for want
  of a resource: with round robin as the strategy of its group the pass hands out a lease on one of
  the candidates, or, for a lock, reports that the store refused the write. The strategy instance
  must not have reached the end of its 64-bit cursor.\<close>

theorem available_is_leased:
  assumes "lease_inv m" "checkPin a m = None" "get (mBindings m) (asgTask a) = None"
    "candidates a lock m \<noteq> []"
    "get (mStrategies m) (asgGroup a) = Some (round_robin n)" "0 \<le> sint n" "sint n < 2 ^ 63 - 1"
  shows "case fst (acquire_pass None now a lock m) of
           Leased l \<Rightarrow> lseTask l = asgTask a \<and> resID (lseRes l) \<in> resID ` set (candidates a lock m)
         | Refused e \<Rightarrow> lock \<and> (\<exists>r. e = EPersistLock r)
         | Waiting \<Rightarrow> False | Panicked \<Rightarrow> False"
proof (rule rr.acquire_available [OF assms(1-4)])
  have "rr_serves (Suc 0) (round_robin n)" using assms(6,7) by (auto simp: rr_serves_def)
  with assms(5) show "\<exists>s. get (mStrategies m) (asgGroup a) = Some s \<and> rr_serves (Suc 0) s" by simp
qed

lemma available_is_leased_witness:
  "\<exists>l. fst (acquire_pass None 7 (demo_asg ''d'') False demo_m3) = Leased l \<and> lseTask l = ''d''"
proof -
  have cs: "candidates (demo_asg ''d'') False demo_m3 = [demo_live ''y'' []]"
    by (simp add: candidates_def is_candidate_def heldCount_def holdersOf_def total_def get_or_def
        effectiveCap_def UnlimitedHolders_def demo_defs emptyManager_def)
  have pin: "checkPin (demo_asg ''d'') demo_m3 = None" "get (mBindings demo_m3) ''d'' = None"
    "asgTask (demo_asg ''d'') = ''d''" "asgGroup (demo_asg ''d'') = GlobalGroup"
    "get (mStrategies demo_m3) GlobalGroup = Some (round_robin 1)"
    by (simp_all add: checkPin_def demo_defs emptyManager_def)
  show ?thesis
    using available_is_leased [OF demo_m3_inv, of "demo_asg ''d''" False 1 7] cs pin
    by (auto split: outcome.splits)
qed

text \<open>Round robin rotates: over any run of fewer than 2^63 selections from one list of
  candidates, the i-th selection of a fresh instance is the candidate at position i modulo the
  length, so every candidate is picked equally often, in order.\<close>

theorem round_robin_rotates:
  assumes "cs \<noteq> []" "k < 2 ^ 63"
  shows "select_run NewRoundRobin (replicate k cs) =
    (map (\<lambda>i. Picked (cs ! (i mod length cs))) [0..<k], round_robin (of_nat k))"
proof -
  have run: "j + k \<le> 2 ^ 63 - 1 \<Longrightarrow>
      select_run (round_robin (of_nat j)) (replicate k cs) =
        (map (\<lambda>i. Picked (cs ! (i mod length cs))) [j..<j + k], round_robin (of_nat (j + k)))" for j k
  proof (induction k arbitrary: j)
    case (Suc k)
    have "take_bit 64 j = j" using Suc.prems by (intro take_bit_nat_eq_self) simp
    then have "sint (of_nat j :: 64 word) = signed_take_bit 63 (int j)"
      by (simp add: sint_uint unsigned_of_nat)
    also have "\<dots> = int j" using Suc.prems by (intro signed_take_bit_int_eq_self) simp_all
    finally have j: "sint (of_nat j :: 64 word) = int j" .
    have pos: "nat (int j mod int (length cs)) = j mod length cs" by (simp add: nat_mod_distrib)
    have "select (round_robin (of_nat j)) cs =
        (Picked (cs ! (j mod length cs)), round_robin (of_nat (Suc j)))"
      using select_round_robin [OF assms(1), of "of_nat j"] by (simp add: j pos add.commute)
    moreover have "[j..<j + Suc k] = j # [Suc j..<Suc j + k]" by (simp add: upt_conv_Cons)
    ultimately show ?case using Suc.IH [of "Suc j"] Suc.prems by simp
  qed simp
  show ?thesis using run [of 0 k] assms(2) by (simp add: NewRoundRobin_def)
qed

lemma round_robin_rotates_witness:
  "fst (select_run NewRoundRobin (replicate 4 [10, 20, 30 :: nat])) =
     [Picked 10, Picked 20, Picked 30, Picked 10]"
  using round_robin_rotates [of "[10, 20, 30 :: nat]" 4] by (simp add: upt_rec)


end
