(* ===== verification/Proxies.thy ===== *)
theory Proxies
  imports Leasing_Selection Leasing_Properties
begin

text \<open>
  The proxies package (src/proxies): the leasing manager over one model, a proxy, with a selection
  strategy that learns from the outcomes of leases, and a lease that may be released with one. A
  Go uint64 counter is a 64-bit word. The strategy draws its samples from floating-point gamma
  variates; here the sampler is a parameter, its samples are drawn from any linear order, and the
  choice among the samples is as the source makes it.
\<close>

section \<open>The model\<close>

record proxy = resource +
  pxURL :: string
  pxSuccesses :: "64 word"
  pxFailures :: "64 word"

definition proxyKind :: string where
  "proxyKind = ''proxy''"

definition StrategyBayesian :: string where
  "StrategyBayesian = ''bayesian''"

section \<open>Thompson sampling\<close>

text \<open>The loop of Select: the best candidate so far with its sample, none before the first; every
  sample is above the minus infinity it starts from, and a tie keeps the earlier one.\<close>

fun bayes_loop ::
    "('g \<Rightarrow> proxy \<Rightarrow> ('r :: linorder) \<times> 'g) \<Rightarrow> proxy list \<Rightarrow> (proxy \<times> 'r) option \<Rightarrow> 'g
      \<Rightarrow> (proxy \<times> 'r) option \<times> 'g" where
  "bayes_loop sampleBeta [] best g = (best, g)"
| "bayes_loop sampleBeta (p # ps) best g =
     (let (theta, g') = sampleBeta g p
      in case best of
           None \<Rightarrow> bayes_loop sampleBeta ps (Some (p, theta)) g'
         | Some (q, bestTheta) \<Rightarrow>
             bayes_loop sampleBeta ps
               (if theta > bestTheta then Some (p, theta) else Some (q, bestTheta)) g')"

definition bayes_Select ::
    "('g \<Rightarrow> proxy \<Rightarrow> ('r :: linorder) \<times> 'g) \<Rightarrow> 'g \<Rightarrow> proxy list \<Rightarrow> proxy sel_result \<times> 'g" where
  "bayes_Select sampleBeta g cs =
     (if cs = [] then (SelectErr ''no candidates'', g)
      else (case bayes_loop sampleBeta cs None g of
              (None, g') \<Rightarrow> (SelectErr ''no candidates'', g')
            | (Some (p, theta), g') \<Rightarrow> (Picked p, g')))"

primcorec bayesian :: "('g \<Rightarrow> proxy \<Rightarrow> ('r :: linorder) \<times> 'g) \<Rightarrow> 'g \<Rightarrow> proxy selection" where
  "select (bayesian sampleBeta g) =
     (\<lambda>cs. map_prod id (bayesian sampleBeta) (bayes_Select sampleBeta g cs))"

text \<open>The samples the loop sees, in order.\<close>

fun draws :: "('g \<Rightarrow> proxy \<Rightarrow> ('r :: linorder) \<times> 'g) \<Rightarrow> proxy list \<Rightarrow> 'g \<Rightarrow> (proxy \<times> 'r) list" where
  "draws sampleBeta [] g = []"
| "draws sampleBeta (p # ps) g =
     (let (theta, g') = sampleBeta g p in (p, theta) # draws sampleBeta ps g')"

lemma map_fst_draws [simp]: "map fst (draws sb ps g) = ps"
  by (induction ps arbitrary: g) (auto split: prod.splits)

lemma bayes_loop_Some:
  assumes "bayes_loop sb ps (Some (q, t)) g = (best, g')"
  shows "\<exists>p theta. best = Some (p, theta) \<and> (p, theta) \<in> insert (q, t) (set (draws sb ps g)) \<and>
    (\<forall>x \<in> insert (q, t) (set (draws sb ps g)). snd x \<le> theta)"
  using assms
proof (induction ps arbitrary: q t g)
  case (Cons p ps)
  obtain theta h where s: "sb g p = (theta, h)" by fastforce
  show ?case
  proof (cases "theta > t")
    case True
    with Cons.prems s have "bayes_loop sb ps (Some (p, theta)) h = (best, g')" by simp
    from Cons.IH [OF this] True s show ?thesis by fastforce
  next
    case False
    with Cons.prems s have "bayes_loop sb ps (Some (q, t)) h = (best, g')" by simp
    from Cons.IH [OF this] False s show ?thesis by fastforce
  qed
qed simp

lemma bayes_Select_max:
  assumes "ps \<noteq> []" "bayes_Select sb g ps = (r, g')"
  shows "\<exists>p theta. r = Picked p \<and> p \<in> set ps \<and> (p, theta) \<in> set (draws sb ps g) \<and>
    (\<forall>x \<in> set (draws sb ps g). snd x \<le> theta)"
proof -
  obtain p0 ps' where ps: "ps = p0 # ps'" using assms(1) by (cases ps) auto
  obtain t h where s: "sb g p0 = (t, h)" by fastforce
  obtain best g2 where b: "bayes_loop sb ps' (Some (p0, t)) h = (best, g2)" by fastforce
  from bayes_loop_Some [OF b] obtain p theta where P: "best = Some (p, theta)"
    "(p, theta) \<in> set (draws sb ps g)" "\<forall>x \<in> set (draws sb ps g). snd x \<le> theta"
    by (auto simp: ps s)
  have "p \<in> set ps" using P(2) map_fst_draws [of sb ps g] by (metis fst_conv image_eqI list.set_map)
  moreover have "r = Picked p" using assms(2) b P(1) by (simp add: bayes_Select_def ps s)
  ultimately show ?thesis using P by blast
qed

text \<open>Whatever the sampler, the strategy answers with a candidate it was given, for ever.\<close>

definition bayes_serves ::
    "('g \<Rightarrow> proxy \<Rightarrow> ('r :: linorder) \<times> 'g) \<Rightarrow> nat \<Rightarrow> proxy selection \<Rightarrow> bool" where
  "bayes_serves sampleBeta k s \<longleftrightarrow> (\<exists>g. s = bayesian sampleBeta g)"

interpretation bayes: selection_port "bayes_serves sampleBeta" for sampleBeta
proof unfold_locales
  fix k s and cs :: "proxy list"
  assume "bayes_serves sampleBeta (Suc k) s" "cs \<noteq> []"
  then obtain g where g: "s = bayesian sampleBeta g" by (auto simp: bayes_serves_def)
  obtain r g' where r: "bayes_Select sampleBeta g cs = (r, g')" by fastforce
  from bayes_Select_max [OF \<open>cs \<noteq> []\<close> r] obtain p where "r = Picked p" "p \<in> set cs" by blast
  with g r show "\<exists>c s'. select s cs = (Picked c, s') \<and> c \<in> set cs \<and> bayes_serves sampleBeta k s'"
    by (auto simp: bayes_serves_def)
qed

section \<open>The manager and its leases\<close>

text \<open>NewManager installs the bayesian factory before the caller's options.\<close>

definition proxies_NewManager ::
    "('g \<Rightarrow> proxy \<Rightarrow> ('r :: linorder) \<times> 'g) \<Rightarrow> 'g \<Rightarrow> ('s, unit proxy_ext) repository option
      \<Rightarrow> (string \<times> proxy selection) list \<Rightarrow> time \<Rightarrow> 's
      \<Rightarrow> (lease_error + ('s, unit proxy_ext) manager) \<times> 's" where
  "proxies_NewManager sampleBeta seed repo opts now s =
     NewManager repo ((StrategyBayesian, bayesian sampleBeta seed) # opts) now s"

text \<open>A proxy lease wraps a lease of the leasing manager with a flag of its own: the process
  additionally keeps, for each lease, whether either release of it has been called.\<close>

record 's psys =
  psSys :: "('s, unit proxy_ext) sys"
  psOnce :: "bool list"

definition tally :: "bool \<Rightarrow> proxy \<Rightarrow> proxy" where
  "tally success p =
     (if success then p\<lparr>pxSuccesses := pxSuccesses p + 1\<rparr> else p\<lparr>pxFailures := pxFailures p + 1\<rparr>)"

definition ReleaseOutcome ::
    "time \<Rightarrow> nat \<Rightarrow> bool \<Rightarrow> 's psys \<Rightarrow> lease_error option \<times> 's psys" where
  "ReleaseOutcome now i success P =
     (if psOnce P ! i then (None, P)
      else (let S = psSys P;
                (err, m) = Update now (resID (lseRes (hndLease (sysLeases S ! i)))) (tally success)
                             (sysMgr S)
            in (err, P\<lparr>psSys := Release i (S\<lparr>sysMgr := m\<rparr>), psOnce := (psOnce P)[i := True]\<rparr>)))"

definition proxies_Release :: "nat \<Rightarrow> 's psys \<Rightarrow> 's psys" where
  "proxies_Release i P =
     (if psOnce P ! i then P
      else P\<lparr>psSys := Release i (psSys P), psOnce := (psOnce P)[i := True]\<rparr>)"

text \<open>Every release of a proxy lease is a step, or two, of the leasing process.\<close>

lemma ReleaseOutcome_steps:
  assumes "reachable (psSys P)" "i < length (sysLeases (psSys P))"
    "ReleaseOutcome now i success P = (err, P')"
  shows "reachable (psSys P')"
proof (cases "psOnce P ! i")
  case True
  with assms show ?thesis by (simp add: ReleaseOutcome_def)
next
  case False
  let ?S = "psSys P"
  obtain m where m: "Update now (resID (lseRes (hndLease (sysLeases ?S ! i)))) (tally success)
      (sysMgr ?S) = (err, m)"
    and P': "psSys P' = Release i (?S\<lparr>sysMgr := m\<rparr>)"
    using assms(3) False by (auto simp: ReleaseOutcome_def Let_def split: prod.splits)
  have "reachable (?S\<lparr>sysMgr := m\<rparr>)" using step [OF assms(1) sys_step.update [OF m]] .
  from step [OF this sys_step.let_go [of i]] assms(2) show ?thesis by (simp add: P')
qed

lemma proxies_Release_steps:
  assumes "reachable (psSys P)" "i < length (sysLeases (psSys P))"
  shows "reachable (psSys (proxies_Release i P))"
  using step [OF assms(1) sys_step.let_go [OF assms(2)]] assms(1) by (simp add: proxies_Release_def)

lemma Release_pool [simp]: "mPool (sysMgr (Release i S)) = mPool (sysMgr S)"
  by (simp add: Release_def release_def broadcast_def Let_def)

lemma Release_done [simp]: "i < length (sysLeases S) \<Longrightarrow> hndDone (sysLeases (Release i S) ! i)"
  by (simp add: Release_def Let_def)

section \<open>Properties\<close>

text \<open>The bayesian strategy returns the candidate with the highest sample, one sample having been
  drawn for each candidate in order, whatever the sampler does.\<close>

theorem bayesian_picks_highest:
  assumes "cs \<noteq> []"
  shows "\<exists>p theta g'. bayes_Select sb g cs = (Picked p, g') \<and> (p, theta) \<in> set (draws sb cs g) \<and>
    (\<forall>q t. (q, t) \<in> set (draws sb cs g) \<longrightarrow> t \<le> theta) \<and> map fst (draws sb cs g) = cs"
proof -
  obtain r g' where r: "bayes_Select sb g cs = (r, g')" by fastforce
  from bayes_Select_max [OF assms r] obtain p theta where "r = Picked p"
    "(p, theta) \<in> set (draws sb cs g)" "\<forall>x \<in> set (draws sb cs g). snd x \<le> theta"
    by (elim exE conjE) (rule that)
  with r have "bayes_Select sb g cs = (Picked p, g') \<and> (p, theta) \<in> set (draws sb cs g) \<and>
    (\<forall>q t. (q, t) \<in> set (draws sb cs g) \<longrightarrow> t \<le> theta) \<and> map fst (draws sb cs g) = cs"
    by (auto dest: bspec)
  then show ?thesis by (intro exI)
qed

definition demo_proxy :: "string \<Rightarrow> 64 word \<Rightarrow> proxy" where
  "demo_proxy rid n = \<lparr>resID = rid, resGroup = GlobalGroup, resOwner = [], resMax = 0, resCreated = 0,
     resUpdated = 0, pxURL = [], pxSuccesses = n, pxFailures = 0\<rparr>"

lemma bayesian_picks_highest_witness:
  "fst (bayes_Select (\<lambda>g p. (unat (pxSuccesses p), g)) () [demo_proxy ''x'' 1, demo_proxy ''y'' 5])
     = Picked (demo_proxy ''y'' 5)"
proof -
  let ?sb = "\<lambda>g p. (unat (pxSuccesses p), g)" and ?cs = "[demo_proxy ''x'' 1, demo_proxy ''y'' 5]"
  have cs: "?cs \<noteq> []" by simp
  have d: "set (draws ?sb ?cs ()) = {(demo_proxy ''x'' 1, 1), (demo_proxy ''y'' 5, 5)}"
    by (simp add: demo_proxy_def)
  from bayesian_picks_highest [OF cs, of ?sb "()"] obtain p theta g' where
    "bayes_Select ?sb () ?cs = (Picked p, g')" "(p, theta) \<in> set (draws ?sb ?cs ())"
    "\<forall>q t. (q, t) \<in> set (draws ?sb ?cs ()) \<longrightarrow> t \<le> theta"
    by (elim exE conjE) (rule that)
  then show ?thesis unfolding d by auto
qed

text \<open>Releasing a proxy lease with an outcome frees the lease whether or not the tally could be
  written. If it was written, the pooled record is as before but for one more success or failure,
  a wrap-around at 64 bits, and its update time; if not, the pool is unchanged and the error is
  reported.\<close>

theorem outcome_tallied_and_freed:
  assumes "reachable (psSys P)" "i < length (sysLeases (psSys P))" "i < length (psOnce P)"
    "\<not> psOnce P ! i" "\<not> hndDone (sysLeases (psSys P) ! i)"
    "rid = resID (lseRes (hndLease (sysLeases (psSys P) ! i)))"
    "ReleaseOutcome now i success P = (err, P')"
  shows "hndDone (sysLeases (psSys P') ! i) \<and> psOnce P' ! i \<and>
    (\<exists>p0. get (mPool (sysMgr (psSys P))) rid = Some p0 \<and>
      (if err = None
       then get (mPool (sysMgr (psSys P'))) rid = Some ((tally success p0)\<lparr>resUpdated := now\<rparr>)
       else mPool (sysMgr (psSys P')) = mPool (sysMgr (psSys P))))"
proof -
  let ?S = "psSys P"
  obtain m where m: "Update now rid (tally success) (sysMgr ?S) = (err, m)"
    and P': "psSys P' = Release i (?S\<lparr>sysMgr := m\<rparr>)" "psOnce P' = (psOnce P)[i := True]"
    using assms(4,6,7) by (auto simp: ReleaseOutcome_def Let_def split: prod.splits)
  have "0 < live (lease_on rid) ?S"
    using assms(2,5,6) unfolding live_def length_greater_0_conv filter_empty_conv
    by (auto simp: lease_on_def intro!: bexI [of _ "sysLeases ?S ! i"])
  then have "holdersOf (sysMgr ?S) rid \<noteq> []"
    using reachable_on [OF assms(1), of rid] heldCount_zero [OF reachable_lease_inv [OF assms(1)], of rid]
    by auto
  from holdersOf_pooled [OF reachable_lease_inv [OF assms(1)] this]
  obtain p0 where p0: "get (mPool (sysMgr ?S)) rid = Some p0" ..
  have same: "set_core ((core p0)\<lparr>resUpdated := now\<rparr>) (tally success p0) =
      (tally success p0)\<lparr>resUpdated := now\<rparr>"
    by (cases p0) (simp add: set_core_def core_def tally_def resource.defs)
  from m have pool: "if err = None
      then get (mPool m) rid = Some ((tally success p0)\<lparr>resUpdated := now\<rparr>)
      else mPool m = mPool (sysMgr ?S)"
  proof (cases rule: Update_cases)
    case (updated q p s)
    then show ?thesis using p0 same by simp
  qed (use p0 in simp_all)
  then show ?thesis using assms(2,3) p0 by (simp add: P')
qed

text \<open>A process over an empty repository with one proxy, leased to task a.\<close>

definition pdemo_m0 :: "(unit, unit proxy_ext) manager" where
  "pdemo_m0 = (emptyManager noopRepository ())\<lparr>mGroups := [(GlobalGroup, demo_group)],
     mStrategies := [(GlobalGroup, NewRoundRobin)]\<rparr>"

definition pdemo_m1 :: "(unit, unit proxy_ext) manager" where
  "pdemo_m1 = pdemo_m0\<lparr>mPool := [(''x'', demo_proxy ''x'' 7)], mOrder := [''x''], mGen := 1\<rparr>"

definition pdemo_m2 :: "(unit, unit proxy_ext) manager" where
  "pdemo_m2 = pdemo_m1\<lparr>mStrategies := [(GlobalGroup, round_robin 1)],
     mHolders := [(''x'', [(''a'', 1)])]\<rparr>"

definition pdemo :: "unit psys" where
  "pdemo = \<lparr>psSys = \<lparr>sysMgr = pdemo_m2, sysAsleep = [],
       sysLeases = [\<lparr>hndLease = \<lparr>lseRes = demo_proxy ''x'' 7, lseGroup = demo_group, lseTask = ''a''\<rparr>,
                     hndDone = False\<rparr>]\<rparr>,
     psOnce = [False]\<rparr>"

lemmas pdemo_defs = pdemo_m0_def pdemo_m1_def pdemo_m2_def demo_proxy_def demo_group_def demo_asg_def

lemma pdemo_reachable: "reachable (psSys pdemo)"
proof -
  have new: "NewManager None [] 1 () = (Inr pdemo_m0, ())"
    by (simp add: NewManager_def noopRepository_def emptyManager_def ensureGlobal_def Let_def
        repo_save_group_def adoptGroup_def validateGroup_def pdemo_defs)
  have add: "Add 0 (demo_proxy ''x'' 7) pdemo_m0 = (None, pdemo_m1)"
    by (simp add: Add_def pdemo_defs validateHolderPolicy_def UnlimitedHolders_def Let_def
        repo_save_def noopRepository_def emptyManager_def broadcast_def)
  have acq: "acquire_pass None 3 (demo_asg ''a'') False pdemo_m1 =
      (Leased \<lparr>lseRes = demo_proxy ''x'' 7, lseGroup = demo_group, lseTask = ''a''\<rparr>, pdemo_m2)"
    by (simp add: acquire_pass_def checkPin_def acquire_unbound_def groupHasResources_def groupAt_def
        selectUnlocked_def candidates_def is_candidate_def heldCount_def holdersOf_def effectiveCap_def
        UnlimitedHolders_def rr_Select_def eligible_def hold_def lease_of_def NewRoundRobin_def
        pdemo_defs emptyManager_def)
  from step [OF step [OF boot [OF new] sys_step.add [where p = "demo_proxy ''x'' 7"]]
      sys_step.start [OF demo_prepare, of "''a''"]] add acq
  show ?thesis by (fastforce simp: settle_def pdemo_def)
qed

lemma outcome_tallied_and_freed_witness:
  "\<exists>p. get (mPool (sysMgr (psSys (snd (ReleaseOutcome 9 0 True pdemo))))) ''x'' = Some p \<and>
     pxSuccesses p = 8 \<and> resUpdated p = 9"
proof -
  let ?out = "ReleaseOutcome 9 0 True pdemo"
  have i: "0 < length (sysLeases (psSys pdemo))" "0 < length (psOnce pdemo)" "\<not> psOnce pdemo ! 0"
    "\<not> hndDone (sysLeases (psSys pdemo) ! 0)"
    "''x'' = resID (lseRes (hndLease (sysLeases (psSys pdemo) ! 0)))"
    "get (mPool (sysMgr (psSys pdemo))) ''x'' = Some (demo_proxy ''x'' 7)"
    by (simp_all add: pdemo_def demo_proxy_def pdemo_m2_def pdemo_m1_def)
  have err: "fst ?out = None"
    by (simp add: ReleaseOutcome_def Update_def repo_save_def noopRepository_def pdemo_def
        emptyManager_def pdemo_defs Let_def)
  have "?out = (None, snd ?out)" using err by (metis prod.collapse)
  from outcome_tallied_and_freed [OF pdemo_reachable i(1-5) this] i(6)
  show ?thesis by (simp add: tally_def demo_proxy_def)
qed

text \<open>Only the first release of a proxy lease acts, whichever of the two it is: afterwards
  ReleaseOutcome returns nil and neither changes anything.\<close>

theorem only_first_release_acts:
  assumes "i < length (psOnce P)"
  shows "ReleaseOutcome now i success (proxies_Release i P) = (None, proxies_Release i P) \<and>
    (let P' = snd (ReleaseOutcome now i success P)
     in proxies_Release i P' = P' \<and> ReleaseOutcome now' i success' P' = (None, P'))"
  using assms by (simp add: ReleaseOutcome_def proxies_Release_def Let_def split: prod.split)

lemma only_first_release_acts_witness:
  "ReleaseOutcome 4 0 True (proxies_Release 0 pdemo) = (None, proxies_Release 0 pdemo)"
  using only_first_release_acts [of 0 pdemo 4 True] by (simp add: pdemo_def)

end
