(* ===== verification/Leasing_Store.thy ===== *)
theory Leasing_Store
  imports Leasing_Demo
begin

text \<open>
  The repository port as a contract, and what the manager makes of it: the store is a mirror of the
  manager's groups and pool, written before the manager's own maps change. Inside the contract every
  operation is shown to keep the mirror, and a manager built anew on the store of an old one is
  shown to have the old one's groups, pool and durable locks, and no leases.
\<close>

section \<open>The contract\<close>

text \<open>A store shows its rows. A write that reports no error installs the row, but leaves the
  creation time of a row that was already there; a write that reports an error changes no row; a
  listing gives every row once.\<close>

definition kept_created :: "'x resource_scheme option \<Rightarrow> 'x resource_scheme \<Rightarrow> 'x resource_scheme" where
  "kept_created old p = (case old of None \<Rightarrow> p | Some q \<Rightarrow> p\<lparr>resCreated := resCreated q\<rparr>)"

definition kept_group :: "group option \<Rightarrow> group \<Rightarrow> group" where
  "kept_group old g = (case old of None \<Rightarrow> g | Some h \<Rightarrow> g\<lparr>grpCreated := grpCreated h\<rparr>)"

locale leasing_store =
  fixes R :: "('s, 'x) repository"
    and rows :: "'s \<Rightarrow> string \<Rightarrow> 'x resource_scheme option"
    and grows :: "'s \<Rightarrow> string \<Rightarrow> group option"
    and sane :: "'s \<Rightarrow> bool"
  assumes save_ok: "sane s \<Longrightarrow> repoSave R p s = (None, s') \<Longrightarrow>
      sane s' \<and> rows s' = (rows s)(resID p \<mapsto> kept_created (rows s (resID p)) p) \<and> grows s' = grows s"
    and save_failed: "sane s \<Longrightarrow> repoSave R p s = (Some e, s') \<Longrightarrow>
      sane s' \<and> rows s' = rows s \<and> grows s' = grows s"
    and delete_ok: "sane s \<Longrightarrow> repoDelete R rid s = (None, s') \<Longrightarrow>
      sane s' \<and> rows s' = (rows s)(rid := None) \<and> grows s' = grows s"
    and delete_failed: "sane s \<Longrightarrow> repoDelete R rid s = (Some e, s') \<Longrightarrow>
      sane s' \<and> rows s' = rows s \<and> grows s' = grows s"
    and save_group_ok: "sane s \<Longrightarrow> repoSaveGroup R g s = (None, s') \<Longrightarrow>
      sane s' \<and> rows s' = rows s \<and> grows s' = (grows s)(grpID g \<mapsto> kept_group (grows s (grpID g)) g)"
    and save_group_failed: "sane s \<Longrightarrow> repoSaveGroup R g s = (Some e, s') \<Longrightarrow>
      sane s' \<and> rows s' = rows s \<and> grows s' = grows s"
    and delete_group_ok: "sane s \<Longrightarrow> repoDeleteGroup R gid s = (None, s') \<Longrightarrow>
      sane s' \<and> rows s' = rows s \<and> grows s' = (grows s)(gid := None)"
    and delete_group_failed: "sane s \<Longrightarrow> repoDeleteGroup R gid s = (Some e, s') \<Longrightarrow>
      sane s' \<and> rows s' = rows s \<and> grows s' = grows s"
    and list_ok: "sane s \<Longrightarrow> repoList R s = (Inr ps, s') \<Longrightarrow>
      sane s' \<and> rows s' = rows s \<and> grows s' = grows s \<and> distinct (map resID ps) \<and>
      (\<forall>rid p. rows s rid = Some p \<longleftrightarrow> p \<in> set ps \<and> resID p = rid)"
    and list_groups_ok: "sane s \<Longrightarrow> repoListGroups R s = (Inr gs, s') \<Longrightarrow>
      sane s' \<and> rows s' = rows s \<and> grows s' = grows s \<and> distinct (map grpID gs) \<and>
      (\<forall>gid g. grows s gid = Some g \<longleftrightarrow> g \<in> set gs \<and> grpID g = gid)"

section \<open>The mirror\<close>

text \<open>What loading makes of a row: a resource with no group is the global group's.\<close>

definition normal :: "'x resource_scheme \<Rightarrow> 'x resource_scheme" where
  "normal p = (if resGroup p = [] then p\<lparr>resGroup := GlobalGroup\<rparr> else p)"

lemma normal_fields [simp]:
  "resID (normal p) = resID p" "resOwner (normal p) = resOwner p" "resMax (normal p) = resMax p"
  "resCreated (normal p) = resCreated p"
  by (simp_all add: normal_def)

lemma normal_grouped [simp]: "resGroup p \<noteq> [] \<Longrightarrow> normal p = p"
  by (simp add: normal_def)

lemma normal_not_Nil [simp]: "resGroup (normal p) \<noteq> []"
  by (simp add: normal_def)

lemma pool_grouped: "lease_inv m \<Longrightarrow> get (mPool m) rid = Some p \<Longrightarrow> resGroup p \<noteq> []"
  using pool_group [of m rid p] lease_invD(3) [of m] by (auto simp: inv_groups_def)

text \<open>The store shows exactly the groups and the pool the manager works with.\<close>

definition mirrors :: "('s \<Rightarrow> string \<Rightarrow> 'x resource_scheme option) \<Rightarrow> ('s \<Rightarrow> string \<Rightarrow> group option)
    \<Rightarrow> ('s, 'x) manager \<Rightarrow> bool" where
  "mirrors rows grows m \<longleftrightarrow> grows (mStore m) = map_of (mGroups m) \<and>
     (\<forall>rid. map_option normal (rows (mStore m) rid) = get (mPool m) rid)"

lemma set_created_same [simp]: "resCreated q = resCreated p \<Longrightarrow> p\<lparr>resCreated := resCreated q\<rparr> = p"
  by simp

lemma set_group_created_same [simp]: "grpCreated h = grpCreated g \<Longrightarrow> g\<lparr>grpCreated := grpCreated h\<rparr> = g"
  by simp

context leasing_store
begin

definition mirrored :: "('s, 'x) manager \<Rightarrow> bool" where
  "mirrored m \<longleftrightarrow> mRepo m = R \<and> sane (mStore m) \<and> mirrors rows grows m"

lemma mirrored_iff:
  "mirrored m \<longleftrightarrow> mRepo m = R \<and> sane (mStore m) \<and> grows (mStore m) = map_of (mGroups m) \<and>
     (\<forall>rid. map_option normal (rows (mStore m) rid) = get (mPool m) rid)"
  by (auto simp: mirrored_def mirrors_def)

lemma mirroredI:
  "mRepo m = R \<Longrightarrow> sane (mStore m) \<Longrightarrow> grows (mStore m) = map_of (mGroups m) \<Longrightarrow>
    (\<And>rid. map_option normal (rows (mStore m) rid) = get (mPool m) rid) \<Longrightarrow> mirrored m"
  by (simp add: mirrored_iff)

lemma mirrored_frame [simp]:
  "mirrored (m\<lparr>mOrder := x1\<rparr>) = mirrored m" "mirrored (m\<lparr>mHolders := x2\<rparr>) = mirrored m"
  "mirrored (m\<lparr>mBindings := x3\<rparr>) = mirrored m" "mirrored (m\<lparr>mStrategies := x4\<rparr>) = mirrored m"
  "mirrored (m\<lparr>mGen := x5\<rparr>) = mirrored m" "mirrored (broadcast m) = mirrored m"
  "mirrored (hold r t m) = mirrored m" "mirrored (unhold r t m) = mirrored m"
  by (simp_all add: mirrored_iff broadcast_def)

text \<open>Writes that fail leave the mirror, whatever the manager then reports.\<close>

lemma mirrored_failed:
  assumes "mirrored m"
  shows "repoSave (mRepo m) p (mStore m) = (Some e, s) \<Longrightarrow> mirrored (m\<lparr>mStore := s\<rparr>)"
    "repoDelete (mRepo m) rid (mStore m) = (Some e, s) \<Longrightarrow> mirrored (m\<lparr>mStore := s\<rparr>)"
    "repoSaveGroup (mRepo m) g (mStore m) = (Some e, s) \<Longrightarrow> mirrored (m\<lparr>mStore := s\<rparr>)"
    "repoDeleteGroup (mRepo m) gid (mStore m) = (Some e, s) \<Longrightarrow> mirrored (m\<lparr>mStore := s\<rparr>)"
  using assms by (auto simp: mirrored_iff dest: save_failed delete_failed save_group_failed
      delete_group_failed)

lemma mirrored_save:
  assumes m: "mirrored m" and save: "repoSave (mRepo m) p (mStore m) = (None, s)"
    and g: "resGroup p \<noteq> []" and rid: "resID p = rid"
    and created: "\<And>q. get (mPool m) rid = Some q \<Longrightarrow> resCreated q = resCreated p"
  shows "mirrored (m\<lparr>mStore := s, mPool := put rid p (mPool m)\<rparr>)"
proof -
  have st: "mRepo m = R" "sane (mStore m)" "grows (mStore m) = map_of (mGroups m)"
    and rows: "\<And>rid. map_option normal (rows (mStore m) rid) = get (mPool m) rid"
    using m by (simp_all add: mirrored_iff)
  from save_ok [OF st(2), of p s] save st(1)
  have s: "sane s" "rows s = (rows (mStore m))(rid \<mapsto> kept_created (rows (mStore m) rid) p)"
    "grows s = grows (mStore m)" using rid by simp_all
  have "kept_created (rows (mStore m) rid) p = p"
    using created [of "normal q" for q] rows [of rid, symmetric]
    by (cases "rows (mStore m) rid") (simp_all add: kept_created_def)
  with s st rows g show ?thesis by (intro mirroredI) simp_all
qed

lemma mirrored_save_group:
  assumes m: "mirrored m" and save: "repoSaveGroup (mRepo m) g (mStore m) = (None, s)"
    and gid: "grpID g = gid"
    and created: "\<And>h. get (mGroups m) gid = Some h \<Longrightarrow> grpCreated h = grpCreated g"
  shows "mirrored (m\<lparr>mStore := s, mGroups := put gid g (mGroups m)\<rparr>)"
proof -
  have st: "mRepo m = R" "sane (mStore m)" "grows (mStore m) = map_of (mGroups m)"
    and rows: "\<And>rid. map_option normal (rows (mStore m) rid) = get (mPool m) rid"
    using m by (simp_all add: mirrored_iff)
  from save_group_ok [OF st(2), of g s] save st(1)
  have s: "sane s" "rows s = rows (mStore m)"
    "grows s = (grows (mStore m))(gid \<mapsto> kept_group (grows (mStore m) gid) g)" using gid by simp_all
  have "kept_group (grows (mStore m) gid) g = g"
    using created st(3) by (cases "grows (mStore m) gid") (simp_all add: kept_group_def)
  with s st rows show ?thesis by (intro mirroredI) (simp_all add: get_put_map)
qed

lemma mirrored_delete:
  assumes m: "mirrored m" and del: "repoDelete (mRepo m) rid (mStore m) = (None, s)"
  shows "mirrored (m\<lparr>mStore := s, mPool := del rid (mPool m)\<rparr>)"
  using assms delete_ok [of "mStore m" rid s] by (intro mirroredI) (simp_all add: mirrored_iff)

lemma mirrored_delete_group:
  assumes m: "mirrored m" and del: "repoDeleteGroup (mRepo m) gid (mStore m) = (None, s)"
  shows "mirrored (m\<lparr>mStore := s, mGroups := del gid (mGroups m)\<rparr>)"
  using assms delete_group_ok [of "mStore m" gid s]
  by (intro mirroredI) (simp_all add: mirrored_iff get_del_map)

section \<open>Every operation keeps the mirror\<close>

lemma CreateGroup_mirrored:
  assumes run: "CreateGroup now g m = (e, m')" and m: "mirrored m"
  shows "mirrored m'"
  using run
proof (cases rule: CreateGroup_cases)
  case (created f s)
  then show ?thesis using mirrored_save_group [OF m created(3)] by simp
qed (use m mirrored_failed [OF m] in auto)

text \<open>An update of a group keeps the mirror if its callback does not write the shared refs in place,
  or if the update goes through.\<close>

lemma shared_refs_same [simp]:
  assumes "get (mGroups m) gid = Some kept"
  shows "mirrored (shared_refs gid kept (grpRefs kept) m) = mirrored m"
proof -
  have "(map_of (mGroups m))(gid \<mapsto> kept) = map_of (mGroups m)" using assms by auto
  then show ?thesis by (simp add: shared_refs_def mirrored_iff get_put_map)
qed

lemma UpdateGroup_mirrored:
  assumes run: "UpdateGroup now gid fn m = (e, m')" and m: "mirrored m" and inv: "lease_inv m"
    and pure: "e = None \<or> (\<forall>g. snd (fn g) = grpRefs g)"
  shows "mirrored m'"
  using run
proof (cases rule: UpdateGroup_cases)
  case (invalid kept g1 shared er)
  then have "shared = grpRefs kept" using pure by (metis option.distinct(1) snd_conv)
  with invalid m show ?thesis by simp
next
  case (unsaved kept g1 shared er s)
  then have "shared = grpRefs kept" using pure by (metis option.distinct(1) snd_conv)
  with unsaved have m': "m' = (shared_refs gid kept (grpRefs kept) m)\<lparr>mStore := s\<rparr>" by simp
  have "mirrored (shared_refs gid kept (grpRefs kept) m)" using m unsaved(1) by simp
  from mirrored_failed(3) [OF this] unsaved(3) show ?thesis by (simp add: m' shared_refs_def)
next
  case (updated kept g1 shared g f s)
  have gid: "grpID kept = gid" using lease_invD(3) [OF inv] updated(1) by (simp add: inv_groups_def)
  have "mirrored (m\<lparr>mStore := s, mGroups := put gid g (mGroups m)\<rparr>)"
    using updated gid by (intro mirrored_save_group [OF m updated(5)]) simp_all
  then show ?thesis by (simp add: updated(7) mirrored_iff get_put_map)
qed (use m in simp)

lemma Add_mirrored:
  assumes run: "Add now p0 m = (e, m')" and m: "mirrored m"
  shows "mirrored m'"
  using run
proof (cases rule: Add_cases)
  case (added p s)
  have "resGroup p \<noteq> []" by (simp add: added(6))
  then show ?thesis
    using mirrored_save [OF m added(8)] added(3,6,9) by simp
qed (use m mirrored_failed [OF m] in auto)

lemma Update_mirrored:
  assumes run: "Update now rid f m = (e, m')" and m: "mirrored m" and inv: "lease_inv m"
  shows "mirrored m'"
  using run
proof (cases rule: Update_cases)
  case (updated p0 p s)
  have "resGroup p0 \<noteq> []" using pool_grouped [OF inv updated(1)] .
  then show ?thesis
    using mirrored_save [OF m updated(3), of rid] updated(1,2,5) pool_id [OF inv updated(1)] by simp
qed (use m mirrored_failed [OF m] in auto)

lemma Delete_mirrored:
  assumes run: "Delete rid m = (ts, e, m')" and m: "mirrored m"
  shows "mirrored m'"
proof (cases "get (mPool m) rid")
  case (Some p)
  from run show ?thesis
  proof (cases rule: Delete_cases)
    case (deleted p s)
    then show ?thesis using mirrored_delete [OF m deleted(3)] by simp
  qed (use Some m mirrored_failed [OF m] in auto)
next
  case None
  obtain r s where r: "repoDelete (mRepo m) rid (mStore m) = (r, s)" by fastforce
  have m': "m' = m\<lparr>mStore := s\<rparr>"
    using run None r by (cases r) (auto simp: Delete_def repo_delete_def)
  show ?thesis
  proof (cases r)
    case (Some er)
    with r m' mirrored_failed(2) [OF m] show ?thesis by simp
  next
    case none: None
    have "mirrored (m\<lparr>mStore := s, mPool := del rid (mPool m)\<rparr>)"
      using mirrored_delete [OF m] r none by simp
    then show ?thesis using None by (simp add: m' mirrored_iff split: if_splits)
  qed
qed

lemma unlock_mirrored:
  assumes run: "unlock now t rid m = (e, m')" and m: "mirrored m" and inv: "lease_inv m"
  shows "mirrored m'"
proof (cases "get (mPool m) rid")
  case None
  with run m show ?thesis by (auto simp: unlock_def)
next
  case (Some p)
  from run Some show ?thesis
  proof (cases rule: unlock_cases)
    case (unlocked s)
    then show ?thesis
      using mirrored_save [OF m unlocked(1), of rid] Some pool_id [OF inv Some] pool_grouped [OF inv Some]
      by simp
  qed (use m mirrored_failed [OF m] in auto)
qed

lemma Unlock_mirrored: "Unlock now t m = (e, m') \<Longrightarrow> mirrored m \<Longrightarrow> lease_inv m \<Longrightarrow> mirrored m'"
  by (auto simp: Unlock_def unlock_mirrored split: option.splits)

lemma ReleaseStaleLock_mirrored:
  "ReleaseStaleLock now a m = (e, m') \<Longrightarrow> mirrored m \<Longrightarrow> lease_inv m \<Longrightarrow> mirrored m'"
  by (auto simp: ReleaseStaleLock_def unlock_mirrored split: option.splits if_splits)

lemma removeMembers_mirrored:
  "removeMembers ids ub m = (ts, e, m') \<Longrightarrow> mirrored m \<Longrightarrow> mirrored m'"
proof (induction ids arbitrary: ub m)
  case (Cons rid ids)
  obtain r m1 where r: "remove rid m = (r, m1)" by fastforce
  from r show ?case
  proof (cases rule: remove_cases)
    case (unsaved er s)
    with Cons.prems r mirrored_failed(2) [OF Cons.prems(2)] show ?thesis by (auto simp: Let_def)
  next
    case (removed s)
    have "mirrored m1" using mirrored_delete [OF Cons.prems(2) removed(1)] by (simp add: removed(3))
    with Cons r removed show ?thesis by (auto simp: Let_def split: if_splits)
  qed
qed simp

lemma DeleteGroup_mirrored:
  assumes run: "DeleteGroup gid m = (ts, e, m')" and m: "mirrored m"
  shows "mirrored m'"
proof -
  consider "m' = m"
    | ub r m1 where "removeMembers (members m gid) [] m = (ub, r, m1)" "r \<noteq> None" "m' = m1"
    | ub m1 q s where "removeMembers (members m gid) [] m = (ub, None, m1)"
        "repoDeleteGroup (mRepo m1) gid (mStore m1) = (Some q, s)" "m' = m1\<lparr>mStore := s\<rparr>"
    | ub m1 s where "removeMembers (members m gid) [] m = (ub, None, m1)"
        "repoDeleteGroup (mRepo m1) gid (mStore m1) = (None, s)"
        "m' = broadcast (m1\<lparr>mStore := s, mGroups := del gid (mGroups m1),
                            mStrategies := del gid (mStrategies m1)\<rparr>)"
    using run
    by (auto simp: DeleteGroup_def repo_delete_group_def split: if_splits option.splits prod.splits)
  then show ?thesis
  proof cases
    case 4
    have "mirrored m1" using removeMembers_mirrored 4(1) m by blast
    from mirrored_delete_group [OF this 4(2)] show ?thesis by (simp add: 4(3))
  next
    case 3
    have "mirrored m1" using removeMembers_mirrored 3(1) m by blast
    from mirrored_failed(4) [OF this 3(2)] show ?thesis by (simp add: 3(3))
  qed (use m removeMembers_mirrored in blast)+
qed

lemma acquire_unbound_mirrored:
  assumes run: "acquire_unbound now a lock m = (out, m')" and m: "mirrored m" and inv: "lease_inv m"
  shows "mirrored m'"
proof -
  obtain r m1 where r: "selectUnlocked a lock m = (r, m1)" by fastforce
  have m1: "mirrored m1 \<and> mPool m1 = mPool m" using selectUnlocked_frame [OF r] m by auto
  have "mirrored (m1\<lparr>mStore := s\<rparr>)" if "repoSave (mRepo m1) q (mStore m1) = (Some e, s)" for q e s
    using mirrored_failed(1) m1 that by blast
  moreover have "mirrored (m1\<lparr>mStore := s, mPool := put (resID p) q (mPool m1)\<rparr>)"
    if "r = Found p" "repoSave (mRepo m1) q (mStore m1) = (None, s)"
      "q = p\<lparr>resOwner := asgTask a, resUpdated := now\<rparr>" for p q s
  proof -
    have p: "get (mPool m) (resID p) = Some p"
      using selectUnlocked_Found r that(1) candidate_facts(1) [OF inv] by blast
    show ?thesis
      using mirrored_save [OF conjunct1 [OF m1] that(2), of "resID p"] m1 p that(3) pool_grouped [OF inv p]
      by simp
  qed
  ultimately show ?thesis
    using run r m m1
    by (auto simp: acquire_unbound_def repo_save_def Let_def
        split: option.splits if_splits found.splits prod.splits)
qed

lemma acquire_pass_mirrored:
  assumes run: "acquire_pass ctx now a lock m = (out, m')" and m: "mirrored m" and inv: "lease_inv m"
  shows "mirrored m'"
  using run inv
proof (cases rule: acquire_pass_cases)
  case unbound
  then show ?thesis using acquire_unbound_mirrored m inv by blast
qed (use m in simp_all)

end

section \<open>Loading what a store lists\<close>

definition installed ::
    "(string \<times> 'x resource_scheme selection) list \<Rightarrow> (string, 'x resource_scheme selection) gomap" where
  "installed opts = fold (\<lambda>(n, f). put n f) opts [(StrategyRoundRobin, NewRoundRobin)]"

lemma fold_options:
  "fold (\<lambda>(n, f). WithStrategy n f) opts m = m\<lparr>mFactories := fold (\<lambda>(n, f). put n f) opts (mFactories m)\<rparr>"
proof (induction opts arbitrary: m)
  case (Cons opt opts)
  obtain n f where "opt = (n, f)" by fastforce
  with Cons [of "WithStrategy n f m"] show ?case by (simp add: WithStrategy_def)
qed simp

lemma loadGroups_success:
  assumes "distinct (map grpID gs)"
    and "\<And>g. g \<in> set gs \<Longrightarrow> grpID g \<noteq> [] \<and> get (mGroups m) (grpID g) = None \<and>
        get (mFactories m) (strategyName g) \<noteq> None"
  shows "\<exists>grs sts. loadGroups gs m = (None, m\<lparr>mGroups := grs, mStrategies := sts\<rparr>) \<and>
    (\<forall>gid g. get grs gid = Some g \<longleftrightarrow> get (mGroups m) gid = Some g \<or> g \<in> set gs \<and> grpID g = gid)"
  using assms
proof (induction gs arbitrary: m)
  case Nil
  then show ?case by (intro exI [of _ "mGroups m"] exI [of _ "mStrategies m"]) simp
next
  case (Cons g gs)
  obtain f where f: "get (mFactories m) (strategyName g) = Some f" using Cons.prems(2) [of g] by auto
  let ?m = "m\<lparr>mGroups := put (grpID g) g (mGroups m), mStrategies := put (grpID g) f (mStrategies m)\<rparr>"
  have new: "get (mGroups m) (grpID g) = None" "grpID g \<noteq> []" using Cons.prems(2) [of g] by simp_all
  then have adopt: "adoptGroup g m = (None, ?m)"
    using f by (auto simp: adoptGroup_None validateGroup_Inr)
  have "grpID h \<noteq> [] \<and> get (mGroups ?m) (grpID h) = None \<and>
      get (mFactories ?m) (strategyName h) \<noteq> None" if "h \<in> set gs" for h
    using that Cons.prems(1) Cons.prems(2) [of h] by (auto simp: image_iff)
  with Cons.IH [of ?m] Cons.prems(1) obtain grs sts where
    IH: "loadGroups gs ?m = (None, ?m\<lparr>mGroups := grs, mStrategies := sts\<rparr>)"
    "\<forall>gid h. get grs gid = Some h \<longleftrightarrow> get (mGroups ?m) gid = Some h \<or> h \<in> set gs \<and> grpID h = gid"
    by auto
  have "get grs gid = Some h \<longleftrightarrow> get (mGroups m) gid = Some h \<or> h \<in> set (g # gs) \<and> grpID h = gid"
    for gid h
    using IH(2) new by auto
  with IH(1) new adopt show ?case by (intro exI [of _ grs] exI [of _ sts]) simp
qed

lemma loadResource_success:
  assumes "get (mPool m) (resID p) = None" "get (mGroups m) (resGroup (normal p)) \<noteq> None"
    "UnlimitedHolders \<le> resMax p" "resOwner p \<noteq> [] \<Longrightarrow> get (mBindings m) (resOwner p) = None"
  shows "loadResource p m = (None, m\<lparr>mPool := put (resID p) (normal p) (mPool m),
    mOrder := mOrder m @ [resID p],
    mBindings := (if resOwner p = [] then mBindings m else put (resOwner p) (resID p) (mBindings m))\<rparr>)"
  using assms by (auto simp: loadResource_def normal_def Let_def validateHolderPolicy_def)

text \<open>The pool and the bindings a listing makes.\<close>

lemma loadPool_success:
  assumes "distinct (map resID ps)" "distinct (filter (\<lambda>t. t \<noteq> []) (map resOwner ps))"
    and "\<And>p. p \<in> set ps \<Longrightarrow> get (mPool m) (resID p) = None \<and>
        get (mGroups m) (resGroup (normal p)) \<noteq> None \<and> UnlimitedHolders \<le> resMax p \<and>
        (resOwner p \<noteq> [] \<longrightarrow> get (mBindings m) (resOwner p) = None)"
  shows "\<exists>pool order binds. loadPool ps m =
      (None, m\<lparr>mPool := pool, mOrder := order, mBindings := binds\<rparr>) \<and>
    (\<forall>rid q. get pool rid = Some q \<longleftrightarrow>
       get (mPool m) rid = Some q \<or> (\<exists>p \<in> set ps. resID p = rid \<and> q = normal p)) \<and>
    order = mOrder m @ map resID ps \<and>
    (\<forall>t rid. get binds t = Some rid \<longleftrightarrow>
       get (mBindings m) t = Some rid \<or> t \<noteq> [] \<and> (\<exists>p \<in> set ps. resID p = rid \<and> resOwner p = t))"
  using assms
proof (induction ps arbitrary: m)
  case Nil
  then show ?case
    by (intro exI [of _ "mPool m"] exI [of _ "mOrder m"] exI [of _ "mBindings m"]) simp
next
  case (Cons p ps)
  let ?m = "m\<lparr>mPool := put (resID p) (normal p) (mPool m), mOrder := mOrder m @ [resID p],
    mBindings := (if resOwner p = [] then mBindings m else put (resOwner p) (resID p) (mBindings m))\<rparr>"
  have new: "get (mPool m) (resID p) = None" "get (mGroups m) (resGroup (normal p)) \<noteq> None"
    "UnlimitedHolders \<le> resMax p" "resOwner p \<noteq> [] \<Longrightarrow> get (mBindings m) (resOwner p) = None"
    using Cons.prems(3) [of p] by simp_all
  from loadResource_success [OF new] have load: "loadResource p m = (None, ?m)" by simp
  have d: "distinct (map resID ps)" "distinct (filter (\<lambda>t. t \<noteq> []) (map resOwner ps))"
    using Cons.prems(1,2) by (auto split: if_splits)
  have "get (mPool ?m) (resID q) = None \<and> get (mGroups ?m) (resGroup (normal q)) \<noteq> None \<and>
      UnlimitedHolders \<le> resMax q \<and> (resOwner q \<noteq> [] \<longrightarrow> get (mBindings ?m) (resOwner q) = None)"
    if q: "q \<in> set ps" for q
  proof -
    have ids: "resID q \<noteq> resID p" using q Cons.prems(1) by (metis distinct.simps(2) image_eqI list.set_map list.simps(9))
    have owners: "resOwner q \<noteq> resOwner p" if "resOwner p \<noteq> []"
      using q Cons.prems(2) that by (auto simp: image_iff)
    show ?thesis
      using Cons.prems(3) [of q] q ids owners by (cases "resOwner p = []") simp_all
  qed
  from Cons.IH [OF d this] obtain pool order binds where
    IH: "loadPool ps ?m = (None, ?m\<lparr>mPool := pool, mOrder := order, mBindings := binds\<rparr>)"
    "\<forall>rid q. get pool rid = Some q \<longleftrightarrow>
       get (mPool ?m) rid = Some q \<or> (\<exists>p \<in> set ps. resID p = rid \<and> q = normal p)"
    "order = mOrder ?m @ map resID ps"
    "\<forall>t rid. get binds t = Some rid \<longleftrightarrow>
       get (mBindings ?m) t = Some rid \<or> t \<noteq> [] \<and> (\<exists>p \<in> set ps. resID p = rid \<and> resOwner p = t)"
    by - (drule meta_mp, assumption, elim exE conjE, rule that, assumption+)
  have "get pool rid = Some q \<longleftrightarrow>
      get (mPool m) rid = Some q \<or> (\<exists>p \<in> set (p # ps). resID p = rid \<and> q = normal p)" for rid q
    using IH(2) new(1) by auto
  moreover have "get binds t = Some rid \<longleftrightarrow>
      get (mBindings m) t = Some rid \<or> t \<noteq> [] \<and> (\<exists>p \<in> set (p # ps). resID p = rid \<and> resOwner p = t)"
    for t rid
    using IH(4) new(4) by (cases "resOwner p = []") auto
  ultimately show ?case
    using IH(1,3) load by (intro exI [of _ pool] exI [of _ order] exI [of _ binds]) simp
qed

section \<open>Restart\<close>

text \<open>What two managers agree on: groups, pool and durable locks, as maps.\<close>

definition same_durable :: "('s, 'x) manager \<Rightarrow> ('s, 'x) manager \<Rightarrow> bool" where
  "same_durable m m' \<longleftrightarrow> map_of (mGroups m') = map_of (mGroups m) \<and>
     map_of (mPool m') = map_of (mPool m) \<and> map_of (mBindings m') = map_of (mBindings m)"

lemma map_eqI: "(\<And>k v. get m k = Some v \<longleftrightarrow> get m' k = Some v) \<Longrightarrow> map_of m = map_of m'"
proof
  fix k assume "\<And>k v. get m k = Some v \<longleftrightarrow> get m' k = Some v"
  then have "\<forall>v. get m k = Some v \<longleftrightarrow> get m' k = Some v" by simp
  then show "get m k = get m' k" by (metis option.exhaust)
qed

lemma distinct_owners:
  assumes "distinct (map f ps)" "\<And>p q. p \<in> set ps \<Longrightarrow> q \<in> set ps \<Longrightarrow> g p \<noteq> [] \<Longrightarrow> g p = g q \<Longrightarrow> f p = f q"
  shows "distinct (filter (\<lambda>t. t \<noteq> []) (map g ps))"
  using assms
proof (induction ps)
  case (Cons p ps)
  have "g p \<notin> g ` set ps" if "g p \<noteq> []"
  proof
    assume "g p \<in> g ` set ps"
    then obtain q where q: "q \<in> set ps" "g p = g q" by auto
    have "f p = f q" using q that by (intro Cons.prems(2)) simp_all
    with q(1) Cons.prems(1) show False by simp
  qed
  moreover have "distinct (filter (\<lambda>t. t \<noteq> []) (map g ps))"
  proof (rule Cons.IH)
    show "distinct (map f ps)" using Cons.prems(1) by simp
    show "f p = f q" if "p \<in> set ps" "q \<in> set ps" "g p \<noteq> []" "g p = g q" for p q
      using that by (intro Cons.prems(2)) simp_all
  qed
  ultimately show ?case by simp
qed simp

context leasing_store
begin

lemma restart:
  assumes m: "mirrored m" and inv: "lease_inv m" and opts: "mFactories m = installed opts"
    and gs: "repoListGroups R (mStore m) = (Inr gs, s1)" and ps: "repoList R s1 = (Inr ps, s2)"
  shows "\<exists>m'. NewManager (Some R) opts now (mStore m) = (Inr m', s2) \<and> same_durable m m' \<and>
    mirrored m' \<and> mHolders m' = []"
proof -
  have st: "mRepo m = R" "sane (mStore m)" "grows (mStore m) = map_of (mGroups m)"
    and rows: "\<And>rid. map_option normal (rows (mStore m) rid) = get (mPool m) rid"
    using m by (simp_all add: mirrored_iff)
  from list_groups_ok [OF st(2) gs]
  have S1: "sane s1" "rows s1 = rows (mStore m)" "grows s1 = grows (mStore m)" "distinct (map grpID gs)"
    "\<And>gid g. get (mGroups m) gid = Some g \<longleftrightarrow> g \<in> set gs \<and> grpID g = gid"
    by (simp_all add: st(3))
  from list_ok [OF S1(1) ps]
  have S2: "sane s2" "rows s2 = rows (mStore m)" "grows s2 = grows (mStore m)" "distinct (map resID ps)"
    "\<And>rid p. rows (mStore m) rid = Some p \<longleftrightarrow> p \<in> set ps \<and> resID p = rid"
    by (simp_all add: S1)
  let ?m0 = "(emptyManager R (mStore m))\<lparr>mFactories := installed opts, mStore := s1\<rparr>"
  have m0: "(fold (\<lambda>(n, f). WithStrategy n f) opts (emptyManager R (mStore m)))\<lparr>mStore := s1\<rparr> = ?m0"
    by (simp add: fold_options installed_def emptyManager_def)
  have "grpID g \<noteq> [] \<and> get (mGroups ?m0) (grpID g) = None \<and>
      get (mFactories ?m0) (strategyName g) \<noteq> None" if "g \<in> set gs" for g
  proof -
    have "get (mGroups m) (grpID g) = Some g" using that by (simp add: S1(5))
    then have "grpID g \<noteq> [] \<and> get (mFactories m) (strategyName g) \<noteq> None"
      using lease_invD(3) [OF inv] unfolding inv_groups_def by blast
    then show ?thesis by (simp add: opts emptyManager_def)
  qed
  from loadGroups_success [OF S1(4) this] obtain grs sts where
    G: "loadGroups gs ?m0 = (None, ?m0\<lparr>mGroups := grs, mStrategies := sts\<rparr>)" (is "_ = (None, ?m1)")
    "\<And>gid g. get grs gid = Some g \<longleftrightarrow> g \<in> set gs \<and> grpID g = gid"
    by (auto simp: emptyManager_def)
  have groups: "map_of grs = map_of (mGroups m)" by (rule map_eqI) (simp add: G(2) S1(5))
  have glob: "ensureGlobal now ?m1 = (None, ?m1)"
    using lease_invD(3) [OF inv] by (simp add: ensureGlobal_def groups inv_groups_def)
  let ?m2 = "?m1\<lparr>mStore := s2\<rparr>"
  have row: "get (mPool m) (resID p) = Some (normal p)" if "p \<in> set ps" for p
    using rows [of "resID p"] S2(5) [of "resID p" p] that by simp
  have owners: "distinct (filter (\<lambda>t. t \<noteq> []) (map resOwner ps))"
  proof (rule distinct_owners [OF S2(4)])
    fix p q assume "p \<in> set ps" "q \<in> set ps" "resOwner p \<noteq> []" "resOwner p = resOwner q"
    then show "resID p = resID q"
      using binding_owner [OF inv, of "resOwner p" "resID p"]
        binding_owner [OF inv, of "resOwner p" "resID q"] row [of p] row [of q] by simp
  qed
  have "get (mPool ?m2) (resID p) = None \<and> get (mGroups ?m2) (resGroup (normal p)) \<noteq> None \<and>
      UnlimitedHolders \<le> resMax p \<and> (resOwner p \<noteq> [] \<longrightarrow> get (mBindings ?m2) (resOwner p) = None)"
    if "p \<in> set ps" for p
    using pool_group [OF inv row [OF that]] pool_policy [OF inv row [OF that]]
    by (simp add: groups emptyManager_def)
  from loadPool_success [OF S2(4) owners this] obtain pool order binds where
    P: "loadPool ps ?m2 = (None, ?m2\<lparr>mPool := pool, mOrder := order, mBindings := binds\<rparr>)"
      (is "_ = (None, ?m3)")
    "\<And>rid q. get pool rid = Some q \<longleftrightarrow> (\<exists>p \<in> set ps. resID p = rid \<and> q = normal p)"
    "\<And>t rid. get binds t = Some rid \<longleftrightarrow> t \<noteq> [] \<and> (\<exists>p \<in> set ps. resID p = rid \<and> resOwner p = t)"
    by (auto simp: emptyManager_def)
  have known: "get (mPool m) rid = Some q \<longleftrightarrow> (\<exists>p \<in> set ps. resID p = rid \<and> q = normal p)" for rid q
    by (subst rows [symmetric]) (auto simp: S2(5))
  have pool: "map_of pool = map_of (mPool m)" by (rule map_eqI) (simp add: P(2) known)
  have "get binds t = Some rid \<longleftrightarrow> get (mBindings m) t = Some rid" for t rid
    unfolding P(3) binding_owner [OF inv] known by auto
  then have binds: "map_of binds = map_of (mBindings m)" by (rule map_eqI)
  have "NewManager (Some R) opts now (mStore m) = (Inr ?m3, s2)"
    using gs ps G(1) glob P(1) by (simp add: NewManager_def m0)
  moreover have "same_durable m ?m3" by (simp add: same_durable_def groups pool binds)
  moreover have "mirrored ?m3"
    using S2 rows by (intro mirroredI) (simp_all add: groups pool st(3) emptyManager_def)
  moreover have "mHolders ?m3 = []" by (simp add: emptyManager_def)
  ultimately show ?thesis by blast
qed

end

text \<open>A refused update of a group is the one step that can part the manager from its store: the
  callback may have written the group's refs in place before the refusal.\<close>

definition refused_update :: "('s, 'x) sys \<Rightarrow> ('s, 'x) sys \<Rightarrow> bool" where
  "refused_update S S' \<longleftrightarrow>
     (\<exists>now gid fn e. UpdateGroup now gid fn (sysMgr S) = (Some e, sysMgr S'))"

section \<open>Booting\<close>

lemma loadGroups_result:
  assumes "loadGroups gs m = (None, m')"
  shows "get (mGroups m') gid = Some g \<longleftrightarrow>
      get (mGroups m) gid = Some g \<or> g \<in> set gs \<and> grpID g = gid"
    "mPool m' = mPool m" "mStore m' = mStore m" "mRepo m' = mRepo m"
  using assms
proof (induction gs arbitrary: m)
  case (Cons h gs)
  {
    case 1
    from 1 have new: "get (mGroups m) (grpID h) = None" by (auto split: if_splits)
    from 1 obtain m1 where m1: "adoptGroup h m = (None, m1)" "loadGroups gs m1 = (None, m')"
      by (auto split: if_splits prod.splits option.splits)
    then have "mGroups m1 = put (grpID h) h (mGroups m)" by (auto simp: adoptGroup_None)
    with Cons.IH(1) [OF m1(2)] new show ?case by auto
  next
    case 2
    then obtain m1 where m1: "adoptGroup h m = (None, m1)" "loadGroups gs m1 = (None, m')"
      by (auto split: if_splits prod.splits option.splits)
    with Cons.IH(2) [OF m1(2)] show ?case by (auto simp: adoptGroup_None)
  next
    case 3
    then obtain m1 where m1: "adoptGroup h m = (None, m1)" "loadGroups gs m1 = (None, m')"
      by (auto split: if_splits prod.splits option.splits)
    with Cons.IH(3) [OF m1(2)] show ?case by (auto simp: adoptGroup_None)
  next
    case 4
    then obtain m1 where m1: "adoptGroup h m = (None, m1)" "loadGroups gs m1 = (None, m')"
      by (auto split: if_splits prod.splits option.splits)
    with Cons.IH(4) [OF m1(2)] show ?case by (auto simp: adoptGroup_None)
  }
qed simp_all

lemma loadResource_result:
  assumes "loadResource p m = (None, m')"
  shows "get (mPool m) (resID p) = None" "mPool m' = put (resID p) (normal p) (mPool m)"
    "mGroups m' = mGroups m" "mStore m' = mStore m" "mRepo m' = mRepo m"
  using assms by (cases rule: loadResource_cases; simp add: normal_def)+

lemma loadPool_result:
  assumes "loadPool ps m = (None, m')"
  shows "(get (mPool m') rid = Some q \<longleftrightarrow>
       get (mPool m) rid = Some q \<or> (\<exists>p \<in> set ps. resID p = rid \<and> q = normal p)) \<and>
     mGroups m' = mGroups m \<and> mStore m' = mStore m \<and> mRepo m' = mRepo m"
  using assms
proof (induction ps arbitrary: m)
  case (Cons p ps)
  then obtain m1 where m1: "loadResource p m = (None, m1)" "loadPool ps m1 = (None, m')"
    by (auto split: prod.splits option.splits)
  note R = loadResource_result [OF m1(1)]
  from Cons.IH [OF m1(2)] R show ?case by auto
qed simp

context leasing_store
begin

text \<open>A manager NewManager built mirrors its store.\<close>

lemma boot_mirrored:
  assumes "NewManager (Some R) opts now s = (Inr m, s')" "sane s"
  shows "mirrored m"
  using assms(1)
proof (cases rule: NewManager_stages)
  case (1 R' m0 gs s1 m1 m2 ps s3)
  have m0: "mRepo m0 = R" "mPool m0 = []" "mGroups m0 = []"
    unfolding 1(2) fold_options using 1(1) by (simp_all add: emptyManager_def)
  from list_groups_ok [of s gs s1] assms(2) 1(1,3)
  have S1: "sane s1" "rows s1 = rows s" "grows s1 = grows s"
    "\<And>gid g. grows s gid = Some g \<longleftrightarrow> g \<in> set gs \<and> grpID g = gid" by simp_all
  note G = loadGroups_result [OF 1(4)]
  have "map_of (mGroups m1) = grows s1"
  proof
    fix gid
    have "get (mGroups m1) gid = Some g \<longleftrightarrow> grows s1 gid = Some g" for g
      by (simp add: G(1) S1(3,4) m0(3))
    then have "\<forall>g. get (mGroups m1) gid = Some g \<longleftrightarrow> grows s1 gid = Some g" by blast
    then show "get (mGroups m1) gid = grows s1 gid" by (metis option.exhaust)
  qed
  with S1 G m0 have M1: "mRepo m1 = R" "mPool m1 = []" "sane (mStore m1)"
    "grows (mStore m1) = map_of (mGroups m1)" by simp_all
  have M2: "mRepo m2 = R" "mPool m2 = []" "sane (mStore m2)" "grows (mStore m2) = map_of (mGroups m2)"
  proof -
    have "mRepo m2 = R \<and> mPool m2 = [] \<and> sane (mStore m2) \<and> grows (mStore m2) = map_of (mGroups m2)"
    proof (cases "get (mGroups m1) GlobalGroup")
      case (Some g)
      with 1(5) M1 show ?thesis by (simp add: ensureGlobal_def)
    next
      case None
      let ?g = "\<lparr>grpID = GlobalGroup, grpStrategy = StrategyRoundRobin, grpRefs = [],
                 grpCreated = now, grpUpdated = now\<rparr>"
      obtain e s2 where e: "repoSaveGroup R ?g (mStore m1) = (e, s2)" by fastforce
      with 1(5) None M1(1) have e0: "e = None" and ad: "adoptGroup ?g (m1\<lparr>mStore := s2\<rparr>) = (None, m2)"
        by (auto simp: ensureGlobal_def repo_save_group_def split: option.splits)
      from save_group_ok [OF M1(3) e [unfolded e0]] M1(4) None
      have "sane s2" "grows s2 = (map_of (mGroups m1))(GlobalGroup \<mapsto> ?g)"
        by (simp_all add: kept_group_def)
      with ad M1 show ?thesis by (auto simp: adoptGroup_None get_put_map)
    qed
    then show "mRepo m2 = R" "mPool m2 = []" "sane (mStore m2)"
      "grows (mStore m2) = map_of (mGroups m2)" by simp_all
  qed
  from list_ok [of "mStore m2" ps s3] M2(3) 1(1,6)
  have S3: "sane s3" "rows s3 = rows (mStore m2)" "grows s3 = grows (mStore m2)"
    "\<And>rid p. rows s3 rid = Some p \<longleftrightarrow> p \<in> set ps \<and> resID p = rid" by simp_all
  have P: "get (mPool m) rid = Some q \<longleftrightarrow> (\<exists>p \<in> set ps. resID p = rid \<and> q = normal p)"
    "mGroups m = mGroups m2" "mStore m = s3" "mRepo m = R" for rid q
    using loadPool_result [OF 1(7), of rid q] M2 by simp_all
  have "map_option normal (rows s3 rid) = get (mPool m) rid" for rid
  proof (cases "rows s3 rid")
    case (Some p)
    then have "get (mPool m) rid = Some (normal p)" using S3(4) by (auto simp: P(1))
    with Some show ?thesis by simp
  next
    case None
    then have "\<not> (\<exists>p \<in> set ps. resID p = rid)" using S3(4) [of rid] by auto
    then have "get (mPool m) rid \<noteq> Some q" for q by (simp add: P(1))
    with None show ?thesis by (cases "get (mPool m) rid") auto
  qed
  then show ?thesis using P(2-4) S3 M2(4) by (intro mirroredI) simp_all
qed

section \<open>The mirror over a run\<close>

lemma settle_mgr [simp]: "sysMgr (settle a lock out m S) = m"
  by (simp add: settle_def split: outcome.split)

lemma step_mirrored:
  "sys_step S S' \<Longrightarrow> lease_inv (sysMgr S) \<Longrightarrow> mirrored (sysMgr S) \<Longrightarrow>
     mirrored (sysMgr S') \<or> refused_update S S'"
proof (induction rule: sys_step.induct)
  case (update_group now gid fn S e m)
  show ?case
  proof (cases e)
    case None
    with update_group show ?thesis using UpdateGroup_mirrored by fastforce
  next
    case (Some er)
    with update_group(1) show ?thesis by (auto simp: refused_update_def)
  qed
next
  case (create_group now g S e m)
  then show ?case using CreateGroup_mirrored by simp
next
  case (delete_group gid S ts e m)
  then show ?case using DeleteGroup_mirrored by simp
next
  case (add now p S e m)
  then show ?case using Add_mirrored by simp
next
  case (update now rid f S e m)
  then show ?case using Update_mirrored by simp
next
  case (delete rid S ts e m)
  then show ?case using Delete_mirrored by simp
next
  case (unlock now t S e m)
  then show ?case using Unlock_mirrored by simp
next
  case (release_stale now a S e m)
  then show ?case using ReleaseStaleLock_mirrored by simp
next
  case (start a0 a ctx now lock S out m)
  then show ?case using acquire_pass_mirrored by simp
next
  case (wake i S w ctx now out m)
  then show ?case using acquire_pass_mirrored by simp
next
  case (let_go i S)
  then show ?case by (simp add: Release_def release_def Let_def)
qed simp

end

end
