(* ===== verification/Sqlite_Store.thy ===== *)
theory Sqlite_Store
  imports Leasing_Store
begin

text \<open>
  What the SQLite stores share (src/sqlite/sqlite.go, and the statements that proxies.go, accounts.go and
  payments.go of that directory repeat word for word but for the table): column encodings, statements
  that may fail, and the store of one leasing kind with its groups, as an implementation of the repository
  port that meets the contract of \<^theory_text>\<open>Leasing_Store\<close> for every kind whose rows read back.

  A table is a map from primary keys to rows, a statement an operation on tables. Each statement may
  fail, as the schedule of the database decides, and then changes nothing. The text forms of
  timestamps (Go's RFC 3339) and of string maps (JSON) and the check that a text is JSON are the standard
  library's: the codec of the database, of which the stores need only that reading undoes writing.
\<close>

section \<open>Column encodings\<close>

record codec =
  fmtRFC3339 :: "time \<Rightarrow> string"
  parseRFC3339 :: "string \<Rightarrow> time option"
  jsonMarshal :: "(string, string) gomap \<Rightarrow> string"
  jsonUnmarshal :: "string \<Rightarrow> (string, string) gomap option"
  jsonValid :: "string \<Rightarrow> bool"

definition codec_ok :: "codec \<Rightarrow> bool" where
  "codec_ok c \<longleftrightarrow>
     (\<forall>t. t \<noteq> 0 \<longrightarrow> fmtRFC3339 c t \<noteq> [] \<and> parseRFC3339 c (fmtRFC3339 c t) = Some t) \<and>
     (\<forall>m. m \<noteq> [] \<longrightarrow> jsonMarshal c m \<noteq> [] \<and> jsonUnmarshal c (jsonMarshal c m) = Some m)"

definition formatTime :: "codec \<Rightarrow> time \<Rightarrow> string" where
  "formatTime c t = (if t = 0 then [] else fmtRFC3339 c t)"

definition parseTime :: "codec \<Rightarrow> string \<Rightarrow> time option" where
  "parseTime c s = (if s = [] then Some 0 else parseRFC3339 c s)"

definition formatMap :: "codec \<Rightarrow> (string, string) gomap \<Rightarrow> string" where
  "formatMap c m = (if m = [] then [] else jsonMarshal c m)"

definition parseMap :: "codec \<Rightarrow> string \<Rightarrow> (string, string) gomap option" where
  "parseMap c raw = (if raw = [] then Some [] else jsonUnmarshal c raw)"

lemma parseTime_formatTime [simp]: "codec_ok c \<Longrightarrow> parseTime c (formatTime c t) = Some t"
  by (auto simp: codec_ok_def parseTime_def formatTime_def)

lemma parseMap_formatMap [simp]: "codec_ok c \<Longrightarrow> parseMap c (formatMap c m) = Some m"
  by (auto simp: codec_ok_def parseMap_def formatMap_def)

text \<open>An opaque payload: no bytes and no payload are the same.\<close>

definition formatFields :: "codec \<Rightarrow> string \<Rightarrow> string + string" where
  "formatFields c payload =
     (if payload = [] then Inr []
      else if \<not> jsonValid c payload then Inl ''fields are not valid JSON''
      else Inr payload)"

definition parseFields :: "string \<Rightarrow> string" where
  "parseFields raw = raw"

lemma parseFields_formatFields: "formatFields c payload = Inr raw \<Longrightarrow> parseFields raw = payload"
  by (auto simp: formatFields_def parseFields_def split: if_splits)

section \<open>Tables and statements\<close>

record group_row =
  growID :: string
  growStrategy :: string
  growRefs :: string
  growCreated :: string
  growUpdated :: string

text \<open>The database as the store of one kind sees it: its table of resources, its table of groups.\<close>

record 'r kdb =
  kdCodec :: codec
  kdFault :: "nat \<Rightarrow> string option"
  kdCalls :: nat
  kdRows :: "(string, 'r) gomap"
  kdGroups :: "(string, group_row) gomap"

text \<open>One statement: the schedule decides whether it fails.\<close>

definition execContext :: "('r kdb \<Rightarrow> 'r kdb) \<Rightarrow> 'r kdb \<Rightarrow> string option \<times> 'r kdb" where
  "execContext f d =
     (let d' = d\<lparr>kdCalls := Suc (kdCalls d)\<rparr>
      in case kdFault d (kdCalls d) of Some e \<Rightarrow> (Some e, d') | None \<Rightarrow> (None, f d'))"

definition queryContext :: "('r kdb \<Rightarrow> 'v list) \<Rightarrow> 'r kdb \<Rightarrow> (string + 'v list) \<times> 'r kdb" where
  "queryContext f d =
     (let d' = d\<lparr>kdCalls := Suc (kdCalls d)\<rparr>
      in case kdFault d (kdCalls d) of Some e \<Rightarrow> (Inl e, d') | None \<Rightarrow> (Inr (f d'), d'))"

text \<open>INSERT with ON CONFLICT DO UPDATE: the columns a conflict updates are the merge.\<close>

definition upsert_row :: "('r \<Rightarrow> string) \<Rightarrow> ('r \<Rightarrow> 'r \<Rightarrow> 'r) \<Rightarrow> 'r \<Rightarrow> 'r kdb \<Rightarrow> 'r kdb" where
  "upsert_row rid merge r d =
     (case get (kdRows d) (rid r) of
        None \<Rightarrow> d\<lparr>kdRows := put (rid r) r (kdRows d)\<rparr>
      | Some old \<Rightarrow> d\<lparr>kdRows := put (rid r) (merge r old) (kdRows d)\<rparr>)"

definition upsert_group :: "group_row \<Rightarrow> 'r kdb \<Rightarrow> 'r kdb" where
  "upsert_group r d =
     (case get (kdGroups d) (growID r) of
        None \<Rightarrow> d\<lparr>kdGroups := put (growID r) r (kdGroups d)\<rparr>
      | Some old \<Rightarrow>
          d\<lparr>kdGroups := put (growID r)
              (old\<lparr>growStrategy := growStrategy r, growRefs := growRefs r,
                   growUpdated := growUpdated r\<rparr>) (kdGroups d)\<rparr>)"

section \<open>The store of one kind\<close>

text \<open>Save renders the record as a row, which may fail, and upserts it.\<close>

definition kind_Save ::
    "string \<Rightarrow> ('r \<Rightarrow> string) \<Rightarrow> (codec \<Rightarrow> 'x resource_scheme \<Rightarrow> string + 'r) \<Rightarrow> ('r \<Rightarrow> 'r \<Rightarrow> 'r)
      \<Rightarrow> 'x resource_scheme \<Rightarrow> 'r kdb \<Rightarrow> repoerr option \<times> 'r kdb" where
  "kind_Save noun rid encode merge p d =
     (case encode (kdCodec d) p of
        Inl e \<Rightarrow> (Some (''save '' @ noun @ '' '' @ resID p @ '': '' @ e), d)
      | Inr r \<Rightarrow>
     (case execContext (upsert_row rid merge r) d of
        (Some e, d') \<Rightarrow> (Some (''save '' @ noun @ '' '' @ resID p @ '': '' @ e), d')
      | (None, d') \<Rightarrow> (None, d')))"

definition kind_Delete :: "string \<Rightarrow> string \<Rightarrow> 'r kdb \<Rightarrow> repoerr option \<times> 'r kdb" where
  "kind_Delete noun i d =
     (case execContext (\<lambda>d. d\<lparr>kdRows := del i (kdRows d)\<rparr>) d of
        (Some e, d') \<Rightarrow> (Some (''delete '' @ noun @ '' '' @ i @ '': '' @ e), d')
      | (None, d') \<Rightarrow> (None, d'))"

text \<open>The loop over the rows of a listing stops at the first that does not read back.\<close>

fun scan_all :: "('r \<Rightarrow> 'v option) \<Rightarrow> string \<Rightarrow> 'r list \<Rightarrow> string + 'v list" where
  "scan_all scan err [] = Inr []"
| "scan_all scan err (r # rs) =
     (case scan r of
        None \<Rightarrow> Inl err
      | Some v \<Rightarrow> (case scan_all scan err rs of Inl e \<Rightarrow> Inl e | Inr vs \<Rightarrow> Inr (v # vs)))"

definition kind_List ::
    "string \<Rightarrow> ('r \<Rightarrow> string) \<Rightarrow> (codec \<Rightarrow> 'r \<Rightarrow> 'v option) \<Rightarrow> 'r kdb \<Rightarrow> (repoerr + 'v list) \<times> 'r kdb" where
  "kind_List plural rid scan d =
     (case queryContext (\<lambda>d. sort_key rid (map snd (kdRows d))) d of
        (Inl e, d') \<Rightarrow> (Inl (''list '' @ plural @ '': '' @ e), d')
      | (Inr rows, d') \<Rightarrow> (scan_all (scan (kdCodec d)) (''list '' @ plural) rows, d'))"

definition group_row_of :: "codec \<Rightarrow> group \<Rightarrow> group_row" where
  "group_row_of c g =
     \<lparr>growID = grpID g, growStrategy = grpStrategy g, growRefs = formatMap c (grpRefs g),
      growCreated = formatTime c (grpCreated g), growUpdated = formatTime c (grpUpdated g)\<rparr>"

definition kind_SaveGroup :: "string \<Rightarrow> group \<Rightarrow> 'r kdb \<Rightarrow> repoerr option \<times> 'r kdb" where
  "kind_SaveGroup noun g d =
     (case execContext (upsert_group (group_row_of (kdCodec d) g)) d of
        (Some e, d') \<Rightarrow> (Some (''save '' @ noun @ '' group '' @ grpID g @ '': '' @ e), d')
      | (None, d') \<Rightarrow> (None, d'))"

definition kind_DeleteGroup :: "string \<Rightarrow> string \<Rightarrow> 'r kdb \<Rightarrow> repoerr option \<times> 'r kdb" where
  "kind_DeleteGroup noun gid d =
     (case execContext (\<lambda>d. d\<lparr>kdGroups := del gid (kdGroups d)\<rparr>) d of
        (Some e, d') \<Rightarrow> (Some (''delete '' @ noun @ '' group '' @ gid @ '': '' @ e), d')
      | (None, d') \<Rightarrow> (None, d'))"

definition scan_group :: "codec \<Rightarrow> group_row \<Rightarrow> group option" where
  "scan_group c r =
     (case parseMap c (growRefs r) of
        None \<Rightarrow> None
      | Some refs \<Rightarrow>
     (case parseTime c (growCreated r) of
        None \<Rightarrow> None
      | Some created \<Rightarrow>
     (case parseTime c (growUpdated r) of
        None \<Rightarrow> None
      | Some updated \<Rightarrow>
          Some \<lparr>grpID = growID r, grpStrategy = growStrategy r, grpRefs = refs,
                grpCreated = created, grpUpdated = updated\<rparr>)))"

definition kind_ListGroups :: "string \<Rightarrow> 'r kdb \<Rightarrow> (repoerr + group list) \<times> 'r kdb" where
  "kind_ListGroups noun d =
     (case queryContext (\<lambda>d. sort_key growID (map snd (kdGroups d))) d of
        (Inl e, d') \<Rightarrow> (Inl (''list '' @ noun @ '' groups: '' @ e), d')
      | (Inr rows, d') \<Rightarrow> (scan_all (scan_group (kdCodec d)) (''list '' @ noun @ '' groups'') rows, d'))"

text \<open>The repository of a kind.\<close>

definition sqliteKind ::
    "string \<Rightarrow> string \<Rightarrow> ('r \<Rightarrow> string) \<Rightarrow> (codec \<Rightarrow> 'x resource_scheme \<Rightarrow> string + 'r) \<Rightarrow> ('r \<Rightarrow> 'r \<Rightarrow> 'r)
      \<Rightarrow> (codec \<Rightarrow> 'r \<Rightarrow> 'x resource_scheme option) \<Rightarrow> ('r kdb, 'x) repository" where
  "sqliteKind noun plural rid encode merge scan =
     \<lparr>repoList = kind_List plural rid scan, repoSave = kind_Save noun rid encode merge,
      repoDelete = kind_Delete noun, repoListGroups = kind_ListGroups noun,
      repoSaveGroup = kind_SaveGroup noun, repoDeleteGroup = kind_DeleteGroup noun\<rparr>"

section \<open>The contract\<close>

definition kd_sane :: "('r \<Rightarrow> string) \<Rightarrow> (codec \<Rightarrow> 'r \<Rightarrow> 'v option) \<Rightarrow> 'r kdb \<Rightarrow> bool" where
  "kd_sane rid scan d \<longleftrightarrow> codec_ok (kdCodec d) \<and> wf_map (kdRows d) \<and> wf_map (kdGroups d) \<and>
     (\<forall>k r. get (kdRows d) k = Some r \<longrightarrow> rid r = k \<and> scan (kdCodec d) r \<noteq> None) \<and>
     (\<forall>k r. get (kdGroups d) k = Some r \<longrightarrow> growID r = k \<and> scan_group (kdCodec d) r \<noteq> None)"

definition kd_rows :: "(codec \<Rightarrow> 'r \<Rightarrow> 'v option) \<Rightarrow> 'r kdb \<Rightarrow> string \<Rightarrow> 'v option" where
  "kd_rows scan d i = Option.bind (get (kdRows d) i) (scan (kdCodec d))"

definition kd_grows :: "'r kdb \<Rightarrow> string \<Rightarrow> group option" where
  "kd_grows d gid = Option.bind (get (kdGroups d) gid) (scan_group (kdCodec d))"

lemma kd_tick [simp]:
  "kd_sane rid scan (d\<lparr>kdCalls := n\<rparr>) = kd_sane rid scan d" "kd_rows scan (d\<lparr>kdCalls := n\<rparr>) = kd_rows scan d"
  "kd_grows (d\<lparr>kdCalls := n\<rparr>) = kd_grows d"
  by (simp_all add: kd_sane_def kd_rows_def kd_grows_def fun_eq_iff)

lemma execContext_cases:
  assumes "execContext f d = (r, d')"
  obtains (failed) e where "r = Some e" "d' = d\<lparr>kdCalls := Suc (kdCalls d)\<rparr>"
  | (ran) "r = None" "d' = f (d\<lparr>kdCalls := Suc (kdCalls d)\<rparr>)"
proof (cases "kdFault d (kdCalls d)")
  case None
  with assms show thesis by (intro ran) (auto simp: execContext_def Let_def)
next
  case (Some e)
  with assms show thesis by (intro failed [of e]) (auto simp: execContext_def Let_def)
qed

lemma scan_group_row [simp]: "codec_ok c \<Longrightarrow> scan_group c (group_row_of c g) = Some g"
  by (cases g) (simp add: scan_group_def group_row_of_def)

lemma scan_group_created:
  "scan_group c r = Some h \<Longrightarrow> parseTime c (growCreated r) = Some (grpCreated h) \<and> growID r = grpID h"
  by (auto simp: scan_group_def split: option.splits)

lemma upsert_group_sane:
  assumes sane: "kd_sane rid scan d" and d': "d' = upsert_group (group_row_of (kdCodec d) g) d"
  shows "kd_sane rid scan d' \<and> kd_rows scan d' = kd_rows scan d \<and>
    kd_grows d' = (kd_grows d)(grpID g \<mapsto> kept_group (kd_grows d (grpID g)) g)"
proof -
  let ?c = "kdCodec d" and ?r = "group_row_of (kdCodec d) g"
  have c: "codec_ok ?c" and gid: "growID ?r = grpID g"
    using sane by (simp_all add: kd_sane_def group_row_of_def)
  show ?thesis
  proof (cases "get (kdGroups d) (grpID g)")
    case None
    then have "kd_grows d (grpID g) = None" by (simp add: kd_grows_def)
    then have "kept_group (kd_grows d (grpID g)) g = g" by (simp add: kept_group_def)
    then show ?thesis
      using sane c None gid unfolding d' upsert_group_def
      by (simp add: kd_sane_def kd_rows_def kd_grows_def fun_eq_iff)
  next
    case (Some old)
    let ?m = "old\<lparr>growStrategy := growStrategy ?r, growRefs := growRefs ?r, growUpdated := growUpdated ?r\<rparr>"
    obtain h where h: "scan_group ?c old = Some h" and oid: "growID old = grpID g"
      using sane Some unfolding kd_sane_def by blast
    have "scan_group ?c ?m = Some (g\<lparr>grpCreated := grpCreated h\<rparr>)"
      using scan_group_created [OF h] c oid
      by (cases g) (simp add: scan_group_def group_row_of_def)
    moreover have "kept_group (kd_grows d (grpID g)) g = g\<lparr>grpCreated := grpCreated h\<rparr>"
      using Some h by (simp add: kd_grows_def kept_group_def)
    ultimately show ?thesis
      using sane c Some gid oid unfolding d' upsert_group_def
      by (simp add: kd_sane_def kd_rows_def kd_grows_def fun_eq_iff)
  qed
qed

lemma delete_sane:
  assumes "kd_sane rid scan d"
  shows "kd_sane rid scan (d\<lparr>kdRows := del i (kdRows d)\<rparr>)"
    "kd_rows scan (d\<lparr>kdRows := del i (kdRows d)\<rparr>) = (kd_rows scan d)(i := None)"
    "kd_grows (d\<lparr>kdRows := del i (kdRows d)\<rparr>) = kd_grows d"
    "kd_sane rid scan (d\<lparr>kdGroups := del i (kdGroups d)\<rparr>)"
    "kd_rows scan (d\<lparr>kdGroups := del i (kdGroups d)\<rparr>) = kd_rows scan d"
    "kd_grows (d\<lparr>kdGroups := del i (kdGroups d)\<rparr>) = (kd_grows d)(i := None)"
  using assms by (simp_all add: kd_sane_def kd_rows_def kd_grows_def fun_eq_iff)

text \<open>A listing reads every row, once, in the order of the keys.\<close>

lemma scan_all_Inr: "scan_all scan err rs = Inr vs \<longleftrightarrow> map scan rs = map Some vs"
proof (induction rs arbitrary: vs)
  case (Cons r rs)
  show ?case
  proof (cases "scan r")
    case None
    then show ?thesis by (cases vs) simp_all
  next
    case (Some v)
    show ?thesis
    proof (cases vs)
      case Nil
      then show ?thesis by (simp add: Some split: sum.split)
    next
      case (Cons w ws)
      have "scan_all scan err (r # rs) = Inr vs \<longleftrightarrow> v = w \<and> scan_all scan err rs = Inr ws"
        by (cases "scan_all scan err rs") (auto simp: Some Cons)
      then show ?thesis by (simp add: Some Cons Cons.IH)
    qed
  qed
qed auto

lemma scan_all_total: "\<forall>r \<in> set rs. scan r \<noteq> None \<Longrightarrow> \<exists>vs. scan_all scan err rs = Inr vs"
  by (induction rs) auto

lemma scanned_table:
  assumes wf: "wf_map t" and key: "\<And>k r. get t k = Some r \<Longrightarrow> rid r = k"
    and read: "\<And>r v. scan r = Some v \<Longrightarrow> vid v = rid r"
    and all: "scan_all scan err (sort_key rid (map snd t)) = Inr vs"
  shows "distinct (map vid vs) \<and>
    (\<forall>k v. Option.bind (get t k) scan = Some v \<longleftrightarrow> v \<in> set vs \<and> vid v = k)"
proof -
  let ?rs = "sort_key rid (map snd t)"
  have vs: "map scan ?rs = map Some vs" using all by (simp add: scan_all_Inr)
  have entry: "rid r = k" if "(k, r) \<in> set t" for k r
    using key [of k r] get_in_set [OF wf, of k r] that by simp
  have keys: "map rid (map snd t) = map fst t"
    unfolding map_map by (rule map_cong [OF refl]) (auto simp: entry)
  have ids: "map vid vs = map rid ?rs"
  proof -
    have vids: "map (\<lambda>r. map_option vid (scan r)) ?rs = map (\<lambda>v. Some (vid v)) vs"
      using arg_cong [OF vs, of "map (map_option vid)"] by (simp add: comp_def)
    have one: "map_option vid (scan r) = Some (rid r)" if "r \<in> set ?rs" for r
    proof -
      have "scan r \<in> set (map Some vs)" using that unfolding vs [symmetric] by simp
      then obtain v where "scan r = Some v" by auto
      with read show ?thesis by simp
    qed
    have "map (\<lambda>r. map_option vid (scan r)) ?rs = map (\<lambda>r. Some (rid r)) ?rs"
      by (rule map_cong [OF refl one])
    with vids have "map (\<lambda>r. Some (rid r)) ?rs = map (\<lambda>v. Some (vid v)) vs" by simp
    then have "map Some (map rid ?rs) = map Some (map vid vs)" by (simp add: comp_def)
    then show ?thesis by (simp only: inj_map_eq_map [OF inj_Some])
  qed
  have dist: "distinct (map rid ?rs)"
  proof -
    have "distinct (map rid (map snd t))" using wf by (simp only: keys)
    then show ?thesis by (simp only: distinct_map distinct_sort set_sort)
  qed
  have "Option.bind (get t k) scan = Some v \<longleftrightarrow> v \<in> set vs \<and> vid v = k" for k v
  proof
    assume "Option.bind (get t k) scan = Some v"
    then obtain r where r: "get t k = Some r" "scan r = Some v" by (cases "get t k") auto
    then have "r \<in> set ?rs" using get_in_set [OF wf, of k r] by force
    then have "Some v \<in> set (map scan ?rs)" using r(2) by (metis image_eqI list.set_map)
    then have "v \<in> set vs" unfolding vs by auto
    with r key [of k r] read [of r v] show "v \<in> set vs \<and> vid v = k" by simp
  next
    assume v: "v \<in> set vs \<and> vid v = k"
    then have "Some v \<in> set (map scan ?rs)" unfolding vs by simp
    then have "Some v \<in> scan ` set (map snd t)" by (simp only: set_map set_sort)
    then obtain r where r: "r \<in> set (map snd t)" "scan r = Some v" by (metis imageE)
    then obtain k' where k': "get t k' = Some r" using get_in_set [OF wf] by fastforce
    with key [of k' r] read [of r v] r(2) v have "k' = k" by simp
    with k' r(2) show "Option.bind (get t k) scan = Some v" by simp
  qed
  with dist ids show ?thesis by simp
qed

text \<open>What a kind owes: its rows keep the id, read back as written, and an upsert over an old row leaves its
  creation time.\<close>

locale sql_kind =
  fixes noun :: string
    and plural :: string
    and rid :: "'r \<Rightarrow> string"
    and encode :: "codec \<Rightarrow> 'x resource_scheme \<Rightarrow> string + 'r"
    and merge :: "'r \<Rightarrow> 'r \<Rightarrow> 'r"
    and scan :: "codec \<Rightarrow> 'r \<Rightarrow> 'x resource_scheme option"
  assumes encode_id: "encode c p = Inr r \<Longrightarrow> rid r = resID p"
    and merge_id: "rid (merge r old) = rid old"
    and scan_id: "scan c r = Some p \<Longrightarrow> resID p = rid r"
    and scan_encode: "codec_ok c \<Longrightarrow> encode c p = Inr r \<Longrightarrow> scan c r = Some p"
    and scan_merge: "codec_ok c \<Longrightarrow> encode c p = Inr r \<Longrightarrow> scan c old = Some q \<Longrightarrow> resID q = resID p \<Longrightarrow>
      scan c (merge r old) = Some (p\<lparr>resCreated := resCreated q\<rparr>)"
begin

lemma upsert_row_sane:
  assumes sane: "kd_sane rid scan d" and r: "encode (kdCodec d) p = Inr r" and d': "d' = upsert_row rid merge r d"
  shows "kd_sane rid scan d' \<and> kd_rows scan d' = (kd_rows scan d)(resID p \<mapsto> kept_created (kd_rows scan d (resID p)) p)
    \<and> kd_grows d' = kd_grows d"
proof -
  let ?c = "kdCodec d"
  have c: "codec_ok ?c" using sane by (simp add: kd_sane_def)
  have i: "rid r = resID p" using encode_id [OF r] .
  show ?thesis
  proof (cases "get (kdRows d) (resID p)")
    case None
    then have "kd_rows scan d (resID p) = None" by (simp add: kd_rows_def)
    then have "kept_created (kd_rows scan d (resID p)) p = p" by (simp add: kept_created_def)
    then show ?thesis
      using sane None i scan_encode [OF c r] unfolding d' upsert_row_def
      by (simp add: kd_sane_def kd_rows_def kd_grows_def fun_eq_iff)
  next
    case (Some old)
    obtain q where q: "scan ?c old = Some q" and oid: "rid old = resID p"
      using sane Some unfolding kd_sane_def by blast
    have "scan ?c (merge r old) = Some (p\<lparr>resCreated := resCreated q\<rparr>)"
      using scan_merge [OF c r q] scan_id [OF q] oid by simp
    moreover have "kept_created (kd_rows scan d (resID p)) p = p\<lparr>resCreated := resCreated q\<rparr>"
      using Some q by (simp add: kd_rows_def kept_created_def)
    ultimately show ?thesis
      using sane Some i oid merge_id [of r old] unfolding d' upsert_row_def
      by (simp add: kd_sane_def kd_rows_def kd_grows_def fun_eq_iff)
  qed
qed

end

text \<open>Any such kind meets the contract of the leasing manager's stores.\<close>

sublocale sql_kind \<subseteq> leasing_store "sqliteKind noun plural rid encode merge scan" "kd_rows scan" kd_grows "kd_sane rid scan"
proof unfold_locales
  fix s s' :: "'r kdb" and p :: "'x resource_scheme" and e i g gid ps gs
  note sqliteKind_def [simp]
  show "kd_sane rid scan s' \<and> kd_rows scan s' = (kd_rows scan s)(resID p \<mapsto> kept_created (kd_rows scan s (resID p)) p)
      \<and> kd_grows s' = kd_grows s"
    if sane: "kd_sane rid scan s" and run: "repoSave (sqliteKind noun plural rid encode merge scan) p s = (None, s')"
  proof -
    obtain r where r: "encode (kdCodec s) p = Inr r" using run by (auto simp: kind_Save_def split: sum.splits)
    obtain x d where x: "execContext (upsert_row rid merge r) s = (x, d)" by fastforce
    with run r have "x = None" "s' = d" by (auto simp: kind_Save_def split: option.splits)
    with x have "s' = upsert_row rid merge r (s\<lparr>kdCalls := Suc (kdCalls s)\<rparr>)"
      by (auto elim: execContext_cases)
    then show ?thesis
      using upsert_row_sane [of "s\<lparr>kdCalls := Suc (kdCalls s)\<rparr>" p r s'] sane r by simp
  qed
  show "kd_sane rid scan s' \<and> kd_rows scan s' = kd_rows scan s \<and> kd_grows s' = kd_grows s"
    if "kd_sane rid scan s" "repoSave (sqliteKind noun plural rid encode merge scan) p s = (Some e, s')"
    using that by (auto simp: kind_Save_def execContext_def Let_def split: option.splits sum.splits)
  show "kd_sane rid scan s' \<and> kd_rows scan s' = (kd_rows scan s)(i := None) \<and> kd_grows s' = kd_grows s"
    if "kd_sane rid scan s" "repoDelete (sqliteKind noun plural rid encode merge scan) i s = (None, s')"
    using that delete_sane [of rid scan "s\<lparr>kdCalls := Suc (kdCalls s)\<rparr>" i]
    by (auto simp: kind_Delete_def execContext_def Let_def split: option.splits)
  show "kd_sane rid scan s' \<and> kd_rows scan s' = kd_rows scan s \<and> kd_grows s' = kd_grows s"
    if "kd_sane rid scan s" "repoDelete (sqliteKind noun plural rid encode merge scan) i s = (Some e, s')"
    using that by (auto simp: kind_Delete_def execContext_def Let_def split: option.splits)
  show "kd_sane rid scan s' \<and> kd_rows scan s' = kd_rows scan s \<and>
      kd_grows s' = (kd_grows s)(grpID g \<mapsto> kept_group (kd_grows s (grpID g)) g)"
    if sane: "kd_sane rid scan s" and run: "repoSaveGroup (sqliteKind noun plural rid encode merge scan) g s = (None, s')"
  proof -
    obtain x d where x: "execContext (upsert_group (group_row_of (kdCodec s) g)) s = (x, d)" by fastforce
    with run have "x = None" "s' = d" by (auto simp: kind_SaveGroup_def split: option.splits)
    with x have "s' = upsert_group (group_row_of (kdCodec s) g) (s\<lparr>kdCalls := Suc (kdCalls s)\<rparr>)"
      by (auto elim: execContext_cases)
    then show ?thesis
      using upsert_group_sane [of rid scan "s\<lparr>kdCalls := Suc (kdCalls s)\<rparr>" s' g] sane by simp
  qed
  show "kd_sane rid scan s' \<and> kd_rows scan s' = kd_rows scan s \<and> kd_grows s' = kd_grows s"
    if "kd_sane rid scan s" "repoSaveGroup (sqliteKind noun plural rid encode merge scan) g s = (Some e, s')"
    using that by (auto simp: kind_SaveGroup_def execContext_def Let_def split: option.splits)
  show "kd_sane rid scan s' \<and> kd_rows scan s' = kd_rows scan s \<and> kd_grows s' = (kd_grows s)(gid := None)"
    if "kd_sane rid scan s" "repoDeleteGroup (sqliteKind noun plural rid encode merge scan) gid s = (None, s')"
    using that delete_sane [of rid scan "s\<lparr>kdCalls := Suc (kdCalls s)\<rparr>" gid]
    by (auto simp: kind_DeleteGroup_def execContext_def Let_def split: option.splits)
  show "kd_sane rid scan s' \<and> kd_rows scan s' = kd_rows scan s \<and> kd_grows s' = kd_grows s"
    if "kd_sane rid scan s" "repoDeleteGroup (sqliteKind noun plural rid encode merge scan) gid s = (Some e, s')"
    using that by (auto simp: kind_DeleteGroup_def execContext_def Let_def split: option.splits)
  show "kd_sane rid scan s' \<and> kd_rows scan s' = kd_rows scan s \<and> kd_grows s' = kd_grows s \<and> distinct (map resID ps) \<and>
      (\<forall>i p. kd_rows scan s i = Some p \<longleftrightarrow> p \<in> set ps \<and> resID p = i)"
    if sane: "kd_sane rid scan s" and run: "repoList (sqliteKind noun plural rid encode merge scan) s = (Inr ps, s')"
  proof -
    have s': "s' = s\<lparr>kdCalls := Suc (kdCalls s)\<rparr>"
      and all: "scan_all (scan (kdCodec s)) (''list '' @ plural) (sort_key rid (map snd (kdRows s))) = Inr ps"
      using run by (auto simp: kind_List_def queryContext_def Let_def split: option.splits)
    have "distinct (map resID ps) \<and> (\<forall>k v. Option.bind (get (kdRows s) k) (scan (kdCodec s)) = Some v
        \<longleftrightarrow> v \<in> set ps \<and> resID v = k)"
      using sane by (intro scanned_table [OF _ _ _ all]) (auto simp: kd_sane_def dest: scan_id)
    with sane show ?thesis by (simp add: s' kd_rows_def)
  qed
  show "kd_sane rid scan s' \<and> kd_rows scan s' = kd_rows scan s \<and> kd_grows s' = kd_grows s \<and> distinct (map grpID gs) \<and>
      (\<forall>gid g. kd_grows s gid = Some g \<longleftrightarrow> g \<in> set gs \<and> grpID g = gid)"
    if sane: "kd_sane rid scan s" and run: "repoListGroups (sqliteKind noun plural rid encode merge scan) s = (Inr gs, s')"
  proof -
    have s': "s' = s\<lparr>kdCalls := Suc (kdCalls s)\<rparr>"
      and all: "scan_all (scan_group (kdCodec s)) (''list '' @ noun @ '' groups'') (sort_key growID (map snd (kdGroups s))) = Inr gs"
      using run by (auto simp: kind_ListGroups_def queryContext_def Let_def split: option.splits)
    have "distinct (map grpID gs) \<and> (\<forall>k v. Option.bind (get (kdGroups s) k) (scan_group (kdCodec s)) = Some v
        \<longleftrightarrow> v \<in> set gs \<and> grpID v = k)"
      using sane by (intro scanned_table [OF _ _ _ all]) (auto simp: kd_sane_def dest: scan_group_created)
    with sane show ?thesis by (simp add: s' kd_grows_def)
  qed
qed

text \<open>A codec that writes a value as the unary numeral of its number in an enumeration of all values.\<close>

definition demo_codec :: codec where
  "demo_codec =
     \<lparr>fmtRFC3339 = (\<lambda>t. replicate (Suc (to_nat t)) CHR ''1''),
      parseRFC3339 = (\<lambda>s. Some (from_nat (length s - 1))),
      jsonMarshal = (\<lambda>m. replicate (Suc (to_nat m)) CHR ''1''),
      jsonUnmarshal = (\<lambda>s. Some (from_nat (length s - 1))),
      jsonValid = (\<lambda>s. s \<noteq> ''{'')\<rparr>"

lemma demo_codec_ok: "codec_ok demo_codec"
  by (simp add: codec_ok_def demo_codec_def)

end
