(* ===== verification/Sqlite_Proxies.thy ===== *)
theory Sqlite_Proxies
  imports Proxies Sqlite_Store
begin

text \<open>
  The SQLite store of proxies and their groups (src/sqlite/proxies.go): its rows, and the statements of
  \<^theory_text>\<open>Sqlite_Store\<close> over them. With it, the manager and its store stay in step and a restart recovers
  what was durable.
\<close>

section \<open>The rows\<close>

record proxy_row =
  rowID :: string
  rowURL :: string
  rowGroup :: string
  rowOwner :: string
  rowMax :: int
  rowSuccesses :: "64 word"
  rowFailures :: "64 word"
  rowCreated :: string
  rowUpdated :: string

type_synonym db = "proxy_row kdb"

definition proxy_row_of :: "codec \<Rightarrow> proxy \<Rightarrow> proxy_row" where
  "proxy_row_of c p =
     \<lparr>rowID = resID p, rowURL = pxURL p, rowGroup = resGroup p, rowOwner = resOwner p,
      rowMax = resMax p, rowSuccesses = pxSuccesses p, rowFailures = pxFailures p,
      rowCreated = formatTime c (resCreated p), rowUpdated = formatTime c (resUpdated p)\<rparr>"

text \<open>A conflict updates every column but the key and the creation time.\<close>

definition merge_proxy :: "proxy_row \<Rightarrow> proxy_row \<Rightarrow> proxy_row" where
  "merge_proxy r old =
     old\<lparr>rowURL := rowURL r, rowGroup := rowGroup r, rowOwner := rowOwner r, rowMax := rowMax r,
         rowSuccesses := rowSuccesses r, rowFailures := rowFailures r, rowUpdated := rowUpdated r\<rparr>"

definition scan_proxy :: "codec \<Rightarrow> proxy_row \<Rightarrow> proxy option" where
  "scan_proxy c r =
     (case parseTime c (rowCreated r) of
        None \<Rightarrow> None
      | Some created \<Rightarrow>
     (case parseTime c (rowUpdated r) of
        None \<Rightarrow> None
      | Some updated \<Rightarrow>
          Some \<lparr>resID = rowID r, resGroup = rowGroup r, resOwner = rowOwner r, resMax = rowMax r,
                resCreated = created, resUpdated = updated, pxURL = rowURL r,
                pxSuccesses = rowSuccesses r, pxFailures = rowFailures r\<rparr>))"

section \<open>The statements\<close>

abbreviation encode_proxy :: "codec \<Rightarrow> proxy \<Rightarrow> string + proxy_row" where
  "encode_proxy c p \<equiv> Inr (proxy_row_of c p)"

definition proxies_Save :: "proxy \<Rightarrow> db \<Rightarrow> repoerr option \<times> db" where
  "proxies_Save = kind_Save ''proxy'' rowID encode_proxy merge_proxy"

definition proxies_Delete :: "string \<Rightarrow> db \<Rightarrow> repoerr option \<times> db" where
  "proxies_Delete = kind_Delete ''proxy''"

definition proxies_List :: "db \<Rightarrow> (repoerr + proxy list) \<times> db" where
  "proxies_List = kind_List ''proxies'' rowID scan_proxy"

definition proxies_SaveGroup :: "group \<Rightarrow> db \<Rightarrow> repoerr option \<times> db" where
  "proxies_SaveGroup = kind_SaveGroup ''proxy''"

definition proxies_DeleteGroup :: "string \<Rightarrow> db \<Rightarrow> repoerr option \<times> db" where
  "proxies_DeleteGroup = kind_DeleteGroup ''proxy''"

definition proxies_ListGroups :: "db \<Rightarrow> (repoerr + group list) \<times> db" where
  "proxies_ListGroups = kind_ListGroups ''proxy''"

definition sqliteProxies :: "(db, unit proxy_ext) repository" where
  "sqliteProxies =
     \<lparr>repoList = proxies_List, repoSave = proxies_Save, repoDelete = proxies_Delete,
      repoListGroups = proxies_ListGroups, repoSaveGroup = proxies_SaveGroup,
      repoDeleteGroup = proxies_DeleteGroup\<rparr>"

section \<open>The contract\<close>

abbreviation db_sane :: "db \<Rightarrow> bool" where "db_sane \<equiv> kd_sane rowID scan_proxy"
abbreviation db_rows :: "db \<Rightarrow> string \<Rightarrow> proxy option" where "db_rows \<equiv> kd_rows scan_proxy"
abbreviation db_grows :: "db \<Rightarrow> string \<Rightarrow> group option" where "db_grows \<equiv> kd_grows"

lemma scan_proxy_row [simp]: "codec_ok c \<Longrightarrow> scan_proxy c (proxy_row_of c p) = Some p"
  by (cases p) (simp add: scan_proxy_def proxy_row_of_def)

lemma proxy_row_id [simp]: "rowID (proxy_row_of c p) = resID p"
  by (simp add: proxy_row_of_def)

lemma scan_proxy_created:
  "scan_proxy c r = Some q \<Longrightarrow> parseTime c (rowCreated r) = Some (resCreated q) \<and> rowID r = resID q"
  by (auto simp: scan_proxy_def split: option.splits)

interpretation pxk: sql_kind "''proxy''" "''proxies''" rowID encode_proxy merge_proxy scan_proxy
proof unfold_locales
  fix c and p q :: proxy and r old
  assume "codec_ok c" "encode_proxy c p = Inr r" "scan_proxy c old = Some q" "resID q = resID p"
  then show "scan_proxy c (merge_proxy r old) = Some (p\<lparr>resCreated := resCreated q\<rparr>)"
    using scan_proxy_created [of c old q]
    by (cases p) (auto simp: scan_proxy_def proxy_row_of_def merge_proxy_def)
qed (auto simp: merge_proxy_def dest: scan_proxy_created)

interpretation px: leasing_store sqliteProxies db_rows db_grows db_sane
proof -
  have "sqliteProxies = sqliteKind ''proxy'' ''proxies'' rowID encode_proxy merge_proxy scan_proxy"
    by (simp add: sqliteProxies_def sqliteKind_def proxies_Save_def proxies_Delete_def proxies_List_def
        proxies_SaveGroup_def proxies_DeleteGroup_def proxies_ListGroups_def)
  then show "leasing_store sqliteProxies db_rows db_grows db_sane" using pxk.leasing_store_axioms by simp
qed

section \<open>Properties of a proxy manager on its store\<close>

text \<open>A database with one proxy, and the manager booted on it.\<close>

definition demo_db :: "nat \<Rightarrow> db" where
  "demo_db n =
     \<lparr>kdCodec = demo_codec, kdFault = (\<lambda>_. None), kdCalls = n,
      kdRows = [(''x'', proxy_row_of demo_codec (demo_proxy ''x'' 7))],
      kdGroups = [(GlobalGroup, group_row_of demo_codec demo_group)]\<rparr>"

lemma demo_db_sane: "db_sane (demo_db n)"
  by (simp add: kd_sane_def demo_db_def demo_codec_ok)
    (simp add: proxy_row_of_def group_row_of_def demo_proxy_def demo_group_def)

lemma demo_db_lists:
  "repoList sqliteProxies (demo_db n) = (Inr [demo_proxy ''x'' 7], demo_db (Suc n))"
  "repoListGroups sqliteProxies (demo_db n) = (Inr [demo_group], demo_db (Suc n))"
  by (simp_all add: sqliteProxies_def proxies_List_def proxies_ListGroups_def kind_List_def kind_ListGroups_def queryContext_def
      demo_db_def demo_codec_ok Let_def)

definition demo_pm :: "(db, unit proxy_ext) manager" where
  "demo_pm = (emptyManager sqliteProxies (demo_db 0))\<lparr>mStore := demo_db 2,
     mGroups := [(GlobalGroup, demo_group)], mStrategies := [(GlobalGroup, NewRoundRobin)],
     mPool := [(''x'', demo_proxy ''x'' 7)], mOrder := [''x'']\<rparr>"

lemma demo_boot: "NewManager (Some sqliteProxies) [] 5 (demo_db 0) = (Inr demo_pm, demo_db 2)"
  by (simp add: NewManager_def demo_db_lists adoptGroup_def validateGroup_def emptyManager_def
      ensureGlobal_def loadResource_def validateHolderPolicy_def UnlimitedHolders_def demo_pm_def
      demo_group_def demo_proxy_def numeral_2_eq_2)

lemma demo_pm_facts: "lease_inv demo_pm" "px.mirrored demo_pm" "mStore demo_pm = demo_db 2"
  "mRepo demo_pm = sqliteProxies" "mFactories demo_pm = installed []"
  using NewManager_inv [OF demo_boot] px.boot_mirrored [OF demo_boot demo_db_sane]
  by (simp_all add: demo_pm_def emptyManager_def installed_def)



text \<open>A restart recovers everything durable: NewManager on the store of a manager that mirrors it,
  with the same strategies installed, succeeds when its two listings do, and gives a manager with
  the same groups, the same pool and the same durable locks, and no leases.\<close>

theorem restart_recovers:
  assumes "lease_inv m" "mRepo m = sqliteProxies" "db_sane (mStore m)" "mirrors db_rows db_grows m"
    "mFactories m = installed opts"
    "repoListGroups sqliteProxies (mStore m) = (Inr gs, s1)" "repoList sqliteProxies s1 = (Inr ps, s2)"
  shows "\<exists>m'. NewManager (Some sqliteProxies) opts now (mStore m) = (Inr m', s2) \<and>
    same_durable m m' \<and> mHolders m' = [] \<and> mirrors db_rows db_grows m'"
proof -
  have "px.mirrored m" using assms(2-4) by (simp add: px.mirrored_def)
  from px.restart [OF this assms(1,5-7), of now] show ?thesis by (auto simp: px.mirrored_def)
qed

lemma restart_recovers_witness:
  "\<exists>m'. NewManager (Some sqliteProxies) [] 9 (demo_db 2) = (Inr m', demo_db 4) \<and> same_durable demo_pm m'"
proof -
  have lists: "repoListGroups sqliteProxies (mStore demo_pm) = (Inr [demo_group], demo_db 3)"
    "repoList sqliteProxies (demo_db 3) = (Inr [demo_proxy ''x'' 7], demo_db 4)"
    by (simp_all add: demo_pm_facts demo_db_lists)
  have "db_sane (mStore demo_pm)" "mirrors db_rows db_grows demo_pm"
    using demo_pm_facts(2) by (simp_all add: px.mirrored_def)
  from restart_recovers [OF demo_pm_facts(1,4) this demo_pm_facts(5) lists, of 9]
  show ?thesis by (auto simp: demo_pm_facts)
qed

text \<open>C0. A refused UpdateGroup is not undone: the callback is handed the manager's own map of refs
  inside its copy of the group, so what it wrote there stays in the group the manager keeps,
  although the call returned an error and no row was written.\<close>

theorem refused_update_leaks:
  assumes "UpdateGroup now gid fn m = (Some e, m')" "get (mGroups m) gid = Some kept"
    "fn kept = (g1, shared)"
  shows "get (mGroups m') gid = Some (kept\<lparr>grpRefs := shared\<rparr>)"
  using assms(1)
  by (cases rule: UpdateGroup_cases) (use assms(2,3) in \<open>auto simp: shared_refs_def\<close>)

lemma refused_update_leaks_witness:
  "get (mGroups (snd (UpdateGroup 8 GlobalGroup
      (\<lambda>g. (g\<lparr>grpStrategy := ''nope''\<rparr>, [(''email'', ''e'')])) demo_pm))) GlobalGroup =
    Some (demo_group\<lparr>grpRefs := [(''email'', ''e'')]\<rparr>)"
proof -
  let ?fn = "\<lambda>g :: group. (g\<lparr>grpStrategy := ''nope''\<rparr>, [(''email'', ''e'')])"
  let ?out = "UpdateGroup 8 GlobalGroup ?fn demo_pm"
  have g: "get (mGroups demo_pm) GlobalGroup = Some demo_group" by (simp add: demo_pm_def)
  have "fst ?out = Some (EUnknownStrategy GlobalGroup ''nope'')"
    by (simp add: UpdateGroup_def g validateGroup_def demo_pm_def emptyManager_def StrategyRoundRobin_def
        demo_group_def Let_def)
  then have "?out = (Some (EUnknownStrategy GlobalGroup ''nope''), snd ?out)" by (metis prod.collapse)
  from refused_update_leaks [OF this g] show ?thesis by simp
qed

end
