(* ===== verification/Comms.thy ===== *)
theory Comms
  imports Prelude
begin

text \<open>
  The comms package (src/comms): the in-memory bus. A subscription is a buffered channel; a publish
  puts the payload into every channel of the topic that has room and drops it for the others. The
  bus keeps the subscriptions of each topic as a Go set, here a list of distinct numbers; the
  subscriptions themselves live in a list, a number being the address of one. A send on a closed
  channel panics, which is None. The typed layer (Topic) adds types that Isabelle already has.
\<close>

section \<open>State\<close>

record 'p subscription =
  subTopic :: string
  subCap :: int
  subCh :: "'p list"
  subClosed :: bool
  subOnce :: bool

record 'p bus =
  busSubs :: "(string, nat list) gomap"
  busHeap :: "'p subscription list"
  busBuffer :: int
  busOnDrop :: bool

definition defaultBuffer :: int where
  "defaultBuffer = 16"

definition WithBuffer :: "int \<Rightarrow> 'p bus \<Rightarrow> 'p bus" where
  "WithBuffer n b = b\<lparr>busBuffer := max n 1\<rparr>"

definition WithDropHandler :: "'p bus \<Rightarrow> 'p bus" where
  "WithDropHandler b = b\<lparr>busOnDrop := True\<rparr>"

definition NewBus :: "('p bus \<Rightarrow> 'p bus) list \<Rightarrow> 'p bus" where
  "NewBus opts =
     fold (\<lambda>opt b. opt b) opts
       \<lparr>busSubs = [], busHeap = [], busBuffer = defaultBuffer, busOnDrop = False\<rparr>"

section \<open>Operations\<close>

text \<open>The loop over the subscribers of a topic: the heap it leaves and the number of drops.\<close>

fun deliver :: "'p \<Rightarrow> nat list \<Rightarrow> 'p subscription list \<Rightarrow> nat \<Rightarrow> ('p subscription list \<times> nat) option" where
  "deliver payload [] heap dropped = Some (heap, dropped)"
| "deliver payload (s # ss) heap dropped =
     (let sub = heap ! s
      in if subClosed sub then None
         else if int (length (subCh sub)) < subCap sub
         then deliver payload ss (heap[s := sub\<lparr>subCh := subCh sub @ [payload]\<rparr>]) dropped
         else deliver payload ss heap (Suc dropped))"

text \<open>Publish answers with the calls of the drop handler it made, topic and payload each.\<close>

definition Publish :: "string \<Rightarrow> 'p \<Rightarrow> 'p bus \<Rightarrow> ((string \<times> 'p) list \<times> 'p bus) option" where
  "Publish topic payload b =
     (case deliver payload (get_or [] (busSubs b) topic) (busHeap b) 0 of
        None \<Rightarrow> None
      | Some (heap, dropped) \<Rightarrow>
          Some (if busOnDrop b then replicate dropped (topic, payload) else [],
                b\<lparr>busHeap := heap\<rparr>))"

definition Subscribe :: "string \<Rightarrow> 'p bus \<Rightarrow> nat \<times> 'p bus" where
  "Subscribe topic b =
     (let s = length (busHeap b)
      in (s, b\<lparr>busHeap := busHeap b @ [\<lparr>subTopic = topic, subCap = busBuffer b, subCh = [],
                                        subClosed = False, subOnce = False\<rparr>],
               busSubs := put topic (get_or [] (busSubs b) topic @ [s]) (busSubs b)\<rparr>))"

text \<open>Close: drop the subscription from its topic, and the topic with its last subscription, then
  close the channel; closing a closed channel would panic.\<close>

definition CloseSub :: "nat \<Rightarrow> 'p bus \<Rightarrow> 'p bus option" where
  "CloseSub s b =
     (let sub = busHeap b ! s
      in if subOnce sub then Some b
         else if subClosed sub then None
         else (let topic = subTopic sub;
                   left = removeAll s (get_or [] (busSubs b) topic);
                   subs = (if left = [] then del topic (busSubs b) else put topic left (busSubs b))
               in Some (b\<lparr>busSubs := subs,
                          busHeap := (busHeap b)[s := sub\<lparr>subOnce := True, subClosed := True\<rparr>]\<rparr>)))"

text \<open>A receive that finds something takes the oldest payload; an empty open channel blocks.\<close>

definition receive :: "nat \<Rightarrow> 'p bus \<Rightarrow> ('p \<times> 'p bus) option" where
  "receive s b =
     (case subCh (busHeap b ! s) of
        [] \<Rightarrow> None
      | x # xs \<Rightarrow> Some (x, b\<lparr>busHeap := (busHeap b)[s := (busHeap b ! s)\<lparr>subCh := xs\<rparr>]\<rparr>))"

text \<open>A typed view over one topic of the bus.\<close>

record topic =
  tpName :: string

definition NewTopic :: "string \<Rightarrow> topic" where
  "NewTopic name = \<lparr>tpName = name\<rparr>"

definition Emit :: "topic \<Rightarrow> 'p \<Rightarrow> 'p bus \<Rightarrow> ((string \<times> 'p) list \<times> 'p bus) option" where
  "Emit t v b = Publish (tpName t) v b"

definition topic_On :: "topic \<Rightarrow> 'p bus \<Rightarrow> nat \<times> 'p bus" where
  "topic_On t b = Subscribe (tpName t) b"

section \<open>Well-formed buses\<close>

text \<open>The set of a topic names open subscriptions of that topic, each once, and every open
  subscription is in the set of its topic.\<close>

definition bus_wf :: "'p bus \<Rightarrow> bool" where
  "bus_wf b \<longleftrightarrow> 1 \<le> busBuffer b \<and>
     (\<forall>topic. distinct (get_or [] (busSubs b) topic)) \<and>
     (\<forall>topic s. s \<in> set (get_or [] (busSubs b) topic) \<longleftrightarrow>
        s < length (busHeap b) \<and> subTopic (busHeap b ! s) = topic \<and> \<not> subClosed (busHeap b ! s)) \<and>
     (\<forall>s < length (busHeap b). subClosed (busHeap b ! s) = subOnce (busHeap b ! s) \<and>
        1 \<le> subCap (busHeap b ! s) \<and> int (length (subCh (busHeap b ! s))) \<le> subCap (busHeap b ! s))"

definition room :: "'p subscription \<Rightarrow> bool" where
  "room sub \<longleftrightarrow> int (length (subCh sub)) < subCap sub"

definition offered :: "'p \<Rightarrow> 'p subscription \<Rightarrow> 'p subscription" where
  "offered payload sub = (if room sub then sub\<lparr>subCh := subCh sub @ [payload]\<rparr> else sub)"

lemma offered_fields [simp]:
  "subTopic (offered x sub) = subTopic sub" "subCap (offered x sub) = subCap sub"
  "subClosed (offered x sub) = subClosed sub" "subOnce (offered x sub) = subOnce sub"
  by (simp_all add: offered_def)

lemma deliver_spec:
  assumes "distinct ss" "\<And>s. s \<in> set ss \<Longrightarrow> s < length heap \<and> \<not> subClosed (heap ! s)"
  shows "deliver x ss heap n =
    Some (map (\<lambda>i. if i \<in> set ss then offered x (heap ! i) else heap ! i) [0..<length heap],
          n + length (filter (\<lambda>s. \<not> room (heap ! s)) ss))"
  using assms
proof (induction ss arbitrary: heap n)
  case Nil
  then show ?case by (simp add: map_nth)
next
  case (Cons s ss)
  have s: "s < length heap" "\<not> subClosed (heap ! s)" "s \<notin> set ss" using Cons.prems by auto
  let ?heap = "heap[s := offered x (heap ! s)]"
  have same: "?heap ! t = heap ! t" if "t \<in> set ss" for t using that s by (metis nth_list_update_neq)
  have rest: "t < length ?heap \<and> \<not> subClosed (?heap ! t)" if "t \<in> set ss" for t
    using Cons.prems(2) [of t] same [OF that] that by simp
  have "deliver x (s # ss) heap n =
      deliver x ss ?heap (n + (if room (heap ! s) then 0 else 1))"
    using s by (auto simp: room_def offered_def Let_def)
  also have "\<dots> = Some (map (\<lambda>i. if i \<in> set ss then offered x (?heap ! i) else ?heap ! i) [0..<length heap],
      n + (if room (heap ! s) then 0 else 1) + length (filter (\<lambda>s. \<not> room (?heap ! s)) ss))"
    using Cons.IH [of ?heap] Cons.prems(1) rest by simp
  also have "filter (\<lambda>s. \<not> room (?heap ! s)) ss = filter (\<lambda>s. \<not> room (heap ! s)) ss"
    using same by (intro filter_cong) simp_all
  also have "map (\<lambda>i. if i \<in> set ss then offered x (?heap ! i) else ?heap ! i) [0..<length heap] =
      map (\<lambda>i. if i \<in> set (s # ss) then offered x (heap ! i) else heap ! i) [0..<length heap]"
    using s by (intro map_cong) (auto simp: nth_list_update)
  finally show ?case by simp
qed

lemma bus_wf_heap:
  assumes wf: "bus_wf b" and same: "busSubs b' = busSubs b" "busBuffer b' = busBuffer b"
    "length (busHeap b') = length (busHeap b)"
    and each: "\<forall>u < length (busHeap b). subTopic (busHeap b' ! u) = subTopic (busHeap b ! u) \<and>
        subClosed (busHeap b' ! u) = subClosed (busHeap b ! u) \<and>
        subOnce (busHeap b' ! u) = subOnce (busHeap b ! u) \<and>
        subCap (busHeap b' ! u) = subCap (busHeap b ! u) \<and>
        int (length (subCh (busHeap b' ! u))) \<le> subCap (busHeap b' ! u)"
  shows "bus_wf b'"
  using wf each unfolding bus_wf_def same by (simp cong: conj_cong)

text \<open>A publish on a well-formed bus never panics, offers the payload to every open subscription of
  its topic, and reports one drop per subscription that was full.\<close>

lemma Publish_spec:
  assumes "bus_wf b"
  shows "\<exists>b'. Publish topic x b =
      Some (if busOnDrop b then replicate (length (filter (\<lambda>s. \<not> room (busHeap b ! s))
              (get_or [] (busSubs b) topic))) (topic, x) else [], b') \<and>
    busSubs b' = busSubs b \<and> busBuffer b' = busBuffer b \<and> busOnDrop b' = busOnDrop b \<and>
    length (busHeap b') = length (busHeap b) \<and>
    (\<forall>s < length (busHeap b). busHeap b' ! s =
       (if subTopic (busHeap b ! s) = topic \<and> \<not> subClosed (busHeap b ! s)
        then offered x (busHeap b ! s) else busHeap b ! s))"
proof -
  let ?ss = "get_or [] (busSubs b) topic"
  have ss: "distinct ?ss" "s \<in> set ?ss \<longleftrightarrow> s < length (busHeap b) \<and>
      subTopic (busHeap b ! s) = topic \<and> \<not> subClosed (busHeap b ! s)" for s
    using assms unfolding bus_wf_def by blast+
  from deliver_spec [OF ss(1), of "busHeap b" x 0] ss(2) show ?thesis
    by (simp add: Publish_def)
qed

lemma bus_wf_Publish:
  assumes wf: "bus_wf b" and run: "Publish topic x b = Some (ds, b')"
  shows "bus_wf b'"
proof -
  from Publish_spec [OF wf, of topic x] run obtain
    b': "busSubs b' = busSubs b" "busBuffer b' = busBuffer b" "length (busHeap b') = length (busHeap b)"
      "\<forall>s < length (busHeap b). busHeap b' ! s =
         (if subTopic (busHeap b ! s) = topic \<and> \<not> subClosed (busHeap b ! s)
          then offered x (busHeap b ! s) else busHeap b ! s)" by auto
  have "int (length (subCh (offered x sub))) \<le> subCap sub"
    if "int (length (subCh sub)) \<le> subCap sub" for sub :: "'a subscription"
    using that by (simp add: offered_def room_def)
  with wf b' show ?thesis unfolding bus_wf_def by (simp cong: conj_cong)
qed

lemma bus_wf_NewBus: "bus_wf (NewBus [])" "bus_wf (NewBus [WithBuffer n])"
  "bus_wf (NewBus [WithBuffer n, WithDropHandler])"
  by (simp_all add: bus_wf_def NewBus_def defaultBuffer_def WithBuffer_def WithDropHandler_def)

lemma bus_wf_Subscribe:
  assumes wf: "bus_wf b" and run: "Subscribe topic b = (s, b')"
  shows "bus_wf b' \<and> s = length (busHeap b) \<and>
    busHeap b' = busHeap b @ [\<lparr>subTopic = topic, subCap = busBuffer b, subCh = [],
                              subClosed = False, subOnce = False\<rparr>]"
proof -
  let ?n = "length (busHeap b)"
  have b': "busHeap b' = busHeap b @ [\<lparr>subTopic = topic, subCap = busBuffer b, subCh = [],
      subClosed = False, subOnce = False\<rparr>]" "s = ?n" "busBuffer b' = busBuffer b"
    "busSubs b' = put topic (get_or [] (busSubs b) topic @ [?n]) (busSubs b)"
    using run by (auto simp: Subscribe_def Let_def)
  have set: "u \<in> set (get_or [] (busSubs b) t) \<longleftrightarrow> u < ?n \<and> subTopic (busHeap b ! u) = t \<and>
      \<not> subClosed (busHeap b ! u)" "distinct (get_or [] (busSubs b) t)" "1 \<le> busBuffer b" for u t
    using wf unfolding bus_wf_def by blast+
  have heap: "subClosed (busHeap b ! u) = subOnce (busHeap b ! u) \<and> 1 \<le> subCap (busHeap b ! u) \<and>
      int (length (subCh (busHeap b ! u))) \<le> subCap (busHeap b ! u)" if "u < ?n" for u
    using wf that unfolding bus_wf_def by blast
  have "bus_wf b'"
    unfolding bus_wf_def b'(3)
  proof (intro conjI allI impI)
    show "1 \<le> busBuffer b" by (rule set)
    fix t u
    show "distinct (get_or [] (busSubs b') t)" using set(2) by (simp add: b'(4) set(1))
    show "u \<in> set (get_or [] (busSubs b') t) \<longleftrightarrow>
        u < length (busHeap b') \<and> subTopic (busHeap b' ! u) = t \<and> \<not> subClosed (busHeap b' ! u)"
      by (auto simp: b'(1,4) set(1) nth_append less_Suc_eq)
    assume "u < length (busHeap b')"
    then show "subClosed (busHeap b' ! u) = subOnce (busHeap b' ! u)" "1 \<le> subCap (busHeap b' ! u)"
      "int (length (subCh (busHeap b' ! u))) \<le> subCap (busHeap b' ! u)"
      using heap [of u] set(3) by (auto simp: b'(1) nth_append less_Suc_eq)
  qed
  with b' show ?thesis by simp
qed

lemma bus_wf_CloseSub:
  assumes wf: "bus_wf b" and s: "s < length (busHeap b)"
  shows "\<exists>b'. CloseSub s b = Some b' \<and> bus_wf b' \<and> length (busHeap b') = length (busHeap b) \<and>
    (\<forall>u < length (busHeap b). busHeap b' ! u =
       (if u = s then (busHeap b ! s)\<lparr>subOnce := True, subClosed := True\<rparr> else busHeap b ! u))"
proof -
  let ?n = "length (busHeap b)" and ?sub = "busHeap b ! s"
  have set: "u \<in> set (get_or [] (busSubs b) t) \<longleftrightarrow> u < ?n \<and> subTopic (busHeap b ! u) = t \<and>
      \<not> subClosed (busHeap b ! u)" "distinct (get_or [] (busSubs b) t)" "1 \<le> busBuffer b" for u t
    using wf unfolding bus_wf_def by blast+
  have heap: "subClosed (busHeap b ! u) = subOnce (busHeap b ! u) \<and> 1 \<le> subCap (busHeap b ! u) \<and>
      int (length (subCh (busHeap b ! u))) \<le> subCap (busHeap b ! u)" if "u < ?n" for u
    using wf that unfolding bus_wf_def by blast
  show ?thesis
  proof (cases "subOnce ?sub")
    case True
    then have "?sub\<lparr>subOnce := True, subClosed := True\<rparr> = ?sub" using heap [OF s] by simp
    with True wf show ?thesis by (simp add: CloseSub_def)
  next
    case False
    let ?t = "subTopic ?sub"
    let ?left = "removeAll s (get_or [] (busSubs b) ?t)"
    let ?b = "b\<lparr>busSubs := (if ?left = [] then del ?t (busSubs b) else put ?t ?left (busSubs b)),
                busHeap := (busHeap b)[s := ?sub\<lparr>subOnce := True, subClosed := True\<rparr>]\<rparr>"
    have run: "CloseSub s b = Some ?b" using False heap [OF s] by (simp add: CloseSub_def Let_def)
    have subs: "get_or [] (busSubs ?b) t =
        (if t = ?t then ?left else get_or [] (busSubs b) t)" for t by simp
    have nth: "busHeap ?b ! u = (if u = s then ?sub\<lparr>subOnce := True, subClosed := True\<rparr>
        else busHeap b ! u)" if "u < ?n" for u using that by (simp add: nth_list_update)
    have "bus_wf ?b"
      unfolding bus_wf_def
    proof (intro conjI allI impI)
      show "1 \<le> busBuffer ?b" using set(3) by simp
      fix t u
      show "distinct (get_or [] (busSubs ?b) t)" unfolding subs using set(2) by (simp add: distinct_removeAll)
      show "u \<in> set (get_or [] (busSubs ?b) t) \<longleftrightarrow>
          u < length (busHeap ?b) \<and> subTopic (busHeap ?b ! u) = t \<and> \<not> subClosed (busHeap ?b ! u)"
      proof (cases "u < ?n")
        case True
        then show ?thesis unfolding subs nth [OF True] by (auto simp: set(1))
      next
        case False
        then show ?thesis unfolding subs by (auto simp: set(1))
      qed
      assume "u < length (busHeap ?b)"
      then have u: "u < ?n" by simp
      show "subClosed (busHeap ?b ! u) = subOnce (busHeap ?b ! u)" "1 \<le> subCap (busHeap ?b ! u)"
        "int (length (subCh (busHeap ?b ! u))) \<le> subCap (busHeap ?b ! u)"
        unfolding nth [OF u] using heap [OF u] heap [OF s] by simp_all
    qed
    with run nth show ?thesis by auto
  qed
qed

lemma bus_wf_receive:
  assumes wf: "bus_wf b" and s: "s < length (busHeap b)" and run: "receive s b = Some (x, b')"
  shows "bus_wf b' \<and> (\<exists>xs. subCh (busHeap b ! s) = x # xs \<and>
    busHeap b' = (busHeap b)[s := (busHeap b ! s)\<lparr>subCh := xs\<rparr>])"
proof -
  from run obtain xs where xs: "subCh (busHeap b ! s) = x # xs"
    "b' = b\<lparr>busHeap := (busHeap b)[s := (busHeap b ! s)\<lparr>subCh := xs\<rparr>]\<rparr>"
    by (auto simp: receive_def split: list.splits)
  have nth: "busHeap b' ! u = (if u = s then (busHeap b ! s)\<lparr>subCh := xs\<rparr> else busHeap b ! u)"
    if "u < length (busHeap b)" for u using that by (simp add: xs(2) nth_list_update)
  have "int (length xs) \<le> subCap (busHeap b ! s)" using wf s xs(1) unfolding bus_wf_def by force
  have "bus_wf b'"
  proof (rule bus_wf_heap [OF wf])
    show "\<forall>u < length (busHeap b). subTopic (busHeap b' ! u) = subTopic (busHeap b ! u) \<and>
        subClosed (busHeap b' ! u) = subClosed (busHeap b ! u) \<and>
        subOnce (busHeap b' ! u) = subOnce (busHeap b ! u) \<and>
        subCap (busHeap b' ! u) = subCap (busHeap b ! u) \<and>
        int (length (subCh (busHeap b' ! u))) \<le> subCap (busHeap b' ! u)"
      using nth \<open>int (length xs) \<le> _\<close> wf unfolding bus_wf_def by simp
  qed (simp_all add: xs(2))
  with xs show ?thesis by simp
qed

section \<open>Runs\<close>

text \<open>A run keeps, beside the bus, what was published, what each subscriber has received, and how
  much had been published when it subscribed.\<close>

record 'p net =
  netBus :: "'p bus"
  netLog :: "(string \<times> 'p) list"
  netGot :: "nat \<Rightarrow> 'p list"
  netSince :: "nat \<Rightarrow> nat"

inductive net_step :: "'p net \<Rightarrow> 'p net \<Rightarrow> bool" where
  publish: "Publish topic x (netBus N) = Some (ds, b) \<Longrightarrow>
    net_step N (N\<lparr>netBus := b, netLog := netLog N @ [(topic, x)]\<rparr>)"
| subscribe: "Subscribe topic (netBus N) = (s, b) \<Longrightarrow>
    net_step N (N\<lparr>netBus := b, netSince := (netSince N)(s := length (netLog N)),
                  netGot := (netGot N)(s := [])\<rparr>)"
| recv: "s < length (busHeap (netBus N)) \<Longrightarrow> receive s (netBus N) = Some (x, b) \<Longrightarrow>
    net_step N (N\<lparr>netBus := b, netGot := (netGot N)(s := netGot N s @ [x])\<rparr>)"
| close: "s < length (busHeap (netBus N)) \<Longrightarrow> CloseSub s (netBus N) = Some b \<Longrightarrow>
    net_step N (N\<lparr>netBus := b\<rparr>)"

inductive net_reachable :: "'p net \<Rightarrow> bool" where
  new: "set opts \<subseteq> insert WithDropHandler (range WithBuffer) \<Longrightarrow>
    net_reachable \<lparr>netBus = NewBus opts, netLog = [], netGot = (\<lambda>_. []), netSince = (\<lambda>_. 0)\<rparr>"
| step: "net_reachable N \<Longrightarrow> net_step N N' \<Longrightarrow> net_reachable N'"

definition on_topic :: "string \<Rightarrow> (string \<times> 'p) list \<Rightarrow> 'p list" where
  "on_topic topic log = map snd (filter (\<lambda>e. fst e = topic) log)"

lemma on_topic_append [simp]:
  "on_topic t (xs @ [(u, x)]) = on_topic t xs @ (if u = t then [x] else [])"
  by (simp add: on_topic_def)

text \<open>What a subscriber has received and still has buffered comes, in order and each at most once,
  from what was published on its topic since it subscribed.\<close>

definition net_inv :: "'p net \<Rightarrow> bool" where
  "net_inv N \<longleftrightarrow> bus_wf (netBus N) \<and>
     (\<forall>s < length (busHeap (netBus N)). netSince N s \<le> length (netLog N) \<and>
        subseq (netGot N s @ subCh (busHeap (netBus N) ! s))
          (on_topic (subTopic (busHeap (netBus N) ! s)) (drop (netSince N s) (netLog N))))"

lemma NewBus_fold:
  "set opts \<subseteq> insert WithDropHandler (range WithBuffer) \<Longrightarrow> bus_wf b \<Longrightarrow> busHeap b = [] \<Longrightarrow>
     bus_wf (fold (\<lambda>opt b. opt b) opts b) \<and> busHeap (fold (\<lambda>opt b. opt b) opts b) = []"
proof (induction opts arbitrary: b)
  case (Cons opt opts)
  have "bus_wf (opt b)" "busHeap (opt b) = []"
    using Cons.prems by (auto simp: bus_wf_def WithBuffer_def WithDropHandler_def)
  with Cons show ?case by simp
qed simp

lemma net_inv_new:
  assumes "set opts \<subseteq> insert WithDropHandler (range WithBuffer)"
  shows "net_inv \<lparr>netBus = NewBus opts, netLog = [], netGot = (\<lambda>_. []), netSince = (\<lambda>_. 0)\<rparr>"
proof -
  let ?b = "\<lparr>busSubs = [], busHeap = [], busBuffer = defaultBuffer, busOnDrop = False\<rparr> :: 'a bus"
  have "bus_wf ?b" by (simp add: bus_wf_def defaultBuffer_def)
  from NewBus_fold [OF assms this] show ?thesis by (simp add: net_inv_def NewBus_def)
qed

lemma subseq_snoc: "subseq xs ys \<Longrightarrow> subseq (xs @ [x]) (ys @ [x])"
  by (simp add: list_emb_append_mono)

lemma subseq_more: "subseq xs ys \<Longrightarrow> subseq xs (ys @ zs)"
  by (metis append_Nil2 list_emb_Nil list_emb_append_mono)

lemma net_step_inv: "net_step N N' \<Longrightarrow> net_inv N \<Longrightarrow> net_inv N'"
proof (induction rule: net_step.induct)
  case (publish topic x N ds b)
  have wf: "bus_wf (netBus N)" using publish.prems by (simp add: net_inv_def)
  from Publish_spec [OF wf, of topic x] publish.hyps have
    b: "length (busHeap b) = length (busHeap (netBus N))"
      "\<forall>s < length (busHeap (netBus N)). busHeap b ! s =
       (if subTopic (busHeap (netBus N) ! s) = topic \<and> \<not> subClosed (busHeap (netBus N) ! s)
        then offered x (busHeap (netBus N) ! s) else busHeap (netBus N) ! s)" by auto
  have "netSince N s \<le> length (netLog N @ [(topic, x)]) \<and>
      subseq (netGot N s @ subCh (busHeap b ! s))
        (on_topic (subTopic (busHeap b ! s)) (drop (netSince N s) (netLog N @ [(topic, x)])))"
    if s: "s < length (busHeap (netBus N))" for s
  proof -
    let ?sub = "busHeap (netBus N) ! s"
    have old: "netSince N s \<le> length (netLog N)"
      "subseq (netGot N s @ subCh ?sub) (on_topic (subTopic ?sub) (drop (netSince N s) (netLog N)))"
      using publish.prems s by (simp_all add: net_inv_def)
    have new: "busHeap b ! s = (if subTopic ?sub = topic \<and> \<not> subClosed ?sub then offered x ?sub else ?sub)"
      using b(2) s by blast
    show ?thesis
    proof (cases "subTopic ?sub = topic \<and> \<not> subClosed ?sub \<and> room ?sub")
      case True
      with new old subseq_snoc [OF old(2), of x] show ?thesis by (simp add: offered_def)
    next
      case False
      then have "busHeap b ! s = ?sub" unfolding new offered_def by presburger
      with old subseq_more [OF old(2), of "[x]"] show ?thesis by simp
    qed
  qed
  with b(1) bus_wf_Publish [OF wf publish.hyps] show ?case by (simp add: net_inv_def)
next
  case (subscribe topic N s b)
  have wf: "bus_wf (netBus N)" using subscribe.prems by (simp add: net_inv_def)
  from bus_wf_Subscribe [OF wf subscribe.hyps] subscribe.prems show ?case
    by (auto simp: net_inv_def nth_append less_Suc_eq on_topic_def)
next
  case (recv s N x b)
  have wf: "bus_wf (netBus N)" using recv.prems by (simp add: net_inv_def)
  from bus_wf_receive [OF wf recv.hyps] obtain xs where "bus_wf b"
    "subCh (busHeap (netBus N) ! s) = x # xs"
    "busHeap b = (busHeap (netBus N))[s := (busHeap (netBus N) ! s)\<lparr>subCh := xs\<rparr>]" by blast
  with recv.prems show ?case by (auto simp: net_inv_def nth_list_update)
next
  case (close s N b)
  have wf: "bus_wf (netBus N)" using close.prems by (simp add: net_inv_def)
  from bus_wf_CloseSub [OF wf close.hyps(1)] close.hyps(2) close.prems show ?case
    by (auto simp: net_inv_def)
qed

lemma net_reachable_inv: "net_reachable N \<Longrightarrow> net_inv N"
  by (induction rule: net_reachable.induct) (use net_inv_new net_step_inv in blast)+

section \<open>Properties\<close>

text \<open>A bus with room for one payload: the second of two is dropped.\<close>

definition demo_net :: "nat net" where
  "demo_net = \<lparr>netBus = \<lparr>busSubs = [(''t'', [0])],
       busHeap = [\<lparr>subTopic = ''t'', subCap = 1, subCh = [5], subClosed = False, subOnce = False\<rparr>],
       busBuffer = 1, busOnDrop = True\<rparr>,
     netLog = [(''t'', 5), (''t'', 6)], netGot = (\<lambda>_. []), netSince = (\<lambda>_. 0)\<rparr>"

lemma demo_net_reachable: "net_reachable demo_net"
proof -
  let ?sub = "\<lambda>ch. \<lparr>subTopic = ''t'', subCap = 1, subCh = ch, subClosed = False, subOnce = False\<rparr>"
  let ?N = "\<lambda>subs heap log. \<lparr>netBus = \<lparr>busSubs = subs, busHeap = heap, busBuffer = 1, busOnDrop = True\<rparr>,
     netLog = log, netGot = (\<lambda>_. []), netSince = (\<lambda>_. 0)\<rparr>"
  have "net_reachable (?N [] [] [])"
    using net_reachable.new [of "[WithBuffer 0, WithDropHandler]"]
    by (simp add: NewBus_def WithBuffer_def WithDropHandler_def)
  from net_reachable.step [OF this net_step.subscribe [where topic = "''t''"]]
  have "net_reachable (?N [(''t'', [0])] [?sub []] [])"
    by (simp add: Subscribe_def get_or_def Let_def fun_upd_idem)
  from net_reachable.step [OF this net_step.publish [where topic = "''t''" and x = 5]]
  have "net_reachable (?N [(''t'', [0])] [?sub [5]] [(''t'', 5)])"
    by (simp add: Publish_def get_or_def Let_def)
  from net_reachable.step [OF this net_step.publish [where topic = "''t''" and x = 6]]
  show ?thesis by (simp add: Publish_def get_or_def Let_def demo_net_def)
qed

text \<open>C36. Delivery is at most once and in order: what a subscriber has received, followed by what its
  channel still holds, is a subsequence of the payloads published on its topic after it
  subscribed.\<close>

theorem delivered_in_order:
  assumes "net_reachable N" "s < length (busHeap (netBus N))"
  shows "subseq (netGot N s @ subCh (busHeap (netBus N) ! s))
    (on_topic (subTopic (busHeap (netBus N) ! s)) (drop (netSince N s) (netLog N)))"
  using net_reachable_inv [OF assms(1)] assms(2) by (simp add: net_inv_def)

lemma delivered_in_order_witness: "subseq [5] [5, 6 :: nat]"
  using delivered_in_order [OF demo_net_reachable, of 0] by (simp add: demo_net_def on_topic_def)

text \<open>A publish reaches every open subscriber of its topic that has room, whatever the others do:
  a full buffer costs only its own subscriber the payload, and with a drop handler installed
  costs one call of it. Other topics and closed subscriptions are untouched. It never panics on
  a closed channel.\<close>

theorem publish_fans_out:
  assumes "net_reachable N"
  shows "\<exists>b. Publish topic x (netBus N) =
      Some (if busOnDrop (netBus N)
            then replicate (length (filter (\<lambda>s. \<not> room (busHeap (netBus N) ! s))
                   (get_or [] (busSubs (netBus N)) topic))) (topic, x) else [], b) \<and>
    (\<forall>s < length (busHeap (netBus N)). busHeap b ! s =
       (let sub = busHeap (netBus N) ! s
        in if subTopic sub = topic \<and> \<not> subClosed sub \<and> int (length (subCh sub)) < subCap sub
           then sub\<lparr>subCh := subCh sub @ [x]\<rparr> else sub))"
proof -
  have "bus_wf (netBus N)" using net_reachable_inv [OF assms] by (simp add: net_inv_def)
  from Publish_spec [OF this, of topic x] show ?thesis
    by (auto simp: offered_def room_def Let_def)
qed

lemma publish_fans_out_witness:
  "\<exists>b. Publish ''t'' 7 (netBus demo_net) = Some ([(''t'', 7)], b) \<and> busHeap b = busHeap (netBus demo_net)"
proof -
  from publish_fans_out [OF demo_net_reachable, of "''t''" 7] obtain b where
    b: "Publish ''t'' 7 (netBus demo_net) = Some ([(''t'', 7)], b)"
    by (auto simp: demo_net_def get_or_def room_def)
  then show ?thesis by (auto simp: Publish_def demo_net_def get_or_def Let_def split: option.splits)
qed

text \<open>Closing a subscription never panics, only the first close acts, and afterwards no publish
  changes what its channel holds.\<close>

theorem close_is_final:
  assumes "net_reachable N" "s < length (busHeap (netBus N))"
  shows "\<exists>b. CloseSub s (netBus N) = Some b \<and> CloseSub s b = Some b \<and>
    (\<forall>topic x. \<exists>ds b'. Publish topic x b = Some (ds, b') \<and> busHeap b' ! s = busHeap b ! s)"
proof -
  have wf: "bus_wf (netBus N)" using net_reachable_inv [OF assms(1)] by (simp add: net_inv_def)
  from bus_wf_CloseSub [OF wf assms(2)] obtain b where
    b: "CloseSub s (netBus N) = Some b" "bus_wf b" "s < length (busHeap b)" "subOnce (busHeap b ! s)"
      "subClosed (busHeap b ! s)" using assms(2) by auto
  then have "CloseSub s b = Some b" by (simp add: CloseSub_def)
  moreover have "\<exists>ds b'. Publish topic x b = Some (ds, b') \<and> busHeap b' ! s = busHeap b ! s" for topic x
    using Publish_spec [OF b(2), of topic x] b(3,5) by auto
  ultimately show ?thesis using b(1) by blast
qed

lemma close_is_final_witness:
  "\<exists>b. CloseSub 0 (netBus demo_net) = Some b \<and> CloseSub 0 b = Some b"
  using close_is_final [OF demo_net_reachable, of 0] by (auto simp: demo_net_def)

end
