(* ===== verification/Workflows.thy ===== *)
theory Workflows
  imports Prelude
begin

text \<open>
  The workflows package (src/workflows): the graph, the statuses, the effect log and snapshot
  envelope of Base, the Module that builds and restores instances, and the retry policy.

  A handler and an effect act on a world of their own: they are functions of a state \<^theory_text>\<open>'w\<close> that give
  a result and the state they leave. JSON is Go's standard library: a record of encoders and
  decoders that the theorems assume undo each other. Durations and deadlines are not modelled;
  what a wait or a context decides is read from the world.
\<close>

section \<open>Statuses\<close>

definition StatusNotStarted :: string where "StatusNotStarted = ''''"
definition StatusRunning :: string where "StatusRunning = ''running''"
definition StatusSuspended :: string where "StatusSuspended = ''suspended''"
definition StatusKilled :: string where "StatusKilled = ''killed''"
definition StatusFailed :: string where "StatusFailed = ''failed''"
definition StatusDone :: string where "StatusDone = ''done''"

lemmas status_defs = StatusNotStarted_def StatusRunning_def StatusSuspended_def StatusKilled_def
  StatusFailed_def StatusDone_def

lemma status_neq [simp]:
  "StatusNotStarted \<noteq> StatusRunning" "StatusNotStarted \<noteq> StatusSuspended"
  "StatusNotStarted \<noteq> StatusKilled" "StatusNotStarted \<noteq> StatusFailed" "StatusNotStarted \<noteq> StatusDone"
  "StatusRunning \<noteq> StatusSuspended" "StatusRunning \<noteq> StatusKilled" "StatusRunning \<noteq> StatusFailed"
  "StatusRunning \<noteq> StatusDone" "StatusSuspended \<noteq> StatusKilled" "StatusSuspended \<noteq> StatusFailed"
  "StatusSuspended \<noteq> StatusDone" "StatusKilled \<noteq> StatusFailed" "StatusKilled \<noteq> StatusDone"
  "StatusFailed \<noteq> StatusDone"
  by (simp_all add: status_defs)

lemmas status_neq_sym [simp] = status_neq [THEN not_sym]

definition Terminal :: "string \<Rightarrow> bool" where
  "Terminal s \<longleftrightarrow> s = StatusDone \<or> s = StatusKilled"

section \<open>The graph\<close>

record 'h graph =
  gInitial :: string
  gStates :: "(string, 'h) gomap"

text \<open>Each option wraps the handler made so far, so the last one listed is outermost.\<close>

definition On :: "string \<Rightarrow> 'h \<Rightarrow> ('h \<Rightarrow> 'h) list \<Rightarrow> string \<times> 'h" where
  "On name handler opts = (name, fold (\<lambda>opt h. opt h) opts handler)"

definition NewGraph :: "string \<Rightarrow> (string \<times> 'h) list \<Rightarrow> 'h graph" where
  "NewGraph initial defs =
     \<lparr>gInitial = initial, gStates = fold (\<lambda>(name, h) m. put name h m) defs []\<rparr>"

definition Handler :: "'h graph \<Rightarrow> string \<Rightarrow> 'h option" where
  "Handler g s = get (gStates g) s"

section \<open>Base\<close>

type_synonym json = string

record envelope =
  envInput :: json
  envEffects :: "(string, json) gomap"
  envDurable :: json

text \<open>JSON for the envelope and for the durable state an instance registered; the decoder of the
  durable state fills a value that is already there. An absent message is the empty one.\<close>

record 'd codecs =
  envMarshal :: "envelope \<Rightarrow> json"
  envUnmarshal :: "json \<Rightarrow> envelope option"
  durMarshal :: "'d \<Rightarrow> string + json"
  durUnmarshal :: "json \<Rightarrow> 'd \<Rightarrow> 'd option"

definition codecs_ok :: "'d codecs \<Rightarrow> bool" where
  "codecs_ok c \<longleftrightarrow> (\<forall>e. envUnmarshal c (envMarshal c e) = Some e) \<and>
     (\<forall>d j. durMarshal c d = Inr j \<longrightarrow> j \<noteq> [] \<and> (\<forall>d0. durUnmarshal c j d0 = Some d))"

record 'd base =
  bTask :: string
  bInput :: json
  bEffects :: "(string, json) gomap"
  bDurable :: "'d option"

definition bind_base :: "string \<Rightarrow> json \<Rightarrow> 'd base \<Rightarrow> 'd base" where
  "bind_base task input b = b\<lparr>bTask := task, bInput := input\<rparr>"

definition Persist :: "'d \<Rightarrow> 'd base \<Rightarrow> 'd base" where
  "Persist d b = b\<lparr>bDurable := Some d\<rparr>"

definition Snapshot :: "'d codecs \<Rightarrow> 'd base \<Rightarrow> string + json" where
  "Snapshot c b =
     (case bDurable b of
        None \<Rightarrow> Inr (envMarshal c \<lparr>envInput = bInput b, envEffects = bEffects b, envDurable = []\<rparr>)
      | Some d \<Rightarrow>
          (case durMarshal c d of
             Inl e \<Rightarrow> Inl (''marshal durable state: '' @ e)
           | Inr blob \<Rightarrow>
               Inr (envMarshal c \<lparr>envInput = bInput b, envEffects = bEffects b, envDurable = blob\<rparr>)))"

text \<open>An absent effect log decodes to a nil map, which leaves the log of the new instance; here both
  are empty.\<close>

definition restore :: "'d codecs \<Rightarrow> envelope \<Rightarrow> 'd base \<Rightarrow> string + 'd base" where
  "restore c env b =
     (let b1 = (if envEffects env \<noteq> [] then b\<lparr>bEffects := envEffects env\<rparr> else b)
      in case bDurable b1 of
           None \<Rightarrow> Inr b1
         | Some d \<Rightarrow>
             if envDurable env = [] then Inr b1
             else (case durUnmarshal c (envDurable env) d of
                     None \<Rightarrow> Inl ''restore durable state''
                   | Some d' \<Rightarrow> Inr (b1\<lparr>bDurable := Some d'\<rparr>)))"

text \<open>The engine's checkpoint, when one is wired; it acts on the world and reads the base as it is at
  the call.\<close>

type_synonym ('d, 'w) saver = "'d base \<Rightarrow> 'w \<Rightarrow> string option \<times> 'w"

definition Checkpoint :: "('d, 'w) saver option \<Rightarrow> ('d, 'w) saver" where
  "Checkpoint saver b w = (case saver of None \<Rightarrow> (None, w) | Some save \<Rightarrow> save b w)"

text \<open>Do. The pair it returns is Go's: a value and an error, both of which may be there.\<close>

definition Do ::
    "'v \<Rightarrow> ('v \<Rightarrow> string + json) \<Rightarrow> (json \<Rightarrow> 'v option) \<Rightarrow> ('d, 'w) saver option
      \<Rightarrow> string \<Rightarrow> ('w \<Rightarrow> (string + 'v) \<times> 'w) \<Rightarrow> 'd base \<Rightarrow> 'w
      \<Rightarrow> ('v \<times> string option) \<times> 'd base \<times> 'w" where
  "Do zero marshal unmarshal saver key effect b w =
     (case get (bEffects b) key of
        Some cached \<Rightarrow>
          (case unmarshal cached of
             None \<Rightarrow> ((zero, Some (''effect '' @ key @ '': decode recorded result'')), b, w)
           | Some v \<Rightarrow> ((v, None), b, w))
      | None \<Rightarrow>
          (case effect w of
             (Inl e, w1) \<Rightarrow> ((zero, Some e), b, w1)
           | (Inr v, w1) \<Rightarrow>
               (case marshal v of
                  Inl e \<Rightarrow> ((zero, Some (''effect '' @ key @ '': marshal result: '' @ e)), b, w1)
                | Inr blob \<Rightarrow>
                    (let b1 = b\<lparr>bEffects := put key blob (bEffects b)\<rparr>
                     in case Checkpoint saver b1 w1 of
                          (Some e, w2) \<Rightarrow> ((v, Some (''effect '' @ key @ '': checkpoint: '' @ e)), b1, w2)
                        | (None, w2) \<Rightarrow> ((v, None), b1, w2)))))"

definition Once ::
    "(unit \<Rightarrow> string + json) \<Rightarrow> (json \<Rightarrow> unit option) \<Rightarrow> ('d, 'w) saver option
      \<Rightarrow> string \<Rightarrow> ('w \<Rightarrow> string option \<times> 'w) \<Rightarrow> 'd base \<Rightarrow> 'w \<Rightarrow> string option \<times> 'd base \<times> 'w" where
  "Once marshal unmarshal saver key effect b w =
     (case Do () marshal unmarshal saver key
             (\<lambda>w. case effect w of (Some e, w') \<Rightarrow> (Inl e, w') | (None, w') \<Rightarrow> (Inr (), w')) b w of
        ((v, err), b', w') \<Rightarrow> (err, b', w'))"

section \<open>The module\<close>

text \<open>The caller's input is any value: nil, one of the module's type, or another. An instance may
  embed a Base or not; what else it is, the module does not look at.\<close>

datatype 'i any = AnyNil | AnyIn 'i | AnyOther string

record ('i, 'd) inst =
  instBase :: "'d base option"
  instInput :: 'i

record ('i, 'd) module =
  modID :: string
  modBuild :: "'i \<Rightarrow> string \<Rightarrow> string + ('i, 'd) inst"
  modValidate :: "('i \<Rightarrow> string option) option"
  modZero :: 'i
  modMarshal :: "'i \<Rightarrow> string + json"
  modUnmarshal :: "json \<Rightarrow> 'i option"

definition assertInput :: "('i, 'd) module \<Rightarrow> 'i any \<Rightarrow> string + 'i" where
  "assertInput m input =
     (case input of
        AnyNil \<Rightarrow> Inr (modZero m)
      | AnyIn i \<Rightarrow> Inr i
      | AnyOther t \<Rightarrow> Inl (modID m @ '': expected another type, got '' @ t))"

definition ValidateInput :: "('i, 'd) module \<Rightarrow> 'i any \<Rightarrow> string option" where
  "ValidateInput m input =
     (case assertInput m input of
        Inl e \<Rightarrow> Some e
      | Inr i \<Rightarrow> (case modValidate m of None \<Rightarrow> None | Some check \<Rightarrow> check i))"

definition baseOf :: "('i, 'd) module \<Rightarrow> ('i, 'd) inst \<Rightarrow> string + 'd base" where
  "baseOf m x =
     (case instBase x of
        None \<Rightarrow> Inl (modID m @ '': instance must embed workflows.Base'')
      | Some b \<Rightarrow> Inr b)"

definition NewInstance :: "('i, 'd) module \<Rightarrow> 'i any \<Rightarrow> string \<Rightarrow> string + ('i, 'd) inst" where
  "NewInstance m input task =
     (case assertInput m input of
        Inl e \<Rightarrow> Inl e
      | Inr i \<Rightarrow>
     (case modMarshal m i of
        Inl e \<Rightarrow> Inl (modID m @ '': marshal input: '' @ e)
      | Inr raw \<Rightarrow>
     (case modBuild m i task of
        Inl e \<Rightarrow> Inl e
      | Inr x \<Rightarrow>
     (case baseOf m x of
        Inl e \<Rightarrow> Inl e
      | Inr b \<Rightarrow> Inr (x\<lparr>instBase := Some (bind_base task raw b)\<rparr>)))))"

definition RestoreInstance ::
    "'d codecs \<Rightarrow> ('i, 'd) module \<Rightarrow> string \<Rightarrow> json \<Rightarrow> string + ('i, 'd) inst" where
  "RestoreInstance c m task snapshot =
     (case envUnmarshal c snapshot of
        None \<Rightarrow> Inl (modID m @ '': decode snapshot'')
      | Some env \<Rightarrow>
     (case (if envInput env = [] then Some (modZero m) else modUnmarshal m (envInput env)) of
        None \<Rightarrow> Inl (modID m @ '': decode input'')
      | Some i \<Rightarrow>
     (case modBuild m i task of
        Inl e \<Rightarrow> Inl e
      | Inr x \<Rightarrow>
     (case baseOf m x of
        Inl e \<Rightarrow> Inl e
      | Inr b \<Rightarrow>
     (case restore c env (bind_base task (envInput env) b) of
        Inl e \<Rightarrow> Inl (modID m @ '': '' @ e)
      | Inr b' \<Rightarrow> Inr (x\<lparr>instBase := Some b'\<rparr>))))))"

section \<open>Retry\<close>

text \<open>Errors as a chain: a plain one, one that wraps another, one marked permanent.\<close>

datatype herr = Plain string | Wrapped string herr | PermanentErr herr

definition Permanent :: "herr option \<Rightarrow> herr option" where
  "Permanent e = map_option PermanentErr e"

text \<open>\<^theory_text>\<open>errors.As\<close> for a permanent error, and its Unwrap.\<close>

fun as_permanent :: "herr \<Rightarrow> herr option" where
  "as_permanent (Plain s) = None"
| "as_permanent (Wrapped s e) = as_permanent e"
| "as_permanent (PermanentErr e) = Some e"

type_synonym 'w handler = "'w \<Rightarrow> (herr + string option) \<times> 'w"

text \<open>The loop of Retry: the context error is read from the world, and the wait between attempts
  either ends by itself or with the context.\<close>

function retry_loop ::
    "int \<Rightarrow> (int \<Rightarrow> 'w \<Rightarrow> herr option \<times> 'w) \<Rightarrow> ('w \<Rightarrow> herr option) \<Rightarrow> 'w handler \<Rightarrow> int \<Rightarrow> 'w handler" where
  "retry_loop attempts wait ctxErr h attempt w =
     (case h w of
        (Inr next, w1) \<Rightarrow> (Inr next, w1)
      | (Inl err, w1) \<Rightarrow>
          (case as_permanent err of
             Some e \<Rightarrow> (Inl e, w1)
           | None \<Rightarrow>
               if attempt \<ge> attempts \<or> ctxErr w1 \<noteq> None then (Inl err, w1)
               else (case wait attempt w1 of
                       (Some e, w2) \<Rightarrow> (Inl e, w2)
                     | (None, w2) \<Rightarrow> retry_loop attempts wait ctxErr h (attempt + 1) w2)))"
  by pat_completeness auto
termination
  by (relation "measure (\<lambda>(attempts, wait, ctxErr, h, attempt, w). nat (attempts - attempt))") auto

definition Retry ::
    "int \<Rightarrow> (int \<Rightarrow> 'w \<Rightarrow> herr option \<times> 'w) \<Rightarrow> ('w \<Rightarrow> herr option) \<Rightarrow> 'w handler \<Rightarrow> 'w handler" where
  "Retry attempts wait ctxErr h = retry_loop attempts wait ctxErr h 1"

declare retry_loop.simps [simp del]

section \<open>The effect log over the life of a task\<close>

lemma Do_recorded:
  assumes "get (bEffects b) key = Some blob" "unmarshal blob = Some v"
  shows "Do zero marshal unmarshal saver key effect b w = ((v, None), b, w)"
  using assms by (simp add: Do_def)

lemma Do_cases:
  assumes "Do zero marshal unmarshal saver key effect b w = (r, b', w')"
  obtains (recorded) "get (bEffects b) key \<noteq> None" "b' = b" "w' = w"
    | (failed) e where "get (bEffects b) key = None" "effect w = (Inl e, w')" "b' = b"
        "r = (zero, Some e)"
    | (unencoded) v e where "get (bEffects b) key = None" "effect w = (Inr v, w')" "b' = b"
        "marshal v = Inl e" "snd r \<noteq> None"
    | (ran) v blob w1 e where "get (bEffects b) key = None" "effect w = (Inr v, w1)"
        "marshal v = Inr blob" "b' = b\<lparr>bEffects := put key blob (bEffects b)\<rparr>"
        "Checkpoint saver b' w1 = (e, w')" "fst r = v" "snd r = None \<longleftrightarrow> e = None"
  using assms unfolding Do_def Let_def
  by (auto split: option.splits prod.splits sum.splits)

text \<open>
  The life of a task: its instance, the snapshot the repository holds, and the keys whose effect
  succeeded, in order. What happens: a Do under a key, whose effect ends as told and whose checkpoint
  reaches the repository or not; a checkpoint of the engine; the instance's own work on its durable
  state; and a crash, after which the instance is restored from the repository. A crash between an
  effect and its checkpoint is a Do with a lost checkpoint and then a crash.
\<close>

datatype ('v, 'd) life_event =
    CallDo string "string + 'v" bool
  | Save bool
  | Work 'd
  | Crash

record ('i, 'd) life =
  lInst :: "('i, 'd) inst option"
  lDisk :: json
  lRuns :: "string list"

definition saver_of :: "'d codecs \<Rightarrow> bool \<Rightarrow> ('d, json \<times> string list) saver" where
  "saver_of c ok b w =
     (case Snapshot c b of
        Inl e \<Rightarrow> (Some e, w)
      | Inr snap \<Rightarrow> if ok then (None, (snap, snd w)) else (Some ''repository'', w))"

definition noting :: "string \<Rightarrow> string + 'v \<Rightarrow> json \<times> string list \<Rightarrow> (string + 'v) \<times> json \<times> string list" where
  "noting key out w = (case out of Inl e \<Rightarrow> (Inl e, w) | Inr v \<Rightarrow> (Inr v, (fst w, snd w @ [key])))"

definition with_base :: "('i, 'd) life \<Rightarrow> ('d base \<Rightarrow> json \<times> string list \<Rightarrow> 'd base \<times> json \<times> string list) \<Rightarrow> ('i, 'd) life" where
  "with_base l f =
     (case lInst l of
        None \<Rightarrow> l
      | Some x \<Rightarrow>
          (case instBase x of
             None \<Rightarrow> l
           | Some b \<Rightarrow>
               (case f b (lDisk l, lRuns l) of
                  (b', disk', runs') \<Rightarrow>
                    l\<lparr>lInst := Some (x\<lparr>instBase := Some b'\<rparr>), lDisk := disk', lRuns := runs'\<rparr>)))"

fun life_step ::
    "'d codecs \<Rightarrow> ('i, 'd) module \<Rightarrow> 'v \<Rightarrow> ('v \<Rightarrow> string + json) \<Rightarrow> (json \<Rightarrow> 'v option) \<Rightarrow> string
      \<Rightarrow> ('i, 'd) life \<Rightarrow> ('v, 'd) life_event \<Rightarrow> ('i, 'd) life" where
  "life_step c m zero mar unm task l (CallDo key out ok) =
     with_base l (\<lambda>b w. snd (Do zero mar unm (Some (saver_of c ok)) key (noting key out) b w))"
| "life_step c m zero mar unm task l (Save ok) =
     with_base l (\<lambda>b w. (b, snd (saver_of c ok b w)))"
| "life_step c m zero mar unm task l (Work d) =
     with_base l (\<lambda>b w. (if bDurable b = None then b else b\<lparr>bDurable := Some d\<rparr>, w))"
| "life_step c m zero mar unm task l Crash =
     l\<lparr>lInst := (case RestoreInstance c m task (lDisk l) of Inl e \<Rightarrow> None | Inr x \<Rightarrow> Some x)\<rparr>"

definition life_run ::
    "'d codecs \<Rightarrow> ('i, 'd) module \<Rightarrow> 'v \<Rightarrow> ('v \<Rightarrow> string + json) \<Rightarrow> (json \<Rightarrow> 'v option) \<Rightarrow> string
      \<Rightarrow> ('v, 'd) life_event list \<Rightarrow> ('i, 'd) life \<Rightarrow> ('i, 'd) life" where
  "life_run c m zero mar unm task evs l = foldl (life_step c m zero mar unm task) l evs"

text \<open>The engine checkpoints an instance before its first state.\<close>

definition life_start :: "'d codecs \<Rightarrow> ('i, 'd) inst \<Rightarrow> ('i, 'd) life option" where
  "life_start c x =
     (case instBase x of
        None \<Rightarrow> None
      | Some b \<Rightarrow>
          (case Snapshot c b of
             Inl e \<Rightarrow> None
           | Inr snap \<Rightarrow> Some \<lparr>lInst = Some x, lDisk = snap, lRuns = []\<rparr>))"

text \<open>The events that can let an effect run again: its own Do, with the checkpoint lost.\<close>

fun lost :: "string \<Rightarrow> ('v, 'd) life_event \<Rightarrow> bool" where
  "lost key (CallDo k out ok) = (k = key \<and> \<not> ok)"
| "lost key _ = False"

definition logged :: "'d codecs \<Rightarrow> json \<Rightarrow> string \<Rightarrow> bool" where
  "logged c disk key \<longleftrightarrow>
     (case envUnmarshal c disk of None \<Rightarrow> False | Some env \<Rightarrow> get (envEffects env) key \<noteq> None)"

definition knows :: "('i, 'd) life \<Rightarrow> string \<Rightarrow> bool" where
  "knows l key \<longleftrightarrow> (\<forall>x b. lInst l = Some x \<longrightarrow> instBase x = Some b \<longrightarrow> get (bEffects b) key \<noteq> None)"

lemma Snapshot_effects:
  assumes "codecs_ok c" "Snapshot c b = Inr snap"
  obtains env where "envUnmarshal c snap = Some env" "envEffects env = bEffects b"
    "envInput env = bInput b"
  using assms by (auto simp: Snapshot_def codecs_ok_def split: option.splits sum.splits)

lemma logged_Snapshot:
  "codecs_ok c \<Longrightarrow> Snapshot c b = Inr snap \<Longrightarrow> logged c snap key \<longleftrightarrow> get (bEffects b) key \<noteq> None"
  by (erule (1) Snapshot_effects) (simp add: logged_def)

lemma restore_effects:
  "restore c env b = Inr b' \<Longrightarrow>
     bEffects b' = (if envEffects env \<noteq> [] then envEffects env else bEffects b)"
  by (auto simp: restore_def Let_def split: option.splits if_splits)

lemma RestoreInstance_knows:
  assumes "RestoreInstance c m task disk = Inr x" "instBase x = Some b" "logged c disk key"
  shows "get (bEffects b) key \<noteq> None"
proof -
  from assms(1) obtain env b0 where env: "envUnmarshal c disk = Some env"
    and b: "restore c env b0 = Inr b"
    using assms(2)
    by (auto simp: RestoreInstance_def split: option.splits sum.splits if_splits)
  then show ?thesis
    using assms(3) restore_effects [OF b] by (auto simp: logged_def)
qed

lemma saver_of_cases:
  assumes "saver_of c ok b w = (e, disk', runs')"
  obtains "ok" "Snapshot c b = Inr disk'" "runs' = snd w" "e = None"
    | "disk' = fst w" "runs' = snd w" "e \<noteq> None" "\<not> ok \<or> (\<exists>d e. durMarshal c d = Inl e)"
  using assms by (cases w) (auto simp: saver_of_def Snapshot_def split: sum.splits option.splits if_splits)

text \<open>What is in the repository's log is in the instance's, and each effect ran at most once for the
  log and once per lost checkpoint of its own.\<close>

definition life_inv :: "'d codecs \<Rightarrow> string \<Rightarrow> nat \<Rightarrow> ('i, 'd) life \<Rightarrow> bool" where
  "life_inv c key n l \<longleftrightarrow> (logged c (lDisk l) key \<longrightarrow> knows l key) \<and>
     count_list (lRuns l) key \<le> n + (if logged c (lDisk l) key then 1 else 0)"

lemma life_invI:
  assumes "lInst l = Some x" "instBase x = Some b"
    and "logged c (lDisk l) key \<Longrightarrow> get (bEffects b) key \<noteq> None"
    and "count_list (lRuns l) key \<le> n + (if logged c (lDisk l) key then 1 else 0)"
  shows "life_inv c key n l"
  using assms by (auto simp: life_inv_def knows_def)

lemma count_list_snoc: "count_list (xs @ [x]) y = count_list xs y + (if x = y then 1 else 0)"
  by (induction xs) auto

lemma with_base_cases:
  assumes "l' = with_base l f"
  obtains "l' = l"
    | x b b' disk' runs' where "lInst l = Some x" "instBase x = Some b"
        "f b (lDisk l, lRuns l) = (b', disk', runs')"
        "lInst l' = Some (x\<lparr>instBase := Some b'\<rparr>)" "lDisk l' = disk'" "lRuns l' = runs'"
  using assms unfolding with_base_def
  by (auto split: option.splits prod.splits)

lemma CallDo_inv:
  assumes c: "codecs_ok c" and dur: "\<And>d. \<exists>j. durMarshal c d = Inr j"
    and mar: "\<And>v. \<exists>j. mar v = Inr j" and inv: "life_inv c key n l"
  shows "life_inv c key (n + (if k = key \<and> \<not> ok then 1 else 0))
    (life_step c m zero mar unm task l (CallDo k out ok))" (is "life_inv c key ?n ?l")
proof -
  have "?l = with_base l (\<lambda>b w. snd (Do zero mar unm (Some (saver_of c ok)) k (noting k out) b w))"
    by (rule life_step.simps)
  then show ?thesis
  proof (cases rule: with_base_cases)
  case 1
  with inv show ?thesis by (auto simp: life_inv_def)
next
  case (2 x b b' disk' runs')
  obtain r where d: "Do zero mar unm (Some (saver_of c ok)) k (noting k out) b (lDisk l, lRuns l) = (r, b', disk', runs')"
    using 2(3) by (cases "Do zero mar unm (Some (saver_of c ok)) k (noting k out) b (lDisk l, lRuns l)") auto
  have kn: "logged c (lDisk l) key \<Longrightarrow> get (bEffects b) key \<noteq> None"
    and cnt: "count_list (lRuns l) key \<le> n + (if logged c (lDisk l) key then 1 else 0)"
    using inv 2(1,2) by (auto simp: life_inv_def knows_def)
  show ?thesis
  proof (rule life_invI [OF 2(4)])
    show "instBase (x\<lparr>instBase := Some b'\<rparr>) = Some b'" by simp
    from d have "(logged c disk' key \<longrightarrow> get (bEffects b') key \<noteq> None) \<and>
        count_list runs' key \<le> ?n + (if logged c disk' key then 1 else 0)"
    proof (cases rule: Do_cases)
      case recorded
      with kn cnt show ?thesis by (auto split: if_splits)
    next
      case failed
      with kn cnt show ?thesis by (auto simp: noting_def split: sum.splits if_splits)
    next
      case (unencoded v e)
      with mar [of v] show ?thesis by auto
    next
      case (ran v blob w1 e)
      then have w1: "w1 = (lDisk l, lRuns l @ [k])" by (auto simp: noting_def split: sum.splits)
      have kept: "get (bEffects b) key \<noteq> None \<Longrightarrow> get (bEffects b') key \<noteq> None"
        and new: "get (bEffects b') k \<noteq> None"
        using ran(4) by auto
      have k: "k = key \<Longrightarrow> \<not> logged c (lDisk l) key" using kn ran(1) by auto
      from ran(5) have "saver_of c ok b' w1 = (e, disk', runs')" by (simp add: Checkpoint_def)
      then show ?thesis
      proof (cases rule: saver_of_cases)
        case 1
        then have "logged c disk' key \<longleftrightarrow> get (bEffects b') key \<noteq> None"
          using c logged_Snapshot by blast
        then show ?thesis using 1 cnt k kept kn new w1 by (auto simp: count_list_snoc split: if_splits)
      next
        case 2
        then have "\<not> ok" using dur by (metis Inl_Inr_False)
        then show ?thesis using 2 cnt k kept kn new w1 by (auto simp: count_list_snoc split: if_splits)
      qed
    qed
    then show "logged c (lDisk ?l) key \<Longrightarrow> get (bEffects b') key \<noteq> None"
      and "count_list (lRuns ?l) key \<le> ?n + (if logged c (lDisk ?l) key then 1 else 0)"
      using 2(5,6) by auto
  qed
qed
qed

lemma Save_inv:
  assumes c: "codecs_ok c" and inv: "life_inv c key n l"
  shows "life_inv c key n (life_step c m zero mar unm task l (Save ok))" (is "life_inv c key n ?l")
proof -
  have "?l = with_base l (\<lambda>b w. (b, snd (saver_of c ok b w)))" by simp
  then show ?thesis
  proof (cases rule: with_base_cases)
    case 1
    with inv show ?thesis by simp
  next
    case (2 x b b' disk' runs')
    then obtain e where "saver_of c ok b (lDisk l, lRuns l) = (e, disk', runs')" and b: "b' = b"
      by (cases "saver_of c ok b (lDisk l, lRuns l)") auto
    then show ?thesis
    proof (cases rule: saver_of_cases)
      case 1
      then have "logged c disk' key \<longleftrightarrow> get (bEffects b) key \<noteq> None"
        using c logged_Snapshot by blast
      with 1 2 b inv show ?thesis by (auto simp: life_inv_def knows_def split: if_splits)
    next
      case 2
      with \<open>lInst l = Some x\<close> \<open>instBase x = Some b\<close> \<open>lInst ?l = _\<close> \<open>lDisk ?l = _\<close> \<open>lRuns ?l = _\<close> b inv
      show ?thesis by (auto simp: life_inv_def knows_def)
    qed
  qed
qed

lemma Work_inv:
  assumes inv: "life_inv c key n l"
  shows "life_inv c key n (life_step c m zero mar unm task l (Work d))"
  using inv unfolding life_inv_def knows_def
  by (auto simp: with_base_def split: option.splits if_splits)

lemma Crash_inv:
  assumes inv: "life_inv c key n l"
  shows "life_inv c key n (life_step c m zero mar unm task l Crash)"
  using inv RestoreInstance_knows [of c m task "lDisk l"]
  by (fastforce simp: life_inv_def knows_def split: sum.splits)

lemma life_run_inv:
  assumes c: "codecs_ok c" and dur: "\<And>d. \<exists>j. durMarshal c d = Inr j"
    and mar: "\<And>v. \<exists>j. mar v = Inr j" and inv: "life_inv c key n l"
  shows "life_inv c key (n + length (filter (lost key) evs)) (life_run c m zero mar unm task evs l)"
  using inv unfolding life_run_def
proof (induction evs arbitrary: n l)
  case Nil
  then show ?case by simp
next
  case (Cons ev evs)
  have "life_inv c key (n + (if lost key ev then 1 else 0)) (life_step c m zero mar unm task l ev)"
  proof (cases ev)
    case (CallDo k out ok)
    show ?thesis unfolding CallDo lost.simps by (rule CallDo_inv [OF c dur mar Cons.prems])
  next
    case (Save ok)
    then show ?thesis using Save_inv [OF c Cons.prems] by simp
  next
    case (Work d)
    then show ?thesis using Work_inv [OF Cons.prems] by simp
  next
    case Crash
    then show ?thesis using Crash_inv [OF Cons.prems] by simp
  qed
  from Cons.IH [OF this] show ?case by (auto simp: add.commute add.left_commute split: if_splits)
qed

lemma life_start_inv: "codecs_ok c \<Longrightarrow> life_start c x = Some l \<Longrightarrow> life_inv c key 0 l"
  using logged_Snapshot
  by (fastforce simp: life_start_def life_inv_def knows_def split: option.splits sum.splits)

section \<open>Properties\<close>

text \<open>C33. An effect behind Do runs successfully at most once in the life of a task, however often its
  key is called with whatever effect, and however often the task crashes and is restored from its
  last checkpoint; it can run again only after its own checkpoint was lost.\<close>

theorem effect_at_most_once:
  fixes c :: "'d codecs" and mar :: "'v \<Rightarrow> string + json"
  assumes "codecs_ok c" and "\<forall>d. \<exists>j. durMarshal c d = Inr j" and "\<forall>v. \<exists>j. mar v = Inr j"
    and "life_start c x = Some l"
  shows "count_list (lRuns (life_run c m zero mar unm task evs l)) key
    \<le> 1 + length (filter (lost key) evs)"
  using life_run_inv [of c mar key 0 l evs m zero unm task] life_start_inv [of c x l key] assms
  by (auto simp: life_inv_def split: if_splits)

lemma restored:
  assumes c: "codecs_ok c" and snap: "Snapshot c b = Inr snap"
    and input: "bInput b = raw" "raw \<noteq> []" "modUnmarshal m raw = Some i"
    and built: "modBuild m i task = Inr x0" "instBase x0 = Some b0" "bEffects b0 = []"
    and same: "bTask b = task" "bDurable b0 = None \<longleftrightarrow> bDurable b = None"
  shows "RestoreInstance c m task snap = Inr (x0\<lparr>instBase := Some b\<rparr>)"
proof -
  obtain blob where env: "envUnmarshal c snap
      = Some \<lparr>envInput = raw, envEffects = bEffects b, envDurable = blob\<rparr>"
    and blob: "bDurable b = None \<and> blob = [] \<or> (\<exists>d. bDurable b = Some d \<and> durMarshal c d = Inr blob)"
    using c snap input(1)
    by (auto simp: Snapshot_def codecs_ok_def split: option.splits sum.splits)
  have "restore c \<lparr>envInput = raw, envEffects = bEffects b, envDurable = blob\<rparr> (bind_base task raw b0) = Inr b"
    using blob
  proof (elim disjE conjE exE)
    assume "bDurable b = None" "blob = []"
    with same built input show ?thesis
      by (cases b; cases b0) (auto simp: restore_def bind_base_def)
  next
    fix d assume d: "bDurable b = Some d" "durMarshal c d = Inr blob"
    with c have "blob \<noteq> []" "\<forall>d0. durUnmarshal c blob d0 = Some d" by (auto simp: codecs_ok_def)
    with d same built input show ?thesis
      by (cases b; cases b0) (auto simp: restore_def bind_base_def)
  qed
  with env input built show ?thesis
    by (simp add: RestoreInstance_def baseOf_def)
qed

text \<open>A concrete codec for the witnesses: a value is written as the unary numeral of its number in an
  enumeration of all values.\<close>

definition demo_codecs :: "nat codecs" where
  "demo_codecs =
     \<lparr>envMarshal = (\<lambda>e. replicate (Suc (to_nat (envInput e, envEffects e, envDurable e))) CHR ''1''),
      envUnmarshal = (\<lambda>s. case from_nat (length s - 1) of (i, e, d) \<Rightarrow>
        Some \<lparr>envInput = i, envEffects = e, envDurable = d\<rparr>),
      durMarshal = (\<lambda>d. Inr (replicate (Suc d) CHR ''1'')),
      durUnmarshal = (\<lambda>s _. Some (length s - 1))\<rparr>"

definition demo_mar :: "nat \<Rightarrow> string + json" where
  "demo_mar n = Inr (replicate (Suc n) CHR ''1'')"

definition demo_unm :: "json \<Rightarrow> nat option" where
  "demo_unm s = Some (length s - 1)"

definition demo_module :: "(nat, nat) module" where
  "demo_module =
     \<lparr>modID = ''demo'',
      modBuild = (\<lambda>i t. Inr \<lparr>instBase = Some \<lparr>bTask = [], bInput = [], bEffects = [], bDurable = Some i\<rparr>, instInput = i\<rparr>),
      modValidate = None, modZero = 0, modMarshal = demo_mar, modUnmarshal = demo_unm\<rparr>"

definition demo_base :: "nat \<Rightarrow> nat base" where
  "demo_base d = \<lparr>bTask = ''t'', bInput = ''1111'', bEffects = [], bDurable = Some d\<rparr>"

definition demo_inst :: "(nat, nat) inst" where
  "demo_inst = \<lparr>instBase = Some (demo_base 3), instInput = 3\<rparr>"

lemma demo_codecs_ok: "codecs_ok demo_codecs" "\<forall>d. \<exists>j. durMarshal demo_codecs d = Inr j"
  "\<forall>v. \<exists>j. demo_mar v = Inr j" "demo_mar v = Inr blob \<Longrightarrow> demo_unm blob = Some v"
  by (auto simp: codecs_ok_def demo_codecs_def demo_mar_def demo_unm_def)

lemma demo_new_inst: "NewInstance demo_module (AnyIn 3) ''t'' = Inr demo_inst"
  by (simp add: NewInstance_def assertInput_def demo_module_def demo_mar_def baseOf_def bind_base_def
      demo_inst_def demo_base_def numeral_3_eq_3)

lemma demo_start:
  "\<exists>l. life_start demo_codecs demo_inst = Some l"
  by (simp add: life_start_def demo_inst_def demo_base_def Snapshot_def demo_codecs_def)

theorem effect_at_most_once_witness:
  "\<exists>l. life_start demo_codecs demo_inst = Some l \<and>
     count_list (lRuns (life_run demo_codecs demo_module 0 demo_mar demo_unm ''t''
       [CallDo ''pay'' (Inr 5) True, Crash, CallDo ''pay'' (Inr 6) True] l)) ''pay'' \<le> 1"
proof -
  obtain l where l: "life_start demo_codecs demo_inst = Some l" using demo_start by blast
  from effect_at_most_once [OF demo_codecs_ok(1,2,3) l, of demo_module 0 demo_unm "''t''"
      "[CallDo ''pay'' (Inr 5) True, Crash, CallDo ''pay'' (Inr 6) True]" "''pay''"] l
  show ?thesis by auto
qed

text \<open>A snapshot restores the instance it was taken of: a Module that is handed the snapshot of an
  instance it made from some input, taken at any later moment, rebuilds it with the same task, input,
  effect log and durable state.\<close>

theorem snapshot_restores:
  fixes c :: "'d codecs" and b :: "'d base"
  assumes "codecs_ok c" and "NewInstance m (AnyIn i) task = Inr x" and "instBase x = Some b0"
    and "\<exists>raw. modMarshal m i = Inr raw \<and> raw \<noteq> [] \<and> modUnmarshal m raw = Some i"
    and "bEffects b0 = []" and "bTask b = bTask b0" and "bInput b = bInput b0"
    and "bDurable b = None \<longleftrightarrow> bDurable b0 = None" and "Snapshot c b = Inr snap"
  shows "RestoreInstance c m task snap = Inr (x\<lparr>instBase := Some b\<rparr>)"
proof -
  from assms(2,4) obtain raw x0 bb where raw: "modMarshal m i = Inr raw" "raw \<noteq> []" "modUnmarshal m raw = Some i"
    and x0: "modBuild m i task = Inr x0" "instBase x0 = Some bb" "x = x0\<lparr>instBase := Some (bind_base task raw bb)\<rparr>"
    by (auto simp: NewInstance_def assertInput_def baseOf_def split: sum.splits option.splits)
  then have b0: "b0 = bind_base task raw bb" using assms(3) by simp
  have "RestoreInstance c m task snap = Inr (x0\<lparr>instBase := Some b\<rparr>)"
    using assms(5-8) by (intro restored [OF assms(1,9) _ raw(2,3) x0(1,2)]) (auto simp: b0 bind_base_def)
  then show ?thesis by (simp add: x0(3))
qed

theorem snapshot_restores_witness:
  "\<exists>snap. Snapshot demo_codecs ((demo_base 8)\<lparr>bEffects := [(''pay'', ''11'')]\<rparr>) = Inr snap \<and>
     RestoreInstance demo_codecs demo_module ''t'' snap
       = Inr (demo_inst\<lparr>instBase := Some ((demo_base 8)\<lparr>bEffects := [(''pay'', ''11'')]\<rparr>)\<rparr>)"
proof -
  obtain snap where s: "Snapshot demo_codecs ((demo_base 8)\<lparr>bEffects := [(''pay'', ''11'')]\<rparr>) = Inr snap"
    by (simp add: Snapshot_def demo_base_def demo_codecs_def)
  have "RestoreInstance demo_codecs demo_module ''t'' snap
       = Inr (demo_inst\<lparr>instBase := Some ((demo_base 8)\<lparr>bEffects := [(''pay'', ''11'')]\<rparr>)\<rparr>)"
    by (rule snapshot_restores [OF demo_codecs_ok(1) demo_new_inst _ _ _ _ _ _ s, of "demo_base 3"])
      (auto simp: demo_inst_def demo_base_def demo_module_def demo_mar_def demo_unm_def)
  with s show ?thesis by blast
qed

text \<open>Once a Do has returned without an error, every later Do under its key, in the same process or
  in an instance restored from the checkpoint it wrote, returns the value it returned and runs no
  effect.\<close>

theorem recorded_result_is_replayed:
  fixes c :: "'d codecs" and mar :: "'v \<Rightarrow> string + json"
  assumes "codecs_ok c" and "\<forall>v blob. mar v = Inr blob \<longrightarrow> unm blob = Some v"
    and "get (bEffects b) key = None"
    and "Do zero mar unm (Some (saver_of c ok)) key effect b w = ((v, None), b1, (disk, runs))"
  shows "Do zero mar unm saver key effect' b1 w' = ((v, None), b1, w')
    \<and> (\<forall>x b2. RestoreInstance c m task disk = Inr x \<longrightarrow> instBase x = Some b2 \<longrightarrow>
          Do zero mar unm saver key effect' b2 w' = ((v, None), b2, w'))"
  using assms(4)
proof (cases rule: Do_cases)
  case (ran u blob w1 e)
  then have e: "e = None" and blob: "unm blob = Some v" "get (bEffects b1) key = Some blob"
    using assms(2) by auto
  have "saver_of c ok b1 w1 = (e, disk, runs)" using ran(5) by (simp add: Checkpoint_def)
  then have snap: "Snapshot c b1 = Inr disk" using e by (cases rule: saver_of_cases) auto
  have "get (bEffects b2) key = Some blob"
    if x: "RestoreInstance c m task disk = Inr x" "instBase x = Some b2" for x b2
  proof -
    from snap assms(1) obtain env where env: "envUnmarshal c disk = Some env" "envEffects env = bEffects b1"
      by (elim Snapshot_effects [rotated]) auto
    with x obtain b0 where "restore c env b0 = Inr b2"
      by (auto simp: RestoreInstance_def split: option.splits sum.splits if_splits)
    from restore_effects [OF this] blob(2) env(2) show ?thesis by (auto split: if_splits)
  qed
  with blob show ?thesis by (auto intro: Do_recorded)
next
  case recorded
  with assms(3) show ?thesis by simp
qed simp_all

definition demo_paid :: "nat base" where
  "demo_paid = (demo_base 3)\<lparr>bEffects := [(''pay'', ''111111'')]\<rparr>"

theorem recorded_result_is_replayed_witness:
  "\<exists>disk x. Snapshot demo_codecs demo_paid = Inr disk \<and>
     RestoreInstance demo_codecs demo_module ''t'' disk = Inr x \<and> instBase x = Some demo_paid \<and>
     Do 0 demo_mar demo_unm None ''pay'' (noting ''pay'' (Inr 6)) demo_paid ([], [])
       = ((5, None), demo_paid, ([], []))"
proof -
  obtain disk where s: "Snapshot demo_codecs demo_paid = Inr disk"
    by (simp add: Snapshot_def demo_paid_def demo_base_def demo_codecs_def)
  have d: "Do 0 demo_mar demo_unm (Some (saver_of demo_codecs True)) ''pay''
      (noting ''pay'' (Inr 5)) (demo_base 3) ([], []) = ((5, None), demo_paid, (disk, [''pay'']))"
    using s by (simp add: Do_def demo_base_def noting_def demo_mar_def Let_def Checkpoint_def
        saver_of_def demo_paid_def eval_nat_numeral)
  have x: "RestoreInstance demo_codecs demo_module ''t'' disk
      = Inr (\<lparr>instBase = Some demo_paid, instInput = 3\<rparr>)"
    by (subst restored [OF demo_codecs_ok(1) s refl])
      (auto simp: demo_paid_def demo_base_def demo_module_def demo_unm_def)
  have new: "get (bEffects (demo_base 3)) ''pay'' = None" by (simp add: demo_base_def)
  have mar: "\<forall>v blob. demo_mar v = Inr blob \<longrightarrow> demo_unm blob = Some v" using demo_codecs_ok(4) by blast
  from recorded_result_is_replayed [OF demo_codecs_ok(1) mar new d, of None "noting ''pay'' (Inr 6)" "([], [])"
      demo_module "''t''"] x s
  show ?thesis by auto
qed

text \<open>Retry. The handler is counted: its world carries how often it ran.\<close>

definition counted :: "'w handler \<Rightarrow> (nat \<times> 'w) handler" where
  "counted h w = (case h (snd w) of (r, w') \<Rightarrow> (r, (Suc (fst w), w')))"

definition uncounted :: "(int \<Rightarrow> 'w \<Rightarrow> herr option \<times> 'w) \<Rightarrow> int \<Rightarrow> nat \<times> 'w \<Rightarrow> herr option \<times> nat \<times> 'w" where
  "uncounted wait n w = (case wait n (snd w) of (r, w') \<Rightarrow> (r, (fst w, w')))"

definition retryable :: "herr + string option \<Rightarrow> bool" where
  "retryable r \<longleftrightarrow> (\<exists>e. r = Inl e \<and> as_permanent e = None)"

lemma retry_loop_bounds:
  assumes "retry_loop attempts (uncounted wait) (ctxErr \<circ> snd) (counted h) a (n, w) = (r, (n', w'))"
  shows "n < n' \<and> int (n' - n) \<le> max 1 (attempts - a + 1)"
  using assms
proof (induction "nat (attempts - a)" arbitrary: a n w rule: less_induct)
  case less
  obtain r1 w1 where h: "h w = (r1, w1)" by (cases "h w")
  show ?case
  proof (cases "retryable r1 \<and> a < attempts \<and> ctxErr w1 = None \<and> fst (wait a w1) = None")
    case True
    then obtain e w2 where r: "r1 = Inl e" "as_permanent e = None" "wait a w1 = (None, w2)"
      by (cases "wait a w1") (auto simp: retryable_def)
    with True h less.prems have "retry_loop attempts (uncounted wait) (ctxErr \<circ> snd) (counted h) (a + 1) (Suc n, w2)
        = (r, (n', w'))"
      by (subst (asm) retry_loop.simps) (simp add: counted_def uncounted_def)
    from less.hyps [OF _ this] True show ?thesis by auto
  next
    case False
    with h less.prems have "n' = Suc n"
      by (subst (asm) retry_loop.simps)
        (auto simp: counted_def uncounted_def retryable_def split: sum.splits option.splits if_splits prod.splits)
    then show ?thesis by simp
  qed
qed

lemma retry_bounds:
  assumes "Retry attempts (uncounted wait) (ctxErr \<circ> snd) (counted h) (0, w) = (r, (n, w'))"
  shows "1 \<le> n \<and> int n \<le> max 1 attempts"
  using retry_loop_bounds [OF assms [unfolded Retry_def]] by auto

text \<open>What Retry returns of a result of the handler: the error below a permanent mark.\<close>

definition underlying :: "herr + string option \<Rightarrow> herr + string option" where
  "underlying r =
     (case r of
        Inr next \<Rightarrow> Inr next
      | Inl e \<Rightarrow> Inl (case as_permanent e of None \<Rightarrow> e | Some e' \<Rightarrow> e'))"

lemma retry_loop_script:
  assumes "\<And>j. n \<le> j \<Longrightarrow> j < k \<Longrightarrow> retryable (outs j)" and "n \<le> k"
    and "int k < max 1 attempts" and "\<not> retryable (outs k) \<or> int k + 1 = max 1 attempts"
  shows "retry_loop attempts (\<lambda>_ w. (None, w)) (\<lambda>_. None) (\<lambda>n. (outs n, Suc n)) (int n + 1) n
    = (underlying (outs k), Suc k)"
  using assms
proof (induction "k - n" arbitrary: n)
  case 0
  then have n: "n = k" by simp
  then show ?case using "0.prems"(3,4)
    by (subst retry_loop.simps)
      (auto simp: retryable_def underlying_def split: sum.splits option.splits)
next
  case (Suc d)
  from Suc.hyps(2) Suc.prems have r: "retryable (outs n)" and lt: "n < k" by auto
  have "retry_loop attempts (\<lambda>_ w. (None, w)) (\<lambda>_. None) (\<lambda>n. (outs n, Suc n)) (int (Suc n) + 1) (Suc n)
      = (underlying (outs k), Suc k)"
    using Suc.hyps(2) Suc.prems lt by (intro Suc.hyps(1)) auto
  then show ?case using r lt Suc.prems(3)
    by (subst retry_loop.simps) (auto simp: retryable_def split: sum.splits option.splits)
qed

text \<open>Retry runs a handler until it gives an answer: when the first k runs fail with errors not
  marked permanent and the next one succeeds, fails for good, or is the last of the attempts, Retry
  runs the handler exactly k + 1 times and returns that run's result, without the permanent mark.\<close>

theorem retry_first_answer:
  assumes "\<forall>j<k. retryable (outs j)" and "int k < max 1 attempts"
    and "\<not> retryable (outs k) \<or> int k + 1 = max 1 attempts"
  shows "Retry attempts (\<lambda>_ w. (None, w)) (\<lambda>_. None) (\<lambda>n. (outs n, Suc n)) 0
    = (underlying (outs k), Suc k)"
  using retry_loop_script [of 0 k outs attempts] assms by (simp add: Retry_def)

theorem retry_first_answer_witness:
  "Retry 5 (\<lambda>_ w. (None, w)) (\<lambda>_. None)
     (\<lambda>n. ([Inl (Plain ''a''), Inl (Plain ''b''), Inl (Wrapped ''c'' (PermanentErr (Plain ''d'')))] ! n, Suc n)) 0
   = (Inl (Plain ''d''), 3)"
proof -
  have "\<forall>j<2. retryable ([Inl (Plain ''a''), Inl (Plain ''b''), Inl (Wrapped ''c'' (PermanentErr (Plain ''d'')))] ! j)"
    by (simp add: retryable_def less_Suc_eq numeral_2_eq_2)
  from retry_first_answer [OF this, of 5] show ?thesis
    by (simp add: retryable_def underlying_def)
qed

text \<open>The last definition of a state is the one the graph runs, and its options nest in the order they
  are listed.\<close>

lemma graph_last_definition: "Handler (NewGraph initial defs) s = map_of (rev defs) s"
proof -
  have "get (fold (\<lambda>(name, h) m. put name h m) defs m0) s
      = (case map_of (rev defs) s of None \<Rightarrow> get m0 s | Some h \<Rightarrow> Some h)" for m0
    by (induction defs arbitrary: m0) (auto simp: map_add_def split: option.splits)
  then show ?thesis by (simp add: Handler_def NewGraph_def split: option.splits)
qed

lemma On_last: "On name h (opts @ [opt]) = (name, opt (snd (On name h opts)))"
  by (simp add: On_def)

end
