(* ===== verification/Tasks_Types.thy ===== *)
theory Tasks_Types
  imports Workflows Leasing_Types
begin

text \<open>
  The data of the tasks package: the durable record of a task and its errors (src/tasks/tasks.go),
  task groups, the placement of a task per resource kind and the options that create it
  (src/tasks/groups.go), and how a placement is settled against the task's group
  (src/tasks/manager.go).

  A nil byte slice is the empty one here. A pointer to a string is an option: None is nil, which
  inherits, and Some of the empty string is an explicit none.
\<close>

section \<open>Placement\<close>

definition TasksGlobalGroup :: string where
  "TasksGlobalGroup = ''global''"

record placement =
  plGroupID :: "string option"
  plResourceID :: "string option"

definition noPlacement :: placement where
  "noPlacement = \<lparr>plGroupID = None, plResourceID = None\<rparr>"

text \<open>The resolved placement that a workflow instance is handed.\<close>

record resolved =
  rvGroupID :: string
  rvResourceID :: string

definition zeroResolved :: resolved where
  "zeroResolved = \<lparr>rvGroupID = [], rvResourceID = []\<rparr>"

type_synonym kind = string

record tgroup =
  tgID :: string
  tgResourceGroups :: "(kind, string) gomap"
  tgCreatedAt :: time
  tgUpdatedAt :: time

definition zeroTGroup :: "string \<Rightarrow> tgroup" where
  "zeroTGroup i = \<lparr>tgID = i, tgResourceGroups = [], tgCreatedAt = 0, tgUpdatedAt = 0\<rparr>"

record createConfig =
  ccGroupID :: string
  ccAssignments :: "(kind, placement) gomap"

definition assign :: "kind \<Rightarrow> (placement \<Rightarrow> placement) \<Rightarrow> createConfig \<Rightarrow> createConfig" where
  "assign kind apply c =
     c\<lparr>ccAssignments := put kind (apply (get_or noPlacement (ccAssignments c) kind)) (ccAssignments c)\<rparr>"

definition InGroup :: "string \<Rightarrow> createConfig \<Rightarrow> createConfig" where
  "InGroup groupID c = c\<lparr>ccGroupID := groupID\<rparr>"

definition WithResourceGroup :: "kind \<Rightarrow> string \<Rightarrow> createConfig \<Rightarrow> createConfig" where
  "WithResourceGroup kind groupID = assign kind (\<lambda>a. a\<lparr>plGroupID := Some groupID\<rparr>)"

definition WithPin :: "kind \<Rightarrow> string \<Rightarrow> createConfig \<Rightarrow> createConfig" where
  "WithPin kind resourceID = assign kind (\<lambda>a. a\<lparr>plResourceID := Some resourceID\<rparr>)"

definition Without :: "kind \<Rightarrow> createConfig \<Rightarrow> createConfig" where
  "Without kind = assign kind (\<lambda>a. a\<lparr>plGroupID := Some [], plResourceID := Some []\<rparr>)"

definition newConfig :: "(createConfig \<Rightarrow> createConfig) list \<Rightarrow> createConfig" where
  "newConfig opts = fold (\<lambda>opt c. opt c) opts \<lparr>ccGroupID = TasksGlobalGroup, ccAssignments = []\<rparr>"

definition resolve :: "placement \<Rightarrow> tgroup \<Rightarrow> kind \<Rightarrow> resolved" where
  "resolve own grp kind =
     \<lparr>rvGroupID = (case plGroupID own of Some g \<Rightarrow> g | None \<Rightarrow> get_or [] (tgResourceGroups grp) kind),
      rvResourceID = (case plResourceID own of Some r \<Rightarrow> r | None \<Rightarrow> [])\<rparr>"

definition resolveAll :: "(kind, placement) gomap \<Rightarrow> tgroup \<Rightarrow> (kind, resolved) gomap" where
  "resolveAll assignments grp =
     (let settle = (\<lambda>kind m. put kind (resolve (get_or noPlacement assignments kind) grp kind) m);
          r = fold settle (map fst (tgResourceGroups grp)) []
      in fold settle (map fst assignments) r)"

text \<open>The kinds are checked in sorted order, so the error names the least bad one.\<close>

definition validKinds :: "(kind, 'v) gomap \<Rightarrow> kind_error option" where
  "validKinds kinds =
     (case filter (\<lambda>k. kind_Validate k \<noteq> None) (sort (map fst kinds)) of
        [] \<Rightarrow> None
      | k # _ \<Rightarrow> kind_Validate k)"

section \<open>The record of a task\<close>

record task =
  tID :: string
  tWorkflowID :: string
  tGroupID :: string
  tAssignments :: "(kind, placement) gomap"
  tState :: string
  tSnapshot :: json
  tStatus :: string
  tOutput :: json
  tCreatedAt :: time
  tUpdatedAt :: time

definition groupOf :: "task \<Rightarrow> string" where
  "groupOf record = (if tGroupID record = [] then TasksGlobalGroup else tGroupID record)"

text \<open>Errors of a run and of the manager; an error that joins two is either of them.\<close>

datatype task_error =
    ErrNoCheckpoint
  | ErrTaskDeleted
  | ErrAlreadyStarted
  | ErrAlreadyTerminal
  | ErrDetached
  | CtxCanceled
  | ErrMsg string
  | ErrWrap string task_error
  | ErrJoin task_error task_error

text \<open>\<^theory_text>\<open>errors.Is\<close> and \<^theory_text>\<open>errors.Join\<close> of two, either of which may be nil.\<close>

fun err_is :: "task_error \<Rightarrow> task_error \<Rightarrow> bool" where
  "err_is (ErrWrap s e) t = (ErrWrap s e = t \<or> err_is e t)"
| "err_is (ErrJoin a b) t = (ErrJoin a b = t \<or> err_is a t \<or> err_is b t)"
| "err_is e t = (e = t)"

fun err_join :: "task_error option \<Rightarrow> task_error option \<Rightarrow> task_error option" where
  "err_join None e = e"
| "err_join e None = e"
| "err_join (Some a) (Some b) = Some (ErrJoin a b)"

lemma err_join_None [simp]: "err_join a b = None \<longleftrightarrow> a = None \<and> b = None"
  by (cases a; cases b) auto

lemma err_is_refl [simp]: "err_is e e"
  by (cases e) auto

section \<open>How placement is settled\<close>

lemma get_fold_put:
  "get (fold (\<lambda>k m. put k (f k) m) ks m0) k = (if k \<in> set ks then Some (f k) else get m0 k)"
  by (induction ks arbitrary: m0) auto

lemma get_resolveAll:
  "get (resolveAll assignments grp) kind =
     (if kind \<in> fst ` set assignments \<or> kind \<in> fst ` set (tgResourceGroups grp)
      then Some (resolve (get_or noPlacement assignments kind) grp kind) else None)"
  by (simp add: resolveAll_def Let_def get_fold_put)

lemma filter_hd: "filter P xs = k # ks \<Longrightarrow> P k \<and> k \<in> set xs"
  by (induction xs) (auto split: if_splits)

lemma validKinds_None: "validKinds kinds = None \<longleftrightarrow> (\<forall>k \<in> fst ` set kinds. kind_Validate k = None)"
proof (cases "filter (\<lambda>k. kind_Validate k \<noteq> None) (sort (map fst kinds))")
  case Nil
  then show ?thesis by (auto simp: validKinds_def filter_empty_conv)
next
  case (Cons k ks)
  then have "kind_Validate k \<noteq> None" "k \<in> fst ` set kinds"
    using filter_hd [OF Cons] by simp_all
  with Cons show ?thesis by (auto simp: validKinds_def)
qed

lemma validKinds_order:
  assumes "wf_map kinds" "wf_map kinds'" "map_of kinds = map_of kinds'"
  shows "validKinds kinds = validKinds kinds'"
proof -
  have "fst ` set kinds = fst ` set kinds'"
    using get_eq_set_eq [OF assms] by simp
  then have "sort (map fst kinds) = sort (map fst kinds')"
    using assms(1,2) sort_key_same_set [of "map fst kinds" "map fst kinds'" "\<lambda>x. x"]
    by (simp add: inj_on_def)
  then show ?thesis by (simp add: validKinds_def)
qed

lemma get_or_resolveAll:
  "get_or zeroResolved (resolveAll own grp) kind = resolve (get_or noPlacement own kind) grp kind"
proof (cases "kind \<in> fst ` set own \<or> kind \<in> fst ` set (tgResourceGroups grp)")
  case True
  then show ?thesis by (simp add: get_or_def [of zeroResolved] get_resolveAll)
next
  case False
  then have "get own kind = None" "get (tgResourceGroups grp) kind = None"
    by (simp_all add: map_of_eq_None_iff)
  with False show ?thesis
    by (simp add: get_or_def [of zeroResolved] get_resolveAll zeroResolved_def noPlacement_def resolve_def)
qed

text \<open>The placement of a task is settled kind by kind, and a kind that neither the task nor its
  group names reads as the zero assignment, which is what settling it would have given: the map that
  an instance is handed answers for every kind exactly as the task's own field where it is set,
  an empty one included, and the group's resource group otherwise.\<close>

theorem placement_settled:
  "get_or zeroResolved (resolveAll own grp) kind
     = \<lparr>rvGroupID = (case plGroupID (get_or noPlacement own kind) of
            Some g \<Rightarrow> g | None \<Rightarrow> get_or [] (tgResourceGroups grp) kind),
        rvResourceID = (case plResourceID (get_or noPlacement own kind) of Some r \<Rightarrow> r | None \<Rightarrow> [])\<rparr>"
  by (simp add: get_or_resolveAll resolve_def)

text \<open>An option speaks for its own kind alone, and a later one of that kind adds to what an earlier
  one set.\<close>

lemma assign_other: "k \<noteq> kind \<Longrightarrow> get (ccAssignments (assign kind f c)) k = get (ccAssignments c) k"
  by (simp add: assign_def)

lemma assign_same: "get (ccAssignments (assign kind f (assign kind g c))) kind
    = get (ccAssignments (assign kind (f \<circ> g) c)) kind"
  by (simp add: assign_def)

lemma Without_resolves:
  "get_or zeroResolved (resolveAll (ccAssignments (Without kind c)) grp) kind = zeroResolved"
  by (simp only: get_or_resolveAll) (simp add: resolve_def Without_def assign_def zeroResolved_def)

end
