(* ===== verification/Engine.thy ===== *)
theory Engine
  imports Tasks_Types
begin

text \<open>
  The engine of a task (src/tasks/engine.go) and the handle that starts it (\<^theory_text>\<open>Task.Start\<close> in
  src/tasks/tasks.go).

  The engine is a monitor: Suspend, Resume, Detach, Kill, seal, unseal and the locked sections of run
  each take its mutex, so each is one step here. Between two of them the run is at a program counter
  (\<^theory_text>\<open>pc\<close>) that names the point of the loop it has reached. A run that waits on the condition
  variable is Asleep, and only Signal moves it on, to recheck the loop's condition. The calls the run
  makes without the lock, to the repository, to the instance and to a handler, are steps of their own,
  so any locked operation can come between.

  The workflow is a parameter: a record of the functions its ports offer. What a handler does is not
  fixed at all: it may change the instance, take mid-state checkpoints and return anything.
  The repository keeps one row for the task, and a call can fail.
\<close>

section \<open>State\<close>

record ('i, 'x) workflow =
  wNewInstance :: "'i any \<Rightarrow> task_error + 'x"
  wRestoreInstance :: "(json \<Rightarrow> task_error + 'x) option"
  wGraph :: "'x \<Rightarrow> unit graph"
  wSnapshotter :: "'x \<Rightarrow> bool"
  wSnapshot :: "'x \<Rightarrow> task_error + json"
  wOutput :: "'x \<Rightarrow> (task_error + json) option"
  wTeardown :: "'x \<Rightarrow> string \<Rightarrow> task_error option \<Rightarrow> task_error option"

record engine =
  eState :: string
  eOutput :: json
  eSealed :: bool
  eDetachWanted :: bool
  eDetachDone :: bool
  eCancelled :: bool
  eCurrent :: string
  eSnap :: bool

definition newEngine :: engine where
  "newEngine = \<lparr>eState = StatusNotStarted, eOutput = [], eSealed = False, eDetachWanted = False,
     eDetachDone = False, eCancelled = False, eCurrent = [], eSnap = False\<rparr>"

datatype pc =
    Idle
  | Begun "string option"
  | Top "string option"
  | SavingSuspend string
  | Woken string
  | Asleep string
  | Live "string option"
  | Saving string
  | Saved string
  | Executing string
  | Finishing "task_error option"
  | Stamping "task_error option" string json
  | Tearing "task_error option" "task_error option"
  | Returning "task_error option"
  | Exited "task_error option"

text \<open>A handle with its engine and run, the row of its task, the mid-state checkpoints that have
  passed their check and not yet written, and, for the theorems only, how many runs the engine
  admitted, how often an instance was torn down and which states were entered.\<close>

record ('i, 'x) run =
  rTask :: task
  rInput :: "'i any"
  rRecovered :: bool
  rEngine :: engine
  rInst :: "'x option"
  rGraph :: "unit graph"
  rPc :: pc
  rRepo :: bool
  rRow :: "task option"
  rMids :: "string list"
  gRuns :: nat
  gTorn :: nat
  gEntered :: "string list"

section \<open>The locked operations\<close>

text \<open>Each gives the engine it leaves, its error, and whether it signals the waiter.\<close>

definition eng_live :: "engine \<Rightarrow> bool" where
  "eng_live e \<longleftrightarrow> (eState e = StatusRunning \<or> eState e = StatusSuspended) \<and> \<not> eDetachDone e"

definition IsRunning :: "engine \<Rightarrow> bool" where
  "IsRunning e = eng_live e"

definition Suspend :: "engine \<Rightarrow> engine" where
  "Suspend e =
     (if eDetachWanted e \<or> eDetachDone e then e
      else if eState e = StatusRunning then e\<lparr>eState := StatusSuspended\<rparr> else e)"

definition Resume :: "engine \<Rightarrow> engine \<times> bool" where
  "Resume e =
     (if eDetachWanted e \<or> eDetachDone e then (e, False)
      else if eState e = StatusSuspended then (e\<lparr>eState := StatusRunning\<rparr>, True) else (e, False))"

definition Detach :: "engine \<Rightarrow> task_error option \<times> engine \<times> bool" where
  "Detach e =
     (if eDetachWanted e \<or> eDetachDone e then (None, e, False)
      else if eState e \<noteq> StatusSuspended
        then (Some (ErrMsg (''cannot detach: task is '' @ eState e)), e, False)
      else (None, e\<lparr>eDetachWanted := True\<rparr>, True))"

definition Kill :: "engine \<Rightarrow> engine \<times> bool" where
  "Kill e =
     (if eDetachDone e then (e, False)
      else if eState e = StatusNotStarted then (e\<lparr>eState := StatusKilled\<rparr>, False)
      else if eState e = StatusRunning \<or> eState e = StatusSuspended
        then (e\<lparr>eState := StatusKilled, eCancelled := True\<rparr>, True)
      else (e, False))"

definition seal :: "engine \<Rightarrow> bool \<times> engine" where
  "seal e = (if eng_live e then (False, e) else (True, e\<lparr>eSealed := True\<rparr>))"

definition unseal :: "engine \<Rightarrow> engine" where
  "unseal e = e\<lparr>eSealed := False\<rparr>"

text \<open>The check at the head of run.\<close>

definition admit :: "bool \<Rightarrow> engine \<Rightarrow> task_error + engine" where
  "admit suspended e =
     (if eSealed e then Inl ErrTaskDeleted
      else if eState e \<noteq> StatusNotStarted
        then (if eState e = StatusKilled then Inl CtxCanceled else Inl ErrAlreadyStarted)
      else Inr (e\<lparr>eState := (if suspended then StatusSuspended else StatusRunning)\<rparr>))"

section \<open>The repository's row\<close>

text \<open>A call ends with the error it is given, or writes; a write to a row that is not there fails.\<close>

definition SaveCheckpoint ::
    "time \<Rightarrow> string \<Rightarrow> string \<Rightarrow> json \<Rightarrow> task_error option \<Rightarrow> task option \<Rightarrow> task_error option \<times> task option" where
  "SaveCheckpoint now status st snap fault row =
     (case (fault, row) of
        (Some e, _) \<Rightarrow> (Some e, row)
      | (None, None) \<Rightarrow> (Some (ErrMsg ''task not found''), None)
      | (None, Some r) \<Rightarrow>
          (None, Some (r\<lparr>tStatus := status, tState := st, tSnapshot := snap, tUpdatedAt := now\<rparr>)))"

definition MarkTerminal ::
    "time \<Rightarrow> string \<Rightarrow> json \<Rightarrow> task_error option \<Rightarrow> task option \<Rightarrow> task_error option \<times> task option" where
  "MarkTerminal now outcome out fault row =
     (case (fault, row) of
        (Some e, _) \<Rightarrow> (Some e, row)
      | (None, None) \<Rightarrow> (Some (ErrMsg ''task not found''), None)
      | (None, Some r) \<Rightarrow> (None, Some (r\<lparr>tStatus := outcome, tOutput := out, tUpdatedAt := now\<rparr>)))"

definition checkpoint ::
    "('i, 'x) workflow \<Rightarrow> time \<Rightarrow> string \<Rightarrow> string \<Rightarrow> task_error option \<Rightarrow> ('i, 'x) run
      \<Rightarrow> task_error option \<times> ('i, 'x) run" where
  "checkpoint w now status st fault r =
     (case rInst r of
        None \<Rightarrow> (None, r)
      | Some x \<Rightarrow>
          if \<not> eSnap (rEngine r) \<or> \<not> rRepo r then (None, r)
          else (case wSnapshot w x of
                  Inl e \<Rightarrow> (Some e, r)
                | Inr blob \<Rightarrow>
                    (case SaveCheckpoint now status st blob fault (rRow r) of
                       (err, row) \<Rightarrow> (err, r\<lparr>rRow := row\<rparr>))))"

section \<open>The run\<close>

text \<open>What the loop does when it holds the lock and is not to wait.\<close>

definition decide :: "string option \<Rightarrow> ('i, 'x) run \<Rightarrow> ('i, 'x) run" where
  "decide next r =
     (let e = rEngine r in
      if eState e = StatusKilled then r\<lparr>rPc := Finishing (Some CtxCanceled)\<rparr>
      else if eState e = StatusSuspended \<and> eDetachWanted e
        then r\<lparr>rEngine := e\<lparr>eDetachDone := True\<rparr>, rPc := Finishing (Some ErrDetached)\<rparr>
      else r\<lparr>rPc := Live next\<rparr>)"

definition at_top :: "string option \<Rightarrow> ('i, 'x) run \<Rightarrow> ('i, 'x) run" where
  "at_top next r =
     (let e = (rEngine r)\<lparr>eCurrent := []\<rparr>; r1 = r\<lparr>rEngine := e\<rparr> in
      case next of
        Some s \<Rightarrow> if eState e = StatusSuspended then r1\<lparr>rPc := SavingSuspend s\<rparr> else decide next r1
      | None \<Rightarrow> decide next r1)"

definition recheck :: "string \<Rightarrow> ('i, 'x) run \<Rightarrow> ('i, 'x) run" where
  "recheck s r =
     (if eState (rEngine r) = StatusSuspended \<and> \<not> eDetachWanted (rEngine r) then r\<lparr>rPc := Asleep s\<rparr>
      else decide (Some s) r)"

definition harvest :: "('i, 'x) workflow \<Rightarrow> ('i, 'x) run \<Rightarrow> task_error option \<times> ('i, 'x) run" where
  "harvest w r =
     (case rInst r of
        None \<Rightarrow> (None, r)
      | Some x \<Rightarrow>
          (case wOutput w x of
             None \<Rightarrow> (None, r)
           | Some (Inl e) \<Rightarrow> (Some (ErrWrap ''harvest output'' e), r)
           | Some (Inr blob) \<Rightarrow> (None, r\<lparr>rEngine := (rEngine r)\<lparr>eOutput := blob\<rparr>\<rparr>)))"

definition go_live :: "('i, 'x) workflow \<Rightarrow> string option \<Rightarrow> ('i, 'x) run \<Rightarrow> ('i, 'x) run" where
  "go_live w next r =
     (case next of
        None \<Rightarrow> (case harvest w r of (err, r') \<Rightarrow> r'\<lparr>rPc := Finishing err\<rparr>)
      | Some s \<Rightarrow>
          (case Handler (rGraph r) s of
             None \<Rightarrow> r\<lparr>rPc := Finishing (Some (ErrMsg (''state '' @ s @ '' does not exist'')))\<rparr>
           | Some _ \<Rightarrow> r\<lparr>rPc := Saving s\<rparr>))"

text \<open>finish, up to the stamp, which is written without the lock.\<close>

definition finish :: "task_error option \<Rightarrow> ('i, 'x) run \<Rightarrow> ('i, 'x) run" where
  "finish err r =
     (let e = rEngine r in
      if eDetachDone e then r\<lparr>rPc := Tearing err None\<rparr>
      else let e' = (if eState e \<noteq> StatusKilled
                     then e\<lparr>eState := (if err \<noteq> None then StatusFailed else StatusDone)\<rparr> else e)
           in r\<lparr>rEngine := e', rPc := Stamping err (eState e') (eOutput e')\<rparr>)"

definition stamp :: "time \<Rightarrow> task_error option \<Rightarrow> task_error option \<Rightarrow> string \<Rightarrow> json \<Rightarrow> ('i, 'x) run \<Rightarrow> ('i, 'x) run" where
  "stamp now fault err outcome out r =
     (if \<not> rRepo r then r\<lparr>rPc := Tearing err None\<rparr>
      else (case MarkTerminal now outcome out fault (rRow r) of
              (serr, row) \<Rightarrow> r\<lparr>rRow := row, rPc := Tearing err (map_option (ErrWrap ''mark terminal'') serr)\<rparr>))"

definition teardown :: "('i, 'x) workflow \<Rightarrow> task_error option \<Rightarrow> task_error option \<Rightarrow> ('i, 'x) run \<Rightarrow> ('i, 'x) run" where
  "teardown w err serr r =
     (let terr = (case rInst r of None \<Rightarrow> None | Some x \<Rightarrow> wTeardown w x (eState (rEngine r)) err)
      in r\<lparr>rPc := Returning (err_join (err_join err terr) serr), gTorn := Suc (gTorn r)\<rparr>)"

text \<open>The end of Task.Start: the record is brought current, unless another Start owns the run.\<close>

definition bring_current :: "time \<Rightarrow> ('i, 'x) run \<Rightarrow> ('i, 'x) run" where
  "bring_current now r =
     (let e = rEngine r;
          t = (if eState e \<noteq> StatusNotStarted
               then (rTask r)\<lparr>tStatus := eState e, tUpdatedAt := now\<rparr> else rTask r)
      in r\<lparr>rTask := t\<lparr>tOutput := eOutput e\<rparr>\<rparr>)"

definition epilogue :: "time \<Rightarrow> task_error option \<Rightarrow> ('i, 'x) run \<Rightarrow> ('i, 'x) run" where
  "epilogue now err r =
     (case err of
        Some e \<Rightarrow> if err_is e ErrAlreadyStarted then r else bring_current now r
      | None \<Rightarrow> bring_current now r)"

text \<open>The beginning of Task.Start, with Rehydrate and Execute: the instance it builds, the state it
  is to start from, and whether it starts parked.\<close>

definition Start_plan :: "('i, 'x) workflow \<Rightarrow> ('i, 'x) run \<Rightarrow> task_error + 'x \<times> string option \<times> bool" where
  "Start_plan w r =
     (let t = rTask r in
      if rRecovered r then
        (if tStatus t = StatusNotStarted then Inl (ErrWrap (''task '' @ tID t) ErrNoCheckpoint)
         else if Terminal (tStatus t) then Inl (ErrWrap (''task '' @ tID t) ErrAlreadyTerminal)
         else (case wRestoreInstance w of
                 None \<Rightarrow> Inl (ErrMsg ''workflow is not persistable'')
               | Some build \<Rightarrow>
                   (case build (tSnapshot t) of
                      Inl e \<Rightarrow> Inl e
                    | Inr x \<Rightarrow> Inr (x, Some (tState t), tStatus t = StatusSuspended))))
      else (case wNewInstance w (rInput r) of
              Inl e \<Rightarrow> Inl e
            | Inr x \<Rightarrow> Inr (x, None, False)))"

text \<open>Start until its run is admitted or it has returned. The errors of the first two guards return
  at once; every later one goes through the epilogue.\<close>

definition refused_early :: "('i, 'x) run \<Rightarrow> bool" where
  "refused_early r \<longleftrightarrow>
     rRecovered r \<and> (tStatus (rTask r) = StatusNotStarted \<or> Terminal (tStatus (rTask r)))"

definition Start :: "('i, 'x) workflow \<Rightarrow> time \<Rightarrow> ('i, 'x) run \<Rightarrow> task_error option \<times> ('i, 'x) run" where
  "Start w now r =
     (case Start_plan w r of
        Inl e \<Rightarrow> (Some e, if refused_early r then r else epilogue now (Some e) r)
      | Inr (x, start, suspended) \<Rightarrow>
          (case admit suspended (rEngine r) of
             Inl e \<Rightarrow> (Some e, epilogue now (Some e) r)
           | Inr e \<Rightarrow>
               (None, r\<lparr>rEngine := e, rInst := Some x, rGraph := wGraph w x, rPc := Begun start,
                  gRuns := Suc (gRuns r)\<rparr>)))"

definition prepare :: "('i, 'x) workflow \<Rightarrow> string option \<Rightarrow> ('i, 'x) run \<Rightarrow> ('i, 'x) run" where
  "prepare w start r =
     (let can = (case rInst r of None \<Rightarrow> False | Some x \<Rightarrow> wSnapshotter w x);
          next = (case start of Some s \<Rightarrow> s | None \<Rightarrow> gInitial (rGraph r))
      in r\<lparr>rEngine := (rEngine r)\<lparr>eSnap := can\<rparr>, rPc := Top (Some next)\<rparr>)"

section \<open>Steps\<close>

text \<open>The next step of the run, when it is the run's turn; the time and the fate of a repository call
  are given. A handler returns by an event of its own, and a sleeping run is moved on by a signal.\<close>

definition advance :: "('i, 'x) workflow \<Rightarrow> time \<Rightarrow> task_error option \<Rightarrow> ('i, 'x) run \<Rightarrow> ('i, 'x) run" where
  "advance w now fault r =
     (case rPc r of
        Begun start \<Rightarrow> prepare w start r
      | Top next \<Rightarrow> at_top next r
      | SavingSuspend s \<Rightarrow>
          (case checkpoint w now StatusSuspended s fault r of
             (Some e, r') \<Rightarrow> r'\<lparr>rPc := Finishing (Some e)\<rparr>
           | (None, r') \<Rightarrow> r'\<lparr>rPc := Woken s\<rparr>)
      | Woken s \<Rightarrow> recheck s r
      | Live next \<Rightarrow> go_live w next r
      | Saving s \<Rightarrow>
          (case checkpoint w now StatusRunning s fault r of
             (Some e, r') \<Rightarrow> r'\<lparr>rPc := Finishing (Some e)\<rparr>
           | (None, r') \<Rightarrow> r'\<lparr>rPc := Saved s\<rparr>)
      | Saved s \<Rightarrow>
          r\<lparr>rEngine := (rEngine r)\<lparr>eCurrent := s\<rparr>, rPc := Executing s, gEntered := gEntered r @ [s]\<rparr>
      | Finishing err \<Rightarrow> finish err r
      | Stamping err outcome out \<Rightarrow> stamp now fault err outcome out r
      | Tearing err serr \<Rightarrow> teardown w err serr r
      | Returning err \<Rightarrow> (epilogue now err r)\<lparr>rPc := Exited err\<rparr>
      | _ \<Rightarrow> r)"

text \<open>The handler returns a next state, nil, or an error.\<close>

definition handler_returns :: "task_error + string option \<Rightarrow> ('i, 'x) run \<Rightarrow> ('i, 'x) run" where
  "handler_returns res r =
     (case rPc r of
        Executing s \<Rightarrow>
          r\<lparr>rPc := (case res of Inl e \<Rightarrow> Finishing (Some e) | Inr next \<Rightarrow> Top next)\<rparr>
      | _ \<Rightarrow> r)"

definition signal :: "('i, 'x) run \<Rightarrow> ('i, 'x) run" where
  "signal r = (case rPc r of Asleep s \<Rightarrow> r\<lparr>rPc := Woken s\<rparr> | _ \<Rightarrow> r)"

text \<open>midCheckpoint is a locked read and then a checkpoint of what it read.\<close>

definition midCheckpoint :: "('i, 'x) run \<Rightarrow> task_error + string" where
  "midCheckpoint r =
     (if \<not> eng_live (rEngine r) \<or> eCurrent (rEngine r) = [] then Inl (ErrMsg ''checkpoint: no state is executing'')
      else Inr (eCurrent (rEngine r)))"

definition midSave :: "('i, 'x) workflow \<Rightarrow> time \<Rightarrow> task_error option \<Rightarrow> ('i, 'x) run \<Rightarrow> ('i, 'x) run" where
  "midSave w now fault r =
     (case rMids r of
        [] \<Rightarrow> r
      | s # rest \<Rightarrow> (snd (checkpoint w now StatusRunning s fault r))\<lparr>rMids := rest\<rparr>)"

datatype 'x eng_event =
    EvStart time
  | EvAdvance time "task_error option"
  | EvWork 'x
  | EvReturn "task_error + string option"
  | EvMidCheckpoint
  | EvMidSave time "task_error option"
  | EvSuspend | EvResume | EvDetach | EvKill | EvSeal | EvUnseal

definition with_signal :: "engine \<times> bool \<Rightarrow> ('i, 'x) run \<Rightarrow> ('i, 'x) run" where
  "with_signal eb r = (case eb of (e, sig) \<Rightarrow> (if sig then signal else (\<lambda>r. r)) (r\<lparr>rEngine := e\<rparr>))"

fun eng_step :: "('i, 'x) workflow \<Rightarrow> 'x eng_event \<Rightarrow> ('i, 'x) run \<Rightarrow> ('i, 'x) run" where
  "eng_step w (EvStart now) r = snd (Start w now r)"
| "eng_step w (EvAdvance now fault) r = advance w now fault r"
| "eng_step w (EvWork x) r = (case rPc r of Executing s \<Rightarrow> r\<lparr>rInst := Some x\<rparr> | _ \<Rightarrow> r)"
| "eng_step w (EvReturn res) r = handler_returns res r"
| "eng_step w EvMidCheckpoint r = (case midCheckpoint r of Inl e \<Rightarrow> r | Inr s \<Rightarrow> r\<lparr>rMids := rMids r @ [s]\<rparr>)"
| "eng_step w (EvMidSave now fault) r = midSave w now fault r"
| "eng_step w EvSuspend r = r\<lparr>rEngine := Suspend (rEngine r)\<rparr>"
| "eng_step w EvResume r = with_signal (Resume (rEngine r)) r"
| "eng_step w EvDetach r = with_signal (snd (Detach (rEngine r))) r"
| "eng_step w EvKill r = with_signal (Kill (rEngine r)) r"
| "eng_step w EvSeal r = r\<lparr>rEngine := snd (seal (rEngine r))\<rparr>"
| "eng_step w EvUnseal r = r\<lparr>rEngine := unseal (rEngine r)\<rparr>"

definition eng_steps :: "('i, 'x) workflow \<Rightarrow> 'x eng_event list \<Rightarrow> ('i, 'x) run \<Rightarrow> ('i, 'x) run" where
  "eng_steps w evs r = fold (eng_step w) evs r"

text \<open>A fresh handle: a task just created, or one rebuilt from the record in the repository. Without a
  repository there is no row.\<close>

definition fresh :: "bool \<Rightarrow> bool \<Rightarrow> 'i any \<Rightarrow> task \<Rightarrow> ('i, 'x) run" where
  "fresh repo recovered input t =
     \<lparr>rTask = t, rInput = input, rRecovered = recovered, rEngine = newEngine, rInst = None,
      rGraph = \<lparr>gInitial = [], gStates = []\<rparr>, rPc = Idle, rRepo = repo,
      rRow = (if repo then Some t else None), rMids = [], gRuns = 0, gTorn = 0, gEntered = []\<rparr>"

inductive eng_reachable :: "('i, 'x) workflow \<Rightarrow> ('i, 'x) run \<Rightarrow> bool" for w where
  fresh: "eng_reachable w (fresh repo recovered input t)"
| step: "eng_reachable w r \<Longrightarrow> eng_reachable w (eng_step w ev r)"

lemma eng_reachable_steps: "eng_reachable w r \<Longrightarrow> eng_reachable w (eng_steps w evs r)"
  unfolding eng_steps_def by (induction evs arbitrary: r) (auto intro: eng_reachable.step)

section \<open>The invariant\<close>

definition eng_inv :: "('i, 'x) run \<Rightarrow> bool" where
  "eng_inv r \<longleftrightarrow>
     (let e = rEngine r;
          busy = (eState e = StatusRunning \<or> eState e = StatusSuspended \<or> eState e = StatusKilled);
          gone = (eState e = StatusDone \<or> eState e = StatusFailed \<or> eState e = StatusKilled);
          over = (\<lambda>err serr. if eDetachDone e then eState e = StatusSuspended \<and> eDetachWanted e
                         \<and> err = Some ErrDetached \<and> serr = None \<and> eOutput e = []
                    else gone \<and> (eState e = StatusDone \<longrightarrow> err = None) \<and> (eState e = StatusFailed \<longrightarrow> err \<noteq> None));
          ended = (\<lambda>err. if eDetachDone e then eState e = StatusSuspended \<and> eDetachWanted e
                         \<and> (\<exists>e'. err = Some e' \<and> err_is e' ErrDetached) \<and> eOutput e = []
                    else gone);
          going = (\<not> eDetachDone e \<and> gRuns r = 1 \<and> gTorn r = 0 \<and> eOutput e = [] \<and> busy)
      in (eDetachWanted e \<longrightarrow> eState e \<noteq> StatusNotStarted \<and> eState e \<noteq> StatusRunning)
        \<and> (eSealed e \<longrightarrow> \<not> eng_live e)
        \<and> (case rPc r of
             Idle \<Rightarrow> (eState e = StatusNotStarted \<or> eState e = StatusKilled) \<and> \<not> eDetachWanted e
               \<and> \<not> eDetachDone e \<and> eOutput e = [] \<and> eCurrent e = [] \<and> gRuns r = 0 \<and> gTorn r = 0
               \<and> gEntered r = [] \<and> rMids r = []
           | Begun _ \<Rightarrow> going \<and> gEntered r = []
           | Top _ \<Rightarrow> going | SavingSuspend _ \<Rightarrow> going | Woken _ \<Rightarrow> going
           | Asleep _ \<Rightarrow> going \<and> eState e = StatusSuspended \<and> \<not> eDetachWanted e
           | Live _ \<Rightarrow> going | Saving _ \<Rightarrow> going | Saved _ \<Rightarrow> going
           | Executing s \<Rightarrow> going \<and> eCurrent e = s \<and> gEntered r \<noteq> [] \<and> last (gEntered r) = s
           | Finishing err \<Rightarrow> gRuns r = 1 \<and> gTorn r = 0 \<and> (err \<noteq> None \<longrightarrow> eOutput e = []) \<and>
               (if eDetachDone e then eState e = StatusSuspended \<and> eDetachWanted e \<and> err = Some ErrDetached
                else busy)
           | Stamping err outcome out \<Rightarrow> gRuns r = 1 \<and> gTorn r = 0 \<and> \<not> eDetachDone e \<and> over err None
               \<and> outcome = eState e \<and> out = eOutput e \<and> (err \<noteq> None \<longrightarrow> eOutput e = [])
           | Tearing err serr \<Rightarrow> gRuns r = 1 \<and> gTorn r = 0 \<and> over err serr \<and> (err \<noteq> None \<longrightarrow> eOutput e = [])
           | Returning err \<Rightarrow> gRuns r = 1 \<and> gTorn r = 1 \<and> ended err
           | Exited err \<Rightarrow> gRuns r = 1 \<and> gTorn r = 1 \<and> ended err))"

lemma fresh_inv: "eng_inv (fresh repo recovered input t)"
  by (simp add: eng_inv_def fresh_def newEngine_def eng_live_def)

lemma Suspend_inv: "eng_inv r \<Longrightarrow> eng_inv (r\<lparr>rEngine := Suspend (rEngine r)\<rparr>)"
  unfolding eng_inv_def Let_def Suspend_def eng_live_def by (cases "rPc r") auto

lemma Resume_inv: "eng_inv r \<Longrightarrow> eng_inv (with_signal (Resume (rEngine r)) r)"
  unfolding eng_inv_def Let_def Resume_def eng_live_def with_signal_def signal_def by (cases "rPc r") auto

lemma Detach_inv: "eng_inv r \<Longrightarrow> eng_inv (with_signal (snd (Detach (rEngine r))) r)"
  unfolding eng_inv_def Let_def Detach_def eng_live_def with_signal_def signal_def by (cases "rPc r") auto

lemma Kill_inv: "eng_inv r \<Longrightarrow> eng_inv (with_signal (Kill (rEngine r)) r)"
  unfolding eng_inv_def Let_def Kill_def eng_live_def with_signal_def signal_def by (cases "rPc r") auto

lemma seal_inv: "eng_inv r \<Longrightarrow> eng_inv (r\<lparr>rEngine := snd (seal (rEngine r))\<rparr>)"
  unfolding eng_inv_def Let_def seal_def eng_live_def by (cases "rPc r") auto

lemma unseal_inv: "eng_inv r \<Longrightarrow> eng_inv (r\<lparr>rEngine := unseal (rEngine r)\<rparr>)"
  unfolding eng_inv_def Let_def unseal_def eng_live_def by (cases "rPc r") auto

lemma handler_returns_inv: "eng_inv r \<Longrightarrow> eng_inv (handler_returns res r)"
  unfolding eng_inv_def Let_def handler_returns_def by (cases "rPc r"; cases res) auto

text \<open>The epilogue writes only the handle's record, and a checkpoint only the row.\<close>

lemma epilogue_frame: "\<exists>t. epilogue now err r = r\<lparr>rTask := t\<rparr>"
proof (cases "\<exists>e. err = Some e \<and> err_is e ErrAlreadyStarted")
  case True
  then have "epilogue now err r = r\<lparr>rTask := rTask r\<rparr>" by (auto simp: epilogue_def)
  then show ?thesis by blast
next
  case False
  then have "epilogue now err r = bring_current now r"
    by (auto simp: epilogue_def split: option.splits)
  then show ?thesis by (auto simp: bring_current_def Let_def)
qed

lemma checkpoint_frame:
  assumes "checkpoint w now status st fault r = (err, r')"
  obtains row where "r' = r\<lparr>rRow := row\<rparr>"
proof -
  have "r' = r\<lparr>rRow := rRow r'\<rparr>"
    using assms by (auto simp: checkpoint_def split: option.splits sum.splits prod.splits if_splits)
  then show ?thesis by (rule that)
qed

lemma eng_inv_row [simp]: "eng_inv (r\<lparr>rRow := row\<rparr>) = eng_inv r"
  by (cases "rPc r") (simp_all add: eng_inv_def)

lemma eng_inv_task [simp]: "eng_inv (r\<lparr>rTask := t\<rparr>) = eng_inv r"
  by (cases "rPc r") (simp_all add: eng_inv_def)

lemma Start_cases:
  assumes "Start w now r = (err, r')"
  obtains (refused) e t where "err = Some e" "r' = r\<lparr>rTask := t\<rparr>"
    | (admitted) x start suspended e where "Start_plan w r = Inr (x, start, suspended)"
        "admit suspended (rEngine r) = Inr e" "err = None"
        "r' = r\<lparr>rEngine := e, rInst := Some x, rGraph := wGraph w x, rPc := Begun start,
           gRuns := Suc (gRuns r)\<rparr>"
proof (cases "Start_plan w r")
  case (Inl e)
  then show ?thesis
    using assms refused [of e "rTask r"] refused [of e] epilogue_frame [of now "Some e" r]
    by (auto simp: Start_def split: if_splits)
next
  case (Inr p)
  obtain x start suspended where p: "p = (x, start, suspended)" by (cases p) auto
  show ?thesis
  proof (cases "admit suspended (rEngine r)")
    case (Inl e)
    with Inr p assms show ?thesis
      using refused [of e] epilogue_frame [of now "Some e" r] by (auto simp: Start_def)
  next
    case Inr': (Inr e)
    with Inr p assms show ?thesis by (intro admitted) (auto simp: Start_def)
  qed
qed

lemma admit_cases:
  assumes "admit suspended e = Inr e'"
  obtains "\<not> eSealed e" "eState e = StatusNotStarted"
    "e' = e\<lparr>eState := (if suspended then StatusSuspended else StatusRunning)\<rparr>"
  using assms by (auto simp: admit_def split: if_splits)

lemma Start_inv:
  assumes "eng_inv r"
  shows "eng_inv (snd (Start w now r))"
proof (cases "Start w now r")
  case (Pair err r')
  then show ?thesis
  proof (cases rule: Start_cases)
    case refused
    with Pair assms show ?thesis by simp
  next
    case (admitted x start suspended e)
    from admitted(2) have e: "\<not> eSealed (rEngine r)" "eState (rEngine r) = StatusNotStarted"
      "e = (rEngine r)\<lparr>eState := (if suspended then StatusSuspended else StatusRunning)\<rparr>"
      by (auto elim: admit_cases)
    from assms e(2) have "rPc r = Idle"
      by (auto simp: eng_inv_def Let_def split: pc.splits if_splits)
    with assms e have "eng_inv r'" unfolding admitted(4)
      by (auto simp: eng_inv_def Let_def eng_live_def)
    with Pair show ?thesis by simp
  qed
qed

lemma midSave_inv: "eng_inv r \<Longrightarrow> eng_inv (midSave w now fault r)"
proof (cases "rMids r")
  case (Cons s rest)
  assume i: "eng_inv r"
  obtain err r' where c: "checkpoint w now StatusRunning s fault r = (err, r')"
    by (cases "checkpoint w now StatusRunning s fault r")
  then obtain row where "r' = r\<lparr>rRow := row\<rparr>" by (rule checkpoint_frame)
  with Cons c i show ?thesis
    unfolding eng_inv_def midSave_def Let_def by (cases "rPc r") auto
qed (simp add: midSave_def)

lemma decide_inv:
  "eng_inv (r\<lparr>rPc := Top next\<rparr>) \<Longrightarrow> eng_inv (decide next (r :: ('i, 'x) run))"
  unfolding eng_inv_def Let_def decide_def eng_live_def by auto

lemma advance_inv:
  assumes inv: "eng_inv r"
  shows "eng_inv (advance w now fault r)"
proof (cases "rPc r")
  case (Begun start)
  with inv show ?thesis by (auto simp: eng_inv_def Let_def advance_def prepare_def eng_live_def)
next
  case (Top n)
  define r1 where "r1 = r\<lparr>rEngine := (rEngine r)\<lparr>eCurrent := []\<rparr>\<rparr>"
  have top: "eng_inv (r1\<lparr>rPc := Top n\<rparr>)"
    using inv Top by (auto simp: r1_def eng_inv_def Let_def eng_live_def)
  then have "eng_inv (r1\<lparr>rPc := SavingSuspend s\<rparr>)" for s
    by (auto simp: eng_inv_def Let_def eng_live_def)
  with decide_inv [OF top] Top show ?thesis
    by (auto simp: advance_def at_top_def Let_def r1_def [symmetric] split: option.splits)
next
  case (SavingSuspend s)
  obtain err r' where c: "checkpoint w now StatusSuspended s fault r = (err, r')"
    by (cases "checkpoint w now StatusSuspended s fault r")
  then obtain row where "r' = r\<lparr>rRow := row\<rparr>" by (rule checkpoint_frame)
  with inv SavingSuspend c show ?thesis
    by (cases err) (auto simp: advance_def eng_inv_def Let_def)
next
  case (Woken s)
  then have "eng_inv (r\<lparr>rPc := Top (Some s)\<rparr>)" using inv by (auto simp: eng_inv_def Let_def)
  from decide_inv [OF this] inv Woken show ?thesis
    by (auto simp: advance_def recheck_def) (auto simp: eng_inv_def Let_def)
next
  case (Live n)
  with inv show ?thesis
    by (cases "rInst r")
      (auto simp: advance_def go_live_def harvest_def eng_inv_def Let_def eng_live_def split: option.splits sum.splits)
next
  case (Saving s)
  obtain err r' where c: "checkpoint w now StatusRunning s fault r = (err, r')"
    by (cases "checkpoint w now StatusRunning s fault r")
  then obtain row where "r' = r\<lparr>rRow := row\<rparr>" by (rule checkpoint_frame)
  with inv Saving c show ?thesis
    by (cases err) (auto simp: advance_def eng_inv_def Let_def)
next
  case (Saved s)
  with inv show ?thesis by (auto simp: advance_def eng_inv_def Let_def eng_live_def)
next
  case (Finishing err)
  with inv show ?thesis by (auto simp: advance_def finish_def eng_inv_def Let_def eng_live_def split: if_splits)
next
  case (Stamping err outcome out)
  with inv show ?thesis
    by (auto simp: advance_def stamp_def eng_inv_def Let_def eng_live_def split: prod.splits)
next
  case (Tearing err serr)
  have "err_join (Some ErrDetached) terr = Some e \<Longrightarrow> err_is e ErrDetached" for terr e
    by (cases terr) auto
  then have "\<exists>e. err_join (err_join (Some ErrDetached) terr) None = Some e \<and> err_is e ErrDetached" for terr
    by (cases terr) auto
  with inv Tearing show ?thesis by (auto simp: advance_def teardown_def eng_inv_def Let_def split: if_splits)
next
  case (Returning err)
  obtain t where "epilogue now err r = r\<lparr>rTask := t\<rparr>" using epilogue_frame by blast
  with inv Returning show ?thesis by (auto simp: advance_def eng_inv_def Let_def)
qed (use inv in \<open>simp_all add: advance_def\<close>)

theorem eng_reachable_inv: "eng_reachable w r \<Longrightarrow> eng_inv r"
proof (induction rule: eng_reachable.induct)
  case (fresh repo recovered input t)
  show ?case by (rule fresh_inv)
next
  case (step r ev)
  show ?case
  proof (cases ev)
    case (EvWork x)
    with step.IH show ?thesis by (cases "rPc r") (auto simp: eng_inv_def Let_def)
  next
    case EvMidCheckpoint
    with step.IH show ?thesis
      by (cases "rPc r") (auto simp: eng_inv_def Let_def midCheckpoint_def eng_live_def split: sum.splits if_splits)
  qed (use step.IH in \<open>simp_all add: Start_inv advance_inv handler_returns_inv midSave_inv Suspend_inv
      Resume_inv Detach_inv Kill_inv seal_inv unseal_inv\<close>)
qed

end
