(* ===== verification/Engine_Properties.thy ===== *)
theory Engine_Properties
  imports Engine
begin

text \<open>
  What the engine guarantees: one run per handle, a waiter that cannot miss its signal, a kill that
  stays, a sealed engine that never starts, and what the repository's row holds at each point of the
  run and after it; then four runs that show where the code and its comments part.
\<close>

section \<open>The handle and its run\<close>

lemma eng_reachable_facts:
  assumes "eng_reachable w r"
  shows "gRuns r \<le> 1" and "rPc r = Idle \<longleftrightarrow> gRuns r = 0"
    and "gTorn r = (case rPc r of Returning _ \<Rightarrow> 1 | Exited _ \<Rightarrow> 1 | _ \<Rightarrow> 0)"
    and "rPc r = Asleep s \<Longrightarrow> eState (rEngine r) = StatusSuspended \<and> \<not> eDetachWanted (rEngine r)"
    and "eSealed (rEngine r) \<Longrightarrow> \<not> eng_live (rEngine r)"
  using eng_reachable_inv [OF assms] unfolding eng_inv_def Let_def
  by (cases "rPc r"; simp)+

text \<open>Events in which a handler has waited for its own checkpoints when it returns, and only a handler
  takes one.\<close>

definition joins :: "'x eng_event \<Rightarrow> ('i, 'x) run \<Rightarrow> bool" where
  "joins ev r \<longleftrightarrow>
     (case ev of
        EvReturn res \<Rightarrow> rMids r = []
      | EvMidCheckpoint \<Rightarrow> (case rPc r of Executing s \<Rightarrow> True | _ \<Rightarrow> False)
      | _ \<Rightarrow> True)"

inductive eng_joined :: "('i, 'x) workflow \<Rightarrow> ('i, 'x) run \<Rightarrow> bool" for w where
  fresh: "eng_joined w (fresh repo recovered input t)"
| step: "eng_joined w r \<Longrightarrow> joins ev r \<Longrightarrow> eng_joined w (eng_step w ev r)"

lemma joined_reachable: "eng_joined w r \<Longrightarrow> eng_reachable w r"
  by (induction rule: eng_joined.induct) (auto intro: eng_reachable.intros)

fun stamp_error :: "task_error \<Rightarrow> bool" where
  "stamp_error (ErrWrap s e) = (s = ''mark terminal'' \<or> stamp_error e)"
| "stamp_error (ErrJoin a b) = (stamp_error a \<or> stamp_error b)"
| "stamp_error _ = False"

lemma stamp_error_join: "err_join a b = Some e \<Longrightarrow>
    stamp_error e \<longleftrightarrow> (\<exists>x. a = Some x \<and> stamp_error x) \<or> (\<exists>x. b = Some x \<and> stamp_error x)"
  by (cases a; cases b) auto

text \<open>What the row holds, with a repository, for an instance that can be snapshotted.\<close>

definition stamped :: "engine \<Rightarrow> task \<Rightarrow> bool" where
  "stamped e t \<longleftrightarrow> tStatus t = eState e \<and> tOutput t = eOutput e"

definition saved_as :: "('i, 'x) workflow \<Rightarrow> 'x option \<Rightarrow> string \<Rightarrow> string \<Rightarrow> task \<Rightarrow> bool" where
  "saved_as w inst status s t \<longleftrightarrow> tStatus t = status \<and> tState t = s
     \<and> (\<exists>x. inst = Some x \<and> wSnapshot w x = Inr (tSnapshot t))"

definition at_last :: "string list \<Rightarrow> task \<Rightarrow> bool" where
  "at_last entered t \<longleftrightarrow> tStatus t = StatusRunning \<and> entered \<noteq> [] \<and> tState t = last entered"

definition resting :: "string list \<Rightarrow> task \<Rightarrow> bool" where
  "resting entered t \<longleftrightarrow> tStatus t = StatusSuspended \<or> at_last entered t"

definition settled :: "engine \<Rightarrow> string list \<Rightarrow> task_error option \<Rightarrow> task \<Rightarrow> bool" where
  "settled e entered serr t \<longleftrightarrow>
     (if eDetachDone e then eSnap e \<longrightarrow> resting entered t
      else stamped e t \<or> (\<exists>x. serr = Some x \<and> stamp_error x))"

fun row_ok :: "('i, 'x) workflow \<Rightarrow> engine \<Rightarrow> 'x option \<Rightarrow> string list \<Rightarrow> pc \<Rightarrow> task \<Rightarrow> bool" where
  "row_ok w e inst entered (Woken s) t = (eSnap e \<longrightarrow> saved_as w inst StatusSuspended s t)"
| "row_ok w e inst entered (Asleep s) t = (eSnap e \<longrightarrow> saved_as w inst StatusSuspended s t)"
| "row_ok w e inst entered (Saved s) t = (eSnap e \<longrightarrow> saved_as w inst StatusRunning s t)"
| "row_ok w e inst entered (Executing s) t = (eSnap e \<longrightarrow> at_last entered t \<and> tState t = s)"
| "row_ok w e inst entered (Top None) t = (eSnap e \<longrightarrow> at_last entered t)"
| "row_ok w e inst entered (Finishing err) t = (eDetachDone e \<longrightarrow> eSnap e \<longrightarrow> resting entered t)"
| "row_ok w e inst entered (Tearing err serr) t = settled e entered serr t"
| "row_ok w e inst entered (Returning err) t = settled e entered err t"
| "row_ok w e inst entered (Exited err) t = settled e entered err t"
| "row_ok w e inst entered _ t = True"

fun mids_ok :: "pc \<Rightarrow> string list \<Rightarrow> bool" where
  "mids_ok (Executing s) ms = (set ms \<subseteq> {s})"
| "mids_ok _ ms = (ms = [])"

definition row_inv :: "('i, 'x) workflow \<Rightarrow> ('i, 'x) run \<Rightarrow> bool" where
  "row_inv w r \<longleftrightarrow>
     (rRow r \<noteq> None \<longleftrightarrow> rRepo r) \<and> (rPc r \<noteq> Idle \<longrightarrow> rInst r \<noteq> None) \<and> mids_ok (rPc r) (rMids r) \<and>
     (\<forall>t. rRow r = Some t \<longrightarrow> row_ok w (rEngine r) (rInst r) (gEntered r) (rPc r) t)"

definition spent :: "pc \<Rightarrow> bool" where
  "spent p \<longleftrightarrow> (case p of Stamping _ _ _ \<Rightarrow> True | Tearing _ _ \<Rightarrow> True | Returning _ \<Rightarrow> True
     | Exited _ \<Rightarrow> True | _ \<Rightarrow> False)"

lemma row_ok_engine:
  assumes "eSnap e' = eSnap e" "eDetachDone e' = eDetachDone e" "eOutput e' = eOutput e"
    and "spent p \<Longrightarrow> eState e' = eState e"
  shows "row_ok w e' inst entered p t = row_ok w e inst entered p t"
proof (cases p)
  case (Top n)
  then show ?thesis by (cases n) (simp_all add: assms(1))
qed (use assms in \<open>simp_all add: settled_def stamped_def spent_def\<close>)

lemma fresh_row_inv: "row_inv w (fresh repo recovered input t)"
  by (simp add: row_inv_def fresh_def)

text \<open>A locked operation changes neither the row nor the instance, and of the engine nothing that a
  finished run's row is compared with.\<close>

lemma spent_not_live: "eng_inv r \<Longrightarrow> spent (rPc r) \<Longrightarrow> \<not> eng_live (rEngine r)"
  unfolding eng_inv_def Let_def eng_live_def spent_def by (cases "rPc r"; auto split: if_splits)

lemma spent_status:
  assumes "eng_inv r" "spent (rPc r)"
  shows "eState (rEngine r) = StatusDone \<or> eState (rEngine r) = StatusFailed
    \<or> eState (rEngine r) = StatusKilled \<or> eState (rEngine r) = StatusSuspended"
  using assms by (cases "rPc r"; cases "eDetachDone (rEngine r)"; simp add: eng_inv_def Let_def spent_def; blast)

lemma row_inv_engine:
  assumes "row_inv w r"
    and "eSnap e = eSnap (rEngine r)" "eDetachDone e = eDetachDone (rEngine r)" "eOutput e = eOutput (rEngine r)"
    and "spent (rPc r) \<Longrightarrow> eState e = eState (rEngine r)"
  shows "row_inv w (r\<lparr>rEngine := e\<rparr>)"
  using assms(1) row_ok_engine [of e "rEngine r" "rPc r" w] assms(2-5) by (auto simp: row_inv_def)

lemma row_inv_signal: "row_inv w r \<Longrightarrow> row_inv w (signal r)"
  by (cases "rPc r") (simp_all add: row_inv_def signal_def)

lemma locked_frame [frame_simps]:
  "eSnap (Suspend e) = eSnap e" "eDetachDone (Suspend e) = eDetachDone e" "eOutput (Suspend e) = eOutput e"
  "eSnap (fst (Resume e)) = eSnap e" "eDetachDone (fst (Resume e)) = eDetachDone e"
  "eOutput (fst (Resume e)) = eOutput e"
  "eSnap (fst (snd (Detach e))) = eSnap e" "eDetachDone (fst (snd (Detach e))) = eDetachDone e"
  "eOutput (fst (snd (Detach e))) = eOutput e" "eState (fst (snd (Detach e))) = eState e"
  "eSnap (fst (Kill e)) = eSnap e" "eDetachDone (fst (Kill e)) = eDetachDone e"
  "eOutput (fst (Kill e)) = eOutput e"
  "eSnap (snd (seal e)) = eSnap e" "eDetachDone (snd (seal e)) = eDetachDone e"
  "eOutput (snd (seal e)) = eOutput e" "eState (snd (seal e)) = eState e"
  "eSnap (unseal e) = eSnap e" "eDetachDone (unseal e) = eDetachDone e"
  "eOutput (unseal e) = eOutput e" "eState (unseal e) = eState e"
  by (simp_all add: Suspend_def Resume_def Detach_def Kill_def seal_def unseal_def)

lemma dead_frame:
  "\<not> eng_live e \<Longrightarrow> Suspend e = e" "\<not> eng_live e \<Longrightarrow> fst (Resume e) = e"
  "\<not> eng_live e \<Longrightarrow> eState e \<noteq> StatusNotStarted \<Longrightarrow> fst (Kill e) = e"
  by (auto simp: eng_live_def Suspend_def Resume_def Kill_def)

lemma with_signal_row_inv:
  "row_inv w (r\<lparr>rEngine := fst eb\<rparr>) \<Longrightarrow> row_inv w (with_signal eb r)"
  by (cases eb) (simp add: with_signal_def row_inv_signal)

lemma locked_row_inv:
  assumes "row_inv w r" "eng_inv r"
  shows "row_inv w (r\<lparr>rEngine := Suspend (rEngine r)\<rparr>)"
    and "row_inv w (with_signal (Resume (rEngine r)) r)"
    and "row_inv w (with_signal (snd (Detach (rEngine r))) r)"
    and "row_inv w (with_signal (Kill (rEngine r)) r)"
    and "row_inv w (r\<lparr>rEngine := snd (seal (rEngine r))\<rparr>)"
    and "row_inv w (r\<lparr>rEngine := unseal (rEngine r)\<rparr>)"
proof -
  have dead: "\<not> eng_live (rEngine r)" if "spent (rPc r)"
    by (rule spent_not_live [OF assms(2) that])
  have begun: "eState (rEngine r) \<noteq> StatusNotStarted" if "spent (rPc r)"
    using spent_status [OF assms(2) that] by (elim disjE) simp_all
  show "row_inv w (r\<lparr>rEngine := Suspend (rEngine r)\<rparr>)"
    by (rule row_inv_engine [OF assms(1)]) (simp_all add: frame_simps dead_frame dead begun)
  show "row_inv w (with_signal (Resume (rEngine r)) r)"
    by (intro with_signal_row_inv row_inv_engine [OF assms(1)]) (simp_all add: frame_simps dead_frame dead begun)
  show "row_inv w (with_signal (snd (Detach (rEngine r))) r)"
    by (intro with_signal_row_inv row_inv_engine [OF assms(1)]) (simp_all add: frame_simps)
  show "row_inv w (with_signal (Kill (rEngine r)) r)"
    by (intro with_signal_row_inv row_inv_engine [OF assms(1)]) (simp_all add: frame_simps dead_frame dead begun)
  show "row_inv w (r\<lparr>rEngine := snd (seal (rEngine r))\<rparr>)" "row_inv w (r\<lparr>rEngine := unseal (rEngine r)\<rparr>)"
    by (rule row_inv_engine [OF assms(1)]; simp add: frame_simps)+
qed

lemma checkpoint_cases:
  assumes "checkpoint w now status st fault r = (err, r')" and "rRow r \<noteq> None \<longleftrightarrow> rRepo r"
  obtains (none) "err = None" "r' = r" "rInst r = None \<or> \<not> eSnap (rEngine r) \<or> rRow r = None"
    | (failed) e where "err = Some e" "r' = r"
    | (saved) t x blob where "err = None" "rRow r = Some t" "rInst r = Some x" "eSnap (rEngine r)"
        "wSnapshot w x = Inr blob"
        "r' = r\<lparr>rRow := Some (t\<lparr>tStatus := status, tState := st, tSnapshot := blob, tUpdatedAt := now\<rparr>)\<rparr>"
proof -
  show ?thesis
  proof (cases "rInst r = None \<or> \<not> eSnap (rEngine r) \<or> rRow r = None")
    case True
    show ?thesis
    proof (cases "err = None")
      case err: True
      with True assms have "r' = r"
        by (auto simp: checkpoint_def split: option.splits sum.splits if_splits prod.splits)
      with err True show ?thesis by (intro none)
    next
      case False
      with True assms show ?thesis
        by (auto simp: checkpoint_def split: option.splits sum.splits if_splits prod.splits)
    qed
  next
    case False
    then obtain x t where xt: "rInst r = Some x" "rRow r = Some t" and can: "eSnap (rEngine r)" by auto
    with assms(2) have repo: "rRepo r" by simp
    show ?thesis
    proof (cases "wSnapshot w x")
      case (Inl e)
      with xt can repo assms(1) have "err = Some e" "r' = r" by (auto simp: checkpoint_def)
      then show ?thesis by (rule failed)
    next
      case (Inr blob)
      show ?thesis
      proof (cases fault)
        case None
        with Inr xt can repo assms(1) show ?thesis
          by (intro saved [OF _ xt(2,1) can Inr]) (auto simp: checkpoint_def SaveCheckpoint_def)
      next
        case (Some e)
        with Inr xt can repo assms(1) have "err = Some e" "r' = r"
          by (auto simp: checkpoint_def SaveCheckpoint_def)
        then show ?thesis by (rule failed)
      qed
    qed
  qed
qed

lemma midSave_row_inv:
  assumes inv: "row_inv w r" "eng_inv r"
  shows "row_inv w (midSave w now fault r)"
proof (cases "rMids r")
  case Nil
  with inv(1) show ?thesis by (simp add: midSave_def)
next
  case (Cons s rest)
  then have pc: "rPc r = Executing s" and rest: "set rest \<subseteq> {s}"
    using inv(1) by (cases "rPc r"; auto simp: row_inv_def)+
  have last: "gEntered r \<noteq> []" "last (gEntered r) = s"
    using inv(2) pc by (auto simp: eng_inv_def Let_def)
  have rr: "rRow r \<noteq> None \<longleftrightarrow> rRepo r" using inv(1) by (simp add: row_inv_def)
  obtain err r' where c: "checkpoint w now StatusRunning s fault r = (err, r')"
    by (cases "checkpoint w now StatusRunning s fault r")
  from c rr show ?thesis
    by (cases rule: checkpoint_cases)
      (use c pc rest inv(1) Cons last in \<open>auto simp: midSave_def row_inv_def at_last_def\<close>)
qed

lemma Start_row_inv:
  assumes inv: "row_inv w r" "eng_inv r"
  shows "row_inv w (snd (Start w now r))"
proof (cases "Start w now r")
  case (Pair err r')
  then show ?thesis
  proof (cases rule: Start_cases)
    case (refused e t)
    have "row_inv w (r\<lparr>rTask := t\<rparr>)" using inv(1) by (simp add: row_inv_def)
    with Pair refused show ?thesis by simp
  next
    case (admitted x start suspended e)
    from admitted(2) have "eState (rEngine r) = StatusNotStarted" by (auto elim: admit_cases)
    with inv(2) have "rPc r = Idle" by (auto simp: eng_inv_def Let_def split: pc.splits if_splits)
    with inv(1) have "row_inv w r'" unfolding admitted(4) by (auto simp: row_inv_def)
    with Pair show ?thesis by simp
  qed
qed

lemma epilogue_row_inv:
  assumes "rPc r = Returning err" "row_inv w r"
  shows "row_inv w ((epilogue now err r)\<lparr>rPc := Exited err\<rparr>)"
proof -
  obtain t where "epilogue now err r = r\<lparr>rTask := t\<rparr>" using epilogue_frame by blast
  with assms show ?thesis by (auto simp: row_inv_def)
qed

lemma row_inv_pc:
  assumes "row_inv w r" "\<And>t. rRow r = Some t \<Longrightarrow> row_ok w (rEngine r) (rInst r) (gEntered r) p t"
    and "mids_ok p (rMids r)" "p \<noteq> Idle \<Longrightarrow> rInst r \<noteq> None"
  shows "row_inv w (r\<lparr>rPc := p\<rparr>)"
  using assms by (simp add: row_inv_def)

lemma row_inv_mids: "row_inv w r \<Longrightarrow> \<nexists>s. rPc r = Executing s \<Longrightarrow> rMids r = []"
  by (cases "rPc r") (simp_all add: row_inv_def)

lemma row_inv_inst: "row_inv w r \<Longrightarrow> rPc r \<noteq> Idle \<Longrightarrow> rInst r \<noteq> None"
  by (simp add: row_inv_def)

text \<open>At a boundary: the loop goes on, is dead, or leaves detached, and in the last case the row is
  one to come back to.\<close>

lemma decide_row_inv:
  assumes inv: "row_inv w r" and mids: "rMids r = []" "rInst r \<noteq> None" and dd: "\<not> eDetachDone (rEngine r)"
    and rest: "\<And>t. rRow r = Some t \<Longrightarrow> eSnap (rEngine r) \<Longrightarrow> eState (rEngine r) = StatusSuspended
      \<Longrightarrow> resting (gEntered r) t"
  shows "row_inv w (decide n r)"
proof -
  have base: "rRow r \<noteq> None \<longleftrightarrow> rRepo r" using inv by (simp add: row_inv_def)
  show ?thesis unfolding decide_def Let_def
  proof (split if_split, intro conjI impI)
    show "row_inv w (r\<lparr>rPc := Finishing (Some CtxCanceled)\<rparr>)"
      using inv mids dd by (simp add: row_inv_def)
    show "row_inv w (if eState (rEngine r) = StatusSuspended \<and> eDetachWanted (rEngine r)
        then r\<lparr>rEngine := rEngine r\<lparr>eDetachDone := True\<rparr>, rPc := Finishing (Some ErrDetached)\<rparr>
        else r\<lparr>rPc := Live n\<rparr>)"
      using inv mids rest base by (simp add: row_inv_def)
  qed
qed

lemma checkpoint_row_inv:
  assumes inv: "row_inv w r" and mids: "rMids r = []" "rInst r \<noteq> None" and dd: "\<not> eDetachDone (rEngine r)"
    and c: "checkpoint w now status st fault r = (err, r')"
    and ok: "\<And>t x. rInst r = Some x \<Longrightarrow> wSnapshot w x = Inr (tSnapshot t) \<Longrightarrow> tStatus t = status \<Longrightarrow>
      tState t = st \<Longrightarrow> eSnap (rEngine r) \<Longrightarrow> row_ok w (rEngine r) (rInst r) (gEntered r) p t"
    and free: "\<And>t. \<not> eSnap (rEngine r) \<Longrightarrow> row_ok w (rEngine r) (rInst r) (gEntered r) p t"
    and p: "mids_ok p []"
  shows "err = None \<Longrightarrow> row_inv w (r'\<lparr>rPc := p\<rparr>)"
    and "err = Some e \<Longrightarrow> row_inv w (r'\<lparr>rPc := Finishing (Some e)\<rparr>)"
proof -
  have rr: "rRow r \<noteq> None \<longleftrightarrow> rRepo r" using inv by (simp add: row_inv_def)
  show "row_inv w (r'\<lparr>rPc := p\<rparr>)" if "err = None"
    using c rr
  proof (cases rule: checkpoint_cases)
    case none
    with mids p rr free show ?thesis by (auto simp: row_inv_def)
  next
    case failed
    with that show ?thesis by simp
  next
    case (saved t x blob)
    with mids p rr ok show ?thesis by (simp add: row_inv_def)
  qed
  show "row_inv w (r'\<lparr>rPc := Finishing (Some e)\<rparr>)" if "err = Some e"
    using c rr by (cases rule: checkpoint_cases) (use that mids rr dd in \<open>auto simp: row_inv_def\<close>)
qed

definition going :: "pc \<Rightarrow> bool" where
  "going p \<longleftrightarrow> \<not> spent p \<and> p \<noteq> Idle \<and> (\<forall>err. p \<noteq> Finishing err)"

lemma going_facts: "eng_inv r \<Longrightarrow> going (rPc r) \<Longrightarrow> \<not> eDetachDone (rEngine r)"
  by (cases "rPc r"; simp add: eng_inv_def Let_def going_def spent_def)

lemma finish_row_inv:
  assumes "row_inv w r" "eng_inv r" "rPc r = Finishing err"
  shows "row_inv w (finish err r)"
  using assms by (auto simp: finish_def Let_def row_inv_def settled_def)

lemma stamp_row_inv:
  assumes "row_inv w r" "eng_inv r" "rPc r = Stamping err oc out"
  shows "row_inv w (stamp now fault err oc out r)"
proof -
  have e: "\<not> eDetachDone (rEngine r)" "oc = eState (rEngine r)" "out = eOutput (rEngine r)"
    using assms(2,3) by (simp_all add: eng_inv_def Let_def)
  have r: "rRow r \<noteq> None \<longleftrightarrow> rRepo r" "rInst r \<noteq> None" "rMids r = []"
    using assms(1,3) by (simp_all add: row_inv_def)
  show ?thesis
  proof (cases "rRow r")
    case None
    with r e show ?thesis by (simp add: stamp_def row_inv_def)
  next
    case (Some t)
    with r e show ?thesis
      by (cases fault) (simp_all add: stamp_def row_inv_def MarkTerminal_def settled_def stamped_def)
  qed
qed

lemma teardown_row_inv:
  assumes "row_inv w r" "rPc r = Tearing err serr"
  shows "row_inv w (teardown w err serr r)"
proof -
  have "settled e ents (err_join a serr) t" if "settled e ents serr t" for e ents a t
    using that by (cases a; cases serr) (auto simp: settled_def)
  with assms show ?thesis by (simp add: teardown_def Let_def row_inv_def)
qed

lemma harvest_frame:
  assumes "harvest w r = (err, r')"
  obtains out where "r' = r\<lparr>rEngine := (rEngine r)\<lparr>eOutput := out\<rparr>\<rparr>"
proof -
  have "r' = r\<lparr>rEngine := (rEngine r)\<lparr>eOutput := eOutput (rEngine r')\<rparr>\<rparr>"
    using assms by (auto simp: harvest_def split: option.splits sum.splits)
  then show ?thesis by (rule that)
qed

lemma go_live_row_inv:
  assumes inv: "row_inv w r" "eng_inv r" and pc: "rPc r = Live n"
  shows "row_inv w (go_live w n r)"
proof -
  have dd: "\<not> eDetachDone (rEngine r)" using inv(2) pc by (simp add: eng_inv_def Let_def)
  have r: "rRow r \<noteq> None \<longleftrightarrow> rRepo r" "rInst r \<noteq> None" "rMids r = []"
    using inv(1) pc by (simp_all add: row_inv_def)
  show ?thesis
  proof (cases n)
    case None
    obtain err r' where h: "harvest w r = (err, r')" by (cases "harvest w r")
    then obtain out where "r' = r\<lparr>rEngine := (rEngine r)\<lparr>eOutput := out\<rparr>\<rparr>" by (rule harvest_frame)
    with None h r dd show ?thesis by (simp add: go_live_def row_inv_def)
  next
    case (Some s)
    with r dd show ?thesis by (simp add: go_live_def row_inv_def split: option.splits)
  qed
qed

lemma advance_row_inv:
  assumes inv: "row_inv w r" "eng_inv r"
  shows "row_inv w (advance w now fault r)"
proof (cases "rPc r")
  case (Begun start)
  with inv(1) show ?thesis by (simp add: advance_def prepare_def row_inv_def)
next
  case (Top n)
  define r1 where "r1 = r\<lparr>rEngine := (rEngine r)\<lparr>eCurrent := []\<rparr>\<rparr>"
  have i1: "row_inv w r1" unfolding r1_def by (rule row_inv_engine [OF inv(1)]) simp_all
  have r1: "rMids r1 = []" "rInst r1 \<noteq> None" "\<not> eDetachDone (rEngine r1)" "rPc r1 = Top n"
    using inv Top by (simp_all add: r1_def row_inv_def eng_inv_def Let_def)
  show ?thesis
  proof (cases "\<exists>s. n = Some s \<and> eState (rEngine r) = StatusSuspended")
    case True
    with Top i1 r1 show ?thesis
      by (auto simp: advance_def at_top_def Let_def r1_def [symmetric] row_inv_def)
  next
    case False
    then have d: "advance w now fault r = decide n r1"
      using Top by (cases n) (auto simp: advance_def at_top_def Let_def r1_def)
    show ?thesis unfolding d
    proof (rule decide_row_inv [OF i1 r1(1,2,3)])
      fix t assume t: "rRow r1 = Some t" "eSnap (rEngine r1)" "eState (rEngine r1) = StatusSuspended"
      with False have "n = None" by (cases n) (auto simp: r1_def)
      with i1 t r1(4) show "resting (gEntered r1) t" by (simp add: row_inv_def resting_def)
    qed
  qed
next
  case (SavingSuspend s)
  obtain err r' where c: "checkpoint w now StatusSuspended s fault r = (err, r')"
    by (cases "checkpoint w now StatusSuspended s fault r")
  have r: "rMids r = []" "rInst r \<noteq> None" "\<not> eDetachDone (rEngine r)"
    using inv SavingSuspend by (simp_all add: row_inv_def eng_inv_def Let_def)
  from checkpoint_row_inv [OF inv(1) r c, of "Woken s"] c SavingSuspend show ?thesis
    by (cases err) (auto simp: advance_def saved_as_def)
next
  case (Woken s)
  have r: "rMids r = []" "rInst r \<noteq> None" "\<not> eDetachDone (rEngine r)"
    using inv Woken by (simp_all add: row_inv_def eng_inv_def Let_def)
  have "row_inv w (decide (Some s) r)"
    by (rule decide_row_inv [OF inv(1) r]) (use inv(1) Woken in \<open>simp add: row_inv_def saved_as_def resting_def\<close>)
  with Woken inv(1) show ?thesis by (simp add: advance_def recheck_def row_inv_def)
next
  case (Live n)
  with go_live_row_inv [OF inv] show ?thesis by (simp add: advance_def)
next
  case (Saving s)
  obtain err r' where c: "checkpoint w now StatusRunning s fault r = (err, r')"
    by (cases "checkpoint w now StatusRunning s fault r")
  have r: "rMids r = []" "rInst r \<noteq> None" "\<not> eDetachDone (rEngine r)"
    using inv Saving by (simp_all add: row_inv_def eng_inv_def Let_def)
  from checkpoint_row_inv [OF inv(1) r c, of "Saved s"] c Saving show ?thesis
    by (cases err) (auto simp: advance_def saved_as_def)
next
  case (Saved s)
  with inv(1) show ?thesis by (auto simp: advance_def row_inv_def saved_as_def at_last_def)
next
  case (Finishing err)
  with finish_row_inv [OF inv] show ?thesis by (simp add: advance_def)
next
  case (Stamping err oc out)
  with stamp_row_inv [OF inv] show ?thesis by (simp add: advance_def)
next
  case (Tearing err serr)
  with teardown_row_inv [OF inv(1)] show ?thesis by (simp add: advance_def)
next
  case (Returning err)
  with epilogue_row_inv [OF _ inv(1)] show ?thesis by (simp add: advance_def)
qed (use inv in \<open>simp_all add: advance_def\<close>)

theorem joined_inv: "eng_joined w r \<Longrightarrow> row_inv w r"
proof (induction rule: eng_joined.induct)
  case (fresh repo recovered input t)
  show ?case by (rule fresh_row_inv)
next
  case (step r ev)
  then have e: "eng_inv r" by (intro eng_reachable_inv joined_reachable)
  note i = step.IH
  show ?case
  proof (cases ev)
    case (EvWork x)
    with i show ?thesis by (cases "rPc r") (auto simp: row_inv_def)
  next
    case (EvReturn res)
    with step.hyps(2) have m: "rMids r = []" by (simp add: joins_def)
    show ?thesis
    proof (cases "\<exists>s. rPc r = Executing s")
      case True
      then obtain s where s: "rPc r = Executing s" by blast
      with e have "\<not> eDetachDone (rEngine r)" by (simp add: eng_inv_def Let_def)
      with i m s EvReturn show ?thesis
        by (cases res; cases "projr res") (auto simp: handler_returns_def row_inv_def)
    next
      case False
      with i EvReturn show ?thesis by (cases "rPc r") (simp_all add: handler_returns_def)
    qed
  next
    case EvMidCheckpoint
    with step.hyps(2) obtain s where s: "rPc r = Executing s" by (auto simp: joins_def split: pc.splits)
    with e have "eCurrent (rEngine r) = s" by (simp add: eng_inv_def Let_def)
    with i s EvMidCheckpoint show ?thesis
      by (cases "midCheckpoint r") (auto simp: row_inv_def midCheckpoint_def split: if_splits)
  qed (use i e in \<open>simp_all add: Start_row_inv advance_row_inv midSave_row_inv locked_row_inv\<close>)
qed

section \<open>A concrete task\<close>

definition demo_wf :: "(nat, string) workflow" where
  "demo_wf =
     \<lparr>wNewInstance = (\<lambda>_. Inr ''x''), wRestoreInstance = Some Inr,
      wGraph = (\<lambda>_. \<lparr>gInitial = ''A'', gStates = [(''A'', ()), (''B'', ())]\<rparr>),
      wSnapshotter = (\<lambda>_. True), wSnapshot = Inr, wOutput = (\<lambda>x. Some (Inr (''out:'' @ x))),
      wTeardown = (\<lambda>_ _ _. None)\<rparr>"

definition demo_task :: task where
  "demo_task = \<lparr>tID = ''t'', tWorkflowID = ''w'', tGroupID = [], tAssignments = [], tState = [],
     tSnapshot = [], tStatus = StatusNotStarted, tOutput = [], tCreatedAt = 1, tUpdatedAt = 1\<rparr>"

definition demo_new :: "(nat, string) run" where
  "demo_new = fresh True False AnyNil demo_task"

fun adv :: "nat \<Rightarrow> string eng_event list" where
  "adv 0 = []"
| "adv (Suc n) = EvAdvance 5 None # adv n"

text \<open>Events up to the handler of the first state, and on to the park before the second.\<close>

definition to_A :: "string eng_event list" where
  "to_A = EvStart 2 # adv 5"

definition to_park :: "string eng_event list" where
  "to_park = to_A @ [EvWork ''y'', EvMidCheckpoint, EvMidSave 4 None, EvSuspend, EvReturn (Inr (Some ''B''))] @ adv 3"

fun joins_all :: "('i, 'x) workflow \<Rightarrow> 'x eng_event list \<Rightarrow> ('i, 'x) run \<Rightarrow> bool" where
  "joins_all w [] r = True"
| "joins_all w (ev # evs) r = (joins ev r \<and> joins_all w evs (eng_step w ev r))"

lemma joined_steps: "eng_joined w r \<Longrightarrow> joins_all w evs r \<Longrightarrow> eng_joined w (eng_steps w evs r)"
  unfolding eng_steps_def by (induction evs arbitrary: r) (auto intro: eng_joined.step)

lemma eng_steps_simps [simp]:
  "eng_steps w [] r = r"
  "eng_steps w (ev # evs) r = eng_steps w evs (eng_step w ev r)"
  "eng_steps w (evs @ evs') r = eng_steps w evs' (eng_steps w evs r)"
  by (simp_all add: eng_steps_def)

lemma joins_all_append: "joins_all w (evs @ evs') r \<longleftrightarrow> joins_all w evs r \<and> joins_all w evs' (eng_steps w evs r)"
  by (induction evs arbitrary: r) auto

lemma demo_new_joined: "eng_joined w demo_new"
  unfolding demo_new_def by (rule eng_joined.fresh)

lemma demo_A:
  "joins_all demo_wf to_A demo_new" "rPc (eng_steps demo_wf to_A demo_new) = Executing ''A''"
  "rRow (eng_steps demo_wf to_A demo_new)
     = Some (demo_task\<lparr>tStatus := StatusRunning, tState := ''A'', tSnapshot := ''x'', tUpdatedAt := 5\<rparr>)"
  by code_simp+

lemma demo_park:
  "joins_all demo_wf to_park demo_new" "rPc (eng_steps demo_wf to_park demo_new) = Asleep ''B''"
  "rRow (eng_steps demo_wf to_park demo_new)
     = Some (demo_task\<lparr>tStatus := StatusSuspended, tState := ''B'', tSnapshot := ''y'', tUpdatedAt := 5\<rparr>)"
  by code_simp+

section \<open>Properties of the run\<close>

lemma demo_reach: "eng_reachable demo_wf (eng_steps demo_wf evs demo_new)"
  unfolding demo_new_def by (intro eng_reachable_steps eng_reachable.fresh)

lemma started_refuses:
  assumes "eng_inv r" "rPc r \<noteq> Idle"
  shows "fst (Start w now r) \<noteq> None"
proof (cases "Start w now r")
  case (Pair err r')
  then show ?thesis
  proof (cases rule: Start_cases)
    case refused
    with Pair show ?thesis by simp
  next
    case (admitted x start suspended e)
    then have "eState (rEngine r) = StatusNotStarted" by (auto elim: admit_cases)
    with assms have False by (cases "rPc r"; auto simp: eng_inv_def Let_def split: if_splits)
    then show ?thesis ..
  qed
qed

text \<open>C3. A handle drives at most one run: once a Start has been admitted every further one is refused,
  and the instance of the run is torn down exactly once, when the run ends, on every path.\<close>

theorem one_run_per_handle:
  assumes "eng_reachable w r"
  shows "gRuns r \<le> 1 \<and> (gRuns r = 0 \<or> fst (Start w now r) \<noteq> None)
    \<and> gTorn r = (case rPc r of Returning _ \<Rightarrow> 1 | Exited _ \<Rightarrow> 1 | _ \<Rightarrow> 0)"
  using eng_reachable_facts(1,2,3) [OF assms] started_refuses [OF eng_reachable_inv [OF assms]] by auto

theorem one_run_per_handle_witness:
  "fst (Start demo_wf 9 (eng_steps demo_wf to_A demo_new)) \<noteq> None"
proof -
  have "gRuns (eng_steps demo_wf to_A demo_new) \<noteq> 0" by code_simp
  with one_run_per_handle [OF demo_reach, of to_A 9] show ?thesis by blast
qed

text \<open>C14. A parked run cannot miss its wake-up: while it sleeps the engine is suspended with no detach
  pending, and a Resume, a Detach or a Kill each find it asleep and wake it.\<close>

theorem parked_run_wakes:
  assumes "eng_reachable w r" and "rPc r = Asleep s"
  shows "eState (rEngine r) = StatusSuspended \<and> \<not> eDetachWanted (rEngine r)
    \<and> rPc (eng_step w EvResume r) = Woken s \<and> rPc (eng_step w EvDetach r) = Woken s
    \<and> rPc (eng_step w EvKill r) = Woken s"
proof -
  from eng_reachable_inv [OF assms(1)] assms(2)
  have f: "eState (rEngine r) = StatusSuspended" "\<not> eDetachWanted (rEngine r)" "\<not> eDetachDone (rEngine r)"
    by (simp_all add: eng_inv_def Let_def)
  with assms(2) show ?thesis
    by (simp add: Resume_def Detach_def Kill_def with_signal_def signal_def)
qed

theorem parked_run_wakes_witness:
  "rPc (eng_step demo_wf EvResume (eng_steps demo_wf to_park demo_new)) = Woken ''B''"
  using parked_run_wakes [OF demo_reach demo_park(2)] by blast

lemma sealed_step:
  assumes "eng_reachable w r" "rPc r = Idle" "eSealed (rEngine r)" "ev \<noteq> EvUnseal"
  shows "rPc (eng_step w ev r) = Idle \<and> eSealed (rEngine (eng_step w ev r))"
proof (cases ev)
  case (EvStart now)
  show ?thesis
  proof (cases "Start w now r")
    case (Pair err r')
    then show ?thesis
    proof (cases rule: Start_cases)
      case refused
      with Pair EvStart assms show ?thesis by simp
    next
      case (admitted x start suspended e)
      with assms(3) have False by (auto elim: admit_cases)
      then show ?thesis ..
    qed
  qed
next
  case EvMidCheckpoint
  with assms show ?thesis by (cases "midCheckpoint r") auto
next
  case (EvMidSave now fault)
  from eng_reachable_inv [OF assms(1)] assms(2) have "rMids r = []" by (simp add: eng_inv_def Let_def)
  with EvMidSave assms show ?thesis by (simp add: midSave_def)
qed (use assms in \<open>auto simp: advance_def handler_returns_def Suspend_def Resume_def Detach_def Kill_def
    seal_def with_signal_def signal_def\<close>)

text \<open>C16. A sealed task never begins to run: whatever happens short of an unseal, Start included, the
  run stays unbegun and no state is entered; and an engine that is running or suspended cannot be
  sealed.\<close>

theorem sealed_never_starts:
  assumes "eng_reachable w r" and "rPc r = Idle" and "eSealed (rEngine r)" and "EvUnseal \<notin> set evs"
  shows "rPc (eng_steps w evs r) = Idle \<and> gEntered (eng_steps w evs r) = []"
  using assms
proof (induction evs arbitrary: r)
  case Nil
  with eng_reachable_inv [OF Nil.prems(1)] show ?case by (simp add: eng_inv_def Let_def)
next
  case (Cons ev evs)
  then have "rPc (eng_step w ev r) = Idle" "eSealed (rEngine (eng_step w ev r))"
    using sealed_step [OF Cons.prems(1,2,3)] by auto
  with Cons show ?case by (simp add: eng_reachable.step)
qed

theorem sealed_never_starts_witness:
  "rPc (eng_steps demo_wf (to_A @ to_A) (eng_step demo_wf EvSeal demo_new)) = Idle"
proof -
  have r: "eng_reachable demo_wf (eng_step demo_wf EvSeal demo_new)"
    unfolding demo_new_def by (intro eng_reachable.intros)
  have s: "rPc (eng_step demo_wf EvSeal demo_new) = Idle" "eSealed (rEngine (eng_step demo_wf EvSeal demo_new))"
    by code_simp+
  have "EvUnseal \<notin> set (to_A @ to_A)" by code_simp
  from sealed_never_starts [OF r s this] show ?thesis by blast
qed

text \<open>A kill.\<close>

definition about :: "('i, 'x) run \<Rightarrow> nat" where
  "about r = length (gEntered r) +
     (case rPc r of Live (Some _) \<Rightarrow> 1 | Saving _ \<Rightarrow> 1 | Saved _ \<Rightarrow> 1 | _ \<Rightarrow> 0)"

lemma killed_advance:
  assumes "eState (rEngine r) = StatusKilled"
  shows "eState (rEngine (advance w now fault r)) = StatusKilled \<and> about (advance w now fault r) \<le> about r"
proof -
  have c: "eState (rEngine r') = StatusKilled \<and> gEntered r' = gEntered r"
    if "checkpoint w now st s fault r = (err, r')" for st s err r'
    using that assms by (auto elim: checkpoint_frame)
  have h: "eState (rEngine r') = StatusKilled \<and> gEntered r' = gEntered r" if "harvest w r = (err, r')" for err r'
    using that assms by (auto elim: harvest_frame)
  show ?thesis
  proof (cases "rPc r")
    case (Top n)
    with assms show ?thesis by (cases n) (simp_all add: advance_def at_top_def Let_def decide_def about_def)
  next
    case (SavingSuspend s)
    obtain err r' where k: "checkpoint w now StatusSuspended s fault r = (err, r')"
      by (cases "checkpoint w now StatusSuspended s fault r")
    with c [OF k] SavingSuspend show ?thesis by (cases err) (simp_all add: advance_def about_def)
  next
    case (Live n)
    show ?thesis
    proof (cases n)
      case None
      obtain err r' where k: "harvest w r = (err, r')" by (cases "harvest w r")
      with h [OF k] Live None show ?thesis by (simp add: advance_def go_live_def about_def)
    next
      case (Some s)
      with Live assms show ?thesis by (cases "Handler (rGraph r) s") (simp_all add: advance_def go_live_def about_def)
    qed
  next
    case (Saving s)
    obtain err r' where k: "checkpoint w now StatusRunning s fault r = (err, r')"
      by (cases "checkpoint w now StatusRunning s fault r")
    with c [OF k] Saving show ?thesis by (cases err) (simp_all add: advance_def about_def)
  next
    case (Returning err)
    obtain t where "epilogue now err r = r\<lparr>rTask := t\<rparr>" using epilogue_frame by blast
    with Returning assms show ?thesis by (simp add: advance_def about_def)
  next
    case (Stamping err oc out)
    with assms show ?thesis
      by (cases "MarkTerminal now oc out fault (rRow r)") (simp add: advance_def stamp_def about_def)
  qed (use assms in \<open>simp_all add: advance_def prepare_def recheck_def decide_def finish_def teardown_def
      about_def Let_def\<close>)
qed

lemma killed_step:
  assumes "eState (rEngine r) = StatusKilled"
  shows "eState (rEngine (eng_step w ev r)) = StatusKilled \<and> about (eng_step w ev r) \<le> about r"
proof (cases ev)
  case (EvStart now)
  show ?thesis
  proof (cases "Start w now r")
    case (Pair err r')
    then show ?thesis
    proof (cases rule: Start_cases)
      case refused
      with Pair EvStart assms show ?thesis by (simp add: about_def)
    next
      case (admitted x start suspended e)
      with assms have False by (auto elim!: admit_cases)
      then show ?thesis ..
    qed
  qed
next
  case (EvAdvance now fault)
  with killed_advance [OF assms] show ?thesis by simp
next
  case (EvWork x)
  with assms show ?thesis by (cases "rPc r") (simp_all add: about_def)
next
  case (EvReturn res)
  with assms show ?thesis by (cases "rPc r"; cases res) (simp_all add: handler_returns_def about_def)
next
  case EvMidCheckpoint
  with assms show ?thesis by (simp add: midCheckpoint_def eng_live_def)
next
  case (EvMidSave now fault)
  show ?thesis
  proof (cases "rMids r")
    case (Cons s rest)
    obtain err r' where c: "checkpoint w now StatusRunning s fault r = (err, r')"
      by (cases "checkpoint w now StatusRunning s fault r")
    then obtain row where "r' = r\<lparr>rRow := row\<rparr>" by (rule checkpoint_frame)
    with c Cons EvMidSave assms show ?thesis by (simp add: midSave_def about_def)
  qed (use EvMidSave assms in \<open>simp add: midSave_def\<close>)
qed (use assms in \<open>simp_all add: Suspend_def Resume_def Detach_def Kill_def seal_def unseal_def
    with_signal_def about_def\<close>)

text \<open>C15. A kill is final: a killed engine stays killed whatever happens next, and at most one more
  state is entered after it, the one the run was already about to enter.\<close>

theorem kill_is_final:
  assumes "eState (rEngine r) = StatusKilled"
  shows "eState (rEngine (eng_steps w evs r)) = StatusKilled
    \<and> length (gEntered (eng_steps w evs r)) \<le> Suc (length (gEntered r))"
proof -
  have "eState (rEngine (eng_steps w evs r)) = StatusKilled \<and> about (eng_steps w evs r) \<le> about r"
    using assms
  proof (induction evs arbitrary: r)
    case (Cons ev evs)
    from killed_step [OF Cons.prems, of w ev] Cons.IH [of "eng_step w ev r"] show ?case by auto
  qed simp
  moreover have "length (gEntered (eng_steps w evs r)) \<le> about (eng_steps w evs r)"
    by (simp add: about_def)
  moreover have "about r \<le> Suc (length (gEntered r))"
    by (auto simp: about_def split: pc.splits option.splits)
  ultimately show ?thesis by linarith
qed

theorem kill_is_final_witness:
  "eState (rEngine (eng_steps demo_wf ([EvKill] @ adv 9 @ [EvResume]) (eng_steps demo_wf to_park demo_new)))
     = StatusKilled"
proof -
  have "eState (rEngine (eng_steps demo_wf (to_park @ [EvKill]) demo_new)) = StatusKilled" by code_simp
  from kill_is_final [OF this, of demo_wf "adv 9 @ [EvResume]"] show ?thesis by simp
qed

section \<open>Properties of the row\<close>




definition to_done :: "string eng_event list" where
  "to_done = to_A @ [EvReturn (Inr None)] @ adv 6"


text \<open>A detached run stays recoverable: it ends with ErrDetached, its engine still suspended, and
  nothing terminal is stamped; the row is the suspended checkpoint, or, when the detach reached a run
  whose last handler had just returned nil, still the running checkpoint of that last state.\<close>

theorem detach_keeps_checkpoint:
  assumes "eng_joined w r" and "rRepo r" and "eSnap (rEngine r)" and "rPc r = Exited err"
    and "eDetachDone (rEngine r)"
  shows "eState (rEngine r) = StatusSuspended \<and> (\<exists>e. err = Some e \<and> err_is e ErrDetached) \<and>
    (\<exists>t. rRow r = Some t \<and> (tStatus t = StatusSuspended
       \<or> tStatus t = StatusRunning \<and> gEntered r \<noteq> [] \<and> tState t = last (gEntered r)))"
proof -
  have "eState (rEngine r) = StatusSuspended \<and> (\<exists>e. err = Some e \<and> err_is e ErrDetached)"
    using eng_reachable_inv [OF joined_reachable [OF assms(1)]] assms(4,5) by (simp add: eng_inv_def Let_def)
  moreover have "\<exists>t. rRow r = Some t \<and> resting (gEntered r) t"
    using joined_inv [OF assms(1)] assms(2-5) by (auto simp: row_inv_def settled_def)
  ultimately show ?thesis by (auto simp: resting_def at_last_def)
qed

theorem detach_keeps_checkpoint_witness:
  "\<exists>t. rRow (eng_steps demo_wf (to_park @ [EvDetach] @ adv 4) demo_new) = Some t
     \<and> tStatus t = StatusSuspended"
proof -
  let ?r = "eng_steps demo_wf (to_park @ [EvDetach] @ adv 4) demo_new"
  have j: "joins_all demo_wf (to_park @ [EvDetach] @ adv 4) demo_new" by code_simp
  have f: "rRepo ?r" "eSnap (rEngine ?r)" "rPc ?r = Exited (Some ErrDetached)" "eDetachDone (rEngine ?r)"
    "map_option tStatus (rRow ?r) = Some StatusSuspended"
    by code_simp+
  from detach_keeps_checkpoint [OF joined_steps [OF demo_new_joined j] f(1,2,3,4)] f(5) show ?thesis by auto
qed

text \<open>A crash while parked loses nothing: a handle rebuilt from the row of a parked run, of a workflow
  whose restore undoes its snapshot, is admitted by Start and parks again before the same state, with
  the same instance and without having entered any state.\<close>

theorem parked_restart_resumes:
  assumes "eng_joined w r" and "rRepo r" and "eSnap (rEngine r)" and "rPc r = Asleep s"
    and "wRestoreInstance w = Some build" and "\<forall>x snap. wSnapshot w x = Inr snap \<longrightarrow> build snap = Inr x"
    and "\<forall>x. wSnapshotter w x"
  shows "\<exists>t. rRow r = Some t \<and>
    (let r' = eng_steps w [EvStart now, EvAdvance now None, EvAdvance now None, EvAdvance now None,
                EvAdvance now None] (fresh True True input t)
     in rPc r' = Asleep s \<and> rInst r' = rInst r \<and> gEntered r' = []
        \<and> eState (rEngine r') = StatusSuspended)"
proof -
  from joined_inv [OF assms(1)] assms(2-4) obtain t x
    where t: "rRow r = Some t" "tStatus t = StatusSuspended" "tState t = s"
    and x: "rInst r = Some x" "wSnapshot w x = Inr (tSnapshot t)"
    by (auto simp: row_inv_def saved_as_def)
  define r0 where "r0 = (fresh True True input t :: ('a, 'b) run)"
  define e where "e = newEngine\<lparr>eState := StatusSuspended\<rparr>"
  have "admit True newEngine = Inr e" by (simp add: admit_def newEngine_def e_def)
  then have s0: "snd (Start w now r0) = r0\<lparr>rEngine := e, rInst := Some x, rGraph := wGraph w x,
      rPc := Begun (Some s), gRuns := 1\<rparr>" (is "_ = ?r1")
    using assms(5,6) t x by (simp add: Start_def Start_plan_def r0_def fresh_def Terminal_def Let_def)
  have s1: "advance w now None ?r1 = ?r1\<lparr>rEngine := e\<lparr>eSnap := True\<rparr>, rPc := Top (Some s)\<rparr>" (is "_ = ?r2")
    using assms(7) by (simp add: advance_def prepare_def Let_def)
  have s2: "advance w now None ?r2 = ?r2\<lparr>rEngine := e\<lparr>eSnap := True, eCurrent := []\<rparr>, rPc := SavingSuspend s\<rparr>"
    (is "_ = ?r3")
    by (simp add: advance_def at_top_def Let_def e_def)
  obtain row where s3: "advance w now None ?r3 = ?r3\<lparr>rRow := row, rPc := Woken s\<rparr>" (is "_ = ?r4")
    using x by (simp add: advance_def checkpoint_def SaveCheckpoint_def r0_def fresh_def)
  have s4: "advance w now None ?r4 = ?r4\<lparr>rPc := Asleep s\<rparr>"
    by (simp add: advance_def recheck_def e_def newEngine_def)
  have "eng_steps w [EvStart now, EvAdvance now None, EvAdvance now None, EvAdvance now None,
      EvAdvance now None] r0 = ?r4\<lparr>rPc := Asleep s\<rparr>"
    by (simp only: eng_steps_simps eng_step.simps s0 s1 s2 s3 s4)
  then show ?thesis using t(1) x(1)
    by (auto simp: Let_def r0_def [symmetric]) (simp_all add: r0_def fresh_def e_def)
qed

theorem parked_restart_resumes_witness:
  "\<exists>t. rRow (eng_steps demo_wf to_park demo_new) = Some t \<and>
     rInst (eng_steps demo_wf [EvStart 9, EvAdvance 9 None, EvAdvance 9 None, EvAdvance 9 None, EvAdvance 9 None]
       (fresh True True AnyNil t)) = Some ''y''"
proof -
  let ?r = "eng_steps demo_wf to_park demo_new"
  have f: "rRepo ?r" "eSnap (rEngine ?r)" "rInst ?r = Some ''y''" by code_simp+
  have w: "wRestoreInstance demo_wf = Some Inr" "\<forall>x snap. wSnapshot demo_wf x = Inr snap \<longrightarrow> Inr snap = (Inr x :: task_error + string)"
    "\<forall>x. wSnapshotter demo_wf x"
    by (simp_all add: demo_wf_def)
  from parked_restart_resumes [OF joined_steps [OF demo_new_joined demo_park(1)] f(1,2) demo_park(2) w, of 9 AnyNil]
  show ?thesis unfolding f(3) Let_def by blast
qed

lemma epilogue_unstarted:
  "eState (rEngine r) = StatusNotStarted \<Longrightarrow> tStatus (rTask (epilogue now err r)) = tStatus (rTask r)"
  by (cases err) (simp_all add: epilogue_def bring_current_def Let_def)

lemma Start_unstarted:
  assumes "eState (rEngine r) = StatusNotStarted" "rPc (snd (Start w now r)) = rPc r"
    and "\<nexists>start. rPc r = Begun start"
  shows "tStatus (rTask (snd (Start w now r))) = tStatus (rTask r)"
proof (cases "Start_plan w r")
  case (Inl e)
  with assms(1) show ?thesis by (simp add: Start_def epilogue_unstarted)
next
  case (Inr p)
  obtain x start susp where p: "p = (x, start, susp)" by (cases p) auto
  with Inr assms show ?thesis
    by (cases "admit susp (rEngine r)") (simp_all add: Start_def epilogue_unstarted)
qed

fun held :: "pc \<Rightarrow> bool" where
  "held (Begun n) = (n \<noteq> None)"
| "held (Top n) = (n \<noteq> None)"
| "held (Live _) = False" | "held (Saving _) = False" | "held (Saved _) = False" | "held (Executing _) = False"
| "held _ = True"

definition waits :: "('i, 'x) run \<Rightarrow> bool" where
  "waits r \<longleftrightarrow> held (rPc r) \<and> gEntered r = [] \<and> rRecovered r \<and> eState (rEngine r) \<noteq> StatusRunning
     \<and> (rPc r = Idle \<longrightarrow> eState (rEngine r) = StatusNotStarted \<longrightarrow> tStatus (rTask r) = StatusSuspended)"

lemma waits_advance:
  assumes "eng_inv r" "waits r"
  shows "waits (advance w now fault r)"
proof -
  have st: "eState (rEngine r) = StatusSuspended \<or> eState (rEngine r) = StatusKilled" if "going (rPc r)"
    using assms that by (cases "rPc r"; simp add: eng_inv_def Let_def going_def spent_def waits_def; blast)
  show ?thesis
  proof (cases "rPc r")
    case (Top n)
    with assms st show ?thesis
      by (cases n) (auto simp: waits_def advance_def at_top_def Let_def decide_def going_def spent_def)
  next
    case (SavingSuspend s)
    obtain err r' where c: "checkpoint w now StatusSuspended s fault r = (err, r')"
      by (cases "checkpoint w now StatusSuspended s fault r")
    then obtain row where "r' = r\<lparr>rRow := row\<rparr>" by (rule checkpoint_frame)
    with c SavingSuspend assms(2) show ?thesis by (cases err) (simp_all add: waits_def advance_def)
  next
    case (Woken s)
    with assms st show ?thesis
      by (auto simp: waits_def advance_def recheck_def decide_def going_def spent_def)
  next
    case (Stamping err oc out)
    with assms(2) show ?thesis
      by (cases "MarkTerminal now oc out fault (rRow r)") (simp add: waits_def advance_def stamp_def)
  next
    case (Returning err)
    obtain t where "epilogue now err r = r\<lparr>rTask := t\<rparr>" using epilogue_frame by blast
    with Returning assms(2) show ?thesis by (simp add: waits_def advance_def)
  qed (use assms(2) in \<open>simp_all add: waits_def advance_def prepare_def finish_def teardown_def Let_def\<close>)
qed

lemma waits_step:
  assumes "eng_reachable w r" "waits r" "ev \<noteq> EvResume"
  shows "waits (eng_step w ev r)"
proof (cases ev)
  case (EvStart now)
  show ?thesis
  proof (cases "Start w now r")
    case (Pair err r')
    then show ?thesis
    proof (cases rule: Start_cases)
      case (refused e t)
      have "tStatus t = tStatus (rTask r)" if "eState (rEngine r) = StatusNotStarted" "rPc r = Idle"
        using Start_unstarted [of r w now] that refused Pair by simp
      with Pair refused EvStart assms(2) show ?thesis by (auto simp: waits_def)
    next
      case (admitted x start suspended e)
      from admitted(2) have e: "eState (rEngine r) = StatusNotStarted"
        "e = (rEngine r)\<lparr>eState := (if suspended then StatusSuspended else StatusRunning)\<rparr>"
        by (auto elim: admit_cases)
      with eng_reachable_inv [OF assms(1)] have "rPc r = Idle"
        by (cases "rPc r"; auto simp: eng_inv_def Let_def split: if_splits)
      with e assms(2) have "rRecovered r" "tStatus (rTask r) = StatusSuspended" by (simp_all add: waits_def)
      with admitted(1) have "suspended" "start \<noteq> None"
        by (auto simp: Start_plan_def Let_def Terminal_def split: option.splits sum.splits)
      with Pair EvStart admitted(4) e(2) assms(2) show ?thesis by (simp add: waits_def)
    qed
  qed
next
  case (EvAdvance now fault)
  with waits_advance [OF eng_reachable_inv [OF assms(1)] assms(2)] show ?thesis by simp
next
  case (EvWork x)
  with assms(2) show ?thesis by (cases "rPc r") (simp_all add: waits_def)
next
  case (EvReturn res)
  with assms(2) show ?thesis by (cases "rPc r") (simp_all add: waits_def handler_returns_def)
next
  case EvMidCheckpoint
  with assms(2) show ?thesis by (cases "midCheckpoint r") (simp_all add: waits_def)
next
  case (EvMidSave now fault)
  show ?thesis
  proof (cases "rMids r")
    case (Cons s rest)
    obtain err r' where c: "checkpoint w now StatusRunning s fault r = (err, r')"
      by (cases "checkpoint w now StatusRunning s fault r")
    then obtain row where "r' = r\<lparr>rRow := row\<rparr>" by (rule checkpoint_frame)
    with c Cons EvMidSave assms(2) show ?thesis by (simp add: midSave_def waits_def)
  qed (use EvMidSave assms(2) in \<open>simp add: midSave_def\<close>)
next
  case EvKill
  with assms(2) show ?thesis by (cases "rPc r") (auto simp: waits_def with_signal_def Kill_def signal_def)
next
  case EvDetach
  with assms(2) show ?thesis by (cases "rPc r") (auto simp: waits_def with_signal_def Detach_def signal_def)
qed (use assms(2,3) in \<open>simp_all add: waits_def Suspend_def seal_def unseal_def\<close>)

text \<open>A task recovered from a suspended checkpoint stays paused: a Start brings it back parked, and
  until somebody calls Resume it enters no state, whatever else is done to it.\<close>

theorem suspended_recovery_waits:
  fixes w :: "('i, 'x) workflow"
  assumes "tStatus t = StatusSuspended" and "EvResume \<notin> set evs"
  shows "gEntered (eng_steps w evs (fresh repo True input t)) = []"
proof -
  have "waits (eng_steps w evs r)" if "eng_reachable w r" "waits r" for r
    using that assms(2)
  proof (induction evs arbitrary: r)
    case (Cons ev evs)
    have ne: "ev \<noteq> EvResume" using Cons.prems(3) by auto
    have "waits (eng_step w ev r)" by (rule waits_step [OF Cons.prems(1,2) ne])
    with Cons show ?case by (simp add: eng_reachable.step)
  qed simp
  moreover have "waits (fresh repo True input t :: ('i, 'x) run)" using assms(1) by (simp add: waits_def fresh_def newEngine_def)
  ultimately have "waits (eng_steps w evs (fresh repo True input t))" by (simp add: eng_reachable.fresh)
  then show ?thesis by (simp add: waits_def)
qed

theorem suspended_recovery_waits_witness:
  "gEntered (eng_steps demo_wf ([EvStart 3] @ adv 20 @ [EvKill] @ adv 9)
     (fresh True True AnyNil (demo_task\<lparr>tStatus := StatusSuspended, tState := ''B''\<rparr>))) = []"
proof -
  have "EvResume \<notin> set ([EvStart 3] @ adv 20 @ [EvKill] @ adv 9)" by code_simp
  from suspended_recovery_waits [OF _ this, of "demo_task\<lparr>tStatus := StatusSuspended, tState := ''B''\<rparr>"
      demo_wf True AnyNil]
  show ?thesis by simp
qed

section \<open>Where the code and its comments part\<close>

text \<open>Suspend and Detach while the last handler runs: it returns nil, so the loop has nothing to park
  before and takes no suspended checkpoint, but it honours the detach. The output is never harvested
  and the row still says running at the last state, which a recovery runs again.\<close>

theorem detach_at_the_end:
  "let r = eng_steps demo_wf (to_A @ [EvSuspend, EvDetach, EvReturn (Inr None)] @ adv 4) demo_new
   in rPc r = Exited (Some ErrDetached) \<and> eOutput (rEngine r) = []
      \<and> map_option tStatus (rRow r) = Some StatusRunning \<and> map_option tState (rRow r) = Some ''A''"
  by code_simp

text \<open>A kill between the harvest and finish: the run returns its output and no error, and the row is
  stamped killed with that output.\<close>

theorem killed_with_output:
  "let r = eng_steps demo_wf (to_A @ [EvReturn (Inr None)] @ adv 2 @ [EvKill] @ adv 4) demo_new
   in rPc r = Exited None \<and> eOutput (rEngine r) \<noteq> []
      \<and> map_option tStatus (rRow r) = Some StatusKilled \<and> map_option tOutput (rRow r) = Some ''out:x''"
  by code_simp

text \<open>A mid-state checkpoint that passed its check while the state ran and writes after finish puts the
  row back to running: the check and the write are not one step.\<close>

theorem late_checkpoint_overwrites:
  "let r = eng_steps demo_wf (to_A @ [EvMidCheckpoint, EvReturn (Inr None)] @ adv 6 @ [EvMidSave 9 None]) demo_new
   in rPc r = Exited None \<and> eState (rEngine r) = StatusDone \<and> map_option tStatus (rRow r) = Some StatusRunning"
  by code_simp

text \<open>A handler that returns an error of another task's Start, ErrAlreadyStarted, is taken for a
  refusal of its own: the run has failed, the row says so, and the handle's record is left behind.\<close>

theorem child_already_started:
  "let r = eng_steps demo_wf (to_A @ [EvReturn (Inl (ErrWrap ''child'' ErrAlreadyStarted))] @ adv 4) demo_new
   in rPc r = Exited (Some (ErrWrap ''child'' ErrAlreadyStarted)) \<and> tStatus (rTask r) = StatusNotStarted
      \<and> map_option tStatus (rRow r) = Some StatusFailed"
  by code_simp

text \<open>A killed task counts as stopped at once: it can be sealed, and so deleted, while its handler
  still runs, and a second Start of a recovered handle that has finished is refused as terminal.\<close>

theorem killed_handler_is_sealed:
  "let r = eng_steps demo_wf (to_A @ [EvKill, EvSeal]) demo_new
   in rPc r = Executing ''A'' \<and> eSealed (rEngine r)"
  by code_simp

end
