(* ===== verification/Tasks_Manager.thy ===== *)
theory Tasks_Manager
  imports Engine
begin

text \<open>
  The manager of the tasks package (src/tasks/manager.go): the registries of workflows and tasks, the
  cache of task groups, and the operations that create, recover, repoint, group and delete tasks.

  A handle is a Go pointer that the registry and its callers share, so handles live in a heap and the
  registry maps a task to an address. Each operation holds the registry's mutex from its first read
  to its last write and is one function of the state; the run of a handle does not take that mutex
  and is the engine's business. The resource managers are an interface: two operations on a state of
  their own. Panics of a constructor are errors of it here.
\<close>

section \<open>Ports\<close>

record ('i, 'x) registered =
  wfEngine :: "('i, 'x) workflow"
  wfValidateInput :: "'i any \<Rightarrow> task_error option"
  wfUseResources :: "(kind list \<Rightarrow> task_error option) option"

record 's trepo =
  trCreateTask :: "task \<Rightarrow> 's \<Rightarrow> repoerr option \<times> 's"
  trRecoverTask :: "string \<Rightarrow> 's \<Rightarrow> (repoerr + task) \<times> 's"
  trSaveAssignment :: "string \<Rightarrow> kind \<Rightarrow> placement \<Rightarrow> 's \<Rightarrow> repoerr option \<times> 's"
  trRecoverAll :: "'s \<Rightarrow> (repoerr + task list) \<times> 's"
  trDeleteTask :: "string \<Rightarrow> 's \<Rightarrow> repoerr option \<times> 's"
  trSaveGroup :: "tgroup \<Rightarrow> 's \<Rightarrow> repoerr option \<times> 's"
  trListGroups :: "'s \<Rightarrow> (repoerr + tgroup list) \<times> 's"
  trDeleteGroup :: "string \<Rightarrow> 's \<Rightarrow> repoerr option \<times> 's"
  trTasksInGroup :: "string \<Rightarrow> 's \<Rightarrow> (repoerr + string list) \<times> 's"

record 'r rmops =
  rmUnlock :: "time \<Rightarrow> string \<Rightarrow> 'r \<Rightarrow> lease_error option \<times> 'r"
  rmReleaseStaleLock :: "time \<Rightarrow> assignment \<Rightarrow> 'r \<Rightarrow> lease_error option \<times> 'r"

datatype tm_error =
    TEPanic string
  | TEWorkflowRegistered
  | TEWire string task_error
  | TENoWorkflow
  | TEInput task_error
  | TEKind string kind_error
  | TENoGroup string
  | TENoRepo
  | TERepo string repoerr
  | TERehydrate string tm_error
  | TEStaleLock kind string lease_error
  | TERunning
  | TERelease string "(kind \<times> lease_error) list"
  | TEGroupIDRequired
  | TEGlobal
  | TEGroupExists string
  | TEMemberRunning string string
  | TEDeleteGroup string tm_error

section \<open>State\<close>

record 'i thandle =
  hTask :: task
  hInput :: "'i any"
  hResolved :: "(kind, resolved) gomap"
  hEngine :: engine
  hRecovered :: bool

record ('i, 'x, 's, 'r) tmgr =
  tmWorkflows :: "(string, ('i, 'x) registered) gomap"
  tmRegistry :: "(string, nat) gomap"
  tmHeap :: "(nat, 'i thandle) gomap"
  tmNext :: nat
  tmRepo :: "'s trepo option"
  tmStore :: "'s"
  tmResources :: "(kind \<times> 'r) list"
  tmGroups :: "(string, tgroup) gomap"

definition handle_at :: "('i, 'x, 's, 'r) tmgr \<Rightarrow> string \<Rightarrow> 'i thandle option" where
  "handle_at m i = Option.bind (get (tmRegistry m) i) (get (tmHeap m))"

definition set_engine :: "nat \<Rightarrow> (engine \<Rightarrow> engine) \<Rightarrow> ('i, 'x, 's, 'r) tmgr \<Rightarrow> ('i, 'x, 's, 'r) tmgr" where
  "set_engine a f m =
     (case get (tmHeap m) a of
        None \<Rightarrow> m
      | Some h \<Rightarrow> m\<lparr>tmHeap := put a (h\<lparr>hEngine := f (hEngine h)\<rparr>) (tmHeap m)\<rparr>)"

text \<open>Allocating a handle and pointing the registry at it.\<close>

definition install :: "string \<Rightarrow> 'i thandle \<Rightarrow> ('i, 'x, 's, 'r) tmgr \<Rightarrow> ('i, 'x, 's, 'r) tmgr" where
  "install i h m = m\<lparr>tmHeap := put (tmNext m) h (tmHeap m), tmRegistry := put i (tmNext m) (tmRegistry m),
     tmNext := Suc (tmNext m)\<rparr>"

section \<open>Construction\<close>

definition tasks_WithResource ::
    "kind \<Rightarrow> 'r option \<Rightarrow> (kind \<times> 'r) list \<Rightarrow> tm_error + (kind \<times> 'r) list" where
  "tasks_WithResource kind rm rs =
     (if kind_Validate kind \<noteq> None then Inl (TEPanic ''resource kind registered with an invalid name'')
      else (case rm of
              None \<Rightarrow> Inl (TEPanic ''resource kind registered with a nil manager'')
            | Some r \<Rightarrow>
                if kind \<in> fst ` set rs then Inl (TEPanic ''resource kind registered twice'')
                else Inr (rs @ [(kind, r)])))"

fun withResources :: "(kind \<times> 'r option) list \<Rightarrow> (kind \<times> 'r) list \<Rightarrow> tm_error + (kind \<times> 'r) list" where
  "withResources [] rs = Inr rs"
| "withResources ((k, rm) # opts) rs =
     (case tasks_WithResource k rm rs of Inl e \<Rightarrow> Inl e | Inr rs' \<Rightarrow> withResources opts rs')"

definition tasks_NewManager ::
    "'s trepo option \<Rightarrow> (kind \<times> 'r option) list \<Rightarrow> 's \<Rightarrow> (tm_error + ('i, 'x, 's, 'r) tmgr) \<times> 's" where
  "tasks_NewManager repo opts st =
     (case withResources opts [] of
        Inl e \<Rightarrow> (Inl e, st)
      | Inr rs \<Rightarrow>
          (let m0 = \<lparr>tmWorkflows = [], tmRegistry = [], tmHeap = [], tmNext = 0, tmRepo = repo,
                     tmStore = st, tmResources = rs,
                     tmGroups = [(TasksGlobalGroup, zeroTGroup TasksGlobalGroup)]\<rparr>
           in case repo of
                None \<Rightarrow> (Inr m0, st)
              | Some rp \<Rightarrow>
                  (case trListGroups rp st of
                     (Inl e, st') \<Rightarrow> (Inl (TERepo ''load task groups'' e), st')
                   | (Inr gs, st') \<Rightarrow>
                       (Inr (m0\<lparr>tmStore := st',
                               tmGroups := fold (\<lambda>g. put (tgID g) g) gs (tmGroups m0)\<rparr>), st'))))"

definition RegisterWorkflow ::
    "string \<Rightarrow> ('i, 'x) registered \<Rightarrow> ('i, 'x, 's, 'r) tmgr \<Rightarrow> tm_error option \<times> ('i, 'x, 's, 'r) tmgr" where
  "RegisterWorkflow i flow m =
     (if get (tmWorkflows m) i \<noteq> None then (Some TEWorkflowRegistered, m)
      else (case (case wfUseResources flow of None \<Rightarrow> None | Some use \<Rightarrow> use (map fst (tmResources m))) of
              Some e \<Rightarrow> (Some (TEWire i e), m)
            | None \<Rightarrow> (None, m\<lparr>tmWorkflows := put i flow (tmWorkflows m)\<rparr>)))"

definition getWorkflow :: "string \<Rightarrow> ('i, 'x, 's, 'r) tmgr \<Rightarrow> tm_error + ('i, 'x) registered" where
  "getWorkflow i m = (case get (tmWorkflows m) i of None \<Rightarrow> Inl TENoWorkflow | Some flow \<Rightarrow> Inr flow)"

section \<open>Reads\<close>

definition tasks_GetGroup :: "string \<Rightarrow> ('i, 'x, 's, 'r) tmgr \<Rightarrow> tgroup option" where
  "tasks_GetGroup i m = (case tmRepo m of None \<Rightarrow> Some (zeroTGroup i) | Some _ \<Rightarrow> get (tmGroups m) i)"

definition tasks_getGroup :: "string \<Rightarrow> ('i, 'x, 's, 'r) tmgr \<Rightarrow> tm_error + tgroup" where
  "tasks_getGroup i m = (case tasks_GetGroup i m of None \<Rightarrow> Inl (TENoGroup i) | Some g \<Rightarrow> Inr g)"

definition tasks_ListGroups :: "('i, 'x, 's, 'r) tmgr \<Rightarrow> tgroup list" where
  "tasks_ListGroups m = sort_key tgID (map snd (tmGroups m))"

definition TasksInGroup ::
    "string \<Rightarrow> ('i, 'x, 's, 'r) tmgr \<Rightarrow> (tm_error + string list) \<times> ('i, 'x, 's, 'r) tmgr" where
  "TasksInGroup groupID m =
     (case tmRepo m of
        None \<Rightarrow>
          (Inr (sort (filter (\<lambda>i. case handle_at m i of None \<Rightarrow> False | Some h \<Rightarrow> groupOf (hTask h) = groupID)
                  (map fst (tmRegistry m)))), m)
      | Some rp \<Rightarrow>
          (case trTasksInGroup rp groupID (tmStore m) of
             (Inl e, st) \<Rightarrow> (Inl (TERepo ''list tasks of group'' e), m\<lparr>tmStore := st\<rparr>)
           | (Inr ids, st) \<Rightarrow> (Inr (sort ids), m\<lparr>tmStore := st\<rparr>)))"

definition tasks_IsRunning :: "string \<Rightarrow> ('i, 'x, 's, 'r) tmgr \<Rightarrow> bool" where
  "tasks_IsRunning i m = (case handle_at m i of None \<Rightarrow> False | Some h \<Rightarrow> IsRunning (hEngine h))"

section \<open>Creating and recovering tasks\<close>

text \<open>The id and the time come from outside.\<close>

definition createTask ::
    "('i, 'x) registered \<Rightarrow> string \<Rightarrow> time \<Rightarrow> string \<Rightarrow> 'i any \<Rightarrow> string \<Rightarrow> (kind, placement) gomap
      \<Rightarrow> (kind, resolved) gomap \<Rightarrow> tm_error + 'i thandle" where
  "createTask flow newID now workflowID input groupID stored resolved =
     (case wfValidateInput flow input of
        Some e \<Rightarrow> Inl (TEInput e)
      | None \<Rightarrow>
          Inr \<lparr>hTask = \<lparr>tID = newID, tWorkflowID = workflowID, tGroupID = groupID, tAssignments = stored,
                        tState = [], tSnapshot = [], tStatus = StatusNotStarted, tOutput = [],
                        tCreatedAt = now, tUpdatedAt = now\<rparr>,
               hInput = input, hResolved = resolved, hEngine = newEngine, hRecovered = False\<rparr>)"

definition rehydrateTask :: "task \<Rightarrow> (kind, resolved) gomap \<Rightarrow> 'i thandle" where
  "rehydrateTask record resolved =
     \<lparr>hTask = record, hInput = AnyNil, hResolved = resolved, hEngine = newEngine, hRecovered = True\<rparr>"

definition CreateTask ::
    "string \<Rightarrow> time \<Rightarrow> string \<Rightarrow> 'i any \<Rightarrow> (createConfig \<Rightarrow> createConfig) list \<Rightarrow> ('i, 'x, 's, 'r) tmgr
      \<Rightarrow> (tm_error + 'i thandle) \<times> ('i, 'x, 's, 'r) tmgr" where
  "CreateTask newID now workflowID input opts m =
     (case getWorkflow workflowID m of
        Inl e \<Rightarrow> (Inl e, m)
      | Inr flow \<Rightarrow>
     (let cfg = newConfig opts in
      case validKinds (ccAssignments cfg) of
        Some e \<Rightarrow> (Inl (TEKind ''create task'' e), m)
      | None \<Rightarrow>
     (case tasks_getGroup (ccGroupID cfg) m of
        Inl e \<Rightarrow> (Inl e, m)
      | Inr g \<Rightarrow>
     (case createTask flow newID now workflowID input (ccGroupID cfg) (ccAssignments cfg)
             (resolveAll (ccAssignments cfg) g) of
        Inl e \<Rightarrow> (Inl e, m)
      | Inr h \<Rightarrow>
     (case tmRepo m of
        None \<Rightarrow> (Inr h, install newID h m)
      | Some rp \<Rightarrow>
     (case trCreateTask rp (hTask h) (tmStore m) of
        (Some e, st) \<Rightarrow> (Inl (TERepo ''create task'' e), m\<lparr>tmStore := st\<rparr>)
      | (None, st) \<Rightarrow> (Inr h, install newID h (m\<lparr>tmStore := st\<rparr>))))))))"

definition rehydrate :: "task \<Rightarrow> tgroup \<Rightarrow> ('i, 'x, 's, 'r) tmgr \<Rightarrow> tm_error + 'i thandle" where
  "rehydrate record g m =
     (case getWorkflow (tWorkflowID record) m of
        Inl e \<Rightarrow> Inl e
      | Inr _ \<Rightarrow> Inr (rehydrateTask record (resolveAll (tAssignments record) g)))"

definition RecoverTask ::
    "string \<Rightarrow> ('i, 'x, 's, 'r) tmgr \<Rightarrow> (tm_error + 'i thandle) \<times> ('i, 'x, 's, 'r) tmgr" where
  "RecoverTask i m =
     (case (if tasks_IsRunning i m then handle_at m i else None) of
        Some h \<Rightarrow> (Inr h, m)
      | None \<Rightarrow>
     (case tmRepo m of
        None \<Rightarrow> (Inl TENoRepo, m)
      | Some rp \<Rightarrow>
     (case trRecoverTask rp i (tmStore m) of
        (Inl e, st) \<Rightarrow> (Inl (TERepo ''recover task'' e), m\<lparr>tmStore := st\<rparr>)
      | (Inr record, st) \<Rightarrow>
     (let m1 = m\<lparr>tmStore := st\<rparr> in
      case tasks_getGroup (groupOf record) m1 of
        Inl e \<Rightarrow> (Inl e, m1)
      | Inr g \<Rightarrow>
     (case rehydrate record g m1 of
        Inl e \<Rightarrow> (Inl e, m1)
      | Inr h \<Rightarrow> (Inr h, install i h m1))))))"

text \<open>RecoverAll lists the records and copies the groups before it takes the registry's mutex; the
  rest is one pass under it. A record that fails stops the pass, and what was installed stays.\<close>

fun recoverRecords ::
    "(string, tgroup) gomap \<Rightarrow> task list \<Rightarrow> 'i thandle list \<Rightarrow> ('i, 'x, 's, 'r) tmgr
      \<Rightarrow> (tm_error + 'i thandle list) \<times> ('i, 'x, 's, 'r) tmgr" where
  "recoverRecords groups [] acc m = (Inr acc, m)"
| "recoverRecords groups (record # records) acc m =
     (case (if tasks_IsRunning (tID record) m then handle_at m (tID record) else None) of
        Some h \<Rightarrow> recoverRecords groups records (acc @ [h]) m
      | None \<Rightarrow>
     (case get groups (groupOf record) of
        None \<Rightarrow> (Inl (TERehydrate (tID record) (TENoGroup (groupOf record))), m)
      | Some g \<Rightarrow>
     (case rehydrate record g m of
        Inl e \<Rightarrow> (Inl (TERehydrate (tID record) e), m)
      | Inr h \<Rightarrow> recoverRecords groups records (acc @ [h]) (install (tID record) h m))))"

definition RecoverAll_list ::
    "('i, 'x, 's, 'r) tmgr
      \<Rightarrow> (tm_error + (task list \<times> (string, tgroup) gomap) option) \<times> ('i, 'x, 's, 'r) tmgr" where
  "RecoverAll_list m =
     (case tmRepo m of
        None \<Rightarrow> (Inr None, m)
      | Some rp \<Rightarrow>
          (case trRecoverAll rp (tmStore m) of
             (Inl e, st) \<Rightarrow> (Inl (TERepo ''recover tasks'' e), m\<lparr>tmStore := st\<rparr>)
           | (Inr records, st) \<Rightarrow> (Inr (Some (records, tmGroups m)), m\<lparr>tmStore := st\<rparr>)))"

definition RecoverAll ::
    "('i, 'x, 's, 'r) tmgr \<Rightarrow> (tm_error + 'i thandle list) \<times> ('i, 'x, 's, 'r) tmgr" where
  "RecoverAll m =
     (case RecoverAll_list m of
        (Inl e, m1) \<Rightarrow> (Inl e, m1)
      | (Inr None, m1) \<Rightarrow> (Inr [], m1)
      | (Inr (Some (records, groups)), m1) \<Rightarrow> recoverRecords groups records [] m1)"

section \<open>Resources of a task\<close>

text \<open>Every manager is asked, whatever the others answered.\<close>

fun unlockAll ::
    "'r rmops \<Rightarrow> time \<Rightarrow> string \<Rightarrow> (kind \<times> 'r) list \<Rightarrow> (kind \<times> lease_error) list \<times> (kind \<times> 'r) list" where
  "unlockAll ops now i [] = ([], [])"
| "unlockAll ops now i ((k, r) # rs) =
     (case rmUnlock ops now i r of
        (err, r') \<Rightarrow>
          (case unlockAll ops now i rs of
             (errs, rs') \<Rightarrow> ((case err of Some e \<Rightarrow> [(k, e)] | None \<Rightarrow> []) @ errs, (k, r') # rs')))"

definition releaseTask ::
    "'r rmops \<Rightarrow> time \<Rightarrow> string \<Rightarrow> ('i, 'x, 's, 'r) tmgr \<Rightarrow> tm_error option \<times> ('i, 'x, 's, 'r) tmgr" where
  "releaseTask ops now i m =
     (case unlockAll ops now i (tmResources m) of
        (errs, rs) \<Rightarrow> (if errs = [] then None else Some (TERelease i errs), m\<lparr>tmResources := rs\<rparr>))"

text \<open>The stale lock of one kind, with the manager of that kind, when there is one.\<close>

fun releaseStale ::
    "'r rmops \<Rightarrow> time \<Rightarrow> kind \<Rightarrow> assignment \<Rightarrow> (kind \<times> 'r) list \<Rightarrow> lease_error option \<times> (kind \<times> 'r) list" where
  "releaseStale ops now kind a [] = (None, [])"
| "releaseStale ops now kind a ((k, r) # rs) =
     (if k = kind then (case rmReleaseStaleLock ops now a r of (err, r') \<Rightarrow> (err, (k, r') # rs))
      else (case releaseStale ops now kind a rs of (err, rs') \<Rightarrow> (err, (k, r) # rs')))"

definition AssignResource ::
    "'r rmops \<Rightarrow> time \<Rightarrow> string \<Rightarrow> kind \<Rightarrow> placement \<Rightarrow> ('i, 'x, 's, 'r) tmgr
      \<Rightarrow> tm_error option \<times> ('i, 'x, 's, 'r) tmgr" where
  "AssignResource ops now i kind p m =
     (case kind_Validate kind of
        Some e \<Rightarrow> (Some (TEKind ''assign'' e), m)
      | None \<Rightarrow>
     (case tmRepo m of
        None \<Rightarrow> (Some TENoRepo, m)
      | Some rp \<Rightarrow>
     (case trRecoverTask rp i (tmStore m) of
        (Inl e, st) \<Rightarrow> (Some (TERepo ''load task'' e), m\<lparr>tmStore := st\<rparr>)
      | (Inr record, st) \<Rightarrow>
     (let m1 = m\<lparr>tmStore := st\<rparr> in
      case tasks_getGroup (groupOf record) m1 of
        Inl e \<Rightarrow> (Some e, m1)
      | Inr g \<Rightarrow>
     (case trSaveAssignment rp i kind p (tmStore m1) of
        (Some e, st2) \<Rightarrow> (Some (TERepo ''assign'' e), m1\<lparr>tmStore := st2\<rparr>)
      | (None, st2) \<Rightarrow>
          (let rv = resolve p g kind in
           case releaseStale ops now kind
                  \<lparr>asgTask = i, asgGroup = rvGroupID rv, asgRes = rvResourceID rv\<rparr> (tmResources m1) of
             (err, rs) \<Rightarrow>
               (map_option (TEStaleLock kind i) err, m1\<lparr>tmStore := st2, tmResources := rs\<rparr>)))))))"

section \<open>Deleting a task\<close>

text \<open>Sealing the handle at an address; false, and nothing sealed, when it is live.\<close>

definition seal_at :: "nat \<Rightarrow> ('i, 'x, 's, 'r) tmgr \<Rightarrow> bool \<times> ('i, 'x, 's, 'r) tmgr" where
  "seal_at a m =
     (case get (tmHeap m) a of
        None \<Rightarrow> (True, m)
      | Some h \<Rightarrow> if fst (seal (hEngine h)) then (True, set_engine a (snd \<circ> seal) m) else (False, m))"

definition unseal_at :: "nat \<Rightarrow> ('i, 'x, 's, 'r) tmgr \<Rightarrow> ('i, 'x, 's, 'r) tmgr" where
  "unseal_at a m = set_engine a unseal m"

definition DeleteTask ::
    "'r rmops \<Rightarrow> time \<Rightarrow> string \<Rightarrow> ('i, 'x, 's, 'r) tmgr \<Rightarrow> tm_error option \<times> ('i, 'x, 's, 'r) tmgr" where
  "DeleteTask ops now i m =
     (let known = get (tmRegistry m) i;
          (ok, m1) = (case known of None \<Rightarrow> (True, m) | Some a \<Rightarrow> seal_at a m)
      in if \<not> ok then (Some TERunning, m)
      else (case releaseTask ops now i m1 of
              (Some e, m2) \<Rightarrow> (Some e, case known of None \<Rightarrow> m2 | Some a \<Rightarrow> unseal_at a m2)
            | (None, m2) \<Rightarrow>
                (let m3 = m2\<lparr>tmRegistry := del i (tmRegistry m2)\<rparr>
                 in case tmRepo m3 of
                      None \<Rightarrow> (None, m3)
                    | Some rp \<Rightarrow>
                        (case trDeleteTask rp i (tmStore m3) of
                           (err, st) \<Rightarrow> (map_option (TERepo ''delete task'') err, m3\<lparr>tmStore := st\<rparr>)))))"

section \<open>Task groups\<close>

definition tasks_CreateGroup ::
    "time \<Rightarrow> tgroup \<Rightarrow> ('i, 'x, 's, 'r) tmgr \<Rightarrow> tm_error option \<times> ('i, 'x, 's, 'r) tmgr" where
  "tasks_CreateGroup now g m =
     (if tgID g = [] then (Some TEGroupIDRequired, m)
      else (case validKinds (tgResourceGroups g) of
              Some e \<Rightarrow> (Some (TEKind (tgID g) e), m)
            | None \<Rightarrow>
      if tgID g = TasksGlobalGroup then (Some TEGlobal, m)
      else (case tmRepo m of
              None \<Rightarrow> (Some TENoRepo, m)
            | Some rp \<Rightarrow>
      if get (tmGroups m) (tgID g) \<noteq> None then (Some (TEGroupExists (tgID g)), m)
      else (let g' = g\<lparr>tgCreatedAt := now, tgUpdatedAt := now\<rparr>
            in case trSaveGroup rp g' (tmStore m) of
                 (Some e, st) \<Rightarrow> (Some (TERepo ''save task group'' e), m\<lparr>tmStore := st\<rparr>)
               | (None, st) \<Rightarrow> (None, m\<lparr>tmStore := st, tmGroups := put (tgID g) g' (tmGroups m)\<rparr>)))))"

text \<open>The callback edits a copy of the group whose map of resource groups is the one the cache keeps, so
  it also says what it leaves in that map; the kept group has it on every path.\<close>

definition tasks_UpdateGroup ::
    "time \<Rightarrow> string \<Rightarrow> (tgroup \<Rightarrow> tgroup \<times> (kind, string) gomap) \<Rightarrow> ('i, 'x, 's, 'r) tmgr
      \<Rightarrow> tm_error option \<times> ('i, 'x, 's, 'r) tmgr" where
  "tasks_UpdateGroup now i fn m =
     (case tmRepo m of
        None \<Rightarrow> (Some TENoRepo, m)
      | Some rp \<Rightarrow>
     (case get (tmGroups m) i of
        None \<Rightarrow> (Some (TENoGroup i), m)
      | Some kept \<Rightarrow>
     (let (g1, shared) = fn kept;
          m1 = m\<lparr>tmGroups := put i (kept\<lparr>tgResourceGroups := shared\<rparr>) (tmGroups m)\<rparr>;
          g2 = g1\<lparr>tgID := tgID kept, tgCreatedAt := tgCreatedAt kept\<rparr>
      in case validKinds (tgResourceGroups g2) of
           Some e \<Rightarrow> (Some (TEKind i e), m1)
         | None \<Rightarrow>
     (let g3 = (if tgCreatedAt g2 = 0 then g2\<lparr>tgCreatedAt := now\<rparr> else g2);
          g4 = g3\<lparr>tgUpdatedAt := now\<rparr>
      in case trSaveGroup rp g4 (tmStore m1) of
           (Some e, st) \<Rightarrow> (Some (TERepo ''save task group'' e), m1\<lparr>tmStore := st\<rparr>)
         | (None, st) \<Rightarrow> (None, m1\<lparr>tmStore := st, tmGroups := put i g4 (tmGroups m1)\<rparr>)))))"

text \<open>DeleteGroup: seal every member that is loaded, release every member, delete every record, then
  the group. A member that is live, or a release that fails, reopens what was sealed.\<close>

fun sealMembers ::
    "string list \<Rightarrow> nat list \<Rightarrow> ('i, 'x, 's, 'r) tmgr \<Rightarrow> string option \<times> nat list \<times> ('i, 'x, 's, 'r) tmgr" where
  "sealMembers [] sealed m = (None, sealed, m)"
| "sealMembers (i # ids) sealed m =
     (case get (tmRegistry m) i of
        None \<Rightarrow> sealMembers ids sealed m
      | Some a \<Rightarrow>
          (case seal_at a m of
             (False, m') \<Rightarrow> (Some i, sealed, m')
           | (True, m') \<Rightarrow> sealMembers ids (sealed @ [a]) m'))"

definition unsealAll :: "nat list \<Rightarrow> ('i, 'x, 's, 'r) tmgr \<Rightarrow> ('i, 'x, 's, 'r) tmgr" where
  "unsealAll as m = fold unseal_at as m"

fun releaseMembers ::
    "'r rmops \<Rightarrow> time \<Rightarrow> string list \<Rightarrow> ('i, 'x, 's, 'r) tmgr \<Rightarrow> tm_error option \<times> ('i, 'x, 's, 'r) tmgr" where
  "releaseMembers ops now [] m = (None, m)"
| "releaseMembers ops now (i # ids) m =
     (case releaseTask ops now i m of
        (Some e, m') \<Rightarrow> (Some e, m')
      | (None, m') \<Rightarrow> releaseMembers ops now ids m')"

fun deleteMembers ::
    "'s trepo \<Rightarrow> string list \<Rightarrow> ('i, 'x, 's, 'r) tmgr \<Rightarrow> tm_error option \<times> ('i, 'x, 's, 'r) tmgr" where
  "deleteMembers rp [] m = (None, m)"
| "deleteMembers rp (i # ids) m =
     (let m1 = m\<lparr>tmRegistry := del i (tmRegistry m)\<rparr>
      in case trDeleteTask rp i (tmStore m1) of
           (Some e, st) \<Rightarrow> (Some (TERepo ''delete task of group'' e), m1\<lparr>tmStore := st\<rparr>)
         | (None, st) \<Rightarrow> deleteMembers rp ids (m1\<lparr>tmStore := st\<rparr>))"

definition tasks_DeleteGroup ::
    "'r rmops \<Rightarrow> time \<Rightarrow> string \<Rightarrow> ('i, 'x, 's, 'r) tmgr \<Rightarrow> tm_error option \<times> ('i, 'x, 's, 'r) tmgr" where
  "tasks_DeleteGroup ops now i m =
     (if i = TasksGlobalGroup then (Some TEGlobal, m)
      else (case tmRepo m of
        None \<Rightarrow> (Some TENoRepo, m)
      | Some rp \<Rightarrow>
      if tasks_GetGroup i m = None then (Some (TENoGroup i), m)
      else (case trTasksInGroup rp i (tmStore m) of
        (Inl e, st) \<Rightarrow> (Some (TERepo ''list tasks of group'' e), m\<lparr>tmStore := st\<rparr>)
      | (Inr ids, st) \<Rightarrow>
      (case sealMembers ids [] (m\<lparr>tmStore := st\<rparr>) of
        (Some busy, sealed, m1) \<Rightarrow> (Some (TEMemberRunning i busy), unsealAll sealed m1)
      | (None, sealed, m1) \<Rightarrow>
      (case releaseMembers ops now ids m1 of
        (Some e, m2) \<Rightarrow> (Some (TEDeleteGroup i e), unsealAll sealed m2)
      | (None, m2) \<Rightarrow>
      (case deleteMembers rp ids m2 of
        (Some e, m3) \<Rightarrow> (Some e, m3)
      | (None, m3) \<Rightarrow>
      (case trDeleteGroup rp i (tmStore m3) of
        (Some e, st) \<Rightarrow> (Some (TERepo ''delete task group'' e), m3\<lparr>tmStore := st\<rparr>)
      | (None, st) \<Rightarrow> (None, m3\<lparr>tmStore := st, tmGroups := del i (tmGroups m3)\<rparr>))))))))"

end
