(* ===== verification/Tasks_Deletion.thy ===== *)
theory Tasks_Deletion
  imports Tasks_Manager
begin

text \<open>
  What the task manager's operations do to its own state, case by case, and the contract it needs of
  a resource manager: the interface \<^theory_text>\<open>resource_manager\<close>, with the laws of Unlock and
  ReleaseStaleLock, and what deleting and repointing tasks guarantee under it.
\<close>

section \<open>Well-formed managers\<close>

definition tm_ok :: "('i, 'x, 's, 'r) tmgr \<Rightarrow> bool" where
  "tm_ok m \<longleftrightarrow> wf_map (tmRegistry m) \<and> wf_map (tmHeap m) \<and> wf_map (tmGroups m)
     \<and> (\<forall>a h. get (tmHeap m) a = Some h \<longrightarrow> a < tmNext m)
     \<and> (\<forall>i a. get (tmRegistry m) i = Some a \<longrightarrow> get (tmHeap m) a \<noteq> None)
     \<and> (\<forall>i j a. get (tmRegistry m) i = Some a \<longrightarrow> get (tmRegistry m) j = Some a \<longrightarrow> i = j)
     \<and> get (tmGroups m) TasksGlobalGroup \<noteq> None
     \<and> (\<forall>i g. get (tmGroups m) i = Some g \<longrightarrow> tgID g = i)
     \<and> distinct (map fst (tmResources m))"

lemma tm_okD:
  assumes "tm_ok m"
  shows "wf_map (tmRegistry m)" "wf_map (tmHeap m)" "wf_map (tmGroups m)"
    "get (tmHeap m) a = Some h \<Longrightarrow> a < tmNext m"
    "get (tmRegistry m) i = Some a \<Longrightarrow> get (tmHeap m) a \<noteq> None"
    "get (tmRegistry m) i = Some a \<Longrightarrow> get (tmRegistry m) j = Some a \<Longrightarrow> i = j"
    "get (tmGroups m) TasksGlobalGroup \<noteq> None"
    "get (tmGroups m) i = Some g \<Longrightarrow> tgID g = i"
    "distinct (map fst (tmResources m))"
  using assms by (auto simp: tm_ok_def)

lemma tm_ok_store [simp]: "tm_ok (m\<lparr>tmStore := st\<rparr>) = tm_ok m"
  by (simp add: tm_ok_def)

lemma set_engine_frame [simp, frame_simps]:
  "tmRegistry (set_engine a f m) = tmRegistry m" "tmGroups (set_engine a f m) = tmGroups m"
  "tmResources (set_engine a f m) = tmResources m" "tmStore (set_engine a f m) = tmStore m"
  "tmRepo (set_engine a f m) = tmRepo m" "tmNext (set_engine a f m) = tmNext m"
  "tmWorkflows (set_engine a f m) = tmWorkflows m"
  by (simp_all add: set_engine_def split: option.splits)

lemma set_engine_heap:
  "get (tmHeap (set_engine a f m)) b =
     (if b = a then map_option (\<lambda>h. h\<lparr>hEngine := f (hEngine h)\<rparr>) (get (tmHeap m) a) else get (tmHeap m) b)"
  by (auto simp: set_engine_def split: option.splits)

lemma tm_ok_set_engine: "tm_ok m \<Longrightarrow> tm_ok (set_engine a f m)"
  by (cases "get (tmHeap m) a") (auto simp: tm_ok_def set_engine_def)

lemma tm_ok_install: "tm_ok m \<Longrightarrow> tm_ok (install i h m)"
proof -
  assume ok: "tm_ok m"
  have fresh: "get (tmHeap m) (tmNext m) = None"
    using tm_okD(4) [OF ok, of "tmNext m"] by (cases "get (tmHeap m) (tmNext m)") auto
  then have new: "get (tmRegistry m) j \<noteq> Some (tmNext m)" for j
    using tm_okD(5) [OF ok, of j "tmNext m"] by auto
  have lt: "get (tmHeap m) a = Some h' \<Longrightarrow> a < Suc (tmNext m)" for a h'
    using tm_okD(4) [OF ok, of a h'] by simp
  from ok new lt show ?thesis
    by (auto simp: tm_ok_def install_def)
qed

lemma tm_ok_del: "tm_ok m \<Longrightarrow> tm_ok (m\<lparr>tmRegistry := del i (tmRegistry m)\<rparr>)"
  by (auto simp: tm_ok_def split: if_splits)

lemma tm_ok_put_group: "tm_ok m \<Longrightarrow> tgID g = i \<Longrightarrow> tm_ok (m\<lparr>tmGroups := put i g (tmGroups m)\<rparr>)"
  by (auto simp: tm_ok_def)

lemma tm_ok_del_group:
  "tm_ok m \<Longrightarrow> i \<noteq> TasksGlobalGroup \<Longrightarrow> tm_ok (m\<lparr>tmGroups := del i (tmGroups m)\<rparr>)"
  by (auto simp: tm_ok_def)

lemma tm_ok_resources: "tm_ok m \<Longrightarrow> map fst rs = map fst (tmResources m) \<Longrightarrow> tm_ok (m\<lparr>tmResources := rs\<rparr>)"
  by (simp add: tm_ok_def)

lemma unlockAll_kinds: "unlockAll ops now i rs = (errs, rs') \<Longrightarrow> map fst rs' = map fst rs"
  by (induction rs arbitrary: errs rs') (auto split: prod.splits)

lemma releaseStale_kinds: "releaseStale ops now k a rs = (e, rs') \<Longrightarrow> map fst rs' = map fst rs"
  by (induction rs arbitrary: e rs') (auto split: prod.splits if_splits)

text \<open>Release writes the resources only.\<close>

lemma releaseTask_cases:
  assumes "releaseTask ops now i m = (e, m')"
  obtains errs rs where "unlockAll ops now i (tmResources m) = (errs, rs)" "m' = m\<lparr>tmResources := rs\<rparr>"
    "e = (if errs = [] then None else Some (TERelease i errs))"
  using assms by (auto simp: releaseTask_def split: prod.splits)

lemma releaseTask_ok: "releaseTask ops now i m = (e, m') \<Longrightarrow> tm_ok m \<Longrightarrow> tm_ok m'"
  by (auto elim!: releaseTask_cases intro: tm_ok_resources dest: unlockAll_kinds)

section \<open>Sealing\<close>

definition sealed_at :: "('i, 'x, 's, 'r) tmgr \<Rightarrow> nat \<Rightarrow> bool" where
  "sealed_at m a \<longleftrightarrow> (\<forall>h. get (tmHeap m) a = Some h \<longrightarrow> eSealed (hEngine h) \<and> \<not> eng_live (hEngine h))"

lemma eng_live_sealed [simp]: "eng_live (e\<lparr>eSealed := b\<rparr>) = eng_live e"
  by (simp add: eng_live_def)

lemma seal_at_cases:
  assumes "seal_at a m = (ok, m')"
  obtains (live) h where "\<not> ok" "m' = m" "get (tmHeap m) a = Some h" "eng_live (hEngine h)"
    | (sealed) "ok" "m' = set_engine a (snd \<circ> seal) m" "sealed_at m' a"
        "\<And>h. get (tmHeap m) a = Some h \<Longrightarrow> \<not> eng_live (hEngine h)"
proof (cases "get (tmHeap m) a")
  case None
  with assms have "ok" "m' = m" by (simp_all add: seal_at_def)
  with None show ?thesis by (intro sealed) (simp_all add: set_engine_def sealed_at_def)
next
  case (Some h)
  show ?thesis
  proof (cases "eng_live (hEngine h)")
    case True
    with Some assms show ?thesis by (intro live [of h]) (simp_all add: seal_at_def seal_def)
  next
    case False
    with Some assms have m': "ok" "m' = set_engine a (snd \<circ> seal) m"
      by (auto simp: seal_at_def seal_def)
    moreover have "sealed_at m' a"
      using Some False by (auto simp: m'(2) set_engine_heap sealed_at_def seal_def)
    ultimately show ?thesis using Some False by (intro sealed) simp_all
  qed
qed

lemma seal_at_frame:
  assumes "seal_at a m = (ok, m')"
  shows "tmRegistry m' = tmRegistry m" "tmGroups m' = tmGroups m" "tmResources m' = tmResources m"
    "tmStore m' = tmStore m" "tmRepo m' = tmRepo m" "tmNext m' = tmNext m" "tmWorkflows m' = tmWorkflows m"
  using assms by (auto elim!: seal_at_cases)

lemma seal_at_ok: "seal_at a m = (ok, m') \<Longrightarrow> tm_ok m \<Longrightarrow> tm_ok m'"
  by (auto elim!: seal_at_cases intro: tm_ok_set_engine)

text \<open>A sealed engine stays sealed while other handles are sealed.\<close>

lemma seal_at_keeps:
  assumes "seal_at a m = (ok, m')" "sealed_at m b"
  shows "sealed_at m' b"
  using assms(1)
proof (cases rule: seal_at_cases)
  case sealed
  with assms(2) show ?thesis by (cases "b = a") (auto simp: sealed_at_def set_engine_heap)
qed (use assms(2) in simp)

section \<open>The contract of a resource manager\<close>

text \<open>\<^theory_text>\<open>lockOf r t\<close> is the resource that task t has durably locked, and \<^theory_text>\<open>fitting a r x\<close> whether
  resource x is one that placement a would lease.\<close>

locale resource_manager =
  fixes ops :: "'r rmops"
    and lockOf :: "'r \<Rightarrow> string \<Rightarrow> string option"
    and fitting :: "assignment \<Rightarrow> 'r \<Rightarrow> string \<Rightarrow> bool"
    and sound :: "'r \<Rightarrow> bool"
  assumes unlock_sound: "sound r \<Longrightarrow> rmUnlock ops now t r = (e, r') \<Longrightarrow> sound r'"
    and unlock_frees: "sound r \<Longrightarrow> rmUnlock ops now t r = (None, r') \<Longrightarrow> lockOf r' t = None"
    and unlock_others: "sound r \<Longrightarrow> rmUnlock ops now t r = (e, r') \<Longrightarrow> t' \<noteq> t \<Longrightarrow> lockOf r' t' = lockOf r t'"
    and stale_sound: "sound r \<Longrightarrow> rmReleaseStaleLock ops now a r = (e, r') \<Longrightarrow> sound r'"
    and stale_fits: "sound r \<Longrightarrow> rmReleaseStaleLock ops now a r = (None, r') \<Longrightarrow>
      lockOf r' (asgTask a) = Some x \<Longrightarrow> fitting a r' x"
    and stale_others: "sound r \<Longrightarrow> rmReleaseStaleLock ops now a r = (e, r') \<Longrightarrow> t' \<noteq> asgTask a \<Longrightarrow>
      lockOf r' t' = lockOf r t'"
begin

definition all_sound :: "(kind \<times> 'r) list \<Rightarrow> bool" where
  "all_sound rs \<longleftrightarrow> (\<forall>(k, r) \<in> set rs. sound r)"

definition free_of :: "string \<Rightarrow> (kind \<times> 'r) list \<Rightarrow> bool" where
  "free_of t rs \<longleftrightarrow> (\<forall>(k, r) \<in> set rs. lockOf r t = None)"

definition same_locks :: "string \<Rightarrow> (kind \<times> 'r) list \<Rightarrow> (kind \<times> 'r) list \<Rightarrow> bool" where
  "same_locks t rs rs' \<longleftrightarrow> list_all2 (\<lambda>(k, r) (k', r'). k' = k \<and> lockOf r' t = lockOf r t) rs rs'"

lemma same_locks_refl: "same_locks t rs rs"
  by (auto simp: same_locks_def intro!: list.rel_refl)

lemma same_locks_free: "same_locks t rs rs' \<Longrightarrow> free_of t rs \<Longrightarrow> free_of t rs'"
  unfolding same_locks_def free_of_def
  by (induction rs rs' rule: list_all2_induct) auto

text \<open>What unlocking a task everywhere does: every manager that did not fail no longer has a lock of
  the task, and no other task's lock has moved.\<close>

lemma unlockAll_facts:
  assumes "all_sound rs" "unlockAll ops now t rs = (errs, rs')"
  shows "all_sound rs'" "t' \<noteq> t \<Longrightarrow> same_locks t' rs rs'"
    "\<forall>(k, r) \<in> set rs'. lockOf r t = None \<or> k \<in> fst ` set errs"
proof -
  have "all_sound rs' \<and> (t' \<noteq> t \<longrightarrow> same_locks t' rs rs')
      \<and> (\<forall>(k, r) \<in> set rs'. lockOf r t = None \<or> k \<in> fst ` set errs)"
    using assms
  proof (induction rs arbitrary: errs rs')
    case Nil
    then show ?case by (simp add: all_sound_def same_locks_def)
  next
    case (Cons kr rs)
    obtain k r where kr: "kr = (k, r)" by (cases kr)
    obtain err r1 where u: "rmUnlock ops now t r = (err, r1)" by (cases "rmUnlock ops now t r")
    obtain errs1 rs1 where rest: "unlockAll ops now t rs = (errs1, rs1)" by (cases "unlockAll ops now t rs")
    from Cons.prems kr u rest have eq: "rs' = (k, r1) # rs1"
      "errs = (case err of Some e \<Rightarrow> [(k, e)] | None \<Rightarrow> []) @ errs1" by auto
    from Cons.prems(1) kr have s: "sound r" "all_sound rs" by (auto simp: all_sound_def)
    from Cons.IH [OF s(2) rest] unlock_sound [OF s(1) u] unlock_others [OF s(1) u, of t']
      unlock_frees [OF s(1)] u
    show ?case unfolding eq kr
      by (cases err) (auto simp: all_sound_def same_locks_def)
  qed
  then show "all_sound rs'" "t' \<noteq> t \<Longrightarrow> same_locks t' rs rs'"
    "\<forall>(k, r) \<in> set rs'. lockOf r t = None \<or> k \<in> fst ` set errs" by auto
qed

lemma releaseTask_facts:
  assumes "all_sound (tmResources m)" "releaseTask ops now t m = (e, m')"
  shows "all_sound (tmResources m')" "e = None \<Longrightarrow> free_of t (tmResources m')"
    "t' \<noteq> t \<Longrightarrow> same_locks t' (tmResources m) (tmResources m')"
    "e = Some er \<Longrightarrow> \<exists>errs. er = TERelease t errs \<and>
       (\<forall>(k, r) \<in> set (tmResources m'). lockOf r t = None \<or> k \<in> fst ` set errs)"
proof -
  obtain errs rs where u: "unlockAll ops now t (tmResources m) = (errs, rs)" and m': "m' = m\<lparr>tmResources := rs\<rparr>"
    and e: "e = (if errs = [] then None else Some (TERelease t errs))"
    using assms(2) by (rule releaseTask_cases)
  note f = unlockAll_facts [OF assms(1) u]
  show "all_sound (tmResources m')" using f(1) m' by simp
  show "free_of t (tmResources m')" if "e = None"
    using f(3) m' e that by (auto simp: free_of_def split: if_splits)
  show "same_locks t' (tmResources m) (tmResources m')" if "t' \<noteq> t"
    using f(2) [OF that] m' by simp
  show "\<exists>errs. er = TERelease t errs \<and>
      (\<forall>(k, r) \<in> set (tmResources m'). lockOf r t = None \<or> k \<in> fst ` set errs)" if "e = Some er"
    using f(3) m' e that by (auto split: if_splits)
qed

lemma releaseStale_facts:
  assumes "all_sound rs" "distinct (map fst rs)" "releaseStale ops now k a rs = (e, rs')"
  shows "all_sound rs'"
    "e = None \<Longrightarrow> (k, r) \<in> set rs' \<Longrightarrow> lockOf r (asgTask a) = Some x \<Longrightarrow> fitting a r x"
    "t \<noteq> asgTask a \<Longrightarrow> same_locks t rs rs'"
proof -
  have "all_sound rs' \<and> (e = None \<longrightarrow> (k, r) \<in> set rs' \<longrightarrow> lockOf r (asgTask a) = Some x \<longrightarrow> fitting a r x)
      \<and> (t \<noteq> asgTask a \<longrightarrow> same_locks t rs rs')"
    using assms
  proof (induction rs arbitrary: e rs')
    case Nil
    then show ?case by (simp add: all_sound_def same_locks_def)
  next
    case (Cons kr rs)
    obtain k1 r1 where kr: "kr = (k1, r1)" by (cases kr)
    from Cons.prems(1) kr have s: "sound r1" "all_sound rs" by (auto simp: all_sound_def)
    show ?case
    proof (cases "k1 = k")
      case True
      obtain err r2 where u: "rmReleaseStaleLock ops now a r1 = (err, r2)"
        by (cases "rmReleaseStaleLock ops now a r1")
      with Cons.prems(3) kr True have eq: "e = err" "rs' = (k1, r2) # rs" by auto
      have "(k, r) \<notin> set rs" using Cons.prems(2) kr True by (auto simp: rev_image_eqI)
      with s stale_sound [OF s(1) u] stale_fits [OF s(1), of now a r2] stale_others [OF s(1) u, of t] u
        same_locks_refl [of t rs]
      show ?thesis unfolding eq kr by (auto simp: all_sound_def same_locks_def)
    next
      case False
      obtain err rs1 where u: "releaseStale ops now k a rs = (err, rs1)" by (cases "releaseStale ops now k a rs")
      with Cons.prems(3) kr False have eq: "e = err" "rs' = (k1, r1) # rs1" by auto
      from Cons.IH [OF s(2) _ u] Cons.prems(2) s(1) False show ?thesis
        unfolding eq kr by (auto simp: all_sound_def same_locks_def)
    qed
  qed
  then show "all_sound rs'"
    "e = None \<Longrightarrow> (k, r) \<in> set rs' \<Longrightarrow> lockOf r (asgTask a) = Some x \<Longrightarrow> fitting a r x"
    "t \<noteq> asgTask a \<Longrightarrow> same_locks t rs rs'" by auto
qed

end

section \<open>Deleting one task, case by case\<close>

lemma DeleteTask_cases:
  assumes "DeleteTask ops now i m = (e, m')"
  obtains (running) a h where "get (tmRegistry m) i = Some a" "get (tmHeap m) a = Some h"
      "eng_live (hEngine h)" "e = Some TERunning" "m' = m"
    | (unreleased) m1 m2 er where
        "(case get (tmRegistry m) i of None \<Rightarrow> (True, m) | Some a \<Rightarrow> seal_at a m) = (True, m1)"
        "releaseTask ops now i m1 = (Some er, m2)" "e = Some er"
        "m' = (case get (tmRegistry m) i of None \<Rightarrow> m2 | Some a \<Rightarrow> unseal_at a m2)"
    | (deleted) m1 m2 st err where
        "(case get (tmRegistry m) i of None \<Rightarrow> (True, m) | Some a \<Rightarrow> seal_at a m) = (True, m1)"
        "releaseTask ops now i m1 = (None, m2)"
        "m' = m2\<lparr>tmRegistry := del i (tmRegistry m2), tmStore := st\<rparr>"
        "e = map_option (TERepo ''delete task'') err"
        "case tmRepo m2 of None \<Rightarrow> err = None \<and> st = tmStore m2
           | Some rp \<Rightarrow> trDeleteTask rp i (tmStore m2) = (err, st)"
proof -
  obtain ok m1 where k: "(case get (tmRegistry m) i of None \<Rightarrow> (True, m) | Some a \<Rightarrow> seal_at a m) = (ok, m1)"
    by fastforce
  show ?thesis
  proof (cases ok)
    case False
    with k obtain a where a: "get (tmRegistry m) i = Some a" "seal_at a m = (False, m1)"
      by (auto split: option.splits)
    from a(2) obtain h where "get (tmHeap m) a = Some h" "eng_live (hEngine h)"
      by (cases rule: seal_at_cases) auto
    with a k False assms show ?thesis by (intro running [of a h]) (auto simp: DeleteTask_def)
  next
    case True
    obtain er m2 where r: "releaseTask ops now i m1 = (er, m2)" by fastforce
    show ?thesis
    proof (cases er)
      case (Some x)
      with True k r assms show ?thesis by (intro unreleased [of m1 x m2]) (auto simp: DeleteTask_def)
    next
      case None
      show ?thesis
      proof (cases "tmRepo m2")
        case repo: None
        with None True k r assms show ?thesis
          by (intro deleted [of m1 m2 "tmStore m2" None]) (auto simp: DeleteTask_def Let_def)
      next
        case (Some rp)
        obtain err st where d: "trDeleteTask rp i (tmStore m2) = (err, st)" by fastforce
        with Some None True k r assms show ?thesis
          by (intro deleted [of m1 m2 st err]) (auto simp: DeleteTask_def Let_def)
      qed
    qed
  qed
qed

text \<open>The first step of a deletion: it seals the handle the registry has, and nothing else.\<close>

lemma sealing_step:
  assumes "(case get (tmRegistry m) i of None \<Rightarrow> (True, m) | Some a \<Rightarrow> seal_at a m) = (True, m1)"
  shows "tmRegistry m1 = tmRegistry m" "tmGroups m1 = tmGroups m" "tmResources m1 = tmResources m"
    "tmRepo m1 = tmRepo m" "tmStore m1 = tmStore m" "tm_ok m \<Longrightarrow> tm_ok m1"
    "get (tmRegistry m) i = Some a \<Longrightarrow> sealed_at m1 a"
    "get (tmRegistry m) i = Some a \<Longrightarrow> get (tmHeap m) a = Some h \<Longrightarrow> \<not> eng_live (hEngine h)"
  using assms
  by (auto simp: seal_at_frame elim: seal_at_ok split: option.splits)
    (auto elim!: seal_at_cases)

lemma DeleteTask_ok: "DeleteTask ops now i m = (e, m') \<Longrightarrow> tm_ok m \<Longrightarrow> tm_ok m'"
proof (erule DeleteTask_cases)
  assume ok: "tm_ok m"
  { fix m1 m2 er
    assume k: "(case get (tmRegistry m) i of None \<Rightarrow> (True, m) | Some a \<Rightarrow> seal_at a m) = (True, m1)"
      and r: "releaseTask ops now i m1 = (er, m2)"
    from releaseTask_ok [OF r] sealing_step(6) [OF k ok] have "tm_ok m2" by simp
  } note m2 = this
  { assume "m' = m" with ok show "tm_ok m'" by simp }
  { fix m1 m2 er
    assume "(case get (tmRegistry m) i of None \<Rightarrow> (True, m) | Some a \<Rightarrow> seal_at a m) = (True, m1)"
      "releaseTask ops now i m1 = (Some er, m2)"
      "m' = (case get (tmRegistry m) i of None \<Rightarrow> m2 | Some a \<Rightarrow> unseal_at a m2)"
    with m2 show "tm_ok m'" by (auto simp: unseal_at_def tm_ok_set_engine split: option.splits) }
  { fix m1 m2 st
    assume "(case get (tmRegistry m) i of None \<Rightarrow> (True, m) | Some a \<Rightarrow> seal_at a m) = (True, m1)"
      "releaseTask ops now i m1 = (None, m2)"
      "m' = m2\<lparr>tmRegistry := del i (tmRegistry m2), tmStore := st\<rparr>"
    with tm_ok_del [OF m2] show "tm_ok m'" by simp }
qed

section \<open>Deleting a group, case by case\<close>

lemma sealMembers_facts:
  assumes "sealMembers ids sealed m = (res, sealed', m')"
  shows "tmRegistry m' = tmRegistry m \<and> tmGroups m' = tmGroups m \<and> tmResources m' = tmResources m
      \<and> tmStore m' = tmStore m \<and> tmRepo m' = tmRepo m" "tm_ok m \<Longrightarrow> tm_ok m'"
    "sealed_at m a \<Longrightarrow> sealed_at m' a"
    "res = None \<Longrightarrow> i \<in> set ids \<Longrightarrow> get (tmRegistry m) i = Some a \<Longrightarrow> sealed_at m' a"
    "set sealed \<subseteq> set sealed'"
    "a \<notin> set sealed' \<Longrightarrow> get (tmHeap m') a = get (tmHeap m) a"
    "map_option (\<lambda>h. h\<lparr>hEngine := unseal (hEngine h)\<rparr>) (get (tmHeap m') a)
       = map_option (\<lambda>h. h\<lparr>hEngine := unseal (hEngine h)\<rparr>) (get (tmHeap m) a)"
    "res = None \<Longrightarrow> i \<in> set ids \<Longrightarrow> get (tmRegistry m) i = Some a \<Longrightarrow> a \<in> set sealed'"
proof -
  have "(tmRegistry m' = tmRegistry m \<and> tmGroups m' = tmGroups m \<and> tmResources m' = tmResources m
      \<and> tmStore m' = tmStore m \<and> tmRepo m' = tmRepo m) \<and> (tm_ok m \<longrightarrow> tm_ok m')
    \<and> (sealed_at m a \<longrightarrow> sealed_at m' a)
    \<and> (res = None \<longrightarrow> i \<in> set ids \<longrightarrow> get (tmRegistry m) i = Some a \<longrightarrow> sealed_at m' a)
    \<and> set sealed \<subseteq> set sealed' \<and> (a \<notin> set sealed' \<longrightarrow> get (tmHeap m') a = get (tmHeap m) a)
    \<and> map_option (\<lambda>h. h\<lparr>hEngine := unseal (hEngine h)\<rparr>) (get (tmHeap m') a)
       = map_option (\<lambda>h. h\<lparr>hEngine := unseal (hEngine h)\<rparr>) (get (tmHeap m) a)
    \<and> (res = None \<longrightarrow> i \<in> set ids \<longrightarrow> get (tmRegistry m) i = Some a \<longrightarrow> a \<in> set sealed')"
    using assms
  proof (induction ids arbitrary: sealed m)
    case Nil
    then show ?case by simp
  next
    case (Cons j ids)
    show ?case
    proof (cases "get (tmRegistry m) j")
      case None
      with Cons.prems have "sealMembers ids sealed m = (res, sealed', m')" by simp
      from Cons.IH [OF this] None show ?thesis by auto
    next
      case (Some b)
      obtain ok m1 where s: "seal_at b m = (ok, m1)" by fastforce
      show ?thesis
      proof (cases ok)
        case False
        with s have "m1 = m" by (auto elim: seal_at_cases)
        with Cons.prems Some s False show ?thesis by auto
      next
        case True
        with Cons.prems Some s have "sealMembers ids (sealed @ [b]) m1 = (res, sealed', m')" by simp
        note ih = Cons.IH [OF this]
        note f = seal_at_frame [OF s]
        have m1: "m1 = set_engine b (snd \<circ> seal) m" "sealed_at m1 b" "\<And>h. get (tmHeap m) b = Some h \<Longrightarrow> \<not> eng_live (hEngine h)"
          using s True by (auto elim: seal_at_cases)
        have h: "map_option (\<lambda>h. h\<lparr>hEngine := unseal (hEngine h)\<rparr>) (get (tmHeap m1) a)
            = map_option (\<lambda>h. h\<lparr>hEngine := unseal (hEngine h)\<rparr>) (get (tmHeap m) a)"
          using m1(3) by (cases "get (tmHeap m) b") (auto simp: m1(1) set_engine_heap seal_def unseal_def)
        have "a \<noteq> b \<Longrightarrow> get (tmHeap m1) a = get (tmHeap m) a" by (simp add: m1(1) set_engine_heap)
        moreover have "sealed_at m1 b \<Longrightarrow> a = b \<Longrightarrow> sealed_at m' a" using ih by simp
        ultimately show ?thesis
          using ih f h seal_at_keeps [OF s, of a] seal_at_ok [OF s] m1(2) Some by auto
      qed
    qed
  qed
  then show "tmRegistry m' = tmRegistry m \<and> tmGroups m' = tmGroups m \<and> tmResources m' = tmResources m
      \<and> tmStore m' = tmStore m \<and> tmRepo m' = tmRepo m" "tm_ok m \<Longrightarrow> tm_ok m'"
    "sealed_at m a \<Longrightarrow> sealed_at m' a"
    "res = None \<Longrightarrow> i \<in> set ids \<Longrightarrow> get (tmRegistry m) i = Some a \<Longrightarrow> sealed_at m' a"
    "set sealed \<subseteq> set sealed'"
    "a \<notin> set sealed' \<Longrightarrow> get (tmHeap m') a = get (tmHeap m) a"
    "map_option (\<lambda>h. h\<lparr>hEngine := unseal (hEngine h)\<rparr>) (get (tmHeap m') a)
       = map_option (\<lambda>h. h\<lparr>hEngine := unseal (hEngine h)\<rparr>) (get (tmHeap m) a)"
    "res = None \<Longrightarrow> i \<in> set ids \<Longrightarrow> get (tmRegistry m) i = Some a \<Longrightarrow> a \<in> set sealed'"
    by blast+
qed

text \<open>The member that stops the sealing is live.\<close>

lemma sealMembers_busy:
  assumes "sealMembers ids sealed m = (Some i, sealed', m')"
  shows "tasks_IsRunning i m"
  using assms
proof (induction ids arbitrary: sealed m)
  case (Cons j ids)
  show ?case
  proof (cases "get (tmRegistry m) j")
    case None
    with Cons show ?thesis by simp
  next
    case (Some b)
    obtain ok m1 where s: "seal_at b m = (ok, m1)" by fastforce
    from s show ?thesis
    proof (cases rule: seal_at_cases)
      case (live h)
      with Cons.prems Some s show ?thesis by (simp add: tasks_IsRunning_def handle_at_def IsRunning_def)
    next
      case sealed
      with Cons.prems Some s have "sealMembers ids (sealed @ [b]) m1 = (Some i, sealed', m')" by simp
      from Cons.IH [OF this] show ?thesis using sealed(4)
        by (cases "get (tmRegistry m) i")
          (auto simp: tasks_IsRunning_def handle_at_def IsRunning_def sealed(2) set_engine_heap seal_def
            split: option.splits if_splits)
    qed
  qed
qed simp

lemma unsealAll_frame [simp, frame_simps]:
  "tmRegistry (unsealAll as m) = tmRegistry m" "tmGroups (unsealAll as m) = tmGroups m"
  "tmResources (unsealAll as m) = tmResources m" "tmStore (unsealAll as m) = tmStore m"
  "tmRepo (unsealAll as m) = tmRepo m"
  unfolding unsealAll_def by (induction as arbitrary: m) (simp_all add: unseal_at_def)

lemma unsealAll_ok: "tm_ok m \<Longrightarrow> tm_ok (unsealAll as m)"
  unfolding unsealAll_def by (induction as arbitrary: m) (simp_all add: unseal_at_def tm_ok_set_engine)

lemma unsealAll_heap:
  "get (tmHeap (unsealAll as m)) a =
     (if a \<in> set as then map_option (\<lambda>h. h\<lparr>hEngine := unseal (hEngine h)\<rparr>) (get (tmHeap m) a)
      else get (tmHeap m) a)"
  unfolding unsealAll_def
proof (induction as arbitrary: m)
  case (Cons b as)
  then show ?case
    by (cases "get (tmHeap m) b") (auto simp: unseal_at_def set_engine_heap unseal_def)
qed simp

lemma deleteMembers_error:
  "deleteMembers rp ids m = (Some er, m') \<Longrightarrow> \<exists>e. er = TERepo ''delete task of group'' e"
  by (induction ids arbitrary: m) (auto simp: Let_def split: prod.splits option.splits)

text \<open>Releasing the members writes the resources only, and deleting them the registry and the store.\<close>

lemma releaseMembers_frame:
  assumes "releaseMembers ops now ids m = (e, m')"
  obtains rs where "m' = m\<lparr>tmResources := rs\<rparr>" "map fst rs = map fst (tmResources m)"
proof -
  have "\<exists>rs. m' = m\<lparr>tmResources := rs\<rparr> \<and> map fst rs = map fst (tmResources m)"
    using assms
  proof (induction ids arbitrary: m)
    case Nil
    then have "m' = m\<lparr>tmResources := tmResources m\<rparr>" by simp
    then show ?case by blast
  next
    case (Cons i ids)
    obtain er m1 where r: "releaseTask ops now i m = (er, m1)" by fastforce
    then obtain rs1 where m1: "m1 = m\<lparr>tmResources := rs1\<rparr>" "map fst rs1 = map fst (tmResources m)"
      by (auto elim!: releaseTask_cases dest: unlockAll_kinds)
    show ?case
    proof (cases er)
      case None
      with Cons.prems r have "releaseMembers ops now ids m1 = (e, m')" by simp
      from Cons.IH [OF this] m1 show ?thesis by auto
    next
      case (Some x)
      with Cons.prems r m1 show ?thesis by auto
    qed
  qed
  then show ?thesis using that by blast
qed

lemma deleteMembers_frame:
  assumes "deleteMembers rp ids m = (e, m')"
  obtains rg st where "m' = m\<lparr>tmRegistry := rg, tmStore := st\<rparr>" "wf_map (tmRegistry m) \<Longrightarrow> wf_map rg"
    "\<And>j. get rg j = get (tmRegistry m) j \<or> get rg j = None \<and> j \<in> set ids"
    "e = None \<Longrightarrow> (\<And>j. j \<in> set ids \<Longrightarrow> get rg j = None)"
proof -
  have "\<exists>rg st. m' = m\<lparr>tmRegistry := rg, tmStore := st\<rparr> \<and> (wf_map (tmRegistry m) \<longrightarrow> wf_map rg)
    \<and> (\<forall>j. get rg j = get (tmRegistry m) j \<or> get rg j = None \<and> j \<in> set ids)
    \<and> (e = None \<longrightarrow> (\<forall>j \<in> set ids. get rg j = None))"
    using assms
  proof (induction ids arbitrary: m)
    case Nil
    then have "m' = m\<lparr>tmRegistry := tmRegistry m, tmStore := tmStore m\<rparr>" by simp
    with Nil show ?case by (intro exI [of _ "tmRegistry m"] exI [of _ "tmStore m"]) simp
  next
    case (Cons i ids)
    define m1 where "m1 = m\<lparr>tmRegistry := del i (tmRegistry m)\<rparr>"
    obtain er st1 where d: "trDeleteTask rp i (tmStore m1) = (er, st1)" by fastforce
    show ?case
    proof (cases er)
      case None
      with Cons.prems d have "deleteMembers rp ids (m1\<lparr>tmStore := st1\<rparr>) = (e, m')"
        by (simp add: m1_def Let_def)
      from Cons.IH [OF this] obtain rg st where ih: "m' = m1\<lparr>tmRegistry := rg, tmStore := st\<rparr>"
        "wf_map (tmRegistry m1) \<longrightarrow> wf_map rg"
        "\<forall>j. get rg j = get (tmRegistry m1) j \<or> get rg j = None \<and> j \<in> set ids"
        "e = None \<longrightarrow> (\<forall>j \<in> set ids. get rg j = None)"
        by auto
      from ih(1) have "m' = m\<lparr>tmRegistry := rg, tmStore := st\<rparr>" by (simp add: m1_def)
      moreover have "wf_map (tmRegistry m) \<longrightarrow> wf_map rg" using ih(2) by (simp add: m1_def)
      moreover have "get rg j = get (tmRegistry m) j \<or> get rg j = None \<and> j \<in> set (i # ids)" for j
        using ih(3) [rule_format, of j] by (auto simp: m1_def split: if_splits)
      moreover have "get rg i = None"
        using ih(3) [rule_format, of i] by (auto simp: m1_def)
      ultimately show ?thesis using ih(4) by (intro exI [of _ rg] exI [of _ st]) auto
    next
      case (Some x)
      with Cons.prems d have "m' = m\<lparr>tmRegistry := del i (tmRegistry m), tmStore := st1\<rparr>" "e \<noteq> None"
        by (auto simp: m1_def Let_def)
      then show ?thesis by (intro exI [of _ "del i (tmRegistry m)"] exI [of _ st1]) auto
    qed
  qed
  then show ?thesis using that by blast
qed

lemma DeleteGroup_stages:
  assumes "tasks_DeleteGroup ops now i m = (e, m')"
  obtains (refused) "e \<noteq> None" "\<exists>st. m' = m\<lparr>tmStore := st\<rparr>" "\<And>j. e \<noteq> Some (TEMemberRunning i j)"
        "\<And>x. e \<noteq> Some (TEDeleteGroup i x)"
    | (busy) rp ids st id1 sealed m1 where "tmRepo m = Some rp" "trTasksInGroup rp i (tmStore m) = (Inr ids, st)"
        "sealMembers ids [] (m\<lparr>tmStore := st\<rparr>) = (Some id1, sealed, m1)"
        "e = Some (TEMemberRunning i id1)" "m' = unsealAll sealed m1"
    | (unreleased) rp ids st sealed m1 er m2 where "tmRepo m = Some rp"
        "trTasksInGroup rp i (tmStore m) = (Inr ids, st)"
        "sealMembers ids [] (m\<lparr>tmStore := st\<rparr>) = (None, sealed, m1)"
        "releaseMembers ops now ids m1 = (Some er, m2)"
        "e = Some (TEDeleteGroup i er)" "m' = unsealAll sealed m2"
    | (undeleted) rp ids st sealed m1 m2 er where "tmRepo m = Some rp"
        "trTasksInGroup rp i (tmStore m) = (Inr ids, st)"
        "sealMembers ids [] (m\<lparr>tmStore := st\<rparr>) = (None, sealed, m1)"
        "releaseMembers ops now ids m1 = (None, m2)" "deleteMembers rp ids m2 = (Some er, m')" "e = Some er"
    | (stored) rp ids st sealed m1 m2 m3 er st2 where "tmRepo m = Some rp"
        "trTasksInGroup rp i (tmStore m) = (Inr ids, st)"
        "sealMembers ids [] (m\<lparr>tmStore := st\<rparr>) = (None, sealed, m1)"
        "releaseMembers ops now ids m1 = (None, m2)" "deleteMembers rp ids m2 = (None, m3)"
        "e = Some (TERepo ''delete task group'' er)" "m' = m3\<lparr>tmStore := st2\<rparr>"
    | (done1) rp ids st sealed m1 m2 m3 st2 where "tmRepo m = Some rp" "i \<noteq> TasksGlobalGroup"
        "trTasksInGroup rp i (tmStore m) = (Inr ids, st)"
        "sealMembers ids [] (m\<lparr>tmStore := st\<rparr>) = (None, sealed, m1)"
        "releaseMembers ops now ids m1 = (None, m2)" "deleteMembers rp ids m2 = (None, m3)"
        "e = None" "m' = m3\<lparr>tmStore := st2, tmGroups := del i (tmGroups m3)\<rparr>"
proof (cases "tmRepo m")
  case None
  with assms show ?thesis by (intro refused) (auto simp: tasks_DeleteGroup_def split: if_splits intro: exI [of _ "tmStore m"])
next
  case (Some rp)
  show ?thesis
  proof (cases "i = TasksGlobalGroup \<or> tasks_GetGroup i m = None")
    case True
    with Some assms have "m' = m\<lparr>tmStore := tmStore m\<rparr>" "e = Some TEGlobal \<or> e = Some (TENoGroup i)"
      by (auto simp: tasks_DeleteGroup_def split: if_splits)
    then show ?thesis by (intro refused [OF _ exI [of _ "tmStore m"]]) auto
  next
    case False
    obtain res st where t: "trTasksInGroup rp i (tmStore m) = (res, st)" by fastforce
    show ?thesis
    proof (cases res)
      case (Inl er)
      with Some False t assms show ?thesis by (intro refused) (auto simp: tasks_DeleteGroup_def)
    next
      case (Inr ids)
      obtain b sealed m1 where s: "sealMembers ids [] (m\<lparr>tmStore := st\<rparr>) = (b, sealed, m1)"
        by (cases "sealMembers ids [] (m\<lparr>tmStore := st\<rparr>)")
      show ?thesis
      proof (cases b)
        case b: (Some id1)
        with Some False t Inr s assms show ?thesis
          by (intro busy [of rp ids st id1 sealed m1]) (auto simp: tasks_DeleteGroup_def)
      next
        case b: None
        obtain er m2 where r: "releaseMembers ops now ids m1 = (er, m2)" by fastforce
        show ?thesis
        proof (cases er)
          case er: (Some x)
          with Some False t Inr s b r assms show ?thesis
            by (intro unreleased [of rp ids st sealed m1 x m2]) (auto simp: tasks_DeleteGroup_def)
        next
          case er: None
          obtain dr m3 where d: "deleteMembers rp ids m2 = (dr, m3)" by fastforce
          show ?thesis
          proof (cases dr)
            case dr: (Some x)
            with Some False t Inr s b r er d assms show ?thesis
              by (intro undeleted [of rp ids st sealed m1 m2 x]) (auto simp: tasks_DeleteGroup_def)
          next
            case dr: None
            obtain gr st2 where g: "trDeleteGroup rp i (tmStore m3) = (gr, st2)" by fastforce
            show ?thesis
            proof (cases gr)
              case gr: (Some x)
              with Some False t Inr s b r er d dr g assms show ?thesis
                by (intro stored [of rp ids st sealed m1 m2 m3 x st2]) (auto simp: tasks_DeleteGroup_def)
            next
              case gr: None
              with Some False t Inr s b r er d dr g assms show ?thesis
                by (intro done1 [of rp ids st sealed m1 m2 m3 st2]) (auto simp: tasks_DeleteGroup_def)
            qed
          qed
        qed
      qed
    qed
  qed
qed

section \<open>Every operation keeps the manager well formed\<close>

lemma tasks_DeleteGroup_ok:
  assumes run: "tasks_DeleteGroup ops now i m = (e, m')" and ok: "tm_ok m"
  shows "tm_ok m'"
proof -
  have seal: "tm_ok m1" if "sealMembers ids [] (m\<lparr>tmStore := st\<rparr>) = (b, sealed, m1)" for ids st b sealed m1
    using sealMembers_facts(2) [OF that] ok by simp
  have rel: "tm_ok m2" if "releaseMembers ops now ids m1 = (er, m2)" "tm_ok m1" for ids er m1 m2
    using that by (auto elim!: releaseMembers_frame intro: tm_ok_resources)
  have del: "tm_ok m3" if "deleteMembers rp ids m2 = (er, m3)" "tm_ok m2" for rp ids er m2 m3
  proof -
    from that(1) obtain rg st where m3: "m3 = m2\<lparr>tmRegistry := rg, tmStore := st\<rparr>"
      and wf: "wf_map (tmRegistry m2) \<Longrightarrow> wf_map rg"
      and sub: "\<And>j. get rg j = get (tmRegistry m2) j \<or> get rg j = None \<and> j \<in> set ids"
      by (rule deleteMembers_frame) blast
    have r: "get rg j = Some a \<Longrightarrow> get (tmRegistry m2) j = Some a" for j a
      using sub [of j] by auto
    have "wf_map rg" using wf tm_okD(1) [OF that(2)] .
    moreover have "\<forall>i a. get rg i = Some a \<longrightarrow> get (tmHeap m2) a \<noteq> None"
      using r tm_okD(5) [OF that(2)] by blast
    moreover have "\<forall>i j a. get rg i = Some a \<longrightarrow> get rg j = Some a \<longrightarrow> i = j"
      using r tm_okD(6) [OF that(2)] by blast
    ultimately show ?thesis using that(2) by (simp add: m3 tm_ok_def)
  qed
  from run show ?thesis
  proof (cases rule: DeleteGroup_stages)
    case refused
    with ok show ?thesis by auto
  next
    case busy
    with seal show ?thesis by (auto intro: unsealAll_ok)
  next
    case unreleased
    with seal rel show ?thesis by (auto intro!: unsealAll_ok) blast
  next
    case undeleted
    with seal rel del show ?thesis by blast
  next
    case (stored rp ids st sealed m1 m2 m3 er st2)
    with seal rel del have "tm_ok m3" by blast
    with stored show ?thesis by simp
  next
    case (done1 rp ids st sealed m1 m2 m3 st2)
    with seal rel del have "tm_ok m3" by blast
    with done1 tm_ok_del_group [of "m3\<lparr>tmStore := st2\<rparr>" i] show ?thesis by simp
  qed
qed

lemma tasks_CreateGroup_ok: "tasks_CreateGroup now g m = (e, m') \<Longrightarrow> tm_ok m \<Longrightarrow> tm_ok m'"
  by (auto simp: tasks_CreateGroup_def Let_def intro!: tm_ok_put_group [of "m\<lparr>tmStore := st\<rparr>" for st, simplified]
      split: if_splits option.splits prod.splits)

lemma tasks_UpdateGroup_ok:
  assumes run: "tasks_UpdateGroup now i fn m = (e, m')" and ok: "tm_ok m"
  shows "tm_ok m'"
proof (cases "tmRepo m = None \<or> get (tmGroups m) i = None")
  case True
  with run ok show ?thesis by (auto simp: tasks_UpdateGroup_def split: option.splits)
next
  case False
  then obtain rp kept where r: "tmRepo m = Some rp" "get (tmGroups m) i = Some kept" by auto
  obtain g1 sh where fn: "fn kept = (g1, sh)" by fastforce
  have kept: "tgID kept = i" using tm_okD(8) [OF ok r(2)] .
  define m1 where "m1 = m\<lparr>tmGroups := put i (kept\<lparr>tgResourceGroups := sh\<rparr>) (tmGroups m)\<rparr>"
  have m1: "tm_ok m1" unfolding m1_def by (rule tm_ok_put_group [OF ok]) (simp add: kept)
  have put: "tm_ok (m1\<lparr>tmStore := st, tmGroups := put i g (tmGroups m1)\<rparr>)" if "tgID g = i" for st g
    using tm_ok_put_group [of "m1\<lparr>tmStore := st\<rparr>" g i] m1 that by simp
  show ?thesis using run r fn m1 put kept
    by (auto simp: tasks_UpdateGroup_def Let_def m1_def [symmetric] split: option.splits prod.splits if_splits)
qed

lemma CreateTask_cases:
  assumes "CreateTask newID now workflowID input opts m = (res, m')"
  obtains (failed) e st where "res = Inl e" "m' = m\<lparr>tmStore := st\<rparr>"
    | (created) flow g h st where "res = Inr h" "m' = install newID h (m\<lparr>tmStore := st\<rparr>)"
        "get (tmWorkflows m) workflowID = Some flow" "wfValidateInput flow input = None"
        "validKinds (ccAssignments (newConfig opts)) = None"
        "tasks_getGroup (ccGroupID (newConfig opts)) m = Inr g"
        "createTask flow newID now workflowID input (ccGroupID (newConfig opts))
           (ccAssignments (newConfig opts)) (resolveAll (ccAssignments (newConfig opts)) g) = Inr h"
        "\<And>rp. tmRepo m = Some rp \<Longrightarrow> trCreateTask rp (hTask h) (tmStore m) = (None, st)"
proof -
  have none: thesis if "res = Inl e" "m' = m" for e
    using failed [of e "tmStore m"] that by simp
  show thesis
  proof (cases "getWorkflow workflowID m")
    case (Inl e)
    with assms show thesis by (intro none [of e]) (auto simp: CreateTask_def)
  next
    case (Inr flow)
    then have flow: "get (tmWorkflows m) workflowID = Some flow"
      by (auto simp: getWorkflow_def split: option.splits)
    show thesis
    proof (cases "validKinds (ccAssignments (newConfig opts))")
      case (Some e)
      with Inr assms show thesis by (intro none [of "TEKind ''create task'' e"]) (auto simp: CreateTask_def)
    next
      case valid: None
      show thesis
      proof (cases "tasks_getGroup (ccGroupID (newConfig opts)) m")
        case (Inl e)
        with Inr valid assms show thesis by (intro none [of e]) (auto simp: CreateTask_def)
      next
        case g: (Inr g)
        show thesis
        proof (cases "createTask flow newID now workflowID input (ccGroupID (newConfig opts))
            (ccAssignments (newConfig opts)) (resolveAll (ccAssignments (newConfig opts)) g)")
          case (Inl e)
          with Inr valid g assms show thesis by (intro none [of e]) (auto simp: CreateTask_def)
        next
          case h: (Inr h)
          then have input: "wfValidateInput flow input = None"
            by (auto simp: createTask_def split: option.splits)
          show thesis
          proof (cases "tmRepo m")
            case None
            with Inr valid g h assms flow input show thesis
              by (intro created [of h "tmStore m" flow g]) (auto simp: CreateTask_def)
          next
            case (Some rp)
            obtain er st where c: "trCreateTask rp (hTask h) (tmStore m) = (er, st)" by fastforce
            show thesis
            proof (cases er)
              case None
              with Some Inr valid g h c assms flow input show thesis
                by (intro created [of h st flow g]) (auto simp: CreateTask_def)
            next
              case er: (Some x)
              with Some Inr valid g h c assms show thesis
                by (intro failed [of "TERepo ''create task'' x" st]) (auto simp: CreateTask_def)
            qed
          qed
        qed
      qed
    qed
  qed
qed

lemma CreateTask_ok: "CreateTask newID now w input opts m = (res, m') \<Longrightarrow> tm_ok m \<Longrightarrow> tm_ok m'"
  by (erule CreateTask_cases) (simp_all add: tm_ok_install)

lemma RecoverTask_cases:
  assumes "RecoverTask i m = (res, m')"
  obtains (running) h where "tasks_IsRunning i m" "handle_at m i = Some h" "res = Inr h" "m' = m"
    | (failed) e st where "res = Inl e" "m' = m\<lparr>tmStore := st\<rparr>" "\<not> tasks_IsRunning i m"
    | (recovered) rp rcd g st where "\<not> tasks_IsRunning i m" "tmRepo m = Some rp"
        "trRecoverTask rp i (tmStore m) = (Inr rcd, st)"
        "get (tmGroups m) (groupOf rcd) = Some g"
        "res = Inr (rehydrateTask rcd (resolveAll (tAssignments rcd) g))"
        "m' = install i (rehydrateTask rcd (resolveAll (tAssignments rcd) g)) (m\<lparr>tmStore := st\<rparr>)"
proof (cases "tasks_IsRunning i m")
  case True
  then obtain h where "handle_at m i = Some h" by (auto simp: tasks_IsRunning_def split: option.splits)
  with True assms show thesis by (intro running [of h]) (auto simp: RecoverTask_def)
next
  case False
  have none: thesis if "res = Inl e" "m' = m" for e
    using failed [of e "tmStore m"] that False by simp
  show thesis
  proof (cases "tmRepo m")
    case None
    with False assms show thesis by (intro none [of TENoRepo]) (auto simp: RecoverTask_def)
  next
    case (Some rp)
    obtain rec st where r: "trRecoverTask rp i (tmStore m) = (rec, st)" by fastforce
    show thesis
    proof (cases rec)
      case (Inl e)
      with Some False r assms show thesis
        by (intro failed [of "TERepo ''recover task'' e" st]) (auto simp: RecoverTask_def)
    next
      case (Inr rcd)
      show thesis
      proof (cases "tasks_getGroup (groupOf rcd) (m\<lparr>tmStore := st\<rparr>)")
        case (Inl e)
        with Some False r Inr assms show thesis by (intro failed [of e st]) (auto simp: RecoverTask_def)
      next
        case g: (Inr g)
        with Some have grp: "get (tmGroups m) (groupOf rcd) = Some g"
          by (auto simp: tasks_getGroup_def tasks_GetGroup_def split: option.splits)
        show thesis
        proof (cases "rehydrate rcd g (m\<lparr>tmStore := st\<rparr>)")
          case (Inl e)
          with Some False r Inr g assms show thesis by (intro failed [of e st]) (auto simp: RecoverTask_def)
        next
          case h: (Inr h)
          then have "h = rehydrateTask rcd (resolveAll (tAssignments rcd) g)"
            by (auto simp: rehydrate_def split: sum.splits)
          with Some False r Inr g h grp assms show thesis
            by (intro recovered [of rp rcd st g]) (auto simp: RecoverTask_def)
        qed
      qed
    qed
  qed
qed

lemma RecoverTask_ok: "RecoverTask i m = (res, m') \<Longrightarrow> tm_ok m \<Longrightarrow> tm_ok m'"
  by (erule RecoverTask_cases) (simp_all add: tm_ok_install)

lemma recoverRecords_ok: "recoverRecords gs records acc m = (res, m') \<Longrightarrow> tm_ok m \<Longrightarrow> tm_ok m'"
proof (induction gs records acc m rule: recoverRecords.induct)
  case (2 gs rcd records acc m)
  show ?case
  proof (cases "if tasks_IsRunning (tID rcd) m then handle_at m (tID rcd) else None")
    case (Some h)
    with 2 show ?thesis by simp
  next
    case None
    show ?thesis
    proof (cases "get gs (groupOf rcd)")
      case grp: None
      with None 2 show ?thesis by simp
    next
      case grp: (Some g)
      show ?thesis
      proof (cases "rehydrate rcd g m")
        case (Inl e)
        with None grp 2 show ?thesis by simp
      next
        case (Inr h)
        with None grp have "recoverRecords gs records (acc @ [h]) (install (tID rcd) h m) = (res, m')"
          using "2.prems"(1) by simp
        from "2.IH"(1) [OF None grp Inr this tm_ok_install [OF "2.prems"(2)]] show ?thesis .
      qed
    qed
  qed
qed simp

lemma RecoverAll_list_ok: "RecoverAll_list m = (res, m') \<Longrightarrow> tm_ok m \<Longrightarrow> tm_ok m'"
  by (auto simp: RecoverAll_list_def split: option.splits prod.splits sum.splits)

lemma RecoverAll_ok:
  assumes "RecoverAll m = (res, m')" "tm_ok m"
  shows "tm_ok m'"
proof -
  obtain lst m1 where l: "RecoverAll_list m = (lst, m1)" by fastforce
  have m1: "tm_ok m1" by (rule RecoverAll_list_ok [OF l assms(2)])
  show ?thesis
  proof (cases lst)
    case (Inl e)
    with l assms m1 show ?thesis by (simp add: RecoverAll_def)
  next
    case (Inr o1)
    show ?thesis
    proof (cases o1)
      case None
      with Inr l assms m1 show ?thesis by (simp add: RecoverAll_def)
    next
      case (Some rg)
      with Inr l assms m1 show ?thesis
        by (cases rg) (auto simp: RecoverAll_def intro: recoverRecords_ok)
    qed
  qed
qed

lemma AssignResource_cases:
  assumes "AssignResource ops now i kind p m = (e, m')"
  obtains (failed) er st where "e = Some er" "m' = m\<lparr>tmStore := st\<rparr>"
    | (assigned) rp rcd g st1 st2 err rs where "kind_Validate kind = None" "tmRepo m = Some rp"
        "trRecoverTask rp i (tmStore m) = (Inr rcd, st1)" "get (tmGroups m) (groupOf rcd) = Some g"
        "trSaveAssignment rp i kind p st1 = (None, st2)"
        "releaseStale ops now kind \<lparr>asgTask = i, asgGroup = rvGroupID (resolve p g kind),
           asgRes = rvResourceID (resolve p g kind)\<rparr> (tmResources m) = (err, rs)"
        "e = map_option (TEStaleLock kind i) err" "m' = m\<lparr>tmStore := st2, tmResources := rs\<rparr>"
proof (cases "kind_Validate kind")
  case (Some x)
  with assms show thesis using failed [of _ "tmStore m"] by (auto simp: AssignResource_def)
next
  case valid: None
  show thesis
  proof (cases "tmRepo m")
    case None
    with valid assms show thesis using failed [of _ "tmStore m"] by (auto simp: AssignResource_def)
  next
    case (Some rp)
    obtain r st1 where r: "trRecoverTask rp i (tmStore m) = (r, st1)" by fastforce
    show thesis
    proof (cases r)
      case (Inl x)
      with Some valid r assms show thesis using failed [of _ st1] by (auto simp: AssignResource_def)
    next
      case (Inr rcd)
      show thesis
      proof (cases "tasks_getGroup (groupOf rcd) (m\<lparr>tmStore := st1\<rparr>)")
        case (Inl x)
        with Some valid r Inr assms show thesis
          using failed [of _ st1] by (auto simp: AssignResource_def)
      next
        case g: (Inr g)
        with Some have grp: "get (tmGroups m) (groupOf rcd) = Some g"
          by (auto simp: tasks_getGroup_def tasks_GetGroup_def split: option.splits)
        obtain er st2 where s: "trSaveAssignment rp i kind p st1 = (er, st2)" by fastforce
        show thesis
        proof (cases er)
          case er: (Some x)
          with Some valid r Inr g s assms show thesis
            using failed [of _ st2] by (auto simp: AssignResource_def)
        next
          case None
          obtain err rs where rel: "releaseStale ops now kind \<lparr>asgTask = i,
              asgGroup = rvGroupID (resolve p g kind), asgRes = rvResourceID (resolve p g kind)\<rparr>
              (tmResources m) = (err, rs)" by fastforce
          with None Some valid r Inr g s grp assms show thesis
            by (intro assigned [of rp rcd st1 g st2 err rs]) (auto simp: AssignResource_def Let_def)
        qed
      qed
    qed
  qed
qed

lemma AssignResource_ok: "AssignResource ops now i kind p m = (e, m') \<Longrightarrow> tm_ok m \<Longrightarrow> tm_ok m'"
  by (erule AssignResource_cases)
    (auto intro!: tm_ok_resources [of "m\<lparr>tmStore := st\<rparr>" for st, simplified] dest: releaseStale_kinds)

lemma withResources_distinct:
  "withResources opts rs = Inr rs' \<Longrightarrow> distinct (map fst rs) \<Longrightarrow> distinct (map fst rs')"
proof (induction opts arbitrary: rs)
  case (Cons o1 opts)
  obtain k rm where o1: "o1 = (k, rm)" by (cases o1)
  obtain rs1 where "tasks_WithResource k rm rs = Inr rs1" using Cons.prems(1) o1 by (auto split: sum.splits)
  with Cons o1 show ?case
    by (auto simp: tasks_WithResource_def split: if_splits option.splits)
qed simp

definition groups_ok :: "(string, tgroup) gomap \<Rightarrow> bool" where
  "groups_ok gs \<longleftrightarrow> wf_map gs \<and> get gs TasksGlobalGroup \<noteq> None \<and> (\<forall>i g. get gs i = Some g \<longrightarrow> tgID g = i)"

lemma groups_ok_put: "groups_ok gs \<Longrightarrow> groups_ok (put (tgID g) g gs)"
  by (auto simp: groups_ok_def)

lemma groups_ok_loaded: "groups_ok gs0 \<Longrightarrow> groups_ok (fold (\<lambda>g. put (tgID g) g) gs gs0)"
  by (induction gs arbitrary: gs0) (simp_all add: groups_ok_put)

lemma groups_ok_initial: "groups_ok [(TasksGlobalGroup, zeroTGroup TasksGlobalGroup)]"
  by (simp add: groups_ok_def zeroTGroup_def)

lemma tm_ok_initial:
  "groups_ok gs \<Longrightarrow> distinct (map fst rs) \<Longrightarrow> tm_ok \<lparr>tmWorkflows = [], tmRegistry = [], tmHeap = [],
     tmNext = 0, tmRepo = repo, tmStore = st, tmResources = rs, tmGroups = gs\<rparr>"
  by (simp add: tm_ok_def groups_ok_def)

lemma NewManager_ok:
  assumes "tasks_NewManager repo opts st = (Inr m, st')"
  shows "tm_ok m"
proof -
  obtain rs where rs: "withResources opts [] = Inr rs"
    using assms by (auto simp: tasks_NewManager_def split: sum.splits)
  have d: "distinct (map fst rs)" using withResources_distinct [OF rs] by simp
  show ?thesis
  proof (cases repo)
    case None
    with assms rs tm_ok_initial [OF groups_ok_initial d] show ?thesis
      by (auto simp: tasks_NewManager_def Let_def)
  next
    case (Some rp)
    obtain r st1 where l: "trListGroups rp st = (r, st1)" by fastforce
    show ?thesis
    proof (cases r)
      case (Inl e)
      with Some l assms rs show ?thesis by (simp add: tasks_NewManager_def Let_def)
    next
      case (Inr gs)
      with Some l assms rs tm_ok_initial [OF groups_ok_loaded [OF groups_ok_initial] d]
      show ?thesis by (auto simp: tasks_NewManager_def Let_def)
    qed
  qed
qed

text \<open>The states a manager can be in: built by NewManager, changed by its operations in any order, and
  by the runs of its handles, which move their engines in any way. RecoverAll is its two parts, with
  anything in between: the listing, and a sweep over whatever records and groups were read.\<close>

inductive tm_reachable :: "'r rmops \<Rightarrow> ('i, 'x, 's, 'r) tmgr \<Rightarrow> bool" for ops where
  new: "tasks_NewManager repo opts st = (Inr m, st') \<Longrightarrow> tm_reachable ops m"
| register: "tm_reachable ops m \<Longrightarrow> tm_reachable ops (snd (RegisterWorkflow i flow m))"
| create: "tm_reachable ops m \<Longrightarrow> tm_reachable ops (snd (CreateTask newID now w input cs m))"
| recover: "tm_reachable ops m \<Longrightarrow> tm_reachable ops (snd (RecoverTask i m))"
| recover_list: "tm_reachable ops m \<Longrightarrow> tm_reachable ops (snd (RecoverAll_list m))"
| recover_sweep: "tm_reachable ops m \<Longrightarrow> tm_reachable ops (snd (recoverRecords groups records [] m))"
| assign: "tm_reachable ops m \<Longrightarrow> tm_reachable ops (snd (AssignResource ops now i kind p m))"
| delete: "tm_reachable ops m \<Longrightarrow> tm_reachable ops (snd (DeleteTask ops now i m))"
| create_group: "tm_reachable ops m \<Longrightarrow> tm_reachable ops (snd (tasks_CreateGroup now g m))"
| update_group: "tm_reachable ops m \<Longrightarrow> tm_reachable ops (snd (tasks_UpdateGroup now i fn m))"
| delete_group: "tm_reachable ops m \<Longrightarrow> tm_reachable ops (snd (tasks_DeleteGroup ops now i m))"
| list: "tm_reachable ops m \<Longrightarrow> tm_reachable ops (snd (TasksInGroup i m))"
| run: "tm_reachable ops m \<Longrightarrow> tm_reachable ops (set_engine a f m)"

lemma RegisterWorkflow_ok: "tm_ok m \<Longrightarrow> tm_ok (snd (RegisterWorkflow i flow m))"
  by (auto simp: RegisterWorkflow_def tm_ok_def split: option.splits)

lemma TasksInGroup_ok: "tm_ok m \<Longrightarrow> tm_ok (snd (TasksInGroup i m))"
  by (auto simp: TasksInGroup_def split: option.splits prod.splits sum.splits)

theorem tm_reachable_ok: "tm_reachable ops m \<Longrightarrow> tm_ok m"
proof (induction rule: tm_reachable.induct)
  case (new repo opts st m st')
  then show ?case by (rule NewManager_ok)
qed (simp_all add: RegisterWorkflow_ok TasksInGroup_ok tm_ok_set_engine
    CreateTask_ok [OF prod.collapse [symmetric]] RecoverTask_ok [OF prod.collapse [symmetric]]
    RecoverAll_list_ok [OF prod.collapse [symmetric]] recoverRecords_ok [OF prod.collapse [symmetric]]
    AssignResource_ok [OF prod.collapse [symmetric]]
    DeleteTask_ok [OF prod.collapse [symmetric]] tasks_CreateGroup_ok [OF prod.collapse [symmetric]]
    tasks_UpdateGroup_ok [OF prod.collapse [symmetric]] tasks_DeleteGroup_ok [OF prod.collapse [symmetric]])

section \<open>What a deletion frees\<close>

context resource_manager
begin

lemma same_locks_trans: "same_locks t rs rs1 \<Longrightarrow> same_locks t rs1 rs2 \<Longrightarrow> same_locks t rs rs2"
  unfolding same_locks_def by (erule (1) list_all2_trans [rotated]) auto

lemma DeleteTask_locks:
  assumes "all_sound (tmResources m)" "DeleteTask ops now i m = (e, m')"
  shows "all_sound (tmResources m')" "t \<noteq> i \<Longrightarrow> same_locks t (tmResources m) (tmResources m')"
    "e = None \<Longrightarrow> free_of i (tmResources m') \<and> get (tmRegistry m') i = None"
    "e = None \<Longrightarrow> get (tmRegistry m) i = Some a \<Longrightarrow> sealed_at m' a"
    "e = Some (TERelease i errs) \<Longrightarrow>
       \<forall>(k, r) \<in> set (tmResources m'). lockOf r i = None \<or> k \<in> fst ` set errs"
    "e = Some (TERelease i errs) \<Longrightarrow> tmRegistry m' = tmRegistry m \<and> tmStore m' = tmStore m"
    "e = Some (TERelease i errs) \<Longrightarrow> get (tmRegistry m) i = Some a \<Longrightarrow> get (tmHeap m') a = Some h \<Longrightarrow>
       \<not> eSealed (hEngine h)"
proof -
  have "all_sound (tmResources m') \<and> (t \<noteq> i \<longrightarrow> same_locks t (tmResources m) (tmResources m'))
    \<and> (e = None \<longrightarrow> free_of i (tmResources m') \<and> get (tmRegistry m') i = None)
    \<and> (e = None \<longrightarrow> get (tmRegistry m) i = Some a \<longrightarrow> sealed_at m' a)
    \<and> (e = Some (TERelease i errs) \<longrightarrow>
       (\<forall>(k, r) \<in> set (tmResources m'). lockOf r i = None \<or> k \<in> fst ` set errs)
       \<and> tmRegistry m' = tmRegistry m \<and> tmStore m' = tmStore m
       \<and> (get (tmRegistry m) i = Some a \<longrightarrow> get (tmHeap m') a = Some h \<longrightarrow> \<not> eSealed (hEngine h)))"
    using assms(2)
  proof (cases rule: DeleteTask_cases)
    case running
    with assms(1) same_locks_refl show ?thesis by simp
  next
    case (unreleased m1 m2 er)
    note st = sealing_step [OF unreleased(1)]
    have s1: "all_sound (tmResources m1)" using assms(1) st(3) by simp
    note f = releaseTask_facts [OF s1 unreleased(2)]
    from unreleased(2) obtain rs where m2: "m2 = m1\<lparr>tmResources := rs\<rparr>" by (rule releaseTask_cases) blast
    have frame: "tmResources m' = tmResources m2" "tmRegistry m' = tmRegistry m" "tmStore m' = tmStore m"
      using unreleased(4) st m2 by (simp_all add: unseal_at_def split: option.splits)
    have un: "\<not> eSealed (hEngine h)" if "get (tmRegistry m) i = Some a" "get (tmHeap m') a = Some h"
      using that unreleased(4) by (auto simp: unseal_at_def set_engine_heap unseal_def)
    from f(4) [of er] have locks: "\<forall>(k, r) \<in> set (tmResources m2). lockOf r i = None \<or> k \<in> fst ` set errs"
      if "e = Some (TERelease i errs)"
      using that unreleased(3) by auto
    show ?thesis using f(1) f(3) [of t] locks un unreleased(3) frame st(3) by simp
  next
    case (deleted m1 m2 st1 err)
    note st = sealing_step [OF deleted(1)]
    have s1: "all_sound (tmResources m1)" using assms(1) st(3) by simp
    note f = releaseTask_facts [OF s1 deleted(2)]
    from deleted(2) obtain rs where m2: "m2 = m1\<lparr>tmResources := rs\<rparr>" by (rule releaseTask_cases) blast
    have "sealed_at m' a" if "get (tmRegistry m) i = Some a"
      using st(7) [OF that] deleted(3) m2 by (simp add: sealed_at_def)
    then show ?thesis using f(1,2) f(3) [of t] deleted(3,4) st(3) by (cases err) simp_all
  qed
  then show "all_sound (tmResources m')" "t \<noteq> i \<Longrightarrow> same_locks t (tmResources m) (tmResources m')"
    "e = None \<Longrightarrow> free_of i (tmResources m') \<and> get (tmRegistry m') i = None"
    "e = None \<Longrightarrow> get (tmRegistry m) i = Some a \<Longrightarrow> sealed_at m' a"
    "e = Some (TERelease i errs) \<Longrightarrow>
       \<forall>(k, r) \<in> set (tmResources m'). lockOf r i = None \<or> k \<in> fst ` set errs"
    "e = Some (TERelease i errs) \<Longrightarrow> tmRegistry m' = tmRegistry m \<and> tmStore m' = tmStore m"
    "e = Some (TERelease i errs) \<Longrightarrow> get (tmRegistry m) i = Some a \<Longrightarrow> get (tmHeap m') a = Some h \<Longrightarrow>
       \<not> eSealed (hEngine h)"
    by blast+
qed

lemma releaseMembers_locks:
  assumes "all_sound (tmResources m)" "releaseMembers ops now ids m = (e, m')"
  shows "all_sound (tmResources m')" "t \<notin> set ids \<Longrightarrow> same_locks t (tmResources m) (tmResources m')"
    "e = None \<Longrightarrow> i \<in> set ids \<Longrightarrow> free_of i (tmResources m')"
proof -
  have "all_sound (tmResources m') \<and> (t \<notin> set ids \<longrightarrow> same_locks t (tmResources m) (tmResources m'))
    \<and> (free_of i (tmResources m) \<and> e = None \<longrightarrow> free_of i (tmResources m'))
    \<and> (e = None \<longrightarrow> i \<in> set ids \<longrightarrow> free_of i (tmResources m'))"
    using assms
  proof (induction ids arbitrary: m)
    case Nil
    then show ?case using same_locks_refl by simp
  next
    case (Cons j ids)
    obtain er m1 where r: "releaseTask ops now j m = (er, m1)" by fastforce
    note f = releaseTask_facts [OF Cons.prems(1) r]
    have keep: "free_of i (tmResources m) \<Longrightarrow> i \<noteq> j \<Longrightarrow> free_of i (tmResources m1)"
      using f(3) same_locks_free by blast
    show ?case
    proof (cases er)
      case (Some x)
      with Cons.prems r f(1,3) show ?thesis by auto
    next
      case None
      with Cons.prems r have "releaseMembers ops now ids m1 = (e, m')" by simp
      note ih = Cons.IH [OF f(1) this]
      have far: "t \<notin> set (j # ids) \<Longrightarrow> same_locks t (tmResources m) (tmResources m')"
        using ih f(3) [of t] same_locks_trans [of t "tmResources m" "tmResources m1" "tmResources m'"] by auto
      have near: "e = None \<Longrightarrow> free_of j (tmResources m1)" using f(2) None by simp
      from ih far near keep show ?thesis by auto
    qed
  qed
  then show "all_sound (tmResources m')" "t \<notin> set ids \<Longrightarrow> same_locks t (tmResources m) (tmResources m')"
    "e = None \<Longrightarrow> i \<in> set ids \<Longrightarrow> free_of i (tmResources m')" by blast+
qed

lemma AssignResource_locks:
  assumes "all_sound (tmResources m)" "tm_ok m" "AssignResource ops now i kind p m = (None, m')"
  obtains rp rcd st1 g where "tmRepo m = Some rp" "trRecoverTask rp i (tmStore m) = (Inr rcd, st1)"
    "get (tmGroups m) (groupOf rcd) = Some g" "trSaveAssignment rp i kind p st1 = (None, tmStore m')"
    "\<And>r x. (kind, r) \<in> set (tmResources m') \<Longrightarrow> lockOf r i = Some x \<Longrightarrow>
       fitting \<lparr>asgTask = i, asgGroup = rvGroupID (resolve p g kind), asgRes = rvResourceID (resolve p g kind)\<rparr> r x"
    "\<And>t. t \<noteq> i \<Longrightarrow> same_locks t (tmResources m) (tmResources m')"
  using assms(3)
proof (cases rule: AssignResource_cases)
  case (assigned rp rcd g st1 st2 err rs)
  have "err = None" using assigned(7) by simp
  note f = releaseStale_facts [OF assms(1) tm_okD(9) [OF assms(2)] assigned(6)]
  show ?thesis
    by (rule that [OF assigned(2,3,4)]) (use assigned f \<open>err = None\<close> in auto)
qed simp

end

end
