(* ===== verification/Tasks_Locks.thy ===== *)
theory Tasks_Locks
  imports Tasks_Deletion Leasing_Demo
begin

text \<open>
  The leasing manager as a resource manager of the task manager, and what deleting, repointing and
  recovering tasks guarantee when every registered kind is a leasing manager.
\<close>

section \<open>The leasing manager keeps the contract\<close>

definition leasing_ops :: "('t, 'x) manager rmops" where
  "leasing_ops = \<lparr>rmUnlock = Unlock, rmReleaseStaleLock = ReleaseStaleLock\<rparr>"

definition leasing_fits :: "assignment \<Rightarrow> ('t, 'x) manager \<Rightarrow> string \<Rightarrow> bool" where
  "leasing_fits a r rid \<longleftrightarrow> (case get (mPool r) rid of None \<Rightarrow> False | Some p \<Rightarrow> fits a p)"

lemma broadcast_bindings [simp]: "mBindings (broadcast m) = mBindings m"
  by (simp add: broadcast_def)

lemma unlock_bindings:
  assumes "unlock now t rid m = (e, m')"
  shows "e = None \<Longrightarrow> get (mBindings m') t = None" "t' \<noteq> t \<Longrightarrow> get (mBindings m') t' = get (mBindings m) t'"
proof -
  have "(e = None \<longrightarrow> get (mBindings m') t = None) \<and> (t' \<noteq> t \<longrightarrow> get (mBindings m') t' = get (mBindings m) t')"
  proof (cases "get (mPool m) rid")
    case None
    with assms show ?thesis by (auto simp: unlock_def)
  next
    case (Some p)
    from assms Some show ?thesis by (cases rule: unlock_cases) simp_all
  qed
  then show "e = None \<Longrightarrow> get (mBindings m') t = None"
    "t' \<noteq> t \<Longrightarrow> get (mBindings m') t' = get (mBindings m) t'" by simp_all
qed

lemma ReleaseStaleLock_bindings:
  assumes "ReleaseStaleLock now a m = (e, m')"
  shows "e = None \<Longrightarrow> get (mBindings m') (asgTask a) = Some rid \<Longrightarrow> leasing_fits a m' rid"
    "t \<noteq> asgTask a \<Longrightarrow> get (mBindings m') t = get (mBindings m) t"
proof -
  have "(e = None \<longrightarrow> get (mBindings m') (asgTask a) = Some rid \<longrightarrow> leasing_fits a m' rid)
    \<and> (t \<noteq> asgTask a \<longrightarrow> get (mBindings m') t = get (mBindings m) t)"
  proof (cases "get (mBindings m) (asgTask a)")
    case None
    with assms show ?thesis by (auto simp: ReleaseStaleLock_def)
  next
    case (Some r0)
    show ?thesis
    proof (cases "\<exists>p. get (mPool m) r0 = Some p \<and> fits a p")
      case True
      with Some assms show ?thesis by (auto simp: ReleaseStaleLock_def leasing_fits_def)
    next
      case False
      with Some assms have "unlock now (asgTask a) r0 m = (e, m')"
        by (auto simp: ReleaseStaleLock_def split: option.splits)
      from unlock_bindings(1) [OF this] unlock_bindings(2) [OF this, of t] show ?thesis by auto
    qed
  qed
  then show "e = None \<Longrightarrow> get (mBindings m') (asgTask a) = Some rid \<Longrightarrow> leasing_fits a m' rid"
    "t \<noteq> asgTask a \<Longrightarrow> get (mBindings m') t = get (mBindings m) t" by simp_all
qed

interpretation lm: resource_manager leasing_ops "\<lambda>r t. get (mBindings r) t" leasing_fits lease_inv
proof
  fix r :: "('a, 'b) manager" and now t t' e r' a rid
  { assume i: "lease_inv r" and u: "rmUnlock leasing_ops now t r = (e, r')"
    then have U: "Unlock now t r = (e, r')" by (simp add: leasing_ops_def)
    show "lease_inv r'" using Unlock_inv [OF U i] .
    show "get (mBindings r') t' = get (mBindings r) t'" if "t' \<noteq> t"
      using U that unlock_bindings(2) [of now t _ r e r' t']
      by (auto simp: Unlock_def split: option.splits) }
  { assume i: "lease_inv r" and u: "rmUnlock leasing_ops now t r = (None, r')"
    then have U: "Unlock now t r = (None, r')" by (simp add: leasing_ops_def)
    then show "get (mBindings r') t = None"
      using unlock_bindings(1) [of now t _ r None r'] by (auto simp: Unlock_def split: option.splits) }
  { assume i: "lease_inv r" and u: "rmReleaseStaleLock leasing_ops now a r = (e, r')"
    then have R: "ReleaseStaleLock now a r = (e, r')" by (simp add: leasing_ops_def)
    show "lease_inv r'" using ReleaseStaleLock_inv [OF R i] .
    show "get (mBindings r') t' = get (mBindings r) t'" if "t' \<noteq> asgTask a"
      using ReleaseStaleLock_bindings(2) [OF R that] . }
  { assume i: "lease_inv r" and u: "rmReleaseStaleLock leasing_ops now a r = (None, r')"
      and b: "get (mBindings r') (asgTask a) = Some rid"
    then have R: "ReleaseStaleLock now a r = (None, r')" by (simp add: leasing_ops_def)
    show "leasing_fits a r' rid" using ReleaseStaleLock_bindings(1) [OF R refl b] . }
qed

section \<open>A concrete manager\<close>

text \<open>A repository that accepts everything and knows two tasks and a group with one of them, and a
  manager over one kind, the leasing manager in which task b has locked y.\<close>

definition demo_row :: "string \<Rightarrow> task" where
  "demo_row i = \<lparr>tID = i, tWorkflowID = ''w'', tGroupID = ''g'', tAssignments = [], tState = ''A'',
     tSnapshot = ''s'', tStatus = StatusRunning, tOutput = [], tCreatedAt = 1, tUpdatedAt = 1\<rparr>"

definition demo_trepo :: "nat trepo" where
  "demo_trepo =
     \<lparr>trCreateTask = (\<lambda>_ n. (None, Suc n)), trRecoverTask = (\<lambda>i n. (Inr (demo_row i), n)),
      trSaveAssignment = (\<lambda>_ _ _ n. (None, Suc n)),
      trRecoverAll = (\<lambda>n. (Inr [demo_row ''b''], n)), trDeleteTask = (\<lambda>_ n. (None, Suc n)),
      trSaveGroup = (\<lambda>_ n. (None, Suc n)),
      trListGroups = (\<lambda>n. (Inr [(zeroTGroup ''g'')\<lparr>tgCreatedAt := 1\<rparr>], n)),
      trDeleteGroup = (\<lambda>_ n. (None, Suc n)), trTasksInGroup = (\<lambda>_ n. (Inr [''b''], n))\<rparr>"

definition demo_flow :: "(nat, string) registered" where
  "demo_flow = \<lparr>wfEngine = \<lparr>wNewInstance = (\<lambda>_. Inr []), wRestoreInstance = None,
      wGraph = (\<lambda>_. \<lparr>gInitial = [], gStates = []\<rparr>), wSnapshotter = (\<lambda>_. False), wSnapshot = Inr,
      wOutput = (\<lambda>_. None), wTeardown = (\<lambda>_ _ _. None)\<rparr>,
     wfValidateInput = (\<lambda>_. None), wfUseResources = None\<rparr>"

definition demo_handle :: "nat thandle" where
  "demo_handle = \<lparr>hTask = demo_row ''b'', hInput = AnyNil, hResolved = [], hEngine = newEngine,
     hRecovered = True\<rparr>"

definition demo_tm :: "(nat, string, nat, (unit, unit) manager) tmgr" where
  "demo_tm = \<lparr>tmWorkflows = [(''w'', demo_flow)], tmRegistry = [(''b'', 0)], tmHeap = [(0, demo_handle)],
     tmNext = 1, tmRepo = Some demo_trepo, tmStore = 0, tmResources = [(''proxy'', demo_m4)],
     tmGroups = [(TasksGlobalGroup, zeroTGroup TasksGlobalGroup), (''g'', zeroTGroup ''g'')]\<rparr>"

lemma demo_tm_ok: "tm_ok demo_tm"
  by (simp add: tm_ok_def demo_tm_def TasksGlobalGroup_def zeroTGroup_def)

lemma demo_tm_sound: "\<forall>(k, r) \<in> set (tmResources demo_tm). lease_inv r"
  by (simp add: demo_tm_def demo_m4_inv)

lemma demo_unlock: "\<exists>r'. Unlock 9 ''b'' demo_m4 = (None, r') \<and> get (mBindings demo_m4) ''b'' = Some ''y''"
  by (simp add: Unlock_def unlock_def demo_m4_def demo_m3_def demo_m2_def demo_m0_def emptyManager_def
      noopRepository_def repo_save_def Let_def)

lemma demo_delete: "\<exists>m'. DeleteTask leasing_ops 9 ''b'' demo_tm = (None, m')"
proof -
  obtain r' where "Unlock 9 ''b'' demo_m4 = (None, r')" using demo_unlock by blast
  then show ?thesis
    by (simp add: DeleteTask_def demo_tm_def seal_at_def demo_handle_def seal_def newEngine_def
        eng_live_def releaseTask_def leasing_ops_def set_engine_def demo_trepo_def Let_def)
qed

lemma demo_delete_group: "\<exists>m'. tasks_DeleteGroup leasing_ops 9 ''g'' demo_tm = (None, m')"
proof -
  obtain r' where "Unlock 9 ''b'' demo_m4 = (None, r')" using demo_unlock by blast
  then show ?thesis
    by (simp add: tasks_DeleteGroup_def tasks_GetGroup_def TasksGlobalGroup_def demo_tm_def seal_at_def
        demo_handle_def seal_def newEngine_def eng_live_def releaseTask_def leasing_ops_def
        set_engine_def demo_trepo_def Let_def)
qed

end
