(* ===== verification/Tasks_Properties.thy ===== *)
theory Tasks_Properties
  imports Tasks_Locks
begin

text \<open>
  The properties of the task manager: what deleting a task and a group guarantee, in success and in
  failure, what repointing and creating a task do, and that the manager's state stays well formed.
  The kinds are leasing managers where a theorem speaks of locks, any managers otherwise.
\<close>

section \<open>Deleting a task\<close>

text \<open>C6. A task that was deleted holds nothing: it is out of the registry, no leasing manager keeps a
  durable lock of it (no pooled resource is owned by it), every other task's locks are what they were,
  and a handle somebody still has can never start it again.\<close>

theorem deleted_task_is_freed:
  fixes m :: "('i, 'x, 's, ('t, 'y) manager) tmgr"
  assumes "\<forall>(k, r) \<in> set (tmResources m). lease_inv r" and "DeleteTask leasing_ops now i m = (None, m')"
  shows "get (tmRegistry m') i = None
    \<and> (\<forall>(k, r) \<in> set (tmResources m'). lease_inv r \<and> get (mBindings r) i = None
         \<and> (i \<noteq> [] \<longrightarrow> (\<forall>rid p. get (mPool r) rid = Some p \<longrightarrow> resOwner p \<noteq> i)))
    \<and> (\<forall>t. t \<noteq> i \<longrightarrow> list_all2 (\<lambda>(k, r) (k', r'). k' = k \<and> get (mBindings r') t = get (mBindings r) t)
         (tmResources m) (tmResources m'))
    \<and> (\<forall>a h b. get (tmRegistry m) i = Some a \<longrightarrow> get (tmHeap m') a = Some h \<longrightarrow>
         admit b (hEngine h) = Inl ErrTaskDeleted)"
proof -
  have s: "lm.all_sound (tmResources m)" using assms(1) by (simp add: lm.all_sound_def)
  note f = lm.DeleteTask_locks [OF s assms(2)]
  have owner: "resOwner p \<noteq> i"
    if "lease_inv r" "get (mBindings r) i = None" "get (mPool r) rid = Some p" "i \<noteq> []" for r :: "('t, 'y) manager" and rid p
  proof
    assume "resOwner p = i"
    with that(3,4) have "i \<noteq> [] \<and> (\<exists>p. get (mPool r) rid = Some p \<and> resOwner p = i)" by blast
    with lease_invD(5) [OF that(1)] have "get (mBindings r) i = Some rid" unfolding inv_bind_def by blast
    with that(2) show False by simp
  qed
  have "lease_inv r \<and> get (mBindings r) i = None
      \<and> (i \<noteq> [] \<longrightarrow> (\<forall>rid p. get (mPool r) rid = Some p \<longrightarrow> resOwner p \<noteq> i))"
    if "(k, r) \<in> set (tmResources m')" for k and r :: "('t, 'y) manager"
  proof -
    from f(1) f(3) [OF refl] that have "lease_inv r" "get (mBindings r) i = None"
      by (auto simp: lm.all_sound_def lm.free_of_def)
    with owner [OF this] show ?thesis by blast
  qed
  moreover have "admit b (hEngine h) = Inl ErrTaskDeleted"
    if "get (tmRegistry m) i = Some a" "get (tmHeap m') a = Some h" for a h b
    using f(4) [OF refl that(1)] that(2) by (simp add: sealed_at_def admit_def)
  ultimately show ?thesis using f(2) f(3) [OF refl] unfolding lm.same_locks_def by blast
qed

theorem deleted_task_is_freed_witness:
  "\<exists>m'. DeleteTask leasing_ops 9 ''b'' demo_tm = (None, m') \<and> get (tmRegistry m') ''b'' = None"
proof -
  obtain m' where "DeleteTask leasing_ops 9 ''b'' demo_tm = (None, m')" using demo_delete by blast
  with deleted_task_is_freed [OF demo_tm_sound this, THEN conjunct1] show ?thesis by (intro exI conjI)
qed

text \<open>C7. A deletion that fails to release a lock leaves the task: registry and store are untouched and the
  handle can start again, while every kind that is not among the reported failures has let go of
  the task, because all of them are asked.\<close>

theorem failed_release_keeps_the_task:
  fixes m :: "('i, 'x, 's, ('t, 'y) manager) tmgr"
  assumes "\<forall>(k, r) \<in> set (tmResources m). lease_inv r"
    and "DeleteTask leasing_ops now i m = (Some (TERelease i errs), m')"
  shows "tmRegistry m' = tmRegistry m \<and> tmStore m' = tmStore m
    \<and> (\<forall>a h. get (tmRegistry m) i = Some a \<longrightarrow> get (tmHeap m') a = Some h \<longrightarrow> \<not> eSealed (hEngine h))
    \<and> (\<forall>(k, r) \<in> set (tmResources m'). get (mBindings r) i = None \<or> k \<in> fst ` set errs)"
proof -
  have s: "lm.all_sound (tmResources m)" using assms(1) by (simp add: lm.all_sound_def)
  note f = lm.DeleteTask_locks [OF s assms(2)]
  show ?thesis using f(5-7) by simp
qed

text \<open>The same manager over a store that refuses every write of a resource.\<close>

definition refusing_m :: "(unit, unit) manager" where
  "refusing_m = demo_m4\<lparr>mRepo := (mRepo demo_m4)\<lparr>repoSave := (\<lambda>_ s. (Some ''full'', s))\<rparr>\<rparr>"

definition refusing_tm :: "(nat, string, nat, (unit, unit) manager) tmgr" where
  "refusing_tm = demo_tm\<lparr>tmResources := [(''proxy'', refusing_m), (''mail'', demo_m4)]\<rparr>"

lemma lease_inv_repo [simp]: "lease_inv (m\<lparr>mRepo := rp\<rparr>) = lease_inv m"
proof -
  have "holdersOf (m\<lparr>mRepo := rp\<rparr>) = holdersOf m" "heldCount (m\<lparr>mRepo := rp\<rparr>) = heldCount m"
    by (auto simp: holdersOf_def heldCount_def fun_eq_iff)
  then show ?thesis by (simp add: lease_inv_def inv_defs)
qed

lemma refusing_sound: "\<forall>(k, r) \<in> set (tmResources refusing_tm). lease_inv r"
  using demo_m4_inv by (simp add: refusing_tm_def refusing_m_def)

lemma refusing_delete:
  "\<exists>m'. DeleteTask leasing_ops 9 ''b'' refusing_tm = (Some (TERelease ''b'' [(''proxy'', EPersistUnlock ''full'')]), m')"
proof -
  obtain r' where "Unlock 9 ''b'' demo_m4 = (None, r')" using demo_unlock by blast
  moreover obtain r2 where "Unlock 9 ''b'' refusing_m = (Some (EPersistUnlock ''full''), r2)"
    by (simp add: Unlock_def unlock_def repo_save_def refusing_m_def demo_m4_def demo_live_def Let_def)
  ultimately show ?thesis
    by (simp add: DeleteTask_def refusing_tm_def demo_tm_def seal_at_def demo_handle_def seal_def newEngine_def
        eng_live_def releaseTask_def leasing_ops_def set_engine_def demo_trepo_def Let_def)
qed

theorem failed_release_keeps_the_task_witness:
  "\<exists>m'. DeleteTask leasing_ops 9 ''b'' refusing_tm = (Some (TERelease ''b'' [(''proxy'', EPersistUnlock ''full'')]), m')
     \<and> tmRegistry m' = tmRegistry refusing_tm"
proof -
  obtain m' where
    "DeleteTask leasing_ops 9 ''b'' refusing_tm = (Some (TERelease ''b'' [(''proxy'', EPersistUnlock ''full'')]), m')"
    using refusing_delete by blast
  with failed_release_keeps_the_task [OF refusing_sound this] show ?thesis by blast
qed

section \<open>Deleting a group\<close>

text \<open>C28. A group that was deleted is gone with all its members: of every task the repository listed,
  the registry and every leasing manager know nothing any more and a loaded handle can never start;
  no other task's locks or registration and no other group has changed.\<close>

theorem deleted_group_takes_its_members:
  fixes m :: "('i, 'x, 's, ('t, 'y) manager) tmgr"
  assumes "\<forall>(k, r) \<in> set (tmResources m). lease_inv r"
    and "tasks_DeleteGroup leasing_ops now gid m = (None, m')"
    and "tmRepo m = Some rp" and "trTasksInGroup rp gid (tmStore m) = (Inr ids, st)"
  shows "tmGroups m' = del gid (tmGroups m)
    \<and> (\<forall>i. get (tmRegistry m') i = (if i \<in> set ids then None else get (tmRegistry m) i))
    \<and> (\<forall>i \<in> set ids. \<forall>(k, r) \<in> set (tmResources m'). lease_inv r \<and> get (mBindings r) i = None)
    \<and> (\<forall>t. t \<notin> set ids \<longrightarrow> list_all2 (\<lambda>(k, r) (k', r'). k' = k \<and> get (mBindings r') t = get (mBindings r) t)
         (tmResources m) (tmResources m'))
    \<and> (\<forall>i \<in> set ids. \<forall>a h b. get (tmRegistry m) i = Some a \<longrightarrow> get (tmHeap m') a = Some h \<longrightarrow>
         admit b (hEngine h) = Inl ErrTaskDeleted)"
  using assms(2)
proof (cases rule: DeleteGroup_stages)
  case (done1 rp' ids' st' sealed m1 m2 m3 st2)
  have eq: "rp' = rp" "ids' = ids" "st' = st" using done1(1,3) assms(3,4) by simp_all
  note seal = sealMembers_facts [OF done1(4)]
  have s: "lm.all_sound (tmResources m1)" using assms(1) seal(1) by (simp add: lm.all_sound_def)
  note locks = lm.releaseMembers_locks [OF s done1(5)]
  obtain rs where m2: "m2 = m1\<lparr>tmResources := rs\<rparr>" using done1(5) by (rule releaseMembers_frame)
  obtain rg st3 where m3: "m3 = m2\<lparr>tmRegistry := rg, tmStore := st3\<rparr>"
    and rg: "\<And>j. get rg j = get (tmRegistry m2) j \<or> get rg j = None \<and> j \<in> set ids'"
      "\<And>j. j \<in> set ids' \<Longrightarrow> get rg j = None"
    using done1(6) by (rule deleteMembers_frame) blast
  have m1: "tmRegistry m1 = tmRegistry m" "tmGroups m1 = tmGroups m" "tmResources m1 = tmResources m"
    using seal(1) by simp_all
  have "get (tmRegistry m') i = (if i \<in> set ids then None else get (tmRegistry m) i)" for i
    using rg(1) [of i] rg(2) [of i] done1(8) m3 m2 m1 eq by auto
  moreover have "admit b (hEngine h) = Inl ErrTaskDeleted"
    if "i \<in> set ids" "get (tmRegistry m) i = Some a" "get (tmHeap m') a = Some h" for i a h b
    using seal(4) [of i a] that done1(8) m3 m2 eq by (simp add: sealed_at_def admit_def)
  moreover have "tmResources m' = tmResources m2" "tmGroups m' = del gid (tmGroups m)"
    using done1(8) m3 m2 m1 by simp_all
  moreover have "lease_inv r \<and> get (mBindings r) i = None" if "i \<in> set ids" "(k, r) \<in> set (tmResources m2)" for i k r
    using locks(1) locks(3) [OF refl, of i] that eq by (auto simp: lm.all_sound_def lm.free_of_def)
  ultimately show ?thesis
    using locks(2) m1 eq by (auto simp: lm.same_locks_def)
qed simp_all

theorem deleted_group_takes_its_members_witness:
  "\<exists>m'. tasks_DeleteGroup leasing_ops 9 ''g'' demo_tm = (None, m') \<and> get (tmRegistry m') ''b'' = None"
proof -
  obtain m' where d: "tasks_DeleteGroup leasing_ops 9 ''g'' demo_tm = (None, m')" using demo_delete_group by blast
  have "tmRepo demo_tm = Some demo_trepo" "trTasksInGroup demo_trepo ''g'' (tmStore demo_tm) = (Inr [''b''], 0)"
    by (simp_all add: demo_tm_def demo_trepo_def)
  from deleted_group_takes_its_members [OF demo_tm_sound d this] d show ?thesis by auto
qed


text \<open>The demonstration manager with its member running, and with a store that cannot be written.\<close>

definition busy_tm :: "(nat, string, nat, (unit, unit) manager) tmgr" where
  "busy_tm = demo_tm\<lparr>tmHeap := [(0, demo_handle\<lparr>hEngine := newEngine\<lparr>eState := StatusRunning\<rparr>\<rparr>)]\<rparr>"


section \<open>Placement\<close>

text \<open>C30. Repointing a task ends with a lock that fits: if the task still owns a resource of that kind
  afterwards, the resource is one the new placement, resolved against the task's group, would lease;
  the repository has recorded the placement first, and no other task's lock has moved.\<close>

theorem repointed_task_keeps_no_stale_lock:
  fixes m :: "('i, 'x, 's, ('t, 'y) manager) tmgr"
  assumes "\<forall>(k, r) \<in> set (tmResources m). lease_inv r" and "tm_ok m"
    and "AssignResource leasing_ops now i kind p m = (None, m')"
  shows "\<exists>rp rcd st1 g. tmRepo m = Some rp \<and> trRecoverTask rp i (tmStore m) = (Inr rcd, st1)
    \<and> get (tmGroups m) (groupOf rcd) = Some g
    \<and> trSaveAssignment rp i kind p st1 = (None, tmStore m')
    \<and> (\<forall>r rid. (kind, r) \<in> set (tmResources m') \<longrightarrow> get (mBindings r) i = Some rid \<longrightarrow>
         (\<exists>c. get (mPool r) rid = Some c
            \<and> fits \<lparr>asgTask = i, asgGroup = rvGroupID (resolve p g kind), asgRes = rvResourceID (resolve p g kind)\<rparr> c))
    \<and> (\<forall>t. t \<noteq> i \<longrightarrow> list_all2 (\<lambda>(k, r) (k', r'). k' = k \<and> get (mBindings r') t = get (mBindings r) t)
         (tmResources m) (tmResources m'))"
proof -
  have s: "lm.all_sound (tmResources m)" using assms(1) by (simp add: lm.all_sound_def)
  have fit: "leasing_fits a r rid \<Longrightarrow> \<exists>c. get (mPool r) rid = Some c \<and> fits a c" for a and r :: "('t, 'y) manager" and rid
    by (auto simp: leasing_fits_def split: option.splits)
  obtain rp rcd st1 g where a: "tmRepo m = Some rp" "trRecoverTask rp i (tmStore m) = (Inr rcd, st1)"
    "get (tmGroups m) (groupOf rcd) = Some g" "trSaveAssignment rp i kind p st1 = (None, tmStore m')"
    "\<And>r x. (kind, r) \<in> set (tmResources m') \<Longrightarrow> get (mBindings r) i = Some x \<Longrightarrow>
       leasing_fits \<lparr>asgTask = i, asgGroup = rvGroupID (resolve p g kind), asgRes = rvResourceID (resolve p g kind)\<rparr> r x"
    "\<And>t. t \<noteq> i \<Longrightarrow> lm.same_locks t (tmResources m) (tmResources m')"
    using lm.AssignResource_locks [OF s assms(2,3)] by metis
  show ?thesis
    by (rule exI [of _ rp], rule exI [of _ rcd], rule exI [of _ st1], rule exI [of _ g])
      (use a(1-4) fit [OF a(5)] a(6) [unfolded lm.same_locks_def] in blast)
qed

lemma demo_assign: "\<exists>m'. AssignResource leasing_ops 9 ''b'' ''proxy'' \<lparr>plGroupID = Some ''h'', plResourceID = None\<rparr> demo_tm
    = (None, m')"
proof -
  obtain r' where "Unlock 9 ''b'' demo_m4 = (None, r')" and b: "get (mBindings demo_m4) ''b'' = Some ''y''"
    using demo_unlock by blast
  then have u: "unlock 9 ''b'' ''y'' demo_m4 = (None, r')" by (simp add: Unlock_def)
  have k: "kind_Validate ''proxy'' = None" by code_simp
  show ?thesis
    by (simp add: AssignResource_def demo_tm_def demo_trepo_def tasks_getGroup_def tasks_GetGroup_def groupOf_def
        demo_row_def TasksGlobalGroup_def resolve_def zeroTGroup_def leasing_ops_def ReleaseStaleLock_def k Let_def
        demo_m4_def [THEN arg_cong, of mPool] b u fits_def split: option.splits)
qed

theorem repointed_task_keeps_no_stale_lock_witness:
  "\<exists>m'. AssignResource leasing_ops 9 ''b'' ''proxy'' \<lparr>plGroupID = Some ''h'', plResourceID = None\<rparr> demo_tm = (None, m')
     \<and> trSaveAssignment demo_trepo ''b'' ''proxy'' \<lparr>plGroupID = Some ''h'', plResourceID = None\<rparr> 0 = (None, tmStore m')"
proof -
  obtain m' where d: "AssignResource leasing_ops 9 ''b'' ''proxy'' \<lparr>plGroupID = Some ''h'', plResourceID = None\<rparr> demo_tm
      = (None, m')"
    using demo_assign by blast
  from repointed_task_keeps_no_stale_lock [OF demo_tm_sound demo_tm_ok d]
  have "trSaveAssignment demo_trepo ''b'' ''proxy'' \<lparr>plGroupID = Some ''h'', plResourceID = None\<rparr> 0 = (None, tmStore m')"
    by (auto simp: demo_tm_def demo_trepo_def)
  with d show ?thesis by blast
qed

section \<open>Creating, recovering, and the state as a whole\<close>

text \<open>Creating a task is all or nothing. A refusal changes nothing but what the repository's own
  failed call may have; a success registers exactly the handle it returns, unstarted, unsealed and
  stored first, filed in the configured group that exists, with its kinds valid and its placement
  settled against that group, and leaves every other task's handle alone.\<close>

theorem created_task_is_placed:
  "case CreateTask newID now w input opts m of
     (Inl e, m') \<Rightarrow> m' = m\<lparr>tmStore := tmStore m'\<rparr>
   | (Inr h, m') \<Rightarrow>
       handle_at m' newID = Some h \<and> hEngine h = newEngine \<and> tStatus (hTask h) = StatusNotStarted
       \<and> tID (hTask h) = newID \<and> tWorkflowID (hTask h) = w \<and> get (tmWorkflows m) w \<noteq> None
       \<and> tGroupID (hTask h) = ccGroupID (newConfig opts) \<and> tAssignments (hTask h) = ccAssignments (newConfig opts)
       \<and> validKinds (tAssignments (hTask h)) = None
       \<and> map_option (resolveAll (tAssignments (hTask h))) (tasks_GetGroup (tGroupID (hTask h)) m) = Some (hResolved h)
       \<and> (case tmRepo m of None \<Rightarrow> True | Some rp \<Rightarrow> trCreateTask rp (hTask h) (tmStore m) = (None, tmStore m'))
       \<and> tmRegistry m' = put newID (tmNext m) (tmRegistry m)"
proof -
  obtain res m' where c: "CreateTask newID now w input opts m = (res, m')" by fastforce
  then show ?thesis
  proof (cases rule: CreateTask_cases)
    case (failed e st)
    then show ?thesis using c by simp
  next
    case (created flow g h st)
    from created(7) have h: "hEngine h = newEngine" "hResolved h = resolveAll (ccAssignments (newConfig opts)) g"
      "tStatus (hTask h) = StatusNotStarted" "tID (hTask h) = newID" "tWorkflowID (hTask h) = w"
      "tGroupID (hTask h) = ccGroupID (newConfig opts)" "tAssignments (hTask h) = ccAssignments (newConfig opts)"
      by (auto simp: createTask_def split: option.splits)
    have "tasks_GetGroup (ccGroupID (newConfig opts)) m = Some g"
      using created(6) by (simp add: tasks_getGroup_def split: option.splits)
    then show ?thesis using c created(1-6) created(8) h
      by (auto simp: install_def handle_at_def split: option.splits)
  qed
qed

text \<open>Recovering a task never touches a live one. When the registered handle is running or suspended,
  that very handle is returned and nothing is read or changed; otherwise the task gets a new handle,
  unstarted and unsealed, from the stored record, with the placement of its group as it is now.\<close>

theorem recovery_spares_the_live:
  "case RecoverTask i m of
     (Inl e, m') \<Rightarrow> \<not> tasks_IsRunning i m \<and> m' = m\<lparr>tmStore := tmStore m'\<rparr>
   | (Inr h, m') \<Rightarrow>
       if tasks_IsRunning i m then handle_at m i = Some h \<and> m' = m
       else handle_at m' i = Some h \<and> hEngine h = newEngine \<and> hRecovered h
         \<and> (\<exists>rp g. tmRepo m = Some rp \<and> trRecoverTask rp i (tmStore m) = (Inr (hTask h), tmStore m')
              \<and> get (tmGroups m) (groupOf (hTask h)) = Some g \<and> hResolved h = resolveAll (tAssignments (hTask h)) g)"
proof -
  obtain res m' where c: "RecoverTask i m = (res, m')" by fastforce
  then show ?thesis
    by (cases rule: RecoverTask_cases) (use c in \<open>auto simp: install_def handle_at_def rehydrateTask_def\<close>)
qed

text \<open>C31. In every state the operations and the runs can produce, no two tasks share a handle and none is
  registered without one, the global group is there, every group is filed under its own id, and each
  kind has one manager.\<close>

theorem manager_stays_well_formed:
  assumes "tm_reachable ops m"
  shows "(\<forall>i j a. get (tmRegistry m) i = Some a \<and> get (tmRegistry m) j = Some a \<longrightarrow> i = j)
    \<and> (\<forall>i. get (tmRegistry m) i \<noteq> None \<longleftrightarrow> handle_at m i \<noteq> None)
    \<and> get (tmGroups m) TasksGlobalGroup \<noteq> None
    \<and> (\<forall>i g. get (tmGroups m) i = Some g \<longrightarrow> tgID g = i)
    \<and> distinct (map fst (tmResources m))"
proof -
  note ok = tm_reachable_ok [OF assms]
  have "get (tmRegistry m) i \<noteq> None \<longleftrightarrow> handle_at m i \<noteq> None" for i
    using tm_okD(5) [OF ok] by (cases "get (tmRegistry m) i") (simp_all add: handle_at_def)
  with tm_okD(6-9) [OF ok] show ?thesis by blast
qed

theorem manager_stays_well_formed_witness:
  "\<exists>m. tasks_NewManager (Some demo_trepo) [(''proxy'', Some demo_m4)] 0 = (Inr m, 0)
     \<and> get (tmGroups (snd (RecoverTask ''b'' (snd (RegisterWorkflow ''w'' demo_flow m))))) TasksGlobalGroup \<noteq> None"
proof -
  have k: "kind_Validate ''proxy'' = None" by code_simp
  obtain m where n: "tasks_NewManager (Some demo_trepo) [(''proxy'', Some demo_m4)] 0
      = (Inr (m :: (nat, string, nat, (unit, unit) manager) tmgr), 0)"
    by (simp add: tasks_NewManager_def tasks_WithResource_def k demo_trepo_def)
  then have "tm_reachable leasing_ops (snd (RecoverTask ''b'' (snd (RegisterWorkflow ''w'' demo_flow m))))"
    by (intro tm_reachable.intros)
  from manager_stays_well_formed [OF this] n show ?thesis by blast
qed

section \<open>What the code does that its comments do not say\<close>

text \<open>A repository that accepts everything but the deletion of a task, and a group of two loaded members.\<close>

definition stuck_tm :: "(nat, string, nat, (unit, unit) manager) tmgr" where
  "stuck_tm = demo_tm\<lparr>tmRegistry := [(''b'', 0), (''c'', 1)], tmHeap := [(0, demo_handle), (1, demo_handle)],
     tmNext := 2, tmResources := [],
     tmRepo := Some (demo_trepo\<lparr>trTasksInGroup := (\<lambda>_ n. (Inr [''b'', ''c''], n)),
       trDeleteTask := (\<lambda>_ n. (Some ''down'', n))\<rparr>)\<rparr>"

text \<open>A group deletion that fails at the first record leaves the second member registered and sealed: its
  Start refuses as deleted although its record and its group are still there.\<close>

theorem failed_cascade_strands_members:
  "case tasks_DeleteGroup leasing_ops 9 ''g'' stuck_tm of (e, m') \<Rightarrow>
     e = Some (TERepo ''delete task of group'' ''down'') \<and> get (tmGroups m') ''g'' \<noteq> None
     \<and> map_option (\<lambda>h. admit False (hEngine h)) (handle_at m' ''c'') = Some (Inl ErrTaskDeleted)"
  by (simp add: tasks_DeleteGroup_def tasks_GetGroup_def TasksGlobalGroup_def stuck_tm_def demo_tm_def seal_at_def
      demo_handle_def seal_def newEngine_def eng_live_def releaseTask_def set_engine_def demo_trepo_def Let_def
      handle_at_def admit_def)

text \<open>A handle that was returned before a recovery replaced it is not the one a deletion seals: it can
  still start.\<close>

theorem stale_handle_survives_delete:
  "case RecoverTask ''b'' (demo_tm\<lparr>tmResources := []\<rparr>) of (_, m1) \<Rightarrow>
     (case DeleteTask leasing_ops 9 ''b'' m1 of (e, m2) \<Rightarrow>
        e = None \<and> get (tmRegistry m2) ''b'' = None
        \<and> map_option (\<lambda>h. admit False (hEngine h)) (get (tmHeap m2) 0)
            = Some (Inr (newEngine\<lparr>eState := StatusRunning\<rparr>)))"
  by (simp add: RecoverTask_def demo_tm_def tasks_IsRunning_def handle_at_def IsRunning_def demo_handle_def
      newEngine_def eng_live_def demo_trepo_def tasks_getGroup_def tasks_GetGroup_def groupOf_def demo_row_def
      TasksGlobalGroup_def rehydrate_def getWorkflow_def demo_flow_def rehydrateTask_def install_def DeleteTask_def
      seal_at_def seal_def releaseTask_def set_engine_def admit_def Let_def)

text \<open>An edit of a group that is refused has already changed the map the cache shares.\<close>

theorem refused_edit_stays_in_the_cache:
  "case tasks_UpdateGroup 9 ''g'' (\<lambda>g. (g\<lparr>tgResourceGroups := [(''a b'', ''r'')]\<rparr>, [(''a b'', ''r'')])) demo_tm of
     (e, m') \<Rightarrow> (\<exists>x. e = Some (TEKind ''g'' x))
       \<and> map_option tgResourceGroups (tasks_GetGroup ''g'' m') = Some [(''a b'', ''r'')]"
proof -
  have "validKinds [(''a b'', ''r'')] \<noteq> None" by code_simp
  then show ?thesis
    by (auto simp: tasks_UpdateGroup_def demo_tm_def demo_trepo_def tasks_GetGroup_def zeroTGroup_def
        TasksGlobalGroup_def Let_def)
qed

text \<open>A sweep that listed the records before a task was deleted brings it back: registered again, over a
  record the store no longer has.\<close>

theorem sweep_revives_a_deleted_task:
  "case RecoverAll_list (demo_tm\<lparr>tmResources := []\<rparr>) of
     (Inr (Some (records, groups)), m1) \<Rightarrow>
       (case DeleteTask leasing_ops 9 ''b'' m1 of (e, m2) \<Rightarrow>
          e = None \<and> get (tmRegistry m2) ''b'' = None
          \<and> get (tmRegistry (snd (recoverRecords groups records [] m2))) ''b'' \<noteq> None)
   | _ \<Rightarrow> False"
  by (simp add: RecoverAll_list_def demo_tm_def tasks_IsRunning_def handle_at_def IsRunning_def demo_handle_def
      newEngine_def eng_live_def demo_trepo_def tasks_getGroup_def tasks_GetGroup_def groupOf_def demo_row_def
      TasksGlobalGroup_def rehydrate_def getWorkflow_def demo_flow_def rehydrateTask_def install_def DeleteTask_def
      seal_at_def seal_def releaseTask_def set_engine_def admit_def Let_def)

end
