(* ===== verification/Email_Types.thy ===== *)
theory Email_Types
  imports Prelude
begin

text \<open>
  The data of the email package (src/email/email.go) and what it knows of its vendors
  (src/email/vendors.go): endpoints, the check of an inbox, and what a session makes of the server's
  answers. UIDs are unsigned 32-bit numbers, drop counters unsigned 64-bit ones.

  The commands of a session are in \<^theory_text>\<open>Email_Vendors\<close>; a fetched message is the buffer the protocol library
  hands over, and the MIME reader of the mail library is given as the list of parts it
  yields. Go's strings.ToLower is a parameter.
\<close>

section \<open>Emails, inboxes and messages\<close>

record auth =
  auKind :: string
  auUsername :: string
  auPassword :: string
  auClientID :: string
  auClientSecret :: string
  auRefreshToken :: string
  auTokenURL :: string

record inbox =
  ibVendor :: string
  ibAuth :: auth
  ibLastUID :: "32 word"
  ibUIDValidity :: "32 word"

record email =
  emID :: string
  emAddress :: string
  emInbox :: "inbox option"
  emCreatedAt :: time
  emUpdatedAt :: time

record message =
  msgEmailID :: string
  msgUID :: "32 word"
  msgMessageID :: string
  msgFrom :: string
  msgTo :: "string list"
  msgSubject :: string
  msgDate :: time
  msgText :: string
  msgHTML :: string

definition Gmail :: string where "Gmail = ''gmail''"
definition Outlook :: string where "Outlook = ''outlook''"
definition AuthPassword :: string where "AuthPassword = ''password''"
definition AuthOAuth2 :: string where "AuthOAuth2 = ''oauth2''"

lemmas vendor_defs = Gmail_def Outlook_def AuthPassword_def AuthOAuth2_def

text \<open>The errors of the package, with what the messages name.\<close>

datatype inbox_error =
    ErrVendorUnknown string
  | PasswordRetired string
  | PasswordMissing
  | OAuthIncomplete
  | AuthKindUnknown string

datatype email_error =
    EmLoad repoerr
  | EmDuplicate string
  | EmIDRequired
  | EmAddressRequired string
  | EmExists string
  | EmInvalidInbox string inbox_error
  | EmPersist string repoerr
  | ErrEmailNotFound string
  | EmListenedTo string "string list"
  | EmForwardedTo string "string list"
  | EmDelete string repoerr
  | EmDeleteUnknown repoerr
  | EmTaskIDRequired
  | EmBuffer int
  | EmClosed
  | ErrNoInbox string string
  | EmCursor string repoerr
  | EmDial string string
  | EmSelect string string
  | EmFetch string string
  | EmIdle string string
  | EmBackfill string string

text \<open>The two errors that wrap ErrEmailInUse.\<close>

definition email_in_use :: "email_error \<Rightarrow> bool" where
  "email_in_use e = (case e of EmListenedTo _ _ \<Rightarrow> True | EmForwardedTo _ _ \<Rightarrow> True | _ \<Rightarrow> False)"

text \<open>The persistence port.\<close>

record 's erepo =
  erList :: "'s \<Rightarrow> (repoerr + email list) \<times> 's"
  erSave :: "email \<Rightarrow> 's \<Rightarrow> repoerr option \<times> 's"
  erDelete :: "string \<Rightarrow> 's \<Rightarrow> repoerr option \<times> 's"

section \<open>Vendors\<close>

definition endpoint :: "string \<Rightarrow> inbox_error + string" where
  "endpoint v =
     (if v = Gmail then Inr ''imap.gmail.com:993''
      else if v = Outlook then Inr ''outlook.office365.com:993''
      else Inl (ErrVendorUnknown v))"

definition tokenURL :: "string \<Rightarrow> auth \<Rightarrow> string" where
  "tokenURL v a =
     (if auTokenURL a \<noteq> [] then auTokenURL a
      else if v = Outlook then ''https://login.microsoftonline.com/common/oauth2/v2.0/token''
      else ''https://oauth2.googleapis.com/token'')"

definition validateInbox :: "inbox \<Rightarrow> inbox_error option" where
  "validateInbox ib =
     (case endpoint (ibVendor ib) of
        Inl e \<Rightarrow> Some e
      | Inr _ \<Rightarrow>
          if auKind (ibAuth ib) = AuthPassword
          then (if ibVendor ib \<noteq> Gmail then Some (PasswordRetired (ibVendor ib))
                else if auPassword (ibAuth ib) = [] then Some PasswordMissing
                else None)
          else if auKind (ibAuth ib) = AuthOAuth2
          then (if auClientID (ibAuth ib) = [] \<or> auRefreshToken (ibAuth ib) = [] then Some OAuthIncomplete
                else None)
          else Some (AuthKindUnknown (auKind (ibAuth ib))))"

section \<open>What a session makes of the server's answers\<close>

text \<open>SELECT answers with UIDNEXT, 0 when it did not say.\<close>

definition selected_last :: "32 word \<Rightarrow> 32 word" where
  "selected_last uidNext = (if uidNext > 0 then uidNext - 1 else 0)"

text \<open>A buffer of the protocol library: the UID, the envelope when there is one, the raw bodies.\<close>

record envelope_data =
  envMessageID :: string
  envSubject :: string
  envDate :: time
  envFrom :: "string list"
  envTo :: "string list"

record fetch_buffer =
  bufUID :: "32 word"
  bufEnvelope :: "envelope_data option"
  bufBodies :: "string list"

text \<open>One part of the mail library's reader: whether it is inline, its media type and its body, None
  where reading them failed.\<close>

record mime_part =
  partInline :: bool
  partType :: "string option"
  partBody :: "string option"

fun readParts :: "mime_part list \<Rightarrow> string \<Rightarrow> string \<Rightarrow> string \<times> string" where
  "readParts [] txt html = (txt, html)"
| "readParts (p # ps) txt html =
     (if \<not> partInline p then readParts ps txt html
      else (case partType p of
              None \<Rightarrow> readParts ps txt html
            | Some mediaType \<Rightarrow>
      (case partBody p of
         None \<Rightarrow> readParts ps txt html
       | Some body \<Rightarrow>
           if mediaType = ''text/plain'' \<and> txt = [] then readParts ps body html
           else if mediaType = ''text/html'' \<and> html = [] then readParts ps txt body
           else readParts ps txt html)))"

definition readBodies :: "(string \<Rightarrow> mime_part list option) \<Rightarrow> string \<Rightarrow> string \<times> string" where
  "readBodies reader raw = (case reader raw of None \<Rightarrow> ([], []) | Some ps \<Rightarrow> readParts ps [] [])"

fun addBodies :: "(string \<Rightarrow> mime_part list option) \<Rightarrow> string list \<Rightarrow> message \<Rightarrow> message" where
  "addBodies reader [] msg = msg"
| "addBodies reader (raw # raws) msg =
     (case readBodies reader raw of
        (txt, html) \<Rightarrow>
          addBodies reader raws
            (msg\<lparr>msgText := (if msgText msg = [] then txt else msgText msg),
                 msgHTML := (if msgHTML msg = [] then html else msgHTML msg)\<rparr>))"

definition toMessage ::
    "(string \<Rightarrow> string) \<Rightarrow> (string \<Rightarrow> mime_part list option) \<Rightarrow> fetch_buffer \<Rightarrow> message" where
  "toMessage lower reader buf =
     (let msg = \<lparr>msgEmailID = [], msgUID = bufUID buf, msgMessageID = [], msgFrom = [], msgTo = [],
                 msgSubject = [], msgDate = 0, msgText = [], msgHTML = []\<rparr>;
          msg1 = (case bufEnvelope buf of
                    None \<Rightarrow> msg
                  | Some env \<Rightarrow>
                      msg\<lparr>msgMessageID := envMessageID env, msgSubject := envSubject env, msgDate := envDate env,
                          msgFrom := (case envFrom env of [] \<Rightarrow> [] | a # _ \<Rightarrow> lower a),
                          msgTo := map lower (envTo env)\<rparr>)
      in addBodies reader (bufBodies buf) msg1)"

text \<open>A fetch of everything from the UID after the cursor on; what is not above the cursor is dropped.\<close>

definition FetchSince ::
    "(string \<Rightarrow> string) \<Rightarrow> (string \<Rightarrow> mime_part list option)
      \<Rightarrow> (32 word \<Rightarrow> string + fetch_buffer list) \<Rightarrow> 32 word \<Rightarrow> string + message list" where
  "FetchSince lower reader server uid =
     (case server (uid + 1) of
        Inl e \<Rightarrow> Inl e
      | Inr bufs \<Rightarrow> Inr (map (toMessage lower reader) (filter (\<lambda>b. uid < bufUID b) bufs)))"

section \<open>Facts\<close>

lemma addBodies_uid [simp]: "msgUID (addBodies reader raws msg) = msgUID msg"
  by (induction raws arbitrary: msg) (simp_all split: prod.splits)

lemma toMessage_uid [simp]: "msgUID (toMessage lower reader buf) = bufUID buf"
  by (simp add: toMessage_def Let_def split: option.splits)

text \<open>The IMAP range from n on to the last message: everything from n, and the last message even when it is
  below n. A range that starts at 0 is the last message alone.\<close>

definition uid_range :: "fetch_buffer list \<Rightarrow> 32 word \<Rightarrow> fetch_buffer list" where
  "uid_range box n =
     (let hits = (if n = 0 then [] else filter (\<lambda>b. n \<le> bufUID b) box)
      in if hits = [] \<and> box \<noteq> [] then [last box] else hits)"

text \<open>Over such a range FetchSince returns exactly the messages above the cursor, also for the largest
  cursor, whose successor is 0.\<close>

lemma fetch_since_range:
  "FetchSince lower reader (\<lambda>n. Inr (uid_range box n)) uid
     = Inr (map (toMessage lower reader) (filter (\<lambda>b. uid < bufUID b) box))"
proof -
  have le: "uid < n \<longleftrightarrow> uid + 1 \<noteq> 0 \<and> uid + 1 \<le> n" for n :: "32 word"
  proof (cases "uid + 1 = 0")
    case True
    then have "uid = - 1" by (simp add: eq_neg_iff_add_eq_0)
    then show ?thesis using True by simp
  next
    case False
    then show ?thesis using inc_le [of uid n] unatSuc [of uid] by (auto simp: add.commute word_less_nat_alt word_le_nat_alt)
  qed
  then have hits: "filter (\<lambda>b. uid < bufUID b) (if uid + 1 = 0 then [] else filter (\<lambda>b. uid + 1 \<le> bufUID b) box)
      = filter (\<lambda>b. uid < bufUID b) box"
    by (auto intro: filter_cong simp: filter_empty_conv)
  have none: "filter (\<lambda>b. uid < bufUID b) box = []"
    if "(if uid + 1 = 0 then [] else filter (\<lambda>b. uid + 1 \<le> bufUID b) box) = []"
    using that hits by simp
  show ?thesis
  proof (cases "(if uid + 1 = 0 then [] else filter (\<lambda>b. uid + 1 \<le> bufUID b) box) = [] \<and> box \<noteq> []")
    case True
    then have "last box \<in> set box" by simp
    with none [OF conjunct1 [OF True]] have "\<not> uid < bufUID (last box)" by (auto simp: filter_empty_conv)
    with True none [OF conjunct1 [OF True]] show ?thesis by (simp add: FetchSince_def uid_range_def Let_def)
  next
    case False
    then have "uid_range box (uid + 1) = (if uid + 1 = 0 then [] else filter (\<lambda>b. uid + 1 \<le> bufUID b) box)"
      by (auto simp: uid_range_def Let_def)
    with hits show ?thesis by (simp add: FetchSince_def)
  qed
qed

text \<open>The bodies of a message are its first inline part of each type that is not empty.\<close>

definition first_body :: "string \<Rightarrow> mime_part list \<Rightarrow> string" where
  "first_body ty ps =
     (case filter (\<lambda>b. b \<noteq> []) (map (the \<circ> partBody)
         (filter (\<lambda>p. partInline p \<and> partType p = Some ty \<and> partBody p \<noteq> None) ps)) of
        [] \<Rightarrow> []
      | b # bs \<Rightarrow> b)"

lemma first_body_Cons:
  "first_body ty (p # ps) =
     (if partInline p \<and> partType p = Some ty \<and> partBody p \<noteq> None \<and> partBody p \<noteq> Some []
      then the (partBody p) else first_body ty ps)"
  by (auto simp: first_body_def)

lemma readParts_first:
  "readParts ps plain html =
     (if plain = [] then first_body ''text/plain'' ps else plain, if html = [] then first_body ''text/html'' ps else html)"
proof (induction ps arbitrary: plain html)
  case Nil
  then show ?case by (simp add: first_body_def)
next
  case (Cons p ps)
  show ?case
  proof (cases "partInline p \<and> partType p \<noteq> None \<and> partBody p \<noteq> None")
    case True
    then obtain ty body where "partType p = Some ty" "partBody p = Some body" by blast
    with True Cons.IH show ?thesis by (simp add: first_body_Cons)
  next
    case False
    with Cons.IH show ?thesis by (auto simp: first_body_Cons split: option.split)
  qed
qed

text \<open>Only an inbox that can be dialed is valid.\<close>

lemma validateInbox_None:
  "validateInbox ib = None \<longleftrightarrow>
     ibVendor ib = Gmail \<and> auKind (ibAuth ib) = AuthPassword \<and> auPassword (ibAuth ib) \<noteq> []
     \<or> (ibVendor ib = Gmail \<or> ibVendor ib = Outlook) \<and> auKind (ibAuth ib) = AuthOAuth2
       \<and> auClientID (ibAuth ib) \<noteq> [] \<and> auRefreshToken (ibAuth ib) \<noteq> []"
  by (auto simp: validateInbox_def endpoint_def vendor_defs)

end
