(* ===== verification/Email_Manager.thy ===== *)
theory Email_Manager
  imports Email_Types
begin

text \<open>
  The manager of the email package (src/email/manager.go): the inventory of emails, one listener per
  inbox while anybody listens to it, and the fan-out of messages to subscriptions. An operation is what
  happens under the manager's mutex, one function of the state; the goroutine of a listener is in
  \<^theory_text>\<open>Email_Listener\<close>.

  Listeners and subscriptions are shared pointers: addresses of two heaps that only grow. The set of a
  listener's subscriptions is a list without repetitions, whose order stands for the order in which Go
  happens to visit the set. Closing a channel twice panics: an operation that would do so is None.
\<close>

section \<open>State\<close>

record esub =
  esEmailID :: string
  esTaskID :: string
  esFrom :: string
  esBuffer :: int
  esCh :: "message list"
  esDropped :: "64 word"
  esClosed :: bool

record elistener =
  lnEmailID :: string
  lnEmail :: email
  lnSubs :: "nat list"
  lnStop :: bool

text \<open>The guard reads the state of another manager: it is a function of that world.\<close>

record ('s, 'w) emgr =
  emRepo :: "'s erepo"
  emStore :: "'s"
  emLower :: "string \<Rightarrow> string"
  emDropHandler :: bool
  emErrHandler :: bool
  emGuard :: "('w \<Rightarrow> string \<Rightarrow> string list \<times> string list) option"
  emInventory :: "(string, email) gomap"
  emListeners :: "(string, nat) gomap"
  emLHeap :: "elistener list"
  emSHeap :: "esub list"
  emClosed :: bool

abbreviation lnAt :: "('s, 'w) emgr \<Rightarrow> nat \<Rightarrow> elistener" where
  "lnAt m a \<equiv> emLHeap m ! a"

abbreviation subAt :: "('s, 'w) emgr \<Rightarrow> nat \<Rightarrow> esub" where
  "subAt m s \<equiv> emSHeap m ! s"

section \<open>Construction\<close>

definition email_WithDropHandler :: "('s, 'w) emgr \<Rightarrow> ('s, 'w) emgr" where
  "email_WithDropHandler m = m\<lparr>emDropHandler := True\<rparr>"

definition WithListenerErrorHandler :: "('s, 'w) emgr \<Rightarrow> ('s, 'w) emgr" where
  "WithListenerErrorHandler m = m\<lparr>emErrHandler := True\<rparr>"

definition GuardDeletes ::
    "('w \<Rightarrow> string \<Rightarrow> string list \<times> string list) \<Rightarrow> ('s, 'w) emgr \<Rightarrow> ('s, 'w) emgr" where
  "GuardDeletes guard m = m\<lparr>emGuard := Some guard\<rparr>"

definition email_noopRepository :: "'s erepo" where
  "email_noopRepository =
     \<lparr>erList = (\<lambda>s. (Inr [], s)), erSave = (\<lambda>_ s. (None, s)), erDelete = (\<lambda>_ s. (None, s))\<rparr>"

fun loadEmails :: "email list \<Rightarrow> (string, email) gomap \<Rightarrow> email_error + (string, email) gomap" where
  "loadEmails [] loaded = Inr loaded"
| "loadEmails (e # es) loaded =
     (if get loaded (emID e) \<noteq> None then Inl (EmDuplicate (emID e)) else loadEmails es (put (emID e) e loaded))"

definition email_NewManager ::
    "(string \<Rightarrow> string) \<Rightarrow> 's erepo option \<Rightarrow> (('s, 'w) emgr \<Rightarrow> ('s, 'w) emgr) list \<Rightarrow> 's
      \<Rightarrow> (email_error + ('s, 'w) emgr) \<times> 's" where
  "email_NewManager lower repo opts st =
     (let rp = (case repo of None \<Rightarrow> email_noopRepository | Some rp \<Rightarrow> rp);
          m0 = \<lparr>emRepo = rp, emStore = st, emLower = lower, emDropHandler = False, emErrHandler = False,
                emGuard = None, emInventory = [], emListeners = [], emLHeap = [], emSHeap = [],
                emClosed = False\<rparr>;
          m1 = fold (\<lambda>opt m. opt m) opts m0
      in case erList (emRepo m1) (emStore m1) of
           (Inl e, st') \<Rightarrow> (Inl (EmLoad e), st')
         | (Inr listed, st') \<Rightarrow>
             (case loadEmails listed [] of
                Inl e \<Rightarrow> (Inl e, st')
              | Inr loaded \<Rightarrow> (Inr (m1\<lparr>emStore := st', emInventory := loaded\<rparr>), st')))"

section \<open>The inventory\<close>

definition email_Add :: "time \<Rightarrow> email \<Rightarrow> ('s, 'w) emgr \<Rightarrow> email_error option \<times> ('s, 'w) emgr" where
  "email_Add now e m =
     (if emID e = [] then (Some EmIDRequired, m)
      else if emAddress e = [] then (Some (EmAddressRequired (emID e)), m)
      else if get (emInventory m) (emID e) \<noteq> None then (Some (EmExists (emID e)), m)
      else (case (case emInbox e of None \<Rightarrow> None | Some ib \<Rightarrow> validateInbox ib) of
              Some err \<Rightarrow> (Some (EmInvalidInbox (emID e) err), m)
            | None \<Rightarrow>
                (let e' = e\<lparr>emCreatedAt := now, emUpdatedAt := now\<rparr>
                 in case erSave (emRepo m) e' (emStore m) of
                      (Some err, st) \<Rightarrow> (Some (EmPersist (emID e) err), m\<lparr>emStore := st\<rparr>)
                    | (None, st) \<Rightarrow>
                        (None, m\<lparr>emStore := st, emInventory := put (emID e) e' (emInventory m)\<rparr>))))"

definition email_Get :: "string \<Rightarrow> ('s, 'w) emgr \<Rightarrow> email_error + email" where
  "email_Get i m =
     (case get (emInventory m) i of None \<Rightarrow> Inl (ErrEmailNotFound i) | Some e \<Rightarrow> Inr e)"

definition listener_taskIDs :: "('s, 'w) emgr \<Rightarrow> elistener \<Rightarrow> string list" where
  "listener_taskIDs m l = sort (remdups (map (\<lambda>s. esTaskID (subAt m s)) (lnSubs l)))"

text \<open>Delete answers with the tasks it strands and the error.\<close>

definition email_Delete ::
    "'w \<Rightarrow> string \<Rightarrow> ('s, 'w) emgr \<Rightarrow> (string list \<times> email_error option) \<times> ('s, 'w) emgr" where
  "email_Delete w i m =
     (if get (emInventory m) i = None
      then (case erDelete (emRepo m) i (emStore m) of
              (err, st) \<Rightarrow> (([], map_option EmDeleteUnknown err), m\<lparr>emStore := st\<rparr>))
      else (let tasks = (case get (emListeners m) i of None \<Rightarrow> [] | Some a \<Rightarrow> listener_taskIDs m (lnAt m a))
            in if tasks \<noteq> [] then (([], Some (EmListenedTo i tasks)), m)
      else (case (case emGuard m of None \<Rightarrow> ([], []) | Some guard \<Rightarrow> guard w i) of
              (held, locked) \<Rightarrow>
                if held \<noteq> [] then (([], Some (EmForwardedTo i (sort held))), m)
                else (case erDelete (emRepo m) i (emStore m) of
                        (Some err, st) \<Rightarrow> (([], Some (EmDelete i err)), m\<lparr>emStore := st\<rparr>)
                      | (None, st) \<Rightarrow>
                          ((sort locked, None),
                           m\<lparr>emStore := st, emInventory := del i (emInventory m)\<rparr>)))))"

section \<open>Subscriptions\<close>

record listenConfig =
  lcFrom :: string
  lcBuffer :: int
  lcBackfill :: time

definition FromSender :: "(string \<Rightarrow> string) \<Rightarrow> string \<Rightarrow> listenConfig \<Rightarrow> listenConfig" where
  "FromSender lower address c = c\<lparr>lcFrom := lower address\<rparr>"

definition WithBackfill :: "time \<Rightarrow> listenConfig \<Rightarrow> listenConfig" where
  "WithBackfill since c = c\<lparr>lcBackfill := since\<rparr>"

definition email_WithBuffer :: "int \<Rightarrow> listenConfig \<Rightarrow> listenConfig" where
  "email_WithBuffer n c = c\<lparr>lcBuffer := n\<rparr>"

definition newListener :: "email \<Rightarrow> elistener" where
  "newListener e = \<lparr>lnEmailID = emID e, lnEmail = e, lnSubs = [], lnStop = False\<rparr>"

definition attach :: "nat \<Rightarrow> nat \<Rightarrow> ('s, 'w) emgr \<Rightarrow> ('s, 'w) emgr" where
  "attach a s m = m\<lparr>emLHeap := (emLHeap m)[a := (lnAt m a)\<lparr>lnSubs := lnSubs (lnAt m a) @ [s]\<rparr>]\<rparr>"

text \<open>Listen answers with the address of the subscription. A listener that was not there is started: it is
  the last of its heap then. The date of a backfill, 0 for none, is returned for its goroutine.\<close>

definition Listen ::
    "string \<Rightarrow> string \<Rightarrow> (listenConfig \<Rightarrow> listenConfig) list \<Rightarrow> ('s, 'w) emgr
      \<Rightarrow> (email_error + (nat \<times> time)) \<times> ('s, 'w) emgr" where
  "Listen taskID emailID opts m =
     (if taskID = [] then (Inl EmTaskIDRequired, m)
      else (let cfg = fold (\<lambda>opt c. opt c) opts \<lparr>lcFrom = [], lcBuffer = 64, lcBackfill = 0\<rparr>
            in if lcBuffer cfg < 1 then (Inl (EmBuffer (lcBuffer cfg)), m)
      else if emClosed m then (Inl EmClosed, m)
      else (case get (emInventory m) emailID of
              None \<Rightarrow> (Inl (ErrEmailNotFound emailID), m)
            | Some e \<Rightarrow>
      if emInbox e = None then (Inl (ErrNoInbox emailID (emAddress e)), m)
      else (let s = length (emSHeap m);
                m1 = m\<lparr>emSHeap := emSHeap m @
                  [\<lparr>esEmailID = emailID, esTaskID = taskID, esFrom = lcFrom cfg, esBuffer = lcBuffer cfg,
                    esCh = [], esDropped = 0, esClosed = False\<rparr>]\<rparr>
            in case get (emListeners m1) emailID of
                 Some a \<Rightarrow> (Inr (s, lcBackfill cfg), attach a s m1)
               | None \<Rightarrow>
                   (let a = length (emLHeap m1)
                    in (Inr (s, lcBackfill cfg),
                        attach a s (m1\<lparr>emLHeap := emLHeap m1 @ [newListener e],
                                       emListeners := put emailID a (emListeners m1)\<rparr>)))))))"

definition retire :: "nat \<Rightarrow> ('s, 'w) emgr \<Rightarrow> ('s, 'w) emgr" where
  "retire s m =
     (if esClosed (subAt m s) then m else m\<lparr>emSHeap := (emSHeap m)[s := (subAt m s)\<lparr>esClosed := True\<rparr>]\<rparr>)"

text \<open>close(l.stop): a second time panics.\<close>

definition closeStop :: "nat \<Rightarrow> ('s, 'w) emgr \<Rightarrow> ('s, 'w) emgr option" where
  "closeStop a m =
     (if lnStop (lnAt m a) then None else Some (m\<lparr>emLHeap := (emLHeap m)[a := (lnAt m a)\<lparr>lnStop := True\<rparr>]\<rparr>))"

definition detach :: "nat \<Rightarrow> nat \<Rightarrow> ('s, 'w) emgr \<Rightarrow> ('s, 'w) emgr" where
  "detach a s m = m\<lparr>emLHeap := (emLHeap m)[a := (lnAt m a)\<lparr>lnSubs := removeAll s (lnSubs (lnAt m a))\<rparr>]\<rparr>"

definition sub_Close :: "nat \<Rightarrow> ('s, 'w) emgr \<Rightarrow> ('s, 'w) emgr option" where
  "sub_Close s m =
     (let i = esEmailID (subAt m s)
      in case get (emListeners m) i of
           None \<Rightarrow> Some (retire s m)
         | Some a \<Rightarrow>
             (let m1 = detach a s m
              in if lnSubs (lnAt m1 a) = []
                 then (case closeStop a m1 of
                         None \<Rightarrow> None
                       | Some m2 \<Rightarrow> Some (retire s (m2\<lparr>emListeners := del i (emListeners m2)\<rparr>)))
                 else Some (retire s m1)))"

text \<open>The manager's Close, up to the wait for the goroutines.\<close>

fun closeListeners :: "(string \<times> nat) list \<Rightarrow> ('s, 'w) emgr \<Rightarrow> ('s, 'w) emgr option" where
  "closeListeners [] m = Some m"
| "closeListeners ((i, a) # ls) m =
     (case closeStop a m of
        None \<Rightarrow> None
      | Some m1 \<Rightarrow>
          (let m2 = fold retire (lnSubs (lnAt m1 a)) m1;
               m3 = m2\<lparr>emLHeap := (emLHeap m2)[a := (lnAt m2 a)\<lparr>lnSubs := []\<rparr>]\<rparr>
           in closeListeners ls (m3\<lparr>emListeners := del i (emListeners m3)\<rparr>)))"

definition email_Close :: "('s, 'w) emgr \<Rightarrow> ('s, 'w) emgr option" where
  "email_Close m = closeListeners (emListeners m) (m\<lparr>emClosed := True\<rparr>)"

section \<open>Delivery\<close>

definition matches :: "(string \<Rightarrow> string) \<Rightarrow> esub \<Rightarrow> message \<Rightarrow> bool" where
  "matches lower s msg \<longleftrightarrow> esFrom s = [] \<or> esFrom s = lower (msgFrom msg)"

record edrop =
  dpEmailID :: string
  dpTaskID :: string
  dpTotal :: "64 word"

text \<open>A message that is admitted goes into the channel when there is room, and is counted otherwise.\<close>

definition offer :: "(string \<Rightarrow> string) \<Rightarrow> message \<Rightarrow> esub \<Rightarrow> edrop option \<times> esub" where
  "offer lower msg s =
     (if esClosed s \<or> \<not> matches lower s msg then (None, s)
      else if int (length (esCh s)) < esBuffer s then (None, s\<lparr>esCh := esCh s @ [msg]\<rparr>)
      else (let s' = s\<lparr>esDropped := esDropped s + 1\<rparr>
            in (Some \<lparr>dpEmailID = esEmailID s, dpTaskID = esTaskID s, dpTotal = esDropped s'\<rparr>, s')))"

fun offerAll :: "(string \<Rightarrow> string) \<Rightarrow> message \<Rightarrow> nat list \<Rightarrow> esub list \<times> edrop list \<Rightarrow> esub list \<times> edrop list" where
  "offerAll lower msg [] acc = acc"
| "offerAll lower msg (s # ss) (heap, drops) =
     (case offer lower msg (heap ! s) of
        (d, sub) \<Rightarrow>
          offerAll lower msg ss (heap[s := sub], drops @ (case d of None \<Rightarrow> [] | Some x \<Rightarrow> [x])))"

fun fanoutLoop ::
    "(string \<Rightarrow> string) \<Rightarrow> string \<Rightarrow> nat list \<Rightarrow> message list \<Rightarrow> 32 word \<Rightarrow> esub list \<times> edrop list
      \<Rightarrow> 32 word \<times> esub list \<times> edrop list" where
  "fanoutLoop lower i ss [] maxUID acc = (maxUID, acc)"
| "fanoutLoop lower i ss (msg # msgs) maxUID acc =
     fanoutLoop lower i ss msgs (if msgUID msg > maxUID then msgUID msg else maxUID)
       (offerAll lower (msg\<lparr>msgEmailID := i\<rparr>) ss acc)"

definition owns :: "('s, 'w) emgr \<Rightarrow> nat \<Rightarrow> bool" where
  "owns m a \<longleftrightarrow> get (emListeners m) (lnEmailID (lnAt m a)) = Some a"

definition reportDrops :: "('s, 'w) emgr \<Rightarrow> edrop list \<Rightarrow> edrop list" where
  "reportDrops m drops = (if emDropHandler m then drops else [])"

text \<open>fanout answers with the highest UID and whether the listener still owns the inbox, and with the
  calls of the drop handler.\<close>

definition fanout ::
    "nat \<Rightarrow> message list \<Rightarrow> ('s, 'w) emgr \<Rightarrow> (32 word \<times> bool) \<times> edrop list \<times> ('s, 'w) emgr" where
  "fanout a msgs m =
     (if \<not> owns m a then ((0, False), [], m)
      else (case fanoutLoop (emLower m) (lnEmailID (lnAt m a)) (lnSubs (lnAt m a)) msgs 0 (emSHeap m, []) of
              (maxUID, heap, drops) \<Rightarrow> ((maxUID, True), reportDrops m drops, m\<lparr>emSHeap := heap\<rparr>)))"

text \<open>A backfill offers what it fetched to its one subscription.\<close>

fun backfillLoop ::
    "(string \<Rightarrow> string) \<Rightarrow> string \<Rightarrow> nat \<Rightarrow> message list \<Rightarrow> esub list \<times> edrop list \<Rightarrow> esub list \<times> edrop list" where
  "backfillLoop lower i s [] acc = acc"
| "backfillLoop lower i s (msg # msgs) acc =
     backfillLoop lower i s msgs (offerAll lower (msg\<lparr>msgEmailID := i\<rparr>) [s] acc)"

definition reportError :: "('s, 'w) emgr \<Rightarrow> email_error \<Rightarrow> email_error list" where
  "reportError m e = (if emErrHandler m then [e] else [])"

text \<open>The steps of a backfill: a dial that may have been cancelled, a select, a fetch, the offers.\<close>

definition backfill ::
    "string \<Rightarrow> nat \<Rightarrow> (bool \<times> string) option \<Rightarrow> string option \<Rightarrow> string + message list \<Rightarrow> ('s, 'w) emgr
      \<Rightarrow> email_error list \<times> edrop list \<times> ('s, 'w) emgr" where
  "backfill i s dialed selected fetched m =
     (case dialed of
        Some (cancelled, e) \<Rightarrow> (if cancelled then [] else reportError m (EmBackfill ''backfill dial'' e), [], m)
      | None \<Rightarrow>
     (case selected of
        Some e \<Rightarrow> (reportError m (EmBackfill ''backfill select'' e), [], m)
      | None \<Rightarrow>
     (case fetched of
        Inl e \<Rightarrow> (reportError m (EmBackfill ''backfill fetch'' e), [], m)
      | Inr msgs \<Rightarrow>
          (case backfillLoop (emLower m) i s msgs (emSHeap m, []) of
             (heap, drops) \<Rightarrow> ([], reportDrops m drops, m\<lparr>emSHeap := heap\<rparr>)))))"

text \<open>A consumer takes the next message of its subscription.\<close>

definition take_message :: "nat \<Rightarrow> ('s, 'w) emgr \<Rightarrow> message option \<times> ('s, 'w) emgr" where
  "take_message s m =
     (case esCh (subAt m s) of
        [] \<Rightarrow> (None, m)
      | msg # msgs \<Rightarrow> (Some msg, m\<lparr>emSHeap := (emSHeap m)[s := (subAt m s)\<lparr>esCh := msgs\<rparr>]\<rparr>))"

section \<open>The cursor\<close>

definition cursor :: "nat \<Rightarrow> ('s, 'w) emgr \<Rightarrow> inbox option" where
  "cursor a m =
     (case get (emInventory m) (lnEmailID (lnAt m a)) of
        None \<Rightarrow> None
      | Some e \<Rightarrow> if \<not> owns m a then None else emInbox e)"

definition advanceCursor ::
    "time \<Rightarrow> nat \<Rightarrow> 32 word \<Rightarrow> 32 word \<Rightarrow> bool \<Rightarrow> ('s, 'w) emgr \<Rightarrow> email_error option \<times> ('s, 'w) emgr" where
  "advanceCursor now a uidValidity uid reset m =
     (let i = lnEmailID (lnAt m a)
      in case get (emInventory m) i of
           None \<Rightarrow> (None, m)
         | Some e \<Rightarrow>
      (case emInbox e of
           None \<Rightarrow> (None, m)
         | Some ib \<Rightarrow>
      if \<not> owns m a then (None, m)
      else (let ib' = ib\<lparr>ibUIDValidity := uidValidity,
                         ibLastUID := (if reset \<or> uid > ibLastUID ib then uid else ibLastUID ib)\<rparr>;
                e' = e\<lparr>emInbox := Some ib', emUpdatedAt := now\<rparr>
            in case erSave (emRepo m) e' (emStore m) of
                 (Some err, st) \<Rightarrow> (Some (EmCursor i err), m\<lparr>emStore := st\<rparr>)
               | (None, st) \<Rightarrow> (None, m\<lparr>emStore := st, emInventory := put i e' (emInventory m)\<rparr>))))"

end
