(* ===== verification/Email_Listener.thy ===== *)
theory Email_Listener
  imports Email_Manager
begin

text \<open>
  The goroutine of a listener (run and serveOnce of src/email/listener.go) as a machine: where it
  stands, with the local variables it still needs, and what it does with the next answer of the outside
  world. A session is dialed, selected, reconciled with the stored cursor, and then alternates between
  a fetch with its fan-out and IDLE until something breaks, the listener is stopped or it has lost the
  inbox; then it backs off and dials again. Every step that touches the manager is one critical section.
\<close>

section \<open>Backoff\<close>

definition backoffFloor :: time where "backoffFloor = 1000000000"
definition backoffCeil :: time where "backoffCeil = 120000000000"

definition next_backoff :: "bool \<Rightarrow> time \<Rightarrow> time" where
  "next_backoff healthy backoff =
     (if healthy then backoffFloor
      else let doubled = backoff * 2 in if doubled > backoffCeil then backoffCeil else doubled)"

section \<open>The goroutine\<close>

datatype lpc =
    Top time
  | Dialing time
  | Selecting time
  | Reading time "32 word" "32 word"
  | Resetting time "32 word" "32 word"
  | Polling time "32 word"
  | Fetching time "32 word" "32 word"
  | Fanning time "32 word" "32 word" "message list"
  | Moving time "32 word" "32 word"
  | Idling time "32 word"
  | Sleeping time
  | Exited

text \<open>What the goroutine waits for: its own next step, an answer of the session, its stop channel, the
  timer of the backoff. An error of a dial or of IDLE comes with whether the context had ended.\<close>

datatype levent =
    Go
  | Dialed "(bool \<times> string) option"
  | Selected "string + 32 word \<times> 32 word"
  | Fetched "string + message list"
  | Idled "(bool \<times> string) option"
  | StopSeen
  | TimerFired bool

text \<open>serveOnce returns: run reports an error and sleeps.\<close>

definition served ::
    "time \<Rightarrow> email_error option \<Rightarrow> ('s, 'w) emgr
      \<Rightarrow> lpc \<times> email_error list \<times> edrop list \<times> ('s, 'w) emgr" where
  "served backoff err m =
     (Sleeping backoff, (case err of None \<Rightarrow> [] | Some e \<Rightarrow> reportError m e), [], m)"

text \<open>One step at each place; an answer it does not wait for leaves the goroutine where it is.\<close>

fun serve ::
    "time \<Rightarrow> nat \<Rightarrow> levent \<Rightarrow> lpc \<Rightarrow> ('s, 'w) emgr
      \<Rightarrow> lpc \<times> email_error list \<times> edrop list \<times> ('s, 'w) emgr" where
  "serve now a ev (Top b) m =
     (case ev of
        Go \<Rightarrow> if lnStop (lnAt m a) then (Exited, [], [], m) else (Dialing b, [], [], m)
      | _ \<Rightarrow> (Top b, [], [], m))"
| "serve now a ev (Dialing b) m =
     (case ev of
        Dialed None \<Rightarrow> (Selecting b, [], [], m)
      | Dialed (Some (cancelled, e)) \<Rightarrow>
          served b (if cancelled then None else Some (EmDial (lnEmailID (lnAt m a)) e)) m
      | _ \<Rightarrow> (Dialing b, [], [], m))"
| "serve now a ev (Selecting b) m =
     (case ev of
        Selected (Inl e) \<Rightarrow> served b (Some (EmSelect (lnEmailID (lnAt m a)) e)) m
      | Selected (Inr (uidv, lastUID)) \<Rightarrow> (Reading b uidv lastUID, [], [], m)
      | _ \<Rightarrow> (Selecting b, [], [], m))"
| "serve now a ev (Reading b uidv lastUID) m =
     (case ev of
        Go \<Rightarrow>
          (case cursor a m of
             None \<Rightarrow> served b None m
           | Some ib \<Rightarrow>
               (if uidv \<noteq> ibUIDValidity ib then Resetting b uidv lastUID else Polling b uidv, [], [], m))
      | _ \<Rightarrow> (Reading b uidv lastUID, [], [], m))"
| "serve now a ev (Resetting b uidv lastUID) m =
     (case ev of
        Go \<Rightarrow>
          (case advanceCursor now a uidv lastUID True m of
             (Some e, m') \<Rightarrow> served b (Some e) m'
           | (None, m') \<Rightarrow> (Polling b uidv, [], [], m'))
      | _ \<Rightarrow> (Resetting b uidv lastUID, [], [], m))"
| "serve now a ev (Polling b uidv) m =
     (case ev of
        Go \<Rightarrow>
          (case cursor a m of
             None \<Rightarrow> served b None m
           | Some ib \<Rightarrow> (Fetching b uidv (ibLastUID ib), [], [], m))
      | _ \<Rightarrow> (Polling b uidv, [], [], m))"
| "serve now a ev (Fetching b uidv cur) m =
     (case ev of
        Fetched (Inl e) \<Rightarrow> served b (Some (EmFetch (lnEmailID (lnAt m a)) e)) m
      | Fetched (Inr msgs) \<Rightarrow> (Fanning b uidv cur msgs, [], [], m)
      | _ \<Rightarrow> (Fetching b uidv cur, [], [], m))"
| "serve now a ev (Fanning b uidv cur msgs) m =
     (case ev of
        Go \<Rightarrow>
          (case fanout a msgs m of
             ((maxUID, owned), drops, m') \<Rightarrow>
               if \<not> owned then served b None m'
               else (if maxUID > cur then Moving b uidv maxUID else Idling b uidv, [], drops, m'))
      | _ \<Rightarrow> (Fanning b uidv cur msgs, [], [], m))"
| "serve now a ev (Moving b uidv maxUID) m =
     (case ev of
        Go \<Rightarrow>
          (case advanceCursor now a uidv maxUID False m of
             (Some e, m') \<Rightarrow> served b (Some e) m'
           | (None, m') \<Rightarrow> (Idling b uidv, [], [], m'))
      | _ \<Rightarrow> (Moving b uidv maxUID, [], [], m))"
| "serve now a ev (Idling b uidv) m =
     (case ev of
        Idled None \<Rightarrow> (Polling b uidv, [], [], m)
      | Idled (Some (cancelled, e)) \<Rightarrow>
          served b (if cancelled then None else Some (EmIdle (lnEmailID (lnAt m a)) e)) m
      | _ \<Rightarrow> (Idling b uidv, [], [], m))"
| "serve now a ev (Sleeping b) m =
     (case ev of
        StopSeen \<Rightarrow> (if lnStop (lnAt m a) then Exited else Sleeping b, [], [], m)
      | TimerFired healthy \<Rightarrow> (Top (next_backoff healthy b), [], [], m)
      | _ \<Rightarrow> (Sleeping b, [], [], m))"
| "serve now a ev Exited m = (Exited, [], [], m)"

section \<open>The process\<close>

text \<open>The manager with the goroutines of its listeners and the inboxes behind its emails: what each holds
  and the last UID it has given out. Three ghosts say of a subscription how far its inbox had come
  when it was attached or its cursor was reset, what was taken from it and what it dropped.\<close>

record ('s, 'w) esys =
  syMgr :: "('s, 'w) emgr"
  syPcs :: "lpc list"
  syBox :: "string \<Rightarrow> message list"
  syLast :: "string \<Rightarrow> 32 word"
  syFloor :: "nat \<Rightarrow> 32 word"
  syTaken :: "nat \<Rightarrow> message list"
  syLost :: "nat \<Rightarrow> message list"

text \<open>What offering messages in turn makes of one subscription, and which of them it drops.\<close>

fun offers :: "(string \<Rightarrow> string) \<Rightarrow> message list \<Rightarrow> esub \<Rightarrow> message list \<times> esub" where
  "offers lower [] s = ([], s)"
| "offers lower (msg # msgs) s =
     (case offer lower msg s of
        (d, s1) \<Rightarrow> (case offers lower msgs s1 of
                     (lost, s2) \<Rightarrow> ((case d of None \<Rightarrow> [] | Some _ \<Rightarrow> [msg]) @ lost, s2)))"

abbreviation addressed :: "string \<Rightarrow> message list \<Rightarrow> message list" where
  "addressed i msgs \<equiv> map (\<lambda>msg. msg\<lparr>msgEmailID := i\<rparr>) msgs"

text \<open>The messages a fan-out of listener a drops for a subscription.\<close>

definition fan_lost :: "('s, 'w) emgr \<Rightarrow> nat \<Rightarrow> message list \<Rightarrow> nat \<Rightarrow> message list" where
  "fan_lost m a msgs s =
     (if owns m a \<and> s \<in> set (lnSubs (lnAt m a))
      then fst (offers (emLower m) (addressed (lnEmailID (lnAt m a)) msgs) (subAt m s)) else [])"

text \<open>What a session can be told: SELECT answers with the inbox's validity and last UID, a fetch with the
  messages above the cursor (\<^theory_text>\<open>fetch_since_range\<close>); a context ends only after the stop.\<close>

definition answers :: "(string \<Rightarrow> 32 word) \<Rightarrow> ('s, 'w) esys \<Rightarrow> nat \<Rightarrow> levent \<Rightarrow> lpc \<Rightarrow> bool" where
  "answers v S a ev pc =
     (let l = lnAt (syMgr S) a; i = lnEmailID l
      in case ev of
           Selected (Inr (uidv, lastUID)) \<Rightarrow> uidv = v i \<and> lastUID = syLast S i
         | Fetched (Inr msgs) \<Rightarrow>
             (case pc of
                Fetching b uidv cur \<Rightarrow> msgs = filter (\<lambda>msg. cur < msgUID msg) (syBox S i)
              | _ \<Rightarrow> True)
         | Dialed (Some (cancelled, e)) \<Rightarrow> cancelled \<longrightarrow> lnStop l
         | Idled (Some (cancelled, e)) \<Rightarrow> cancelled \<longrightarrow> lnStop l
         | _ \<Rightarrow> True)"

text \<open>The ghosts of a listener's step: a reset lifts the floor of everybody attached, a fan-out adds to what
  was dropped.\<close>

definition lifted :: "levent \<Rightarrow> lpc \<Rightarrow> nat \<Rightarrow> ('s, 'w) esys \<Rightarrow> nat \<Rightarrow> 32 word" where
  "lifted ev pc a S s =
     (case (ev, pc) of
        (Go, Resetting b uidv lastUID) \<Rightarrow>
          if s \<in> set (lnSubs (lnAt (syMgr S) a)) then max (syFloor S s) lastUID else syFloor S s
      | _ \<Rightarrow> syFloor S s)"

definition dropped_in :: "levent \<Rightarrow> lpc \<Rightarrow> nat \<Rightarrow> ('s, 'w) esys \<Rightarrow> nat \<Rightarrow> message list" where
  "dropped_in ev pc a S s =
     (case (ev, pc) of
        (Go, Fanning b uidv cur msgs) \<Rightarrow> syLost S s @ fan_lost (syMgr S) a msgs s
      | _ \<Rightarrow> syLost S s)"

text \<open>A new email has no cursor; a message arrives with a UID above all the inbox has given out, and may
  be expunged at any time. \<^theory_text>\<open>v\<close> gives the UIDVALIDITY of the inbox behind an email.\<close>

inductive email_step :: "(string \<Rightarrow> 32 word) \<Rightarrow> ('s, 'w) esys \<Rightarrow> ('s, 'w) esys \<Rightarrow> bool" for v where
  add: "(case emInbox e of None \<Rightarrow> True | Some ib \<Rightarrow> ibLastUID ib = 0 \<and> ibUIDValidity ib = 0) \<Longrightarrow>
    email_step v S (S\<lparr>syMgr := snd (email_Add now e (syMgr S))\<rparr>)"
| delete: "email_step v S (S\<lparr>syMgr := snd (email_Delete w i (syMgr S))\<rparr>)"
| guard: "email_step v S (S\<lparr>syMgr := GuardDeletes g (syMgr S)\<rparr>)"
| listen: "Listen t i opts (syMgr S) = (Inr (s, since), m') \<Longrightarrow>
    email_step v S (S\<lparr>syMgr := m',
      syPcs := syPcs S @ replicate (length (emLHeap m') - length (emLHeap (syMgr S))) (Top backoffFloor),
      syFloor := (syFloor S)(s := syLast S i)\<rparr>)"
| unlisten: "s < length (emSHeap (syMgr S)) \<Longrightarrow> sub_Close s (syMgr S) = Some m' \<Longrightarrow>
    email_step v S (S\<lparr>syMgr := m'\<rparr>)"
| close: "email_Close (syMgr S) = Some m' \<Longrightarrow> email_step v S (S\<lparr>syMgr := m'\<rparr>)"
| backfilled: "s < length (emSHeap (syMgr S)) \<Longrightarrow> i = esEmailID (subAt (syMgr S) s) \<Longrightarrow>
    backfill i s None None (Inr msgs) (syMgr S) = (errs, drops, m') \<Longrightarrow>
    email_step v S (S\<lparr>syMgr := m',
      syLost := (syLost S)(s := syLost S s @
        fst (offers (emLower (syMgr S)) (addressed i msgs) (subAt (syMgr S) s)))\<rparr>)"
| taken: "s < length (emSHeap (syMgr S)) \<Longrightarrow> take_message s (syMgr S) = (Some msg, m') \<Longrightarrow>
    email_step v S (S\<lparr>syMgr := m', syTaken := (syTaken S)(s := syTaken S s @ [msg])\<rparr>)"
| goroutine: "a < length (syPcs S) \<Longrightarrow> answers v S a ev (syPcs S ! a) \<Longrightarrow>
    serve now a ev (syPcs S ! a) (syMgr S) = (pc', errs, drops, m') \<Longrightarrow>
    email_step v S (S\<lparr>syMgr := m', syPcs := (syPcs S)[a := pc'],
      syFloor := lifted ev (syPcs S ! a) a S, syLost := dropped_in ev (syPcs S ! a) a S\<rparr>)"
| arrives: "syLast S i < msgUID msg \<Longrightarrow>
    email_step v S (S\<lparr>syBox := (syBox S)(i := syBox S i @ [msg]), syLast := (syLast S)(i := msgUID msg)\<rparr>)"
| expunged: "email_step v S (S\<lparr>syBox := (syBox S)(i := filter P (syBox S i))\<rparr>)"

text \<open>A manager just built, over a store whose cursors are the ones this program wrote.\<close>

definition cursors_written :: "(string \<Rightarrow> 32 word) \<Rightarrow> (string \<Rightarrow> 32 word) \<Rightarrow> ('s, 'w) emgr \<Rightarrow> bool" where
  "cursors_written v lasts m \<longleftrightarrow>
     (\<forall>i e ib. get (emInventory m) i = Some e \<longrightarrow> emInbox e = Some ib \<longrightarrow> ibUIDValidity ib = v i \<longrightarrow>
        ibLastUID ib \<le> lasts i)"

inductive email_reachable :: "(string \<Rightarrow> 32 word) \<Rightarrow> ('s, 'w) esys \<Rightarrow> bool" for v where
  boot: "email_NewManager lower repo opts st = (Inr m, st') \<Longrightarrow> set opts \<subseteq> {email_WithDropHandler, WithListenerErrorHandler} \<Longrightarrow>
    cursors_written v lasts m \<Longrightarrow> (\<And>i msg. msg \<in> set (boxes i) \<Longrightarrow> msgUID msg \<le> lasts i) \<Longrightarrow> (\<And>i. v i \<noteq> 0) \<Longrightarrow>
    email_reachable v \<lparr>syMgr = m, syPcs = [], syBox = boxes, syLast = lasts, syFloor = (\<lambda>_. 0),
      syTaken = (\<lambda>_. []), syLost = (\<lambda>_. [])\<rparr>"
| step: "email_reachable v S \<Longrightarrow> email_step v S S' \<Longrightarrow> email_reachable v S'"

end
