(* ===== verification/Email_Invariant.thy ===== *)
theory Email_Invariant
  imports Email_Listener
begin

text \<open>
  The shape of an email manager's state, kept by every operation: a listener is registered for an
  inbox exactly while somebody is subscribed to it, and a subscription is open exactly while it is in
  the listener of its inbox. With it, no channel is closed twice.
\<close>

section \<open>The invariant\<close>

definition listeners_ok :: "('s, 'w) emgr \<Rightarrow> bool" where
  "listeners_ok m \<longleftrightarrow> wf_map (emListeners m) \<and>
     (\<forall>i a. get (emListeners m) i = Some a \<longrightarrow>
        a < length (emLHeap m) \<and> lnEmailID (lnAt m a) = i \<and> \<not> lnStop (lnAt m a)
        \<and> lnSubs (lnAt m a) \<noteq> [] \<and> distinct (lnSubs (lnAt m a)))"

definition stopped_ok :: "('s, 'w) emgr \<Rightarrow> bool" where
  "stopped_ok m \<longleftrightarrow>
     (\<forall>a < length (emLHeap m). \<not> owns m a \<longrightarrow> lnStop (lnAt m a) \<and> lnSubs (lnAt m a) = [])"

definition subs_ok :: "('s, 'w) emgr \<Rightarrow> bool" where
  "subs_ok m \<longleftrightarrow>
     (\<forall>i a s. get (emListeners m) i = Some a \<longrightarrow> s \<in> set (lnSubs (lnAt m a)) \<longrightarrow>
        s < length (emSHeap m) \<and> esEmailID (subAt m s) = i \<and> \<not> esClosed (subAt m s)) \<and>
     (\<forall>s < length (emSHeap m). \<not> esClosed (subAt m s) \<longrightarrow>
        (\<exists>a. get (emListeners m) (esEmailID (subAt m s)) = Some a \<and> s \<in> set (lnSubs (lnAt m a))))"

definition inventory_ok :: "('s, 'w) emgr \<Rightarrow> bool" where
  "inventory_ok m \<longleftrightarrow>
     (\<forall>i e. get (emInventory m) i = Some e \<longrightarrow> emID e = i) \<and>
     (\<forall>i a. get (emListeners m) i = Some a \<longrightarrow> (\<exists>e. get (emInventory m) i = Some e \<and> emInbox e \<noteq> None))"

definition buffers_ok :: "('s, 'w) emgr \<Rightarrow> bool" where
  "buffers_ok m \<longleftrightarrow>
     (\<forall>s < length (emSHeap m). 1 \<le> esBuffer (subAt m s)
        \<and> int (length (esCh (subAt m s))) \<le> esBuffer (subAt m s))"

definition email_shape :: "('s, 'w) emgr \<Rightarrow> bool" where
  "email_shape m \<longleftrightarrow> listeners_ok m \<and> stopped_ok m \<and> subs_ok m \<and> inventory_ok m \<and> buffers_ok m"

definition email_inv :: "('s, 'w) emgr \<Rightarrow> bool" where
  "email_inv m \<longleftrightarrow> email_shape m \<and> (emClosed m \<longrightarrow> emListeners m = [])"

lemma email_shapeD:
  assumes "email_shape m"
  shows "wf_map (emListeners m)"
    "get (emListeners m) i = Some a \<Longrightarrow> a < length (emLHeap m)"
    "get (emListeners m) i = Some a \<Longrightarrow> lnEmailID (lnAt m a) = i"
    "get (emListeners m) i = Some a \<Longrightarrow> \<not> lnStop (lnAt m a)"
    "get (emListeners m) i = Some a \<Longrightarrow> lnSubs (lnAt m a) \<noteq> []"
    "get (emListeners m) i = Some a \<Longrightarrow> distinct (lnSubs (lnAt m a))"
    "a < length (emLHeap m) \<Longrightarrow> \<not> owns m a \<Longrightarrow> lnStop (lnAt m a)"
    "a < length (emLHeap m) \<Longrightarrow> \<not> owns m a \<Longrightarrow> lnSubs (lnAt m a) = []"
    "get (emListeners m) i = Some a \<Longrightarrow> s \<in> set (lnSubs (lnAt m a)) \<Longrightarrow> s < length (emSHeap m)"
    "get (emListeners m) i = Some a \<Longrightarrow> s \<in> set (lnSubs (lnAt m a)) \<Longrightarrow> esEmailID (subAt m s) = i"
    "get (emListeners m) i = Some a \<Longrightarrow> s \<in> set (lnSubs (lnAt m a)) \<Longrightarrow> \<not> esClosed (subAt m s)"
    "get (emInventory m) i = Some e \<Longrightarrow> emID e = i"
    "s < length (emSHeap m) \<Longrightarrow> 1 \<le> esBuffer (subAt m s)"
    "s < length (emSHeap m) \<Longrightarrow> int (length (esCh (subAt m s))) \<le> esBuffer (subAt m s)"
  using assms unfolding email_shape_def listeners_ok_def stopped_ok_def subs_ok_def inventory_ok_def buffers_ok_def
  by blast+

lemma open_attached:
  assumes "email_shape m" "s < length (emSHeap m)" "\<not> esClosed (subAt m s)"
  obtains a where "get (emListeners m) (esEmailID (subAt m s)) = Some a" "s \<in> set (lnSubs (lnAt m a))"
  using assms unfolding email_shape_def subs_ok_def by blast

lemma served_inbox:
  assumes "email_shape m" "get (emListeners m) i = Some a"
  obtains e ib where "get (emInventory m) i = Some e" "emInbox e = Some ib"
  using assms unfolding email_shape_def inventory_ok_def by blast

lemma owns_iff:
  "email_shape m \<Longrightarrow> owns m a \<longleftrightarrow> (\<exists>i. get (emListeners m) i = Some a)"
  by (auto simp: owns_def dest: email_shapeD(3))

lemma email_shapeI:
  assumes "wf_map (emListeners m)"
    "\<And>i a. get (emListeners m) i = Some a \<Longrightarrow> a < length (emLHeap m)"
    "\<And>i a. get (emListeners m) i = Some a \<Longrightarrow> lnEmailID (lnAt m a) = i"
    "\<And>i a. get (emListeners m) i = Some a \<Longrightarrow> \<not> lnStop (lnAt m a)"
    "\<And>i a. get (emListeners m) i = Some a \<Longrightarrow> lnSubs (lnAt m a) \<noteq> []"
    "\<And>i a. get (emListeners m) i = Some a \<Longrightarrow> distinct (lnSubs (lnAt m a))"
    "\<And>a. a < length (emLHeap m) \<Longrightarrow> \<not> owns m a \<Longrightarrow> lnStop (lnAt m a)"
    "\<And>a. a < length (emLHeap m) \<Longrightarrow> \<not> owns m a \<Longrightarrow> lnSubs (lnAt m a) = []"
    "\<And>i a s. get (emListeners m) i = Some a \<Longrightarrow> s \<in> set (lnSubs (lnAt m a)) \<Longrightarrow> s < length (emSHeap m)"
    "\<And>i a s. get (emListeners m) i = Some a \<Longrightarrow> s \<in> set (lnSubs (lnAt m a)) \<Longrightarrow> esEmailID (subAt m s) = i"
    "\<And>i a s. get (emListeners m) i = Some a \<Longrightarrow> s \<in> set (lnSubs (lnAt m a)) \<Longrightarrow> \<not> esClosed (subAt m s)"
    "\<And>s. s < length (emSHeap m) \<Longrightarrow> \<not> esClosed (subAt m s) \<Longrightarrow>
       \<exists>a. get (emListeners m) (esEmailID (subAt m s)) = Some a \<and> s \<in> set (lnSubs (lnAt m a))"
    "\<And>i e. get (emInventory m) i = Some e \<Longrightarrow> emID e = i"
    "\<And>i a. get (emListeners m) i = Some a \<Longrightarrow> \<exists>e. get (emInventory m) i = Some e \<and> emInbox e \<noteq> None"
    "\<And>s. s < length (emSHeap m) \<Longrightarrow> 1 \<le> esBuffer (subAt m s)"
    "\<And>s. s < length (emSHeap m) \<Longrightarrow> int (length (esCh (subAt m s))) \<le> esBuffer (subAt m s)"
  shows "email_shape m"
  unfolding email_shape_def listeners_ok_def stopped_ok_def subs_ok_def inventory_ok_def buffers_ok_def
  by (intro conjI allI impI) (rule assms; assumption)+

text \<open>Fields the shape does not look at.\<close>

lemma owns_frame [simp]:
  "owns (m\<lparr>emStore := x1\<rparr>) a = owns m a" "owns (m\<lparr>emSHeap := x2\<rparr>) a = owns m a"
  "owns (m\<lparr>emInventory := x3\<rparr>) a = owns m a" "owns (m\<lparr>emClosed := x4\<rparr>) a = owns m a"
  "owns (m\<lparr>emGuard := x5\<rparr>) a = owns m a"
  by (simp_all add: owns_def)

lemma email_shape_frame [simp]:
  "email_shape (m\<lparr>emStore := st\<rparr>) = email_shape m" "email_shape (m\<lparr>emClosed := c\<rparr>) = email_shape m"
  "email_shape (m\<lparr>emGuard := g\<rparr>) = email_shape m"
  by (simp_all add: email_shape_def listeners_ok_def stopped_ok_def subs_ok_def inventory_ok_def
      buffers_ok_def)

section \<open>Changes of the inventory and of subscriptions\<close>

lemma shape_inventory:
  assumes "email_shape m" "\<And>j e. get iv j = Some e \<Longrightarrow> emID e = j"
    "\<And>j a. get (emListeners m) j = Some a \<Longrightarrow> \<exists>e. get iv j = Some e \<and> emInbox e \<noteq> None"
  shows "email_shape (m\<lparr>emInventory := iv\<rparr>)"
  using assms by (simp add: email_shape_def listeners_ok_def stopped_ok_def subs_ok_def inventory_ok_def
      buffers_ok_def)

text \<open>A heap of subscriptions that differs in channels and counters only.\<close>

definition same_feeds :: "esub list \<Rightarrow> esub list \<Rightarrow> bool" where
  "same_feeds h h' \<longleftrightarrow> length h' = length h \<and>
     (\<forall>s < length h. esEmailID (h' ! s) = esEmailID (h ! s) \<and> esTaskID (h' ! s) = esTaskID (h ! s)
        \<and> esFrom (h' ! s) = esFrom (h ! s) \<and> esClosed (h' ! s) = esClosed (h ! s)
        \<and> esBuffer (h' ! s) = esBuffer (h ! s)
        \<and> (int (length (esCh (h ! s))) \<le> esBuffer (h ! s) \<longrightarrow>
             int (length (esCh (h' ! s))) \<le> esBuffer (h ! s)))"

lemma same_feeds_refl: "same_feeds h h"
  by (simp add: same_feeds_def)

lemma same_feeds_trans: "same_feeds h h1 \<Longrightarrow> same_feeds h1 h2 \<Longrightarrow> same_feeds h h2"
  by (auto simp: same_feeds_def)

lemma shape_feeds:
  assumes "email_shape m" "same_feeds (emSHeap m) h"
  shows "email_shape (m\<lparr>emSHeap := h\<rparr>)"
proof -
  have len: "length h = length (emSHeap m)" using assms(2) by (simp add: same_feeds_def)
  have eq: "esEmailID (h ! s) = esEmailID (subAt m s)" "esClosed (h ! s) = esClosed (subAt m s)"
    "esBuffer (h ! s) = esBuffer (subAt m s)" "int (length (esCh (h ! s))) \<le> esBuffer (subAt m s)"
    if "s < length (emSHeap m)" for s
    using assms(2) email_shapeD(14) [OF assms(1) that] that by (simp_all add: same_feeds_def)
  note d = email_shapeD [OF assms(1)]
  show ?thesis
  proof (rule email_shapeI)
    fix s
    assume "s < length (emSHeap (m\<lparr>emSHeap := h\<rparr>))" "\<not> esClosed (subAt (m\<lparr>emSHeap := h\<rparr>) s)"
    then have s: "s < length (emSHeap m)" "\<not> esClosed (subAt m s)" using len eq by simp_all
    obtain a where "get (emListeners m) (esEmailID (subAt m s)) = Some a" "s \<in> set (lnSubs (lnAt m a))"
      using assms(1) s by (rule open_attached)
    with eq(1) [OF s(1)]
    show "\<exists>a. get (emListeners (m\<lparr>emSHeap := h\<rparr>)) (esEmailID (subAt (m\<lparr>emSHeap := h\<rparr>) s)) = Some a
        \<and> s \<in> set (lnSubs (lnAt (m\<lparr>emSHeap := h\<rparr>) a))" by simp
  next
    fix i a
    assume "get (emListeners (m\<lparr>emSHeap := h\<rparr>)) i = Some a"
    then show "\<exists>e. get (emInventory (m\<lparr>emSHeap := h\<rparr>)) i = Some e \<and> emInbox e \<noteq> None"
      by (auto elim: served_inbox [OF assms(1)])
  qed (use d eq len in auto)
qed

lemma same_feeds_offer: "same_feeds h (h[s := snd (offer lower msg (h ! s))])"
proof (cases "s < length h")
  case True
  then show ?thesis
    by (auto simp: same_feeds_def nth_list_update offer_def Let_def)
next
  case False
  then show ?thesis by (simp add: same_feeds_def list_update_beyond)
qed

lemma same_feeds_offerAll:
  "offerAll lower msg ss (h, drops) = (h', drops') \<Longrightarrow> same_feeds h h'"
proof (induction ss arbitrary: h drops)
  case Nil
  then show ?case by (simp add: same_feeds_refl)
next
  case (Cons s ss)
  obtain d sub where o1: "offer lower msg (h ! s) = (d, sub)" by fastforce
  with Cons.prems have "offerAll lower msg ss (h[s := sub], drops @ (case d of None \<Rightarrow> [] | Some x \<Rightarrow> [x])) = (h', drops')"
    by simp
  from Cons.IH [OF this] have "same_feeds (h[s := sub]) h'" .
  moreover have "same_feeds h (h[s := sub])" using same_feeds_offer [of h s lower msg] o1 by simp
  ultimately show ?case by (rule same_feeds_trans [rotated])
qed

lemma same_feeds_fanoutLoop:
  "fanoutLoop lower i ss msgs mx (h, drops) = (mx', h', drops') \<Longrightarrow> same_feeds h h'"
proof (induction msgs arbitrary: mx h drops)
  case Nil
  then show ?case by (simp add: same_feeds_refl)
next
  case (Cons msg msgs)
  obtain h1 d1 where o1: "offerAll lower (msg\<lparr>msgEmailID := i\<rparr>) ss (h, drops) = (h1, d1)" by fastforce
  with Cons show ?case by (auto intro: same_feeds_trans [OF same_feeds_offerAll [OF o1]])
qed

lemma same_feeds_backfillLoop:
  "backfillLoop lower i s msgs (h, drops) = (h', drops') \<Longrightarrow> same_feeds h h'"
proof (induction msgs arbitrary: h drops)
  case Nil
  then show ?case by (simp add: same_feeds_refl)
next
  case (Cons msg msgs)
  obtain h1 d1 where o1: "offerAll lower (msg\<lparr>msgEmailID := i\<rparr>) [s] (h, drops) = (h1, d1)" by fastforce
  with Cons show ?case by (auto simp del: offerAll.simps intro: same_feeds_trans [OF same_feeds_offerAll [OF o1]])
qed

section \<open>Attaching and closing subscriptions\<close>

lemma lnSubs_same [simp]: "l\<lparr>lnSubs := lnSubs l\<rparr> = l"
  by (cases l) simp

lemma retire_closed [simp]: "esClosed (subAt m s) \<Longrightarrow> retire s m = m"
  by (simp add: retire_def)

text \<open>The states a Close of a subscription can end in.\<close>

definition closed_sub :: "nat \<Rightarrow> ('s, 'w) emgr \<Rightarrow> esub list" where
  "closed_sub s m = (emSHeap m)[s := (subAt m s)\<lparr>esClosed := True\<rparr>]"

lemma sub_Close_cases:
  assumes ok: "email_shape m" and s: "s < length (emSHeap m)"
  obtains (closed) "esClosed (subAt m s)" "sub_Close s m = Some m"
    | (left) a where "get (emListeners m) (esEmailID (subAt m s)) = Some a" "s \<in> set (lnSubs (lnAt m a))"
        "removeAll s (lnSubs (lnAt m a)) \<noteq> []"
        "sub_Close s m = Some (m\<lparr>emLHeap := (emLHeap m)[a := (lnAt m a)\<lparr>lnSubs := removeAll s (lnSubs (lnAt m a))\<rparr>],
           emSHeap := closed_sub s m\<rparr>)"
    | (last) a where "get (emListeners m) (esEmailID (subAt m s)) = Some a" "s \<in> set (lnSubs (lnAt m a))"
        "removeAll s (lnSubs (lnAt m a)) = []"
        "sub_Close s m = Some (m\<lparr>emLHeap := (emLHeap m)[a := (lnAt m a)\<lparr>lnSubs := [], lnStop := True\<rparr>],
           emSHeap := closed_sub s m, emListeners := del (esEmailID (subAt m s)) (emListeners m)\<rparr>)"
proof (cases "esClosed (subAt m s)")
  case True
  have "sub_Close s m = Some m"
  proof (cases "get (emListeners m) (esEmailID (subAt m s))")
    case None
    with True show ?thesis by (simp add: sub_Close_def)
  next
    case (Some a)
    have "s \<notin> set (lnSubs (lnAt m a))" using email_shapeD(11) [OF ok Some] True by blast
    then have "detach a s m = m" by (simp add: detach_def)
    with Some True email_shapeD(5) [OF ok Some] show ?thesis by (simp add: sub_Close_def)
  qed
  with True show ?thesis by (rule closed)
next
  case False
  obtain a where a: "get (emListeners m) (esEmailID (subAt m s)) = Some a" "s \<in> set (lnSubs (lnAt m a))"
    using ok s False by (rule open_attached)
  note al = email_shapeD(2) [OF ok a(1)] and st = email_shapeD(4) [OF ok a(1)]
  show ?thesis
  proof (cases "removeAll s (lnSubs (lnAt m a)) = []")
    case True
    show ?thesis
      by (rule last [OF a True]) (use a(1) al st True False in \<open>simp add: sub_Close_def detach_def closeStop_def
        retire_def closed_sub_def Let_def\<close>)
  next
    case nonempty: False
    show ?thesis
      by (rule left [OF a nonempty]) (use a(1) al nonempty False in \<open>simp add: sub_Close_def detach_def
        retire_def closed_sub_def Let_def\<close>)
  qed
qed

lemma sub_Close_shape:
  assumes ok: "email_shape m" and s: "s < length (emSHeap m)" and c: "sub_Close s m = Some m'"
  shows "email_shape m'"
  using ok s
proof (cases rule: sub_Close_cases)
  case closed
  with c ok show ?thesis by simp
next
  case (left a)
  note d = email_shapeD [OF ok]
  let ?i = "esEmailID (subAt m s)" and ?l = "(lnAt m a)\<lparr>lnSubs := removeAll s (lnSubs (lnAt m a))\<rparr>"
  have m': "m' = m\<lparr>emLHeap := (emLHeap m)[a := ?l], emSHeap := closed_sub s m\<rparr>" using c left(4) by simp
  have len: "length (closed_sub s m) = length (emSHeap m)" by (simp add: closed_sub_def)
  have sub: "closed_sub s m ! t = (if t = s then (subAt m s)\<lparr>esClosed := True\<rparr> else subAt m t)"
    if "t < length (emSHeap m)" for t
    using that by (simp add: closed_sub_def nth_list_update)
  have ln: "(emLHeap m)[a := ?l] ! b = (if b = a then ?l else lnAt m b)" for b
    using d(2) [OF left(1)] by (simp add: nth_list_update)
  have own: "owns m' b = owns m b" for b by (simp add: owns_def m' ln)
  have uniq: "i = ?i" if "get (emListeners m) i = Some a" for i
    using d(3) [OF that] d(3) [OF left(1)] by simp
  show ?thesis
  proof (rule email_shapeI)
    fix t
    assume t: "t < length (emSHeap m')" "\<not> esClosed (subAt m' t)"
    then have t': "t < length (emSHeap m)" "t \<noteq> s" "\<not> esClosed (subAt m t)"
      using sub [of t] len s by (auto simp: m' split: if_splits)
    obtain b where "get (emListeners m) (esEmailID (subAt m t)) = Some b" "t \<in> set (lnSubs (lnAt m b))"
      using ok t'(1,3) by (rule open_attached)
    then show "\<exists>b. get (emListeners m') (esEmailID (subAt m' t)) = Some b \<and> t \<in> set (lnSubs (lnAt m' b))"
      using t' sub [of t] by (auto simp: m' ln)
  next
    fix i b t
    assume b: "get (emListeners m') i = Some b" "t \<in> set (lnSubs (lnAt m' b))"
    then have b': "get (emListeners m) i = Some b" "t \<in> set (lnSubs (lnAt m b))" "t \<noteq> s \<or> b \<noteq> a"
      by (auto simp: m' ln split: if_splits)
    have ts: "t \<noteq> s" using b' d(10) [OF b'(1,2)] left(1) by auto
    note e = d(9) [OF b'(1,2)] d(10) [OF b'(1,2)] d(11) [OF b'(1,2)]
    show "t < length (emSHeap m')" using e len by (simp add: m')
    show "esEmailID (subAt m' t) = i" "\<not> esClosed (subAt m' t)" using e sub [OF e(1)] ts by (simp_all add: m')
  next
    fix i b
    assume "get (emListeners m') i = Some b"
    then show "\<exists>e. get (emInventory m') i = Some e \<and> emInbox e \<noteq> None"
      by (auto simp: m' elim: served_inbox [OF ok])
  qed (use d own len sub left(3) in \<open>auto simp: m' ln distinct_removeAll split: if_splits\<close>)
next
  case (last a)
  note d = email_shapeD [OF ok]
  let ?i = "esEmailID (subAt m s)" and ?l = "(lnAt m a)\<lparr>lnSubs := [], lnStop := True\<rparr>"
  have m': "m' = m\<lparr>emLHeap := (emLHeap m)[a := ?l], emSHeap := closed_sub s m, emListeners := del ?i (emListeners m)\<rparr>"
    using c last(4) by simp
  have len: "length (closed_sub s m) = length (emSHeap m)" by (simp add: closed_sub_def)
  have sub: "closed_sub s m ! t = (if t = s then (subAt m s)\<lparr>esClosed := True\<rparr> else subAt m t)"
    if "t < length (emSHeap m)" for t
    using that by (simp add: closed_sub_def nth_list_update)
  have ln: "(emLHeap m)[a := ?l] ! b = (if b = a then ?l else lnAt m b)" for b
    using d(2) [OF last(1)] by (simp add: nth_list_update)
  have only: "set (lnSubs (lnAt m a)) = {s}" using last(2) arg_cong [OF last(3), of set] by auto
  have uniq: "i = ?i" if "get (emListeners m) i = Some a" for i
    using d(3) [OF that] d(3) [OF last(1)] by simp
  have own: "owns m' b \<longleftrightarrow> owns m b \<and> b \<noteq> a" for b
    using last(1) d(3) [OF last(1)] by (auto simp: owns_def m' ln)
  show ?thesis
  proof (rule email_shapeI)
    fix t
    assume t: "t < length (emSHeap m')" "\<not> esClosed (subAt m' t)"
    then have t': "t < length (emSHeap m)" "t \<noteq> s" "\<not> esClosed (subAt m t)"
      using sub [of t] len s by (auto simp: m' split: if_splits)
    obtain b where b: "get (emListeners m) (esEmailID (subAt m t)) = Some b" "t \<in> set (lnSubs (lnAt m b))"
      using ok t'(1,3) by (rule open_attached)
    moreover from b only t' have "b \<noteq> a" by auto
    moreover from this b(1) last(1) have "esEmailID (subAt m t) \<noteq> ?i" by auto
    ultimately show "\<exists>b. get (emListeners m') (esEmailID (subAt m' t)) = Some b \<and> t \<in> set (lnSubs (lnAt m' b))"
      using t' sub [of t] by (auto simp: m' ln)
  next
    fix i b t
    assume b: "get (emListeners m') i = Some b" "t \<in> set (lnSubs (lnAt m' b))"
    then have b': "get (emListeners m) i = Some b" "t \<in> set (lnSubs (lnAt m b))" "i \<noteq> ?i"
      using last(1) by (auto simp: m' ln split: if_splits)
    note e = d(9) [OF b'(1,2)] d(10) [OF b'(1,2)] d(11) [OF b'(1,2)]
    have ts: "t \<noteq> s" using b'(3) e(2) by auto
    show "t < length (emSHeap m')" using e len by (simp add: m')
    show "esEmailID (subAt m' t) = i" "\<not> esClosed (subAt m' t)" using e sub [OF e(1)] ts by (simp_all add: m')
  next
    fix i b
    assume "get (emListeners m') i = Some b"
    then show "\<exists>e. get (emInventory m') i = Some e \<and> emInbox e \<noteq> None"
      by (auto simp: m' split: if_splits elim: served_inbox [OF ok])
  next
    fix i b
    assume "get (emListeners m') i = Some b"
    then have b: "get (emListeners m) i = Some b" "b \<noteq> a" using uniq by (auto simp: m' split: if_splits)
    show "b < length (emLHeap m')" "lnEmailID (lnAt m' b) = i" "\<not> lnStop (lnAt m' b)" "lnSubs (lnAt m' b) \<noteq> []"
      "distinct (lnSubs (lnAt m' b))"
      using d(2-6) [OF b(1)] b(2) by (simp_all add: m' ln)
  qed (use d own len sub in \<open>auto simp: m' ln split: if_splits\<close>)
qed

section \<open>Listening\<close>

lemma Listen_cases:
  assumes "Listen t i opts m = (res, m')"
  obtains (refused) e where "res = Inl e" "m' = m"
    | (joined) since e f b a where "res = Inr (length (emSHeap m), since)" "\<not> emClosed m" "1 \<le> b"
        "get (emInventory m) i = Some e" "emInbox e \<noteq> None" "get (emListeners m) i = Some a"
        "m' = attach a (length (emSHeap m)) (m\<lparr>emSHeap := emSHeap m @
           [\<lparr>esEmailID = i, esTaskID = t, esFrom = f, esBuffer = b, esCh = [], esDropped = 0, esClosed = False\<rparr>]\<rparr>)"
    | (started) since e f b where "res = Inr (length (emSHeap m), since)" "\<not> emClosed m" "1 \<le> b"
        "get (emInventory m) i = Some e" "emInbox e \<noteq> None" "get (emListeners m) i = None"
        "m' = attach (length (emLHeap m)) (length (emSHeap m)) (m\<lparr>emSHeap := emSHeap m @
           [\<lparr>esEmailID = i, esTaskID = t, esFrom = f, esBuffer = b, esCh = [], esDropped = 0, esClosed = False\<rparr>],
           emLHeap := emLHeap m @ [newListener e], emListeners := put i (length (emLHeap m)) (emListeners m)\<rparr>)"
proof -
  obtain cfg where cfg: "cfg = fold (\<lambda>opt c. opt c) opts \<lparr>lcFrom = [], lcBuffer = 64, lcBackfill = 0\<rparr>" by simp
  note unf = Listen_def cfg [symmetric] Let_def
  consider (bad) "t = [] \<or> lcBuffer cfg < 1 \<or> emClosed m \<or> get (emInventory m) i = None"
    | (noinbox) e where "t \<noteq> []" "1 \<le> lcBuffer cfg" "\<not> emClosed m" "get (emInventory m) i = Some e" "emInbox e = None"
    | (ok) e where "t \<noteq> []" "1 \<le> lcBuffer cfg" "\<not> emClosed m" "get (emInventory m) i = Some e" "emInbox e \<noteq> None"
    by force
  then show ?thesis
  proof cases
    case bad
    with assms have "\<exists>e. res = Inl e \<and> m' = m" by (auto simp: unf split: if_splits option.splits)
    then show ?thesis using refused by blast
  next
    case (noinbox e)
    with assms have "res = Inl (ErrNoInbox i (emAddress e))" "m' = m" by (auto simp: unf)
    then show ?thesis by (rule refused)
  next
    case (ok e)
    show ?thesis
    proof (cases "get (emListeners m) i")
      case None
      with ok assms show ?thesis by (intro started [of "lcBackfill cfg" "lcBuffer cfg" e "lcFrom cfg"]) (auto simp: unf)
    next
      case (Some a)
      with ok assms show ?thesis by (intro joined [of "lcBackfill cfg" "lcBuffer cfg" e a "lcFrom cfg"]) (auto simp: unf)
    qed
  qed
qed

lemma joined_shape:
  assumes ok: "email_shape m" and a: "get (emListeners m) (esEmailID n) = Some a"
    and n: "\<not> esClosed n" "1 \<le> esBuffer n" "esCh n = []"
  shows "email_shape (attach a (length (emSHeap m)) (m\<lparr>emSHeap := emSHeap m @ [n]\<rparr>))"
proof -
  note d = email_shapeD [OF ok]
  let ?s = "length (emSHeap m)" and ?l = "(lnAt m a)\<lparr>lnSubs := lnSubs (lnAt m a) @ [length (emSHeap m)]\<rparr>"
  define m' where "m' = m\<lparr>emSHeap := emSHeap m @ [n], emLHeap := (emLHeap m)[a := ?l]\<rparr>"
  have ln: "(emLHeap m)[a := ?l] ! b = (if b = a then ?l else lnAt m b)" for b
    using d(2) [OF a] by (simp add: nth_list_update)
  have sub: "(emSHeap m @ [n]) ! s = (if s = ?s then n else subAt m s)" if "s < Suc ?s" for s
    using that by (simp add: nth_append)
  have own: "owns m' b = owns m b" for b by (simp add: owns_def m'_def ln)
  have fresh: "?s \<notin> set (lnSubs (lnAt m b))" if "get (emListeners m) i = Some b" for i b
    using d(9) [OF that] by blast
  have uniq: "i = esEmailID n" if "get (emListeners m) i = Some a" for i
    using d(3) [OF that] d(3) [OF a] by simp
  have "email_shape m'"
  proof (rule email_shapeI)
    fix s
    assume s: "s < length (emSHeap m')" "\<not> esClosed (subAt m' s)"
    show "\<exists>b. get (emListeners m') (esEmailID (subAt m' s)) = Some b \<and> s \<in> set (lnSubs (lnAt m' b))"
    proof (cases "s = ?s")
      case True
      then show ?thesis using a by (simp add: m'_def ln)
    next
      case False
      with s have s': "s < ?s" "\<not> esClosed (subAt m s)" using sub [of s] by (simp_all add: m'_def)
      obtain b where "get (emListeners m) (esEmailID (subAt m s)) = Some b" "s \<in> set (lnSubs (lnAt m b))"
        using ok s' by (rule open_attached)
      then show ?thesis using sub [of s] s' by (auto simp: m'_def ln)
    qed
  next
    fix i b s
    assume b: "get (emListeners m') i = Some b" "s \<in> set (lnSubs (lnAt m' b))"
    then have b0: "get (emListeners m) i = Some b" by (simp add: m'_def)
    from b(2) consider "s = ?s" "b = a" | "s \<in> set (lnSubs (lnAt m b))" by (auto simp: m'_def ln split: if_splits)
    then have "s < Suc ?s \<and> esEmailID (if s = ?s then n else subAt m s) = i
        \<and> \<not> esClosed (if s = ?s then n else subAt m s)"
    proof cases
      case 1
      then show ?thesis using uniq b0 n(1) by simp
    next
      case 2
      then show ?thesis using d(9-11) [OF b0 2] by auto
    qed
    then show "s < length (emSHeap m')" "esEmailID (subAt m' s) = i" "\<not> esClosed (subAt m' s)"
      using sub [of s] by (simp_all add: m'_def)
  next
    fix i b
    assume "get (emListeners m') i = Some b"
    then show "\<exists>e. get (emInventory m') i = Some e \<and> emInbox e \<noteq> None"
      by (auto simp: m'_def elim: served_inbox [OF ok])
  next
    fix b assume "b < length (emLHeap m')" "\<not> owns m' b"
    then have b: "b < length (emLHeap m)" "\<not> owns m b" using own by (simp_all add: m'_def)
    have "b \<noteq> a" using b(2) a by (auto simp: owns_iff [OF ok])
    then show "lnStop (lnAt m' b)" "lnSubs (lnAt m' b) = []" using d(7,8) [OF b] by (simp_all add: m'_def ln)
  next
    fix s assume "s < length (emSHeap m')"
    then have s: "s < Suc ?s" by (simp add: m'_def)
    show "1 \<le> esBuffer (subAt m' s)" "int (length (esCh (subAt m' s))) \<le> esBuffer (subAt m' s)"
      using sub [OF s] s n d(13,14) [of s] by (auto simp: m'_def)
  qed (use d fresh in \<open>auto simp: m'_def ln split: if_splits\<close>)
  then show ?thesis by (simp add: attach_def m'_def)
qed

lemma started_shape:
  assumes ok: "email_shape m" and a: "get (emListeners m) (emID e) = None"
    and e: "get (emInventory m) (emID e) = Some e" "emInbox e \<noteq> None"
    and n: "\<not> esClosed n" "1 \<le> esBuffer n" "esCh n = []" "esEmailID n = emID e"
  shows "email_shape (attach (length (emLHeap m)) (length (emSHeap m)) (m\<lparr>emSHeap := emSHeap m @ [n],
    emLHeap := emLHeap m @ [newListener e], emListeners := put (emID e) (length (emLHeap m)) (emListeners m)\<rparr>))"
proof -
  note d = email_shapeD [OF ok]
  let ?s = "length (emSHeap m)" and ?a = "length (emLHeap m)"
    and ?l = "\<lparr>lnEmailID = emID e, lnEmail = e, lnSubs = [length (emSHeap m)], lnStop = False\<rparr>"
  define m' where "m' = m\<lparr>emSHeap := emSHeap m @ [n], emListeners := put (emID e) ?a (emListeners m),
    emLHeap := emLHeap m @ [?l]\<rparr>"
  have ln: "(emLHeap m @ [?l]) ! b = (if b = ?a then ?l else lnAt m b)" if "b < Suc ?a" for b
    using that by (simp add: nth_append)
  have sub: "(emSHeap m @ [n]) ! s = (if s = ?s then n else subAt m s)" if "s < Suc ?s" for s
    using that by (simp add: nth_append)
  have far: "b < ?a" "i \<noteq> emID e" if "get (emListeners m) i = Some b" for i b
    using d(2) [OF that] that a by auto
  have was: "i = emID e \<and> b = ?a \<or> get (emListeners m) i = Some b \<and> b < ?a \<and> i \<noteq> emID e"
    if "get (emListeners m') i = Some b" for i b
    using that far by (auto simp: m'_def split: if_splits)
  have own': "owns m' b" if "owns m b" "b < ?a" for b
    using that ln [of b] a by (auto simp: owns_def m'_def)
  have "email_shape m'"
  proof (rule email_shapeI)
    fix s
    assume s: "s < length (emSHeap m')" "\<not> esClosed (subAt m' s)"
    show "\<exists>b. get (emListeners m') (esEmailID (subAt m' s)) = Some b \<and> s \<in> set (lnSubs (lnAt m' b))"
    proof (cases "s = ?s")
      case True
      then show ?thesis using n(4) by (simp add: m'_def)
    next
      case False
      with s have s': "s < ?s" "\<not> esClosed (subAt m s)" using sub [of s] by (simp_all add: m'_def)
      obtain b where b: "get (emListeners m) (esEmailID (subAt m s)) = Some b" "s \<in> set (lnSubs (lnAt m b))"
        using ok s' by (rule open_attached)
      then show ?thesis using sub [of s] s' ln [of b] far [OF b(1)] by (auto simp: m'_def)
    qed
  next
    fix i b s
    assume b: "get (emListeners m') i = Some b" "s \<in> set (lnSubs (lnAt m' b))"
    from was [OF b(1)] have "s < Suc ?s \<and> esEmailID (if s = ?s then n else subAt m s) = i
        \<and> \<not> esClosed (if s = ?s then n else subAt m s)"
    proof
      assume "i = emID e \<and> b = ?a"
      then show ?thesis using b(2) n by (simp add: m'_def)
    next
      assume b0: "get (emListeners m) i = Some b \<and> b < ?a \<and> i \<noteq> emID e"
      then have "s \<in> set (lnSubs (lnAt m b))" using b(2) ln [of b] by (simp add: m'_def)
      then show ?thesis using d(9-11) [OF conjunct1 [OF b0]] by (auto simp: less_Suc_eq)
    qed
    then show "s < length (emSHeap m')" "esEmailID (subAt m' s) = i" "\<not> esClosed (subAt m' s)"
      using sub [of s] by (simp_all add: m'_def)
  next
    fix i b
    assume b: "get (emListeners m') i = Some b"
    from was [OF b] show "\<exists>e. get (emInventory m') i = Some e \<and> emInbox e \<noteq> None"
      using e by (auto simp: m'_def elim: served_inbox [OF ok])
    from was [OF b] ln [of b] d(2-6) [of i b]
    show "b < length (emLHeap m')" "lnEmailID (lnAt m' b) = i" "\<not> lnStop (lnAt m' b)" "lnSubs (lnAt m' b) \<noteq> []"
      "distinct (lnSubs (lnAt m' b))" by (auto simp: m'_def)
  next
    fix b assume b: "b < length (emLHeap m')" "\<not> owns m' b"
    have "b \<noteq> ?a" using b(2) by (auto simp: owns_def m'_def)
    with b(1) have b': "b < ?a" by (simp add: m'_def)
    with b(2) own' have "\<not> owns m b" by blast
    with d(7,8) [OF b'] ln [of b] b' show "lnStop (lnAt m' b)" "lnSubs (lnAt m' b) = []" by (simp_all add: m'_def)
  next
    fix s assume "s < length (emSHeap m')"
    then have s: "s < Suc ?s" by (simp add: m'_def)
    show "1 \<le> esBuffer (subAt m' s)" "int (length (esCh (subAt m' s))) \<le> esBuffer (subAt m' s)"
      using sub [OF s] s n d(13,14) [of s] by (auto simp: m'_def less_Suc_eq)
  next
    show "wf_map (emListeners m')" using d(1) by (simp add: m'_def)
  qed (use d in \<open>simp add: m'_def\<close>)
  then show ?thesis by (simp add: attach_def m'_def newListener_def)
qed

lemma Listen_shape:
  assumes ok: "email_shape m" and run: "Listen t i opts m = (res, m')"
  shows "email_shape m'"
  using run
proof (cases rule: Listen_cases)
  case refused
  with ok show ?thesis by simp
next
  case (joined since e f b a)
  show ?thesis unfolding joined(7) by (rule joined_shape [OF ok]) (use joined in simp_all)
next
  case (started since e f b)
  have i: "emID e = i" using email_shapeD(12) [OF ok started(4)] .
  show ?thesis unfolding started(7)
    using started_shape [OF ok, of e "\<lparr>esEmailID = i, esTaskID = t, esFrom = f, esBuffer = b, esCh = [], esDropped = 0, esClosed = False\<rparr>"]
      started(3-6) i by simp
qed

section \<open>Closing the manager\<close>

lemma fold_retire:
  assumes "\<And>s. s \<in> set ss \<Longrightarrow> s < length (emSHeap m)"
  obtains h where "fold retire ss m = m\<lparr>emSHeap := h\<rparr>" "length h = length (emSHeap m)"
    "\<And>s. s < length h \<Longrightarrow> h ! s = (if s \<in> set ss then (subAt m s)\<lparr>esClosed := True\<rparr> else subAt m s)"
proof -
  have "\<exists>h. fold retire ss m = m\<lparr>emSHeap := h\<rparr> \<and> length h = length (emSHeap m) \<and>
    (\<forall>s < length h. h ! s = (if s \<in> set ss then (subAt m s)\<lparr>esClosed := True\<rparr> else subAt m s))"
    using assms
  proof (induction ss arbitrary: m)
    case Nil
    show ?case by (rule exI [of _ "emSHeap m"]) simp
  next
    case (Cons s ss)
    have same: "c\<lparr>esClosed := True\<rparr> = c" if "esClosed c" for c :: esub using that by (cases c) simp
    have "retire s m = m\<lparr>emSHeap := (emSHeap m)[s := (subAt m s)\<lparr>esClosed := True\<rparr>]\<rparr>"
      by (simp add: retire_def same)
    moreover obtain h where "fold retire ss (m\<lparr>emSHeap := (emSHeap m)[s := (subAt m s)\<lparr>esClosed := True\<rparr>]\<rparr>)
        = m\<lparr>emSHeap := h\<rparr>" "length h = length (emSHeap m)"
      "\<forall>t < length h. h ! t = (if t \<in> set ss then ((emSHeap m)[s := (subAt m s)\<lparr>esClosed := True\<rparr>] ! t)\<lparr>esClosed := True\<rparr>
         else (emSHeap m)[s := (subAt m s)\<lparr>esClosed := True\<rparr>] ! t)"
      using Cons.IH [of "m\<lparr>emSHeap := (emSHeap m)[s := (subAt m s)\<lparr>esClosed := True\<rparr>]\<rparr>"] Cons.prems by auto
    moreover have "(subAt m s)\<lparr>esClosed := True, esClosed := True\<rparr> = (subAt m s)\<lparr>esClosed := True\<rparr>" by simp
    ultimately show ?case using Cons.prems by (intro exI [of _ h]) (auto simp: nth_list_update)
  qed
  then show ?thesis using that by blast
qed

lemma closeListeners_shape:
  assumes "email_shape m" "emListeners m = ls"
  shows "\<exists>m'. closeListeners ls m = Some m' \<and> email_shape m' \<and> emListeners m' = [] \<and> emClosed m' = emClosed m
    \<and> length (emLHeap m') = length (emLHeap m) \<and> length (emSHeap m') = length (emSHeap m)
    \<and> emInventory m' = emInventory m \<and> emLower m' = emLower m
    \<and> (\<forall>b < length (emLHeap m). lnEmailID (lnAt m' b) = lnEmailID (lnAt m b))"
  using assms
proof (induction ls arbitrary: m)
  case Nil
  then show ?case by simp
next
  case (Cons ia ls)
  obtain i a where ia: "ia = (i, a)" by (cases ia)
  note ok = Cons.prems(1) and eq = Cons.prems(2) [unfolded ia]
  note d = email_shapeD [OF ok]
  have a: "get (emListeners m) i = Some a" using eq by simp
  have ls: "del i (emListeners m) = ls"
    using d(1) eq by (simp add: del_no_key image_iff)
  let ?l = "(lnAt m a)\<lparr>lnStop := True, lnSubs := []\<rparr>"
  define m1 where "m1 = m\<lparr>emLHeap := (emLHeap m)[a := (lnAt m a)\<lparr>lnStop := True\<rparr>]\<rparr>"
  obtain h where h1: "fold retire (lnSubs (lnAt m a)) m1 = m1\<lparr>emSHeap := h\<rparr>" "length h = length (emSHeap m1)"
    "\<And>s. s < length h \<Longrightarrow> h ! s = (if s \<in> set (lnSubs (lnAt m a)) then (subAt m1 s)\<lparr>esClosed := True\<rparr> else subAt m1 s)"
    by (rule fold_retire [of "lnSubs (lnAt m a)" m1]) (use d(9) [OF a] in \<open>simp_all add: m1_def\<close>)
  have h: "length h = length (emSHeap m)"
    "\<And>s. s < length h \<Longrightarrow> h ! s = (if s \<in> set (lnSubs (lnAt m a)) then (subAt m s)\<lparr>esClosed := True\<rparr> else subAt m s)"
    using h1 by (simp_all add: m1_def)
  define m3 where "m3 = m\<lparr>emSHeap := h, emLHeap := (emLHeap m)[a := ?l], emListeners := ls\<rparr>"
  have run: "closeListeners ((i, a) # ls) m = closeListeners ls m3"
    using d(2) [OF a] d(4) [OF a] h1(1) ls by (simp add: closeStop_def m3_def m1_def Let_def)
  have ln: "(emLHeap m)[a := ?l] ! b = (if b = a then ?l else lnAt m b)" for b
    using d(2) [OF a] by (simp add: nth_list_update)
  have was: "get (emListeners m) j = Some b \<and> j \<noteq> i \<and> b \<noteq> a" if "get ls j = Some b" for j b
  proof -
    have "get (emListeners m) j = Some b" "j \<noteq> i" using that unfolding ls [symmetric] by (auto split: if_splits)
    moreover from this d(3) [OF a] d(3) have "b \<noteq> a" by blast
    ultimately show ?thesis by simp
  qed
  have now: "get ls j = Some b" if "get (emListeners m) j = Some b" "j \<noteq> i" for j b
    using that unfolding ls [symmetric] by simp
  have own: "owns m3 b \<longleftrightarrow> owns m b \<and> b \<noteq> a" for b
  proof
    assume "owns m3 b"
    then have "get ls (lnEmailID (lnAt m3 b)) = Some b" by (simp add: owns_def m3_def)
    from was [OF this] show "owns m b \<and> b \<noteq> a" by (auto simp: owns_iff [OF ok])
  next
    assume b: "owns m b \<and> b \<noteq> a"
    then obtain j where j: "get (emListeners m) j = Some b" by (auto simp: owns_iff [OF ok])
    with a b have "j \<noteq> i" by auto
    from now [OF j this] d(3) [OF j] b show "owns m3 b" by (simp add: owns_def m3_def ln)
  qed
  have "email_shape m3"
  proof (rule email_shapeI)
    fix s assume s: "s < length (emSHeap m3)" "\<not> esClosed (subAt m3 s)"
    then have s': "s < length (emSHeap m)" "s \<notin> set (lnSubs (lnAt m a))" "\<not> esClosed (subAt m s)"
      using h by (auto simp: m3_def split: if_splits)
    obtain b where b: "get (emListeners m) (esEmailID (subAt m s)) = Some b" "s \<in> set (lnSubs (lnAt m b))"
      using ok s'(1,3) by (rule open_attached)
    with s' have "b \<noteq> a" by blast
    moreover from this b(1) a have "esEmailID (subAt m s) \<noteq> i" by auto
    ultimately show "\<exists>b. get (emListeners m3) (esEmailID (subAt m3 s)) = Some b \<and> s \<in> set (lnSubs (lnAt m3 b))"
      using b s' h now [OF b(1)] by (auto simp: m3_def ln)
  next
    fix j b s assume "get (emListeners m3) j = Some b" and sb: "s \<in> set (lnSubs (lnAt m3 b))"
    then have b: "get (emListeners m) j = Some b" "j \<noteq> i" "b \<noteq> a" using was by (auto simp: m3_def)
    then have s: "s \<in> set (lnSubs (lnAt m b))" using sb by (simp add: m3_def ln)
    note e = d(9) [OF b(1) s] d(10) [OF b(1) s] d(11) [OF b(1) s]
    have "s \<notin> set (lnSubs (lnAt m a))" using e(2) b(2) d(10) [OF a] by blast
    then show "s < length (emSHeap m3)" "esEmailID (subAt m3 s) = j" "\<not> esClosed (subAt m3 s)"
      using e h by (simp_all add: m3_def)
  next
    fix j b assume "get (emListeners m3) j = Some b"
    then have b: "get (emListeners m) j = Some b" "j \<noteq> i" "b \<noteq> a" using was by (auto simp: m3_def)
    show "b < length (emLHeap m3)" "lnEmailID (lnAt m3 b) = j" "\<not> lnStop (lnAt m3 b)" "lnSubs (lnAt m3 b) \<noteq> []"
      "distinct (lnSubs (lnAt m3 b))"
      using d(2-6) [OF b(1)] b(3) by (simp_all add: m3_def ln)
    show "\<exists>e. get (emInventory m3) j = Some e \<and> emInbox e \<noteq> None"
      using b(1) by (auto simp: m3_def elim: served_inbox [OF ok])
  next
    fix b assume "b < length (emLHeap m3)" "\<not> owns m3 b"
    then show "lnStop (lnAt m3 b)" "lnSubs (lnAt m3 b) = []"
      using own [of b] d(7,8) [of b] by (auto simp: m3_def ln)
  next
    fix s assume "s < length (emSHeap m3)"
    then show "1 \<le> esBuffer (subAt m3 s)" "int (length (esCh (subAt m3 s))) \<le> esBuffer (subAt m3 s)"
      using d(13,14) [of s] h by (simp_all add: m3_def)
  next
    show "wf_map (emListeners m3)" using d(1) eq by (simp add: m3_def)
  qed (use d(12) in \<open>simp add: m3_def\<close>)
  from Cons.IH [OF this] obtain m' where m': "closeListeners ls m3 = Some m'" "email_shape m'" "emListeners m' = []"
    "emClosed m' = emClosed m3" "length (emLHeap m') = length (emLHeap m3)" "length (emSHeap m') = length (emSHeap m3)"
    "emInventory m' = emInventory m3" "emLower m' = emLower m3"
    "\<forall>b < length (emLHeap m3). lnEmailID (lnAt m' b) = lnEmailID (lnAt m3 b)"
    by (auto simp: m3_def)
  then show ?case unfolding ia run using h(1) by (intro exI [of _ m']) (auto simp: m3_def ln)
qed

section \<open>Every operation keeps the invariant\<close>

lemma email_inv_shape: "email_inv m \<Longrightarrow> email_shape m"
  by (simp add: email_inv_def)

lemma email_Add_inv:
  assumes inv: "email_inv m" and run: "email_Add now e m = (err, m')"
  shows "email_inv m'" "err \<noteq> None \<Longrightarrow> \<exists>st. m' = m\<lparr>emStore := st\<rparr>"
    "err = None \<Longrightarrow> get (emInventory m) (emID e) = None \<and> (\<exists>st. m' = m\<lparr>emStore := st,
       emInventory := put (emID e) (e\<lparr>emCreatedAt := now, emUpdatedAt := now\<rparr>) (emInventory m)\<rparr>)"
proof -
  note ok = email_inv_shape [OF inv]
  have same: "\<exists>st. m = m\<lparr>emStore := st\<rparr>" by (rule exI [of _ "emStore m"]) simp
  have "(\<exists>st. m' = m\<lparr>emStore := st\<rparr>) \<and> err \<noteq> None \<or> err = None \<and> get (emInventory m) (emID e) = None \<and> (\<exists>st. m' = m\<lparr>emStore := st,
       emInventory := put (emID e) (e\<lparr>emCreatedAt := now, emUpdatedAt := now\<rparr>) (emInventory m)\<rparr>)"
  proof (cases "emID e = [] \<or> emAddress e = [] \<or> get (emInventory m) (emID e) \<noteq> None
      \<or> (case emInbox e of None \<Rightarrow> None | Some ib \<Rightarrow> validateInbox ib) \<noteq> None")
    case True
    with run have "m' = m" "err \<noteq> None"
      by (auto simp: email_Add_def split: if_splits)
    then show ?thesis using same by simp
  next
    case False
    with run show ?thesis
      by (auto simp: email_Add_def Let_def split: prod.splits option.splits)
  qed
  moreover have "email_inv (m\<lparr>emStore := st,
       emInventory := put (emID e) (e\<lparr>emCreatedAt := now, emUpdatedAt := now\<rparr>) (emInventory m)\<rparr>)"
    if "get (emInventory m) (emID e) = None" for st
  proof -
    have "\<exists>e'. get (put (emID e) (e\<lparr>emCreatedAt := now, emUpdatedAt := now\<rparr>) (emInventory m)) j = Some e' \<and> emInbox e' \<noteq> None"
      if j: "get (emListeners m) j = Some a" for j a
      using ok j
    proof (rule served_inbox)
      fix e0 ib assume "get (emInventory m) j = Some e0" "emInbox e0 = Some ib"
      with \<open>get (emInventory m) (emID e) = None\<close> show ?thesis by auto
    qed
    then have "email_shape (m\<lparr>emStore := st, emInventory := put (emID e) (e\<lparr>emCreatedAt := now, emUpdatedAt := now\<rparr>) (emInventory m)\<rparr>)"
      using ok email_shapeD(12) [OF ok] by (intro shape_inventory) (auto split: if_splits)
    with inv show ?thesis by (simp add: email_inv_def)
  qed
  ultimately show "email_inv m'" "err \<noteq> None \<Longrightarrow> \<exists>st. m' = m\<lparr>emStore := st\<rparr>"
    "err = None \<Longrightarrow> get (emInventory m) (emID e) = None \<and> (\<exists>st. m' = m\<lparr>emStore := st,
       emInventory := put (emID e) (e\<lparr>emCreatedAt := now, emUpdatedAt := now\<rparr>) (emInventory m)\<rparr>)"
    using inv ok by (auto simp: email_inv_def)
qed

text \<open>Nobody listens to an email that can be deleted.\<close>

lemma listened_tasks:
  assumes "email_shape m" "get (emListeners m) i = Some a"
  shows "listener_taskIDs m (lnAt m a) \<noteq> []"
proof -
  obtain s ss where "lnSubs (lnAt m a) = s # ss" using email_shapeD(5) [OF assms] by (cases "lnSubs (lnAt m a)") auto
  then have "esTaskID (subAt m s) \<in> set (listener_taskIDs m (lnAt m a))" by (simp add: listener_taskIDs_def)
  then show ?thesis by auto
qed

lemma email_Delete_cases:
  assumes "email_Delete w i m = ((stranded, err), m')"
  obtains (unknown) st where "get (emInventory m) i = None" "m' = m\<lparr>emStore := st\<rparr>" "stranded = []"
    | (listened) a where "get (emListeners m) i = Some a" "err = Some (EmListenedTo i (listener_taskIDs m (lnAt m a)))"
        "m' = m" "stranded = []"
    | (forwarded) guard held locked where "emGuard m = Some guard" "guard w i = (held, locked)" "held \<noteq> []"
        "err = Some (EmForwardedTo i (sort held))" "m' = m" "stranded = []"
    | (failed) e st where "err = Some (EmDelete i e)" "m' = m\<lparr>emStore := st\<rparr>" "stranded = []"
    | (deleted) st where "get (emInventory m) i \<noteq> None"
        "case get (emListeners m) i of None \<Rightarrow> True | Some a \<Rightarrow> listener_taskIDs m (lnAt m a) = []"
        "case emGuard m of None \<Rightarrow> stranded = [] | Some guard \<Rightarrow> fst (guard w i) = [] \<and> stranded = sort (snd (guard w i))"
        "erDelete (emRepo m) i (emStore m) = (None, st)" "err = None"
        "m' = m\<lparr>emStore := st, emInventory := del i (emInventory m)\<rparr>"
proof (cases "get (emInventory m) i")
  case None
  obtain de st where "erDelete (emRepo m) i (emStore m) = (de, st)" by fastforce
  with None assms show ?thesis by (intro unknown [of st]) (auto simp: email_Delete_def)
next
  case (Some e)
  let ?tasks = "case get (emListeners m) i of None \<Rightarrow> [] | Some a \<Rightarrow> listener_taskIDs m (lnAt m a)"
  obtain held locked where g: "(case emGuard m of None \<Rightarrow> ([], []) | Some guard \<Rightarrow> guard w i) = (held, locked)" by fastforce
  obtain de st where d: "erDelete (emRepo m) i (emStore m) = (de, st)" by fastforce
  consider (a) "?tasks \<noteq> []" | (b) "?tasks = []" "held \<noteq> []" | (c) x where "?tasks = []" "held = []" "de = Some x"
    | (d) "?tasks = []" "held = []" "de = None" by (cases de) auto
  then show ?thesis
  proof cases
    case a
    then obtain ad where "get (emListeners m) i = Some ad" by (cases "get (emListeners m) i") auto
    with a Some assms show ?thesis by (intro listened [of ad]) (auto simp: email_Delete_def Let_def)
  next
    case b
    then obtain guard where "emGuard m = Some guard" using g by (cases "emGuard m") auto
    with b g Some assms show ?thesis by (intro forwarded [of guard held locked]) (auto simp: email_Delete_def Let_def)
  next
    case c
    with g d Some assms show ?thesis by (intro failed [of x st]) (auto simp: email_Delete_def Let_def)
  next
    case d2: d
    have "m' = m\<lparr>emStore := st, emInventory := del i (emInventory m)\<rparr>" "err = None" "stranded = sort locked"
      using d2 g d Some assms by (auto simp: email_Delete_def Let_def)
    then show ?thesis using d2 g d Some
      by (intro deleted [of st]) (auto split: option.splits)
  qed
qed

lemma email_Delete_inv:
  assumes inv: "email_inv m" and run: "email_Delete w i m = ((stranded, err), m')"
  shows "email_inv m'"
  using run
proof (cases rule: email_Delete_cases)
  case (deleted st)
  note ok = email_inv_shape [OF inv]
  have none: "get (emListeners m) i = None"
    using deleted(2) listened_tasks [OF ok] by (auto split: option.splits)
  have "\<exists>e'. get (del i (emInventory m)) j = Some e' \<and> emInbox e' \<noteq> None" if "get (emListeners m) j = Some a" for j a
    using ok that by (rule served_inbox) (use that none in auto)
  then have "email_shape (m\<lparr>emStore := st, emInventory := del i (emInventory m)\<rparr>)"
    using ok email_shapeD(12) [OF ok] by (intro shape_inventory) (auto split: if_splits)
  then show ?thesis using inv deleted(6) by (simp add: email_inv_def)
qed (use inv in \<open>simp_all add: email_inv_def\<close>)

lemma Listen_inv: "email_inv m \<Longrightarrow> Listen t i opts m = (res, m') \<Longrightarrow> email_inv m'"
  using Listen_shape [of m t i opts res m']
  by (auto simp: email_inv_def attach_def elim!: Listen_cases)

lemma sub_Close_inv:
  assumes "email_inv m" "s < length (emSHeap m)" "sub_Close s m = Some m'"
  shows "email_inv m'"
proof -
  have "emClosed m' \<longrightarrow> emListeners m' = []"
    using email_inv_shape [OF assms(1)] assms(2)
    by (cases rule: sub_Close_cases) (use assms(1,3) in \<open>auto simp: email_inv_def\<close>)
  with sub_Close_shape [OF email_inv_shape [OF assms(1)] assms(2,3)] show ?thesis by (simp add: email_inv_def)
qed

lemma Close_runs:
  assumes "email_inv m"
  obtains m' where "email_Close m = Some m'" "email_inv m'" "emListeners m' = []" "emClosed m'"
    "length (emLHeap m') = length (emLHeap m)" "length (emSHeap m') = length (emSHeap m)"
    "emInventory m' = emInventory m" "emLower m' = emLower m"
    "\<And>b. b < length (emLHeap m) \<Longrightarrow> lnEmailID (lnAt m' b) = lnEmailID (lnAt m b)"
  using closeListeners_shape [of "m\<lparr>emClosed := True\<rparr>" "emListeners m"] email_inv_shape [OF assms]
  by (auto simp: email_Close_def email_inv_def)

lemma fanout_cases:
  assumes "fanout a msgs m = ((mx, owned), drops, m')"
  obtains (lost) "\<not> owned" "\<not> owns m a" "m' = m"
    | (fanned) h ds where "owned" "owns m a" "m' = m\<lparr>emSHeap := h\<rparr>"
        "fanoutLoop (emLower m) (lnEmailID (lnAt m a)) (lnSubs (lnAt m a)) msgs 0 (emSHeap m, []) = (mx, h, ds)"
        "drops = reportDrops m ds"
  using assms by (auto simp: fanout_def split: if_splits prod.splits)

lemma feeds_inv: "email_inv m \<Longrightarrow> same_feeds (emSHeap m) h \<Longrightarrow> email_inv (m\<lparr>emSHeap := h\<rparr>)"
  by (simp add: email_inv_def shape_feeds)

lemma fanout_inv:
  assumes "email_inv m" "fanout a msgs m = (r, drops, m')"
  shows "email_inv m'"
proof -
  obtain mx owned where r: "r = (mx, owned)" by (cases r)
  from assms(2) [unfolded r] show ?thesis
    by (cases rule: fanout_cases) (use assms(1) in \<open>auto intro: feeds_inv same_feeds_fanoutLoop\<close>)
qed

lemma advanceCursor_cases:
  assumes "advanceCursor now a uidv uid reset m = (err, m')"
  obtains (unowned) "err = None" "m' = m" "cursor a m = None"
    | (failed) e st where "err = Some (EmCursor (lnEmailID (lnAt m a)) e)" "m' = m\<lparr>emStore := st\<rparr>"
    | (moved) e ib st where "err = None" "owns m a" "get (emInventory m) (lnEmailID (lnAt m a)) = Some e"
        "emInbox e = Some ib"
        "m' = m\<lparr>emStore := st, emInventory := put (lnEmailID (lnAt m a)) (e\<lparr>emInbox := Some
           (ib\<lparr>ibUIDValidity := uidv, ibLastUID := (if reset \<or> uid > ibLastUID ib then uid else ibLastUID ib)\<rparr>),
           emUpdatedAt := now\<rparr>) (emInventory m)\<rparr>"
proof (cases "get (emInventory m) (lnEmailID (lnAt m a))")
  case None
  with assms show ?thesis by (intro unowned) (auto simp: advanceCursor_def cursor_def)
next
  case (Some e)
  show ?thesis
  proof (cases "emInbox e")
    case None
    with Some assms show ?thesis by (intro unowned) (auto simp: advanceCursor_def cursor_def)
  next
    case ib: (Some ib)
    show ?thesis
    proof (cases "owns m a")
      case False
      with Some ib assms show ?thesis by (intro unowned) (auto simp: advanceCursor_def cursor_def)
    next
      case True
      let ?e = "e\<lparr>emInbox := Some (ib\<lparr>ibUIDValidity := uidv, ibLastUID := (if reset \<or> uid > ibLastUID ib then uid else ibLastUID ib)\<rparr>),
           emUpdatedAt := now\<rparr>"
      obtain se st where se: "erSave (emRepo m) ?e (emStore m) = (se, st)" by fastforce
      show ?thesis
      proof (cases se)
        case None
        with Some ib True se assms show ?thesis
          by (intro moved [of e ib st]) (simp_all add: advanceCursor_def Let_def)
      next
        case err: (Some x)
        with Some ib True se assms show ?thesis
          by (intro failed [of x st]) (simp_all add: advanceCursor_def Let_def)
      qed
    qed
  qed
qed

lemma advanceCursor_inv:
  assumes inv: "email_inv m" and run: "advanceCursor now a uidv uid reset m = (err, m')"
  shows "email_inv m'"
  using run
proof (cases rule: advanceCursor_cases)
  case (moved e ib st)
  note ok = email_inv_shape [OF inv]
  have "emID e = lnEmailID (lnAt m a)" using email_shapeD(12) [OF ok moved(3)] .
  moreover have "\<exists>e'. get (emInventory m) j = Some e' \<and> emInbox e' \<noteq> None" if "get (emListeners m) j = Some b" for j b
    using ok that by (rule served_inbox) auto
  ultimately have "email_shape (m\<lparr>emStore := st, emInventory := emInventory m'\<rparr>)"
    using ok email_shapeD(12) [OF ok] by (intro shape_inventory) (auto simp: moved(5) split: if_splits)
  then show ?thesis using inv moved(5) by (simp add: email_inv_def)
qed (use inv in \<open>simp_all add: email_inv_def\<close>)

lemma backfill_inv:
  "email_inv m \<Longrightarrow> backfill i s dialed selected fetched m = (errs, drops, m') \<Longrightarrow> email_inv m'"
  by (auto simp: backfill_def split: option.splits sum.splits prod.splits
      intro!: feeds_inv same_feeds_backfillLoop)

lemma take_inv:
  assumes "email_inv m" "take_message s m = (res, m')" "s < length (emSHeap m)"
  shows "email_inv m'"
proof (cases "esCh (subAt m s)")
  case Nil
  with assms show ?thesis by (simp add: take_message_def)
next
  case (Cons msg msgs)
  with assms(3) have "same_feeds (emSHeap m) ((emSHeap m)[s := (subAt m s)\<lparr>esCh := msgs\<rparr>])"
    by (auto simp: same_feeds_def nth_list_update)
  with assms Cons show ?thesis by (auto simp: take_message_def intro: feeds_inv)
qed

text \<open>A step of a goroutine leaves the manager, fans out, or moves the cursor.\<close>

lemma serve_cases:
  assumes "serve now a ev pc m = (pc', errs, drops, m')"
  obtains (same) "m' = m"
    | (fan) b uidv cur msgs r ds where "ev = Go" "pc = Fanning b uidv cur msgs" "fanout a msgs m = (r, ds, m')"
    | (reset) b uidv lastUID err where "ev = Go" "pc = Resetting b uidv lastUID"
        "advanceCursor now a uidv lastUID True m = (err, m')"
    | (move) b uidv mx err where "ev = Go" "pc = Moving b uidv mx" "advanceCursor now a uidv mx False m = (err, m')"
proof (cases "ev = Go \<and> (\<exists>b uidv x msgs. pc = Fanning b uidv x msgs \<or> pc = Resetting b uidv x \<or> pc = Moving b uidv x)")
  case True
  then obtain b uidv x msgs where ev: "ev = Go"
    and "pc = Fanning b uidv x msgs \<or> pc = Resetting b uidv x \<or> pc = Moving b uidv x" by blast
  from this(2) show ?thesis
  proof (elim disjE)
    assume pc: "pc = Fanning b uidv x msgs"
    obtain r ds m1 where f: "fanout a msgs m = (r, ds, m1)" by (cases "fanout a msgs m")
    with assms ev pc have "m' = m1" by (cases r) (auto simp: served_def split: if_splits)
    with f ev pc show ?thesis by (intro fan) simp_all
  next
    assume pc: "pc = Resetting b uidv x"
    obtain err m1 where f: "advanceCursor now a uidv x True m = (err, m1)" by fastforce
    with assms ev pc have "m' = m1" by (cases err) (auto simp: served_def)
    with f ev pc show ?thesis by (intro reset) simp_all
  next
    assume pc: "pc = Moving b uidv x"
    obtain err m1 where f: "advanceCursor now a uidv x False m = (err, m1)" by fastforce
    with assms ev pc have "m' = m1" by (cases err) (auto simp: served_def)
    with f ev pc show ?thesis by (intro move) simp_all
  qed
next
  case False
  have "m' = m"
    using False assms
    by (cases pc; cases ev) (simp_all add: served_def split: if_splits option.splits prod.splits sum.splits)
  then show ?thesis by (rule same)
qed

lemma serve_inv:
  assumes "email_inv m" "serve now a ev pc m = (pc', errs, drops, m')"
  shows "email_inv m'"
  using assms(2)
  by (cases rule: serve_cases) (use assms(1) in \<open>auto intro: fanout_inv advanceCursor_inv\<close>)

lemma NewManager_email_inv:
  assumes "email_NewManager lower repo opts st = (Inr m, st')" "set opts \<subseteq> {email_WithDropHandler, WithListenerErrorHandler}"
  shows "email_inv m" "emListeners m = []" "emLHeap m = []" "emSHeap m = []" "emLower m = lower"
proof -
  have load: "\<forall>i e. get iv i = Some e \<longrightarrow> emID e = i"
    if "loadEmails es iv0 = Inr iv" "\<forall>i e. get iv0 i = Some e \<longrightarrow> emID e = i" for es iv0 iv
    using that
  proof (induction es arbitrary: iv0)
    case (Cons e es)
    from Cons.prems(1) have l: "loadEmails es (put (emID e) e iv0) = Inr iv" by (simp split: if_splits)
    show ?case by (rule Cons.IH [OF l]) (metis Cons.prems(2) get_put option.inject)
  next
    case Nil
    from Nil(1) have "iv = iv0" by simp
    with Nil(2) show ?case by blast
  qed
  define blank where "blank = (\<lambda>m :: ('a, 'b) emgr. emListeners m = [] \<and> emLHeap m = [] \<and> emSHeap m = [] \<and> emLower m = lower)"
  have opt: "blank (fold (\<lambda>opt m. opt m) os m0)" if "blank m0" "set os \<subseteq> {email_WithDropHandler, WithListenerErrorHandler}" for os m0
    using that
  proof (induction os arbitrary: m0)
    case (Cons o1 os)
    then have "blank (o1 m0)" by (auto simp: blank_def email_WithDropHandler_def WithListenerErrorHandler_def)
    with Cons show ?case by simp
  qed simp
  obtain rp where rp: "rp = (case repo of None \<Rightarrow> email_noopRepository | Some rp \<Rightarrow> rp)" by simp
  define m1 where "m1 = fold (\<lambda>opt m. opt m) opts \<lparr>emRepo = rp, emStore = st, emLower = lower, emDropHandler = False, emErrHandler = False,
                emGuard = None, emInventory = [], emListeners = [], emLHeap = [], emSHeap = [], emClosed = False\<rparr>"
  have b: "blank m1" unfolding m1_def using assms(2) by (intro opt) (simp_all add: blank_def)
  from assms(1) obtain listed iv where "loadEmails listed [] = Inr iv" and m: "m = m1\<lparr>emStore := st', emInventory := iv\<rparr>"
    by (auto simp: email_NewManager_def Let_def rp [symmetric] m1_def [symmetric] split: prod.splits sum.splits)
  from load [OF this(1)] have iv: "\<forall>i e. get iv i = Some e \<longrightarrow> emID e = i" by (metis map_of.simps(1) option.distinct(1))
  show "emListeners m = []" "emLHeap m = []" "emSHeap m = []" "emLower m = lower" using b m by (simp_all add: blank_def)
  have "inventory_ok m" using iv b m by (simp add: inventory_ok_def blank_def del: get_put)
  then show "email_inv m" using b m
    by (simp add: email_inv_def email_shape_def listeners_ok_def stopped_ok_def subs_ok_def buffers_ok_def blank_def)
qed

end
