(* ===== verification/Email_Delivery.thy ===== *)
theory Email_Delivery
  imports Email_Invariant "HOL-Library.Multiset"
begin

text \<open>
  What listeners deliver. The first part takes a fan-out apart: its two loops amount to offering the
  messages to each subscription alone, and such an offer accounts for every message the subscription
  admits. The second part is the invariant of the process: no listener ever moves its cursor past mail
  that somebody attached to it was owed and not offered.
\<close>

section \<open>Offers to one subscription\<close>

lemma offers_spec:
  assumes "offers lower msgs s = (lost, s')"
  obtains given where "esCh s' = esCh s @ given" "subseq given msgs"
    "\<not> esClosed s \<Longrightarrow> mset given + mset lost = mset (filter (matches lower s) msgs)"
    "s' = s\<lparr>esCh := esCh s @ given, esDropped := esDropped s + of_nat (length lost)\<rparr>"
    "int (length (esCh s)) \<le> esBuffer s \<Longrightarrow> lost \<noteq> [] \<Longrightarrow> int (length (esCh s')) = esBuffer s'"
proof -
  have "\<exists>given. esCh s' = esCh s @ given \<and> subseq given msgs
    \<and> (\<not> esClosed s \<longrightarrow> mset given + mset lost = mset (filter (matches lower s) msgs))
    \<and> s' = s\<lparr>esCh := esCh s @ given, esDropped := esDropped s + of_nat (length lost)\<rparr>
    \<and> (int (length (esCh s)) \<le> esBuffer s \<longrightarrow>
         (lost \<noteq> [] \<longrightarrow> int (length (esCh s')) = esBuffer s') \<and> int (length (esCh s')) \<le> esBuffer s')"
    using assms
  proof (induction msgs arbitrary: s lost)
    case Nil
    then show ?case by (intro exI [of _ "[]"]) simp
  next
    case (Cons msg msgs)
    obtain d s1 where o1: "offer lower msg s = (d, s1)" by fastforce
    obtain lost1 where l1: "offers lower msgs s1 = (lost1, s')" and lost: "lost = (case d of None \<Rightarrow> [] | Some _ \<Rightarrow> [msg]) @ lost1"
      using Cons.prems o1 by (auto split: prod.splits)
    obtain given where g: "esCh s' = esCh s1 @ given" "subseq given msgs"
      "\<not> esClosed s1 \<longrightarrow> mset given + mset lost1 = mset (filter (matches lower s1) msgs)"
      "s' = s1\<lparr>esCh := esCh s1 @ given, esDropped := esDropped s1 + of_nat (length lost1)\<rparr>"
      "int (length (esCh s1)) \<le> esBuffer s1 \<longrightarrow>
         (lost1 \<noteq> [] \<longrightarrow> int (length (esCh s')) = esBuffer s') \<and> int (length (esCh s')) \<le> esBuffer s'"
      using Cons.IH [OF l1] by blast
    have m: "matches lower s1 = matches lower s" "esClosed s1 = esClosed s" "esBuffer s1 = esBuffer s"
      using o1 by (auto simp: offer_def matches_def fun_eq_iff Let_def split: if_splits)
    consider (skip) "esClosed s \<or> \<not> matches lower s msg" | (room) "\<not> esClosed s" "matches lower s msg" "int (length (esCh s)) < esBuffer s"
      | (full) "\<not> esClosed s" "matches lower s msg" "\<not> int (length (esCh s)) < esBuffer s" by blast
    then show ?case
    proof cases
      case skip
      then have "d = None" "s1 = s" using o1 by (auto simp: offer_def)
      with skip g lost m show ?thesis by (intro exI [of _ given]) auto
    next
      case room
      then have "d = None" "s1 = s\<lparr>esCh := esCh s @ [msg]\<rparr>" using o1 by (auto simp: offer_def)
      with room g lost m show ?thesis by (intro exI [of _ "msg # given"]) auto
    next
      case full
      then have d: "d \<noteq> None" "s1 = s\<lparr>esDropped := esDropped s + 1\<rparr>" using o1 by (auto simp: offer_def Let_def)
      have none: "given = []" if "int (length (esCh s)) \<le> esBuffer s"
        using that g(1,5) full(3) d(2) m(3) g(4) by auto
      from d obtain x where x: "d = Some x" by auto
      show ?thesis
        using full g lost m d(2) x none by (intro exI [of _ given]) (auto simp: list_emb_Cons)
    qed
  qed
  then show ?thesis using that by blast
qed

lemma offerAll_at:
  assumes "distinct ss" "\<And>s. s \<in> set ss \<Longrightarrow> s < length h" "offerAll lower msg ss (h, drops) = (h', drops')"
  shows "length h' = length h \<and> (\<forall>t. h' ! t = (if t \<in> set ss then snd (offer lower msg (h ! t)) else h ! t))"
  using assms
proof (induction ss arbitrary: h drops)
  case Nil
  then show ?case by simp
next
  case (Cons s ss)
  obtain d sub where o1: "offer lower msg (h ! s) = (d, sub)" by fastforce
  with Cons.prems(3) have r: "offerAll lower msg ss (h[s := sub], drops @ (case d of None \<Rightarrow> [] | Some x \<Rightarrow> [x])) = (h', drops')"
    by simp
  have "length h' = length (h[s := sub]) \<and> (\<forall>t. h' ! t = (if t \<in> set ss then snd (offer lower msg (h[s := sub] ! t)) else h[s := sub] ! t))"
    by (rule Cons.IH [OF _ _ r]) (use Cons.prems in auto)
  then show ?case using Cons.prems(1) Cons.prems(2) [of s] o1 by (auto simp: nth_list_update)
qed

text \<open>The loops of a fan-out, messages outside and subscriptions inside, are one loop per subscription.\<close>

lemma fanoutLoop_at:
  assumes "distinct ss" "\<And>s. s \<in> set ss \<Longrightarrow> s < length h" "fanoutLoop lower i ss msgs mx (h, drops) = (mx', h', drops')"
  shows "length h' = length h"
    "h' ! t = (if t \<in> set ss then snd (offers lower (addressed i msgs) (h ! t)) else h ! t)"
    "mx \<le> mx'" "msg \<in> set msgs \<Longrightarrow> msgUID msg \<le> mx'" "mx' = mx \<or> mx' \<in> msgUID ` set msgs"
proof -
  have "length h' = length h \<and> (\<forall>t. h' ! t = (if t \<in> set ss then snd (offers lower (addressed i msgs) (h ! t)) else h ! t))
    \<and> mx \<le> mx' \<and> (\<forall>msg \<in> set msgs. msgUID msg \<le> mx') \<and> (mx' = mx \<or> mx' \<in> msgUID ` set msgs)"
    using assms(2,3)
  proof (induction msgs arbitrary: mx h drops)
    case Nil
    then show ?case by simp
  next
    case (Cons msg msgs)
    obtain h1 d1 where o1: "offerAll lower (msg\<lparr>msgEmailID := i\<rparr>) ss (h, drops) = (h1, d1)" by fastforce
    note at = offerAll_at [OF assms(1) Cons.prems(1) o1]
    let ?mx = "if msgUID msg > mx then msgUID msg else mx"
    have "fanoutLoop lower i ss msgs ?mx (h1, d1) = (mx', h', drops')" using Cons.prems(2) o1 by simp
    from Cons.IH [OF _ this] at Cons.prems(1)
    have ih: "length h' = length h1" "\<And>t. h' ! t = (if t \<in> set ss then snd (offers lower (addressed i msgs) (h1 ! t)) else h1 ! t)"
      "?mx \<le> mx'" "\<forall>msg \<in> set msgs. msgUID msg \<le> mx'" "mx' = ?mx \<or> mx' \<in> msgUID ` set msgs" by auto
    have "h' ! t = (if t \<in> set ss then snd (offers lower (addressed i (msg # msgs)) (h ! t)) else h ! t)" for t
      using ih(2) [of t] at by (auto split: prod.splits)
    moreover have "mx \<le> mx'" "msgUID msg \<le> mx'" using ih(3) by (auto split: if_splits)
    ultimately show ?case using ih at by (auto split: if_splits)
  qed
  then show "length h' = length h"
    "h' ! t = (if t \<in> set ss then snd (offers lower (addressed i msgs) (h ! t)) else h ! t)"
    "mx \<le> mx'" "msg \<in> set msgs \<Longrightarrow> msgUID msg \<le> mx'" "mx' = mx \<or> mx' \<in> msgUID ` set msgs" by blast+
qed

lemma backfillLoop_at:
  assumes "s < length h" "backfillLoop lower i s msgs (h, drops) = (h', drops')"
  shows "length h' = length h \<and> (\<forall>t. h' ! t = (if t = s then snd (offers lower (addressed i msgs) (h ! s)) else h ! t))"
  using assms
proof (induction msgs arbitrary: h drops)
  case Nil
  then show ?case by simp
next
  case (Cons msg msgs)
  obtain h1 d1 where o1: "offerAll lower (msg\<lparr>msgEmailID := i\<rparr>) [s] (h, drops) = (h1, d1)" by fastforce
  have at: "length h1 = length h \<and> (\<forall>t. h1 ! t = (if t \<in> set [s] then snd (offer lower (msg\<lparr>msgEmailID := i\<rparr>) (h ! t)) else h ! t))"
    by (rule offerAll_at [OF _ _ o1]) (use Cons.prems in simp_all)
  have "backfillLoop lower i s msgs (h1, d1) = (h', drops')" using Cons.prems(2) o1 by (simp del: offerAll.simps)
  from Cons.IH [OF _ this] at Cons.prems(1) show ?case by (auto split: prod.splits)
qed

section \<open>What a subscription has been offered\<close>

definition seen :: "('s, 'w) esys \<Rightarrow> nat \<Rightarrow> message set" where
  "seen S s = set (syTaken S s) \<union> set (esCh (subAt (syMgr S) s)) \<union> set (syLost S s)"

text \<open>A message of the inbox has been dealt with for a subscription: its filter refuses it, or it was put
  into the channel, and possibly taken since, or dropped for a full buffer.\<close>

definition got :: "('s, 'w) esys \<Rightarrow> nat \<Rightarrow> message \<Rightarrow> bool" where
  "got S s msg =
     (let sub = subAt (syMgr S) s; msg' = msg\<lparr>msgEmailID := esEmailID sub\<rparr>
      in \<not> matches (emLower (syMgr S)) sub msg' \<or> msg' \<in> seen S s)"

definition owed_to :: "('s, 'w) esys \<Rightarrow> string \<Rightarrow> nat \<Rightarrow> 32 word \<Rightarrow> bool" where
  "owed_to S i s u \<longleftrightarrow>
     (\<forall>msg \<in> set (syBox S i). syFloor S s < msgUID msg \<longrightarrow> msgUID msg \<le> u \<longrightarrow> got S s msg)"

lemma got_mono:
  assumes "got S s msg" "esEmailID (subAt (syMgr S') s) = esEmailID (subAt (syMgr S) s)"
    "esFrom (subAt (syMgr S') s) = esFrom (subAt (syMgr S) s)" "emLower (syMgr S') = emLower (syMgr S)"
    "seen S s \<subseteq> seen S' s"
  shows "got S' s msg"
  using assms by (auto simp: got_def matches_def Let_def)

section \<open>The invariant of the process\<close>

definition caught_up :: "(string \<Rightarrow> 32 word) \<Rightarrow> ('s, 'w) esys \<Rightarrow> string \<Rightarrow> nat \<Rightarrow> inbox \<Rightarrow> bool" where
  "caught_up v S i a ib \<longleftrightarrow>
     (ibUIDValidity ib = v i \<longrightarrow> (\<forall>s \<in> set (lnSubs (lnAt (syMgr S) a)). owed_to S i s (ibLastUID ib)))"

text \<open>Where the goroutine of the registered listener stands, and what its local variables are worth.\<close>

definition pc_ok :: "(string \<Rightarrow> 32 word) \<Rightarrow> ('s, 'w) esys \<Rightarrow> string \<Rightarrow> nat \<Rightarrow> inbox \<Rightarrow> lpc \<Rightarrow> bool" where
  "pc_ok v S i a ib pc =
     (case pc of
        Reading b uidv lastUID \<Rightarrow> uidv = v i \<and> lastUID \<le> syLast S i
      | Resetting b uidv lastUID \<Rightarrow> uidv = v i \<and> lastUID \<le> syLast S i
      | Polling b uidv \<Rightarrow> uidv = v i \<and> ibUIDValidity ib = v i
      | Fetching b uidv cur \<Rightarrow> uidv = v i \<and> ibUIDValidity ib = v i \<and> cur = ibLastUID ib
      | Fanning b uidv cur msgs \<Rightarrow> uidv = v i \<and> ibUIDValidity ib = v i \<and> cur = ibLastUID ib \<and>
          (\<exists>hi. hi \<le> syLast S i \<and> (\<forall>msg \<in> set msgs. msgUID msg \<le> hi) \<and>
             (\<forall>msg \<in> set (syBox S i). cur < msgUID msg \<longrightarrow> msgUID msg \<le> hi \<longrightarrow> msg \<in> set msgs))
      | Moving b uidv mx \<Rightarrow> uidv = v i \<and> ibUIDValidity ib = v i \<and> mx \<le> syLast S i \<and>
          (\<forall>s \<in> set (lnSubs (lnAt (syMgr S) a)). \<forall>msg \<in> set (syBox S i).
             syFloor S s < msgUID msg \<longrightarrow> ibLastUID ib < msgUID msg \<longrightarrow> msgUID msg \<le> mx \<longrightarrow> got S s msg)
      | Idling b uidv \<Rightarrow> uidv = v i \<and> ibUIDValidity ib = v i
      | _ \<Rightarrow> True)"

lemma pc_ok_idle [simp]:
  "pc_ok v S i a ib (Top b)" "pc_ok v S i a ib (Dialing b)" "pc_ok v S i a ib (Selecting b)"
  "pc_ok v S i a ib (Sleeping b)" "pc_ok v S i a ib Exited"
  "pc_ok v S i a ib (Reading b uidv lastUID) \<longleftrightarrow> uidv = v i \<and> lastUID \<le> syLast S i"
  "pc_ok v S i a ib (Resetting b uidv lastUID) \<longleftrightarrow> uidv = v i \<and> lastUID \<le> syLast S i"
  "pc_ok v S i a ib (Polling b uidv) \<longleftrightarrow> uidv = v i \<and> ibUIDValidity ib = v i"
  "pc_ok v S i a ib (Fetching b uidv cur) \<longleftrightarrow> uidv = v i \<and> ibUIDValidity ib = v i \<and> cur = ibLastUID ib"
  "pc_ok v S i a ib (Idling b uidv) \<longleftrightarrow> uidv = v i \<and> ibUIDValidity ib = v i"
  by (auto simp: pc_ok_def)

definition boxes_ok :: "(string \<Rightarrow> 32 word) \<Rightarrow> ('s, 'w) esys \<Rightarrow> bool" where
  "boxes_ok v S \<longleftrightarrow> (\<forall>i. \<forall>msg \<in> set (syBox S i). msgUID msg \<le> syLast S i) \<and>
     cursors_written v (syLast S) (syMgr S) \<and> (\<forall>i. v i \<noteq> 0) \<and> length (syPcs S) = length (emLHeap (syMgr S))"

definition delivering :: "(string \<Rightarrow> 32 word) \<Rightarrow> ('s, 'w) esys \<Rightarrow> string \<Rightarrow> nat \<Rightarrow> inbox \<Rightarrow> bool" where
  "delivering v S i a ib \<longleftrightarrow> caught_up v S i a ib \<and> pc_ok v S i a ib (syPcs S ! a)"

definition delivery_inv :: "(string \<Rightarrow> 32 word) \<Rightarrow> ('s, 'w) esys \<Rightarrow> bool" where
  "delivery_inv v S \<longleftrightarrow> email_inv (syMgr S) \<and> boxes_ok v S \<and>
     (\<forall>i a e ib. get (emListeners (syMgr S)) i = Some a \<longrightarrow> get (emInventory (syMgr S)) i = Some e \<longrightarrow>
        emInbox e = Some ib \<longrightarrow> delivering v S i a ib)"

lemma delivery_invD:
  assumes "delivery_inv v S"
  shows "email_inv (syMgr S)" "boxes_ok v S"
    "get (emListeners (syMgr S)) i = Some a \<Longrightarrow> get (emInventory (syMgr S)) i = Some e \<Longrightarrow>
       emInbox e = Some ib \<Longrightarrow> delivering v S i a ib"
  using assms unfolding delivery_inv_def by blast+

text \<open>What leaves a listener's deliveries right: mail only arrives above the last UID, and everybody attached
  was attached before with no higher floor, or has just been attached.\<close>

lemma delivering_transfer:
  assumes was: "delivering v S i a ib" and last: "ibUIDValidity ib = v i \<Longrightarrow> ibLastUID ib \<le> syLast S i"
    and box: "\<And>msg. msg \<in> set (syBox S' i) \<Longrightarrow> msg \<in> set (syBox S i) \<or> syLast S i < msgUID msg"
    and grows: "syLast S i \<le> syLast S' i" and pc: "syPcs S' ! a = syPcs S ! a"
    and subs: "\<And>s. s \<in> set (lnSubs (lnAt (syMgr S') a)) \<Longrightarrow>
      s \<in> set (lnSubs (lnAt (syMgr S) a)) \<and> syFloor S s \<le> syFloor S' s \<and> (\<forall>msg. got S s msg \<longrightarrow> got S' s msg)
      \<or> syLast S i \<le> syFloor S' s"
  shows "delivering v S' i a ib"
proof -
  have keep: "got S' s msg"
    if s: "s \<in> set (lnSubs (lnAt (syMgr S') a))" and msg: "msg \<in> set (syBox S' i)" "syFloor S' s < msgUID msg"
      "msgUID msg \<le> u" and u: "u \<le> syLast S i"
      and old: "s \<in> set (lnSubs (lnAt (syMgr S) a)) \<Longrightarrow> msg \<in> set (syBox S i) \<Longrightarrow> syFloor S s < msgUID msg \<Longrightarrow> got S s msg"
    for s msg u
  proof -
    have le: "msgUID msg \<le> syLast S i" using msg(3) u by simp
    then have "msg \<in> set (syBox S i)" using box [OF msg(1)] by auto
    moreover from subs [OF s] le msg(2) have "s \<in> set (lnSubs (lnAt (syMgr S) a))" "syFloor S s \<le> syFloor S' s"
      "\<forall>msg. got S s msg \<longrightarrow> got S' s msg" by auto
    ultimately show ?thesis using old msg(2) by auto
  qed
  have "caught_up v S' i a ib"
    using was last keep [where u = "ibLastUID ib"] unfolding delivering_def caught_up_def owed_to_def by blast
  moreover have "pc_ok v S' i a ib (syPcs S ! a)"
  proof (cases "syPcs S ! a")
    case (Fanning b uidv cur msgs)
    with was obtain hi where hi: "uidv = v i" "ibUIDValidity ib = v i" "cur = ibLastUID ib" "hi \<le> syLast S i"
      "\<forall>msg \<in> set msgs. msgUID msg \<le> hi"
      "\<forall>msg \<in> set (syBox S i). cur < msgUID msg \<longrightarrow> msgUID msg \<le> hi \<longrightarrow> msg \<in> set msgs"
      by (auto simp: delivering_def pc_ok_def)
    have "msg \<in> set (syBox S i)" if "msg \<in> set (syBox S' i)" "msgUID msg \<le> hi" for msg
      using box [OF that(1)] that(2) hi(4) by auto
    with hi grows show ?thesis unfolding Fanning pc_ok_def by (auto intro!: exI [of _ hi])
  next
    case (Moving b uidv mx)
    with was have mv: "uidv = v i" "ibUIDValidity ib = v i" "mx \<le> syLast S i"
      "\<And>s msg. s \<in> set (lnSubs (lnAt (syMgr S) a)) \<Longrightarrow> msg \<in> set (syBox S i) \<Longrightarrow>
         syFloor S s < msgUID msg \<Longrightarrow> ibLastUID ib < msgUID msg \<Longrightarrow> msgUID msg \<le> mx \<Longrightarrow> got S s msg"
      by (auto simp: delivering_def pc_ok_def)
    with grows keep [where u = mx] show ?thesis unfolding Moving pc_ok_def by auto
  qed (use was grows in \<open>auto simp: delivering_def pc_ok_def\<close>)
  ultimately show ?thesis by (simp add: delivering_def pc)
qed

text \<open>Steps that leave inboxes, floors and goroutines alone.\<close>

lemma delivering_mgr:
  assumes "delivering v S i a ib" "boxes_ok v S" "get (emInventory (syMgr S)) i = Some e" "emInbox e = Some ib"
    "syBox S' = syBox S" "syLast S' = syLast S" "syPcs S' ! a = syPcs S ! a"
    "\<And>s. s \<in> set (lnSubs (lnAt (syMgr S') a)) \<Longrightarrow>
      s \<in> set (lnSubs (lnAt (syMgr S) a)) \<and> syFloor S s \<le> syFloor S' s \<and> (\<forall>msg. got S s msg \<longrightarrow> got S' s msg)
      \<or> syLast S i \<le> syFloor S' s"
  shows "delivering v S' i a ib"
  by (rule delivering_transfer [OF assms(1)]) (use assms in \<open>auto simp: boxes_ok_def cursors_written_def\<close>)

section \<open>The steps around the goroutines\<close>

lemma boxes_ok_mgr:
  assumes "boxes_ok v S" "cursors_written v (syLast S) m'" "length pcs = length (emLHeap m')"
  shows "boxes_ok v (S\<lparr>syMgr := m', syPcs := pcs, syFloor := f, syTaken := t, syLost := l\<rparr>)"
  using assms by (simp add: boxes_ok_def)

lemma cursors_same: "emInventory m' = emInventory m \<Longrightarrow> cursors_written v ls m' = cursors_written v ls m"
  by (simp add: cursors_written_def)

lemma delivery_invI:
  assumes "email_inv (syMgr S)" "boxes_ok v S"
    "\<And>i a e ib. get (emListeners (syMgr S)) i = Some a \<Longrightarrow> get (emInventory (syMgr S)) i = Some e \<Longrightarrow>
       emInbox e = Some ib \<Longrightarrow> delivering v S i a ib"
  shows "delivery_inv v S"
  using assms by (simp add: delivery_inv_def)

lemma step_add:
  assumes inv: "delivery_inv v S"
    and new: "case emInbox e of None \<Rightarrow> True | Some ib \<Rightarrow> ibLastUID ib = 0 \<and> ibUIDValidity ib = 0"
    and run: "email_Add now e (syMgr S) = (err, m')"
  shows "delivery_inv v (S\<lparr>syMgr := m'\<rparr>)"
proof -
  note d = delivery_invD [OF inv]
  note a = email_Add_inv [OF d(1) run]
  show ?thesis
  proof (cases err)
    case (Some x)
    then obtain st where m': "m' = (syMgr S)\<lparr>emStore := st\<rparr>" using a(2) by blast
    show ?thesis
    proof (rule delivery_invI)
      show "boxes_ok v (S\<lparr>syMgr := m'\<rparr>)" using d(2) by (simp add: boxes_ok_def m' cursors_written_def)
    next
      fix i b e0 ib assume "get (emListeners (syMgr (S\<lparr>syMgr := m'\<rparr>))) i = Some b"
        "get (emInventory (syMgr (S\<lparr>syMgr := m'\<rparr>))) i = Some e0" "emInbox e0 = Some ib"
      then have r: "get (emListeners (syMgr S)) i = Some b" "get (emInventory (syMgr S)) i = Some e0" "emInbox e0 = Some ib"
        by (simp_all add: m')
      show "delivering v (S\<lparr>syMgr := m'\<rparr>) i b ib"
        by (rule delivering_mgr [OF d(3) [OF r] d(2) r(2,3)]) (auto simp: m' got_def seen_def)
    qed (use a(1) in simp)
  next
    case None
    from a(3) [OF None] obtain st where fresh: "get (emInventory (syMgr S)) (emID e) = None"
      and m': "m' = (syMgr S)\<lparr>emStore := st, emInventory := put (emID e) (e\<lparr>emCreatedAt := now, emUpdatedAt := now\<rparr>)
         (emInventory (syMgr S))\<rparr>" by blast
    show ?thesis
    proof (rule delivery_invI)
      have "cursors_written v (syLast S) m'"
        using d(2) new by (auto simp: cursors_written_def m' boxes_ok_def split: option.splits)
      with d(2) show "boxes_ok v (S\<lparr>syMgr := m'\<rparr>)" by (simp add: boxes_ok_def m')
    next
      fix i b e0 ib assume "get (emListeners (syMgr (S\<lparr>syMgr := m'\<rparr>))) i = Some b"
        "get (emInventory (syMgr (S\<lparr>syMgr := m'\<rparr>))) i = Some e0" and ib: "emInbox e0 = Some ib"
      then have l: "get (emListeners (syMgr S)) i = Some b"
        and e0: "get (put (emID e) (e\<lparr>emCreatedAt := now, emUpdatedAt := now\<rparr>) (emInventory (syMgr S))) i = Some e0"
        by (simp_all add: m')
      obtain e1 where "get (emInventory (syMgr S)) i = Some e1"
        using email_inv_shape [OF d(1)] l by (rule served_inbox)
      with e0 fresh have r: "get (emInventory (syMgr S)) i = Some e0" by (auto split: if_splits)
      show "delivering v (S\<lparr>syMgr := m'\<rparr>) i b ib"
        by (rule delivering_mgr [OF d(3) [OF l r ib] d(2) r ib]) (auto simp: m' got_def seen_def)
    qed (use a(1) in simp)
  qed
qed

lemma step_delete:
  assumes inv: "delivery_inv v S" and run: "email_Delete w i (syMgr S) = ((stranded, err), m')"
  shows "delivery_inv v (S\<lparr>syMgr := m'\<rparr>)"
proof -
  note d = delivery_invD [OF inv]
  have same: "\<exists>st iv. m' = (syMgr S)\<lparr>emStore := st, emInventory := iv\<rparr>
      \<and> (\<forall>j e. get iv j = Some e \<longrightarrow> get (emInventory (syMgr S)) j = Some e)"
    using run
  proof (cases rule: email_Delete_cases)
    case (unknown st)
    then show ?thesis by (intro exI [of _ st] exI [of _ "emInventory (syMgr S)"]) simp
  next
    case listened
    then show ?thesis by (intro exI [of _ "emStore (syMgr S)"] exI [of _ "emInventory (syMgr S)"]) simp
  next
    case forwarded
    then show ?thesis by (intro exI [of _ "emStore (syMgr S)"] exI [of _ "emInventory (syMgr S)"]) simp
  next
    case (failed e st)
    then show ?thesis by (intro exI [of _ st] exI [of _ "emInventory (syMgr S)"]) simp
  next
    case (deleted st)
    then show ?thesis by (intro exI [of _ st] exI [of _ "del i (emInventory (syMgr S))"]) simp
  qed
  then obtain st iv where m': "m' = (syMgr S)\<lparr>emStore := st, emInventory := iv\<rparr>"
    and iv: "\<And>j e. get iv j = Some e \<Longrightarrow> get (emInventory (syMgr S)) j = Some e" by blast
  show ?thesis
  proof (rule delivery_invI)
    show "email_inv (syMgr (S\<lparr>syMgr := m'\<rparr>))" using email_Delete_inv [OF d(1) run] by simp
    have "cursors_written v (syLast S) m'" using d(2) iv by (auto simp: boxes_ok_def cursors_written_def m')
    with d(2) show "boxes_ok v (S\<lparr>syMgr := m'\<rparr>)" by (simp add: boxes_ok_def m')
  next
    fix j b e0 ib assume "get (emListeners (syMgr (S\<lparr>syMgr := m'\<rparr>))) j = Some b"
      "get (emInventory (syMgr (S\<lparr>syMgr := m'\<rparr>))) j = Some e0" and ib: "emInbox e0 = Some ib"
    then have r: "get (emListeners (syMgr S)) j = Some b" "get (emInventory (syMgr S)) j = Some e0"
      using iv by (simp_all add: m')
    show "delivering v (S\<lparr>syMgr := m'\<rparr>) j b ib"
      by (rule delivering_mgr [OF d(3) [OF r ib] d(2) r(2) ib]) (auto simp: m' got_def seen_def)
  qed
qed

lemma step_listen:
  assumes inv: "delivery_inv v S" and run: "Listen t i opts (syMgr S) = (Inr (s, since), m')"
  shows "delivery_inv v (S\<lparr>syMgr := m',
    syPcs := syPcs S @ replicate (length (emLHeap m') - length (emLHeap (syMgr S))) (Top backoffFloor),
    syFloor := (syFloor S)(s := syLast S i)\<rparr>)" (is "delivery_inv v ?S")
proof -
  note d = delivery_invD [OF inv]
  note ok = email_inv_shape [OF d(1)]
  have pcs: "length (syPcs S) = length (emLHeap (syMgr S))" using d(2) by (simp add: boxes_ok_def)
  from run have s: "s = length (emSHeap (syMgr S))" by (auto elim!: Listen_cases)
  from run have iv: "emInventory m' = emInventory (syMgr S)" "emLower m' = emLower (syMgr S)"
    "length (emLHeap (syMgr S)) \<le> length (emLHeap m')" "emSHeap m' = emSHeap (syMgr S) @ [emSHeap m' ! s]"
    by (auto elim!: Listen_cases simp: attach_def)
  have got: "got ?S t1 msg" if "got S t1 msg" "t1 < s" for t1 msg
    using that(1) by (rule got_mono) (use that(2) s iv nth_append [of "emSHeap (syMgr S)" "[emSHeap m' ! s]" t1] in \<open>simp_all add: seen_def\<close>)
  have old: "delivering v ?S j b ib"
    if r: "get (emListeners (syMgr S)) j = Some b" "get (emInventory (syMgr S)) j = Some e" "emInbox e = Some ib"
      and subs: "set (lnSubs (lnAt m' b)) \<subseteq> insert s (set (lnSubs (lnAt (syMgr S) b)))" "s \<in> set (lnSubs (lnAt m' b)) \<Longrightarrow> j = i"
    for j b e ib
  proof (rule delivering_mgr [OF d(3) [OF r] d(2) r(2,3)])
    fix t1 assume t1: "t1 \<in> set (lnSubs (lnAt (syMgr ?S) b))"
    show "t1 \<in> set (lnSubs (lnAt (syMgr S) b)) \<and> syFloor S t1 \<le> syFloor ?S t1 \<and> (\<forall>msg. got S t1 msg \<longrightarrow> got ?S t1 msg)
      \<or> syLast S j \<le> syFloor ?S t1"
    proof (cases "t1 = s")
      case True
      with t1 subs(2) show ?thesis by simp
    next
      case False
      with t1 subs(1) have "t1 \<in> set (lnSubs (lnAt (syMgr S) b))" by auto
      moreover from email_shapeD(9) [OF ok r(1) this] have "t1 < s" by (simp add: s)
      ultimately show ?thesis using got by auto
    qed
  next
    show "syPcs ?S ! b = syPcs S ! b" using email_shapeD(2) [OF ok r(1)] pcs by (simp add: nth_append)
  qed simp_all
  have boxes: "boxes_ok v ?S"
    using d(2) iv by (simp add: boxes_ok_def cursors_written_def)
  have shape: "email_inv (syMgr ?S)" using Listen_inv [OF d(1) run] by simp
  from run show ?thesis
  proof (cases rule: Listen_cases)
    case (joined since' e f b a)
    have ln: "lnAt m' c = (if c = a then (lnAt (syMgr S) a)\<lparr>lnSubs := lnSubs (lnAt (syMgr S) a) @ [s]\<rparr> else lnAt (syMgr S) c)" for c
      using email_shapeD(2) [OF ok joined(6)] joined(7) s by (simp add: attach_def nth_list_update)
    have ls: "emListeners m' = emListeners (syMgr S)" using joined(7) by (simp add: attach_def)
    have here: "j = i" if "get (emListeners (syMgr S)) j = Some a" for j
      using email_shapeD(3) [OF ok that] email_shapeD(3) [OF ok joined(6)] by simp
    have fresh: "s \<notin> set (lnSubs (lnAt (syMgr S) c))" if "get (emListeners (syMgr S)) j = Some c" for j c
      using email_shapeD(9) [OF ok that] s by blast
    show ?thesis
    proof (rule delivery_invI [OF shape boxes])
      fix j c e0 ib assume "get (emListeners (syMgr ?S)) j = Some c" "get (emInventory (syMgr ?S)) j = Some e0" "emInbox e0 = Some ib"
      then show "delivering v ?S j c ib"
        using fresh [of j c] here [of j] by (intro old) (auto simp: ls iv ln split: if_splits)
    qed
  next
    case (started since' e f b)
    let ?a = "length (emLHeap (syMgr S))"
    have lh: "emLHeap m' = emLHeap (syMgr S) @ [(newListener e)\<lparr>lnSubs := [s]\<rparr>]"
      using started(7) s by (simp add: attach_def newListener_def)
    have ls: "emListeners m' = put i ?a (emListeners (syMgr S))" using started(7) by (simp add: attach_def)
    have new: "delivering v ?S i ?a ib" if "get (emInventory (syMgr S)) i = Some e0" "emInbox e0 = Some ib" for e0 ib
    proof -
      have "ibLastUID ib \<le> syLast S i" if "ibUIDValidity ib = v i"
        using d(2) \<open>get (emInventory (syMgr S)) i = Some e0\<close> \<open>emInbox e0 = Some ib\<close> that
        by (auto simp: boxes_ok_def cursors_written_def)
      then show ?thesis using pcs
        by (auto simp: delivering_def caught_up_def pc_ok_def owed_to_def lh nth_append)
    qed
    show ?thesis
    proof (rule delivery_invI [OF shape boxes])
      fix j c e0 ib assume r: "get (emListeners (syMgr ?S)) j = Some c" "get (emInventory (syMgr ?S)) j = Some e0" "emInbox e0 = Some ib"
      show "delivering v ?S j c ib"
      proof (cases "j = i")
        case True
        with r new show ?thesis by (simp add: ls iv)
      next
        case False
        with r have l: "get (emListeners (syMgr S)) j = Some c" by (simp add: ls)
        have "lnAt m' c = lnAt (syMgr S) c" using email_shapeD(2) [OF ok l] by (simp add: lh nth_append)
        moreover have "s \<notin> set (lnSubs (lnAt (syMgr S) c))" using email_shapeD(9) [OF ok l] s by blast
        ultimately show ?thesis using r iv by (intro old [OF l]) auto
      qed
    qed
  qed simp
qed

lemma step_unlisten:
  assumes inv: "delivery_inv v S" and s: "s < length (emSHeap (syMgr S))" and run: "sub_Close s (syMgr S) = Some m'"
  shows "delivery_inv v (S\<lparr>syMgr := m'\<rparr>)" (is "delivery_inv v ?S")
proof -
  note d = delivery_invD [OF inv]
  note ok = email_inv_shape [OF d(1)]
  have "\<exists>lh sh ls. m' = (syMgr S)\<lparr>emLHeap := lh, emSHeap := sh, emListeners := ls\<rparr> \<and> length lh = length (emLHeap (syMgr S))
    \<and> (\<forall>j a. get ls j = Some a \<longrightarrow> get (emListeners (syMgr S)) j = Some a)
    \<and> (\<forall>a. set (lnSubs (lh ! a)) \<subseteq> set (lnSubs (lnAt (syMgr S) a)))
    \<and> (\<forall>t. esEmailID (sh ! t) = esEmailID (subAt (syMgr S) t)
         \<and> esFrom (sh ! t) = esFrom (subAt (syMgr S) t) \<and> esCh (sh ! t) = esCh (subAt (syMgr S) t))"
    using ok s
  proof (cases rule: sub_Close_cases)
    case closed
    with run show ?thesis
      by (intro exI [of _ "emLHeap (syMgr S)"] exI [of _ "emSHeap (syMgr S)"] exI [of _ "emListeners (syMgr S)"]) simp
  next
    case (left a)
    let ?l = "(lnAt (syMgr S) a)\<lparr>lnSubs := removeAll s (lnSubs (lnAt (syMgr S) a))\<rparr>"
    have "set (lnSubs ((emLHeap (syMgr S))[a := ?l] ! c)) \<subseteq> set (lnSubs (lnAt (syMgr S) c))" for c
      using email_shapeD(2) [OF ok left(1)] by (cases "c = a") auto
    moreover have "esEmailID (closed_sub s (syMgr S) ! t) = esEmailID (subAt (syMgr S) t)
         \<and> esFrom (closed_sub s (syMgr S) ! t) = esFrom (subAt (syMgr S) t) \<and> esCh (closed_sub s (syMgr S) ! t) = esCh (subAt (syMgr S) t)" for t
      using s by (cases "t = s") (simp_all add: closed_sub_def)
    moreover have "m' = (syMgr S)\<lparr>emLHeap := (emLHeap (syMgr S))[a := ?l], emSHeap := closed_sub s (syMgr S), emListeners := emListeners (syMgr S)\<rparr>"
    proof -
      have "m' = (syMgr S)\<lparr>emLHeap := (emLHeap (syMgr S))[a := ?l], emSHeap := closed_sub s (syMgr S)\<rparr>"
        using run left(4) by simp
      then show ?thesis by (simp only:) simp
    qed
    ultimately show ?thesis by (intro exI conjI) (assumption | simp)+
  next
    case (last a)
    let ?l = "(lnAt (syMgr S) a)\<lparr>lnSubs := [], lnStop := True\<rparr>"
    have "set (lnSubs ((emLHeap (syMgr S))[a := ?l] ! c)) \<subseteq> set (lnSubs (lnAt (syMgr S) c))" for c
      using email_shapeD(2) [OF ok last(1)] by (cases "c = a") auto
    moreover have "esEmailID (closed_sub s (syMgr S) ! t) = esEmailID (subAt (syMgr S) t)
         \<and> esFrom (closed_sub s (syMgr S) ! t) = esFrom (subAt (syMgr S) t) \<and> esCh (closed_sub s (syMgr S) ! t) = esCh (subAt (syMgr S) t)" for t
      using s by (cases "t = s") (simp_all add: closed_sub_def)
    moreover have "m' = (syMgr S)\<lparr>emLHeap := (emLHeap (syMgr S))[a := ?l], emSHeap := closed_sub s (syMgr S),
        emListeners := del (esEmailID (subAt (syMgr S) s)) (emListeners (syMgr S))\<rparr>"
      using run last(4) by simp
    ultimately show ?thesis by (intro exI conjI) (assumption | simp)+
  qed
  then obtain lh sh ls where m': "m' = (syMgr S)\<lparr>emLHeap := lh, emSHeap := sh, emListeners := ls\<rparr>" "length lh = length (emLHeap (syMgr S))"
    and ls: "\<And>j a. get ls j = Some a \<Longrightarrow> get (emListeners (syMgr S)) j = Some a"
      "\<And>a. set (lnSubs (lh ! a)) \<subseteq> set (lnSubs (lnAt (syMgr S) a))"
    and sh: "\<And>t. esEmailID (sh ! t) = esEmailID (subAt (syMgr S) t)" "\<And>t. esFrom (sh ! t) = esFrom (subAt (syMgr S) t)"
      "\<And>t. esCh (sh ! t) = esCh (subAt (syMgr S) t)" by blast
  show ?thesis
  proof (rule delivery_invI)
    show "email_inv (syMgr ?S)" using sub_Close_inv [OF d(1) s run] by simp
    show "boxes_ok v ?S" using d(2) by (simp add: boxes_ok_def cursors_written_def m')
  next
    fix j a e ib assume "get (emListeners (syMgr ?S)) j = Some a" "get (emInventory (syMgr ?S)) j = Some e" and ib: "emInbox e = Some ib"
    then have r: "get (emListeners (syMgr S)) j = Some a" "get (emInventory (syMgr S)) j = Some e"
      using ls(1) by (simp_all add: m')
    show "delivering v ?S j a ib"
    proof (rule delivering_mgr [OF d(3) [OF r ib] d(2) r(2) ib])
      fix t assume "t \<in> set (lnSubs (lnAt (syMgr ?S) a))"
      then have t: "t \<in> set (lnSubs (lnAt (syMgr S) a))" using ls(2) [of a] by (auto simp: m')
      have "got ?S t msg" if "got S t msg" for msg
        using that by (rule got_mono) (simp_all add: seen_def m' sh)
      with t show "t \<in> set (lnSubs (lnAt (syMgr S) a)) \<and> syFloor S t \<le> syFloor ?S t \<and> (\<forall>msg. got S t msg \<longrightarrow> got ?S t msg)
        \<or> syLast S j \<le> syFloor ?S t" by simp
    qed simp_all
  qed
qed

lemma step_close:
  assumes inv: "delivery_inv v S" and run: "email_Close (syMgr S) = Some m'"
  shows "delivery_inv v (S\<lparr>syMgr := m'\<rparr>)"
proof -
  note d = delivery_invD [OF inv]
  obtain m1 where "email_Close (syMgr S) = Some m1" "email_inv m1" "emListeners m1 = []"
    "length (emLHeap m1) = length (emLHeap (syMgr S))" "emInventory m1 = emInventory (syMgr S)"
    using d(1) by (rule Close_runs)
  with run d(2) show ?thesis by (intro delivery_invI) (auto simp: boxes_ok_def cursors_written_def)
qed

text \<open>A step that changes feeds and the ghosts of what was taken and lost, and loses nothing.\<close>

lemma step_feeds:
  assumes inv: "delivery_inv v S" and shape: "email_inv ((syMgr S)\<lparr>emSHeap := h\<rparr>)"
    and same: "same_feeds (emSHeap (syMgr S)) h"
    and keep: "\<And>t. t < length (emSHeap (syMgr S)) \<Longrightarrow>
      seen S t \<subseteq> seen (S\<lparr>syMgr := (syMgr S)\<lparr>emSHeap := h\<rparr>, syTaken := tk, syLost := ls\<rparr>) t"
  shows "delivery_inv v (S\<lparr>syMgr := (syMgr S)\<lparr>emSHeap := h\<rparr>, syTaken := tk, syLost := ls\<rparr>)" (is "delivery_inv v ?S")
proof -
  note d = delivery_invD [OF inv]
  note ok = email_inv_shape [OF d(1)]
  show ?thesis
  proof (rule delivery_invI)
    show "email_inv (syMgr ?S)" using shape by simp
    show "boxes_ok v ?S" using d(2) by (simp add: boxes_ok_def cursors_written_def)
  next
    fix j a e ib assume "get (emListeners (syMgr ?S)) j = Some a" "get (emInventory (syMgr ?S)) j = Some e" and ib: "emInbox e = Some ib"
    then have r: "get (emListeners (syMgr S)) j = Some a" "get (emInventory (syMgr S)) j = Some e" by simp_all
    show "delivering v ?S j a ib"
    proof (rule delivering_mgr [OF d(3) [OF r ib] d(2) r(2) ib])
      fix t assume "t \<in> set (lnSubs (lnAt (syMgr ?S) a))"
      then have t: "t \<in> set (lnSubs (lnAt (syMgr S) a))" by simp
      have "got ?S t msg" if "got S t msg" for msg
        using that by (rule got_mono)
          (use same keep email_shapeD(9) [OF ok r(1) t] in \<open>simp_all add: same_feeds_def\<close>)
      with t show "t \<in> set (lnSubs (lnAt (syMgr S) a)) \<and> syFloor S t \<le> syFloor ?S t \<and> (\<forall>msg. got S t msg \<longrightarrow> got ?S t msg)
        \<or> syLast S j \<le> syFloor ?S t" by simp
    qed simp_all
  qed
qed

lemma offers_keep: "set (esCh s) \<subseteq> set (esCh (snd (offers lower msgs s)))"
  using offers_spec [of lower msgs s "fst (offers lower msgs s)" "snd (offers lower msgs s)"] by (metis Un_iff prod.collapse set_append subsetI)

lemma step_backfilled:
  assumes inv: "delivery_inv v S" and s: "s < length (emSHeap (syMgr S))"
    and run: "backfill i s None None (Inr msgs) (syMgr S) = (errs, drops, m')"
  shows "delivery_inv v (S\<lparr>syMgr := m', syLost := (syLost S)(s := syLost S s @ lost)\<rparr>)"
proof -
  obtain h ds where b: "backfillLoop (emLower (syMgr S)) i s msgs (emSHeap (syMgr S), []) = (h, ds)" by fastforce
  with run have m': "m' = (syMgr S)\<lparr>emSHeap := h\<rparr>" by (simp add: backfill_def)
  note at = backfillLoop_at [OF s b]
  have "delivery_inv v (S\<lparr>syMgr := (syMgr S)\<lparr>emSHeap := h\<rparr>, syTaken := syTaken S,
      syLost := (syLost S)(s := syLost S s @ lost)\<rparr>)"
  proof (rule step_feeds [OF inv])
    show "same_feeds (emSHeap (syMgr S)) h" using same_feeds_backfillLoop [OF b] .
    then show "email_inv ((syMgr S)\<lparr>emSHeap := h\<rparr>)" by (rule feeds_inv [OF delivery_invD(1) [OF inv]])
  next
    fix t
    show "seen S t \<subseteq> seen (S\<lparr>syMgr := (syMgr S)\<lparr>emSHeap := h\<rparr>, syTaken := syTaken S,
        syLost := (syLost S)(s := syLost S s @ lost)\<rparr>) t"
      using at offers_keep [of "subAt (syMgr S) s" "emLower (syMgr S)" "addressed i msgs"] by (auto simp: seen_def)
  qed
  then show ?thesis by (simp add: m')
qed

lemma step_taken:
  assumes inv: "delivery_inv v S" and s: "s < length (emSHeap (syMgr S))"
    and run: "take_message s (syMgr S) = (Some msg, m')"
  shows "delivery_inv v (S\<lparr>syMgr := m', syTaken := (syTaken S)(s := syTaken S s @ [msg])\<rparr>)"
proof -
  obtain msgs where ch: "esCh (subAt (syMgr S) s) = msg # msgs"
    and m': "m' = (syMgr S)\<lparr>emSHeap := (emSHeap (syMgr S))[s := (subAt (syMgr S) s)\<lparr>esCh := msgs\<rparr>]\<rparr>"
    using run by (auto simp: take_message_def split: list.splits)
  let ?h = "(emSHeap (syMgr S))[s := (subAt (syMgr S) s)\<lparr>esCh := msgs\<rparr>]"
  have "delivery_inv v (S\<lparr>syMgr := (syMgr S)\<lparr>emSHeap := ?h\<rparr>, syTaken := (syTaken S)(s := syTaken S s @ [msg]), syLost := syLost S\<rparr>)"
  proof (rule step_feeds [OF inv])
    show f: "same_feeds (emSHeap (syMgr S)) ?h" using ch s by (auto simp: same_feeds_def nth_list_update)
    show "email_inv ((syMgr S)\<lparr>emSHeap := ?h\<rparr>)" by (rule feeds_inv [OF delivery_invD(1) [OF inv] f])
  next
    fix t assume "t < length (emSHeap (syMgr S))"
    then show "seen S t \<subseteq> seen (S\<lparr>syMgr := (syMgr S)\<lparr>emSHeap := ?h\<rparr>, syTaken := (syTaken S)(s := syTaken S s @ [msg]), syLost := syLost S\<rparr>) t"
      using ch by (auto simp: seen_def nth_list_update)
  qed
  then show ?thesis by (simp add: m')
qed

text \<open>The inboxes change.\<close>

lemma step_inbox:
  assumes inv: "delivery_inv v S"
    and box: "\<And>i msg. msg \<in> set (bs i) \<Longrightarrow> msg \<in> set (syBox S i) \<or> syLast S i < msgUID msg"
    and top: "\<And>i msg. msg \<in> set (bs i) \<Longrightarrow> msgUID msg \<le> ls i" and grows: "\<And>i. syLast S i \<le> ls i"
  shows "delivery_inv v (S\<lparr>syBox := bs, syLast := ls\<rparr>)"
proof -
  note d = delivery_invD [OF inv]
  show ?thesis
  proof (rule delivery_invI)
    show "email_inv (syMgr (S\<lparr>syBox := bs, syLast := ls\<rparr>))" using d(1) by simp
    have "cursors_written v ls (syMgr S)"
      using d(2) grows unfolding boxes_ok_def cursors_written_def by (meson order_trans)
    with d(2) top show "boxes_ok v (S\<lparr>syBox := bs, syLast := ls\<rparr>)" by (simp add: boxes_ok_def)
  next
    fix j a e ib assume "get (emListeners (syMgr (S\<lparr>syBox := bs, syLast := ls\<rparr>))) j = Some a"
      "get (emInventory (syMgr (S\<lparr>syBox := bs, syLast := ls\<rparr>))) j = Some e" and ib: "emInbox e = Some ib"
    then have r: "get (emListeners (syMgr S)) j = Some a" "get (emInventory (syMgr S)) j = Some e" by simp_all
    show "delivering v (S\<lparr>syBox := bs, syLast := ls\<rparr>) j a ib"
    proof (rule delivering_transfer [OF d(3) [OF r ib]])
      show "ibLastUID ib \<le> syLast S j" if "ibUIDValidity ib = v j"
        using d(2) r(2) ib that by (auto simp: boxes_ok_def cursors_written_def)
    qed (use box grows in \<open>simp_all add: got_def seen_def\<close>)
  qed
qed

section \<open>The steps of a goroutine\<close>

text \<open>A goroutine whose listener is not registered changes nothing anybody sees.\<close>

lemma unowned_serve:
  assumes inv: "email_inv m" and a: "a < length (emLHeap m)" "\<not> owns m a"
    and run: "serve now a ev pc m = (pc', errs, drops, m')"
  shows "m' = m"
  using run
proof (cases rule: serve_cases)
  case (fan b uidv cur msgs r ds)
  with a show ?thesis by (auto simp: fanout_def)
next
  case (reset b uidv lastUID err)
  with a show ?thesis by (auto simp: advanceCursor_def Let_def split: option.splits)
next
  case (move b uidv mx err)
  with a show ?thesis by (auto simp: advanceCursor_def Let_def split: option.splits)
qed simp

text \<open>The effect of one goroutine on the deliveries of the others.\<close>

lemma other_delivering:
  assumes inv: "delivery_inv v S" and run: "serve now a ev (syPcs S ! a) (syMgr S) = (pc', errs, drops, m')"
    and own: "get (emListeners (syMgr S)) i = Some a"
    and r: "get (emListeners (syMgr S)) j = Some b" "get (emInventory (syMgr S)) j = Some e" "emInbox e = Some ib" and ji: "j \<noteq> i"
  shows "delivering v (S\<lparr>syMgr := m', syPcs := (syPcs S)[a := pc'],
      syFloor := lifted ev (syPcs S ! a) a S, syLost := dropped_in ev (syPcs S ! a) a S\<rparr>) j b ib
    \<and> get (emInventory m') j = Some e" (is "delivering v ?S j b ib \<and> _")
proof -
  note d = delivery_invD [OF inv]
  note ok = email_inv_shape [OF d(1)]
  have ba: "b \<noteq> a" using email_shapeD(3) [OF ok own] email_shapeD(3) [OF ok r(1)] ji by auto
  have id: "lnEmailID (lnAt (syMgr S) a) = i" using email_shapeD(3) [OF ok own] .
  have apart: "t \<notin> set (lnSubs (lnAt (syMgr S) a))" if "t \<in> set (lnSubs (lnAt (syMgr S) b))" for t
    using email_shapeD(10) [OF ok own, of t] email_shapeD(10) [OF ok r(1) that] ji by auto
  have same: "get (emInventory m') j = Some e \<and> emLHeap m' = emLHeap (syMgr S) \<and> emLower m' = emLower (syMgr S)
      \<and> (\<forall>t \<in> set (lnSubs (lnAt (syMgr S) b)). subAt m' t = subAt (syMgr S) t)"
    using run
  proof (cases rule: serve_cases)
    case same
    with r show ?thesis by simp
  next
    case (fan b1 uidv cur msgs res ds)
    obtain mx owned where res: "res = (mx, owned)" by (cases res)
    from fan(3) [unfolded res] show ?thesis
    proof (cases rule: fanout_cases)
      case lost
      with r show ?thesis by simp
    next
      case (fanned h ds1)
      note at = fanoutLoop_at [OF email_shapeD(6) [OF ok own] email_shapeD(9) [OF ok own] fanned(4)]
      show ?thesis using fanned(3) r at(2) apart by auto
    qed
  next
    case (reset b1 uidv lastUID err)
    from reset(3) show ?thesis by (cases rule: advanceCursor_cases) (use r ji id in auto)
  next
    case (move b1 uidv mx err)
    from move(3) show ?thesis by (cases rule: advanceCursor_cases) (use r ji id in auto)
  qed
  have "delivering v ?S j b ib"
  proof (rule delivering_mgr [OF d(3) [OF r] d(2) r(2,3)])
    fix t assume "t \<in> set (lnSubs (lnAt (syMgr ?S) b))"
    with same have t: "t \<in> set (lnSubs (lnAt (syMgr S) b))" by simp
    have fl: "syFloor ?S t = syFloor S t" using apart [OF t] by (simp add: lifted_def split: levent.splits lpc.splits)
    have ls: "syLost ?S t = syLost S t"
      using apart [OF t] by (simp add: dropped_in_def fan_lost_def split: levent.splits lpc.splits)
    have "got ?S t msg" if "got S t msg" for msg
      using that by (rule got_mono) (use same t ls in \<open>simp_all add: seen_def\<close>)
    with t fl show "t \<in> set (lnSubs (lnAt (syMgr S) b)) \<and> syFloor S t \<le> syFloor ?S t \<and> (\<forall>msg. got S t msg \<longrightarrow> got ?S t msg)
      \<or> syLast S j \<le> syFloor ?S t" by simp
  qed (use ba in simp_all)
  with same show ?thesis by simp
qed

text \<open>The fan-out itself: everything in the batch is offered to everybody attached.\<close>

lemma fanned_got:
  assumes inv: "delivery_inv v S" and own: "get (emListeners (syMgr S)) i = Some a"
    and fan: "fanoutLoop (emLower (syMgr S)) i (lnSubs (lnAt (syMgr S) a)) msgs 0 (emSHeap (syMgr S), []) = (mx, h, ds)"
    and s: "s \<in> set (lnSubs (lnAt (syMgr S) a))"
    and S': "syMgr S' = (syMgr S)\<lparr>emSHeap := h\<rparr>" "syTaken S' = syTaken S" "syLost S' s = syLost S s @ fan_lost (syMgr S) a msgs s"
  shows "msg \<in> set msgs \<Longrightarrow> got S' s msg" "got S s msg \<Longrightarrow> got S' s msg"
proof -
  note ok = email_inv_shape [OF delivery_invD(1) [OF inv]]
  note at = fanoutLoop_at [OF email_shapeD(6) [OF ok own] email_shapeD(9) [OF ok own] fan]
  obtain lost sub where o1: "offers (emLower (syMgr S)) (addressed i msgs) (subAt (syMgr S) s) = (lost, sub)" by fastforce
  have sub: "h ! s = sub" using at(2) [of s] s o1 by simp
  have lst: "fan_lost (syMgr S) a msgs s = lost"
    using own s o1 email_shapeD(3) [OF ok own] by (auto simp: fan_lost_def owns_def)
  obtain given where g: "esCh sub = esCh (subAt (syMgr S) s) @ given"
    "\<not> esClosed (subAt (syMgr S) s) \<Longrightarrow> mset given + mset lost = mset (filter (matches (emLower (syMgr S)) (subAt (syMgr S) s)) (addressed i msgs))"
    "sub = (subAt (syMgr S) s)\<lparr>esCh := esCh (subAt (syMgr S) s) @ given, esDropped := esDropped (subAt (syMgr S) s) + of_nat (length lost)\<rparr>"
    using offers_spec [OF o1] by blast
  have f: "esEmailID sub = i" "esEmailID (subAt (syMgr S) s) = i" "esFrom sub = esFrom (subAt (syMgr S) s)" "\<not> esClosed (subAt (syMgr S) s)"
    using g(3) email_shapeD(10,11) [OF ok own s] by simp_all
  show "got S' s msg" if "got S s msg"
    using that by (rule got_mono) (use S' sub f g(1) in \<open>auto simp: seen_def\<close>)
  show "got S' s msg" if msg: "msg \<in> set msgs"
  proof (cases "matches (emLower (syMgr S)) sub (msg\<lparr>msgEmailID := i\<rparr>)")
    case False
    then show ?thesis using S'(1) sub f by (simp add: got_def Let_def)
  next
    case True
    then have "matches (emLower (syMgr S)) (subAt (syMgr S) s) (msg\<lparr>msgEmailID := i\<rparr>)" using f(3) by (simp add: matches_def)
    with msg have "msg\<lparr>msgEmailID := i\<rparr> \<in> set (filter (matches (emLower (syMgr S)) (subAt (syMgr S) s)) (addressed i msgs))" by auto
    then have "msg\<lparr>msgEmailID := i\<rparr> \<in> set_mset (mset given + mset lost)" unfolding g(2) [OF f(4)] by (simp only: set_mset_mset)
    then have "msg\<lparr>msgEmailID := i\<rparr> \<in> set given \<union> set lost" by simp
    then show ?thesis using S' sub f g(1) lst by (auto simp: got_def seen_def Let_def)
  qed
qed

text \<open>What the deliveries of a listener look at.\<close>

lemma got_cong:
  "syMgr S' = syMgr S \<Longrightarrow> syTaken S' = syTaken S \<Longrightarrow> syLost S' s = syLost S s \<Longrightarrow> got S' s msg = got S s msg"
  by (simp add: got_def seen_def)

lemma quiet_store:
  assumes "syMgr S' = (syMgr S)\<lparr>emStore := st, emInventory := iv\<rparr>" "syTaken S' = syTaken S" "syLost S' = syLost S"
    "syFloor S' = syFloor S" "syBox S' = syBox S" "syLast S' = syLast S"
  shows "caught_up v S' i a ib = caught_up v S i a ib" "pc_ok v S' i a ib pc = pc_ok v S i a ib pc"
proof -
  have g: "got S' s msg = got S s msg" for s msg using assms(1-3) by (simp add: got_def seen_def)
  have l: "lnAt (syMgr S') a = lnAt (syMgr S) a" using assms(1) by simp
  show "caught_up v S' i a ib = caught_up v S i a ib"
    using assms(4,5) by (simp add: caught_up_def owed_to_def g l)
  show "pc_ok v S' i a ib pc = pc_ok v S i a ib pc"
    using assms(4-6) by (cases pc) (simp_all add: pc_ok_def g l)
qed

lemma own_delivering:
  assumes inv: "delivery_inv v S" and own: "get (emListeners (syMgr S)) i = Some a"
    and r: "get (emInventory (syMgr S)) i = Some e" "emInbox e = Some ib"
    and ans: "answers v S a ev (syPcs S ! a)"
    and run: "serve now a ev (syPcs S ! a) (syMgr S) = (pc', errs, drops, m')"
  shows "\<exists>e' ib'. get (emInventory m') i = Some e' \<and> emInbox e' = Some ib' \<and>
     (ibUIDValidity ib' = v i \<longrightarrow> ibLastUID ib' \<le> syLast S i) \<and>
     delivering v (S\<lparr>syMgr := m', syPcs := (syPcs S)[a := pc'],
        syFloor := lifted ev (syPcs S ! a) a S, syLost := dropped_in ev (syPcs S ! a) a S\<rparr>) i a ib'" (is "\<exists>e' ib'. _ \<and> _ \<and> _ \<and> delivering v ?S i a ib'")
proof -
  note d = delivery_invD [OF inv]
  note ok = email_inv_shape [OF d(1)]
  have id: "lnEmailID (lnAt (syMgr S) a) = i" using email_shapeD(3) [OF ok own] .
  have owns: "owns (syMgr S) a" using own id by (simp add: owns_def)
  have cur: "cursor a (syMgr S) = Some ib" using r owns id by (simp add: cursor_def)
  have al: "a < length (syPcs S)" using email_shapeD(2) [OF ok own] d(2) by (simp add: boxes_ok_def)
  have low: "ibUIDValidity ib = v i \<Longrightarrow> ibLastUID ib \<le> syLast S i"
    using d(2) r by (auto simp: boxes_ok_def cursors_written_def)
  have top: "msgUID msg \<le> syLast S i" if "msg \<in> set (syBox S i)" for msg using d(2) that by (auto simp: boxes_ok_def)
  have was: "caught_up v S i a ib" "pc_ok v S i a ib (syPcs S ! a)" using d(3) [OF own r] by (simp_all add: delivering_def)
  text \<open>Nothing but the program counter moves.\<close>
  have still: ?thesis if "m' = (syMgr S)\<lparr>emStore := st\<rparr>" "lifted ev (syPcs S ! a) a S = syFloor S"
    "dropped_in ev (syPcs S ! a) a S = syLost S" "pc_ok v S i a ib pc'" for st
  proof (intro exI conjI)
    have q: "syMgr ?S = (syMgr S)\<lparr>emStore := st, emInventory := emInventory (syMgr S)\<rparr>" using that(1) by simp
    show "get (emInventory m') i = Some e" "emInbox e = Some ib" using r that(1) by simp_all
    show "delivering v ?S i a ib"
      using quiet_store [OF q, of v i a ib] was(1) that al by (simp add: delivering_def)
  qed (use low in simp)
  have same: "(syMgr S)\<lparr>emStore := emStore (syMgr S)\<rparr> = syMgr S" by simp
  show ?thesis
  proof (cases "syPcs S ! a")
    case (Resetting b uidv lastUID)
    with was have pc: "uidv = v i" "lastUID \<le> syLast S i" by (simp_all add: pc_ok_def)
    show ?thesis
    proof (cases "ev = Go")
      case False
      then have "m' = syMgr S" "pc' = Resetting b uidv lastUID" using run Resetting by (auto split: levent.splits)
      with False Resetting was(2) same show ?thesis by (intro still [of "emStore (syMgr S)"]) (auto simp: lifted_def dropped_in_def split: levent.splits)
    next
      case True
      obtain err m1 where c: "advanceCursor now a uidv lastUID True (syMgr S) = (err, m1)" by fastforce
      then have m': "m' = m1" "pc' = (case err of None \<Rightarrow> Polling b uidv | Some _ \<Rightarrow> Sleeping b)"
        using run Resetting True by (auto simp: served_def split: option.splits)
      have fl: "syFloor ?S = (\<lambda>s. if s \<in> set (lnSubs (lnAt (syMgr S) a)) then max (syFloor S s) lastUID else syFloor S s)"
        "syLost ?S = syLost S" using True Resetting by (auto simp: lifted_def dropped_in_def fun_eq_iff)
      from c show ?thesis
      proof (cases rule: advanceCursor_cases)
        case unowned
        with cur show ?thesis by simp
      next
        case (failed x st)
        have g: "got ?S s msg = got S s msg" for s msg using failed(2) m' fl(2) by (simp add: got_def seen_def)
        have l: "lnAt (syMgr ?S) a = lnAt (syMgr S) a" "syBox ?S = syBox S" using failed(2) m' by simp_all
        have up: "syFloor S s \<le> lifted ev (syPcs S ! a) a S s" for s by (auto simp: lifted_def split: levent.splits lpc.splits)
        have "caught_up v ?S i a ib"
          using was(1) unfolding caught_up_def owed_to_def l g by (auto intro: le_less_trans [OF up])
        moreover have "pc' = Sleeping b" using m'(2) failed(1) by simp
        ultimately have "delivering v ?S i a ib" using al by (simp add: delivering_def pc_ok_def)
        with r low failed(2) m' show ?thesis by auto
      next
        case (moved e1 ib1 st)
        let ?ib = "ib1\<lparr>ibUIDValidity := uidv, ibLastUID := (if True \<or> lastUID > ibLastUID ib1 then lastUID else ibLastUID ib1)\<rparr>"
        have "caught_up v ?S i a ?ib" using moved(5) m' fl(1) by (auto simp: caught_up_def owed_to_def)
        moreover have "pc' = Polling b uidv" using m'(2) moved(1) by simp
        ultimately have "delivering v ?S i a ?ib" using al pc by (simp add: delivering_def pc_ok_def)
        with pc moved(5) m'(1) id show ?thesis
          by (intro exI [of _ "e1\<lparr>emInbox := Some ?ib, emUpdatedAt := now\<rparr>"] exI [of _ ?ib]) simp
      qed
    qed
  next
    case (Fanning b uidv cr msgs)
    with was obtain hi where pc: "uidv = v i" "ibUIDValidity ib = v i" "cr = ibLastUID ib" "hi \<le> syLast S i"
      "\<forall>msg \<in> set msgs. msgUID msg \<le> hi"
      "\<forall>msg \<in> set (syBox S i). cr < msgUID msg \<longrightarrow> msgUID msg \<le> hi \<longrightarrow> msg \<in> set msgs" by (auto simp: pc_ok_def)
    show ?thesis
    proof (cases "ev = Go")
      case False
      then have "m' = syMgr S" "pc' = Fanning b uidv cr msgs" using run Fanning by (auto split: levent.splits)
      with False Fanning was(2) same show ?thesis by (intro still [of "emStore (syMgr S)"]) (auto simp: lifted_def dropped_in_def split: levent.splits)
    next
      case True
      obtain mx h ds where f: "fanoutLoop (emLower (syMgr S)) i (lnSubs (lnAt (syMgr S) a)) msgs 0 (emSHeap (syMgr S), []) = (mx, h, ds)"
        by (metis prod_cases3)
      have m': "m' = (syMgr S)\<lparr>emSHeap := h\<rparr>" "pc' = (if mx > cr then Moving b uidv mx else Idling b uidv)"
        using run Fanning True f owns id by (auto simp: fanout_def)
      note at = fanoutLoop_at [OF email_shapeD(6) [OF ok own] email_shapeD(9) [OF ok own] f]
      have S': "syMgr ?S = (syMgr S)\<lparr>emSHeap := h\<rparr>" "syTaken ?S = syTaken S" "syLost ?S s = syLost S s @ fan_lost (syMgr S) a msgs s" for s
        using m' Fanning True by (simp_all add: dropped_in_def)
      have fl: "syFloor ?S = syFloor S" using True Fanning by (simp add: lifted_def fun_eq_iff)
      have new: "got ?S s msg" if "s \<in> set (lnSubs (lnAt (syMgr S) a))" "msg \<in> set msgs \<or> got S s msg" for s msg
        using fanned_got [OF inv own f that(1) S'] that(2) by blast
      have "caught_up v ?S i a ib" using was(1) m'(1) fl new by (auto simp: caught_up_def owed_to_def)
      moreover have "pc_ok v ?S i a ib pc'"
      proof (cases "mx > cr")
        case False
        with m' pc show ?thesis by (simp add: pc_ok_def)
      next
        case mv: True
        then have "mx \<noteq> 0" by auto
        with at(5) pc(5) have hi: "mx \<le> hi" by auto
        have "got ?S s msg" if "s \<in> set (lnSubs (lnAt (syMgr S) a))" "msg \<in> set (syBox S i)" "ibLastUID ib < msgUID msg" "msgUID msg \<le> mx" for s msg
          using new [OF that(1)] pc(3,6) that(2-4) hi by auto
        with mv m' pc hi fl show ?thesis by (auto simp: pc_ok_def)
      qed
      ultimately have "delivering v ?S i a ib" using al by (simp add: delivering_def)
      with r low m'(1) show ?thesis by auto
    qed
  next
    case (Moving b uidv mx)
    with was have pc: "uidv = v i" "ibUIDValidity ib = v i" "mx \<le> syLast S i"
      "\<And>s msg. s \<in> set (lnSubs (lnAt (syMgr S) a)) \<Longrightarrow> msg \<in> set (syBox S i) \<Longrightarrow> syFloor S s < msgUID msg \<Longrightarrow>
         ibLastUID ib < msgUID msg \<Longrightarrow> msgUID msg \<le> mx \<Longrightarrow> got S s msg" by (auto simp: pc_ok_def)
    show ?thesis
    proof (cases "ev = Go")
      case False
      then have "m' = syMgr S" "pc' = Moving b uidv mx" using run Moving by (auto split: levent.splits)
      with False Moving was(2) same show ?thesis by (intro still [of "emStore (syMgr S)"]) (auto simp: lifted_def dropped_in_def split: levent.splits)
    next
      case True
      obtain err m1 where c: "advanceCursor now a uidv mx False (syMgr S) = (err, m1)" by fastforce
      then have m': "m' = m1" "pc' = (case err of None \<Rightarrow> Idling b uidv | Some _ \<Rightarrow> Sleeping b)"
        using run Moving True by (auto simp: served_def split: option.splits)
      have fl: "lifted ev (syPcs S ! a) a S = syFloor S" "dropped_in ev (syPcs S ! a) a S = syLost S"
        using True Moving by (auto simp: lifted_def dropped_in_def fun_eq_iff)
      from c show ?thesis
      proof (cases rule: advanceCursor_cases)
        case unowned
        with cur show ?thesis by simp
      next
        case (failed x st)
        show ?thesis by (rule still [of st]) (use failed m' fl in \<open>simp_all add: pc_ok_def\<close>)
      next
        case (moved e1 ib1 st)
        have ib1: "ib1 = ib" using moved(3,4) r id by simp
        let ?ib = "ib\<lparr>ibUIDValidity := uidv, ibLastUID := (if False \<or> mx > ibLastUID ib then mx else ibLastUID ib)\<rparr>"
        have q: "syMgr ?S = (syMgr S)\<lparr>emStore := st, emInventory := emInventory m1\<rparr>" using moved(5) m' by simp
        have "got S s msg" if "s \<in> set (lnSubs (lnAt (syMgr S) a))" "msg \<in> set (syBox S i)" "syFloor S s < msgUID msg"
          "msgUID msg \<le> ibLastUID ?ib" for s msg
          using was(1) pc(2) pc(4) [OF that(1-3)] that by (cases "msgUID msg \<le> ibLastUID ib") (auto simp: caught_up_def owed_to_def split: if_splits)
        then have "caught_up v S i a ?ib" by (auto simp: caught_up_def owed_to_def)
        then have "caught_up v ?S i a ?ib" using quiet_store [OF q] fl by simp
        moreover have "pc' = Idling b uidv" using m'(2) moved(1) by simp
        ultimately have "delivering v ?S i a ?ib" using al pc by (simp add: delivering_def pc_ok_def)
        with pc low moved(5) m'(1) id ib1 show ?thesis
          by (intro exI [of _ "e1\<lparr>emInbox := Some ?ib, emUpdatedAt := now\<rparr>"] exI [of _ ?ib]) simp
      qed
    qed
  next
    case (Selecting b)
    note here = run [unfolded Selecting] was(2) [unfolded Selecting] ans [unfolded Selecting]
    with id here have fx: "m' = syMgr S" "pc_ok v S i a ib pc'"
      by (auto simp: served_def answers_def Let_def split: levent.splits sum.splits prod.splits)
    from Selecting show ?thesis
      by (intro still [of "emStore (syMgr S)"]) (use fx same in \<open>auto simp: lifted_def dropped_in_def split: levent.splits\<close>)
  next
    case (Fetching b uidv cr)
    note here = run [unfolded Fetching] was(2) [unfolded Fetching] ans [unfolded Fetching]
    from here have fx: "m' = syMgr S" by (auto simp: served_def split: levent.splits sum.splits)
    have "pc_ok v S i a ib pc'"
    proof (cases "\<exists>msgs. ev = Fetched (Inr msgs)")
      case True
      then obtain msgs where ev: "ev = Fetched (Inr msgs)" ..
      with here id have "msgs = filter (\<lambda>msg. cr < msgUID msg) (syBox S i)" "pc' = Fanning b uidv cr msgs"
        by (auto simp: answers_def Let_def)
      with here top show ?thesis by (auto simp: pc_ok_def intro!: exI [of _ "syLast S i"])
    next
      case False
      with here show ?thesis by (auto simp: served_def split: levent.splits sum.splits)
    qed
    note fx = fx this
    from Fetching show ?thesis
      by (intro still [of "emStore (syMgr S)"]) (use fx same in \<open>auto simp: lifted_def dropped_in_def split: levent.splits\<close>)
  next
    case (Reading b uidv lastUID)
    note here = run [unfolded Reading] was(2) [unfolded Reading]
    with cur here have fx: "m' = syMgr S" "pc_ok v S i a ib pc'"
      by (auto simp: served_def split: levent.splits if_splits)
    from Reading show ?thesis
      by (intro still [of "emStore (syMgr S)"]) (use fx same in \<open>auto simp: lifted_def dropped_in_def split: levent.splits\<close>)
  next
    case (Polling b uidv)
    note here = run [unfolded Polling] was(2) [unfolded Polling]
    with cur here have fx: "m' = syMgr S" "pc_ok v S i a ib pc'"
      by (auto simp: served_def split: levent.splits)
    from Polling show ?thesis
      by (intro still [of "emStore (syMgr S)"]) (use fx same in \<open>auto simp: lifted_def dropped_in_def split: levent.splits\<close>)
  next
    case (Idling b uidv)
    note here = run [unfolded Idling] was(2) [unfolded Idling]
    from here have fx: "m' = syMgr S" "pc_ok v S i a ib pc'"
      by (auto simp: served_def split: levent.splits option.splits prod.splits)
    from Idling show ?thesis
      by (intro still [of "emStore (syMgr S)"]) (use fx same in \<open>auto simp: lifted_def dropped_in_def split: levent.splits\<close>)
  next
    case (Top b)
    note here = run [unfolded Top] was(2) [unfolded Top]
    from here have fx: "m' = syMgr S" "pc_ok v S i a ib pc'"
      by (auto simp: served_def split: levent.splits if_splits)
    from Top show ?thesis
      by (intro still [of "emStore (syMgr S)"]) (use fx same in \<open>auto simp: lifted_def dropped_in_def split: levent.splits\<close>)
  next
    case (Dialing b)
    note here = run [unfolded Dialing] was(2) [unfolded Dialing]
    from here have fx: "m' = syMgr S" "pc_ok v S i a ib pc'"
      by (auto simp: served_def split: levent.splits option.splits prod.splits)
    from Dialing show ?thesis
      by (intro still [of "emStore (syMgr S)"]) (use fx same in \<open>auto simp: lifted_def dropped_in_def split: levent.splits\<close>)
  next
    case (Sleeping b)
    note here = run [unfolded Sleeping] was(2) [unfolded Sleeping]
    from here have fx: "m' = syMgr S" "pc_ok v S i a ib pc'"
      by (auto simp: served_def split: levent.splits if_splits)
    from Sleeping show ?thesis
      by (intro still [of "emStore (syMgr S)"]) (use fx same in \<open>auto simp: lifted_def dropped_in_def split: levent.splits\<close>)
  next
    case Exited
    note here = run [unfolded Exited] was(2) [unfolded Exited]
    from here have fx: "m' = syMgr S" "pc_ok v S i a ib pc'"
      by (auto simp: served_def split: levent.splits)
    from Exited show ?thesis
      by (intro still [of "emStore (syMgr S)"]) (use fx same in \<open>auto simp: lifted_def dropped_in_def split: levent.splits\<close>)
  qed
qed

section \<open>Every step, every reachable state\<close>

lemma unheard:
  assumes inv: "email_inv (syMgr S)" and own: "a < length (emLHeap (syMgr S))" "\<not> owns (syMgr S) a"
  shows "lifted ev pc a S = syFloor S" "dropped_in ev pc a S = syLost S"
proof -
  have "lnSubs (lnAt (syMgr S) a) = []" using email_shapeD(8) [OF email_inv_shape [OF inv] own] .
  then show "lifted ev pc a S = syFloor S"
    by (auto simp: lifted_def fun_eq_iff split: levent.splits lpc.splits)
  show "dropped_in ev pc a S = syLost S"
    using own by (auto simp: dropped_in_def fan_lost_def fun_eq_iff split: levent.splits lpc.splits)
qed

lemma serve_frame:
  assumes "serve now a ev pc m = (pc', errs, drops, m')"
  shows "emListeners m' = emListeners m" "emLHeap m' = emLHeap m"
    "j \<noteq> lnEmailID (lnAt m a) \<Longrightarrow> get (emInventory m') j = get (emInventory m) j"
proof -
  have "emListeners m' = emListeners m \<and> emLHeap m' = emLHeap m
      \<and> (j \<noteq> lnEmailID (lnAt m a) \<longrightarrow> get (emInventory m') j = get (emInventory m) j)"
    using assms
  proof (cases rule: serve_cases)
    case (fan b uidv cur msgs r ds)
    obtain mx owned where "r = (mx, owned)" by (cases r)
    with fan(3) have "fanout a msgs m = ((mx, owned), ds, m')" by simp
    then show ?thesis by (cases rule: fanout_cases) simp_all
  next
    case (reset b uidv lastUID err)
    from reset(3) show ?thesis by (cases rule: advanceCursor_cases) simp_all
  next
    case (move b uidv mx err)
    from move(3) show ?thesis by (cases rule: advanceCursor_cases) simp_all
  qed simp
  then show "emListeners m' = emListeners m" "emLHeap m' = emLHeap m"
    "j \<noteq> lnEmailID (lnAt m a) \<Longrightarrow> get (emInventory m') j = get (emInventory m) j" by blast+
qed

lemma step_unowned:
  assumes inv: "delivery_inv v S" and a: "a < length (syPcs S)" "\<not> owns (syMgr S) a"
    and run: "serve now a ev (syPcs S ! a) (syMgr S) = (pc', errs, drops, m')"
  shows "delivery_inv v (S\<lparr>syMgr := m', syPcs := (syPcs S)[a := pc'],
      syFloor := lifted ev (syPcs S ! a) a S, syLost := dropped_in ev (syPcs S ! a) a S\<rparr>)" (is "delivery_inv v ?S")
proof -
  note d = delivery_invD [OF inv]
  have al: "a < length (emLHeap (syMgr S))" using a(1) d(2) by (simp add: boxes_ok_def)
  have m': "m' = syMgr S" by (rule unowned_serve [OF d(1) al a(2) run])
  note same = unheard [OF d(1) al a(2)]
  show ?thesis
  proof (rule delivery_invI)
    show "email_inv (syMgr ?S)" using d(1) m' by simp
    show "boxes_ok v ?S" using d(2) m' by (simp add: boxes_ok_def)
  next
    fix j b e ib assume "get (emListeners (syMgr ?S)) j = Some b" "get (emInventory (syMgr ?S)) j = Some e" and ib: "emInbox e = Some ib"
    then have r: "get (emListeners (syMgr S)) j = Some b" "get (emInventory (syMgr S)) j = Some e" by (simp_all add: m')
    have "b \<noteq> a" using r(1) a(2) email_shapeD(3) [OF email_inv_shape [OF d(1)] r(1)] by (auto simp: owns_def)
    then show "delivering v ?S j b ib"
      by (intro delivering_mgr [OF d(3) [OF r ib] d(2) r(2) ib]) (simp_all add: m' same got_def seen_def)
  qed
qed

lemma step_owned:
  assumes inv: "delivery_inv v S" and own: "get (emListeners (syMgr S)) i = Some a"
    and ans: "answers v S a ev (syPcs S ! a)"
    and run: "serve now a ev (syPcs S ! a) (syMgr S) = (pc', errs, drops, m')"
  shows "delivery_inv v (S\<lparr>syMgr := m', syPcs := (syPcs S)[a := pc'],
      syFloor := lifted ev (syPcs S ! a) a S, syLost := dropped_in ev (syPcs S ! a) a S\<rparr>)" (is "delivery_inv v ?S")
proof -
  note d = delivery_invD [OF inv]
  note ok = email_inv_shape [OF d(1)]
  obtain e ib where r: "get (emInventory (syMgr S)) i = Some e" "emInbox e = Some ib"
    using ok own by (rule served_inbox)
  from own_delivering [OF inv own r ans run] obtain e' ib' where n: "get (emInventory m') i = Some e'" "emInbox e' = Some ib'"
    "ibUIDValidity ib' = v i \<Longrightarrow> ibLastUID ib' \<le> syLast S i" "delivering v ?S i a ib'" by blast
  have id: "lnEmailID (lnAt (syMgr S) a) = i" using email_shapeD(3) [OF ok own] .
  note frame = serve_frame [OF run]
  show ?thesis
  proof (rule delivery_invI)
    show "email_inv (syMgr ?S)" using serve_inv [OF d(1) run] by simp
    have "cursors_written v (syLast S) m'"
      unfolding cursors_written_def
    proof (intro allI impI)
      fix j e1 ib1 assume c: "get (emInventory m') j = Some e1" "emInbox e1 = Some ib1" "ibUIDValidity ib1 = v j"
      show "ibLastUID ib1 \<le> syLast S j"
        using c n frame(3) [of j] id d(2) by (cases "j = i") (auto simp: boxes_ok_def cursors_written_def)
    qed
    with d(2) frame(2) show "boxes_ok v ?S" by (simp add: boxes_ok_def)
  next
    fix j b e1 ib1 assume "get (emListeners (syMgr ?S)) j = Some b" and "get (emInventory (syMgr ?S)) j = Some e1"
      and ib1: "emInbox e1 = Some ib1"
    then have l: "get (emListeners (syMgr S)) j = Some b" and e1: "get (emInventory m') j = Some e1" by (simp_all add: frame(1))
    show "delivering v ?S j b ib1"
    proof (cases "j = i")
      case True
      with l e1 ib1 own n show ?thesis by simp
    next
      case False
      with e1 have "get (emInventory (syMgr S)) j = Some e1" using frame(3) id by simp
      from other_delivering [OF inv run own l this ib1 False] show ?thesis by blast
    qed
  qed
qed

theorem delivery_step:
  assumes inv: "delivery_inv v S" and step: "email_step v S S'"
  shows "delivery_inv v S'"
  using step
proof cases
  case (add e now)
  then show ?thesis using step_add [OF inv add(2), of now "fst (email_Add now e (syMgr S))"] by simp
next
  case (delete w i)
  show ?thesis unfolding delete
    by (rule step_delete [OF inv, of w i "fst (fst (email_Delete w i (syMgr S)))" "snd (fst (email_Delete w i (syMgr S)))"]) simp
next
  case (guard g)
  then have m: "syMgr S' = GuardDeletes g (syMgr S)" by simp
  show ?thesis
  proof (rule delivery_invI)
    note d = delivery_invD [OF inv]
    show "email_inv (syMgr S')" using d(1) m by (simp add: GuardDeletes_def email_inv_def)
    show "boxes_ok v S'" using d(2) guard by (simp add: boxes_ok_def cursors_written_def GuardDeletes_def)
    fix i a e ib assume "get (emListeners (syMgr S')) i = Some a" "get (emInventory (syMgr S')) i = Some e" and ib: "emInbox e = Some ib"
    then have r: "get (emListeners (syMgr S)) i = Some a" "get (emInventory (syMgr S)) i = Some e"
      using m by (simp_all add: GuardDeletes_def)
    show "delivering v S' i a ib"
      by (rule delivering_mgr [OF d(3) [OF r ib] d(2) r(2) ib]) (auto simp: guard got_def seen_def GuardDeletes_def)
  qed
next
  case (listen t i opts s since m')
  then show ?thesis using step_listen [OF inv listen(2)] by simp
next
  case (unlisten s m')
  then show ?thesis using step_unlisten [OF inv unlisten(2,3)] by simp
next
  case (close m')
  then show ?thesis using step_close [OF inv close(2)] by simp
next
  case (backfilled s i msgs errs drops m')
  then show ?thesis using step_backfilled [OF inv backfilled(2,4)] by simp
next
  case (taken s msg m')
  then show ?thesis using step_taken [OF inv taken(2,3)] by simp
next
  case (goroutine a ev now pc' errs drops m')
  show ?thesis
  proof (cases "owns (syMgr S) a")
    case True
    then obtain i where "get (emListeners (syMgr S)) i = Some a" by (auto simp: owns_def)
    then show ?thesis unfolding goroutine(1) using step_owned [OF inv _ goroutine(3,4)] by blast
  next
    case False
    then show ?thesis unfolding goroutine(1) using step_unowned [OF inv goroutine(2) _ goroutine(4)] by blast
  qed
next
  case (arrives i msg)
  have low: "msgUID msg1 \<le> syLast S j" if "msg1 \<in> set (syBox S j)" for msg1 j
    using delivery_invD(2) [OF inv] that by (auto simp: boxes_ok_def)
  then have old: "msgUID msg1 \<le> msgUID msg" if "msg1 \<in> set (syBox S i)" for msg1
    using that arrives(2) by (meson le_less_trans less_imp_le)
  show ?thesis unfolding arrives(1)
    by (rule step_inbox [OF inv]) (use low old arrives(2) in \<open>auto split: if_splits\<close>)
next
  case (expunged i P)
  have s': "S' = S\<lparr>syBox := (syBox S)(i := filter P (syBox S i)), syLast := syLast S\<rparr>" using expunged by simp
  show ?thesis unfolding s'
    by (rule step_inbox [OF inv]) (use delivery_invD(2) [OF inv] in \<open>auto simp: boxes_ok_def split: if_splits\<close>)
qed

theorem reachable_delivery: "email_reachable v S \<Longrightarrow> delivery_inv v S"
proof (induction rule: email_reachable.induct)
  case (boot lower repo opts st m st' lasts boxes)
  from NewManager_email_inv [OF boot(1)] boot show ?case
    by (intro delivery_invI) (auto simp: boxes_ok_def cursors_written_def)
qed (rule delivery_step)

end
