(* ===== verification/Email_Demo.thy ===== *)
theory Email_Demo
  imports Email_Delivery
begin

text \<open>
  A run of the email process by hand: an email with a Gmail inbox is added, a task listens to it, a
  message arrives before the session of the new listener has selected the mailbox and another one
  afterwards, and the listener fetches, delivers and moves its cursor. It meets the hypotheses of the
  theorems about the email manager.
\<close>

definition drive :: "time \<Rightarrow> nat \<Rightarrow> levent \<Rightarrow> ('s, 'w) esys \<Rightarrow> ('s, 'w) esys" where
  "drive now a ev S =
     (case serve now a ev (syPcs S ! a) (syMgr S) of
        (pc', errs, drops, m') \<Rightarrow>
          S\<lparr>syMgr := m', syPcs := (syPcs S)[a := pc'],
            syFloor := lifted ev (syPcs S ! a) a S, syLost := dropped_in ev (syPcs S ! a) a S\<rparr>)"

lemma drive_reachable:
  assumes "email_reachable v S" "a < length (syPcs S)" "answers v S a ev (syPcs S ! a)"
  shows "email_reachable v (drive now a ev S)"
proof -
  obtain pc' errs drops m' where "serve now a ev (syPcs S ! a) (syMgr S) = (pc', errs, drops, m')"
    using prod_cases4 by blast
  with email_step.goroutine [OF assms(2,3) this] assms(1) show ?thesis
    by (simp add: drive_def email_reachable.step)
qed

lemma ghosts [simp]:
  "lifted Go (Resetting b uidv uid) a S =
     (\<lambda>s. if s \<in> set (lnSubs (lnAt (syMgr S) a)) then max (syFloor S s) uid else syFloor S s)"
  "lifted Go (Fanning b uidv cur msgs) a S = syFloor S" "lifted Go (Moving b uidv mx) a S = syFloor S"
  "dropped_in Go (Resetting b uidv uid) a S = syLost S" "dropped_in Go (Moving b uidv mx) a S = syLost S"
  "dropped_in Go (Fanning b uidv cur msgs) a S = (\<lambda>s. syLost S s @ fan_lost (syMgr S) a msgs s)"
  by (simp_all add: lifted_def dropped_in_def fun_eq_iff)

definition de_auth :: auth where
  "de_auth = \<lparr>auKind = AuthPassword, auUsername = [], auPassword = ''pw'', auClientID = [],
     auClientSecret = [], auRefreshToken = [], auTokenURL = []\<rparr>"

definition de_inbox :: "32 word \<Rightarrow> 32 word \<Rightarrow> inbox" where
  "de_inbox uid val = \<lparr>ibVendor = Gmail, ibAuth = de_auth, ibLastUID = uid, ibUIDValidity = val\<rparr>"

definition de_email :: "time \<Rightarrow> time \<Rightarrow> inbox \<Rightarrow> email" where
  "de_email c u ib = \<lparr>emID = ''in'', emAddress = ''me'', emInbox = Some ib, emCreatedAt = c, emUpdatedAt = u\<rparr>"

definition de_msg :: "string \<Rightarrow> 32 word \<Rightarrow> message" where
  "de_msg i uid = \<lparr>msgEmailID = i, msgUID = uid, msgMessageID = ''id'', msgFrom = ''bank'', msgTo = [],
     msgSubject = ''code'', msgDate = 0, msgText = [], msgHTML = []\<rparr>"

definition de_sub :: "message list \<Rightarrow> esub" where
  "de_sub ch = \<lparr>esEmailID = ''in'', esTaskID = ''t'', esFrom = [], esBuffer = 64, esCh = ch, esDropped = 0,
     esClosed = False\<rparr>"

definition de_mgr :: "(string, email) gomap \<Rightarrow> (string, nat) gomap \<Rightarrow> elistener list \<Rightarrow> esub list \<Rightarrow> (unit, 'w) emgr" where
  "de_mgr iv ls lh sh = \<lparr>emRepo = email_noopRepository, emStore = (), emLower = (\<lambda>x. x), emDropHandler = False,
     emErrHandler = False, emGuard = None, emInventory = iv, emListeners = ls, emLHeap = lh, emSHeap = sh,
     emClosed = False\<rparr>"

definition de_listener :: elistener where
  "de_listener = \<lparr>lnEmailID = ''in'', lnEmail = de_email 1 1 (de_inbox 0 0), lnSubs = [0], lnStop = False\<rparr>"

text \<open>The states of the run while the task listens: the stored email, the channel, where the goroutine
  stands, the mailbox and its last UID, the floor of the subscription.\<close>

definition de_sys :: "email \<Rightarrow> message list \<Rightarrow> lpc \<Rightarrow> message list \<Rightarrow> 32 word \<Rightarrow> 32 word \<Rightarrow> (unit, unit) esys" where
  "de_sys e ch pc box lst flr =
     \<lparr>syMgr = de_mgr [(''in'', e)] [(''in'', 0)] [de_listener] [de_sub ch], syPcs = [pc],
      syBox = (\<lambda>_. [])(''in'' := box), syLast = (\<lambda>_. 0)(''in'' := lst), syFloor = (\<lambda>_. 0)(0 := flr),
      syTaken = (\<lambda>_. []), syLost = (\<lambda>_. [])\<rparr>"

definition de_empty :: "(unit, 'w) esys" where
  "de_empty = \<lparr>syMgr = de_mgr [] [] [] [], syPcs = [], syBox = (\<lambda>_. []), syLast = (\<lambda>_. 0),
     syFloor = (\<lambda>_. 0), syTaken = (\<lambda>_. []), syLost = (\<lambda>_. [])\<rparr>"

definition de_val :: "string \<Rightarrow> 32 word" where "de_val = (\<lambda>_. 7)"

lemmas de_defs = de_auth_def de_inbox_def de_email_def de_msg_def de_sub_def de_mgr_def de_listener_def
  de_sys_def de_empty_def de_val_def

lemma de_boot: "email_reachable de_val de_empty"
proof -
  have "email_NewManager (\<lambda>x. x) None [] () = (Inr (de_mgr [] [] [] []), ())"
    by (simp add: email_NewManager_def email_noopRepository_def de_defs Let_def)
  then show ?thesis unfolding de_empty_def
    by (rule email_reachable.boot) (simp_all add: cursors_written_def de_defs)
qed

definition de_listening :: "message list \<Rightarrow> 32 word \<Rightarrow> (unit, unit) esys" where
  "de_listening box lst = de_sys (de_email 1 1 (de_inbox 0 0)) [] (Top backoffFloor) box lst 0"

lemma de_added: "email_Add 1 (de_email 0 0 (de_inbox 0 0)) (de_mgr [] [] [] [])
    = (None, de_mgr [(''in'', de_email 1 1 (de_inbox 0 0))] [] [] [])"
  by (simp add: email_Add_def de_defs validateInbox_def endpoint_def vendor_defs email_noopRepository_def Let_def)

lemma de_listened: "Listen ''t'' ''in'' [] (de_mgr [(''in'', de_email 1 1 (de_inbox 0 0))] [] [] [])
    = (Inr (0, 0), de_mgr [(''in'', de_email 1 1 (de_inbox 0 0))] [(''in'', 0)] [de_listener] [de_sub []])"
  by (simp add: Listen_def de_defs attach_def newListener_def)

definition de_stocked :: "(unit, 'w) esys" where
  "de_stocked = de_empty\<lparr>syMgr := de_mgr [(''in'', de_email 1 1 (de_inbox 0 0))] [] [] []\<rparr>"

lemma de_stocked_reachable: "email_reachable de_val (de_stocked :: (unit, 'w) esys)"
proof -
  let ?S = "de_empty :: (unit, 'w) esys"
  have "email_step de_val ?S (?S\<lparr>syMgr := snd (email_Add 1 (de_email 0 0 (de_inbox 0 0)) (syMgr ?S))\<rparr>)"
    by (rule email_step.add) (simp add: de_defs)
  then have "email_step de_val ?S de_stocked" by (simp add: de_stocked_def de_empty_def de_added)
  with de_boot show ?thesis by (rule email_reachable.step)
qed

lemma de_listening_reachable: "email_reachable de_val (de_listening [] 0)"
proof -
  let ?S = "de_stocked :: (unit, unit) esys"
  let ?m = "de_mgr [(''in'', de_email 1 1 (de_inbox 0 0))] [(''in'', 0)] [de_listener] [de_sub []] :: (unit, unit) emgr"
  have l: "Listen ''t'' ''in'' [] (syMgr ?S) = (Inr (0, 0), ?m)" using de_listened by (simp add: de_stocked_def)
  have eq: "de_listening [] 0 = ?S\<lparr>syMgr := ?m,
      syPcs := syPcs ?S @ replicate (length (emLHeap ?m) - length (emLHeap (syMgr ?S))) (Top backoffFloor),
      syFloor := (syFloor ?S)(0 := syLast ?S ''in'')\<rparr>"
    by (simp add: de_listening_def de_stocked_def de_empty_def de_sys_def de_mgr_def fun_eq_iff)
  have "email_step de_val ?S (de_listening [] 0)" unfolding eq by (rule email_step.listen [OF l])
  with de_stocked_reachable show ?thesis by (rule email_reachable.step)
qed

lemma de_arrives:
  assumes "email_reachable de_val (de_sys e ch pc box lst flr)" "lst < msgUID msg"
  shows "email_reachable de_val (de_sys e ch pc (box @ [msg]) (msgUID msg) flr)"
proof -
  have "de_sys e ch pc (box @ [msg]) (msgUID msg) flr =
      (de_sys e ch pc box lst flr)\<lparr>syBox := (syBox (de_sys e ch pc box lst flr))(''in'' := syBox (de_sys e ch pc box lst flr) ''in'' @ [msg]),
        syLast := (syLast (de_sys e ch pc box lst flr))(''in'' := msgUID msg)\<rparr>"
    by (simp add: de_sys_def)
  with email_step.arrives [of "de_sys e ch pc box lst flr" "''in''" msg de_val] assms show ?thesis
    by (simp add: email_reachable.step de_sys_def)
qed

lemma de_drive:
  assumes "email_reachable de_val (de_sys e ch pc box lst flr)"
    "answers de_val (de_sys e ch pc box lst flr) 0 ev pc"
    "drive now 0 ev (de_sys e ch pc box lst flr) = S'"
  shows "email_reachable de_val S'"
  using drive_reachable [OF assms(1), of 0 ev now] assms by (simp add: de_sys_def)

text \<open>A goroutine step that leaves the manager and the ghosts alone.\<close>

lemma de_pc:
  assumes "serve now 0 ev pc (syMgr (de_sys e ch pc box lst flr)) = (pc', [], [], syMgr (de_sys e ch pc box lst flr))"
    "\<And>b u x msgs. ev = Go \<Longrightarrow> pc \<noteq> Resetting b u x \<and> pc \<noteq> Fanning b u x msgs"
  shows "drive now 0 ev (de_sys e ch pc box lst flr) = de_sys e ch pc' box lst flr"
proof -
  have "lifted ev pc 0 (de_sys e ch pc box lst flr) = syFloor (de_sys e ch pc box lst flr)"
    "dropped_in ev pc 0 (de_sys e ch pc box lst flr) = syLost (de_sys e ch pc box lst flr)"
    using assms(2) by (auto simp: lifted_def dropped_in_def fun_eq_iff split: levent.splits lpc.splits)
  with assms(1) show ?thesis by (simp add: drive_def de_sys_def)
qed

abbreviation de_first :: email where "de_first \<equiv> de_email 1 1 (de_inbox 0 0)"
abbreviation de_reset :: email where "de_reset \<equiv> de_email 1 2 (de_inbox 3 7)"
abbreviation de_moved :: email where "de_moved \<equiv> de_email 1 3 (de_inbox 5 7)"
abbreviation de_mail :: "message list" where "de_mail \<equiv> [de_msg [] 3, de_msg [] 5]"

lemma de_cursor:
  "cursor 0 (syMgr (de_sys (de_email c u ib) ch pc box lst flr)) = Some ib"
  by (simp add: cursor_def owns_def de_sys_def de_mgr_def de_listener_def de_email_def)

lemma de_advanced:
  "advanceCursor now 0 7 uid r (syMgr (de_sys (de_email c u (de_inbox old val)) ch pc box lst flr)) =
     (None, syMgr (de_sys (de_email c now (de_inbox (if r \<or> uid > old then uid else old) 7)) ch pc box lst flr))"
  by (simp add: advanceCursor_def owns_def de_sys_def de_mgr_def de_listener_def de_email_def de_inbox_def
      email_noopRepository_def Let_def)

text \<open>The mail that came before the session selected the mailbox is below the cursor the reset writes.\<close>

lemma de_polling: "email_reachable de_val (de_sys de_reset [] (Polling backoffFloor 7) [de_msg [] 3] 3 3)"
proof -
  let ?b = "backoffFloor" and ?box = "[de_msg [] 3]"
  have "email_reachable de_val (de_sys de_first [] (Top ?b) ?box 3 0)"
    using de_arrives [of de_first "[]" "Top ?b" "[]" 0 0 "de_msg [] 3"] de_listening_reachable by (simp add: de_listening_def de_msg_def)
  then have "email_reachable de_val (de_sys de_first [] (Dialing ?b) ?box 3 0)"
    by (rule de_drive [where ev = Go, OF _ _ de_pc]) (simp_all add: answers_def de_sys_def de_mgr_def de_listener_def)
  then have "email_reachable de_val (de_sys de_first [] (Selecting ?b) ?box 3 0)"
    by (rule de_drive [where ev = "Dialed None", OF _ _ de_pc]) (simp_all add: answers_def)
  then have "email_reachable de_val (de_sys de_first [] (Reading ?b 7 3) ?box 3 0)"
    by (rule de_drive [where ev = "Selected (Inr (7, 3))", OF _ _ de_pc])
      (simp_all add: answers_def de_sys_def de_mgr_def de_listener_def de_val_def)
  then have r: "email_reachable de_val (de_sys de_first [] (Resetting ?b 7 3) ?box 3 0)"
    by (rule de_drive [where ev = Go, OF _ _ de_pc]) (simp_all add: answers_def de_cursor de_inbox_def)
  show ?thesis
  proof (rule de_drive [where ev = Go and now = 2, OF r])
    show "drive 2 0 Go (de_sys de_first [] (Resetting ?b 7 3) ?box 3 0) = de_sys de_reset [] (Polling ?b 7) ?box 3 3"
      using de_advanced [of 2 3 True 1 1 0 0 "[]" "Resetting ?b 7 3" ?box 3 0]
      by (simp add: drive_def) (simp add: de_sys_def de_mgr_def de_listener_def fun_eq_iff)
  qed (simp add: answers_def)
qed

text \<open>The later mail is fetched, put into the channel and only then passed by the cursor.\<close>

lemma de_fanning: "email_reachable de_val (de_sys de_reset [] (Fanning backoffFloor 7 3 [de_msg [] 5]) de_mail 5 3)"
proof -
  let ?b = "backoffFloor"
  have "email_reachable de_val (de_sys de_reset [] (Polling ?b 7) de_mail 5 3)"
    using de_arrives [OF de_polling, of "de_msg [] 5"] by (simp add: de_msg_def)
  then have "email_reachable de_val (de_sys de_reset [] (Fetching ?b 7 3) de_mail 5 3)"
    by (rule de_drive [where ev = Go, OF _ _ de_pc]) (simp_all add: answers_def de_cursor de_inbox_def)
  then show ?thesis
    by (rule de_drive [where ev = "Fetched (Inr [de_msg [] 5])", OF _ _ de_pc])
      (simp_all add: answers_def de_sys_def de_mgr_def de_listener_def de_msg_def)
qed

lemma de_fanout:
  "fanout 0 [de_msg [] 5] (syMgr (de_sys e [] pc box lst flr)) =
     ((5, True), [], syMgr (de_sys e [de_msg ''in'' 5] pc box lst flr))"
  by (simp add: fanout_def owns_def reportDrops_def de_sys_def de_mgr_def de_listener_def de_sub_def offer_def matches_def de_msg_def)

lemma de_final: "email_reachable de_val (de_sys de_moved [de_msg ''in'' 5] (Idling backoffFloor 7) de_mail 5 3)"
proof -
  let ?b = "backoffFloor"
  have mv: "email_reachable de_val (de_sys de_reset [de_msg ''in'' 5] (Moving ?b 7 5) de_mail 5 3)"
  proof (rule de_drive [where ev = Go and now = 3, OF de_fanning])
    have "fan_lost (syMgr (de_sys de_reset [] pc de_mail 5 3)) 0 [de_msg [] 5] s = []" for pc s
      by (simp add: fan_lost_def owns_def offer_def matches_def de_sys_def de_mgr_def de_listener_def de_sub_def)
    then show "drive 3 0 Go (de_sys de_reset [] (Fanning ?b 7 3 [de_msg [] 5]) de_mail 5 3)
        = de_sys de_reset [de_msg ''in'' 5] (Moving ?b 7 5) de_mail 5 3"
      using de_fanout [of de_reset "Fanning ?b 7 3 [de_msg [] 5]" de_mail 5 3]
      by (simp add: drive_def) (simp add: de_sys_def)
  qed (simp add: answers_def)
  show ?thesis
  proof (rule de_drive [where ev = Go and now = 3, OF mv])
    show "drive 3 0 Go (de_sys de_reset [de_msg ''in'' 5] (Moving ?b 7 5) de_mail 5 3)
        = de_sys de_moved [de_msg ''in'' 5] (Idling ?b 7) de_mail 5 3"
      using de_advanced [of 3 5 False 1 2 3 7 "[de_msg ''in'' 5]" "Moving ?b 7 5" de_mail 5 3]
      by (simp add: drive_def) (simp add: de_sys_def)
  qed (simp add: answers_def)
qed

end
