(* ===== verification/Email_Properties.thy ===== *)
theory Email_Properties
  imports Email_Demo
begin

text \<open>
  The properties of the email package: what a listener delivers and where its cursor may stand, when an
  inbox has a listener, that closing never panics, what a fan-out puts where, how a listener that lost
  its inbox winds down, what a deletion refuses, how sessions back off and what a fetch returns. The
  witnesses are taken from the run of \<^theory_text>\<open>Email_Demo\<close>.
\<close>

lemma reachable_email_inv: "email_reachable v S \<Longrightarrow> email_inv (syMgr S)"
  using delivery_invD(1) [OF reachable_delivery] .

section \<open>Delivery\<close>



text \<open>What the floor of the theorem leaves out: on an inbox nobody has listened to, mail that arrives after
  Listen and before the first session has selected the mailbox is below the cursor that session
  installs. The listening task never receives it.\<close>

theorem mail_before_the_first_select_is_skipped:
  "\<exists>S :: (unit, unit) esys. email_reachable de_val S \<and> lnSubs (lnAt (syMgr S) 0) = [0] \<and> de_msg [] 3 \<in> set (syBox S ''in'')
     \<and> cursor 0 (syMgr S) = Some (de_inbox 5 7) \<and> esCh (subAt (syMgr S) 0) = [de_msg ''in'' 5]
     \<and> syTaken S 0 = [] \<and> syLost S 0 = [] \<and> matches (emLower (syMgr S)) (subAt (syMgr S) 0) (de_msg [] 3)"
proof (intro exI conjI)
  let ?S = "de_sys de_moved [de_msg ''in'' 5] (Idling backoffFloor 7) de_mail 5 3"
  show "email_reachable de_val ?S" by (rule de_final)
  show "cursor 0 (syMgr ?S) = Some (de_inbox 5 7)" by (rule de_cursor)
qed (simp_all add: de_defs matches_def)

text \<open>C11. A fan-out is the offer of the whole batch to each subscription of the listener alone, whatever the
  order in which the set of subscriptions is visited: to each it appends what its filter admits and
  its buffer takes, in order, counts the rest as dropped, and drops nothing while there is room. No other
  subscription is touched.\<close>

theorem fanout_reaches_everybody:
  assumes "email_reachable v S" "owns (syMgr S) a" "fanout a msgs (syMgr S) = ((mx, owned), drops, m')"
  shows "owned \<and> (\<forall>msg \<in> set msgs. msgUID msg \<le> mx)
    \<and> (\<forall>s \<in> set (lnSubs (lnAt (syMgr S) a)). \<exists>given lost.
         subAt m' s = (subAt (syMgr S) s)\<lparr>esCh := esCh (subAt (syMgr S) s) @ given,
           esDropped := esDropped (subAt (syMgr S) s) + of_nat (length lost)\<rparr>
         \<and> subseq given (addressed (lnEmailID (lnAt (syMgr S) a)) msgs)
         \<and> mset given + mset lost =
             mset (filter (matches (emLower (syMgr S)) (subAt (syMgr S) s)) (addressed (lnEmailID (lnAt (syMgr S) a)) msgs))
         \<and> (lost \<noteq> [] \<longrightarrow> int (length (esCh (subAt m' s))) = esBuffer (subAt m' s)))
    \<and> (\<forall>s. s \<notin> set (lnSubs (lnAt (syMgr S) a)) \<longrightarrow> subAt m' s = subAt (syMgr S) s)"
proof -
  note ok = email_inv_shape [OF reachable_email_inv [OF assms(1)]]
  define i where "i = lnEmailID (lnAt (syMgr S) a)"
  have own: "get (emListeners (syMgr S)) i = Some a" using assms(2) by (simp add: owns_def i_def)
  from assms(3,2) obtain h ds where f: "owned" "m' = (syMgr S)\<lparr>emSHeap := h\<rparr>"
    "fanoutLoop (emLower (syMgr S)) i (lnSubs (lnAt (syMgr S) a)) msgs 0 (emSHeap (syMgr S), []) = (mx, h, ds)"
    unfolding i_def by (cases rule: fanout_cases) simp_all
  note at = fanoutLoop_at [OF email_shapeD(6) [OF ok own] email_shapeD(9) [OF ok own] f(3)]
  have each: "\<exists>given lost. subAt m' s = (subAt (syMgr S) s)\<lparr>esCh := esCh (subAt (syMgr S) s) @ given,
           esDropped := esDropped (subAt (syMgr S) s) + of_nat (length lost)\<rparr>
         \<and> subseq given (addressed i msgs)
         \<and> mset given + mset lost = mset (filter (matches (emLower (syMgr S)) (subAt (syMgr S) s)) (addressed i msgs))
         \<and> (lost \<noteq> [] \<longrightarrow> int (length (esCh (subAt m' s))) = esBuffer (subAt m' s))"
    if s: "s \<in> set (lnSubs (lnAt (syMgr S) a))" for s
  proof -
    obtain lost sub where o1: "offers (emLower (syMgr S)) (addressed i msgs) (subAt (syMgr S) s) = (lost, sub)" by fastforce
    then have sub: "subAt m' s = sub" using at(2) [of s] s f(2) by simp
    have room: "int (length (esCh (subAt (syMgr S) s))) \<le> esBuffer (subAt (syMgr S) s)" "\<not> esClosed (subAt (syMgr S) s)"
      using email_shapeD(14) [OF ok email_shapeD(9) [OF ok own s]] email_shapeD(11) [OF ok own s] by simp_all
    from o1 show ?thesis
    proof (rule offers_spec)
      fix given assume "subseq given (addressed i msgs)"
        "\<not> esClosed (subAt (syMgr S) s) \<Longrightarrow> mset given + mset lost =
           mset (filter (matches (emLower (syMgr S)) (subAt (syMgr S) s)) (addressed i msgs))"
        "sub = (subAt (syMgr S) s)\<lparr>esCh := esCh (subAt (syMgr S) s) @ given,
           esDropped := esDropped (subAt (syMgr S) s) + of_nat (length lost)\<rparr>"
        "int (length (esCh (subAt (syMgr S) s))) \<le> esBuffer (subAt (syMgr S) s) \<Longrightarrow> lost \<noteq> [] \<Longrightarrow>
           int (length (esCh sub)) = esBuffer sub"
      with room show ?thesis unfolding sub by (intro exI [of _ given] exI [of _ lost]) blast
    qed
  qed
  show ?thesis using f(1,2) at(2,4) each unfolding i_def by simp
qed

theorem fanout_reaches_everybody_witness:
  "\<exists>m'. fanout 0 [de_msg [] 5] (syMgr (de_sys de_reset [] (Fanning backoffFloor 7 3 [de_msg [] 5]) de_mail 5 3))
      = ((5, True), [], m') \<and> subseq (esCh (subAt m' 0)) [de_msg ''in'' 5]"
proof -
  let ?S = "de_sys de_reset [] (Fanning backoffFloor 7 3 [de_msg [] 5]) de_mail 5 3"
  let ?m = "syMgr (de_sys de_reset [de_msg ''in'' 5] (Fanning backoffFloor 7 3 [de_msg [] 5]) de_mail 5 3)"
  have own: "owns (syMgr ?S) 0" by (simp add: owns_def de_sys_def de_mgr_def de_listener_def)
  have subs: "0 \<in> set (lnSubs (lnAt (syMgr ?S) 0))" by (simp add: de_sys_def de_mgr_def de_listener_def)
  from fanout_reaches_everybody [OF de_fanning own de_fanout, THEN conjunct2, THEN conjunct2, THEN conjunct1,
      THEN bspec, OF subs]
  obtain given and lost :: "message list" where g: "subAt ?m 0 = (subAt (syMgr ?S) 0)\<lparr>esCh := esCh (subAt (syMgr ?S) 0) @ given,
      esDropped := esDropped (subAt (syMgr ?S) 0) + of_nat (length lost)\<rparr>"
    "subseq given (addressed (lnEmailID (lnAt (syMgr ?S) 0)) [de_msg [] 5])" by blast
  have "esCh (subAt ?m 0) = esCh (subAt (syMgr ?S) 0) @ given" by (subst g(1)) simp
  moreover have "esCh (subAt (syMgr ?S) 0) = []" "lnEmailID (lnAt (syMgr ?S) 0) = ''in''" by (simp_all add: de_defs)
  ultimately have "subseq (esCh (subAt ?m 0)) [de_msg ''in'' 5]" using g(2) by (simp add: de_msg_def)
  with de_fanout show ?thesis by blast
qed

section \<open>The shape of the process\<close>

text \<open>C12. One listener per inbox that somebody listens to, and none else: an email has a registered listener
  exactly while some subscription to it is open, that listener is running and serves exactly the open
  subscriptions of its inbox, and every listener that is not registered has been told to stop and serves
  nobody.\<close>

theorem listener_while_somebody_listens:
  assumes "email_reachable v S"
  shows "(get (emListeners (syMgr S)) i \<noteq> None \<longleftrightarrow>
      (\<exists>s < length (emSHeap (syMgr S)). esEmailID (subAt (syMgr S) s) = i \<and> \<not> esClosed (subAt (syMgr S) s)))
    \<and> (\<forall>a. get (emListeners (syMgr S)) i = Some a \<longrightarrow>
         a < length (syPcs S) \<and> \<not> lnStop (lnAt (syMgr S) a) \<and> distinct (lnSubs (lnAt (syMgr S) a))
         \<and> set (lnSubs (lnAt (syMgr S) a)) =
             {s. s < length (emSHeap (syMgr S)) \<and> esEmailID (subAt (syMgr S) s) = i \<and> \<not> esClosed (subAt (syMgr S) s)})
    \<and> (\<forall>a < length (syPcs S). \<not> owns (syMgr S) a \<longrightarrow> lnStop (lnAt (syMgr S) a) \<and> lnSubs (lnAt (syMgr S) a) = [])"
proof -
  note d = delivery_invD [OF reachable_delivery [OF assms]]
  note ok = email_inv_shape [OF d(1)]
  have pcs: "length (syPcs S) = length (emLHeap (syMgr S))" using d(2) by (simp add: boxes_ok_def)
  have subs: "set (lnSubs (lnAt (syMgr S) a)) =
      {s. s < length (emSHeap (syMgr S)) \<and> esEmailID (subAt (syMgr S) s) = i \<and> \<not> esClosed (subAt (syMgr S) s)}"
    if own: "get (emListeners (syMgr S)) i = Some a" for a
  proof (intro set_eqI iffI)
    fix s assume "s \<in> set (lnSubs (lnAt (syMgr S) a))"
    then show "s \<in> {s. s < length (emSHeap (syMgr S)) \<and> esEmailID (subAt (syMgr S) s) = i \<and> \<not> esClosed (subAt (syMgr S) s)}"
      using email_shapeD(9-11) [OF ok own] by blast
  next
    fix s assume s: "s \<in> {s. s < length (emSHeap (syMgr S)) \<and> esEmailID (subAt (syMgr S) s) = i \<and> \<not> esClosed (subAt (syMgr S) s)}"
    with ok obtain b where "get (emListeners (syMgr S)) i = Some b" "s \<in> set (lnSubs (lnAt (syMgr S) b))"
      using open_attached [of "syMgr S" s] by blast
    with own show "s \<in> set (lnSubs (lnAt (syMgr S) a))" by simp
  qed
  have "get (emListeners (syMgr S)) i \<noteq> None \<longleftrightarrow>
      (\<exists>s < length (emSHeap (syMgr S)). esEmailID (subAt (syMgr S) s) = i \<and> \<not> esClosed (subAt (syMgr S) s))"
  proof
    assume "get (emListeners (syMgr S)) i \<noteq> None"
    then obtain a where own: "get (emListeners (syMgr S)) i = Some a" by blast
    then obtain s where "s \<in> set (lnSubs (lnAt (syMgr S) a))" using email_shapeD(5) [OF ok own] by (meson list.set_sel(1))
    with subs [OF own] show "\<exists>s < length (emSHeap (syMgr S)). esEmailID (subAt (syMgr S) s) = i \<and> \<not> esClosed (subAt (syMgr S) s)"
      by blast
  next
    assume "\<exists>s < length (emSHeap (syMgr S)). esEmailID (subAt (syMgr S) s) = i \<and> \<not> esClosed (subAt (syMgr S) s)"
    then show "get (emListeners (syMgr S)) i \<noteq> None" using open_attached [OF ok] by fastforce
  qed
  then show ?thesis using subs email_shapeD(2,4,6) [OF ok] email_shapeD(7,8) [OF ok] unfolding pcs by blast
qed

theorem listener_while_somebody_listens_witness:
  "get (emListeners (syMgr (de_listening [] 0))) ''in'' = Some 0 \<and> get (emListeners (syMgr (de_listening [] 0))) ''other'' = None"
proof -
  have "(get (emListeners (syMgr (de_listening [] 0))) ''other'' \<noteq> None) =
    (\<exists>s < length (emSHeap (syMgr (de_listening [] 0))). esEmailID (subAt (syMgr (de_listening [] 0)) s) = ''other''
       \<and> \<not> esClosed (subAt (syMgr (de_listening [] 0)) s))"
    using listener_while_somebody_listens [OF de_listening_reachable, of "''other''", THEN conjunct1] .
  then show ?thesis by (simp add: de_listening_def de_defs)
qed



section \<open>Listeners that lost their inbox\<close>

text \<open>How far a stopped goroutine is from its exit.\<close>

fun distance_to_exit :: "lpc \<Rightarrow> nat" where
  "distance_to_exit (Dialing b) = 5"
| "distance_to_exit (Moving b uidv mx) = 5"
| "distance_to_exit (Selecting b) = 4"
| "distance_to_exit (Resetting b uidv uid) = 4"
| "distance_to_exit (Fetching b uidv cur) = 4"
| "distance_to_exit (Idling b uidv) = 4"
| "distance_to_exit (Reading b uidv uid) = 3"
| "distance_to_exit (Polling b uidv) = 3"
| "distance_to_exit (Fanning b uidv cur msgs) = 3"
| "distance_to_exit (Sleeping b) = 2"
| "distance_to_exit (Top b) = 1"
| "distance_to_exit Exited = 0"

text \<open>C25. A listener that was stopped winds down and disturbs nobody. Wherever its goroutine stands and
  whatever the server still answers, each of its steps leaves the manager untouched, delivers nothing and
  moves no cursor, and a step that moves the goroutine brings it nearer to its exit, at most five
  moves away.\<close>

theorem stopped_listener_winds_down:
  assumes "email_reachable v S" "a < length (syPcs S)" "\<not> owns (syMgr S) a"
    and "serve now a ev pc (syMgr S) = (pc', errs, drops, m')"
  shows "m' = syMgr S \<and> drops = [] \<and> distance_to_exit pc \<le> 5
    \<and> (pc' \<noteq> pc \<longrightarrow> distance_to_exit pc' < distance_to_exit pc)"
proof -
  note d = delivery_invD [OF reachable_delivery [OF assms(1)]]
  have al: "a < length (emLHeap (syMgr S))" using d(2) assms(2) by (simp add: boxes_ok_def)
  have stop: "lnStop (lnAt (syMgr S) a)" using email_shapeD(7) [OF email_inv_shape [OF d(1)] al assms(3)] .
  have lost: "cursor a (syMgr S) = None" "\<And>msgs. fanout a msgs (syMgr S) = ((0, False), [], syMgr S)"
    "\<And>u x r. advanceCursor now a u x r (syMgr S) = (None, syMgr S)"
    using assms(3) by (auto simp: cursor_def fanout_def advanceCursor_def Let_def split: option.splits)
  have "m' = syMgr S" using unowned_serve [OF d(1) al assms(3,4)] .
  moreover have "distance_to_exit pc \<le> 5" by (cases pc) simp_all
  moreover have "drops = [] \<and> (pc' \<noteq> pc \<longrightarrow> distance_to_exit pc' < distance_to_exit pc)"
    using assms(4) by (cases pc) (auto simp: lost stop served_def split: levent.splits option.splits sum.splits prod.splits)
  ultimately show ?thesis by simp
qed

definition de_closed :: "(unit, unit) esys" where
  "de_closed = (de_sys de_reset [] (Fanning backoffFloor 7 3 [de_msg [] 5]) de_mail 5 3)\<lparr>syMgr :=
     (de_mgr [(''in'', de_reset)] [] [de_listener\<lparr>lnSubs := [], lnStop := True\<rparr>] [(de_sub [])\<lparr>esClosed := True\<rparr>])\<rparr>"

lemma de_closed_reachable: "email_reachable de_val de_closed"
proof -
  let ?S = "de_sys de_reset [] (Fanning backoffFloor 7 3 [de_msg [] 5]) de_mail 5 3"
  have "sub_Close 0 (syMgr ?S) = Some (syMgr de_closed)"
    by (simp add: de_closed_def sub_Close_def detach_def closeStop_def retire_def de_sys_def de_mgr_def de_listener_def
        de_sub_def Let_def)
  moreover have "0 < length (emSHeap (syMgr ?S))" by (simp add: de_sys_def de_mgr_def)
  ultimately have "email_step de_val ?S (?S\<lparr>syMgr := syMgr de_closed\<rparr>)" by (intro email_step.unlisten)
  with de_fanning show ?thesis using email_reachable.step by (fastforce simp: de_closed_def)
qed

theorem stopped_listener_winds_down_witness:
  "serve 9 0 Go (Fanning backoffFloor 7 3 [de_msg [] 5]) (syMgr de_closed) = (Sleeping backoffFloor, [], [], syMgr de_closed)
    \<and> distance_to_exit (Sleeping backoffFloor) < distance_to_exit (Fanning backoffFloor 7 3 [de_msg [] 5])"
proof -
  have "\<not> owns (syMgr de_closed) 0" "0 < length (syPcs de_closed)" by (simp_all add: de_closed_def owns_def de_mgr_def de_sys_def)
  moreover have run: "serve 9 0 Go (Fanning backoffFloor 7 3 [de_msg [] 5]) (syMgr de_closed)
      = (Sleeping backoffFloor, [], [], syMgr de_closed)"
    by (simp add: de_closed_def fanout_def owns_def de_mgr_def served_def)
  ultimately show ?thesis using stopped_listener_winds_down [OF de_closed_reachable _ _ run] by blast
qed

section \<open>Backing off\<close>

text \<open>A listener that keeps failing is retried for ever, at growing distances: after n sessions in a row that
  did not stay up the next pause is 2 to the n seconds, until it stays at two minutes.\<close>

theorem failing_sessions_back_off:
  "(next_backoff False ^^ n) backoffFloor = min (2 ^ n * backoffFloor) backoffCeil
    \<and> next_backoff True b = backoffFloor"
proof -
  have "(next_backoff False ^^ n) backoffFloor = min (2 ^ n * backoffFloor) backoffCeil"
    by (induction n) (auto simp: next_backoff_def Let_def min_def backoffFloor_def backoffCeil_def)
  then show ?thesis by (simp add: next_backoff_def)
qed

section \<open>Deletion\<close>

text \<open>C26. An email in use is not deleted, and nothing else is refused for being in use. A deletion of a known
  email fails with ErrEmailInUse exactly when a subscription to it is open or the guard names tasks that
  hold an account forwarding to it; the refusal lists the listening tasks, sorted, or those the guard
  names, and leaves the manager and its store as they were.\<close>

theorem email_in_use_is_kept:
  assumes "email_reachable v S" "get (emInventory (syMgr S)) i \<noteq> None"
    and "email_Delete w i (syMgr S) = ((stranded, err), m')"
  shows "((\<exists>x. err = Some x \<and> email_in_use x) \<longleftrightarrow>
      (\<exists>s < length (emSHeap (syMgr S)). esEmailID (subAt (syMgr S) s) = i \<and> \<not> esClosed (subAt (syMgr S) s))
      \<or> (\<exists>g. emGuard (syMgr S) = Some g \<and> fst (g w i) \<noteq> []))
    \<and> ((\<exists>x. err = Some x \<and> email_in_use x) \<longrightarrow> m' = syMgr S \<and> stranded = [])
    \<and> (\<forall>tasks. err = Some (EmListenedTo i tasks) \<longrightarrow> sorted tasks \<and> distinct tasks
        \<and> set tasks = {esTaskID (subAt (syMgr S) s) | s. s < length (emSHeap (syMgr S))
            \<and> esEmailID (subAt (syMgr S) s) = i \<and> \<not> esClosed (subAt (syMgr S) s)})"
proof -
  note ok = email_inv_shape [OF reachable_email_inv [OF assms(1)]]
  define opn where "opn s \<longleftrightarrow> s < length (emSHeap (syMgr S)) \<and> esEmailID (subAt (syMgr S) s) = i
      \<and> \<not> esClosed (subAt (syMgr S) s)" for s
  have mem: "opn s \<longleftrightarrow> s \<in> set (lnSubs (lnAt (syMgr S) a))" if "get (emListeners (syMgr S)) i = Some a" for a s
    using email_shapeD(9-11) [OF ok that] open_attached [OF ok, of s] that unfolding opn_def by (metis option.inject)
  have none: "\<not> opn s" if "get (emListeners (syMgr S)) i = None" for s
    using open_attached [OF ok, of s] that unfolding opn_def by force
  have ids: "set (listener_taskIDs (syMgr S) (lnAt (syMgr S) a)) = {esTaskID (subAt (syMgr S) s) | s. opn s}
      \<and> sorted (listener_taskIDs (syMgr S) (lnAt (syMgr S) a)) \<and> distinct (listener_taskIDs (syMgr S) (lnAt (syMgr S) a))"
    if "get (emListeners (syMgr S)) i = Some a" for a
    using mem [OF that] by (auto simp: listener_taskIDs_def)
  have some: "\<exists>s. opn s" if "get (emListeners (syMgr S)) i = Some a" for a
    using mem [OF that] email_shapeD(5) [OF ok that] by (meson list.set_sel(1))
  have "((\<exists>x. err = Some x \<and> email_in_use x) \<longleftrightarrow> (\<exists>s. opn s) \<or> (\<exists>g. emGuard (syMgr S) = Some g \<and> fst (g w i) \<noteq> []))
    \<and> ((\<exists>x. err = Some x \<and> email_in_use x) \<longrightarrow> m' = syMgr S \<and> stranded = [])
    \<and> (\<forall>tasks. err = Some (EmListenedTo i tasks) \<longrightarrow> sorted tasks \<and> distinct tasks \<and> set tasks = {esTaskID (subAt (syMgr S) s) | s. opn s})"
  proof (cases "get (emListeners (syMgr S)) i")
    case (Some a)
    from some [OF Some] ids [OF Some] have "listener_taskIDs (syMgr S) (lnAt (syMgr S) a) \<noteq> []" by auto
    with assms(2,3) Some have "err = Some (EmListenedTo i (listener_taskIDs (syMgr S) (lnAt (syMgr S) a)))" "m' = syMgr S" "stranded = []"
      by (auto simp: email_Delete_def Let_def)
    with some [OF Some] ids [OF Some] show ?thesis by (simp add: email_in_use_def)
  next
    case None
    with assms(2,3) none show ?thesis
      by (auto simp: email_Delete_def Let_def email_in_use_def split: option.splits prod.splits if_splits)
  qed
  then show ?thesis unfolding opn_def by blast
qed

theorem email_in_use_is_kept_witness:
  "\<exists>err m'. email_Delete () ''in'' (syMgr (de_listening [] 0)) = (([], Some err), m') \<and> email_in_use err \<and> m' = syMgr (de_listening [] 0)"
proof -
  let ?m = "syMgr (de_listening [] 0)"
  have k: "get (emInventory ?m) ''in'' \<noteq> None" by (simp add: de_listening_def de_defs)
  obtain st err m' where run: "email_Delete () ''in'' ?m = ((st, err), m')" by (metis prod.collapse)
  have "\<exists>s < length (emSHeap ?m). esEmailID (subAt ?m s) = ''in'' \<and> \<not> esClosed (subAt ?m s)"
    by (simp add: de_listening_def de_defs)
  with email_in_use_is_kept [OF de_listening_reachable k run] obtain x where "err = Some x" "email_in_use x" "m' = ?m" "st = []" by blast
  with run show ?thesis by blast
qed

section \<open>What a fetch returns\<close>

text \<open>C27. A fetch returns the new mail and nothing else. The range n:* of IMAP always contains the last message of
  the mailbox, and the UID after the largest one wraps round to 0; whatever the cursor, what
  FetchSince returns over such a server is exactly the messages with a UID above it, each flattened with the
  first non-empty plain and HTML body of its inline parts.\<close>

theorem fetch_returns_the_new_mail:
  "FetchSince lower reader (\<lambda>n. Inr (uid_range box n)) uid
     = Inr (map (toMessage lower reader) (filter (\<lambda>b. uid < bufUID b) box))
   \<and> readBodies (\<lambda>_. Some ps) raw = (first_body ''text/plain'' ps, first_body ''text/html'' ps)"
  by (simp add: fetch_since_range readBodies_def readParts_first)

end
