(* ===== verification/Email_Vendors.thy ===== *)
theory Email_Vendors
  imports Email_Types
begin

text \<open>
  Sessions with a mail vendor (src/email/vendors.go): minting an access token, dialing and authenticating,
  and the commands of an open session.

  The protocol library, the HTTP client and the context are a record of functions on the state \<^theory_text>\<open>'w\<close> of
  the outside world: each gives its answer and the world it leaves. That a context ends in the middle of a
  command shows as the error the command answers with. The goroutine that hangs up when authentication
  takes too long is a machine of its own at the end.
\<close>

section \<open>The outside world\<close>

datatype fetch_set = FromUID "32 word" | ByUID "32 word list"

record ('c, 'w) wire =
  wrErr :: "'w \<Rightarrow> string option"
  wrAuthErr :: "'w \<Rightarrow> string option"
  wrDialTLS :: "string \<Rightarrow> 'w \<Rightarrow> (string + 'c) \<times> 'w"
  wrLogin :: "'c \<Rightarrow> string \<Rightarrow> string \<Rightarrow> 'w \<Rightarrow> string option \<times> 'w"
  wrAuthenticate :: "'c \<Rightarrow> string \<Rightarrow> string \<Rightarrow> 'w \<Rightarrow> string option \<times> 'w"
  wrSelect :: "'c \<Rightarrow> string \<Rightarrow> 'w \<Rightarrow> (string + 32 word \<times> 32 word) \<times> 'w"
  wrFetch :: "'c \<Rightarrow> fetch_set \<Rightarrow> 'w \<Rightarrow> (string + fetch_buffer list) \<times> 'w"
  wrSearch :: "'c \<Rightarrow> time \<Rightarrow> 'w \<Rightarrow> (string + 32 word list) \<times> 'w"
  wrIdle :: "'c \<Rightarrow> 'w \<Rightarrow> string option \<times> 'w"
  wrClose :: "'c \<Rightarrow> 'w \<Rightarrow> string option \<times> 'w"
  wrPost :: "string \<Rightarrow> (string \<times> string) list \<Rightarrow> 'w \<Rightarrow> (string + nat \<times> (string + string)) \<times> 'w"
  wrAccessToken :: "string \<Rightarrow> string + string"

section \<open>Tokens\<close>

datatype token_error =
    TokRequest string
  | TokStatus nat string
  | TokDecode string
  | TokEmpty

definition token_form :: "auth \<Rightarrow> (string \<times> string) list" where
  "token_form a =
     [(''client_id'', auClientID a), (''refresh_token'', auRefreshToken a), (''grant_type'', ''refresh_token'')]
     @ (if auClientSecret a \<noteq> [] then [(''client_secret'', auClientSecret a)] else [])"

text \<open>A response is its status and its body, or the error of reading it.\<close>

definition fetchAccessToken ::
    "('c, 'w) wire \<Rightarrow> string \<Rightarrow> auth \<Rightarrow> 'w \<Rightarrow> (token_error + string) \<times> 'w" where
  "fetchAccessToken wr v a w =
     (case wrPost wr (tokenURL v a) (token_form a) w of
        (Inl e, w1) \<Rightarrow> (Inl (TokRequest e), w1)
      | (Inr (status, body), w1) \<Rightarrow>
          (case body of
             Inl e \<Rightarrow> (Inl (TokRequest e), w1)
           | Inr raw \<Rightarrow>
               if status \<noteq> 200 then (Inl (TokStatus status raw), w1)
               else (case wrAccessToken wr raw of
                       Inl e \<Rightarrow> (Inl (TokDecode e), w1)
                     | Inr token \<Rightarrow> if token = [] then (Inl TokEmpty, w1) else (Inr token, w1))))"

text \<open>The SASL mechanism: its name and its one response; any challenge is an error.\<close>

definition xoauth2_Start :: "string \<Rightarrow> string \<Rightarrow> string \<times> string" where
  "xoauth2_Start username token =
     (''XOAUTH2'', ''user='' @ username @ [CHR 0x01] @ ''auth=Bearer '' @ token @ [CHR 0x01, CHR 0x01])"

definition xoauth2_Next :: "string \<Rightarrow> string + string" where
  "xoauth2_Next challenge = Inl (''xoauth2 rejected: '' @ challenge)"

section \<open>Dialing\<close>

datatype auth_failure =
    AuthRefused string
  | AuthToken token_error
  | AuthUnknown string
  | AuthCtx string

datatype dial_error =
    DialNoInbox
  | DialCtx string
  | DialVendor inbox_error
  | DialTLS string string
  | DialAuthenticate string auth_failure

record 'c mailbox =
  mbClient :: 'c
  mbWake :: bool

definition authenticate ::
    "('c, 'w) wire \<Rightarrow> 'c \<Rightarrow> string \<Rightarrow> inbox \<Rightarrow> 'w \<Rightarrow> auth_failure option \<times> 'w" where
  "authenticate wr client username ib w =
     (if auKind (ibAuth ib) = AuthPassword then
        (case wrLogin wr client username (auPassword (ibAuth ib)) w of (err, w1) \<Rightarrow> (map_option AuthRefused err, w1))
      else if auKind (ibAuth ib) = AuthOAuth2 then
        (case fetchAccessToken wr (ibVendor ib) (ibAuth ib) w of
           (Inl e, w1) \<Rightarrow> (Some (AuthToken e), w1)
         | (Inr token, w1) \<Rightarrow>
             (case xoauth2_Start username token of (mech, resp) \<Rightarrow>
              case wrAuthenticate wr client mech resp w1 of (err, w2) \<Rightarrow> (map_option AuthRefused err, w2)))
      else (Some (AuthUnknown (auKind (ibAuth ib))), w))"

definition dialIMAP :: "('c, 'w) wire \<Rightarrow> email \<Rightarrow> 'w \<Rightarrow> (dial_error + 'c mailbox) \<times> 'w" where
  "dialIMAP wr e w =
     (case emInbox e of
        None \<Rightarrow> (Inl DialNoInbox, w)
      | Some ib \<Rightarrow>
     (case wrErr wr w of
        Some c \<Rightarrow> (Inl (DialCtx c), w)
      | None \<Rightarrow>
     (case endpoint (ibVendor ib) of
        Inl x \<Rightarrow> (Inl (DialVendor x), w)
      | Inr addr \<Rightarrow>
          (let username = (if auUsername (ibAuth ib) = [] then emAddress e else auUsername (ibAuth ib)) in
           case wrDialTLS wr addr w of
             (Inl x, w1) \<Rightarrow> (Inl (DialTLS addr x), w1)
           | (Inr client, w1) \<Rightarrow>
               (case authenticate wr client username ib w1 of
                  (Some err, w2) \<Rightarrow>
                    (let w3 = snd (wrClose wr client w2)
                     in (Inl (DialAuthenticate username
                            (case wrAuthErr wr w3 of Some c \<Rightarrow> AuthCtx c | None \<Rightarrow> err)), w3))
                | (None, w2) \<Rightarrow> (Inr \<lparr>mbClient = client, mbWake = False\<rparr>, w2))))))"

section \<open>Commands\<close>

text \<open>A unilateral update of the mailbox leaves a signal, one at most.\<close>

definition notified :: "'c mailbox \<Rightarrow> 'c mailbox" where
  "notified mb = mb\<lparr>mbWake := True\<rparr>"

definition mb_Select :: "('c, 'w) wire \<Rightarrow> 'c mailbox \<Rightarrow> 'w \<Rightarrow> (string + 32 word \<times> 32 word) \<times> 'w" where
  "mb_Select wr mb w =
     (case wrErr wr w of
        Some c \<Rightarrow> (Inl c, w)
      | None \<Rightarrow>
          (case wrSelect wr (mbClient mb) ''INBOX'' w of
             (Inl e, w1) \<Rightarrow> (Inl (''select INBOX: '' @ e), w1)
           | (Inr (validity, uidNext), w1) \<Rightarrow> (Inr (validity, selected_last uidNext), w1)))"

definition mb_FetchSince ::
    "(string \<Rightarrow> string) \<Rightarrow> (string \<Rightarrow> mime_part list option) \<Rightarrow> ('c, 'w) wire \<Rightarrow> 'c mailbox \<Rightarrow> 32 word \<Rightarrow> 'w
      \<Rightarrow> (string + message list) \<times> 'w" where
  "mb_FetchSince lower reader wr mb uid w =
     (case wrErr wr w of
        Some c \<Rightarrow> (Inl c, w)
      | None \<Rightarrow>
          (case wrFetch wr (mbClient mb) (FromUID (uid + 1)) w of
             (Inl e, w1) \<Rightarrow> (Inl (''uid fetch: '' @ e), w1)
           | (Inr bufs, w1) \<Rightarrow> (Inr (map (toMessage lower reader) (filter (\<lambda>b. \<not> bufUID b \<le> uid) bufs)), w1)))"

definition mb_FetchSinceDate ::
    "(string \<Rightarrow> string) \<Rightarrow> (string \<Rightarrow> mime_part list option) \<Rightarrow> ('c, 'w) wire \<Rightarrow> 'c mailbox \<Rightarrow> time \<Rightarrow> 'w
      \<Rightarrow> (string + message list) \<times> 'w" where
  "mb_FetchSinceDate lower reader wr mb since w =
     (case wrErr wr w of
        Some c \<Rightarrow> (Inl c, w)
      | None \<Rightarrow>
     (case wrSearch wr (mbClient mb) since w of
        (Inl e, w1) \<Rightarrow> (Inl (''uid search: '' @ e), w1)
      | (Inr uids, w1) \<Rightarrow>
          if length uids = 0 then (Inr [], w1)
          else (case wrFetch wr (mbClient mb) (ByUID uids) w1 of
                  (Inl e, w2) \<Rightarrow> (Inl (''uid fetch: '' @ e), w2)
                | (Inr bufs, w2) \<Rightarrow> (Inr (map (toMessage lower reader) bufs), w2))))"

text \<open>Of the four events an open IDLE waits for, the one that comes first; a signal has to be there. The
  command is closed on the first three, and what it ends with is then awaited.\<close>

datatype idle_event =
    IdleCtx string "string option"
  | IdleTimer "string option"
  | IdleWoken "string option"
  | IdleEnded "string option"

definition idle_possible :: "'c mailbox \<Rightarrow> idle_event \<Rightarrow> bool" where
  "idle_possible mb ev \<longleftrightarrow> (case ev of IdleWoken _ \<Rightarrow> mbWake mb | _ \<Rightarrow> True)"

definition mb_Idle ::
    "('c, 'w) wire \<Rightarrow> idle_event \<Rightarrow> 'c mailbox \<Rightarrow> 'w \<Rightarrow> string option \<times> 'c mailbox \<times> 'w" where
  "mb_Idle wr ev mb w =
     (case wrErr wr w of
        Some c \<Rightarrow> (Some c, mb, w)
      | None \<Rightarrow>
          (case wrIdle wr (mbClient mb) w of
             (Some e, w1) \<Rightarrow> (Some (''idle: '' @ e), mb, w1)
           | (None, w1) \<Rightarrow>
               (case ev of
                  IdleCtx c _ \<Rightarrow> (Some c, mb, w1)
                | IdleTimer ended \<Rightarrow> (ended, mb, w1)
                | IdleWoken ended \<Rightarrow> (ended, mb\<lparr>mbWake := False\<rparr>, w1)
                | IdleEnded ended \<Rightarrow>
                    (Some (''idle: '' @ (case ended of None \<Rightarrow> ''session ended IDLE unilaterally'' | Some e \<Rightarrow> e)),
                     mb, w1))))"

definition mb_Close :: "('c, 'w) wire \<Rightarrow> 'c mailbox \<Rightarrow> 'w \<Rightarrow> string option \<times> 'w" where
  "mb_Close wr mb w = wrClose wr (mbClient mb) w"

section \<open>What a dial and a fetch promise\<close>

text \<open>A dial that fails leaves no session behind: it opened none, or its last act was to close it.\<close>

theorem failed_dial_leaves_no_session:
  assumes "dialIMAP wr e w = (Inl err, w')"
  shows "w' = w \<or> (\<exists>addr x. err = DialTLS addr x \<and> wrDialTLS wr addr w = (Inl x, w'))
    \<or> (\<exists>u f client w2. err = DialAuthenticate u f \<and> w' = snd (wrClose wr client w2))"
  using assms by (auto simp: dialIMAP_def Let_def split: option.splits sum.splits prod.splits)

text \<open>For an inbox that passed the check at Add, neither the vendor nor the kind of its credentials fails the
  dial, and every session it opens is with one of the two vendors.\<close>

theorem valid_inbox_dials:
  assumes "emInbox e = Some ib" "validateInbox ib = None" "wrErr wr w = None" "dialIMAP wr e w = (res, w')"
  shows "\<exists>addr. endpoint (ibVendor ib) = Inr addr \<and> addr \<in> {''imap.gmail.com:993'', ''outlook.office365.com:993''}
    \<and> (case res of
         Inr mb \<Rightarrow> \<exists>w1. wrDialTLS wr addr w = (Inr (mbClient mb), w1)
       | Inl err \<Rightarrow> (\<exists>x. err = DialTLS addr x) \<or> (\<exists>u f. err = DialAuthenticate u f \<and> (\<forall>k. f \<noteq> AuthUnknown k)))"
proof -
  obtain addr where a: "endpoint (ibVendor ib) = Inr addr" "addr \<in> {''imap.gmail.com:993'', ''outlook.office365.com:993''}"
    using assms(2) by (auto simp: validateInbox_def endpoint_def split: sum.splits if_splits)
  have kind: "auKind (ibAuth ib) = AuthPassword \<or> auKind (ibAuth ib) = AuthOAuth2"
    using assms(2) by (auto simp: validateInbox_None)
  have known: "f \<noteq> AuthUnknown k" if "authenticate wr client u ib w1 = (Some f, w2)" for client u w1 w2 f k
    using that kind by (auto simp: authenticate_def split: if_splits prod.splits sum.splits)
  define u where "u = (if auUsername (ibAuth ib) = [] then emAddress e else auUsername (ibAuth ib))"
  obtain d w1 where d: "wrDialTLS wr addr w = (d, w1)" by fastforce
  show ?thesis
  proof (cases d)
    case (Inl x)
    with assms a d show ?thesis by (auto simp: dialIMAP_def Let_def)
  next
    case (Inr client)
    obtain f w2 where f: "authenticate wr client u ib w1 = (f, w2)" by fastforce
    have "res = (case f of None \<Rightarrow> Inr \<lparr>mbClient = client, mbWake = False\<rparr>
        | Some err \<Rightarrow> Inl (DialAuthenticate u (case wrAuthErr wr (snd (wrClose wr client w2)) of Some c \<Rightarrow> AuthCtx c | None \<Rightarrow> err)))"
      using assms a(1) d Inr f by (cases f) (auto simp: dialIMAP_def Let_def u_def [symmetric])
    then show ?thesis
      using a d Inr f known by (cases f) (auto split: option.splits)
  qed
qed

text \<open>The fetch of a session is the fetch the listener is modelled with.\<close>

lemma mb_FetchSince_fetches:
  assumes "wrErr wr w = None"
  shows "fst (mb_FetchSince lower reader wr mb uid w) =
    FetchSince lower reader (\<lambda>n. case fst (wrFetch wr (mbClient mb) (FromUID n) w) of
        Inl e \<Rightarrow> Inl (''uid fetch: '' @ e) | Inr bufs \<Rightarrow> Inr bufs) uid"
  using assms by (auto simp: mb_FetchSince_def FetchSince_def not_le split: prod.splits sum.splits)

section \<open>The watcher of a dial\<close>

text \<open>While a dial authenticates, a goroutine waits for the context of the authentication to end or for the
  authentication to settle, and hangs up in the first case. One that runs only when both have happened
  takes either.\<close>

datatype watcher = Unborn | Parked | Gone

record watch =
  waState :: watcher
  waSettled :: bool
  waEnded :: bool
  waHungUp :: bool

datatype watch_event = Runs bool | Settles | Ends

fun watch_step :: "watch_event \<Rightarrow> watch \<Rightarrow> watch" where
  "watch_step (Runs pick) s =
     (if waState s \<noteq> Unborn then s
      else if waEnded s \<and> (waSettled s \<longrightarrow> pick) then s\<lparr>waState := Gone, waHungUp := True\<rparr>
      else if waSettled s then s\<lparr>waState := Gone\<rparr>
      else s\<lparr>waState := Parked\<rparr>)"
| "watch_step Settles s =
     (let s' = s\<lparr>waSettled := True\<rparr> in if waState s = Parked then s'\<lparr>waState := Gone\<rparr> else s')"
| "watch_step Ends s =
     (let s' = s\<lparr>waEnded := True\<rparr> in if waState s = Parked then s'\<lparr>waState := Gone, waHungUp := True\<rparr> else s')"

definition watched :: "watch_event list \<Rightarrow> watch" where
  "watched evs = fold watch_step evs \<lparr>waState = Unborn, waSettled = False, waEnded = False, waHungUp = False\<rparr>"

lemma gone_stays: "waState s = Gone \<Longrightarrow> waState (watch_step ev s) = Gone \<and> waHungUp (watch_step ev s) = waHungUp s"
  by (cases ev) (auto simp: Let_def)

lemma gone_forever: "waState s = Gone \<Longrightarrow> waHungUp (fold watch_step evs s) = waHungUp s"
  by (induction evs arbitrary: s) (simp_all add: gone_stays)

lemma before_settling:
  assumes "Ends \<notin> set evs" "Settles \<notin> set evs" "waState s \<noteq> Gone" "\<not> waSettled s" "\<not> waEnded s" "\<not> waHungUp s"
  shows "let s' = fold watch_step evs s in waState s' \<noteq> Gone \<and> \<not> waSettled s' \<and> \<not> waEnded s' \<and> \<not> waHungUp s'
    \<and> (waState s = Parked \<or> (\<exists>b. Runs b \<in> set evs) \<longrightarrow> waState s' = Parked)"
  using assms
proof (induction evs arbitrary: s)
  case (Cons ev evs)
  from Cons.prems obtain b where ev: "ev = Runs b" by (cases ev) auto
  have s: "waState (watch_step ev s) = Parked" "\<not> waSettled (watch_step ev s)" "\<not> waEnded (watch_step ev s)"
    "\<not> waHungUp (watch_step ev s)"
    using Cons.prems(3-6) ev by (auto intro: watcher.exhaust [of "waState s"])
  from Cons.IH [of "watch_step ev s"] Cons.prems(1,2) s show ?case by (simp add: Let_def)
qed (simp add: Let_def)

text \<open>A watcher that got to run before the authentication settled, inside its time, never hangs up on the
  session; one that comes too late may, after the dial has returned the session and cancelled the context.\<close>

theorem watcher_in_time_is_silent:
  assumes "Runs b \<in> set evs" "Ends \<notin> set evs" "Settles \<notin> set evs"
  shows "\<not> waHungUp (watched (evs @ Settles # later))"
proof -
  have "waState (watched evs) = Parked \<and> \<not> waHungUp (watched evs)"
    using before_settling [OF assms(2,3), of "\<lparr>waState = Unborn, waSettled = False, waEnded = False, waHungUp = False\<rparr>"]
      assms(1)
    by (auto simp: watched_def Let_def)
  moreover have "watched (evs @ Settles # later) = fold watch_step later (watch_step Settles (watched evs))"
    by (simp add: watched_def)
  ultimately show ?thesis by (simp add: gone_forever Let_def)
qed

theorem late_watcher_hangs_up: "waHungUp (watched [Settles, Ends, Runs True])"
  by (simp add: watched_def)

end
