(* ===== verification/Sqlite_Open.thy ===== *)
theory Sqlite_Open
  imports Prelude
begin

text \<open>
  Opening the SQLite file (Open and withSettings of src/sqlite/sqlite.go). The driver is a record of
  functions on the state of the outside world; the settings are those of the source.
\<close>

definition connSettings :: string where
  "connSettings = ''_busy_timeout=5000&_synchronous=NORMAL&_foreign_keys=1&_txlock=immediate''"

definition withSettings :: "string \<Rightarrow> string" where
  "withSettings dsn =
     (let sep = (if CHR ''?'' \<in> set dsn then ''&'' else ''?'') in dsn @ sep @ connSettings)"

record ('c, 'w) sql_driver =
  sdOpen :: "string \<Rightarrow> 'w \<Rightarrow> (string + 'c) \<times> 'w"
  sdMaxConns :: "nat \<Rightarrow> 'c \<Rightarrow> 'w \<Rightarrow> 'w"
  sdExec :: "string \<Rightarrow> 'c \<Rightarrow> 'w \<Rightarrow> string option \<times> 'w"
  sdClose :: "'c \<Rightarrow> 'w \<Rightarrow> string option \<times> 'w"

definition Open :: "('c, 'w) sql_driver \<Rightarrow> string \<Rightarrow> 'w \<Rightarrow> (string + 'c) \<times> 'w" where
  "Open dr dsn w =
     (case sdOpen dr (withSettings dsn) w of
        (Inl e, w1) \<Rightarrow> (Inl (''open sqlite: '' @ e), w1)
      | (Inr db, w1) \<Rightarrow>
          (case sdExec dr ''PRAGMA journal_mode = WAL'' db (sdMaxConns dr 1 db w1) of
             (Some e, w2) \<Rightarrow> (Inl (''switch to WAL: '' @ e), snd (sdClose dr db w2))
           | (None, w2) \<Rightarrow> (Inr db, w2)))"

definition DB_Close :: "('c, 'w) sql_driver \<Rightarrow> 'c \<Rightarrow> 'w \<Rightarrow> string option \<times> 'w" where
  "DB_Close dr db w = sdClose dr db w"

text \<open>What follows the first question mark of a data source name, where the driver reads its parameters.\<close>

definition query_of :: "string \<Rightarrow> string option" where
  "query_of dsn =
     (if CHR ''?'' \<in> set dsn then Some (tl (dropWhile (\<lambda>c. c \<noteq> CHR ''?'') dsn)) else None)"

lemma dropWhile_append_found: "\<exists>x \<in> set xs. \<not> P x \<Longrightarrow> dropWhile P (xs @ ys) = dropWhile P xs @ ys"
  by (induction xs) auto

text \<open>The settings come last among the parameters, whatever the caller's own are, and the file is the
  caller's.\<close>

theorem settings_come_last:
  "query_of (withSettings dsn) =
     Some (case query_of dsn of None \<Rightarrow> connSettings | Some q \<Rightarrow> q @ ''&'' @ connSettings)
   \<and> takeWhile (\<lambda>c. c \<noteq> CHR ''?'') (withSettings dsn) = takeWhile (\<lambda>c. c \<noteq> CHR ''?'') dsn"
proof (cases "CHR ''?'' \<in> set dsn")
  case True
  then have d: "dropWhile (\<lambda>c. c \<noteq> CHR ''?'') (dsn @ ys) = dropWhile (\<lambda>c. c \<noteq> CHR ''?'') dsn @ ys" for ys
    by (intro dropWhile_append_found) auto
  have t: "takeWhile (\<lambda>c. c \<noteq> CHR ''?'') (dsn @ ys) = takeWhile (\<lambda>c. c \<noteq> CHR ''?'') dsn" for ys
    using True by (intro takeWhile_append1 [of "CHR ''?''"]) auto
  have "dropWhile (\<lambda>c. c \<noteq> CHR ''?'') dsn \<noteq> []" using True by (simp add: dropWhile_eq_Nil_conv)
  with True d t show ?thesis by (simp add: query_of_def withSettings_def)
next
  case False
  have w: "withSettings dsn = dsn @ CHR ''?'' # connSettings" using False by (simp add: withSettings_def)
  have "dropWhile (\<lambda>c. c \<noteq> CHR ''?'') (dsn @ ys) = dropWhile (\<lambda>c. c \<noteq> CHR ''?'') ys" for ys
    using False by (intro dropWhile_append2) auto
  moreover have "takeWhile (\<lambda>c. c \<noteq> CHR ''?'') (dsn @ ys) = dsn @ takeWhile (\<lambda>c. c \<noteq> CHR ''?'') ys" for ys
    using False by (intro takeWhile_append2) auto
  moreover have all: "takeWhile (\<lambda>c. c \<noteq> CHR ''?'') dsn = dsn" using False by (auto simp: takeWhile_eq_all_conv)
  ultimately show ?thesis unfolding all w using False by (simp add: query_of_def)
qed

text \<open>An opening that fails leaves no handle: none was opened, or it was closed again.\<close>

theorem failed_open_leaves_no_handle:
  assumes "Open dr dsn w = (Inl e, w')"
  shows "(\<exists>x. sdOpen dr (withSettings dsn) w = (Inl x, w'))
    \<or> (\<exists>db w1 w2. sdOpen dr (withSettings dsn) w = (Inr db, w1) \<and> w' = snd (sdClose dr db w2))"
  using assms by (auto simp: Open_def split: sum.splits prod.splits option.splits)

end
