(* ===== verification/Sqlite_Migrate.thy ===== *)
theory Sqlite_Migrate
  imports Prelude "HOL-Library.Multiset"
begin

text \<open>
  Schema migrations (src/sqlite/migrate.go): every store has an ordered list of steps, and one ledger
  table in the file records, per store, which of them have run. A database is what its tables hold, of
  an abstract type, the counter in its header and the ledger, absent in a new file; what a step's SQL
  does to the tables is a parameter. Any statement may fail, as a schedule over the statements says. A
  transaction works on a copy that Commit installs and anything else throws away.
\<close>

section \<open>Migrations and databases\<close>

record migration =
  migName :: string
  migSQL :: string

record ledger_row =
  lrStore :: string
  lrVersion :: int
  lrName :: string
  lrAppliedAt :: string

record 'w mdb =
  mdTables :: 'w
  mdUserVersion :: int
  mdLedger :: "ledger_row list option"

datatype mig_error =
    MgStoreRequired
  | MgBegin string
  | MgReadVersion string
  | MgPreLedger int
  | MgCreateLedger string
  | MgReadHistory string string
  | MgGap string int int
  | MgNewer string int nat
  | MgStep string int string string
  | MgCommit string

text \<open>The engine: which statement fails, counted from the opening of the file, and what SQL does.\<close>

record 'w engine_env =
  evFault :: "nat \<Rightarrow> string option"
  evRun :: "string \<Rightarrow> 'w \<Rightarrow> string + 'w"
  evNow :: "nat \<Rightarrow> string"

section \<open>The ledger\<close>

definition rows_of :: "string \<Rightarrow> 'w mdb \<Rightarrow> ledger_row list" where
  "rows_of store d = filter (\<lambda>r. lrStore r = store) (case mdLedger d of None \<Rightarrow> [] | Some rs \<Rightarrow> rs)"

text \<open>rejectPreLedger: a counter in the header says the file predates the ledger.\<close>

definition rejectPreLedger :: "'w engine_env \<Rightarrow> nat \<Rightarrow> 'w mdb \<Rightarrow> mig_error option" where
  "rejectPreLedger ev n d =
     (case evFault ev n of
        Some e \<Rightarrow> Some (MgReadVersion e)
      | None \<Rightarrow> if mdUserVersion d \<noteq> 0 then Some (MgPreLedger (mdUserVersion d)) else None)"

text \<open>CREATE TABLE IF NOT EXISTS.\<close>

definition createLedger :: "'w mdb \<Rightarrow> 'w mdb" where
  "createLedger d = (case mdLedger d of None \<Rightarrow> d\<lparr>mdLedger := Some []\<rparr> | Some _ \<Rightarrow> d)"

fun count_versions :: "string \<Rightarrow> int list \<Rightarrow> int \<Rightarrow> mig_error + int" where
  "count_versions store [] found = Inr found"
| "count_versions store (v # vs) found =
     (if v \<noteq> found + 1 then Inl (MgGap store v (found + 1)) else count_versions store vs (found + 1))"

definition applied :: "'w engine_env \<Rightarrow> nat \<Rightarrow> string \<Rightarrow> 'w mdb \<Rightarrow> mig_error + int" where
  "applied ev n store d =
     (case evFault ev n of
        Some e \<Rightarrow> Inl (MgReadHistory store e)
      | None \<Rightarrow> count_versions store (sort (map lrVersion (rows_of store d))) 0)"

section \<open>Applying\<close>

text \<open>The insert of a ledger row, whose primary key is store and version.\<close>

definition record_step :: "ledger_row \<Rightarrow> 'w mdb \<Rightarrow> string + 'w mdb" where
  "record_step r d =
     (case mdLedger d of
        None \<Rightarrow> Inl ''no such table''
      | Some rs \<Rightarrow>
          if \<exists>q \<in> set rs. lrStore q = lrStore r \<and> lrVersion q = lrVersion r then Inl ''UNIQUE constraint failed''
          else Inr (d\<lparr>mdLedger := Some (rs @ [r])\<rparr>))"

definition apply_step ::
    "'w engine_env \<Rightarrow> nat \<Rightarrow> string \<Rightarrow> migration \<Rightarrow> int \<Rightarrow> 'w mdb \<Rightarrow> string + 'w mdb" where
  "apply_step ev n store mg version d =
     (case evFault ev n of
        Some e \<Rightarrow> Inl e
      | None \<Rightarrow>
     (case evRun ev (migSQL mg) (mdTables d) of
        Inl e \<Rightarrow> Inl e
      | Inr w \<Rightarrow>
     (case evFault ev (n + 1) of
        Some e \<Rightarrow> Inl e
      | None \<Rightarrow>
          record_step \<lparr>lrStore = store, lrVersion = version, lrName = migName mg, lrAppliedAt = evNow ev n\<rparr>
            (d\<lparr>mdTables := w\<rparr>))))"

fun apply_from ::
    "'w engine_env \<Rightarrow> nat \<Rightarrow> string \<Rightarrow> migration list \<Rightarrow> int \<Rightarrow> 'w mdb \<Rightarrow> mig_error + nat \<times> 'w mdb" where
  "apply_from ev n store [] version d = Inr (n, d)"
| "apply_from ev n store (mg # mgs) version d =
     (case apply_step ev n store mg version d of
        Inl e \<Rightarrow> Inl (MgStep store version (migName mg) e)
      | Inr d' \<Rightarrow> apply_from ev (n + 2) store mgs (version + 1) d')"

text \<open>The transaction: begin, the header, the ledger, the history, the missing steps, commit. The first
  component is the error, the second the file afterwards: the working copy only when Commit succeeds.\<close>

definition in_transaction ::
    "'w engine_env \<Rightarrow> nat \<Rightarrow> string \<Rightarrow> migration list \<Rightarrow> 'w mdb \<Rightarrow> mig_error + nat \<times> 'w mdb" where
  "in_transaction ev n store mgs d =
     (case rejectPreLedger ev (n + 1) d of
        Some e \<Rightarrow> Inl e
      | None \<Rightarrow>
     (case evFault ev (n + 2) of
        Some e \<Rightarrow> Inl (MgCreateLedger e)
      | None \<Rightarrow>
          (let d1 = createLedger d
           in case applied ev (n + 3) store d1 of
                Inl e \<Rightarrow> Inl e
              | Inr current \<Rightarrow>
                  if current > int (length mgs) then Inl (MgNewer store current (length mgs))
                  else apply_from ev (n + 4) store (drop (nat current) mgs) (current + 1) d1)))"

definition migrate ::
    "'w engine_env \<Rightarrow> nat \<Rightarrow> string \<Rightarrow> migration list \<Rightarrow> 'w mdb \<Rightarrow> mig_error option \<times> 'w mdb" where
  "migrate ev n store mgs d =
     (if store = [] then (Some MgStoreRequired, d)
      else (case evFault ev n of
              Some e \<Rightarrow> (Some (MgBegin e), d)
            | None \<Rightarrow>
           (case in_transaction ev n store mgs d of
              Inl e \<Rightarrow> (Some e, d)
            | Inr (k, d') \<Rightarrow>
                (case evFault ev k of
                   Some e \<Rightarrow> (Some (MgCommit e), d)
                 | None \<Rightarrow> (None, d')))))"

section \<open>What a sweep does\<close>

fun run_all :: "'w engine_env \<Rightarrow> migration list \<Rightarrow> 'w \<Rightarrow> string + 'w" where
  "run_all ev [] w = Inr w"
| "run_all ev (mg # mgs) w = (case evRun ev (migSQL mg) w of Inl e \<Rightarrow> Inl e | Inr w' \<Rightarrow> run_all ev mgs w')"

lemma run_all_append:
  "run_all ev (mgs @ mgs') w = (case run_all ev mgs w of Inl e \<Rightarrow> Inl e | Inr w' \<Rightarrow> run_all ev mgs' w')"
  by (induction mgs arbitrary: w) (simp_all split: sum.split)

fun step_rows :: "'w engine_env \<Rightarrow> nat \<Rightarrow> string \<Rightarrow> migration list \<Rightarrow> int \<Rightarrow> ledger_row list" where
  "step_rows ev n store [] version = []"
| "step_rows ev n store (mg # mgs) version =
     \<lparr>lrStore = store, lrVersion = version, lrName = migName mg, lrAppliedAt = evNow ev n\<rparr>
       # step_rows ev (n + 2) store mgs (version + 1)"

text \<open>The history of a store that has run its first c steps.\<close>

definition history :: "string \<Rightarrow> 'w mdb \<Rightarrow> nat \<Rightarrow> bool" where
  "history store d c \<longleftrightarrow> sort (map lrVersion (rows_of store d)) = map int [1..<Suc c]"

lemma step_rows_simps [simp]:
  "map lrStore (step_rows ev n store mgs version) = replicate (length mgs) store"
  "map lrName (step_rows ev n store mgs version) = map migName mgs"
  "map lrVersion (step_rows ev n store mgs version) = map (\<lambda>i. version + int i) [0..<length mgs]"
  by (induction mgs arbitrary: n version) (simp_all add: upt_conv_Cons map_Suc_upt [symmetric] comp_def algebra_simps del: upt_Suc)

lemma step_rows_store: "r \<in> set (step_rows ev n store mgs version) \<Longrightarrow> lrStore r = store"
  by (induction mgs arbitrary: n version) auto

lemma count_versions_iff:
  "count_versions store vs k = Inr c \<longleftrightarrow> vs = map (\<lambda>i. k + 1 + int i) [0..<length vs] \<and> c = k + int (length vs)"
proof (induction vs arbitrary: k)
  case (Cons v vs)
  have "map (\<lambda>i. k + 1 + int i) [0..<length (v # vs)] = (k + 1) # map (\<lambda>i. k + 1 + 1 + int i) [0..<length vs]"
    by (simp add: upt_conv_Cons map_Suc_upt [symmetric] comp_def algebra_simps del: upt_Suc)
  then show ?case using Cons.IH [of "k + 1"] by auto
qed auto

lemma applied_history:
  assumes "evFault ev n = None"
  shows "applied ev n store d = Inr c \<longleftrightarrow> 0 \<le> c \<and> history store d (nat c)"
proof -
  let ?vs = "sort (map lrVersion (rows_of store d))"
  have one: "map (\<lambda>i. 0 + 1 + int i) [0..<k] = map int [1..<Suc k]" for k
    by (simp add: map_Suc_upt [symmetric] comp_def del: upt_Suc)
  have "applied ev n store d = Inr c \<longleftrightarrow> ?vs = map int [1..<Suc (length ?vs)] \<and> c = int (length ?vs)"
    using assms by (simp only: applied_def option.case count_versions_iff one) simp
  also have "\<dots> \<longleftrightarrow> 0 \<le> c \<and> history store d (nat c)"
  proof
    assume "?vs = map int [1..<Suc (length ?vs)] \<and> c = int (length ?vs)"
    then show "0 \<le> c \<and> history store d (nat c)" by (metis history_def nat_int of_nat_0_le_iff)
  next
    assume h: "0 \<le> c \<and> history store d (nat c)"
    then have "length ?vs = nat c" by (simp add: history_def del: upt_Suc)
    with h show "?vs = map int [1..<Suc (length ?vs)] \<and> c = int (length ?vs)" by (simp add: history_def del: upt_Suc)
  qed
  finally show ?thesis .
qed

lemma rows_of_ledger:
  "mdLedger d' = Some (rs @ rs') \<Longrightarrow> mdLedger d = Some rs \<Longrightarrow>
    rows_of store d' = rows_of store d @ filter (\<lambda>r. lrStore r = store) rs'"
  by (simp add: rows_of_def)

text \<open>The loop: it succeeds exactly when no statement fails and no version was taken.\<close>

lemma apply_from_Inr:
  assumes "apply_from ev n store mgs version d = Inr (k, d')" "mdLedger d = Some rs"
  shows "k = n + 2 * length mgs" "run_all ev mgs (mdTables d) = Inr (mdTables d')"
    "mdLedger d' = Some (rs @ step_rows ev n store mgs version)" "mdUserVersion d' = mdUserVersion d"
proof -
  have "k = n + 2 * length mgs \<and> run_all ev mgs (mdTables d) = Inr (mdTables d')
      \<and> mdLedger d' = Some (rs @ step_rows ev n store mgs version) \<and> mdUserVersion d' = mdUserVersion d"
    using assms
  proof (induction mgs arbitrary: n version d rs)
    case (Cons mg mgs)
    let ?r = "\<lparr>lrStore = store, lrVersion = version, lrName = migName mg, lrAppliedAt = evNow ev n\<rparr>"
    from Cons.prems obtain w where w: "evRun ev (migSQL mg) (mdTables d) = Inr w"
      and r: "apply_from ev (n + 2) store mgs (version + 1) (d\<lparr>mdTables := w, mdLedger := Some (rs @ [?r])\<rparr>) = Inr (k, d')"
      by (auto simp: apply_step_def record_step_def split: option.splits sum.splits if_splits)
    from Cons.IH [OF r, of "rs @ [?r]"] w show ?case by simp
  qed simp
  then show "k = n + 2 * length mgs" "run_all ev mgs (mdTables d) = Inr (mdTables d')"
    "mdLedger d' = Some (rs @ step_rows ev n store mgs version)" "mdUserVersion d' = mdUserVersion d" by blast+
qed

lemma apply_from_runs:
  assumes "\<And>k. evFault ev k = None" "run_all ev mgs (mdTables d) = Inr w" "mdLedger d = Some rs"
    "\<And>r. r \<in> set rs \<Longrightarrow> lrStore r = store \<Longrightarrow> lrVersion r < version"
  shows "\<exists>k d'. apply_from ev n store mgs version d = Inr (k, d')"
  using assms(2-)
proof (induction mgs arbitrary: n version d rs)
  case (Cons mg mgs)
  let ?r = "\<lparr>lrStore = store, lrVersion = version, lrName = migName mg, lrAppliedAt = evNow ev n\<rparr>"
  from Cons.prems(1) obtain w1 where w1: "evRun ev (migSQL mg) (mdTables d) = Inr w1" "run_all ev mgs w1 = Inr w"
    by (auto split: sum.splits)
  have "\<not> (\<exists>q \<in> set rs. lrStore q = store \<and> lrVersion q = version)" using Cons.prems(3) by force
  then have "apply_step ev n store mg version d = Inr (d\<lparr>mdTables := w1, mdLedger := Some (rs @ [?r])\<rparr>)"
    using w1 Cons.prems(2) assms(1) by (simp add: apply_step_def record_step_def)
  moreover have "\<exists>k d'. apply_from ev (n + 2) store mgs (version + 1) (d\<lparr>mdTables := w1, mdLedger := Some (rs @ [?r])\<rparr>) = Inr (k, d')"
  proof (rule Cons.IH [of _ "rs @ [?r]"])
    fix r assume "r \<in> set (rs @ [?r])" "lrStore r = store"
    then have "lrVersion r < version \<or> r = ?r" using Cons.prems(3) by auto
    then show "lrVersion r < version + 1" by auto
  qed (use w1 in simp_all)
  ultimately show ?case by simp
qed simp

lemma createLedger_fields [simp]:
  "mdTables (createLedger d) = mdTables d" "mdUserVersion (createLedger d) = mdUserVersion d"
  "rows_of store (createLedger d) = rows_of store d" "mdLedger (createLedger d) \<noteq> None"
  by (simp_all add: createLedger_def rows_of_def split: option.splits)

lemma history_createLedger [simp]: "history store (createLedger d) c = history store d c"
  by (simp add: history_def)

text \<open>A sweep that succeeded.\<close>

lemma migrate_None:
  assumes "migrate ev n store mgs d = (None, d')"
  obtains c where "store \<noteq> []" "mdUserVersion d = 0" "history store d c" "c \<le> length mgs"
    "run_all ev (drop c mgs) (mdTables d) = Inr (mdTables d')" "mdUserVersion d' = 0"
    "\<And>other. rows_of other d' = rows_of other d @
       (if other = store then step_rows ev (n + 4) store (drop c mgs) (int c + 1) else [])"
    "mdLedger d' \<noteq> None"
proof -
  from assms obtain k where st: "store \<noteq> []" and t: "in_transaction ev n store mgs d = Inr (k, d')"
    by (auto simp: migrate_def split: if_splits option.splits sum.splits)
  from t obtain c where z: "mdUserVersion d = 0" and f: "evFault ev (n + 3) = None \<or> True"
    and ap: "applied ev (n + 3) store (createLedger d) = Inr c" "c \<le> int (length mgs)"
    and run: "apply_from ev (n + 4) store (drop (nat c) mgs) (c + 1) (createLedger d) = Inr (k, d')"
    by (auto simp: in_transaction_def rejectPreLedger_def Let_def split: option.splits sum.splits if_splits)
  have "evFault ev (n + 3) = None" using ap(1) by (auto simp: applied_def split: option.splits)
  with ap(1) have h: "0 \<le> c" "history store d (nat c)" by (simp_all add: applied_history)
  obtain rs where rs: "mdLedger (createLedger d) = Some rs" by (meson createLedger_fields(4) not_None_eq)
  note a = apply_from_Inr [OF run rs]
  have c: "int (nat c) = c" using h(1) by simp
  show thesis
  proof (rule that [of "nat c"])
    show "rows_of other d' = rows_of other d @
        (if other = store then step_rows ev (n + 4) store (drop (nat c) mgs) (int (nat c) + 1) else [])" for other
    proof -
      have "filter (\<lambda>r. lrStore r = other) (step_rows ev (n + 4) store (drop (nat c) mgs) (c + 1))
          = (if other = store then step_rows ev (n + 4) store (drop (nat c) mgs) (c + 1) else [])"
        by (auto intro!: filter_True filter_False dest: step_rows_store)
      then show ?thesis using rows_of_ledger [OF a(3) rs, of other] c by simp
    qed
  qed (use st z h ap(2) a c in \<open>simp_all add: nat_le_iff\<close>)
qed

lemma history_length: "history store d c \<Longrightarrow> length (rows_of store d) = c"
  unfolding history_def by (drule arg_cong [of _ _ length]) (simp del: upt_Suc)

lemma history_unique: "history store d c \<Longrightarrow> history store d c' \<Longrightarrow> c = c'"
  using history_length by blast

lemma history_versions: "history store d c \<Longrightarrow> r \<in> set (rows_of store d) \<Longrightarrow> lrVersion r \<le> int c"
proof -
  assume "history store d c" "r \<in> set (rows_of store d)"
  then have "lrVersion r \<in> set (map int [1..<Suc c])" unfolding history_def by (metis imageI set_map set_sort)
  then show ?thesis by auto
qed

lemma history_extended:
  assumes "history store d c" "rows_of store d' = rows_of store d @ step_rows ev n store mgs (int c + 1)"
  shows "history store d' (c + length mgs)"
proof -
  have new: "map (\<lambda>i. int c + 1 + int i) [0..<k] = map int [Suc c..<Suc (c + k)]" for k
    by (induction k) (simp_all add: add.commute add.left_commute)
  have "mset (map lrVersion (rows_of store d)) = mset (map int [1..<Suc c])"
    using assms(1) unfolding history_def by (metis mset_sort)
  then have "mset (map lrVersion (rows_of store d')) = mset (map int [1..<Suc c] @ map int [Suc c..<Suc (c + length mgs)])"
    unfolding assms(2) map_append mset_append step_rows_simps new by simp
  also have "map int [1..<Suc c] @ map int [Suc c..<Suc (c + length mgs)] = map int [1..<Suc (c + length mgs)]"
    unfolding map_append [symmetric] using upt_add_eq_append [of 1 "Suc c" "length mgs"] by simp
  finally show ?thesis unfolding history_def by (intro properties_for_sort) (simp_all add: sorted_map del: upt_Suc)
qed

section \<open>Properties\<close>

text \<open>C17. A sweep is all or nothing and runs exactly what is missing. If it reports an error, whatever
  statement failed, the file is as it was. If it reports none, the store's history was its first c
  steps, the tables are what the SQL of the remaining steps, in order, makes of them, the history is now
  all the steps, with their names, and the histories of all other stores are untouched.\<close>

theorem sweep_is_all_or_nothing:
  assumes "migrate ev n store mgs d = (err, d')"
  shows "(err \<noteq> None \<longrightarrow> d' = d)
    \<and> (err = None \<longrightarrow> (\<exists>c \<le> length mgs. history store d c \<and> history store d' (length mgs)
        \<and> run_all ev (drop c mgs) (mdTables d) = Inr (mdTables d')
        \<and> map lrName (rows_of store d') = map lrName (rows_of store d) @ map migName (drop c mgs)
        \<and> (\<forall>other. other \<noteq> store \<longrightarrow> rows_of other d' = rows_of other d)))"
proof (cases err)
  case (Some e)
  with assms show ?thesis by (auto simp: migrate_def split: if_splits option.splits sum.splits)
next
  case None
  with assms have "migrate ev n store mgs d = (None, d')" by simp
  then show ?thesis
  proof (rule migrate_None)
    fix c assume c: "history store d c" "c \<le> length mgs" "run_all ev (drop c mgs) (mdTables d) = Inr (mdTables d')"
      and rows: "\<And>other. rows_of other d' = rows_of other d @
        (if other = store then step_rows ev (n + 4) store (drop c mgs) (int c + 1) else [])"
    have r: "rows_of store d' = rows_of store d @ step_rows ev (n + 4) store (drop c mgs) (int c + 1)" using rows [of store] by simp
    have "history store d' (length mgs)" using history_extended [OF c(1) r] c(2) by simp
    with c r rows None show ?thesis by (auto intro!: exI [of _ c])
  qed
qed

text \<open>What a sweep accepts. When no statement fails for a reason of its own, migrate succeeds exactly on a
  file without a header counter whose ledger records, for the store, a gapless prefix of the known
  steps, and whose missing steps the tables admit: a gap, a history longer than the list, a file from
  before the ledger and a store without a name are all refused.\<close>

theorem sound_files_are_migrated:
  assumes "\<forall>k. evFault ev k = None"
  shows "fst (migrate ev n store mgs d) = None \<longleftrightarrow> store \<noteq> [] \<and> mdUserVersion d = 0
    \<and> (\<exists>c w. c \<le> length mgs \<and> history store d c \<and> run_all ev (drop c mgs) (mdTables d) = Inr w)"
proof
  assume "fst (migrate ev n store mgs d) = None"
  then have "migrate ev n store mgs d = (None, snd (migrate ev n store mgs d))" by (simp add: prod_eq_iff)
  then show "store \<noteq> [] \<and> mdUserVersion d = 0
    \<and> (\<exists>c w. c \<le> length mgs \<and> history store d c \<and> run_all ev (drop c mgs) (mdTables d) = Inr w)"
    by (rule migrate_None) blast
next
  assume a: "store \<noteq> [] \<and> mdUserVersion d = 0
    \<and> (\<exists>c w. c \<le> length mgs \<and> history store d c \<and> run_all ev (drop c mgs) (mdTables d) = Inr w)"
  then obtain c w where c: "c \<le> length mgs" "history store d c" "run_all ev (drop c mgs) (mdTables d) = Inr w" by blast
  have no: "\<And>k. evFault ev k = None" using assms by blast
  have ap: "applied ev (n + 3) store (createLedger d) = Inr (int c)" using c(2) by (simp add: applied_history [OF no])
  obtain rs where rs: "mdLedger (createLedger d) = Some rs" by (meson createLedger_fields(4) not_None_eq)
  have low: "lrVersion r < int c + 1" if "r \<in> set rs" "lrStore r = store" for r
  proof -
    have "r \<in> set (rows_of store (createLedger d))" using that rs by (simp add: rows_of_def)
    then show ?thesis using history_versions [OF c(2)] by simp
  qed
  obtain k d' where "apply_from ev (n + 4) store (drop c mgs) (int c + 1) (createLedger d) = Inr (k, d')"
    using apply_from_runs [OF no, of "drop c mgs" "createLedger d" w rs store "int c + 1" "n + 4"] c(3) rs low by auto
  with ap c(1) a no show "fst (migrate ev n store mgs d) = None"
    by (simp add: migrate_def in_transaction_def rejectPreLedger_def Let_def)
qed


text \<open>A database whose tables are the log of the SQL that ran on it.\<close>

definition log_ev :: "string list engine_env" where
  "log_ev = \<lparr>evFault = (\<lambda>_. None), evRun = (\<lambda>sql w. Inr (w @ [sql])), evNow = (\<lambda>_. ''now'')\<rparr>"

definition new_file :: "string list mdb" where
  "new_file = \<lparr>mdTables = [], mdUserVersion = 0, mdLedger = None\<rparr>"

definition first_release :: "migration list" where
  "first_release = [\<lparr>migName = ''create'', migSQL = ''CREATE TABLE t''\<rparr>]"

definition second_step :: migration where
  "second_step = \<lparr>migName = ''index'', migSQL = ''CREATE INDEX i''\<rparr>"

definition file_after :: "string list \<Rightarrow> string list \<Rightarrow> string list mdb" where
  "file_after log names = \<lparr>mdTables = log, mdUserVersion = 0, mdLedger = Some (map2 (\<lambda>v nm.
     \<lparr>lrStore = ''tasks'', lrVersion = v, lrName = nm, lrAppliedAt = ''now''\<rparr>) [1, 2, 3] names)\<rparr>"

lemmas mig_demo_defs = log_ev_def new_file_def first_release_def second_step_def file_after_def migrate_def in_transaction_def
  rejectPreLedger_def applied_def createLedger_def rows_of_def apply_step_def record_step_def Let_def

lemma demo_sweeps:
  "migrate log_ev 0 ''tasks'' first_release new_file = (None, file_after [''CREATE TABLE t''] [''create''])"
  "migrate log_ev 9 ''tasks'' (first_release @ [second_step]) (file_after [''CREATE TABLE t''] [''create''])
     = (None, file_after [''CREATE TABLE t'', ''CREATE INDEX i''] [''create'', ''index''])"
  by (simp_all add: mig_demo_defs)

theorem sweep_is_all_or_nothing_witness:
  "\<exists>c \<le> 1. history ''tasks'' new_file c \<and> run_all log_ev (drop c first_release) [] = Inr [''CREATE TABLE t'']"
proof -
  have "mdTables new_file = []" "length first_release = 1" "mdTables (file_after [''CREATE TABLE t''] [''create'']) = [''CREATE TABLE t'']"
    by (simp_all add: mig_demo_defs)
  with sweep_is_all_or_nothing [OF demo_sweeps(1), THEN conjunct2] show ?thesis by auto
qed

theorem sound_files_are_migrated_witness:
  "fst (migrate log_ev 0 ''tasks'' first_release (file_after [] [''create'', ''gone''])) \<noteq> None"
proof -
  let ?d = "file_after [] [''create'', ''gone'']"
  have "\<forall>k. evFault log_ev k = None" by (simp add: log_ev_def)
  note iff = sound_files_are_migrated [OF this, of 0 "''tasks''" first_release ?d]
  have "length (rows_of ''tasks'' ?d) = 2" "length first_release = 1" by (simp_all add: file_after_def rows_of_def first_release_def)
  then have "\<not> history ''tasks'' ?d c" if "c \<le> length first_release" for c
    using that history_length [of "''tasks''" ?d c] by auto
  with iff show ?thesis by blast
qed


end
