(* ===== verification/Accounts.thy ===== *)
theory Accounts
  imports Leasing_Properties Email_Demo
begin

text \<open>
  The accounts package (src/accounts): the leasing manager over one model, an account, and the place
  where the inboxes of the email package meet tasks. A manager built WithEmail installs in the email
  manager a guard that reads the accounts manager: the world of the email manager's guard is the state of
  the accounts manager. Payloads are JSON the package never reads; decoding one is a parameter.
\<close>

section \<open>The model\<close>

record account = resource +
  acEmailID :: string
  acFields :: string

definition accountKind :: string where "accountKind = ''account''"
definition EmailRef :: string where "EmailRef = ''email''"

text \<open>No fields are the zero value of the caller's type.\<close>

definition account_Bind :: "(string \<Rightarrow> string + 'f) \<Rightarrow> 'f \<Rightarrow> account \<Rightarrow> (string \<times> string) + 'f" where
  "account_Bind unmarshal zero a =
     (if acFields a = [] then Inr zero
      else (case unmarshal (acFields a) of Inl e \<Rightarrow> Inl (resID a, e) | Inr f \<Rightarrow> Inr f))"

definition ForwardingEmail :: "account \<Rightarrow> group \<Rightarrow> string" where
  "ForwardingEmail a g = (if acEmailID a \<noteq> [] then acEmailID a else get_or [] (grpRefs g) EmailRef)"

section \<open>The manager\<close>

type_synonym 's accounts_mgr = "('s, unit account_ext) manager"

fun taskIDs_loop :: "assignment list \<Rightarrow> string set \<Rightarrow> string list" where
  "taskIDs_loop [] known = []"
| "taskIDs_loop (a # as) known =
     (if asgTask a \<in> known then taskIDs_loop as known else asgTask a # taskIDs_loop as (insert (asgTask a) known))"

definition account_taskIDs :: "assignment list \<Rightarrow> string list" where
  "account_taskIDs as = taskIDs_loop as {}"

definition forwards_to :: "string \<Rightarrow> account \<Rightarrow> group \<Rightarrow> bool" where
  "forwards_to i a g \<longleftrightarrow> ForwardingEmail a g = i"

definition accounts_guard :: "'s accounts_mgr \<Rightarrow> string \<Rightarrow> string list \<times> string list" where
  "accounts_guard m i =
     (if i = [] then ([], [])
      else (account_taskIDs (Held (forwards_to i) m), account_taskIDs (Locked (forwards_to i) m)))"

text \<open>WithEmail panics on no manager, None here; an option changes the configuration, a later one over an
  earlier one. NewManager answers with the manager and the email manager it installed the guard in.\<close>

definition WithEmail :: "'m option \<Rightarrow> ('m option \<Rightarrow> 'm option) option" where
  "WithEmail em = (case em of None \<Rightarrow> None | Some mgr \<Rightarrow> Some (\<lambda>cfg. Some mgr))"

definition accounts_NewManager ::
    "('s, unit account_ext) repository option
      \<Rightarrow> (('t, 's accounts_mgr) emgr option \<Rightarrow> ('t, 's accounts_mgr) emgr option) list \<Rightarrow> time \<Rightarrow> 's
      \<Rightarrow> (lease_error + 's accounts_mgr \<times> ('t, 's accounts_mgr) emgr option) \<times> 's" where
  "accounts_NewManager repo opts now s =
     (let cfg = fold (\<lambda>opt c. opt c) opts None
      in case NewManager repo [] now s of
           (Inl e, s') \<Rightarrow> (Inl e, s')
         | (Inr m, s') \<Rightarrow> (Inr (m, map_option (GuardDeletes accounts_guard) cfg), s'))"

section \<open>Reports of the leasing manager\<close>

lemma set_sortAssignments [simp]: "set (sortAssignments as) = set as"
proof -
  have "set (insert_assignment a bs) = insert a (set bs)" for a bs
    by (induction bs) auto
  then have "set (foldr insert_assignment as []) = set as" by (induction as) simp_all
  then show ?thesis by (simp add: sortAssignments_def)
qed

lemma taskIDs_loop_facts:
  "set (taskIDs_loop as known) = asgTask ` set as - known" "distinct (taskIDs_loop as known)"
proof -
  show s: "set (taskIDs_loop as known) = asgTask ` set as - known" for as known
    by (induction as known rule: taskIDs_loop.induct) auto
  show "distinct (taskIDs_loop as known)"
    by (induction as known rule: taskIDs_loop.induct) (simp_all add: s)
qed

lemma account_taskIDs_facts [simp]:
  "set (account_taskIDs as) = asgTask ` set as" "distinct (account_taskIDs as)"
  by (simp_all add: account_taskIDs_def taskIDs_loop_facts)

text \<open>The group a record is in, the zero group when there is none.\<close>

abbreviation group_of :: "('s, 'x) manager \<Rightarrow> 'x resource_scheme \<Rightarrow> group" where
  "group_of m p \<equiv> get_or zeroGroup (mGroups m) (resGroup p)"

lemma Held_tasks:
  assumes inv: "lease_inv m"
  shows "asgTask ` set (Held pred m) =
    {t. \<exists>rid p. get (mPool m) rid = Some p \<and> pred p (group_of m p) \<and> 0 < get_or 0 (holdersOf m rid) t}"
proof -
  have wf: "wf_map (mHolders m)" using lease_invD(1) [OF inv] by (simp add: inv_maps_def)
  have pos: "0 < get_or 0 (holdersOf m rid) t \<longleftrightarrow> t \<in> fst ` set (holdersOf m rid)" for rid t
  proof
    assume "0 < get_or 0 (holdersOf m rid) t"
    then obtain n where "get (holdersOf m rid) t = Some n" by (auto simp: get_or_def split: option.splits)
    then show "t \<in> fst ` set (holdersOf m rid)" by (force dest: map_of_SomeD)
  next
    assume "t \<in> fst ` set (holdersOf m rid)"
    then obtain n where n: "(t, n) \<in> set (holdersOf m rid)" by force
    then have "get (holdersOf m rid) t = Some n" using holdersOf_wf [OF inv] by simp
    with holdersOf_pos [OF inv n] show "0 < get_or 0 (holdersOf m rid) t" by (simp add: get_or_def)
  qed
  have each: "asgTask ` set (held_of pred m (rid, h)) =
      {t. \<exists>p. get (mPool m) rid = Some p \<and> pred p (group_of m p) \<and> t \<in> fst ` set h}" for rid h
  proof (cases "get (mPool m) rid")
    case (Some p)
    then show ?thesis by (cases "pred p (group_of m p)") (simp_all add: held_of_def asg_at_def image_image)
  qed (simp add: held_of_def)
  have "asgTask ` set (Held pred m) = (\<Union>e \<in> set (mHolders m). asgTask ` set (held_of pred m e))"
    by (simp add: Held_def image_UN)
  also have "\<dots> = {t. \<exists>rid p. get (mPool m) rid = Some p \<and> pred p (group_of m p) \<and> t \<in> fst ` set (holdersOf m rid)}"
  proof (intro set_eqI iffI)
    fix t assume "t \<in> (\<Union>e \<in> set (mHolders m). asgTask ` set (held_of pred m e))"
    then obtain rid h where e: "(rid, h) \<in> set (mHolders m)" "t \<in> asgTask ` set (held_of pred m (rid, h))" by auto
    then have "holdersOf m rid = h" using wf by (simp add: holdersOf_def get_or_def)
    with e(2) show "t \<in> {t. \<exists>rid p. get (mPool m) rid = Some p \<and> pred p (group_of m p) \<and> t \<in> fst ` set (holdersOf m rid)}"
      unfolding each by blast
  next
    fix t assume "t \<in> {t. \<exists>rid p. get (mPool m) rid = Some p \<and> pred p (group_of m p) \<and> t \<in> fst ` set (holdersOf m rid)}"
    then obtain rid p where r: "get (mPool m) rid = Some p" "pred p (group_of m p)" "t \<in> fst ` set (holdersOf m rid)" by blast
    then obtain h where h: "get (mHolders m) rid = Some h" "holdersOf m rid = h"
      by (cases "get (mHolders m) rid") (auto simp: holdersOf_def get_or_def)
    then have "(rid, h) \<in> set (mHolders m)" by (simp add: map_of_SomeD)
    moreover have "t \<in> asgTask ` set (held_of pred m (rid, h))" using r h(2) unfolding each by blast
    ultimately show "t \<in> (\<Union>e \<in> set (mHolders m). asgTask ` set (held_of pred m e))" by blast
  qed
  finally show ?thesis unfolding pos .
qed

lemma Locked_tasks:
  assumes inv: "lease_inv m"
  shows "asgTask ` set (Locked pred m) =
    {t. t \<noteq> [] \<and> (\<exists>rid p. get (mPool m) rid = Some p \<and> pred p (group_of m p) \<and> resOwner p = t)}"
proof -
  have wf: "wf_map (mBindings m)" using lease_invD(1) [OF inv] by (simp add: inv_maps_def)
  have bind: "(t, rid) \<in> set (mBindings m) \<longleftrightarrow> t \<noteq> [] \<and> (\<exists>p. get (mPool m) rid = Some p \<and> resOwner p = t)" for t rid
  proof -
    have "(t, rid) \<in> set (mBindings m) \<longleftrightarrow> get (mBindings m) t = Some rid" using wf by (metis map_of_SomeD map_of_is_SomeI)
    then show ?thesis using binding_owner [OF inv] by simp
  qed
  have each: "asgTask ` set (locked_of pred m (t, rid)) =
      {u. u = t \<and> (\<exists>p. get (mPool m) rid = Some p \<and> pred p (group_of m p))}" for t rid
  proof (cases "get (mPool m) rid")
    case (Some p)
    then show ?thesis by (cases "pred p (group_of m p)") (simp_all add: locked_of_def asg_at_def)
  qed (simp add: locked_of_def)
  have "asgTask ` set (Locked pred m) = (\<Union>e \<in> set (mBindings m). asgTask ` set (locked_of pred m e))"
    by (simp add: Locked_def image_UN)
  also have "\<dots> = {t. \<exists>rid. (t, rid) \<in> set (mBindings m) \<and> (\<exists>p. get (mPool m) rid = Some p \<and> pred p (group_of m p))}"
  proof (intro set_eqI iffI)
    fix t assume "t \<in> (\<Union>e \<in> set (mBindings m). asgTask ` set (locked_of pred m e))"
    then obtain u rid where e: "(u, rid) \<in> set (mBindings m)" "t \<in> asgTask ` set (locked_of pred m (u, rid))" by auto
    then show "t \<in> {t. \<exists>rid. (t, rid) \<in> set (mBindings m) \<and> (\<exists>p. get (mPool m) rid = Some p \<and> pred p (group_of m p))}"
      unfolding each by blast
  next
    fix t assume "t \<in> {t. \<exists>rid. (t, rid) \<in> set (mBindings m) \<and> (\<exists>p. get (mPool m) rid = Some p \<and> pred p (group_of m p))}"
    then obtain rid where r: "(t, rid) \<in> set (mBindings m)" "\<exists>p. get (mPool m) rid = Some p \<and> pred p (group_of m p)" by blast
    then have "t \<in> asgTask ` set (locked_of pred m (t, rid))" unfolding each by blast
    with r(1) show "t \<in> (\<Union>e \<in> set (mBindings m). asgTask ` set (locked_of pred m e))" by blast
  qed
  finally have e: "asgTask ` set (Locked pred m) =
    {t. \<exists>rid. (t, rid) \<in> set (mBindings m) \<and> (\<exists>p. get (mPool m) rid = Some p \<and> pred p (group_of m p))}" .
  show ?thesis unfolding e bind by (metis (no_types, lifting) option.inject)
qed

section \<open>The inbox of a leased account\<close>

text \<open>What the guard says of a reachable process: the tasks that hold an unreleased lease on an account
  forwarding to the email, and those whose durable lock is on one.\<close>

lemma guard_reports:
  assumes "reachable S" "i \<noteq> []" "accounts_guard (sysMgr S) i = (held, locked)"
  shows "distinct held" "distinct locked"
    "set held = {t. \<exists>rid p. get (mPool (sysMgr S)) rid = Some p \<and> ForwardingEmail p (group_of (sysMgr S) p) = i
       \<and> 0 < live (lease_by rid t) S}"
    "set locked = {t. t \<noteq> [] \<and> (\<exists>rid p. get (mPool (sysMgr S)) rid = Some p
       \<and> ForwardingEmail p (group_of (sysMgr S) p) = i \<and> resOwner p = t)}"
proof -
  note inv = reachable_lease_inv [OF assms(1)]
  have e: "held = account_taskIDs (Held (forwards_to i) (sysMgr S))"
    "locked = account_taskIDs (Locked (forwards_to i) (sysMgr S))"
    using assms(2,3) by (simp_all add: accounts_guard_def)
  show "distinct held" "distinct locked" by (simp_all add: e)
  show "set held = {t. \<exists>rid p. get (mPool (sysMgr S)) rid = Some p \<and> ForwardingEmail p (group_of (sysMgr S) p) = i
       \<and> 0 < live (lease_by rid t) S}"
    by (simp add: e Held_tasks [OF inv] reachable_by [OF assms(1)] forwards_to_def)
  show "set locked = {t. t \<noteq> [] \<and> (\<exists>rid p. get (mPool (sysMgr S)) rid = Some p
       \<and> ForwardingEmail p (group_of (sysMgr S) p) = i \<and> resOwner p = t)}"
    by (simp add: e Locked_tasks [OF inv] forwards_to_def)
qed

lemma live_on_by: "0 < live (lease_on rid) S \<longleftrightarrow> (\<exists>t. 0 < live (lease_by rid t) S)"
  by (auto simp: live_def lease_on_def lease_by_def filter_empty_conv)

text \<open>C19. An inbox is not deleted from under a running task. With the guard of an accounts manager installed, a
  deletion that goes through leaves no open subscription to the inbox and no unreleased lease on any
  account that forwards to it, by its own field or its group's, and reports exactly the tasks whose
  durable locks it strands; one refused for the accounts names exactly the tasks that hold such leases,
  sorted, and changes nothing.\<close>

theorem leased_account_keeps_its_inbox:
  assumes "reachable S" "email_reachable v E" "emGuard (syMgr E) = Some accounts_guard" "i \<noteq> []"
    and "get (emInventory (syMgr E)) i \<noteq> None" "email_Delete (sysMgr S) i (syMgr E) = ((stranded, err), m')"
  shows "(err = None \<longrightarrow>
      (\<forall>s < length (emSHeap (syMgr E)). esEmailID (subAt (syMgr E) s) = i \<longrightarrow> esClosed (subAt (syMgr E) s))
      \<and> (\<forall>rid p. get (mPool (sysMgr S)) rid = Some p \<longrightarrow> ForwardingEmail p (group_of (sysMgr S) p) = i \<longrightarrow>
           live (lease_on rid) S = 0)
      \<and> sorted stranded \<and> distinct stranded
      \<and> set stranded = {t. t \<noteq> [] \<and> (\<exists>rid p. get (mPool (sysMgr S)) rid = Some p
           \<and> ForwardingEmail p (group_of (sysMgr S) p) = i \<and> resOwner p = t)})
    \<and> (\<forall>tasks. err = Some (EmForwardedTo i tasks) \<longrightarrow> m' = syMgr E \<and> stranded = []
        \<and> sorted tasks \<and> distinct tasks \<and> tasks \<noteq> []
        \<and> set tasks = {t. \<exists>rid p. get (mPool (sysMgr S)) rid = Some p
             \<and> ForwardingEmail p (group_of (sysMgr S) p) = i \<and> 0 < live (lease_by rid t) S})"
proof -
  note ok = email_inv_shape [OF delivery_invD(1) [OF reachable_delivery [OF assms(2)]]]
  have sort_Nil: "sort xs = [] \<longleftrightarrow> xs = []" for xs :: "string list" by (metis set_empty set_sort)
  obtain held locked where g: "accounts_guard (sysMgr S) i = (held, locked)" by fastforce
  note r = guard_reports [OF assms(1,4) g]
  have subs: "esClosed (subAt (syMgr E) s)" if "get (emListeners (syMgr E)) i = None" "s < length (emSHeap (syMgr E))"
      "esEmailID (subAt (syMgr E) s) = i" for s
    using open_attached [OF ok that(2)] that by force
  have idle: "live (lease_on rid) S = 0"
    if "held = []" "get (mPool (sysMgr S)) rid = Some p" "ForwardingEmail p (group_of (sysMgr S) p) = i" for rid p
  proof -
    have "\<not> 0 < live (lease_by rid t) S" for t using r(3) that by auto
    then show ?thesis using live_on_by [of rid S] by simp
  qed
  have none: "listener_taskIDs (syMgr E) (lnAt (syMgr E) a) \<noteq> []" if "get (emListeners (syMgr E)) i = Some a" for a
    using email_shapeD(5) [OF ok that] by (simp add: listener_taskIDs_def sort_Nil)
  show ?thesis
  proof (cases "get (emListeners (syMgr E)) i")
    case (Some a)
    with assms(5,6) none [OF Some] show ?thesis by (auto simp: email_Delete_def Let_def)
  next
    case None
    show ?thesis
    proof (cases "held = []")
      case True
      with None assms(3,5,6) g have "err \<noteq> Some (EmForwardedTo i tasks)" "err = None \<Longrightarrow> stranded = sort locked" for tasks
        by (auto simp: email_Delete_def Let_def split: option.splits prod.splits)
      with None True subs idle r(2,4) show ?thesis by auto
    next
      case False
      with None assms(3,5,6) g have "err = Some (EmForwardedTo i (sort held))" "m' = syMgr E" "stranded = []"
        by (auto simp: email_Delete_def Let_def split: option.splits prod.splits)
      with False r(1,3) show ?thesis by (auto simp: sort_Nil)
    qed
  qed
qed

text \<open>A process with one account forwarding to the inbox of \<^theory_text>\<open>Email_Demo\<close>, leased to task a.\<close>

definition demo_account :: account where
  "demo_account = \<lparr>resID = ''x'', resGroup = GlobalGroup, resOwner = [], resMax = 0, resCreated = 0,
     resUpdated = 0, acEmailID = ''in'', acFields = []\<rparr>"

definition ademo_m0 :: "unit accounts_mgr" where
  "ademo_m0 = (emptyManager noopRepository ())\<lparr>mGroups := [(GlobalGroup, demo_group)],
     mStrategies := [(GlobalGroup, NewRoundRobin)]\<rparr>"

definition ademo_m1 :: "unit accounts_mgr" where
  "ademo_m1 = ademo_m0\<lparr>mPool := [(''x'', demo_account)], mOrder := [''x''], mGen := 1\<rparr>"

definition ademo_m2 :: "unit accounts_mgr" where
  "ademo_m2 = ademo_m1\<lparr>mStrategies := [(GlobalGroup, round_robin 1)], mHolders := [(''x'', [(''a'', 1)])]\<rparr>"

definition ademo :: "(unit, unit account_ext) sys" where
  "ademo = \<lparr>sysMgr = ademo_m2, sysAsleep = [],
     sysLeases = [\<lparr>hndLease = \<lparr>lseRes = demo_account, lseGroup = demo_group, lseTask = ''a''\<rparr>, hndDone = False\<rparr>]\<rparr>"

definition ademo_mail :: "(unit, unit accounts_mgr) esys" where
  "ademo_mail = de_stocked\<lparr>syMgr := GuardDeletes accounts_guard (syMgr de_stocked)\<rparr>"

lemmas ademo_defs = ademo_m0_def ademo_m1_def ademo_m2_def demo_account_def demo_group_def demo_asg_def

lemma ademo_boot: "NewManager None [] 1 () = (Inr ademo_m0, ())"
  by (simp add: NewManager_def noopRepository_def emptyManager_def ensureGlobal_def Let_def
      repo_save_group_def adoptGroup_def validateGroup_def ademo_defs)

lemma ademo_reachable: "reachable ademo"
proof -
  have add: "Add 0 demo_account ademo_m0 = (None, ademo_m1)"
    by (simp add: Add_def ademo_defs validateHolderPolicy_def UnlimitedHolders_def Let_def
        repo_save_def noopRepository_def emptyManager_def broadcast_def)
  have acq: "acquire_pass None 3 (demo_asg ''a'') False ademo_m1 =
      (Leased \<lparr>lseRes = demo_account, lseGroup = demo_group, lseTask = ''a''\<rparr>, ademo_m2)"
    by (simp add: acquire_pass_def checkPin_def acquire_unbound_def groupHasResources_def groupAt_def
        selectUnlocked_def candidates_def is_candidate_def heldCount_def holdersOf_def effectiveCap_def
        UnlimitedHolders_def rr_Select_def eligible_def hold_def lease_of_def NewRoundRobin_def
        ademo_defs emptyManager_def)
  from reachable.step [OF reachable.step [OF reachable.boot [OF ademo_boot] sys_step.add [where p = demo_account]]
      sys_step.start [OF demo_prepare, of "''a''"]] add acq
  show ?thesis by (fastforce simp: settle_def ademo_def)
qed

lemma ademo_mail_reachable: "email_reachable de_val ademo_mail"
  unfolding ademo_mail_def by (rule email_reachable.step [OF de_stocked_reachable email_step.guard])

text \<open>The guard in it is the one NewManager installs.\<close>

lemma ademo_wired:
  "\<exists>opt. WithEmail (Some (syMgr de_stocked)) = Some opt
     \<and> accounts_NewManager None [opt] 1 () = (Inr (ademo_m0, Some (syMgr ademo_mail)), ())"
  by (simp add: WithEmail_def accounts_NewManager_def ademo_boot ademo_mail_def)

theorem leased_account_keeps_its_inbox_witness:
  "email_Delete (sysMgr ademo) ''in'' (syMgr ademo_mail) = (([], Some (EmForwardedTo ''in'' [''a''])), syMgr ademo_mail)"
proof -
  let ?E = "syMgr ademo_mail"
  have pre: "emGuard ?E = Some accounts_guard" "''in'' \<noteq> ([] :: string)" "get (emInventory ?E) ''in'' \<noteq> None"
    "get (emListeners ?E) ''in'' = None"
    by (simp_all add: ademo_mail_def de_stocked_def de_empty_def GuardDeletes_def de_mgr_def)
  have pool: "get (mPool (sysMgr ademo)) ''x'' = Some demo_account" by (simp add: ademo_def ademo_m2_def ademo_m1_def)
  have fw: "ForwardingEmail demo_account g = ''in''" for g by (simp add: ForwardingEmail_def demo_account_def)
  have live: "0 < live (lease_by ''x'' ''a'') ademo" "live (lease_on ''x'') ademo \<noteq> 0"
    by (simp_all add: live_def lease_by_def lease_on_def ademo_def demo_account_def)
  have only: "t = ''a''" if "0 < live (lease_by rid t) ademo" for rid t
    using that by (simp add: live_def lease_by_def ademo_def split: if_splits)
  obtain stranded err m' where run: "email_Delete (sysMgr ademo) ''in'' ?E = ((stranded, err), m')" by (metis prod.collapse)
  note t = leased_account_keeps_its_inbox [OF ademo_reachable ademo_mail_reachable pre(1-3) run]
  obtain held locked where g: "accounts_guard (sysMgr ademo) ''in'' = (held, locked)" by fastforce
  have "''a'' \<in> set held" using guard_reports(3) [OF ademo_reachable pre(2) g] pool fw live(1) by blast
  then have "held \<noteq> []" by auto
  with run pre g have err: "err = Some (EmForwardedTo ''in'' (sort held))" by (auto simp: email_Delete_def Let_def)
  with t have f: "m' = ?E" "stranded = []" "distinct (sort held)" "sort held \<noteq> []"
    "set (sort held) = {t. \<exists>rid p. get (mPool (sysMgr ademo)) rid = Some p
       \<and> ForwardingEmail p (group_of (sysMgr ademo) p) = ''in'' \<and> 0 < live (lease_by rid t) ademo}"
    by blast+
  have "set (sort held) \<subseteq> {''a''}" using only by (auto simp only: f(5))
  with f(3,4) have "sort held = [''a'']" by (cases "sort held") (auto split: list.splits, metis distinct.simps(2) insert_iff list.set_intros(1) neq_Nil_conv singletonD subsetD)
  with run err f show ?thesis by simp
qed

end
