(* ===== verification/Payments.thy ===== *)
theory Payments
  imports Leasing_Manager
begin

text \<open>
  The payments package (src/payments): the leasing manager over one model, a payment, with no strategy of
  its own. Its payload is JSON the package never reads; decoding one is a parameter.
\<close>

record payment = resource +
  pyFields :: string

definition paymentKind :: string where "paymentKind = ''payment''"

text \<open>No fields are the zero value of the caller's type.\<close>

definition payment_Bind :: "(string \<Rightarrow> string + 'f) \<Rightarrow> 'f \<Rightarrow> payment \<Rightarrow> (string \<times> string) + 'f" where
  "payment_Bind unmarshal zero c =
     (if pyFields c = [] then Inr zero
      else (case unmarshal (pyFields c) of Inl e \<Rightarrow> Inl (resID c, e) | Inr f \<Rightarrow> Inr f))"

definition payments_NewManager ::
    "('s, unit payment_ext) repository option \<Rightarrow> time \<Rightarrow> 's \<Rightarrow> (lease_error + ('s, unit payment_ext) manager) \<times> 's" where
  "payments_NewManager repo now s = NewManager repo [] now s"

end
