(* ===== verification/Sqlite_Accounts.thy ===== *)
theory Sqlite_Accounts
  imports Accounts Payments Sqlite_Store
begin

text \<open>
  The SQLite stores of accounts and of payments (src/sqlite/accounts.go, src/sqlite/payments.go): their rows,
  and the statements of \<^theory_text>\<open>Sqlite_Store\<close> over them. A payload that is not JSON is refused before
  anything is written.
\<close>

section \<open>Accounts\<close>

record account_row =
  arowID :: string
  arowGroup :: string
  arowOwner :: string
  arowMax :: int
  arowEmail :: string
  arowFields :: string
  arowCreated :: string
  arowUpdated :: string

definition account_row_of :: "codec \<Rightarrow> account \<Rightarrow> string + account_row" where
  "account_row_of c a =
     (case formatFields c (acFields a) of
        Inl e \<Rightarrow> Inl e
      | Inr payload \<Rightarrow>
          Inr \<lparr>arowID = resID a, arowGroup = resGroup a, arowOwner = resOwner a, arowMax = resMax a,
               arowEmail = acEmailID a, arowFields = payload,
               arowCreated = formatTime c (resCreated a), arowUpdated = formatTime c (resUpdated a)\<rparr>)"

definition merge_account :: "account_row \<Rightarrow> account_row \<Rightarrow> account_row" where
  "merge_account r old =
     old\<lparr>arowGroup := arowGroup r, arowOwner := arowOwner r, arowMax := arowMax r, arowEmail := arowEmail r,
         arowFields := arowFields r, arowUpdated := arowUpdated r\<rparr>"

definition scan_account :: "codec \<Rightarrow> account_row \<Rightarrow> account option" where
  "scan_account c r =
     (case parseTime c (arowCreated r) of
        None \<Rightarrow> None
      | Some created \<Rightarrow>
     (case parseTime c (arowUpdated r) of
        None \<Rightarrow> None
      | Some updated \<Rightarrow>
          Some \<lparr>resID = arowID r, resGroup = arowGroup r, resOwner = arowOwner r, resMax = arowMax r,
                resCreated = created, resUpdated = updated, acEmailID = arowEmail r,
                acFields = parseFields (arowFields r)\<rparr>))"

definition accounts_Save :: "account \<Rightarrow> account_row kdb \<Rightarrow> repoerr option \<times> account_row kdb" where
  "accounts_Save = kind_Save ''account'' arowID account_row_of merge_account"

definition accounts_Delete :: "string \<Rightarrow> account_row kdb \<Rightarrow> repoerr option \<times> account_row kdb" where
  "accounts_Delete = kind_Delete ''account''"

definition accounts_List :: "account_row kdb \<Rightarrow> (repoerr + account list) \<times> account_row kdb" where
  "accounts_List = kind_List ''accounts'' arowID scan_account"

definition accounts_SaveGroup :: "group \<Rightarrow> account_row kdb \<Rightarrow> repoerr option \<times> account_row kdb" where
  "accounts_SaveGroup = kind_SaveGroup ''account''"

definition accounts_DeleteGroup :: "string \<Rightarrow> account_row kdb \<Rightarrow> repoerr option \<times> account_row kdb" where
  "accounts_DeleteGroup = kind_DeleteGroup ''account''"

definition accounts_ListGroups :: "account_row kdb \<Rightarrow> (repoerr + group list) \<times> account_row kdb" where
  "accounts_ListGroups = kind_ListGroups ''account''"

definition sqliteAccounts :: "(account_row kdb, unit account_ext) repository" where
  "sqliteAccounts =
     \<lparr>repoList = accounts_List, repoSave = accounts_Save, repoDelete = accounts_Delete,
      repoListGroups = accounts_ListGroups, repoSaveGroup = accounts_SaveGroup,
      repoDeleteGroup = accounts_DeleteGroup\<rparr>"

lemma account_row_of_Inr:
  "account_row_of c a = Inr r \<longleftrightarrow> (acFields a = [] \<or> jsonValid c (acFields a)) \<and>
     r = \<lparr>arowID = resID a, arowGroup = resGroup a, arowOwner = resOwner a, arowMax = resMax a,
          arowEmail = acEmailID a, arowFields = acFields a,
          arowCreated = formatTime c (resCreated a), arowUpdated = formatTime c (resUpdated a)\<rparr>"
  by (auto simp: account_row_of_def formatFields_def)

interpretation ack: sql_kind "''account''" "''accounts''" arowID account_row_of merge_account scan_account
proof unfold_locales
  fix c and p q :: account and r old
  show "codec_ok c \<Longrightarrow> account_row_of c p = Inr r \<Longrightarrow> scan_account c r = Some p"
    by (cases p) (simp add: account_row_of_Inr scan_account_def parseFields_def)
  show "codec_ok c \<Longrightarrow> account_row_of c p = Inr r \<Longrightarrow> scan_account c old = Some q \<Longrightarrow> resID q = resID p \<Longrightarrow>
      scan_account c (merge_account r old) = Some (p\<lparr>resCreated := resCreated q\<rparr>)"
    by (cases p) (auto simp: account_row_of_Inr scan_account_def merge_account_def parseFields_def split: option.splits)
qed (auto simp: account_row_of_Inr merge_account_def scan_account_def split: option.splits)

interpretation acs: leasing_store sqliteAccounts "kd_rows scan_account" kd_grows "kd_sane arowID scan_account"
proof -
  have "sqliteAccounts = sqliteKind ''account'' ''accounts'' arowID account_row_of merge_account scan_account"
    by (simp add: sqliteAccounts_def sqliteKind_def accounts_Save_def accounts_Delete_def accounts_List_def
        accounts_SaveGroup_def accounts_DeleteGroup_def accounts_ListGroups_def)
  then show "leasing_store sqliteAccounts (kd_rows scan_account) kd_grows (kd_sane arowID scan_account)"
    using ack.leasing_store_axioms by simp
qed

section \<open>Payments\<close>

record payment_row =
  yrowID :: string
  yrowGroup :: string
  yrowOwner :: string
  yrowMax :: int
  yrowFields :: string
  yrowCreated :: string
  yrowUpdated :: string

definition payment_row_of :: "codec \<Rightarrow> payment \<Rightarrow> string + payment_row" where
  "payment_row_of c a =
     (case formatFields c (pyFields a) of
        Inl e \<Rightarrow> Inl e
      | Inr payload \<Rightarrow>
          Inr \<lparr>yrowID = resID a, yrowGroup = resGroup a, yrowOwner = resOwner a, yrowMax = resMax a,
               yrowFields = payload,
               yrowCreated = formatTime c (resCreated a), yrowUpdated = formatTime c (resUpdated a)\<rparr>)"

definition merge_payment :: "payment_row \<Rightarrow> payment_row \<Rightarrow> payment_row" where
  "merge_payment r old =
     old\<lparr>yrowGroup := yrowGroup r, yrowOwner := yrowOwner r, yrowMax := yrowMax r,
         yrowFields := yrowFields r, yrowUpdated := yrowUpdated r\<rparr>"

definition scan_payment :: "codec \<Rightarrow> payment_row \<Rightarrow> payment option" where
  "scan_payment c r =
     (case parseTime c (yrowCreated r) of
        None \<Rightarrow> None
      | Some created \<Rightarrow>
     (case parseTime c (yrowUpdated r) of
        None \<Rightarrow> None
      | Some updated \<Rightarrow>
          Some \<lparr>resID = yrowID r, resGroup = yrowGroup r, resOwner = yrowOwner r, resMax = yrowMax r,
                resCreated = created, resUpdated = updated, pyFields = parseFields (yrowFields r)\<rparr>))"

definition payments_Save :: "payment \<Rightarrow> payment_row kdb \<Rightarrow> repoerr option \<times> payment_row kdb" where
  "payments_Save = kind_Save ''payment'' yrowID payment_row_of merge_payment"

definition payments_Delete :: "string \<Rightarrow> payment_row kdb \<Rightarrow> repoerr option \<times> payment_row kdb" where
  "payments_Delete = kind_Delete ''payment''"

definition payments_List :: "payment_row kdb \<Rightarrow> (repoerr + payment list) \<times> payment_row kdb" where
  "payments_List = kind_List ''payments'' yrowID scan_payment"

definition payments_SaveGroup :: "group \<Rightarrow> payment_row kdb \<Rightarrow> repoerr option \<times> payment_row kdb" where
  "payments_SaveGroup = kind_SaveGroup ''payment''"

definition payments_DeleteGroup :: "string \<Rightarrow> payment_row kdb \<Rightarrow> repoerr option \<times> payment_row kdb" where
  "payments_DeleteGroup = kind_DeleteGroup ''payment''"

definition payments_ListGroups :: "payment_row kdb \<Rightarrow> (repoerr + group list) \<times> payment_row kdb" where
  "payments_ListGroups = kind_ListGroups ''payment''"

definition sqlitePayments :: "(payment_row kdb, unit payment_ext) repository" where
  "sqlitePayments =
     \<lparr>repoList = payments_List, repoSave = payments_Save, repoDelete = payments_Delete,
      repoListGroups = payments_ListGroups, repoSaveGroup = payments_SaveGroup,
      repoDeleteGroup = payments_DeleteGroup\<rparr>"

lemma payment_row_of_Inr:
  "payment_row_of c a = Inr r \<longleftrightarrow> (pyFields a = [] \<or> jsonValid c (pyFields a)) \<and>
     r = \<lparr>yrowID = resID a, yrowGroup = resGroup a, yrowOwner = resOwner a, yrowMax = resMax a,
          yrowFields = pyFields a,
          yrowCreated = formatTime c (resCreated a), yrowUpdated = formatTime c (resUpdated a)\<rparr>"
  by (auto simp: payment_row_of_def formatFields_def)

interpretation pyk: sql_kind "''payment''" "''payments''" yrowID payment_row_of merge_payment scan_payment
proof unfold_locales
  fix c and p q :: payment and r old
  show "codec_ok c \<Longrightarrow> payment_row_of c p = Inr r \<Longrightarrow> scan_payment c r = Some p"
    by (cases p) (simp add: payment_row_of_Inr scan_payment_def parseFields_def)
  show "codec_ok c \<Longrightarrow> payment_row_of c p = Inr r \<Longrightarrow> scan_payment c old = Some q \<Longrightarrow> resID q = resID p \<Longrightarrow>
      scan_payment c (merge_payment r old) = Some (p\<lparr>resCreated := resCreated q\<rparr>)"
    by (cases p) (auto simp: payment_row_of_Inr scan_payment_def merge_payment_def parseFields_def split: option.splits)
qed (auto simp: payment_row_of_Inr merge_payment_def scan_payment_def split: option.splits)

interpretation pys: leasing_store sqlitePayments "kd_rows scan_payment" kd_grows "kd_sane yrowID scan_payment"
proof -
  have "sqlitePayments = sqliteKind ''payment'' ''payments'' yrowID payment_row_of merge_payment scan_payment"
    by (simp add: sqlitePayments_def sqliteKind_def payments_Save_def payments_Delete_def payments_List_def
        payments_SaveGroup_def payments_DeleteGroup_def payments_ListGroups_def)
  then show "leasing_store sqlitePayments (kd_rows scan_payment) kd_grows (kd_sane yrowID scan_payment)"
    using pyk.leasing_store_axioms by simp
qed

section \<open>Properties\<close>

text \<open>An account's row is its record. A Save that reports no error leaves a store whose listing gives
  the account as it was saved, but for the creation time of a row that was already there, and every
  other row as it was; one that reports an error has written nothing; and a payload that is not JSON is
  always refused.\<close>

theorem saved_account_reads_back:
  assumes "kd_sane arowID scan_account d" "accounts_Save a d = (err, d')" "accounts_List d' = (Inr listed, d2)"
  shows "kd_sane arowID scan_account d' \<and> distinct (map resID listed)
    \<and> (err = None \<longrightarrow> kept_created (kd_rows scan_account d (resID a)) a \<in> set listed)
    \<and> (\<forall>b. resID b \<noteq> resID a \<or> err \<noteq> None \<longrightarrow> (b \<in> set listed \<longleftrightarrow> kd_rows scan_account d (resID b) = Some b))
    \<and> (acFields a \<noteq> [] \<and> \<not> jsonValid (kdCodec d) (acFields a) \<longrightarrow> err \<noteq> None \<and> d' = d)"
proof -
  have save: "repoSave sqliteAccounts a d = (err, d')" and lst: "repoList sqliteAccounts d' = (Inr listed, d2)"
    using assms(2,3) by (simp_all add: sqliteAccounts_def)
  have bad: "acFields a \<noteq> [] \<and> \<not> jsonValid (kdCodec d) (acFields a) \<longrightarrow> err \<noteq> None \<and> d' = d"
    using assms(2) by (auto simp: accounts_Save_def kind_Save_def account_row_of_def formatFields_def)
  show ?thesis
  proof (cases err)
    case (Some e)
    have f: "kd_sane arowID scan_account d'" "kd_rows scan_account d' = kd_rows scan_account d"
      using acs.save_failed [OF assms(1)] save Some by blast+
    from acs.list_ok [OF f(1) lst] show ?thesis using f bad Some by auto
  next
    case None
    have f: "kd_sane arowID scan_account d'"
      "kd_rows scan_account d' = (kd_rows scan_account d)(resID a \<mapsto> kept_created (kd_rows scan_account d (resID a)) a)"
      using acs.save_ok [OF assms(1)] save None by blast+
    have i: "resID (kept_created o1 a) = resID a" for o1 by (simp add: kept_created_def split: option.split)
    have l: "kd_rows scan_account d' rid = Some p \<longleftrightarrow> p \<in> set listed \<and> resID p = rid" for rid p
      using acs.list_ok [OF f(1) lst] by blast
    have dist: "distinct (map resID listed)" using acs.list_ok [OF f(1) lst] by blast
    have "kept_created (kd_rows scan_account d (resID a)) a \<in> set listed"
      using l [of "resID a" "kept_created (kd_rows scan_account d (resID a)) a"] f(2) by simp
    moreover have "b \<in> set listed \<longleftrightarrow> kd_rows scan_account d (resID b) = Some b" if "resID b \<noteq> resID a" for b
      using l [of "resID b" b] f(2) that by simp
    ultimately show ?thesis using f(1) dist bad None by auto
  qed
qed

definition ademo_db :: "account_row kdb" where
  "ademo_db = \<lparr>kdCodec = demo_codec, kdFault = (\<lambda>_. None), kdCalls = 0, kdRows = [], kdGroups = []\<rparr>"

theorem saved_account_reads_back_witness:
  "\<exists>d' d2 listed. accounts_Save demo_account ademo_db = (None, d') \<and> accounts_List d' = (Inr listed, d2)
     \<and> demo_account \<in> set listed"
proof -
  have sane: "kd_sane arowID scan_account ademo_db" by (simp add: kd_sane_def ademo_db_def demo_codec_ok)
  obtain r where r: "account_row_of demo_codec demo_account = Inr r"
    by (simp add: account_row_of_def formatFields_def demo_account_def)
  obtain d' where s: "accounts_Save demo_account ademo_db = (None, d')" "d' = upsert_row arowID merge_account r (ademo_db\<lparr>kdCalls := 1\<rparr>)"
    using r by (simp add: accounts_Save_def kind_Save_def execContext_def ademo_db_def Let_def)
  have "scan_account demo_codec r = Some demo_account" using ack.scan_encode [OF demo_codec_ok r] .
  then obtain listed d2 where l: "accounts_List d' = (Inr listed, d2)"
    by (simp add: accounts_List_def kind_List_def queryContext_def s(2) upsert_row_def ademo_db_def Let_def)
  have "kd_rows scan_account ademo_db (resID demo_account) = None" by (simp add: kd_rows_def ademo_db_def)
  with saved_account_reads_back [OF sane s(1) l] s(1) l show ?thesis by (auto simp: kept_created_def)
qed

end
