(* ===== verification/Sqlite_Email.thy ===== *)
theory Sqlite_Email
  imports Email_Demo Sqlite_Store
begin

text \<open>
  The SQLite store of emails (src/sqlite/email.go) under the email manager. The port is a contract
  (\<^theory_text>\<open>email_store\<close>) that the store meets; inside it every operation of the manager and every step of a
  listener keeps the inventory and the rows in agreement, so that a restart resumes from the cursors the
  listeners wrote. Rendering credentials as JSON is the library's: two functions that undo each other.
\<close>

section \<open>The contract\<close>

text \<open>Only an inbox with a vendor can be told from no inbox.\<close>

definition storable :: "email \<Rightarrow> bool" where
  "storable e \<longleftrightarrow> (case emInbox e of None \<Rightarrow> True | Some ib \<Rightarrow> ibVendor ib \<noteq> [])"

definition kept_email :: "email option \<Rightarrow> email \<Rightarrow> email" where
  "kept_email old e = (case old of None \<Rightarrow> e | Some q \<Rightarrow> e\<lparr>emCreatedAt := emCreatedAt q\<rparr>)"

locale email_store =
  fixes R :: "'s erepo"
    and rows :: "'s \<Rightarrow> string \<Rightarrow> email option"
    and sane :: "'s \<Rightarrow> bool"
  assumes rows_storable: "sane s \<Longrightarrow> rows s i = Some e \<Longrightarrow> storable e"
    and save_ok: "sane s \<Longrightarrow> storable e \<Longrightarrow> erSave R e s = (None, s') \<Longrightarrow>
      sane s' \<and> rows s' = (rows s)(emID e \<mapsto> kept_email (rows s (emID e)) e)"
    and save_failed: "sane s \<Longrightarrow> erSave R e s = (Some x, s') \<Longrightarrow> sane s' \<and> rows s' = rows s"
    and delete_ok: "sane s \<Longrightarrow> erDelete R i s = (None, s') \<Longrightarrow> sane s' \<and> rows s' = (rows s)(i := None)"
    and delete_failed: "sane s \<Longrightarrow> erDelete R i s = (Some x, s') \<Longrightarrow> sane s' \<and> rows s' = rows s"
    and list_ok: "sane s \<Longrightarrow> erList R s = (Inr es, s') \<Longrightarrow>
      sane s' \<and> rows s' = rows s \<and> distinct (map emID es) \<and> (\<forall>i e. rows s i = Some e \<longleftrightarrow> e \<in> set es \<and> emID e = i)"

text \<open>The manager and its store show the same emails.\<close>

definition stocked :: "'s erepo \<Rightarrow> ('s \<Rightarrow> string \<Rightarrow> email option) \<Rightarrow> ('s \<Rightarrow> bool) \<Rightarrow> ('s, 'w) emgr \<Rightarrow> bool" where
  "stocked R rows sane m \<longleftrightarrow> emRepo m = R \<and> sane (emStore m) \<and> rows (emStore m) = get (emInventory m)
     \<and> (\<forall>i e. get (emInventory m) i = Some e \<longrightarrow> emID e = i \<and> storable e)"

lemma stockedI:
  assumes "emRepo m = R" "sane (emStore m)" "\<And>i. rows (emStore m) i = get (emInventory m) i"
    "\<And>i e. get (emInventory m) i = Some e \<Longrightarrow> emID e = i" "\<And>i e. get (emInventory m) i = Some e \<Longrightarrow> storable e"
  shows "stocked R rows sane m"
  using assms by (simp add: stocked_def fun_eq_iff)

lemma stockedD:
  assumes "stocked R rows sane m"
  shows "emRepo m = R" "sane (emStore m)" "rows (emStore m) i = get (emInventory m) i"
    "get (emInventory m) i = Some e \<Longrightarrow> emID e = i" "get (emInventory m) i = Some e \<Longrightarrow> storable e"
  using assms unfolding stocked_def by metis+

text \<open>Fields the agreement does not look at.\<close>

lemma stocked_frame:
  assumes "stocked R rows sane m" "emRepo m' = emRepo m" "emStore m' = emStore m" "emInventory m' = emInventory m"
  shows "stocked R rows sane m'"
  using assms by (simp add: stocked_def)

lemma valid_storable: "(case emInbox e of None \<Rightarrow> None | Some ib \<Rightarrow> validateInbox ib) = None \<Longrightarrow> storable e"
  by (auto simp: storable_def validateInbox_None vendor_defs split: option.splits)

lemma retire_frame [simp]:
  "emRepo (retire s m) = emRepo m" "emStore (retire s m) = emStore m" "emInventory (retire s m) = emInventory m"
  by (simp_all add: retire_def)

lemma fold_retire_frame [simp]:
  "emRepo (fold retire ss m) = emRepo m" "emStore (fold retire ss m) = emStore m"
  "emInventory (fold retire ss m) = emInventory m"
  by (induction ss arbitrary: m) simp_all

lemma closeStop_frame: "closeStop a m = Some m' \<Longrightarrow>
    emRepo m' = emRepo m \<and> emStore m' = emStore m \<and> emInventory m' = emInventory m"
  by (auto simp: closeStop_def split: if_splits)

lemma closeListeners_frame: "closeListeners ls m = Some m' \<Longrightarrow>
    emRepo m' = emRepo m \<and> emStore m' = emStore m \<and> emInventory m' = emInventory m"
proof (induction ls arbitrary: m)
  case (Cons x ls)
  obtain i a where x: "x = (i, a)" by (cases x)
  from Cons.prems obtain m1 where "closeStop a m = Some m1" by (auto simp: x split: option.splits)
  with closeStop_frame [OF this] Cons.prems Cons.IH show ?case by (fastforce simp: x Let_def)
qed simp

lemma sub_Close_frame: "sub_Close s m = Some m' \<Longrightarrow>
    emRepo m' = emRepo m \<and> emStore m' = emStore m \<and> emInventory m' = emInventory m"
  by (auto simp: sub_Close_def Let_def detach_def dest!: closeStop_frame split: option.splits if_splits)

lemma Listen_frame: "Listen t i opts m = (r, m') \<Longrightarrow>
    emRepo m' = emRepo m \<and> emStore m' = emStore m \<and> emInventory m' = emInventory m"
  by (auto simp: Listen_def Let_def attach_def split: option.splits if_splits)

text \<open>Loading a listing without repetitions files every email under its id.\<close>

lemma loadEmails_find:
  assumes "loadEmails es iv0 = Inr iv" "distinct (map emID es)"
  shows "get iv i = (case find (\<lambda>e. emID e = i) es of None \<Rightarrow> get iv0 i | Some e \<Rightarrow> Some e)"
  using assms
proof (induction es arbitrary: iv0)
  case (Cons e es)
  have l: "loadEmails es (put (emID e) e iv0) = Inr iv" using Cons.prems(1) by (simp split: if_splits)
  have ih: "get iv i = (case find (\<lambda>e. emID e = i) es of None \<Rightarrow> get (put (emID e) e iv0) i | Some e \<Rightarrow> Some e)"
    using Cons.IH [OF l] Cons.prems(2) by simp
  show ?case
  proof (cases "emID e = i")
    case True
    then have "i \<notin> emID ` set es" using Cons.prems(2) by auto
    then have "find (\<lambda>e. emID e = i) es = None" by (auto simp: find_None_iff)
    with ih True show ?thesis by simp
  next
    case False
    with ih show ?thesis by (simp split: option.split)
  qed
qed simp

lemma loadEmails_loads:
  assumes "distinct (map emID es)" "\<And>e. e \<in> set es \<Longrightarrow> get iv0 (emID e) = None"
  shows "\<exists>iv. loadEmails es iv0 = Inr iv"
  using assms
proof (induction es arbitrary: iv0)
  case (Cons e es)
  have "get (put (emID e) e iv0) (emID q) = None" if "q \<in> set es" for q
  proof -
    have "emID q \<noteq> emID e" using Cons.prems(1) that by (auto simp: image_iff)
    with Cons.prems(2) [of q] that show ?thesis by simp
  qed
  with Cons.IH [of "put (emID e) e iv0"] Cons.prems show ?case by simp
qed simp

lemma find_listed:
  assumes "distinct (map emID es)"
  shows "find (\<lambda>e. emID e = i) es = Some e \<longleftrightarrow> e \<in> set es \<and> emID e = i"
  using assms by (induction es) auto

lemma fold_handlers:
  assumes "set opts \<subseteq> {email_WithDropHandler, WithListenerErrorHandler}"
  shows "emRepo (fold (\<lambda>opt m. opt m) opts m) = emRepo m \<and> emStore (fold (\<lambda>opt m. opt m) opts m) = emStore m"
  using assms
proof (induction opts arbitrary: m)
  case (Cons x xs)
  have "emRepo (x m) = emRepo m \<and> emStore (x m) = emStore m"
    using Cons.prems by (auto simp: email_WithDropHandler_def WithListenerErrorHandler_def)
  with Cons show ?case by simp
qed simp

context email_store
begin

abbreviation email_mirrored :: "('s, 'w) emgr \<Rightarrow> bool" where
  "email_mirrored \<equiv> stocked R rows sane"

lemma failed_store:
  assumes "email_mirrored m" "erSave R e (emStore m) = (Some x, st) \<or> erDelete R i (emStore m) = (Some x, st)"
  shows "email_mirrored (m\<lparr>emStore := st\<rparr>)"
  using assms(2) save_failed [of "emStore m" e x st] delete_failed [of "emStore m" i x st] assms(1)
  unfolding stocked_def by auto

lemma saved:
  assumes m: "email_mirrored m" and e: "storable e" and run: "erSave R e (emStore m) = (None, st)"
    and kept: "\<And>q. get (emInventory m) (emID e) = Some q \<Longrightarrow> emCreatedAt e = emCreatedAt q"
  shows "email_mirrored (m\<lparr>emStore := st, emInventory := put (emID e) e (emInventory m)\<rparr>)"
proof -
  note d = stockedD [OF m]
  have s: "sane st" "rows st = (rows (emStore m))(emID e \<mapsto> kept_email (rows (emStore m) (emID e)) e)"
    using save_ok [OF d(2) e run] by blast+
  have "kept_email (rows (emStore m) (emID e)) e = e"
    using kept d(3) [of "emID e"] by (auto simp: kept_email_def split: option.split)
  then show ?thesis using s d e by (intro stockedI) (auto split: if_splits)
qed

lemma email_Add_mirrored:
  assumes m: "email_mirrored m" and run: "email_Add now e m = (err, m')"
  shows "email_mirrored m'"
proof -
  note d = stockedD [OF m]
  let ?bad = "case emInbox e of None \<Rightarrow> None | Some ib \<Rightarrow> validateInbox ib"
  let ?e = "e\<lparr>emCreatedAt := now, emUpdatedAt := now\<rparr>"
  show ?thesis
  proof (cases "emID e = [] \<or> emAddress e = [] \<or> get (emInventory m) (emID e) \<noteq> None \<or> ?bad \<noteq> None")
    case True
    then have "m' = m"
      using run unfolding email_Add_def by (elim disjE) (auto split: if_splits option.splits)
    with m show ?thesis by simp
  next
    case False
    obtain x s where sv: "erSave R ?e (emStore m) = (x, s)" by fastforce
    have e: "storable ?e" using valid_storable [of e] False by (simp add: storable_def)
    have "m' = (case x of None \<Rightarrow> m\<lparr>emStore := s, emInventory := put (emID e) ?e (emInventory m)\<rparr> | Some _ \<Rightarrow> m\<lparr>emStore := s\<rparr>)"
      using run False sv d(1) by (simp add: email_Add_def Let_def split: option.splits)
    then show ?thesis
      using sv failed_store [OF m] saved [OF m e, of s] False by (cases x) auto
  qed
qed

lemma email_Delete_mirrored:
  assumes m: "email_mirrored m" and run: "email_Delete w i m = (r, m')"
  shows "email_mirrored m'"
proof -
  note d = stockedD [OF m]
  obtain x s where dl: "erDelete R i (emStore m) = (x, s)" by fastforce
  have gone: "email_mirrored (m\<lparr>emStore := s, emInventory := del i (emInventory m)\<rparr>)" if "x = None"
    using delete_ok [OF d(2) dl [unfolded that]] d by (intro stockedI) (simp_all split: if_splits)
  have absent: "email_mirrored (m\<lparr>emStore := s\<rparr>)" if "x = None" "get (emInventory m) i = None"
    using delete_ok [OF d(2) dl [unfolded that(1)]] d that(2) by (intro stockedI) simp_all
  have failed: "email_mirrored (m\<lparr>emStore := s\<rparr>)" if "x = Some y" for y
    using failed_store [OF m] dl that by blast
  show ?thesis
  proof (cases "get (emInventory m) i")
    case None
    then have "m' = m\<lparr>emStore := s\<rparr>" using run dl d(1) by (simp add: email_Delete_def)
    with None absent failed show ?thesis by (cases x) simp_all
  next
    case (Some e)
    with run dl d(1) have "m' = m \<or> m' = m\<lparr>emStore := s\<rparr> \<and> x \<noteq> None
        \<or> m' = m\<lparr>emStore := s, emInventory := del i (emInventory m)\<rparr> \<and> x = None"
      unfolding email_Delete_def Let_def by (simp split: if_splits option.splits prod.splits)
    with m gone failed show ?thesis by auto
  qed
qed

lemma advanceCursor_mirrored:
  assumes m: "email_mirrored m" and run: "advanceCursor now a uidv uid reset m = (err, m')"
  shows "email_mirrored m'"
proof -
  note d = stockedD [OF m]
  let ?i = "lnEmailID (lnAt m a)"
  show ?thesis
  proof (cases "get (emInventory m) ?i")
    case None
    with run m show ?thesis by (simp add: advanceCursor_def)
  next
    case (Some e)
    show ?thesis
    proof (cases "emInbox e = None \<or> \<not> owns m a")
      case True
      with run m Some show ?thesis by (auto simp: advanceCursor_def Let_def split: option.splits)
    next
      case False
      then obtain ib where ib: "emInbox e = Some ib" by auto
      define e' where "e' = e\<lparr>emInbox := Some (ib\<lparr>ibUIDValidity := uidv,
        ibLastUID := (if reset \<or> uid > ibLastUID ib then uid else ibLastUID ib)\<rparr>), emUpdatedAt := now\<rparr>"
      have id: "emID e' = ?i" using d(4) [OF Some] by (simp add: e'_def)
      have st: "storable e'" using d(5) [OF Some] ib by (simp add: e'_def storable_def)
      obtain x s where sv: "erSave (emRepo m) e' (emStore m) = (x, s)" by fastforce
      with run Some ib False have "m' = (case x of None \<Rightarrow> m\<lparr>emStore := s, emInventory := put ?i e' (emInventory m)\<rparr> | Some _ \<Rightarrow> m\<lparr>emStore := s\<rparr>)"
        by (auto simp: advanceCursor_def Let_def e'_def split: option.splits)
      then show ?thesis
        using sv d(1) failed_store [OF m] saved [OF m st, of s] Some id
        by (cases x) (auto simp: e'_def)
    qed
  qed
qed

lemma serve_mirrored:
  assumes m: "email_mirrored m" and run: "serve now a ev pc m = (pc', errs, drops, m')"
  shows "email_mirrored m'"
  using run
proof (cases rule: serve_cases)
  case (fan b uidv cur msgs r ds)
  obtain mx owned where "r = (mx, owned)" by (cases r)
  with fan(3) have "fanout a msgs m = ((mx, owned), ds, m')" by simp
  then show ?thesis using m by (cases rule: fanout_cases) (auto intro: stocked_frame)
qed (use m advanceCursor_mirrored [OF m] in auto)

text \<open>Every step of the process keeps the agreement.\<close>

lemma email_step_mirrored:
  assumes "email_step v S S'" "email_mirrored (syMgr S)"
  shows "email_mirrored (syMgr S')"
  using assms(1)
proof cases
  case (add e now)
  then show ?thesis using email_Add_mirrored [OF assms(2), of now e] by (cases "email_Add now e (syMgr S)") simp
next
  case (delete w i)
  then show ?thesis using email_Delete_mirrored [OF assms(2), of w i] by (cases "email_Delete w i (syMgr S)") simp
next
  case (guard g)
  then show ?thesis using assms(2) by (simp add: GuardDeletes_def stocked_def)
next
  case (listen t i opts s since m')
  then show ?thesis using stocked_frame [OF assms(2), of m'] Listen_frame [OF listen(2)] by simp
next
  case (unlisten s m')
  then show ?thesis using stocked_frame [OF assms(2), of m'] sub_Close_frame [OF unlisten(3)] by simp
next
  case (close m')
  then have "emRepo m' = emRepo (syMgr S) \<and> emStore m' = emStore (syMgr S) \<and> emInventory m' = emInventory (syMgr S)"
    using closeListeners_frame [of "emListeners (syMgr S)" "(syMgr S)\<lparr>emClosed := True\<rparr>" m'] by (simp add: email_Close_def)
  with close stocked_frame [OF assms(2), of m'] show ?thesis by simp
next
  case (backfilled s i msgs errs drops m')
  then show ?thesis using stocked_frame [OF assms(2), of m'] by (auto simp: backfill_def split: prod.splits)
next
  case (taken s msg m')
  then show ?thesis using stocked_frame [OF assms(2), of m'] by (auto simp: take_message_def split: list.splits)
next
  case (goroutine a ev now pc' errs drops m')
  then show ?thesis using serve_mirrored [OF assms(2) goroutine(4)] by simp
qed (use assms(2) in simp_all)

text \<open>A manager built on a store has the emails of its rows; it is built whenever the listing succeeds.\<close>

lemma boot_loads:
  assumes sane: "sane s" and lst: "erList R s = (Inr es, st)"
    and opts: "set opts \<subseteq> {email_WithDropHandler, WithListenerErrorHandler}"
  obtains m where "email_NewManager lower (Some R) opts s = (Inr m, st)" "emRepo m = R" "emStore m = st"
    "\<And>i. get (emInventory m) i = rows s i"
proof -
  let ?m0 = "\<lparr>emRepo = R, emStore = s, emLower = lower, emDropHandler = False, emErrHandler = False,
       emGuard = None, emInventory = [], emListeners = [], emLHeap = [], emSHeap = [], emClosed = False\<rparr>"
  define m1 where "m1 = fold (\<lambda>opt m. opt m) opts ?m0"
  have m1: "emRepo m1 = R" "emStore m1 = s" using fold_handlers [OF opts, of ?m0] by (simp_all add: m1_def)
  have l: "distinct (map emID es)" "\<And>i e. rows s i = Some e \<longleftrightarrow> e \<in> set es \<and> emID e = i"
    using list_ok [OF sane lst] by blast+
  obtain iv where iv: "loadEmails es [] = Inr iv" using loadEmails_loads [OF l(1), of "[]"] by auto
  have "find (\<lambda>e. emID e = i) es = rows s i" for i
  proof (cases "rows s i")
    case None
    with l(2) [of i] find_listed [OF l(1), of i] show ?thesis by (cases "find (\<lambda>e. emID e = i) es") auto
  next
    case (Some e)
    then have "e \<in> set es \<and> emID e = i" using l(2) [of i e] by blast
    then show ?thesis using Some find_listed [OF l(1)] by simp
  qed
  then have "get iv i = rows s i" for i using loadEmails_find [OF iv l(1), of i] by (simp split: option.split)
  moreover have "email_NewManager lower (Some R) opts s = (Inr (m1\<lparr>emStore := st, emInventory := iv\<rparr>), st)"
    unfolding email_NewManager_def Let_def option.case m1_def [symmetric] m1 lst prod.case sum.case iv ..
  ultimately show thesis using m1(1) by (intro that [of "m1\<lparr>emStore := st, emInventory := iv\<rparr>"]) simp_all
qed

lemma boot_listed:
  assumes boot: "email_NewManager lower (Some R) opts s = (Inr m, s')"
    and opts: "set opts \<subseteq> {email_WithDropHandler, WithListenerErrorHandler}"
  obtains es where "erList R s = (Inr es, s')"
proof -
  let ?m0 = "\<lparr>emRepo = R, emStore = s, emLower = lower, emDropHandler = False, emErrHandler = False,
       emGuard = None, emInventory = [], emListeners = [], emLHeap = [], emSHeap = [], emClosed = False\<rparr>"
  define m1 where "m1 = fold (\<lambda>opt m. opt m) opts ?m0"
  have m1: "emRepo m1 = R" "emStore m1 = s" using fold_handlers [OF opts, of ?m0] by (simp_all add: m1_def)
  obtain r st where lst: "erList R s = (r, st)" by fastforce
  from boot have b: "(case r of Inl e \<Rightarrow> (Inl (EmLoad e), st)
      | Inr listed \<Rightarrow> (case loadEmails listed [] of Inl e \<Rightarrow> (Inl e, st)
         | Inr loaded \<Rightarrow> (Inr (m1\<lparr>emStore := st, emInventory := loaded\<rparr>), st))) = (Inr m, s')"
    unfolding email_NewManager_def Let_def option.case m1_def [symmetric] m1 lst prod.case .
  show thesis
  proof (cases r)
    case (Inl e)
    with b show ?thesis by simp
  next
    case (Inr es)
    with b have "st = s'" by (cases "loadEmails es []") simp_all
    with lst Inr that show ?thesis by simp
  qed
qed

lemma email_boot_mirrored:
  assumes sane: "sane s" and boot: "email_NewManager lower (Some R) opts s = (Inr m, s')"
    and opts: "set opts \<subseteq> {email_WithDropHandler, WithListenerErrorHandler}"
  shows "email_mirrored m"
proof -
  obtain es where lst: "erList R s = (Inr es, s')" using boot_listed [OF boot opts] .
  obtain m2 where m2: "email_NewManager lower (Some R) opts s = (Inr m2, s')" "emRepo m2 = R" "emStore m2 = s'"
    "\<And>i. get (emInventory m2) i = rows s i" using boot_loads [OF sane lst opts, of lower] by blast
  have m: "m2 = m" using m2(1) boot by simp
  have l: "sane s'" "rows s' = rows s" "\<And>i e. rows s i = Some e \<longleftrightarrow> e \<in> set es \<and> emID e = i"
    using list_ok [OF sane lst] by blast+
  show ?thesis using m2 l rows_storable [OF sane] unfolding m by (intro stockedI) auto
qed

lemma steps_mirrored: "(email_step v)\<^sup>*\<^sup>* S S' \<Longrightarrow> email_mirrored (syMgr S) \<Longrightarrow> email_mirrored (syMgr S')"
  by (induction rule: rtranclp_induct) (auto intro: email_step_mirrored)

lemma restart_same:
  assumes m: "email_mirrored m" and lst: "erList R (emStore m) = (Inr es, st)"
    and opts: "set opts \<subseteq> {email_WithDropHandler, WithListenerErrorHandler}"
  shows "\<exists>m2. email_NewManager lower (Some R) opts (emStore m) = (Inr m2, st)
    \<and> (\<forall>i. get (emInventory m2) i = get (emInventory m) i)"
  using boot_loads [OF stockedD(2) [OF m] lst opts, of lower] stockedD(3) [OF m] by metis

end

section \<open>The store\<close>

record auth_codec =
  authMarshal :: "auth \<Rightarrow> string + string"
  authUnmarshal :: "string \<Rightarrow> auth option"

definition auth_codec_ok :: "auth_codec \<Rightarrow> bool" where
  "auth_codec_ok j \<longleftrightarrow> (\<forall>a raw. authMarshal j a = Inr raw \<longrightarrow> raw \<noteq> [] \<and> authUnmarshal j raw = Some a)"

record email_row =
  erowID :: string
  erowAddress :: string
  erowVendor :: string
  erowAuth :: string
  erowLastUID :: "32 word"
  erowUIDValidity :: "32 word"
  erowCreated :: string
  erowUpdated :: string

text \<open>The store holds the encoding of credentials beside the database.\<close>

type_synonym emails_db = "auth_codec \<times> email_row kdb"

definition formatInbox :: "auth_codec \<Rightarrow> inbox option \<Rightarrow> string + (string \<times> string \<times> 32 word \<times> 32 word)" where
  "formatInbox j inb =
     (case inb of
        None \<Rightarrow> Inr ([], [], 0, 0)
      | Some ib \<Rightarrow>
          (case authMarshal j (ibAuth ib) of
             Inl e \<Rightarrow> Inl (''encode auth: '' @ e)
           | Inr encoded \<Rightarrow> Inr (ibVendor ib, encoded, ibLastUID ib, ibUIDValidity ib)))"

definition noAuth :: auth where
  "noAuth = \<lparr>auKind = [], auUsername = [], auPassword = [], auClientID = [], auClientSecret = [],
             auRefreshToken = [], auTokenURL = []\<rparr>"

text \<open>None when the credentials do not decode.\<close>

definition parseInbox ::
    "auth_codec \<Rightarrow> string \<Rightarrow> string \<Rightarrow> 32 word \<Rightarrow> 32 word \<Rightarrow> inbox option option" where
  "parseInbox j vendor raw lastUID uidValidity =
     (if vendor = [] then Some None
      else if raw \<noteq> [] then
        (case authUnmarshal j raw of
           None \<Rightarrow> None
         | Some a \<Rightarrow> Some (Some \<lparr>ibVendor = vendor, ibAuth = a, ibLastUID = lastUID, ibUIDValidity = uidValidity\<rparr>))
      else Some (Some \<lparr>ibVendor = vendor, ibAuth = noAuth, ibLastUID = lastUID, ibUIDValidity = uidValidity\<rparr>))"

definition email_row_of :: "auth_codec \<Rightarrow> codec \<Rightarrow> email \<Rightarrow> string + email_row" where
  "email_row_of j c e =
     (case formatInbox j (emInbox e) of
        Inl err \<Rightarrow> Inl err
      | Inr (vendor, raw, lastUID, uidValidity) \<Rightarrow>
          Inr \<lparr>erowID = emID e, erowAddress = emAddress e, erowVendor = vendor, erowAuth = raw,
               erowLastUID = lastUID, erowUIDValidity = uidValidity,
               erowCreated = formatTime c (emCreatedAt e), erowUpdated = formatTime c (emUpdatedAt e)\<rparr>)"

definition merge_email :: "email_row \<Rightarrow> email_row \<Rightarrow> email_row" where
  "merge_email r old =
     old\<lparr>erowAddress := erowAddress r, erowVendor := erowVendor r, erowAuth := erowAuth r,
         erowLastUID := erowLastUID r, erowUIDValidity := erowUIDValidity r, erowUpdated := erowUpdated r\<rparr>"

definition scan_email :: "auth_codec \<Rightarrow> codec \<Rightarrow> email_row \<Rightarrow> email option" where
  "scan_email j c r =
     (case parseInbox j (erowVendor r) (erowAuth r) (erowLastUID r) (erowUIDValidity r) of
        None \<Rightarrow> None
      | Some inb \<Rightarrow>
     (case parseTime c (erowCreated r) of
        None \<Rightarrow> None
      | Some created \<Rightarrow>
     (case parseTime c (erowUpdated r) of
        None \<Rightarrow> None
      | Some updated \<Rightarrow>
          Some \<lparr>emID = erowID r, emAddress = erowAddress r, emInbox = inb,
                emCreatedAt = created, emUpdatedAt = updated\<rparr>)))"

definition emails_List :: "emails_db \<Rightarrow> (repoerr + email list) \<times> emails_db" where
  "emails_List s =
     (let (j, d) = s
      in case queryContext (\<lambda>d. sort_key erowID (map snd (kdRows d))) d of
           (Inl e, d') \<Rightarrow> (Inl (''list emails: '' @ e), (j, d'))
         | (Inr rows, d') \<Rightarrow> (scan_all (scan_email j (kdCodec d)) ''list emails'' rows, (j, d')))"

definition emails_Save :: "email \<Rightarrow> emails_db \<Rightarrow> repoerr option \<times> emails_db" where
  "emails_Save e s =
     (let (j, d) = s
      in case email_row_of j (kdCodec d) e of
           Inl err \<Rightarrow> (Some (''save email '' @ emID e @ '': '' @ err), s)
         | Inr r \<Rightarrow>
             (case execContext (upsert_row erowID merge_email r) d of
                (Some err, d') \<Rightarrow> (Some (''save email '' @ emID e @ '': '' @ err), (j, d'))
              | (None, d') \<Rightarrow> (None, (j, d'))))"

definition emails_Delete :: "string \<Rightarrow> emails_db \<Rightarrow> repoerr option \<times> emails_db" where
  "emails_Delete i s =
     (let (j, d) = s
      in case execContext (\<lambda>d. d\<lparr>kdRows := del i (kdRows d)\<rparr>) d of
           (Some err, d') \<Rightarrow> (Some (''delete email '' @ i @ '': '' @ err), (j, d'))
         | (None, d') \<Rightarrow> (None, (j, d')))"

definition sqliteEmails :: "emails_db erepo" where
  "sqliteEmails = \<lparr>erList = emails_List, erSave = emails_Save, erDelete = emails_Delete\<rparr>"

definition em_rows :: "emails_db \<Rightarrow> string \<Rightarrow> email option" where
  "em_rows s = (let (j, d) = s in kd_rows (scan_email j) d)"

definition em_sane :: "emails_db \<Rightarrow> bool" where
  "em_sane s \<longleftrightarrow> (let (j, d) = s in auth_codec_ok j \<and> kd_sane erowID (scan_email j) d)"

text \<open>An inbox with a vendor reads back as it was written; one without a vendor would not.\<close>

lemma parseInbox_formatInbox:
  assumes "auth_codec_ok j" "formatInbox j inb = Inr (vendor, raw, u, v)" "\<forall>ib. inb = Some ib \<longrightarrow> ibVendor ib \<noteq> []"
  shows "parseInbox j vendor raw u v = Some inb"
  using assms by (cases inb) (auto simp: formatInbox_def parseInbox_def auth_codec_ok_def split: sum.splits)

lemma scan_email_row:
  assumes "auth_codec_ok j" "codec_ok c" "email_row_of j c e = Inr r" "storable e"
  shows "scan_email j c r = Some e" "erowID r = emID e"
proof -
  obtain vendor raw u v where f: "formatInbox j (emInbox e) = Inr (vendor, raw, u, v)"
    using assms(3) by (auto simp: email_row_of_def split: sum.splits)
  have p: "parseInbox j vendor raw u v = Some (emInbox e)"
    using assms(4) by (intro parseInbox_formatInbox [OF assms(1) f]) (auto simp: storable_def)
  from assms(3) f have r: "r = \<lparr>erowID = emID e, erowAddress = emAddress e, erowVendor = vendor, erowAuth = raw,
               erowLastUID = u, erowUIDValidity = v,
               erowCreated = formatTime c (emCreatedAt e), erowUpdated = formatTime c (emUpdatedAt e)\<rparr>"
    by (simp add: email_row_of_def)
  show "scan_email j c r = Some e" using p assms(2) by (simp add: r scan_email_def)
  show "erowID r = emID e" by (simp add: r)
qed

lemma scan_email_Some: "scan_email j c r = Some e \<longleftrightarrow>
    parseInbox j (erowVendor r) (erowAuth r) (erowLastUID r) (erowUIDValidity r) = Some (emInbox e) \<and>
    parseTime c (erowCreated r) = Some (emCreatedAt e) \<and> parseTime c (erowUpdated r) = Some (emUpdatedAt e) \<and>
    erowID r = emID e \<and> erowAddress r = emAddress e"
  by (cases e) (auto simp: scan_email_def split: option.splits)

lemma scan_merge_email:
  assumes "scan_email j c r = Some e" "scan_email j c old = Some q" "erowID old = erowID r"
  shows "scan_email j c (merge_email r old) = Some (e\<lparr>emCreatedAt := emCreatedAt q\<rparr>)"
  using assms by (simp add: scan_email_Some merge_email_def)

lemma upsert_email_sane:
  assumes j: "auth_codec_ok j" and sane: "kd_sane erowID (scan_email j) d" and e: "storable e"
    and r: "email_row_of j (kdCodec d) e = Inr r" and d': "d' = upsert_row erowID merge_email r d"
  shows "kd_sane erowID (scan_email j) d' \<and>
    kd_rows (scan_email j) d' = (kd_rows (scan_email j) d)(emID e \<mapsto> kept_email (kd_rows (scan_email j) d (emID e)) e)"
proof -
  let ?c = "kdCodec d"
  have c: "codec_ok ?c" using sane by (simp add: kd_sane_def)
  note w = scan_email_row [OF j c r e]
  show ?thesis
  proof (cases "get (kdRows d) (emID e)")
    case None
    then have "kept_email (kd_rows (scan_email j) d (emID e)) e = e" by (simp add: kd_rows_def kept_email_def)
    then show ?thesis
      using sane None w unfolding d' upsert_row_def by (simp add: kd_sane_def kd_rows_def fun_eq_iff)
  next
    case (Some old)
    obtain q where q: "scan_email j ?c old = Some q" and oid: "erowID old = emID e"
      using sane Some unfolding kd_sane_def by blast
    have m: "scan_email j ?c (merge_email r old) = Some (e\<lparr>emCreatedAt := emCreatedAt q\<rparr>)"
      using scan_merge_email [OF w(1) q] oid w(2) by simp
    have k: "kept_email (kd_rows (scan_email j) d (emID e)) e = e\<lparr>emCreatedAt := emCreatedAt q\<rparr>"
      using Some q by (simp add: kd_rows_def kept_email_def)
    have i: "erowID (merge_email r old) = emID e" using oid by (simp add: merge_email_def)
    show ?thesis
      using sane Some w(2) m k i unfolding d' upsert_row_def by (simp add: kd_sane_def kd_rows_def fun_eq_iff)
  qed
qed

interpretation ems: email_store sqliteEmails em_rows em_sane
proof
  fix s s' :: emails_db and e x i es
  obtain j d where s: "s = (j, d)" by (cases s)
  let ?d = "d\<lparr>kdCalls := Suc (kdCalls d)\<rparr>"
  note [simp] = sqliteEmails_def em_sane_def em_rows_def s
  show "storable e" if "em_sane s" "em_rows s i = Some e"
    using that by (auto simp: kd_rows_def scan_email_Some storable_def parseInbox_def bind_eq_Some_conv
        split: if_splits option.splits)
  show "em_sane s' \<and> em_rows s' = (em_rows s)(emID e \<mapsto> kept_email (em_rows s (emID e)) e)"
    if sane: "em_sane s" and e: "storable e" and run: "erSave sqliteEmails e s = (None, s')"
  proof -
    obtain r where r: "email_row_of j (kdCodec d) e = Inr r" using run by (auto simp: emails_Save_def split: sum.splits)
    obtain y d' where y: "execContext (upsert_row erowID merge_email r) d = (y, d')" by fastforce
    with run r have "y = None" "s' = (j, d')" by (auto simp: emails_Save_def split: option.splits)
    with y have "s' = (j, upsert_row erowID merge_email r ?d)" by (auto elim: execContext_cases)
    then show ?thesis using upsert_email_sane [of j ?d e r] sane e r by simp
  qed
  show "em_sane s' \<and> em_rows s' = em_rows s" if "em_sane s" "erSave sqliteEmails e s = (Some x, s')"
    using that by (auto simp: emails_Save_def execContext_def Let_def split: option.splits sum.splits)
  show "em_sane s' \<and> em_rows s' = (em_rows s)(i := None)" if "em_sane s" "erDelete sqliteEmails i s = (None, s')"
    using that delete_sane [of erowID "scan_email j" ?d i]
    by (auto simp: emails_Delete_def execContext_def Let_def split: option.splits)
  show "em_sane s' \<and> em_rows s' = em_rows s" if "em_sane s" "erDelete sqliteEmails i s = (Some x, s')"
    using that by (auto simp: emails_Delete_def execContext_def Let_def split: option.splits)
  show "em_sane s' \<and> em_rows s' = em_rows s \<and> distinct (map emID es) \<and>
      (\<forall>i e. em_rows s i = Some e \<longleftrightarrow> e \<in> set es \<and> emID e = i)"
    if sane: "em_sane s" and run: "erList sqliteEmails s = (Inr es, s')"
  proof -
    have s': "s' = (j, ?d)"
      and all: "scan_all (scan_email j (kdCodec d)) ''list emails'' (sort_key erowID (map snd (kdRows d))) = Inr es"
      using run by (auto simp: emails_List_def queryContext_def Let_def split: option.splits)
    have "distinct (map emID es) \<and> (\<forall>k v. Option.bind (get (kdRows d) k) (scan_email j (kdCodec d)) = Some v
        \<longleftrightarrow> v \<in> set es \<and> emID v = k)"
      using sane by (intro scanned_table [OF _ _ _ all]) (auto simp: kd_sane_def scan_email_Some)
    with sane show ?thesis by (simp add: s' kd_rows_def)
  qed
qed

section \<open>Properties\<close>

text \<open>A listing over rows that all read back fails only when its statement does.\<close>

lemma listing_reads:
  assumes "em_sane (j, d)" "kdFault d (kdCalls d) = None"
  shows "\<exists>es. emails_List (j, d) = (Inr es, (j, d\<lparr>kdCalls := Suc (kdCalls d)\<rparr>))"
proof -
  have sane: "wf_map (kdRows d)" "\<And>k r. get (kdRows d) k = Some r \<Longrightarrow> scan_email j (kdCodec d) r \<noteq> None"
    using assms(1) by (auto simp: em_sane_def kd_sane_def)
  have "\<forall>r \<in> set (sort_key erowID (map snd (kdRows d))). scan_email j (kdCodec d) r \<noteq> None"
    using get_in_set [OF sane(1)] sane(2) by fastforce
  then obtain es where "scan_all (scan_email j (kdCodec d)) ''list emails'' (sort_key erowID (map snd (kdRows d))) = Inr es"
    using scan_all_total by blast
  with assms(2) show ?thesis by (simp add: emails_List_def queryContext_def Let_def)
qed

text \<open>C32. Emails and their cursors survive a restart. However the operations of the manager, the steps of
  its listeners and the arrivals of mail interleave, and whichever statements fail on the way, a process
  started again on the same database has the same emails with the same cursors as the one that stopped,
  unless the listing itself fails.\<close>

theorem cursors_survive_restart:
  assumes "em_sane s" "email_NewManager lower (Some sqliteEmails) opts s = (Inr (syMgr S0), s1)"
    "(email_step v)\<^sup>*\<^sup>* S0 S" "emStore (syMgr S) = (j, d)" "kdFault d (kdCalls d) = None"
    "set opts \<union> set opts2 \<subseteq> {email_WithDropHandler, WithListenerErrorHandler}"
  shows "\<exists>m2 s2. email_NewManager lower2 (Some sqliteEmails) opts2 (emStore (syMgr S)) = (Inr m2, s2)
    \<and> (\<forall>i. get (emInventory m2) i = get (emInventory (syMgr S)) i)"
proof -
  have opts: "set opts \<subseteq> {email_WithDropHandler, WithListenerErrorHandler}"
    "set opts2 \<subseteq> {email_WithDropHandler, WithListenerErrorHandler}" using assms(6) by simp_all
  have m: "stocked sqliteEmails em_rows em_sane (syMgr S)"
    using ems.steps_mirrored [OF assms(3) ems.email_boot_mirrored [OF assms(1,2) opts(1)]] .
  have "em_sane (j, d)" using stockedD(2) [OF m] assms(4) by simp
  from listing_reads [OF this assms(5)] obtain es where
    "erList sqliteEmails (emStore (syMgr S)) = (Inr es, (j, d\<lparr>kdCalls := Suc (kdCalls d)\<rparr>))"
    using assms(4) by (auto simp: sqliteEmails_def)
  from ems.restart_same [OF m this opts(2), of lower2] show ?thesis by blast
qed

text \<open>Credentials as the unary numeral of their number in an enumeration.\<close>

definition demo_auth :: auth_codec where
  "demo_auth =
     \<lparr>authMarshal = (\<lambda>a. Inr (replicate (Suc (to_nat (auKind a, auUsername a, auPassword a, auClientID a,
         auClientSecret a, auRefreshToken a, auTokenURL a))) CHR ''1'')),
      authUnmarshal = (\<lambda>s. Some (case from_nat (length s - 1) of (k, u, p, ci, cs, rt, tu) \<Rightarrow>
         \<lparr>auKind = k, auUsername = u, auPassword = p, auClientID = ci, auClientSecret = cs,
          auRefreshToken = rt, auTokenURL = tu\<rparr>))\<rparr>"

definition edemo_db :: emails_db where
  "edemo_db = (demo_auth, \<lparr>kdCodec = demo_codec, kdFault = (\<lambda>_. None), kdCalls = 0, kdRows = [], kdGroups = []\<rparr>)"

definition edemo_mgr :: "(emails_db, unit) emgr" where
  "edemo_mgr = \<lparr>emRepo = sqliteEmails, emStore = (demo_auth, (snd edemo_db)\<lparr>kdCalls := 1\<rparr>), emLower = (\<lambda>x. x),
     emDropHandler = False, emErrHandler = False, emGuard = None, emInventory = [], emListeners = [],
     emLHeap = [], emSHeap = [], emClosed = False\<rparr>"

definition edemo_sys :: "(emails_db, unit) esys" where
  "edemo_sys = \<lparr>syMgr = edemo_mgr, syPcs = [], syBox = (\<lambda>_. []), syLast = (\<lambda>_. 0), syFloor = (\<lambda>_. 0),
     syTaken = (\<lambda>_. []), syLost = (\<lambda>_. [])\<rparr>"

lemma edemo_sane: "em_sane edemo_db"
  by (simp add: em_sane_def edemo_db_def kd_sane_def demo_codec_ok auth_codec_ok_def demo_auth_def)

lemma edemo_boot: "email_NewManager (\<lambda>x. x) (Some sqliteEmails) [] edemo_db = (Inr (syMgr edemo_sys), emStore edemo_mgr)"
  by (simp add: email_NewManager_def Let_def sqliteEmails_def emails_List_def queryContext_def edemo_db_def
      edemo_sys_def edemo_mgr_def)

theorem cursors_survive_restart_witness:
  "\<exists>m (m2 :: (emails_db, unit) emgr) s2. email_Add 1 (de_email 0 0 (de_inbox 0 0)) edemo_mgr = (None, m)
     \<and> email_NewManager (\<lambda>x. x) (Some sqliteEmails) [] (emStore m) = (Inr m2, s2)
     \<and> get (emInventory m2) ''in'' = Some (de_email 1 1 (de_inbox 0 0))"
proof -
  let ?e = "de_email 0 0 (de_inbox 0 0)" and ?e' = "de_email 1 1 (de_inbox 0 0)"
  let ?d = "(snd edemo_db)\<lparr>kdCalls := 1\<rparr>"
  obtain r where r: "email_row_of demo_auth demo_codec ?e' = Inr r"
    by (simp add: email_row_of_def formatInbox_def demo_auth_def de_email_def de_inbox_def)
  let ?s = "(demo_auth, upsert_row erowID merge_email r (?d\<lparr>kdCalls := Suc (Suc 0)\<rparr>))"
  let ?m = "edemo_mgr\<lparr>emStore := ?s, emInventory := [(''in'', ?e')]\<rparr>"
  have save: "emails_Save ?e' (emStore edemo_mgr) = (None, ?s)"
    using r by (simp add: emails_Save_def edemo_mgr_def edemo_db_def execContext_def Let_def)
  have e: "validateInbox (de_inbox 0 0) = None" "emID ?e = ''in''" "emAddress ?e \<noteq> []" "emInbox ?e = Some (de_inbox 0 0)"
    "?e\<lparr>emCreatedAt := 1, emUpdatedAt := 1\<rparr> = ?e'" by (simp_all add: de_defs validateInbox_def vendor_defs endpoint_def)
  have add: "email_Add 1 ?e edemo_mgr = (None, ?m)"
    using save e by (simp add: email_Add_def Let_def edemo_mgr_def sqliteEmails_def)
  have run: "(email_step v)\<^sup>*\<^sup>* edemo_sys (edemo_sys\<lparr>syMgr := ?m\<rparr>)" for v
    using email_step.add [of ?e v edemo_sys 1] add e(4) by (simp add: edemo_sys_def de_inbox_def)
  have st: "emStore (syMgr (edemo_sys\<lparr>syMgr := ?m\<rparr>)) = (demo_auth, snd ?s)" by simp
  have nf: "kdFault (snd ?s) (kdCalls (snd ?s)) = None" by (simp add: upsert_row_def edemo_db_def)
  from cursors_survive_restart [OF edemo_sane edemo_boot run st nf, of "[]" "\<lambda>x. x"]
  obtain m2 s2 where "email_NewManager (\<lambda>x. x) (Some sqliteEmails) [] ?s = (Inr (m2 :: (emails_db, unit) emgr), s2)"
    "\<forall>i. get (emInventory m2) i = get [(''in'', ?e')] i" by auto
  with add show ?thesis by auto
qed

end
