(* ===== verification/Tasks_Store.thy ===== *)
theory Tasks_Store
  imports Tasks_Deletion
begin

text \<open>
  What the tasks manager may count on from its repository (the port of src/tasks/tasks.go), as a contract,
  and what follows for a manager over a store that meets it: its cache of groups agrees with the stored
  groups, and every handle it has registered goes back to a record of the same task. The engine's own
  writes to a record are covered by what they leave alone.
\<close>

section \<open>The contract\<close>

definition unstarted :: "task \<Rightarrow> task" where
  "unstarted t = t\<lparr>tState := [], tSnapshot := [], tStatus := [], tOutput := []\<rparr>"

definition kept_tgroup :: "tgroup option \<Rightarrow> tgroup \<Rightarrow> tgroup" where
  "kept_tgroup old g = (case old of None \<Rightarrow> g | Some q \<Rightarrow> g\<lparr>tgCreatedAt := tgCreatedAt q\<rparr>)"

definition same_store ::
    "('s \<Rightarrow> string \<Rightarrow> task option) \<Rightarrow> ('s \<Rightarrow> string \<Rightarrow> tgroup option) \<Rightarrow> ('s \<Rightarrow> bool) \<Rightarrow> 's \<Rightarrow> 's \<Rightarrow> bool" where
  "same_store rows grows sane s s' \<longleftrightarrow> sane s' \<and> rows s' = rows s \<and> grows s' = grows s"

locale task_store =
  fixes R :: "'s trepo"
    and rows :: "'s \<Rightarrow> string \<Rightarrow> task option"
    and grows :: "'s \<Rightarrow> string \<Rightarrow> tgroup option"
    and sane :: "'s \<Rightarrow> bool"
  assumes grows_id: "sane s \<Longrightarrow> grows s gid = Some g \<Longrightarrow> tgID g = gid"
    and create_ok: "sane s \<Longrightarrow> trCreateTask R t s = (None, s') \<Longrightarrow> sane s' \<and> rows s (tID t) = None
      \<and> rows s' = (rows s)(tID t \<mapsto> unstarted t) \<and> grows s' = grows s"
    and create_failed: "sane s \<Longrightarrow> trCreateTask R t s = (Some x, s') \<Longrightarrow> same_store rows grows sane s s'"
    and assign_ok: "sane s \<Longrightarrow> trSaveAssignment R i k p s = (None, s') \<Longrightarrow> sane s' \<and> grows s' = grows s \<and>
      (\<exists>q b now. rows s i = Some q \<and> get b = (get (tAssignments q))(k \<mapsto> p)
        \<and> rows s' = (rows s)(i \<mapsto> q\<lparr>tAssignments := b, tUpdatedAt := now\<rparr>))"
    and assign_failed: "sane s \<Longrightarrow> trSaveAssignment R i k p s = (Some x, s') \<Longrightarrow> same_store rows grows sane s s'"
    and recover_ok: "sane s \<Longrightarrow> trRecoverTask R i s = (Inr t, s') \<Longrightarrow> same_store rows grows sane s s' \<and> rows s i = Some t"
    and recover_failed: "sane s \<Longrightarrow> trRecoverTask R i s = (Inl x, s') \<Longrightarrow> same_store rows grows sane s s'"
    and all_ok: "sane s \<Longrightarrow> trRecoverAll R s = (Inr ts, s') \<Longrightarrow> same_store rows grows sane s s'
      \<and> distinct (map tID ts) \<and> (\<forall>i t. rows s i = Some t \<longleftrightarrow> t \<in> set ts \<and> tID t = i)"
    and all_failed: "sane s \<Longrightarrow> trRecoverAll R s = (Inl x, s') \<Longrightarrow> same_store rows grows sane s s'"
    and delete_ok: "sane s \<Longrightarrow> trDeleteTask R i s = (None, s') \<Longrightarrow> sane s' \<and> rows s' = (rows s)(i := None) \<and> grows s' = grows s"
    and delete_failed: "sane s \<Longrightarrow> trDeleteTask R i s = (Some x, s') \<Longrightarrow> same_store rows grows sane s s'"
    and save_group_ok: "sane s \<Longrightarrow> trSaveGroup R g s = (None, s') \<Longrightarrow> sane s' \<and> rows s' = rows s
      \<and> grows s' = (grows s)(tgID g \<mapsto> kept_tgroup (grows s (tgID g)) g)"
    and save_group_failed: "sane s \<Longrightarrow> trSaveGroup R g s = (Some x, s') \<Longrightarrow> same_store rows grows sane s s'"
    and groups_ok: "sane s \<Longrightarrow> trListGroups R s = (Inr gs, s') \<Longrightarrow> same_store rows grows sane s s'
      \<and> distinct (map tgID gs) \<and> (\<forall>i g. grows s i = Some g \<longleftrightarrow> g \<in> set gs \<and> tgID g = i)"
    and delete_group_ok: "sane s \<Longrightarrow> trDeleteGroup R i s = (None, s') \<Longrightarrow> sane s' \<and> rows s' = rows s
      \<and> grows s' = (grows s)(i := None)"
    and delete_group_failed: "sane s \<Longrightarrow> trDeleteGroup R i s = (Some x, s') \<Longrightarrow> same_store rows grows sane s s'"
    and members_ok: "sane s \<Longrightarrow> trTasksInGroup R i s = (Inr ids, s') \<Longrightarrow> same_store rows grows sane s s'
      \<and> sorted ids \<and> distinct ids \<and> set ids = {j. \<exists>t. rows s j = Some t \<and> tGroupID t = i}"
    and members_failed: "sane s \<Longrightarrow> trTasksInGroup R i s = (Inl x, s') \<Longrightarrow> same_store rows grows sane s s'"

section \<open>Agreement of the manager with its store\<close>

text \<open>What no operation changes of a task.\<close>

definition same_origin :: "task \<Rightarrow> task \<Rightarrow> bool" where
  "same_origin t q \<longleftrightarrow> tID t = tID q \<and> tWorkflowID t = tWorkflowID q \<and> tGroupID t = tGroupID q \<and> tCreatedAt t = tCreatedAt q"

text \<open>A creation time that was never stored stays unknown to the store.\<close>

definition same_group :: "tgroup \<Rightarrow> tgroup \<Rightarrow> bool" where
  "same_group g q \<longleftrightarrow> tgID g = tgID q \<and> tgResourceGroups g = tgResourceGroups q \<and> tgUpdatedAt g = tgUpdatedAt q
     \<and> (tgCreatedAt q \<noteq> 0 \<longrightarrow> tgCreatedAt g = tgCreatedAt q)"

definition group_agrees :: "string \<Rightarrow> tgroup option \<Rightarrow> tgroup option \<Rightarrow> bool" where
  "group_agrees i stored cached \<longleftrightarrow>
     (case stored of
        Some q \<Rightarrow> (\<exists>g. cached = Some g \<and> same_group g q)
      | None \<Rightarrow> cached = (if i = TasksGlobalGroup then Some (zeroTGroup TasksGlobalGroup) else None))"

definition groups_agree :: "(string \<Rightarrow> tgroup option) \<Rightarrow> (string, tgroup) gomap \<Rightarrow> bool" where
  "groups_agree stored cached \<longleftrightarrow> (\<forall>i. group_agrees i (stored i) (get cached i))"

definition handles_stored :: "(string \<Rightarrow> task option) \<Rightarrow> ('i, 'x, 's, 'r) tmgr \<Rightarrow> bool" where
  "handles_stored stored m \<longleftrightarrow>
     (\<forall>i h. handle_at m i = Some h \<longrightarrow> (\<exists>q. stored i = Some q \<and> same_origin (hTask h) q))"

definition tm_stored ::
    "'s trepo \<Rightarrow> ('s \<Rightarrow> string \<Rightarrow> task option) \<Rightarrow> ('s \<Rightarrow> string \<Rightarrow> tgroup option) \<Rightarrow> ('s \<Rightarrow> bool) \<Rightarrow> ('i, 'x, 's, 'r) tmgr \<Rightarrow> bool" where
  "tm_stored R rows grows sane m \<longleftrightarrow> tm_ok m \<and> tmRepo m = Some R \<and> sane (tmStore m)
     \<and> groups_agree (grows (tmStore m)) (tmGroups m) \<and> handles_stored (rows (tmStore m)) m"

lemma tm_storedD:
  assumes "tm_stored R rows grows sane m"
  shows "tm_ok m" "tmRepo m = Some R" "sane (tmStore m)" "groups_agree (grows (tmStore m)) (tmGroups m)"
    "handles_stored (rows (tmStore m)) m"
  using assms by (simp_all add: tm_stored_def)

lemma same_origin_refl [simp]: "same_origin t t"
  by (simp add: same_origin_def)

lemma same_origin_trans: "same_origin t q \<Longrightarrow> same_origin q r \<Longrightarrow> same_origin t r"
  by (simp add: same_origin_def)

lemma same_group_refl [simp]: "same_group g g"
  by (simp add: same_group_def)

lemma groups_agree_put:
  assumes "groups_agree stored cached" "same_group g q"
  shows "groups_agree (stored(i \<mapsto> q)) (put i g cached)"
  using assms by (simp add: groups_agree_def) (simp add: group_agrees_def)

lemma groups_agree_del:
  assumes "groups_agree stored cached" "i \<noteq> TasksGlobalGroup"
  shows "groups_agree (stored(i := None)) (del i cached)"
  using assms by (simp add: groups_agree_def) (simp add: group_agrees_def)

text \<open>Handles of a changed manager that were there before, over a store that keeps the origins.\<close>

lemma handles_storedI:
  assumes "handles_stored stored m"
    and "\<And>i h'. handle_at m' i = Some h' \<Longrightarrow> \<exists>h. handle_at m i = Some h \<and> hTask h' = hTask h"
    and "\<And>i q. handle_at m' i \<noteq> None \<Longrightarrow> stored i = Some q \<Longrightarrow> \<exists>q'. stored' i = Some q' \<and> same_origin q q'"
  shows "handles_stored stored' m'"
  unfolding handles_stored_def
proof (intro allI impI)
  fix i h' assume h': "handle_at m' i = Some h'"
  then obtain h where h: "handle_at m i = Some h" "hTask h' = hTask h" using assms(2) by blast
  then obtain q where q: "stored i = Some q" "same_origin (hTask h) q"
    using assms(1) unfolding handles_stored_def by blast
  obtain q' where "stored' i = Some q'" "same_origin q q'" using assms(3) [OF _ q(1)] h' by auto
  with q h show "\<exists>q'. stored' i = Some q' \<and> same_origin (hTask h') q'" using same_origin_trans by metis
qed

lemma handle_at_store [simp]:
  "handle_at (m\<lparr>tmStore := st\<rparr>) i = handle_at m i" "handle_at (m\<lparr>tmResources := rs\<rparr>) i = handle_at m i"
  "handle_at (m\<lparr>tmGroups := gs\<rparr>) i = handle_at m i" "handle_at (m\<lparr>tmWorkflows := ws\<rparr>) i = handle_at m i"
  by (simp_all add: handle_at_def)

lemma handle_at_install:
  assumes "tm_ok m"
  shows "handle_at (install j h m) i = (if i = j then Some h else handle_at m i)"
proof -
  have "get (tmRegistry m) i \<noteq> Some (tmNext m)"
    using tm_okD(4,5) [OF assms] by fastforce
  then show ?thesis by (cases "get (tmRegistry m) i") (auto simp: handle_at_def install_def)
qed

lemma handle_at_del: "handle_at (m\<lparr>tmRegistry := del j (tmRegistry m)\<rparr>) i = (if i = j then None else handle_at m i)"
  by (simp add: handle_at_def)

lemma handle_at_set_engine: "handle_at (set_engine a f m) i = Some h' \<Longrightarrow> \<exists>h. handle_at m i = Some h \<and> hTask h' = hTask h"
  by (cases "get (tmRegistry m) i") (auto simp: handle_at_def set_engine_heap split: if_splits)

lemma handles_stored_set_engine: "handles_stored stored m \<Longrightarrow> handles_stored stored (set_engine a f m)"
  by (erule handles_storedI) (auto dest: handle_at_set_engine)

lemma handles_stored_fold: "handles_stored stored m \<Longrightarrow> handles_stored stored (unsealAll as m)"
  unfolding unsealAll_def
  by (induction as arbitrary: m) (simp_all add: unseal_at_def handles_stored_set_engine)

lemma handles_stored_frame [simp]:
  "handles_stored stored (m\<lparr>tmStore := st\<rparr>) = handles_stored stored m"
  "handles_stored stored (m\<lparr>tmResources := rs\<rparr>) = handles_stored stored m"
  "handles_stored stored (m\<lparr>tmGroups := gs\<rparr>) = handles_stored stored m"
  "handles_stored stored (m\<lparr>tmWorkflows := ws\<rparr>) = handles_stored stored m"
  by (simp_all add: handles_stored_def)

lemma handles_stored_del:
  "handles_stored stored m \<Longrightarrow> handles_stored stored (m\<lparr>tmRegistry := del j (tmRegistry m)\<rparr>)"
  "handles_stored stored m \<Longrightarrow> handles_stored (stored(j := None)) (m\<lparr>tmRegistry := del j (tmRegistry m)\<rparr>)"
  by (auto simp: handles_stored_def handle_at_del split: if_splits)

lemma handles_stored_install:
  assumes "tm_ok m" "handles_stored stored m" "stored i = Some q" "same_origin (hTask h) q"
  shows "handles_stored stored (install i h m)"
  using assms by (auto simp: handles_stored_def handle_at_install)

lemma handles_stored_grows:
  assumes "handles_stored stored m" "\<And>i q. stored i = Some q \<Longrightarrow> \<exists>q'. stored' i = Some q' \<and> same_origin q q'"
  shows "handles_stored stored' m"
  using handles_storedI [OF assms(1), of m stored'] assms(2) by blast

section \<open>What each operation does to the store\<close>

lemma CreateTask_store:
  assumes "CreateTask newID now w input opts m = (Inl e, m')"
  shows "tmStore m' = tmStore m \<or> (\<exists>rp t x. tmRepo m = Some rp \<and> trCreateTask rp t (tmStore m) = (Some x, tmStore m'))"
  using assms
  by (auto simp: CreateTask_def Let_def split: sum.splits option.splits prod.splits)

lemma RecoverTask_store:
  assumes "RecoverTask i m = (Inl e, m')"
  shows "tmStore m' = tmStore m \<or> (\<exists>rp r. tmRepo m = Some rp \<and> trRecoverTask rp i (tmStore m) = (r, tmStore m'))"
  using assms
  by (auto simp: RecoverTask_def Let_def split: sum.splits option.splits prod.splits if_splits)

lemma AssignResource_store:
  assumes "AssignResource ops now i kind p m = (e, m')"
  shows "tmStore m' = tmStore m \<or> (\<exists>rp r. tmRepo m = Some rp \<and> trRecoverTask rp i (tmStore m) = (r, tmStore m'))
    \<or> (\<exists>rp r st x. tmRepo m = Some rp \<and> trRecoverTask rp i (tmStore m) = (Inr r, st)
        \<and> trSaveAssignment rp i kind p st = (x, tmStore m'))"
  using assms
  by (auto simp: AssignResource_def Let_def split: sum.splits option.splits prod.splits)

lemma sealMembers_handles:
  assumes "sealMembers ids sealed m = (res, sealed', m')" "handles_stored stored m"
  shows "handles_stored stored m'"
  using assms(2)
proof (rule handles_storedI)
  fix i h' assume h': "handle_at m' i = Some h'"
  note f = sealMembers_facts [OF assms(1)]
  from h' obtain a where a: "get (tmRegistry m') i = Some a" "get (tmHeap m') a = Some h'"
    by (auto simp: handle_at_def bind_eq_Some_conv)
  with f(7) [of a] obtain h where "get (tmHeap m) a = Some h"
      "h'\<lparr>hEngine := unseal (hEngine h')\<rparr> = h\<lparr>hEngine := unseal (hEngine h)\<rparr>"
    by (cases "get (tmHeap m) a") auto
  moreover from this(2) have "hTask h' = hTask h" by (cases h, cases h') simp
  ultimately show "\<exists>h. handle_at m i = Some h \<and> hTask h' = hTask h"
    using a(1) f(1) by (auto simp: handle_at_def)
qed auto

lemma sealing_handles:
  assumes "(case get (tmRegistry m) i of None \<Rightarrow> (True, m) | Some a \<Rightarrow> seal_at a m) = (True, m1)"
    "handles_stored stored m"
  shows "handles_stored stored m1"
proof (cases "get (tmRegistry m) i")
  case (Some a)
  with assms have "seal_at a m = (True, m1)" by simp
  then show ?thesis by (cases rule: seal_at_cases) (use assms(2) in \<open>auto intro: handles_stored_set_engine\<close>)
qed (use assms in auto)

section \<open>Every operation keeps the agreement\<close>

context task_store
begin

abbreviation tm_kept :: "('i, 'x, 's, 'r) tmgr \<Rightarrow> bool" where
  "tm_kept \<equiv> tm_stored R rows grows sane"

abbreviation unchanged :: "'s \<Rightarrow> 's \<Rightarrow> bool" where
  "unchanged \<equiv> same_store rows grows sane"

lemma store_moved:
  assumes "tm_kept m" "unchanged (tmStore m) st"
  shows "tm_kept (m\<lparr>tmStore := st\<rparr>)"
  using assms by (simp add: tm_stored_def same_store_def)

lemma store_unmoved:
  assumes "tm_kept m" "unchanged (tmStore m) st"
  shows "sane st" "rows st = rows (tmStore m)" "grows st = grows (tmStore m)"
  using assms by (simp_all add: same_store_def)

lemma unchanged_refl: "tm_kept m \<Longrightarrow> unchanged (tmStore m) (tmStore m)"
  by (simp add: same_store_def tm_stored_def)

lemma recover_unchanged: "sane s \<Longrightarrow> trRecoverTask R i s = (r, s') \<Longrightarrow> unchanged s s'"
  using recover_ok recover_failed by (cases r) blast+

lemma Create_kept:
  assumes m: "tm_kept m" and run: "CreateTask newID now w input opts m = (res, m')"
  shows "tm_kept m'"
proof -
  note d = tm_storedD [OF m]
  from run show ?thesis
  proof (cases rule: CreateTask_cases)
    case (failed e st)
    have "unchanged (tmStore m) st"
      using CreateTask_store [OF run [unfolded failed(1)]] unchanged_refl [OF m] create_failed [OF d(3)] d(2)
      by (auto simp: failed(2))
    with store_moved [OF m] failed(2) show ?thesis by simp
  next
    case (created flow g h st)
    have t: "tID (hTask h) = newID"
      using created(7) by (auto simp: createTask_def split: option.splits)
    have c: "sane st" "rows (tmStore m) newID = None" "rows st = (rows (tmStore m))(newID \<mapsto> unstarted (hTask h))"
      "grows st = grows (tmStore m)"
      using create_ok [OF d(3) created(8) [OF d(2)]] t by simp_all
    let ?m = "m\<lparr>tmStore := st\<rparr>"
    have "handles_stored (rows st) ?m"
    proof -
      have "handles_stored (rows st) m" using d(5) by (rule handles_stored_grows) (use c in auto)
      then show ?thesis by simp
    qed
    then have "handles_stored (rows st) (install newID h ?m)"
      using d(1) c(3) by (intro handles_stored_install [where q = "unstarted (hTask h)"])
        (simp_all add: same_origin_def unstarted_def)
    moreover have "tm_ok (install newID h ?m)" using tm_ok_install [of ?m newID h] d(1) by simp
    ultimately show ?thesis using c d created(2) by (simp add: tm_stored_def install_def)
  qed
qed

lemma Recover_kept:
  assumes m: "tm_kept m" and run: "RecoverTask i m = (res, m')"
  shows "tm_kept m'"
proof -
  note d = tm_storedD [OF m]
  from run show ?thesis
  proof (cases rule: RecoverTask_cases)
    case running
    with m show ?thesis by simp
  next
    case (failed e st)
    have "unchanged (tmStore m) st"
      using RecoverTask_store [OF run [unfolded failed(1)]] unchanged_refl [OF m] recover_unchanged [OF d(3)] d(2)
      by (auto simp: failed(2))
    with store_moved [OF m] failed(2) show ?thesis by simp
  next
    case (recovered rp rcd g st)
    have r: "unchanged (tmStore m) st" "rows (tmStore m) i = Some rcd"
      using recover_ok [OF d(3)] recovered(2,3) d(2) by auto
    note k = tm_storedD [OF store_moved [OF m r(1)]]
    let ?h = "rehydrateTask rcd (resolveAll (tAssignments rcd) g)" and ?m = "m\<lparr>tmStore := st\<rparr>"
    have "handles_stored (rows st) (install i ?h ?m)"
      using k(5) r store_unmoved [OF m r(1)]
      by (intro handles_stored_install [OF k(1), of _ _ rcd]) (simp_all add: rehydrateTask_def)
    with k tm_ok_install [OF k(1), of i ?h] recovered(6) show ?thesis by (simp add: tm_stored_def install_def)
  qed
qed

lemma sweep_kept:
  assumes "tm_kept m" "\<And>t. t \<in> set records \<Longrightarrow> rows (tmStore m) (tID t) = Some t"
    and "recoverRecords gs records acc m = (res, m')"
  shows "tm_kept m'"
  using assms
proof (induction gs records acc m rule: recoverRecords.induct)
  case (2 gs rcd records acc m)
  show ?case
  proof (cases "if tasks_IsRunning (tID rcd) m then handle_at m (tID rcd) else None")
    case (Some h)
    with 2 show ?thesis by simp
  next
    case None
    show ?thesis
    proof (cases "get gs (groupOf rcd)")
      case grp: None
      with None 2 show ?thesis by simp
    next
      case grp: (Some g)
      show ?thesis
      proof (cases "rehydrate rcd g m")
        case (Inl e)
        with None grp 2 show ?thesis by simp
      next
        case (Inr h)
        note k = tm_storedD [OF "2.prems"(1)]
        have h: "hTask h = rcd" using Inr by (auto simp: rehydrate_def rehydrateTask_def split: sum.splits)
        have "handles_stored (rows (tmStore m)) (install (tID rcd) h m)"
          using "2.prems"(2) [of rcd] by (intro handles_stored_install [OF k(1,5), of _ rcd]) (simp_all add: h)
        then have i: "tm_kept (install (tID rcd) h m)"
          using k tm_ok_install [OF k(1), of "tID rcd" h] by (simp add: tm_stored_def install_def)
        from None grp Inr "2.prems"(3)
        have "recoverRecords gs records (acc @ [h]) (install (tID rcd) h m) = (res, m')" by simp
        from "2.IH"(1) [OF None grp Inr i _ this] "2.prems"(2) show ?thesis by (simp add: install_def)
      qed
    qed
  qed
qed simp

lemma RecoverAll_kept:
  assumes m: "tm_kept m" and run: "RecoverAll m = (res, m')"
  shows "tm_kept m'"
proof -
  note d = tm_storedD [OF m]
  obtain r st where l: "trRecoverAll R (tmStore m) = (r, st)" by fastforce
  have u: "unchanged (tmStore m) st" using all_ok [OF d(3)] all_failed [OF d(3)] l by (cases r) blast+
  show ?thesis
  proof (cases r)
    case (Inl e)
    with run d(2) l have "m' = m\<lparr>tmStore := st\<rparr>" by (simp add: RecoverAll_def RecoverAll_list_def)
    with store_moved [OF m u] show ?thesis by simp
  next
    case (Inr ts)
    with run d(2) l have "recoverRecords (tmGroups m) ts [] (m\<lparr>tmStore := st\<rparr>) = (res, m')"
      by (simp add: RecoverAll_def RecoverAll_list_def)
    then have sweep: "tm_kept m'" if "\<And>t. t \<in> set ts \<Longrightarrow> rows st (tID t) = Some t"
      using sweep_kept [OF store_moved [OF m u], of ts "tmGroups m" "[]" res m'] that by simp
    have "rows st (tID t) = Some t" if "t \<in> set ts" for t
      using all_ok [OF d(3) l [unfolded Inr]] that by (auto simp: same_store_def)
    with sweep show ?thesis by blast
  qed
qed

lemma Assign_kept:
  assumes m: "tm_kept m" and run: "AssignResource ops now i kind p m = (e, m')"
  shows "tm_kept m'"
proof -
  note d = tm_storedD [OF m]
  from AssignResource_store [OF run] have st: "sane (tmStore m') \<and> grows (tmStore m') = grows (tmStore m)
      \<and> (\<forall>j q. rows (tmStore m) j = Some q \<longrightarrow> (\<exists>q'. rows (tmStore m') j = Some q' \<and> same_origin q q'))"
  proof (elim disjE)
    assume "\<exists>rp r st x. tmRepo m = Some rp \<and> trRecoverTask rp i (tmStore m) = (Inr r, st)
        \<and> trSaveAssignment rp i kind p st = (x, tmStore m')"
    then obtain r st x where a: "trRecoverTask R i (tmStore m) = (Inr r, st)" "trSaveAssignment R i kind p st = (x, tmStore m')"
      using d(2) by auto
    note u = store_unmoved [OF m recover_unchanged [OF d(3) a(1)]]
    show ?thesis
    proof (cases x)
      case None
      from assign_ok [OF u(1) a(2) [unfolded None]] u show ?thesis by (auto simp: same_origin_def)
    next
      case (Some y)
      from assign_failed [OF u(1) a(2) [unfolded Some]] u show ?thesis by (simp add: same_store_def)
    qed
  qed (use d store_unmoved [OF m recover_unchanged [OF d(3)]] in auto)
  have "handles_stored (rows (tmStore m')) m" using d(5) by (rule handles_stored_grows) (use st in blast)
  moreover have "m' = m\<lparr>tmStore := tmStore m', tmResources := tmResources m'\<rparr>"
    using run by (cases rule: AssignResource_cases) simp_all
  ultimately have "handles_stored (rows (tmStore m')) m' \<and> tmRepo m' = tmRepo m \<and> tmGroups m' = tmGroups m"
    by (metis handles_stored_frame(1,2) tmgr.select_convs tmgr.surjective tmgr.update_convs)
  with st d AssignResource_ok [OF run d(1)] show ?thesis by (simp add: tm_stored_def)
qed

text \<open>What is left to show when only the registry's handles and the store have changed.\<close>

lemma tm_keptI:
  assumes "tm_kept m" "tm_ok m'" "tmRepo m' = tmRepo m" "sane (tmStore m')" "grows (tmStore m') = grows (tmStore m)"
    "tmGroups m' = tmGroups m" "handles_stored (rows (tmStore m')) m'"
  shows "tm_kept m'"
  using assms by (simp add: tm_stored_def)

lemma Delete_kept:
  assumes m: "tm_kept m" and run: "DeleteTask ops now i m = (e, m')"
  shows "tm_kept m'"
proof -
  note d = tm_storedD [OF m]
  have stage: "handles_stored (rows (tmStore m)) m2 \<and> tmStore m2 = tmStore m \<and> tmRepo m2 = tmRepo m \<and> tmGroups m2 = tmGroups m"
    if k: "(case get (tmRegistry m) i of None \<Rightarrow> (True, m) | Some a \<Rightarrow> seal_at a m) = (True, m1)"
      and r: "releaseTask ops now i m1 = (er, m2)" for m1 m2 er
    using r sealing_handles [OF k d(5)] sealing_step(2,4,5) [OF k] by (auto elim!: releaseTask_cases)
  note ok = DeleteTask_ok [OF run d(1)]
  from run show ?thesis
  proof (cases rule: DeleteTask_cases)
    case running
    with m show ?thesis by simp
  next
    case (unreleased m1 m2 er)
    note s = stage [OF unreleased(1,2)]
    have "handles_stored (rows (tmStore m)) m'" "tmStore m' = tmStore m" "tmRepo m' = tmRepo m" "tmGroups m' = tmGroups m"
      using s unreleased(4) handles_stored_set_engine by (auto simp: unseal_at_def split: option.splits)
    then show ?thesis using d(3) by (intro tm_keptI [OF m ok]) simp_all
  next
    case (deleted m1 m2 st err)
    note s = stage [OF deleted(1,2)]
    have dl: "trDeleteTask R i (tmStore m) = (err, st)" using deleted(5) s d(2) by simp
    have m': "m' = m2\<lparr>tmRegistry := del i (tmRegistry m2)\<rparr>\<lparr>tmStore := st\<rparr>" using deleted(3) by simp
    show ?thesis
    proof (cases err)
      case None
      with delete_ok [OF d(3)] dl have w: "sane st" "rows st = (rows (tmStore m))(i := None)" "grows st = grows (tmStore m)" by blast+
      have "handles_stored (rows st) m'" unfolding m' handles_stored_frame w(2) using s by (intro handles_stored_del(2)) simp
      then show ?thesis using w s by (intro tm_keptI [OF m ok]) (simp_all add: deleted(3))
    next
      case (Some x)
      with delete_failed [OF d(3)] dl have "unchanged (tmStore m) st" by blast
      note w = store_unmoved [OF m this]
      have "handles_stored (rows st) m'" unfolding m' handles_stored_frame w(2) using s by (intro handles_stored_del(1)) simp
      then show ?thesis using w s by (intro tm_keptI [OF m ok]) (simp_all add: deleted(3))
    qed
  qed
qed

lemma CreateGroup_kept:
  assumes m: "tm_kept m" and run: "tasks_CreateGroup now g m = (e, m')"
  shows "tm_kept m'"
proof -
  note d = tm_storedD [OF m]
  let ?g = "g\<lparr>tgCreatedAt := now, tgUpdatedAt := now\<rparr>"
  obtain x st where sv: "trSaveGroup R ?g (tmStore m) = (x, st)" by fastforce
  show ?thesis
  proof (cases "tgID g = [] \<or> validKinds (tgResourceGroups g) \<noteq> None \<or> tgID g = TasksGlobalGroup \<or> get (tmGroups m) (tgID g) \<noteq> None")
    case True
    then have "m' = m" using run d(2) unfolding tasks_CreateGroup_def by (elim disjE) (simp_all split: if_splits option.splits)
    with m show ?thesis by simp
  next
    case False
    then have r: "m' = (case x of None \<Rightarrow> m\<lparr>tmStore := st, tmGroups := put (tgID g) ?g (tmGroups m)\<rparr> | Some _ \<Rightarrow> m\<lparr>tmStore := st\<rparr>)"
      using run d(2) sv by (auto simp: tasks_CreateGroup_def Let_def split: option.splits)
    show ?thesis
    proof (cases x)
      case (Some y)
      with save_group_failed [OF d(3)] sv have "unchanged (tmStore m) st" by blast
      with store_moved [OF m] r Some show ?thesis by simp
    next
      case None
      have i: "tgID ?g = tgID g" by simp
      have w: "sane st" "rows st = rows (tmStore m)" "grows st = (grows (tmStore m))(tgID g \<mapsto> kept_tgroup (grows (tmStore m) (tgID g)) ?g)"
        using save_group_ok [OF d(3) sv [unfolded None]] unfolding i by blast+
      have "group_agrees (tgID g) (grows (tmStore m) (tgID g)) None"
        using d(4) False unfolding groups_agree_def by metis
      then have "grows (tmStore m) (tgID g) = None" by (simp add: group_agrees_def split: option.splits)
      then have a: "groups_agree (grows st) (put (tgID g) ?g (tmGroups m))"
        using groups_agree_put [OF d(4), of ?g ?g "tgID g"] unfolding w(3) by (simp add: kept_tgroup_def)
      have m': "m' = m\<lparr>tmStore := st, tmGroups := put (tgID g) ?g (tmGroups m)\<rparr>" using r None by simp
      have "handles_stored (rows st) m'" using d(5) by (simp add: m' w(2))
      then show ?thesis
        using w(1) a d(2) tasks_CreateGroup_ok [OF run d(1)] unfolding tm_stored_def by (simp add: m')
    qed
  qed
qed

text \<open>A callback that leaves the shared map of the cached group as it found it.\<close>

lemma UpdateGroup_kept:
  assumes m: "tm_kept m" and run: "tasks_UpdateGroup now i fn m = (e, m')"
    and tidy: "\<And>g. snd (fn g) = tgResourceGroups g"
  shows "tm_kept m'"
proof (cases "get (tmGroups m) i")
  case None
  with run m tm_storedD(2) [OF m] show ?thesis by (simp add: tasks_UpdateGroup_def)
next
  case (Some g)
  note d = tm_storedD [OF m]
  have gid: "tgID g = i" using tm_okD(8) [OF d(1) Some] .
  obtain g1 where fn: "fn g = (g1, tgResourceGroups g)" using tidy [of g] by (cases "fn g") simp
  let ?m1 = "m\<lparr>tmGroups := put i g (tmGroups m)\<rparr>"
  let ?g2 = "g1\<lparr>tgID := tgID g, tgCreatedAt := tgCreatedAt g\<rparr>"
  let ?g4 = "(if tgCreatedAt ?g2 = 0 then ?g2\<lparr>tgCreatedAt := now\<rparr> else ?g2)\<lparr>tgUpdatedAt := now\<rparr>"
  obtain x st where sv: "trSaveGroup R ?g4 (tmStore m) = (x, st)" by fastforce
  have same: "groups_agree stored (put i g (tmGroups m)) = groups_agree stored (tmGroups m)" for stored
  proof -
    have "get (put i g (tmGroups m)) = get (tmGroups m)" using Some by (simp add: fun_eq_iff)
    then show ?thesis by (simp add: groups_agree_def)
  qed
  have m1: "tm_kept ?m1"
    using d tm_ok_put_group [OF d(1) gid] by (simp add: tm_stored_def same)
  let ?bad = "validKinds (tgResourceGroups ?g2)"
  have r: "m' = (if ?bad \<noteq> None then ?m1 else case x of Some _ \<Rightarrow> ?m1\<lparr>tmStore := st\<rparr>
      | None \<Rightarrow> ?m1\<lparr>tmStore := st, tmGroups := put i ?g4 (tmGroups ?m1)\<rparr>)"
    using run d(2) Some fn sv
    by (cases "tgCreatedAt g = 0") (auto simp: tasks_UpdateGroup_def Let_def split: option.splits)
  show ?thesis
  proof (cases "?bad \<noteq> None")
    case True
    with r m1 show ?thesis by simp
  next
    case valid: False
    show ?thesis
    proof (cases x)
      case (Some y)
      with save_group_failed [OF d(3)] sv have "unchanged (tmStore m) st" by blast
      with store_moved [OF m1] r valid Some show ?thesis by simp
    next
      case x: None
      have i4: "tgID ?g4 = i" using gid by simp
      have w: "sane st" "rows st = rows (tmStore m)" "grows st = (grows (tmStore m))(i \<mapsto> kept_tgroup (grows (tmStore m) i) ?g4)"
        using save_group_ok [OF d(3) sv [unfolded x]] unfolding i4 by blast+
      have "same_group ?g4 (kept_tgroup (grows (tmStore m) i) ?g4)"
      proof (cases "grows (tmStore m) i")
        case (Some q)
        have "group_agrees i (grows (tmStore m) i) (get (tmGroups m) i)" using d(4) by (simp add: groups_agree_def)
        with Some \<open>get (tmGroups m) i = Some g\<close> have "same_group g q" by (simp add: group_agrees_def)
        with Some show ?thesis by (auto simp: kept_tgroup_def same_group_def)
      qed (simp add: kept_tgroup_def)
      from groups_agree_put [OF d(4) this, of i]
      have "groups_agree (grows st) (put i ?g4 (put i g (tmGroups m)))" unfolding w(3) by (simp add: groups_agree_def)
      moreover have m': "m' = ?m1\<lparr>tmStore := st, tmGroups := put i ?g4 (tmGroups ?m1)\<rparr>" using r valid x by simp
      moreover have "handles_stored (rows st) m'" using d(5) by (simp add: m' w(2))
      ultimately show ?thesis
        using w(1) d(2) tasks_UpdateGroup_ok [OF run d(1)] unfolding tm_stored_def by (simp add: m')
    qed
  qed
qed

lemma unsealAll_kept: "tm_kept m \<Longrightarrow> tm_kept (unsealAll as m)"
  using handles_stored_fold [of "rows (tmStore m)" m as] unsealAll_ok [of m as] by (simp add: tm_stored_def)

lemma set_engine_kept: "tm_kept m \<Longrightarrow> tm_kept (set_engine a f m)"
  using handles_stored_set_engine [of "rows (tmStore m)" m a f] tm_ok_set_engine [of m a f] by (simp add: tm_stored_def)

lemma deleteMembers_kept:
  assumes "tm_kept m" "deleteMembers R ids m = (e, m')"
  shows "tm_kept m' \<and> tmGroups m' = tmGroups m"
  using assms
proof (induction ids arbitrary: m)
  case (Cons i ids)
  note d = tm_storedD [OF Cons.prems(1)]
  obtain x st where dl: "trDeleteTask R i (tmStore m) = (x, st)" by fastforce
  let ?m = "m\<lparr>tmRegistry := del i (tmRegistry m)\<rparr>"
  have ok: "tm_ok (?m\<lparr>tmStore := st\<rparr>)" using tm_ok_del [OF d(1)] by simp
  show ?case
  proof (cases x)
    case None
    with delete_ok [OF d(3)] dl have w: "sane st" "rows st = (rows (tmStore m))(i := None)" "grows st = grows (tmStore m)" by blast+
    have "handles_stored (rows st) ?m" unfolding w(2) by (rule handles_stored_del(2) [OF d(5)])
    then have k: "tm_kept (?m\<lparr>tmStore := st\<rparr>)" using w ok by (intro tm_keptI [OF Cons.prems(1)]) simp_all
    from Cons.prems(2) None dl have "deleteMembers R ids (?m\<lparr>tmStore := st\<rparr>) = (e, m')" by (simp add: Let_def)
    from Cons.IH [OF k this] show ?thesis by simp
  next
    case (Some y)
    with delete_failed [OF d(3)] dl have "unchanged (tmStore m) st" by blast
    note w = store_unmoved [OF Cons.prems(1) this]
    have "handles_stored (rows st) ?m" unfolding w(2) by (rule handles_stored_del(1) [OF d(5)])
    then have k: "tm_kept (?m\<lparr>tmStore := st\<rparr>)" using w ok by (intro tm_keptI [OF Cons.prems(1)]) simp_all
    from Cons.prems(2) Some dl have "m' = ?m\<lparr>tmStore := st\<rparr>" by (simp add: Let_def)
    with k show ?thesis by simp
  qed
qed simp

lemma DeleteGroup_kept:
  assumes m: "tm_kept m" and run: "tasks_DeleteGroup ops now i m = (e, m')"
  shows "tm_kept m'"
proof (cases "i = TasksGlobalGroup \<or> tasks_GetGroup i m = None")
  case True
  with run tm_storedD(2) [OF m] m show ?thesis by (auto simp: tasks_DeleteGroup_def split: if_splits)
next
  case False
  note d = tm_storedD [OF m]
  obtain r st where l: "trTasksInGroup R i (tmStore m) = (r, st)" by fastforce
  have u: "unchanged (tmStore m) st" using members_ok [OF d(3)] members_failed [OF d(3)] l by (cases r) blast+
  note m0 = store_moved [OF m u]
  note run' = run [unfolded tasks_DeleteGroup_def if_not_P [OF False [THEN conjunct1 [OF iffD1 [OF de_Morgan_disj]]]] d(2) option.case
      if_not_P [OF False [THEN conjunct2 [OF iffD1 [OF de_Morgan_disj]]]] l prod.case]
  show ?thesis
  proof (cases r)
    case (Inl x)
    with run' m0 show ?thesis by simp
  next
    case (Inr ids)
    obtain b sealed m1 where s: "sealMembers ids [] (m\<lparr>tmStore := st\<rparr>) = (b, sealed, m1)" by (metis prod_cases3)
    note sf = sealMembers_facts [OF s]
    have m1: "tm_kept m1" using sf(1,2) sealMembers_handles [OF s] tm_storedD [OF m0] by (simp add: tm_stored_def)
    obtain x m2 where rl: "releaseMembers ops now ids m1 = (x, m2)" by fastforce
    then obtain rs where m2': "m2 = m1\<lparr>tmResources := rs\<rparr>" "map fst rs = map fst (tmResources m1)"
      by (rule releaseMembers_frame) blast
    have m2: "tm_kept m2" using m1 m2' tm_ok_resources [of m1 rs] by (simp add: tm_stored_def)
    obtain y m3 where dm: "deleteMembers R ids m2 = (y, m3)" by fastforce
    note m3 = deleteMembers_kept [OF m2 dm]
    obtain z st2 where dg: "trDeleteGroup R i (tmStore m3) = (z, st2)" by fastforce
    have m': "m' = (if b \<noteq> None then unsealAll sealed m1 else if x \<noteq> None then unsealAll sealed m2
        else if y \<noteq> None then m3 else if z \<noteq> None then m3\<lparr>tmStore := st2\<rparr>
        else m3\<lparr>tmStore := st2, tmGroups := del i (tmGroups m3)\<rparr>)"
      using run' by (auto simp: Inr s rl dm dg split: option.splits)
    note k = tm_storedD [OF conjunct1 [OF m3]]
    have "tm_kept (m3\<lparr>tmStore := st2\<rparr>)" if "z \<noteq> None"
      using that delete_group_failed [OF k(3)] dg store_moved [OF conjunct1 [OF m3]] by auto
    moreover have "tm_kept (m3\<lparr>tmStore := st2, tmGroups := del i (tmGroups m3)\<rparr>)" if z: "z = None"
    proof -
      have w: "sane st2" "rows st2 = rows (tmStore m3)" "grows st2 = (grows (tmStore m3))(i := None)"
        using delete_group_ok [OF k(3) dg [unfolded z]] by blast+
      have "groups_agree (grows st2) (del i (tmGroups m3))"
        using groups_agree_del [OF k(4)] False w(3) by simp
      then show ?thesis using w k tm_ok_del_group [of m3 i] False
        by (simp add: tm_stored_def) (simp add: tm_ok_def)
    qed
    ultimately show ?thesis using m' m3 unsealAll_kept [OF m1] unsealAll_kept [OF m2] by (auto split: if_splits)
  qed
qed

lemma Register_kept: "tm_kept m \<Longrightarrow> RegisterWorkflow i flow m = (e, m') \<Longrightarrow> tm_kept m'"
  using RegisterWorkflow_ok [of m i flow]
  by (auto simp: RegisterWorkflow_def tm_stored_def split: option.splits if_splits)

lemma Members_kept:
  assumes "tm_kept m" "TasksInGroup i m = (r, m')"
  shows "tm_kept m'"
proof -
  note d = tm_storedD [OF assms(1)]
  obtain x st where l: "trTasksInGroup R i (tmStore m) = (x, st)" by fastforce
  have "unchanged (tmStore m) st" using members_ok [OF d(3)] members_failed [OF d(3)] l by (cases x) blast+
  moreover have "m' = m \<or> m' = m\<lparr>tmStore := st\<rparr>"
    using assms(2) d(2) l by (auto simp: TasksInGroup_def split: option.splits sum.splits if_splits)
  ultimately show ?thesis using assms(1) store_moved by blast
qed

text \<open>A manager built on a store agrees with it.\<close>

lemma fold_groups:
  assumes "distinct (map tgID gs)"
  shows "get (fold (\<lambda>g. put (tgID g) g) gs gs0) i = (case find (\<lambda>g. tgID g = i) gs of Some g \<Rightarrow> Some g | None \<Rightarrow> get gs0 i)"
  using assms
proof (induction gs arbitrary: gs0)
  case (Cons g gs)
  have "find (\<lambda>q. tgID q = tgID g) gs = None" using Cons.prems by (auto simp: find_None_iff) (metis image_eqI)
  with Cons show ?case by (auto split: option.split)
qed simp

lemma New_kept:
  assumes sane: "sane s" and boot: "tasks_NewManager (Some R) opts s = (Inr m, s')"
  shows "tm_kept m" "tmRegistry m = []" "tmStore m = s'" "unchanged s s'"
proof -
  obtain rs where rs: "withResources opts [] = Inr rs" using boot by (auto simp: tasks_NewManager_def split: sum.splits)
  obtain r st where l: "trListGroups R s = (r, st)" by fastforce
  obtain gs where gs: "r = Inr gs" using boot rs l by (cases r) (simp_all add: tasks_NewManager_def Let_def)
  note g = groups_ok [OF sane l [unfolded gs]]
  have m: "m = \<lparr>tmWorkflows = [], tmRegistry = [], tmHeap = [], tmNext = 0, tmRepo = Some R, tmStore = st,
      tmResources = rs, tmGroups = fold (\<lambda>g. put (tgID g) g) gs [(TasksGlobalGroup, zeroTGroup TasksGlobalGroup)]\<rparr>" "st = s'"
    using boot rs l gs by (auto simp: tasks_NewManager_def Let_def)
  have f: "find (\<lambda>g. tgID g = i) gs = grows s i" for i
  proof (cases "grows s i")
    case None
    then have "\<forall>g \<in> set gs. tgID g \<noteq> i" using g by (metis option.distinct(1))
    with None show ?thesis by (simp add: find_None_iff)
  next
    case (Some q)
    then have q: "q \<in> set gs" "tgID q = i" using g by blast+
    have "find (\<lambda>g. tgID g = i) gs = Some q"
      using q conjunct1 [OF conjunct2 [OF g]] by (induction gs) auto
    with Some show ?thesis by simp
  qed
  have "group_agrees i (grows s i) (get (tmGroups m) i)" for i
  proof -
    have "get (tmGroups m) i = (case grows s i of Some g \<Rightarrow> Some g | None \<Rightarrow>
        get [(TasksGlobalGroup, zeroTGroup TasksGlobalGroup)] i)"
      unfolding m(1) tmgr.simps using fold_groups [of gs _ i] g f [of i] by simp
    then show ?thesis by (simp add: group_agrees_def split: option.split)
  qed
  then have "groups_agree (grows s) (tmGroups m)" by (simp add: groups_agree_def)
  moreover have "handles_stored (rows st) m" by (simp add: handles_stored_def handle_at_def m(1))
  ultimately show "tm_kept m" using g NewManager_ok [OF boot] by (simp add: tm_stored_def same_store_def m(1))
  show "tmRegistry m = []" "tmStore m = s'" "unchanged s s'" using g m by simp_all
qed

end

end
