(* ===== verification/Sqlite_Tasks.thy ===== *)
theory Sqlite_Tasks
  imports Tasks_Locks Tasks_Store Sqlite_Store "HOL-Library.Multiset"
begin

text \<open>
  The SQLite store of tasks (src/sqlite/tasks.go) under the tasks manager: a row per task with its
  placement, its last checkpoint and its outcome, and a row per task group. A placement is one JSON
  object whose entries SQLite edits in place; that encoding is the library's and reads back what was
  written. The store meets the contract \<^theory_text>\<open>task_store\<close>, so the tasks manager runs on it.
\<close>

section \<open>Rows\<close>

record place_codec =
  asgMarshal :: "(kind, placement) gomap \<Rightarrow> string + string"
  asgUnmarshal :: "string \<Rightarrow> (kind, placement) gomap option"
  plMarshal :: "placement \<Rightarrow> string + string"
  jsonSet :: "string \<Rightarrow> string \<Rightarrow> string \<Rightarrow> string + string"

text \<open>json_set puts a value under a key of the object, when the key is a plain name.\<close>

definition place_ok :: "place_codec \<Rightarrow> bool" where
  "place_ok c \<longleftrightarrow>
     (\<forall>a raw. a \<noteq> [] \<longrightarrow> asgMarshal c a = Inr raw \<longrightarrow> raw \<noteq> [] \<and> asgUnmarshal c raw = Some a) \<and>
     asgUnmarshal c ''{}'' = Some [] \<and>
     (\<forall>raw a k p v out. asgUnmarshal c raw = Some a \<longrightarrow> kind_Validate k = None \<longrightarrow> plMarshal c p = Inr v \<longrightarrow>
        jsonSet c raw k v = Inr out \<longrightarrow>
        out \<noteq> [] \<and> (\<exists>b. asgUnmarshal c out = Some b \<and> get b = (get a)(k \<mapsto> p)))"

record task_row =
  trowID :: string
  trowWorkflow :: string
  trowGroup :: string
  trowAssignments :: string
  trowState :: string
  trowStatus :: string
  trowSnapshot :: json
  trowOutput :: json
  trowCreated :: string
  trowUpdated :: string

record tgroup_row =
  tgrowID :: string
  tgrowRefs :: string
  tgrowCreated :: string
  tgrowUpdated :: string

text \<open>A statement may fail, and so may asking how many rows an update met. The clock is read per call.\<close>

record tdb =
  tdCodec :: codec
  tdPlace :: place_codec
  tdFault :: "nat \<Rightarrow> string option"
  tdCountFault :: "nat \<Rightarrow> string option"
  tdNow :: "nat \<Rightarrow> time"
  tdCalls :: nat
  tdRows :: "(string, task_row) gomap"
  tdGroups :: "(string, tgroup_row) gomap"

section \<open>Statements\<close>

definition task_exec :: "(tdb \<Rightarrow> string + tdb) \<Rightarrow> tdb \<Rightarrow> string option \<times> tdb" where
  "task_exec f d =
     (let d' = d\<lparr>tdCalls := Suc (tdCalls d)\<rparr>
      in case tdFault d (tdCalls d) of
           Some e \<Rightarrow> (Some e, d')
         | None \<Rightarrow> (case f d' of Inl e \<Rightarrow> (Some e, d') | Inr d2 \<Rightarrow> (None, d2)))"

definition task_query :: "(tdb \<Rightarrow> 'v) \<Rightarrow> tdb \<Rightarrow> (string + 'v) \<times> tdb" where
  "task_query f d =
     (let d' = d\<lparr>tdCalls := Suc (tdCalls d)\<rparr>
      in case tdFault d (tdCalls d) of Some e \<Rightarrow> (Inl e, d') | None \<Rightarrow> (Inr (f d'), d'))"

text \<open>UPDATE of the row with an id: the error of the statement, or the count of rows it met, which the
  driver may fail to tell.\<close>

definition task_update :: "string \<Rightarrow> (task_row \<Rightarrow> string + task_row) \<Rightarrow> tdb \<Rightarrow> (string + (string + nat)) \<times> tdb" where
  "task_update i f d =
     (let n = (case get (tdRows d) i of None \<Rightarrow> 0 | Some _ \<Rightarrow> 1);
          affected = (case tdCountFault d (tdCalls d) of Some e \<Rightarrow> Inl e | None \<Rightarrow> Inr n)
      in case task_exec (\<lambda>d. case get (tdRows d) i of
                None \<Rightarrow> Inr d
              | Some r \<Rightarrow> (case f r of Inl e \<Rightarrow> Inl e | Inr r' \<Rightarrow> Inr (d\<lparr>tdRows := put i r' (tdRows d)\<rparr>))) d of
           (Some e, d') \<Rightarrow> (Inl e, d')
         | (None, d') \<Rightarrow> (Inr affected, d'))"

definition errRowMissing :: "string \<Rightarrow> string \<Rightarrow> string + nat \<Rightarrow> repoerr option" where
  "errRowMissing op1 i affected =
     (case affected of
        Inl e \<Rightarrow> Some (op1 @ '' '' @ i @ '': '' @ e)
      | Inr n \<Rightarrow> if n = 0 then Some (op1 @ '' '' @ i @ '': task not found'') else None)"

section \<open>Tasks\<close>

definition encodeAssignments :: "place_codec \<Rightarrow> (kind, placement) gomap \<Rightarrow> string + string" where
  "encodeAssignments c a =
     (if a = [] then Inr []
      else (case asgMarshal c a of Inl e \<Rightarrow> Inl (''encode assignments: '' @ e) | Inr raw \<Rightarrow> Inr raw))"

definition decodeAssignments :: "place_codec \<Rightarrow> string \<Rightarrow> (kind, placement) gomap option" where
  "decodeAssignments c raw = (if raw = [] then Some [] else asgUnmarshal c raw)"

text \<open>INSERT fails on an id that is taken. The columns it does not name have their defaults.\<close>

definition tasks_CreateTask :: "task \<Rightarrow> tdb \<Rightarrow> repoerr option \<times> tdb" where
  "tasks_CreateTask rcd d =
     (case encodeAssignments (tdPlace d) (tAssignments rcd) of
        Inl e \<Rightarrow> (Some (''create task '' @ tID rcd @ '': '' @ e), d)
      | Inr assignments \<Rightarrow>
     (case task_exec (\<lambda>d.
             if get (tdRows d) (tID rcd) \<noteq> None then Inl ''UNIQUE constraint failed: tasks.id''
             else Inr (d\<lparr>tdRows := put (tID rcd)
               \<lparr>trowID = tID rcd, trowWorkflow = tWorkflowID rcd, trowGroup = tGroupID rcd,
                trowAssignments = assignments, trowState = [], trowStatus = [], trowSnapshot = [], trowOutput = [],
                trowCreated = formatTime (tdCodec d) (tCreatedAt rcd),
                trowUpdated = formatTime (tdCodec d) (tUpdatedAt rcd)\<rparr> (tdRows d)\<rparr>)) d of
        (Some e, d') \<Rightarrow> (Some (''create task '' @ tID rcd @ '': '' @ e), d')
      | (None, d') \<Rightarrow> (None, d')))"

definition tasks_SaveCheckpoint :: "string \<Rightarrow> string \<Rightarrow> string \<Rightarrow> json \<Rightarrow> tdb \<Rightarrow> repoerr option \<times> tdb" where
  "tasks_SaveCheckpoint i status st snap d =
     (let stamp1 = formatTime (tdCodec d) (tdNow d (tdCalls d)) in
      case task_update i (\<lambda>r. Inr (r\<lparr>trowStatus := status, trowState := st, trowSnapshot := snap,
                                    trowUpdated := stamp1\<rparr>)) d of
        (Inl e, d') \<Rightarrow> (Some (''save checkpoint '' @ i @ '': '' @ e), d')
      | (Inr res, d') \<Rightarrow> (errRowMissing ''save checkpoint'' i res, d'))"

definition tasks_MarkTerminal :: "string \<Rightarrow> string \<Rightarrow> json \<Rightarrow> tdb \<Rightarrow> repoerr option \<times> tdb" where
  "tasks_MarkTerminal i outcome out d =
     (let stamp1 = formatTime (tdCodec d) (tdNow d (tdCalls d)) in
      case task_update i (\<lambda>r. Inr (r\<lparr>trowStatus := outcome, trowOutput := out, trowUpdated := stamp1\<rparr>)) d of
        (Inl e, d') \<Rightarrow> (Some (''mark terminal '' @ i @ '': '' @ e), d')
      | (Inr res, d') \<Rightarrow> (errRowMissing ''mark terminal'' i res, d'))"

definition tasks_SaveAssignment :: "string \<Rightarrow> kind \<Rightarrow> placement \<Rightarrow> tdb \<Rightarrow> repoerr option \<times> tdb" where
  "tasks_SaveAssignment i kind p d =
     (case kind_Validate kind of
        Some _ \<Rightarrow> (Some (''assign placement of task '' @ i @ '': invalid kind''), d)
      | None \<Rightarrow>
     (case plMarshal (tdPlace d) p of
        Inl e \<Rightarrow> (Some (''assign '' @ kind @ '' placement of task '' @ i @ '': '' @ e), d)
      | Inr encoded \<Rightarrow>
     (let stamp1 = formatTime (tdCodec d) (tdNow d (tdCalls d)) in
      case task_update i (\<lambda>r.
             let raw = (if trowAssignments r = [] then ''{}'' else trowAssignments r)
             in case jsonSet (tdPlace d) raw kind encoded of
                  Inl e \<Rightarrow> Inl e
                | Inr raw' \<Rightarrow> Inr (r\<lparr>trowAssignments := raw', trowUpdated := stamp1\<rparr>)) d of
        (Inl e, d') \<Rightarrow> (Some (''assign '' @ kind @ '' placement of task '' @ i @ '': '' @ e), d')
      | (Inr (Inl e), d') \<Rightarrow> (Some (''assign '' @ kind @ '' placement of task '' @ i @ '': '' @ e), d')
      | (Inr (Inr n), d') \<Rightarrow>
          (if n = 0 then Some (''assign '' @ kind @ '' placement: task '' @ i @ '' does not exist'') else None, d'))))"

definition scanTask :: "place_codec \<Rightarrow> codec \<Rightarrow> task_row \<Rightarrow> task option" where
  "scanTask pc c r =
     (case decodeAssignments pc (trowAssignments r) of
        None \<Rightarrow> None
      | Some a \<Rightarrow>
     (case parseTime c (trowCreated r) of
        None \<Rightarrow> None
      | Some created \<Rightarrow>
     (case parseTime c (trowUpdated r) of
        None \<Rightarrow> None
      | Some updated \<Rightarrow>
          Some \<lparr>tID = trowID r, tWorkflowID = trowWorkflow r, tGroupID = trowGroup r, tAssignments = a,
                tState = trowState r, tSnapshot = trowSnapshot r, tStatus = trowStatus r,
                tOutput = trowOutput r, tCreatedAt = created, tUpdatedAt = updated\<rparr>)))"

definition tasks_RecoverTask :: "string \<Rightarrow> tdb \<Rightarrow> (repoerr + task) \<times> tdb" where
  "tasks_RecoverTask i d =
     (case task_query (\<lambda>d. get (tdRows d) i) d of
        (Inl e, d') \<Rightarrow> (Inl (''recover task '' @ i @ '': '' @ e), d')
      | (Inr None, d') \<Rightarrow> (Inl (''recover task '' @ i @ '': task not found''), d')
      | (Inr (Some r), d') \<Rightarrow>
          (case scanTask (tdPlace d) (tdCodec d) r of
             None \<Rightarrow> (Inl (''recover task '' @ i), d')
           | Some t \<Rightarrow> (Inr t, d')))"

text \<open>No order is asked for: the rows come in the order of the table.\<close>

definition tasks_RecoverAll :: "tdb \<Rightarrow> (repoerr + task list) \<times> tdb" where
  "tasks_RecoverAll d =
     (case task_query (\<lambda>d. map snd (tdRows d)) d of
        (Inl e, d') \<Rightarrow> (Inl (''recover all: '' @ e), d')
      | (Inr rs, d') \<Rightarrow> (scan_all (scanTask (tdPlace d) (tdCodec d)) ''recover all'' rs, d'))"

definition tasks_DeleteTask :: "string \<Rightarrow> tdb \<Rightarrow> repoerr option \<times> tdb" where
  "tasks_DeleteTask i d =
     (case task_exec (\<lambda>d. Inr (d\<lparr>tdRows := del i (tdRows d)\<rparr>)) d of
        (Some e, d') \<Rightarrow> (Some (''delete task '' @ i @ '': '' @ e), d')
      | (None, d') \<Rightarrow> (None, d'))"

section \<open>Groups\<close>

definition store_SaveGroup :: "tgroup \<Rightarrow> tdb \<Rightarrow> repoerr option \<times> tdb" where
  "store_SaveGroup g d =
     (let refs = formatMap (tdCodec d) (tgResourceGroups g);
          created = formatTime (tdCodec d) (tgCreatedAt g);
          updated = formatTime (tdCodec d) (tgUpdatedAt g)
      in case task_exec (\<lambda>d. Inr (d\<lparr>tdGroups := put (tgID g)
             (case get (tdGroups d) (tgID g) of
                None \<Rightarrow> \<lparr>tgrowID = tgID g, tgrowRefs = refs, tgrowCreated = created, tgrowUpdated = updated\<rparr>
              | Some old \<Rightarrow> old\<lparr>tgrowRefs := refs, tgrowUpdated := updated\<rparr>) (tdGroups d)\<rparr>)) d of
           (Some e, d') \<Rightarrow> (Some (''save task group '' @ tgID g @ '': '' @ e), d')
         | (None, d') \<Rightarrow> (None, d'))"

definition scanTaskGroup :: "codec \<Rightarrow> tgroup_row \<Rightarrow> tgroup option" where
  "scanTaskGroup c r =
     (case parseMap c (tgrowRefs r) of
        None \<Rightarrow> None
      | Some refs \<Rightarrow>
     (case parseTime c (tgrowCreated r) of
        None \<Rightarrow> None
      | Some created \<Rightarrow>
     (case parseTime c (tgrowUpdated r) of
        None \<Rightarrow> None
      | Some updated \<Rightarrow>
          Some \<lparr>tgID = tgrowID r, tgResourceGroups = refs, tgCreatedAt = created, tgUpdatedAt = updated\<rparr>)))"

text \<open>GetGroup: no row is no error.\<close>

definition store_GetGroup :: "string \<Rightarrow> tdb \<Rightarrow> (repoerr + tgroup option) \<times> tdb" where
  "store_GetGroup i d =
     (case task_query (\<lambda>d. get (tdGroups d) i) d of
        (Inl e, d') \<Rightarrow> (Inl (''get task group '' @ i @ '': '' @ e), d')
      | (Inr None, d') \<Rightarrow> (Inr None, d')
      | (Inr (Some r), d') \<Rightarrow>
          (case scanTaskGroup (tdCodec d) r of
             None \<Rightarrow> (Inl (''get task group '' @ i), d')
           | Some g \<Rightarrow> (Inr (Some g), d')))"

definition store_ListGroups :: "tdb \<Rightarrow> (repoerr + tgroup list) \<times> tdb" where
  "store_ListGroups d =
     (case task_query (\<lambda>d. sort_key tgrowID (map snd (tdGroups d))) d of
        (Inl e, d') \<Rightarrow> (Inl (''list task groups: '' @ e), d')
      | (Inr rs, d') \<Rightarrow> (scan_all (scanTaskGroup (tdCodec d)) ''list task groups'' rs, d'))"

definition store_DeleteGroup :: "string \<Rightarrow> tdb \<Rightarrow> repoerr option \<times> tdb" where
  "store_DeleteGroup i d =
     (case task_exec (\<lambda>d. Inr (d\<lparr>tdGroups := del i (tdGroups d)\<rparr>)) d of
        (Some e, d') \<Rightarrow> (Some (''delete task group '' @ i @ '': '' @ e), d')
      | (None, d') \<Rightarrow> (None, d'))"

definition store_TasksInGroup :: "string \<Rightarrow> tdb \<Rightarrow> (repoerr + string list) \<times> tdb" where
  "store_TasksInGroup gid d =
     (case task_query (\<lambda>d. sort (map trowID (filter (\<lambda>r. trowGroup r = gid) (map snd (tdRows d))))) d of
        (Inl e, d') \<Rightarrow> (Inl (''tasks in group '' @ gid @ '': '' @ e), d')
      | (Inr ids, d') \<Rightarrow> (Inr ids, d'))"

definition sqliteTasks :: "tdb trepo" where
  "sqliteTasks =
     \<lparr>trCreateTask = tasks_CreateTask, trRecoverTask = tasks_RecoverTask,
      trSaveAssignment = tasks_SaveAssignment, trRecoverAll = tasks_RecoverAll,
      trDeleteTask = tasks_DeleteTask, trSaveGroup = store_SaveGroup, trListGroups = store_ListGroups,
      trDeleteGroup = store_DeleteGroup, trTasksInGroup = store_TasksInGroup\<rparr>"

section \<open>The contract\<close>

definition td_sane :: "tdb \<Rightarrow> bool" where
  "td_sane d \<longleftrightarrow> codec_ok (tdCodec d) \<and> place_ok (tdPlace d) \<and> (\<forall>n. tdCountFault d n = None)
     \<and> wf_map (tdRows d) \<and> wf_map (tdGroups d)
     \<and> (\<forall>k r. get (tdRows d) k = Some r \<longrightarrow> trowID r = k \<and> scanTask (tdPlace d) (tdCodec d) r \<noteq> None)
     \<and> (\<forall>k r. get (tdGroups d) k = Some r \<longrightarrow> tgrowID r = k \<and> scanTaskGroup (tdCodec d) r \<noteq> None)"

definition td_rows :: "tdb \<Rightarrow> string \<Rightarrow> task option" where
  "td_rows d i = Option.bind (get (tdRows d) i) (scanTask (tdPlace d) (tdCodec d))"

definition td_grows :: "tdb \<Rightarrow> string \<Rightarrow> tgroup option" where
  "td_grows d i = Option.bind (get (tdGroups d) i) (scanTaskGroup (tdCodec d))"

abbreviation td_same :: "tdb \<Rightarrow> tdb \<Rightarrow> bool" where
  "td_same \<equiv> same_store td_rows td_grows td_sane"

lemma td_tick [simp]:
  "td_sane (d\<lparr>tdCalls := n\<rparr>) = td_sane d" "td_rows (d\<lparr>tdCalls := n\<rparr>) = td_rows d"
  "td_grows (d\<lparr>tdCalls := n\<rparr>) = td_grows d"
  by (simp_all add: td_sane_def td_rows_def td_grows_def fun_eq_iff)

lemma td_saneD:
  assumes "td_sane d"
  shows "codec_ok (tdCodec d)" "place_ok (tdPlace d)" "tdCountFault d n = None" "wf_map (tdRows d)" "wf_map (tdGroups d)"
    "get (tdRows d) k = Some r \<Longrightarrow> trowID r = k" "get (tdGroups d) k = Some g \<Longrightarrow> tgrowID g = k"
    "get (tdRows d) k = Some r \<Longrightarrow> \<exists>t. scanTask (tdPlace d) (tdCodec d) r = Some t"
    "get (tdGroups d) k = Some g \<Longrightarrow> \<exists>q. scanTaskGroup (tdCodec d) g = Some q"
  using assms by (auto simp: td_sane_def)

lemma td_put_row:
  assumes "td_sane d" "trowID r = i" "scanTask (tdPlace d) (tdCodec d) r = Some t"
  shows "td_sane (d\<lparr>tdRows := put i r (tdRows d)\<rparr>)" "td_rows (d\<lparr>tdRows := put i r (tdRows d)\<rparr>) = (td_rows d)(i \<mapsto> t)"
    "td_grows (d\<lparr>tdRows := put i r (tdRows d)\<rparr>) = td_grows d"
  using assms by (simp_all add: td_sane_def td_rows_def td_grows_def fun_eq_iff)

lemma td_del_row:
  assumes "td_sane d"
  shows "td_sane (d\<lparr>tdRows := del i (tdRows d)\<rparr>)" "td_rows (d\<lparr>tdRows := del i (tdRows d)\<rparr>) = (td_rows d)(i := None)"
    "td_grows (d\<lparr>tdRows := del i (tdRows d)\<rparr>) = td_grows d"
  using assms by (simp_all add: td_sane_def td_rows_def td_grows_def fun_eq_iff)

lemma td_put_group:
  assumes "td_sane d" "tgrowID r = i" "scanTaskGroup (tdCodec d) r = Some g"
  shows "td_sane (d\<lparr>tdGroups := put i r (tdGroups d)\<rparr>)" "td_rows (d\<lparr>tdGroups := put i r (tdGroups d)\<rparr>) = td_rows d"
    "td_grows (d\<lparr>tdGroups := put i r (tdGroups d)\<rparr>) = (td_grows d)(i \<mapsto> g)"
  using assms by (simp_all add: td_sane_def td_rows_def td_grows_def fun_eq_iff)

lemma td_del_group:
  assumes "td_sane d"
  shows "td_sane (d\<lparr>tdGroups := del i (tdGroups d)\<rparr>)" "td_rows (d\<lparr>tdGroups := del i (tdGroups d)\<rparr>) = td_rows d"
    "td_grows (d\<lparr>tdGroups := del i (tdGroups d)\<rparr>) = (td_grows d)(i := None)"
  using assms by (simp_all add: td_sane_def td_rows_def td_grows_def fun_eq_iff)

lemma scanTask_Some: "scanTask pc c r = Some t \<longleftrightarrow>
    decodeAssignments pc (trowAssignments r) = Some (tAssignments t) \<and>
    parseTime c (trowCreated r) = Some (tCreatedAt t) \<and> parseTime c (trowUpdated r) = Some (tUpdatedAt t) \<and>
    trowID r = tID t \<and> trowWorkflow r = tWorkflowID t \<and> trowGroup r = tGroupID t \<and> trowState r = tState t \<and>
    trowSnapshot r = tSnapshot t \<and> trowStatus r = tStatus t \<and> trowOutput r = tOutput t"
  by (cases t) (auto simp: scanTask_def split: option.splits)

lemma scanTaskGroup_Some: "scanTaskGroup c r = Some g \<longleftrightarrow>
    parseMap c (tgrowRefs r) = Some (tgResourceGroups g) \<and> parseTime c (tgrowCreated r) = Some (tgCreatedAt g) \<and>
    parseTime c (tgrowUpdated r) = Some (tgUpdatedAt g) \<and> tgrowID r = tgID g"
  by (cases g) (auto simp: scanTaskGroup_def split: option.splits)

lemma decode_encode: "place_ok pc \<Longrightarrow> encodeAssignments pc a = Inr raw \<Longrightarrow> decodeAssignments pc raw = Some a"
  by (auto simp: encodeAssignments_def decodeAssignments_def place_ok_def split: if_splits sum.splits)

lemma task_exec_cases:
  assumes "task_exec f d = (r, d')"
  obtains (failed) e where "r = Some e" "d' = d\<lparr>tdCalls := Suc (tdCalls d)\<rparr>"
  | (ran) "r = None" "f (d\<lparr>tdCalls := Suc (tdCalls d)\<rparr>) = Inr d'"
proof (cases r)
  case None
  with assms show thesis by (intro ran) (auto simp: task_exec_def Let_def split: option.splits sum.splits)
next
  case (Some e)
  with assms show thesis by (intro failed) (auto simp: task_exec_def Let_def split: option.splits sum.splits)
qed

lemma task_query_cases:
  assumes "task_query f d = (r, d')"
  obtains (failed) e where "r = Inl e" "d' = d\<lparr>tdCalls := Suc (tdCalls d)\<rparr>"
  | (ran) "d' = d\<lparr>tdCalls := Suc (tdCalls d)\<rparr>" "r = Inr (f d')"
  using assms by (auto simp: task_query_def Let_def split: option.splits)

text \<open>An update that reads its row back in a known way.\<close>

lemma task_update_cases:
  assumes run: "task_update i f d = (res, d')" and sane: "td_sane d"
  obtains (failed) e where "res = Inl e" "d' = d\<lparr>tdCalls := Suc (tdCalls d)\<rparr>"
      "tdFault d (tdCalls d) \<noteq> None \<or> (\<exists>r. f r = Inl e)"
  | (missing) "res = Inr (Inr 0)" "d' = d\<lparr>tdCalls := Suc (tdCalls d)\<rparr>" "get (tdRows d) i = None" "tdFault d (tdCalls d) = None"
  | (updated) r r' where "tdFault d (tdCalls d) = None" "res = Inr (Inr 1)" "get (tdRows d) i = Some r" "f r = Inr r'"
      "d' = d\<lparr>tdCalls := Suc (tdCalls d), tdRows := put i r' (tdRows d)\<rparr>"
  using run td_saneD(3) [OF sane, of "tdCalls d"]
  by (auto simp: task_update_def task_exec_def Let_def split: option.splits sum.splits)

text \<open>The two writes of a run are the engine's operations on the row.\<close>

lemma SaveCheckpoint_row:
  assumes sane: "td_sane d" and run: "tasks_SaveCheckpoint i status st snap d = (err, d')"
  shows "td_sane d' \<and> td_grows d' = td_grows d \<and>
    (\<exists>fault x row. (fault = None \<longleftrightarrow> tdFault d (tdCalls d) = None) \<and> SaveCheckpoint (tdNow d (tdCalls d)) status st snap fault (td_rows d i) = (x, row)
      \<and> (err = None \<longleftrightarrow> x = None) \<and> td_rows d' = (td_rows d)(i := row))"
proof -
  let ?up = "formatTime (tdCodec d) (tdNow d (tdCalls d))"
  let ?f = "\<lambda>r. Inr (r\<lparr>trowStatus := status, trowState := st, trowSnapshot := snap, trowUpdated := ?up\<rparr>)"
  obtain res d1 where u: "task_update i ?f d = (res, d1)" by fastforce
  from run u have e: "d' = d1" "err = (case res of Inl e \<Rightarrow> Some (''save checkpoint '' @ i @ '': '' @ e)
      | Inr res \<Rightarrow> errRowMissing ''save checkpoint'' i res)"
    by (auto simp: tasks_SaveCheckpoint_def Let_def split: sum.splits)
  from u sane show ?thesis
  proof (cases rule: task_update_cases)
    case (failed x)
    then show ?thesis using sane e
      by (intro conjI, simp, simp, intro exI [of _ "Some ErrAlreadyStarted"] exI) (auto simp: SaveCheckpoint_def)
  next
    case missing
    then have "td_rows d i = None" by (simp add: td_rows_def)
    then show ?thesis using sane e missing
      by (intro conjI, simp, simp, intro exI [of _ "None :: task_error option"] exI) (auto simp: SaveCheckpoint_def errRowMissing_def fun_eq_iff)
  next
    case (updated r r')
    obtain t where t: "scanTask (tdPlace d) (tdCodec d) r = Some t" using td_saneD(8) [OF sane updated(3)] by blast
    let ?t = "t\<lparr>tStatus := status, tState := st, tSnapshot := snap, tUpdatedAt := tdNow d (tdCalls d)\<rparr>"
    have r': "r' = r\<lparr>trowStatus := status, trowState := st, trowSnapshot := snap, trowUpdated := ?up\<rparr>" using updated(4) by simp
    have "scanTask (tdPlace d) (tdCodec d) r' = Some ?t"
      using t td_saneD(1) [OF sane] by (simp add: scanTask_Some r')
    moreover have "trowID r' = i" using td_saneD(6) [OF sane updated(3)] by (simp add: r')
    ultimately have p: "td_sane d1" "td_rows d1 = (td_rows d)(i \<mapsto> ?t)" "td_grows d1 = td_grows d"
      using td_put_row [of "d\<lparr>tdCalls := Suc (tdCalls d)\<rparr>" r' i ?t] sane updated(5) by simp_all
    have "td_rows d i = Some t" using updated(3) t by (simp add: td_rows_def)
    then show ?thesis using p e updated(1,2)
      by (intro conjI, simp, simp, intro exI [of _ "None :: task_error option"] exI) (auto simp: SaveCheckpoint_def errRowMissing_def)
  qed
qed

lemma MarkTerminal_row:
  assumes sane: "td_sane d" and run: "tasks_MarkTerminal i outcome out d = (err, d')"
  shows "td_sane d' \<and> td_grows d' = td_grows d \<and>
    (\<exists>fault x row. (fault = None \<longleftrightarrow> tdFault d (tdCalls d) = None) \<and> MarkTerminal (tdNow d (tdCalls d)) outcome out fault (td_rows d i) = (x, row)
      \<and> (err = None \<longleftrightarrow> x = None) \<and> td_rows d' = (td_rows d)(i := row))"
proof -
  let ?up = "formatTime (tdCodec d) (tdNow d (tdCalls d))"
  let ?f = "\<lambda>r. Inr (r\<lparr>trowStatus := outcome, trowOutput := out, trowUpdated := ?up\<rparr>)"
  obtain res d1 where u: "task_update i ?f d = (res, d1)" by fastforce
  from run u have e: "d' = d1" "err = (case res of Inl e \<Rightarrow> Some (''mark terminal '' @ i @ '': '' @ e)
      | Inr res \<Rightarrow> errRowMissing ''mark terminal'' i res)"
    by (auto simp: tasks_MarkTerminal_def Let_def split: sum.splits)
  from u sane show ?thesis
  proof (cases rule: task_update_cases)
    case (failed x)
    then show ?thesis using sane e
      by (intro conjI, simp, simp, intro exI [of _ "Some ErrAlreadyStarted"] exI) (auto simp: MarkTerminal_def)
  next
    case missing
    then have "td_rows d i = None" by (simp add: td_rows_def)
    then show ?thesis using sane e missing
      by (intro conjI, simp, simp, intro exI [of _ "None :: task_error option"] exI) (auto simp: MarkTerminal_def errRowMissing_def fun_eq_iff)
  next
    case (updated r r')
    obtain t where t: "scanTask (tdPlace d) (tdCodec d) r = Some t" using td_saneD(8) [OF sane updated(3)] by blast
    let ?t = "t\<lparr>tStatus := outcome, tOutput := out, tUpdatedAt := tdNow d (tdCalls d)\<rparr>"
    have r': "r' = r\<lparr>trowStatus := outcome, trowOutput := out, trowUpdated := ?up\<rparr>" using updated(4) by simp
    have "scanTask (tdPlace d) (tdCodec d) r' = Some ?t"
      using t td_saneD(1) [OF sane] by (simp add: scanTask_Some r')
    moreover have "trowID r' = i" using td_saneD(6) [OF sane updated(3)] by (simp add: r')
    ultimately have p: "td_sane d1" "td_rows d1 = (td_rows d)(i \<mapsto> ?t)" "td_grows d1 = td_grows d"
      using td_put_row [of "d\<lparr>tdCalls := Suc (tdCalls d)\<rparr>" r' i ?t] sane updated(5) by simp_all
    have "td_rows d i = Some t" using updated(3) t by (simp add: td_rows_def)
    then show ?thesis using p e updated(1,2)
      by (intro conjI, simp, simp, intro exI [of _ "None :: task_error option"] exI) (auto simp: MarkTerminal_def errRowMissing_def)
  qed
qed

text \<open>One kind of the placement is rewritten, and nothing else.\<close>

lemma SaveAssignment_row:
  assumes sane: "td_sane d" and run: "tasks_SaveAssignment i kind p d = (None, d')"
  shows "td_sane d' \<and> td_grows d' = td_grows d \<and> (\<exists>q b now. td_rows d i = Some q
    \<and> get b = (get (tAssignments q))(kind \<mapsto> p) \<and> td_rows d' = (td_rows d)(i \<mapsto> q\<lparr>tAssignments := b, tUpdatedAt := now\<rparr>))"
proof -
  let ?now = "tdNow d (tdCalls d)"
  let ?up = "formatTime (tdCodec d) ?now"
  from run have k: "kind_Validate kind = None" by (auto simp: tasks_SaveAssignment_def split: option.splits)
  obtain enc where enc: "plMarshal (tdPlace d) p = Inr enc" using run k by (auto simp: tasks_SaveAssignment_def split: sum.splits)
  let ?f = "\<lambda>r. let raw = (if trowAssignments r = [] then ''{}'' else trowAssignments r)
             in case jsonSet (tdPlace d) raw kind enc of
                  Inl e \<Rightarrow> Inl e
                | Inr raw' \<Rightarrow> Inr (r\<lparr>trowAssignments := raw', trowUpdated := ?up\<rparr>)"
  obtain res d1 where u: "task_update i ?f d = (res, d1)" by fastforce
  from run k enc u have e: "d' = d1" "\<exists>n. res = Inr (Inr n) \<and> n \<noteq> 0"
    by (auto simp: tasks_SaveAssignment_def Let_def split: sum.splits if_splits)
  from u sane show ?thesis
  proof (cases rule: task_update_cases)
    case (updated r r')
    obtain t where t: "scanTask (tdPlace d) (tdCodec d) r = Some t" using td_saneD(8) [OF sane updated(3)] by blast
    let ?raw = "if trowAssignments r = [] then ''{}'' else trowAssignments r"
    obtain raw' where j: "jsonSet (tdPlace d) ?raw kind enc = Inr raw'"
      and r': "r' = r\<lparr>trowAssignments := raw', trowUpdated := ?up\<rparr>"
      using updated(4) by (auto simp: Let_def split: sum.splits)
    have po: "place_ok (tdPlace d)" using td_saneD(2) [OF sane] .
    have "asgUnmarshal (tdPlace d) ?raw = Some (tAssignments t)"
      using t po by (auto simp: scanTask_Some decodeAssignments_def place_ok_def split: if_splits)
    then obtain b where b: "raw' \<noteq> []" "asgUnmarshal (tdPlace d) raw' = Some b" "get b = (get (tAssignments t))(kind \<mapsto> p)"
      using po k enc j unfolding place_ok_def by blast
    let ?t = "t\<lparr>tAssignments := b, tUpdatedAt := ?now\<rparr>"
    have "scanTask (tdPlace d) (tdCodec d) r' = Some ?t"
      using t b td_saneD(1) [OF sane] by (simp add: scanTask_Some r' decodeAssignments_def)
    moreover have "trowID r' = i" using td_saneD(6) [OF sane updated(3)] by (simp add: r')
    ultimately have q: "td_sane d1" "td_rows d1 = (td_rows d)(i \<mapsto> ?t)" "td_grows d1 = td_grows d"
      using td_put_row [of "d\<lparr>tdCalls := Suc (tdCalls d)\<rparr>" r' i ?t] sane updated(5) by simp_all
    have "td_rows d i = Some t" using updated(3) t by (simp add: td_rows_def)
    with q b(3) e(1) show ?thesis by blast
  qed (use e in auto)
qed

lemma SaveAssignment_failed:
  assumes sane: "td_sane d" and run: "tasks_SaveAssignment i kind p d = (Some x, d')"
  shows "td_same d d'"
proof -
  have u: "td_same d d1" if "task_update i f d = (res, d1)" "\<forall>n. res = Inr (Inr n) \<longrightarrow> n = 0" for f res d1
    using that(1) sane by (cases rule: task_update_cases) (use that(2) sane in \<open>auto simp: same_store_def\<close>)
  from run sane show ?thesis
    by (auto simp: tasks_SaveAssignment_def Let_def same_store_def
        split: option.splits sum.splits prod.splits if_splits dest!: u [unfolded same_store_def])
qed

lemma CreateTask_row:
  assumes sane: "td_sane d" and run: "tasks_CreateTask t d = (None, d')"
  shows "td_sane d' \<and> td_rows d (tID t) = None \<and> td_rows d' = (td_rows d)(tID t \<mapsto> unstarted t) \<and> td_grows d' = td_grows d"
proof -
  obtain raw where raw: "encodeAssignments (tdPlace d) (tAssignments t) = Inr raw"
    using run by (auto simp: tasks_CreateTask_def split: sum.splits)
  let ?r = "\<lparr>trowID = tID t, trowWorkflow = tWorkflowID t, trowGroup = tGroupID t,
      trowAssignments = raw, trowState = [], trowStatus = [], trowSnapshot = [], trowOutput = [],
      trowCreated = formatTime (tdCodec d) (tCreatedAt t), trowUpdated = formatTime (tdCodec d) (tUpdatedAt t)\<rparr>"
  have d': "get (tdRows d) (tID t) = None" "d' = d\<lparr>tdCalls := Suc (tdCalls d), tdRows := put (tID t) ?r (tdRows d)\<rparr>"
    using run raw by (auto simp: tasks_CreateTask_def task_exec_def Let_def split: option.splits if_splits)
  have "scanTask (tdPlace d) (tdCodec d) ?r = Some (unstarted t)"
    using decode_encode [OF td_saneD(2) [OF sane] raw] td_saneD(1) [OF sane] by (simp add: scanTask_Some unstarted_def)
  then show ?thesis
    using td_put_row [of "d\<lparr>tdCalls := Suc (tdCalls d)\<rparr>" ?r "tID t" "unstarted t"] sane d' by (simp add: td_rows_def)
qed

lemma SaveGroup_row:
  assumes sane: "td_sane d" and run: "store_SaveGroup g d = (None, d')"
  shows "td_sane d' \<and> td_rows d' = td_rows d \<and> td_grows d' = (td_grows d)(tgID g \<mapsto> kept_tgroup (td_grows d (tgID g)) g)"
proof -
  let ?c = "tdCodec d"
  define r where "r = (case get (tdGroups d) (tgID g) of
                None \<Rightarrow> \<lparr>tgrowID = tgID g, tgrowRefs = formatMap ?c (tgResourceGroups g),
                  tgrowCreated = formatTime ?c (tgCreatedAt g), tgrowUpdated = formatTime ?c (tgUpdatedAt g)\<rparr>
              | Some old \<Rightarrow> old\<lparr>tgrowRefs := formatMap ?c (tgResourceGroups g), tgrowUpdated := formatTime ?c (tgUpdatedAt g)\<rparr>)"
  have d': "d' = d\<lparr>tdCalls := Suc (tdCalls d), tdGroups := put (tgID g) r (tdGroups d)\<rparr>"
    using run by (auto simp: store_SaveGroup_def task_exec_def Let_def r_def split: option.splits)
  have c: "codec_ok ?c" using td_saneD(1) [OF sane] .
  have r: "scanTaskGroup ?c r = Some (kept_tgroup (td_grows d (tgID g)) g)" "tgrowID r = tgID g"
  proof (atomize (full), cases "get (tdGroups d) (tgID g)")
    case None
    then show "scanTaskGroup ?c r = Some (kept_tgroup (td_grows d (tgID g)) g) \<and> tgrowID r = tgID g"
      using c by (simp add: r_def scanTaskGroup_Some kept_tgroup_def td_grows_def)
  next
    case (Some old)
    obtain q where q: "scanTaskGroup ?c old = Some q" using td_saneD(9) [OF sane Some] by blast
    have i: "tgrowID old = tgID g" using td_saneD(7) [OF sane Some] .
    have q2: "td_grows d (tgID g) = Some q" using Some q by (simp add: td_grows_def)
    show "scanTaskGroup ?c r = Some (kept_tgroup (td_grows d (tgID g)) g) \<and> tgrowID r = tgID g"
      using c Some q i unfolding q2 by (simp add: r_def scanTaskGroup_Some kept_tgroup_def)
  qed
  show ?thesis
    using td_put_group [of "d\<lparr>tdCalls := Suc (tdCalls d)\<rparr>" r "tgID g"] sane r by (simp add: d')
qed

text \<open>A listing of a table reads every row once.\<close>

lemma scanned_rows:
  fixes rid :: "'r \<Rightarrow> string" and vid :: "'v \<Rightarrow> string"
  assumes wf: "wf_map t" and key: "\<And>k r. get t k = Some r \<Longrightarrow> rid r = k"
    and read: "\<And>r v. scan r = Some v \<Longrightarrow> vid v = rid r" and all: "scan_all scan err (map snd t) = Inr vs"
  shows "distinct (map vid vs) \<and> (\<forall>k v. Option.bind (get t k) scan = Some v \<longleftrightarrow> v \<in> set vs \<and> vid v = k)"
proof -
  have vs: "map scan (map snd t) = map Some vs" using all by (simp add: scan_all_Inr)
  obtain ws where ws: "scan_all scan err (sort_key rid (map snd t)) = Inr ws"
  proof -
    have "\<forall>r \<in> set (sort_key rid (map snd t)). scan r \<noteq> None"
    proof
      fix r assume "r \<in> set (sort_key rid (map snd t))"
      then have "scan r \<in> set (map scan (map snd t))" by auto
      then show "scan r \<noteq> None" unfolding vs by auto
    qed
    then show thesis using that scan_all_total by blast
  qed
  have w: "map scan (sort_key rid (map snd t)) = map Some ws" using ws by (simp add: scan_all_Inr)
  have same: "mset (map Some vs) = mset (map Some ws)" unfolding vs [symmetric] w [symmetric] by (simp only: mset_map mset_sort)
  then have "image_mset the (mset (map Some vs)) = image_mset the (mset (map Some ws))" by simp
  then have m: "mset vs = mset ws" by (simp add: multiset.map_comp comp_def)
  have "mset (map vid vs) = mset (map vid ws)" using m by simp
  then have d: "distinct (map vid vs) = distinct (map vid ws)" "set vs = set ws"
    using m by (metis mset_eq_imp_distinct_iff, metis mset_eq_setD)
  show ?thesis using scanned_table [OF wf key read ws] d by simp
qed

interpretation tds: task_store sqliteTasks td_rows td_grows td_sane
proof
  fix s s' :: tdb and t i k p x ts g gs ids gid
  note [simp] = sqliteTasks_def
  show "td_grows s gid = Some g \<Longrightarrow> tgID g = gid" if "td_sane s"
    using td_saneD(7) [OF that, of gid] by (auto simp: td_grows_def bind_eq_Some_conv scanTaskGroup_Some)
  show "td_sane s' \<and> td_rows s (tID t) = None \<and> td_rows s' = (td_rows s)(tID t \<mapsto> unstarted t) \<and> td_grows s' = td_grows s"
    if "td_sane s" "trCreateTask sqliteTasks t s = (None, s')"
    using CreateTask_row [OF that(1)] that(2) by simp
  show "td_same s s'" if "td_sane s" "trCreateTask sqliteTasks t s = (Some x, s')"
    using that by (auto simp: tasks_CreateTask_def same_store_def split: sum.splits prod.splits option.splits
        elim!: task_exec_cases)
  show "td_sane s' \<and> td_grows s' = td_grows s \<and> (\<exists>q b now. td_rows s i = Some q
      \<and> get b = (get (tAssignments q))(k \<mapsto> p) \<and> td_rows s' = (td_rows s)(i \<mapsto> q\<lparr>tAssignments := b, tUpdatedAt := now\<rparr>))"
    if "td_sane s" "trSaveAssignment sqliteTasks i k p s = (None, s')"
    using SaveAssignment_row [OF that(1)] that(2) by simp
  show "td_same s s'" if "td_sane s" "trSaveAssignment sqliteTasks i k p s = (Some x, s')"
    using SaveAssignment_failed [OF that(1)] that(2) by simp
  show "td_same s s' \<and> td_rows s i = Some t" if "td_sane s" "trRecoverTask sqliteTasks i s = (Inr t, s')"
    using that by (auto simp: tasks_RecoverTask_def same_store_def td_rows_def split: sum.splits option.splits prod.splits
        elim!: task_query_cases dest!: sym [of "Some _" "get (tdRows s) i"])
  show "td_same s s'" if "td_sane s" "trRecoverTask sqliteTasks i s = (Inl x, s')"
    using that by (auto simp: tasks_RecoverTask_def same_store_def split: sum.splits option.splits prod.splits
        elim!: task_query_cases)
  show "td_same s s' \<and> distinct (map tID ts) \<and> (\<forall>i t. td_rows s i = Some t \<longleftrightarrow> t \<in> set ts \<and> tID t = i)"
    if sane: "td_sane s" and run: "trRecoverAll sqliteTasks s = (Inr ts, s')"
  proof -
    have r: "s' = s\<lparr>tdCalls := Suc (tdCalls s)\<rparr>"
      and all: "scan_all (scanTask (tdPlace s) (tdCodec s)) ''recover all'' (map snd (tdRows s)) = Inr ts"
      using run by (auto simp: tasks_RecoverAll_def split: sum.splits prod.splits elim!: task_query_cases)
    have "distinct (map tID ts) \<and> (\<forall>k v. td_rows s k = Some v \<longleftrightarrow> v \<in> set ts \<and> tID v = k)"
      unfolding td_rows_def
      by (rule scanned_rows [OF td_saneD(4,6) [OF sane] _ all]) (auto simp: scanTask_Some)
    with sane show ?thesis by (simp add: r same_store_def)
  qed
  show "td_same s s'" if "td_sane s" "trRecoverAll sqliteTasks s = (Inl x, s')"
    using that by (auto simp: tasks_RecoverAll_def same_store_def split: sum.splits prod.splits elim!: task_query_cases)
  show "td_sane s' \<and> td_rows s' = (td_rows s)(i := None) \<and> td_grows s' = td_grows s"
    if "td_sane s" "trDeleteTask sqliteTasks i s = (None, s')"
    using that td_del_row [of "s\<lparr>tdCalls := Suc (tdCalls s)\<rparr>" i]
    by (auto simp: tasks_DeleteTask_def split: option.splits prod.splits elim!: task_exec_cases)
  show "td_same s s'" if "td_sane s" "trDeleteTask sqliteTasks i s = (Some x, s')"
    using that by (auto simp: tasks_DeleteTask_def same_store_def split: option.splits prod.splits elim!: task_exec_cases)
  show "td_sane s' \<and> td_rows s' = td_rows s \<and> td_grows s' = (td_grows s)(tgID g \<mapsto> kept_tgroup (td_grows s (tgID g)) g)"
    if "td_sane s" "trSaveGroup sqliteTasks g s = (None, s')"
    using SaveGroup_row [OF that(1)] that(2) by simp
  show "td_same s s'" if "td_sane s" "trSaveGroup sqliteTasks g s = (Some x, s')"
    using that by (auto simp: store_SaveGroup_def Let_def same_store_def split: option.splits prod.splits elim!: task_exec_cases)
  show "td_same s s' \<and> distinct (map tgID gs) \<and> (\<forall>i g. td_grows s i = Some g \<longleftrightarrow> g \<in> set gs \<and> tgID g = i)"
    if sane: "td_sane s" and run: "trListGroups sqliteTasks s = (Inr gs, s')"
  proof -
    have r: "s' = s\<lparr>tdCalls := Suc (tdCalls s)\<rparr>"
      and all: "scan_all (scanTaskGroup (tdCodec s)) ''list task groups'' (sort_key tgrowID (map snd (tdGroups s))) = Inr gs"
      using run by (auto simp: store_ListGroups_def split: sum.splits prod.splits elim!: task_query_cases)
    have "distinct (map tgID gs) \<and> (\<forall>k v. td_grows s k = Some v \<longleftrightarrow> v \<in> set gs \<and> tgID v = k)"
      unfolding td_grows_def
      by (rule scanned_table [OF td_saneD(5,7) [OF sane] _ all]) (auto simp: scanTaskGroup_Some)
    with sane show ?thesis by (simp add: r same_store_def)
  qed
  show "td_sane s' \<and> td_rows s' = td_rows s \<and> td_grows s' = (td_grows s)(i := None)"
    if "td_sane s" "trDeleteGroup sqliteTasks i s = (None, s')"
    using that td_del_group [of "s\<lparr>tdCalls := Suc (tdCalls s)\<rparr>" i]
    by (auto simp: store_DeleteGroup_def split: option.splits prod.splits elim!: task_exec_cases)
  show "td_same s s'" if "td_sane s" "trDeleteGroup sqliteTasks i s = (Some x, s')"
    using that by (auto simp: store_DeleteGroup_def same_store_def split: option.splits prod.splits elim!: task_exec_cases)
  show "td_same s s' \<and> sorted ids \<and> distinct ids \<and> set ids = {j. \<exists>t. td_rows s j = Some t \<and> tGroupID t = i}"
    if sane: "td_sane s" and run: "trTasksInGroup sqliteTasks i s = (Inr ids, s')"
  proof -
    let ?rs = "filter (\<lambda>r. trowGroup r = i) (map snd (tdRows s))"
    have r: "s' = s\<lparr>tdCalls := Suc (tdCalls s)\<rparr>" and ids: "ids = sort (map trowID ?rs)"
      using run by (auto simp: store_TasksInGroup_def split: sum.splits prod.splits elim!: task_query_cases)
    note d = td_saneD [OF sane]
    have keys: "map trowID (map snd (tdRows s)) = map fst (tdRows s)"
      using get_in_set [OF d(4)] d(6) by (auto simp: map_map intro!: map_cong)
    have dist: "distinct (map trowID (map snd (tdRows s)))" using d(4) by (simp only: keys)
    have dd: "distinct ids" unfolding ids using distinct_map_filter [OF dist] by simp
    have "j \<in> set ids \<longleftrightarrow> (\<exists>t. td_rows s j = Some t \<and> tGroupID t = i)" for j
    proof
      assume "j \<in> set ids"
      then obtain k r where k: "(k, r) \<in> set (tdRows s)" "trowGroup r = i" "trowID r = j" by (auto simp: ids)
      then have g: "get (tdRows s) j = Some r" using get_in_set [OF d(4), of k r] d(6) [of k r] by simp
      then obtain t where "scanTask (tdPlace s) (tdCodec s) r = Some t" using d(8) by blast
      moreover from this have "tGroupID t = i" using k(2) by (simp add: scanTask_Some)
      ultimately show "\<exists>t. td_rows s j = Some t \<and> tGroupID t = i" using g by (simp add: td_rows_def)
    next
      assume "\<exists>t. td_rows s j = Some t \<and> tGroupID t = i"
      then obtain r where "get (tdRows s) j = Some r" "trowGroup r = i"
        by (auto simp: td_rows_def bind_eq_Some_conv scanTask_Some)
      with get_in_set [OF d(4), of j r] d(6) [of j r] show "j \<in> set ids" by (force simp: ids)
    qed
    then have "set ids = {j. \<exists>t. td_rows s j = Some t \<and> tGroupID t = i}" by blast
    with dd sane show ?thesis by (simp add: r same_store_def ids)
  qed
  show "td_same s s'" if "td_sane s" "trTasksInGroup sqliteTasks i s = (Inl x, s')"
    using that by (auto simp: store_TasksInGroup_def same_store_def split: sum.splits prod.splits elim!: task_query_cases)
qed

end
