(* ===== verification/Tasks_Recovery.thy ===== *)
theory Tasks_Recovery
  imports Sqlite_Tasks
begin

text \<open>
  The tasks manager on its SQLite store: the process as the operations of the manager, the engines' own
  writes to their rows and the moves of the handles in any order; what of it survives a restart; and what
  each write of a run or of a placement does to the table.
\<close>

section \<open>A process on the store\<close>

inductive tdb_step :: "'r rmops \<Rightarrow> ('i, 'x, tdb, 'r) tmgr \<Rightarrow> ('i, 'x, tdb, 'r) tmgr \<Rightarrow> bool" for ops where
  register: "RegisterWorkflow i flow m = (e, m') \<Longrightarrow> tdb_step ops m m'"
| create: "CreateTask newID now w input cs m = (res, m') \<Longrightarrow> tdb_step ops m m'"
| recover: "RecoverTask i m = (res, m') \<Longrightarrow> tdb_step ops m m'"
| recover_all: "RecoverAll m = (all_res, m') \<Longrightarrow> tdb_step ops m m'"
| assign: "AssignResource ops now i kind p m = (e, m') \<Longrightarrow> tdb_step ops m m'"
| delete: "DeleteTask ops now i m = (e, m') \<Longrightarrow> tdb_step ops m m'"
| create_group: "tasks_CreateGroup now g m = (e, m') \<Longrightarrow> tdb_step ops m m'"
| update_group: "tasks_UpdateGroup now i fn m = (e, m') \<Longrightarrow> (\<And>g. snd (fn g) = tgResourceGroups g) \<Longrightarrow> tdb_step ops m m'"
| delete_group: "tasks_DeleteGroup ops now i m = (e, m') \<Longrightarrow> tdb_step ops m m'"
| members: "TasksInGroup i m = (ids, m') \<Longrightarrow> tdb_step ops m m'"
| run: "tdb_step ops m (set_engine a f m)"
| checkpointed: "tasks_SaveCheckpoint i status st snap (tmStore m) = (err, d') \<Longrightarrow> tdb_step ops m (m\<lparr>tmStore := d'\<rparr>)"
| stamped: "tasks_MarkTerminal i status out (tmStore m) = (err, d') \<Longrightarrow> tdb_step ops m (m\<lparr>tmStore := d'\<rparr>)"

text \<open>A write of a run leaves the origin of its row.\<close>

lemma run_write_kept:
  assumes m: "tds.tm_kept m" and d: "td_sane d'" "td_grows d' = td_grows (tmStore m)"
    and row: "td_rows d' = (td_rows (tmStore m))(i := row)"
      "\<And>q. td_rows (tmStore m) i = Some q \<Longrightarrow> \<exists>q'. row = Some q' \<and> same_origin q q'"
  shows "tds.tm_kept (m\<lparr>tmStore := d'\<rparr>)"
proof -
  note k = tm_storedD [OF m]
  have "handles_stored (td_rows d') m"
    using k(5) by (rule handles_stored_grows) (use row in \<open>auto simp: same_origin_def\<close>)
  then show ?thesis using k d by (simp add: tm_stored_def)
qed

lemma run_write_origin:
  "SaveCheckpoint now status st snap fault (Some q) = (x, row) \<Longrightarrow> \<exists>q'. row = Some q' \<and> same_origin q q'"
  "MarkTerminal now status out fault (Some q) = (x, row) \<Longrightarrow> \<exists>q'. row = Some q' \<and> same_origin q q'"
  by (auto simp: SaveCheckpoint_def MarkTerminal_def same_origin_def split: option.splits)

lemma tdb_step_kept: "tdb_step ops m m' \<Longrightarrow> tds.tm_kept m \<Longrightarrow> tds.tm_kept m'"
proof (induction rule: tdb_step.induct)
  case (checkpointed i status st snap m err d')
  note d = tm_storedD [OF checkpointed(2)]
  from SaveCheckpoint_row [OF d(3) checkpointed(1)] obtain now fault x row where w: "td_sane d'" "td_grows d' = td_grows (tmStore m)"
    "SaveCheckpoint now status st snap fault (td_rows (tmStore m) i) = (x, row)" "td_rows d' = (td_rows (tmStore m))(i := row)"
    by blast
  show ?case
    by (rule run_write_kept [OF checkpointed(2) w(1,2,4)]) (use w(3) run_write_origin(1) in simp)
next
  case (stamped i status out m err d')
  note d = tm_storedD [OF stamped(2)]
  from MarkTerminal_row [OF d(3) stamped(1)] obtain now fault x row where w: "td_sane d'" "td_grows d' = td_grows (tmStore m)"
    "MarkTerminal now status out fault (td_rows (tmStore m) i) = (x, row)" "td_rows d' = (td_rows (tmStore m))(i := row)"
    by blast
  show ?case
    by (rule run_write_kept [OF stamped(2) w(1,2,4)]) (use w(3) run_write_origin(2) in simp)
next
  case register
  from tds.Register_kept [OF register(2,1)] show ?case .
next
  case create
  from tds.Create_kept [OF create(2,1)] show ?case .
next
  case recover
  from tds.Recover_kept [OF recover(2,1)] show ?case .
next
  case recover_all
  from tds.RecoverAll_kept [OF recover_all(2,1)] show ?case .
next
  case assign
  from tds.Assign_kept [OF assign(2,1)] show ?case .
next
  case delete
  from tds.Delete_kept [OF delete(2,1)] show ?case .
next
  case create_group
  from tds.CreateGroup_kept [OF create_group(2,1)] show ?case .
next
  case delete_group
  from tds.DeleteGroup_kept [OF delete_group(2,1)] show ?case .
next
  case members
  from tds.Members_kept [OF members(2,1)] show ?case .
next
  case update_group
  from tds.UpdateGroup_kept [OF update_group(3,1,2)] show ?case .
next
  case run
  from tds.set_engine_kept [OF run] show ?case .
qed

lemma tdb_steps_kept: "(tdb_step ops)\<^sup>*\<^sup>* m m' \<Longrightarrow> tds.tm_kept m \<Longrightarrow> tds.tm_kept m'"
  by (induction rule: rtranclp_induct) (auto intro: tdb_step_kept)

section \<open>Writes of a run and of a placement\<close>

text \<open>The store does to its table what the engine believes of its row. A checkpoint or a terminal stamp
  changes the row of its task exactly as the engine's own model of the row has it, with the error the
  engine sees, fails on a row that is gone, and leaves every other row and every group alone.\<close>

theorem runs_write_their_rows:
  assumes "td_sane d"
    "tasks_SaveCheckpoint i status st snap d = (err, d1)" "tasks_MarkTerminal j outcome out d = (err2, d2)"
  shows "(\<exists>fault x row. (fault = None \<longleftrightarrow> tdFault d (tdCalls d) = None)
      \<and> SaveCheckpoint (tdNow d (tdCalls d)) status st snap fault (td_rows d i) = (x, row)
      \<and> (err = None \<longleftrightarrow> x = None) \<and> td_rows d1 = (td_rows d)(i := row))
    \<and> (\<exists>fault x row. (fault = None \<longleftrightarrow> tdFault d (tdCalls d) = None)
      \<and> MarkTerminal (tdNow d (tdCalls d)) outcome out fault (td_rows d j) = (x, row)
      \<and> (err2 = None \<longleftrightarrow> x = None) \<and> td_rows d2 = (td_rows d)(j := row))
    \<and> td_sane d1 \<and> td_grows d1 = td_grows d \<and> td_sane d2 \<and> td_grows d2 = td_grows d"
  using SaveCheckpoint_row [OF assms(1,2)] MarkTerminal_row [OF assms(1,3)] by simp

text \<open>Repointing a placement rewrites one kind. A SaveAssignment that reports no error leaves the other
  kinds, the rest of the row and every other row as they were; one that reports an error has written
  nothing; and a kind that is no plain name is refused before the database is touched.\<close>

theorem assignment_edits_one_kind:
  assumes "td_sane d" "tasks_SaveAssignment i kind p d = (err, d')"
  shows "(err = None \<longrightarrow> (\<exists>q b now. td_rows d i = Some q \<and> get b = (get (tAssignments q))(kind \<mapsto> p)
        \<and> td_rows d' = (td_rows d)(i \<mapsto> q\<lparr>tAssignments := b, tUpdatedAt := now\<rparr>)))
    \<and> (err \<noteq> None \<longrightarrow> td_rows d' = td_rows d) \<and> td_sane d' \<and> td_grows d' = td_grows d
    \<and> (kind_Validate kind \<noteq> None \<longrightarrow> err \<noteq> None \<and> d' = d)"
proof -
  have "kind_Validate kind \<noteq> None \<longrightarrow> err \<noteq> None \<and> d' = d"
    using assms(2) by (auto simp: tasks_SaveAssignment_def)
  then show ?thesis
    using SaveAssignment_row [OF assms(1)] SaveAssignment_failed [OF assms(1)] assms(2)
    by (cases err) (auto simp: same_store_def)
qed

section \<open>Restarting\<close>

text \<open>A listing of groups that all read back fails only when its statement does.\<close>

lemma boot_groups:
  assumes "td_sane d" "tdFault d (tdCalls d) = None"
  shows "\<exists>m. tasks_NewManager (Some sqliteTasks) [] d = (Inr m, d\<lparr>tdCalls := Suc (tdCalls d)\<rparr>)"
proof -
  have "\<forall>r \<in> set (sort_key tgrowID (map snd (tdGroups d))). scanTaskGroup (tdCodec d) r \<noteq> None"
    using get_in_set [OF td_saneD(5) [OF assms(1)]] td_saneD(9) [OF assms(1)] by fastforce
  then obtain gs where "scan_all (scanTaskGroup (tdCodec d)) ''list task groups'' (sort_key tgrowID (map snd (tdGroups d))) = Inr gs"
    using scan_all_total by blast
  then show ?thesis
    using assms(2) by (simp add: tasks_NewManager_def Let_def sqliteTasks_def store_ListGroups_def task_query_def)
qed

lemma agreed_group:
  assumes "groups_agree stored c1" "groups_agree stored c2" "get c1 i \<noteq> None"
  shows "get c2 i \<noteq> None"
proof -
  have "group_agrees i (stored i) (get c1 i)" "group_agrees i (stored i) (get c2 i)"
    using assms by (simp_all add: groups_agree_def)
  with assms(3) show ?thesis by (auto simp: group_agrees_def split: option.splits if_splits)
qed


section \<open>Witnesses\<close>

text \<open>Placements as the unary numeral of their number in an enumeration.\<close>

definition demo_places :: "string \<Rightarrow> (kind, placement) gomap" where
  "demo_places raw = map (\<lambda>(k, g, r). (k, \<lparr>plGroupID = g, plResourceID = r\<rparr>)) (from_nat (length raw - 1))"

definition demo_place :: place_codec where
  "demo_place =
     \<lparr>asgMarshal = (\<lambda>a. Inr (replicate (Suc (to_nat (map (\<lambda>(k, p). (k, plGroupID p, plResourceID p)) a))) CHR ''1'')),
      asgUnmarshal = (\<lambda>raw. Some (if raw = ''{}'' then [] else demo_places raw)),
      plMarshal = (\<lambda>p. Inr (replicate (to_nat (plGroupID p, plResourceID p)) CHR ''1'')),
      jsonSet = (\<lambda>raw k v. Inr (replicate (Suc (to_nat (map (\<lambda>(k, p). (k, plGroupID p, plResourceID p))
         (put k (case from_nat (length v) of (g, r) \<Rightarrow> \<lparr>plGroupID = g, plResourceID = r\<rparr>)
            (if raw = ''{}'' then [] else demo_places raw))))) CHR ''1''))\<rparr>"

lemma unary_not_object: "replicate (Suc n) CHR ''1'' \<noteq> ''{}''"
  by simp

lemma demo_places_unary: "demo_places (replicate (Suc (to_nat (map (\<lambda>(k, p). (k, plGroupID p, plResourceID p)) a))) CHR ''1'') = a"
proof -
  have "(fst x, \<lparr>plGroupID = plGroupID (snd x), plResourceID = plResourceID (snd x)\<rparr>) = x" for x :: "kind \<times> placement"
    by (cases x) simp
  then show ?thesis by (simp add: demo_places_def comp_def case_prod_beta)
qed

lemma demo_place_ok: "place_ok demo_place"
  unfolding place_ok_def
proof (intro conjI allI impI)
  fix a raw assume "asgMarshal demo_place a = Inr raw"
  then have raw: "raw = replicate (Suc (to_nat (map (\<lambda>(k, p). (k, plGroupID p, plResourceID p)) a))) CHR ''1''"
    by (simp add: demo_place_def)
  show "raw \<noteq> []" by (simp add: raw)
  show "asgUnmarshal demo_place raw = Some a"
    unfolding raw by (simp only: demo_place_def place_codec.simps unary_not_object demo_places_unary if_False)
next
  show "asgUnmarshal demo_place ''{}'' = Some []" by (simp add: demo_place_def)
next
  fix raw a k p v out
  assume a: "asgUnmarshal demo_place raw = Some a" and v: "plMarshal demo_place p = Inr v" and j: "jsonSet demo_place raw k v = Inr out"
  have a': "(if raw = ''{}'' then [] else demo_places raw) = a" using a by (simp add: demo_place_def)
  have p: "(case from_nat (length v) of (g, r) \<Rightarrow> \<lparr>plGroupID = g, plResourceID = r\<rparr>) = p"
    using v by (auto simp: demo_place_def)
  have out: "out = replicate (Suc (to_nat (map (\<lambda>(k, p). (k, plGroupID p, plResourceID p)) (put k p a)))) CHR ''1''"
    using j by (simp add: demo_place_def a' p)
  show "out \<noteq> []" by (simp add: out)
  have "asgUnmarshal demo_place out = Some (put k p a)"
    unfolding out by (simp only: demo_place_def place_codec.simps unary_not_object demo_places_unary if_False)
  then show "\<exists>b. asgUnmarshal demo_place out = Some b \<and> get b = (get a)(k \<mapsto> p)" by (simp add: fun_eq_iff)
qed

definition tdemo_db :: tdb where
  "tdemo_db = \<lparr>tdCodec = demo_codec, tdPlace = demo_place, tdFault = (\<lambda>_. None), tdCountFault = (\<lambda>_. None),
     tdNow = (\<lambda>n. int n + 7), tdCalls = 0, tdRows = [], tdGroups = []\<rparr>"

definition tdemo_task :: task where
  "tdemo_task = \<lparr>tID = ''t'', tWorkflowID = ''w'', tGroupID = TasksGlobalGroup,
     tAssignments = [(''proxy'', \<lparr>plGroupID = Some ''g'', plResourceID = None\<rparr>)], tState = [], tSnapshot = [],
     tStatus = StatusNotStarted, tOutput = [], tCreatedAt = 1, tUpdatedAt = 1\<rparr>"

lemma tdemo_sane: "td_sane tdemo_db"
  by (simp add: td_sane_def tdemo_db_def demo_codec_ok demo_place_ok)

lemma tdemo_created: "\<exists>d. tasks_CreateTask tdemo_task tdemo_db = (None, d) \<and> td_sane d \<and> tdFault d = (\<lambda>_. None)
    \<and> td_rows d = [''t'' \<mapsto> tdemo_task]"
proof -
  obtain raw where raw: "encodeAssignments demo_place (tAssignments tdemo_task) = Inr raw"
    by (simp add: encodeAssignments_def demo_place_def tdemo_task_def)
  obtain d where d: "tasks_CreateTask tdemo_task tdemo_db = (None, d)" "tdFault d = (\<lambda>_. None)"
    using raw by (simp add: tasks_CreateTask_def task_exec_def tdemo_db_def Let_def)
  have "unstarted tdemo_task = tdemo_task" by (simp add: unstarted_def tdemo_task_def StatusNotStarted_def)
  moreover have "tID tdemo_task = ''t''" by (simp add: tdemo_task_def)
  moreover have "td_rows tdemo_db = (\<lambda>_. None)" by (simp add: td_rows_def tdemo_db_def fun_eq_iff)
  ultimately show ?thesis using CreateTask_row [OF tdemo_sane d(1)] d by (intro exI [of _ d]) simp
qed

theorem runs_write_their_rows_witness:
  "\<exists>d d1 d2 t1 now. tasks_CreateTask tdemo_task tdemo_db = (None, d)
     \<and> tasks_SaveCheckpoint ''t'' StatusRunning ''A'' ''{}'' d = (None, d1)
     \<and> tasks_MarkTerminal ''u'' StatusDone [] d = (Some ''mark terminal u: task not found'', d2)
     \<and> td_rows d1 ''t'' = Some (tdemo_task\<lparr>tStatus := StatusRunning, tState := ''A'', tSnapshot := ''{}'', tUpdatedAt := now\<rparr>)
     \<and> td_rows d2 = td_rows d"
proof -
  obtain d where d: "tasks_CreateTask tdemo_task tdemo_db = (None, d)" "td_sane d" "tdFault d = (\<lambda>_. None)"
    and r: "td_rows d = [''t'' \<mapsto> tdemo_task]" using tdemo_created by blast
  obtain e1 d1 where s: "tasks_SaveCheckpoint ''t'' StatusRunning ''A'' ''{}'' d = (e1, d1)" by fastforce
  obtain e2 d2 where t: "tasks_MarkTerminal ''u'' StatusDone [] d = (e2, d2)" by fastforce
  from runs_write_their_rows [OF d(2) s t] d(3) r
  have c: "e1 = None" "td_rows d1 ''t'' = Some (tdemo_task\<lparr>tStatus := StatusRunning, tState := ''A'', tSnapshot := ''{}'',
      tUpdatedAt := tdNow d (tdCalls d)\<rparr>)" "e2 \<noteq> None" "td_rows d2 = td_rows d"
    by (auto simp: SaveCheckpoint_def MarkTerminal_def fun_eq_iff)
  have "get (tdRows d) ''u'' = None" using td_saneD(8) [OF d(2), of "''u''"] r
    by (cases "get (tdRows d) ''u''") (auto simp: td_rows_def dest!: fun_cong [of _ _ "''u''"])
  then have "e2 = Some ''mark terminal u: task not found''"
    using t td_saneD(3) [OF d(2)] d(3)
    by (simp add: tasks_MarkTerminal_def task_update_def task_exec_def Let_def errRowMissing_def)
  with c d s t show ?thesis by auto
qed

theorem assignment_edits_one_kind_witness:
  "\<exists>d d' q b now. tasks_CreateTask tdemo_task tdemo_db = (None, d)
     \<and> tasks_SaveAssignment ''t'' ''account'' noPlacement d = (None, d') \<and> td_rows d' ''t'' = Some q
     \<and> get (tAssignments q) ''account'' = Some noPlacement \<and> get (tAssignments q) ''proxy'' = get (tAssignments tdemo_task) ''proxy''"
proof -
  obtain d where d: "tasks_CreateTask tdemo_task tdemo_db = (None, d)" "td_sane d" "tdFault d = (\<lambda>_. None)"
    and row: "td_rows d = [''t'' \<mapsto> tdemo_task]" using tdemo_created by blast
  have d4: "td_rows d ''t'' = Some tdemo_task" by (simp add: row)
  have pl: "tdPlace d = demo_place" using d(1)
    by (auto simp: tasks_CreateTask_def task_exec_def tdemo_db_def Let_def split: sum.splits if_splits)
  obtain r where r: "get (tdRows d) ''t'' = Some r" using d4 by (auto simp: td_rows_def bind_eq_Some_conv)
  obtain enc where enc: "plMarshal demo_place noPlacement = Inr enc" by (simp add: demo_place_def)
  obtain out where out: "jsonSet demo_place (if trowAssignments r = [] then ''{}'' else trowAssignments r) ''account'' enc = Inr out"
    by (simp add: demo_place_def)
  have k: "kind_Validate ''account'' = None" by (simp add: kind_Validate_None kind_char_def)
  obtain d' where s: "tasks_SaveAssignment ''t'' ''account'' noPlacement d = (None, d')"
    using d(3) td_saneD(3) [OF d(2)] r
    by (simp add: tasks_SaveAssignment_def pl k enc out task_update_def task_exec_def Let_def)
  from assignment_edits_one_kind [OF d(2) s] d4 obtain b now where b: "get b = (get (tAssignments tdemo_task))(''account'' \<mapsto> noPlacement)"
    "td_rows d' = (td_rows d)(''t'' \<mapsto> tdemo_task\<lparr>tAssignments := b, tUpdatedAt := now\<rparr>)" by auto
  have "td_rows d' ''t'' = Some (tdemo_task\<lparr>tAssignments := b, tUpdatedAt := now\<rparr>)" by (simp add: b(2))
  moreover have "get b ''account'' = Some noPlacement" "get b ''proxy'' = get (tAssignments tdemo_task) ''proxy''"
    by (simp_all add: b(1))
  ultimately show ?thesis using d(1) s
    by (intro exI [of _ d] exI [of _ d'] exI [of _ "tdemo_task\<lparr>tAssignments := b, tUpdatedAt := now\<rparr>"]) simp
qed

definition tdemo_flow :: "(nat, string) registered" where
  "tdemo_flow = \<lparr>wfEngine = \<lparr>wNewInstance = (\<lambda>_. Inr []), wRestoreInstance = None,
      wGraph = (\<lambda>_. \<lparr>gInitial = [], gStates = []\<rparr>), wSnapshotter = (\<lambda>_. False), wSnapshot = Inr,
      wOutput = (\<lambda>_. None), wTeardown = (\<lambda>_ _ _. None)\<rparr>,
     wfValidateInput = (\<lambda>_. None), wfUseResources = None\<rparr>"

definition tdemo_m0 :: "(nat, string, tdb, unit) tmgr" where
  "tdemo_m0 = \<lparr>tmWorkflows = [], tmRegistry = [], tmHeap = [], tmNext = 0, tmRepo = Some sqliteTasks,
     tmStore = tdemo_db\<lparr>tdCalls := 1\<rparr>, tmResources = [], tmGroups = [(TasksGlobalGroup, zeroTGroup TasksGlobalGroup)]\<rparr>"

definition tdemo_m1 :: "(nat, string, tdb, unit) tmgr" where
  "tdemo_m1 = tdemo_m0\<lparr>tmWorkflows := [(''w'', tdemo_flow)]\<rparr>"

lemma tdemo_boot: "tasks_NewManager (Some sqliteTasks) [] tdemo_db = (Inr tdemo_m0, tdemo_db\<lparr>tdCalls := 1\<rparr>)"
  by (simp add: tasks_NewManager_def Let_def sqliteTasks_def store_ListGroups_def task_query_def tdemo_m0_def)
    (simp add: tdemo_db_def sqliteTasks_def)


end
