(* ===== verification/Tasks_Modules.thy ===== *)
theory Tasks_Modules
  imports Engine_Properties
begin

text \<open>
  The typed module as a workflow the engine runs (src/workflows/module.go with src/tasks/engine.go): its
  constructor and its wiring, the ports the engine calls, and the life of a task over crashes.

  An instance embeds a Base, and what else it is, its graph, its output and its teardown, are functions of
  it. The engine is that of \<^theory_text>\<open>Engine\<close>, instantiated: New and Restore are the module's, Snapshot is the Base's.
  A handler works on the instance it runs in: on its effect log and on the state its Base persists, as
  Do, Once and Checkpoint let it, and not on the input or the task the module bound.
\<close>

section \<open>Modules\<close>

record ('i, 'd) wired_module = "('i, 'd) module" +
  modResources :: "(kind list \<Rightarrow> string option) option"

record ('i, 'd) in_type =
  itZero :: 'i
  itMarshal :: "'i \<Rightarrow> string + json"
  itUnmarshal :: "json \<Rightarrow> 'i option"

definition NewModule ::
    "('i, 'd) in_type \<Rightarrow> string \<Rightarrow> ('i \<Rightarrow> string \<Rightarrow> string + ('i, 'd) inst) \<Rightarrow> ('i, 'd) wired_module" where
  "NewModule ty i build =
     \<lparr>modID = i, modBuild = build, modValidate = None, modZero = itZero ty, modMarshal = itMarshal ty,
      modUnmarshal = itUnmarshal ty, modResources = None\<rparr>"

definition WithResources ::
    "(kind list \<Rightarrow> string option) \<Rightarrow> ('i, 'd) wired_module \<Rightarrow> ('i, 'd) wired_module" where
  "WithResources fn m = m\<lparr>modResources := Some fn\<rparr>"

definition WithValidate :: "('i \<Rightarrow> string option) \<Rightarrow> ('i, 'd) wired_module \<Rightarrow> ('i, 'd) wired_module" where
  "WithValidate fn m = m\<lparr>modValidate := Some fn\<rparr>"

definition UseResources :: "('i, 'd) wired_module \<Rightarrow> kind list \<Rightarrow> string option" where
  "UseResources m managers = (case modResources m of None \<Rightarrow> None | Some fn \<Rightarrow> fn managers)"

text \<open>Resource asserts a manager back to its type; a missing one fails the assertion too.\<close>

definition Resource :: "('m \<Rightarrow> 't option) \<Rightarrow> (kind, 'm) gomap \<Rightarrow> kind \<Rightarrow> string + 't" where
  "Resource as_T managers kind =
     (case Option.bind (get managers kind) as_T of
        None \<Rightarrow> Inl (''nothing of that type registered under kind '' @ kind)
      | Some v \<Rightarrow> Inr v)"

section \<open>The ports of an engine\<close>

record ('i, 'd) caps =
  cpGraph :: "('i, 'd) inst \<Rightarrow> unit graph"
  cpOutput :: "('i, 'd) inst \<Rightarrow> (task_error + json) option"
  cpTeardown :: "('i, 'd) inst \<Rightarrow> string \<Rightarrow> task_error option \<Rightarrow> task_error option"

definition ported :: "string + 'a \<Rightarrow> task_error + 'a" where
  "ported r = (case r of Inl e \<Rightarrow> Inl (ErrMsg e) | Inr x \<Rightarrow> Inr x)"

definition module_workflow ::
    "'d codecs \<Rightarrow> ('i, 'd) module \<Rightarrow> string \<Rightarrow> ('i, 'd) caps \<Rightarrow> ('i, ('i, 'd) inst) workflow" where
  "module_workflow c m task cp =
     \<lparr>wNewInstance = (\<lambda>input. ported (NewInstance m input task)),
      wRestoreInstance = Some (\<lambda>snap. ported (RestoreInstance c m task snap)),
      wGraph = cpGraph cp, wSnapshotter = (\<lambda>x. instBase x \<noteq> None),
      wSnapshot = (\<lambda>x. case instBase x of
                         None \<Rightarrow> Inl (ErrMsg ''no base'') | Some b \<Rightarrow> ported (Snapshot c b)),
      wOutput = cpOutput cp, wTeardown = cpTeardown cp\<rparr>"

text \<open>What the module promises of one input: it marshals to a message that decodes to it again, and build
  makes of it an instance with a Base whose effect log is empty.\<close>

definition rebuilds ::
    "'d codecs \<Rightarrow> ('i, 'd) module \<Rightarrow> string \<Rightarrow> 'i \<Rightarrow> json \<Rightarrow> ('i, 'd) inst \<Rightarrow> 'd base \<Rightarrow> bool" where
  "rebuilds c m task i raw x0 b0 \<longleftrightarrow>
     codecs_ok c \<and> modMarshal m i = Inr raw \<and> raw \<noteq> [] \<and> modUnmarshal m raw = Some i
     \<and> modBuild m i task = Inr x0 \<and> instBase x0 = Some b0 \<and> bEffects b0 = []"

definition own_base :: "string \<Rightarrow> json \<Rightarrow> 'd base \<Rightarrow> 'd base \<Rightarrow> bool" where
  "own_base task raw b0 b \<longleftrightarrow> bTask b = task \<and> bInput b = raw \<and> (bDurable b = None \<longleftrightarrow> bDurable b0 = None)"

lemma NewInstance_rebuilds:
  "rebuilds c m task i raw x0 b0 \<Longrightarrow>
     NewInstance m (AnyIn i) task = Inr (x0\<lparr>instBase := Some (bind_base task raw b0)\<rparr>)"
  by (simp add: rebuilds_def NewInstance_def assertInput_def baseOf_def)

lemma bind_own: "own_base task raw b0 (bind_base task raw b0)"
  by (simp add: own_base_def bind_base_def)

text \<open>Recovery undoes a snapshot: the instance build makes of the recorded input, with the Base as it was.\<close>

lemma RestoreInstance_rebuilds:
  assumes "rebuilds c m task i raw x0 b0" "own_base task raw b0 b" "Snapshot c b = Inr snap"
  shows "RestoreInstance c m task snap = Inr (x0\<lparr>instBase := Some b\<rparr>)"
  by (rule restored [where raw = raw and i = i]) (use assms in \<open>auto simp: rebuilds_def own_base_def\<close>)

section \<open>The life of a task\<close>

definition keeps_base :: "('i, 'd) inst option \<Rightarrow> ('i, 'd) inst \<Rightarrow> bool" where
  "keeps_base inst x \<longleftrightarrow>
     (case inst of
        None \<Rightarrow> False
      | Some y \<Rightarrow>
          (case (instBase y, instBase x) of
             (Some b, Some b') \<Rightarrow> own_base (bTask b) (bInput b) b b'
           | _ \<Rightarrow> False))"

definition works :: "('i, 'd) inst eng_event \<Rightarrow> ('i, ('i, 'd) inst) run \<Rightarrow> bool" where
  "works ev r \<longleftrightarrow> (case ev of EvWork x \<Rightarrow> keeps_base (rInst r) x | _ \<Rightarrow> True)"

definition alive :: "task \<Rightarrow> bool" where
  "alive t \<longleftrightarrow> tStatus t = StatusRunning \<or> tStatus t = StatusSuspended"

text \<open>A task is created once with an input; after that its run takes steps, and the process may crash and
  recover it from its row, any number of times.\<close>

inductive module_lives ::
    "'d codecs \<Rightarrow> ('i, 'd) module \<Rightarrow> string \<Rightarrow> ('i, 'd) caps \<Rightarrow> 'i \<Rightarrow> ('i, ('i, 'd) inst) run \<Rightarrow> bool"
  for c m task cp i where
  create: "tStatus t = StatusNotStarted \<Longrightarrow> module_lives c m task cp i (fresh repo False (AnyIn i) t)"
| step: "module_lives c m task cp i r \<Longrightarrow> works ev r \<Longrightarrow>
    module_lives c m task cp i (eng_step (module_workflow c m task cp) ev r)"
| crash: "module_lives c m task cp i r \<Longrightarrow> rRow r = Some t \<Longrightarrow> alive t \<Longrightarrow>
    module_lives c m task cp i (fresh True True input t)"

definition own_snap :: "'d codecs \<Rightarrow> string \<Rightarrow> json \<Rightarrow> 'd base \<Rightarrow> json \<Rightarrow> bool" where
  "own_snap c task raw b0 snap \<longleftrightarrow> (\<exists>b. own_base task raw b0 b \<and> Snapshot c b = Inr snap)"

definition own_inst :: "string \<Rightarrow> json \<Rightarrow> 'd base \<Rightarrow> ('i, 'd) inst option \<Rightarrow> bool" where
  "own_inst task raw b0 inst \<longleftrightarrow> (\<forall>x. inst = Some x \<longrightarrow> (\<exists>b. instBase x = Some b \<and> own_base task raw b0 b))"

definition own_row :: "'d codecs \<Rightarrow> string \<Rightarrow> json \<Rightarrow> 'd base \<Rightarrow> task option \<Rightarrow> bool" where
  "own_row c task raw b0 row \<longleftrightarrow> (\<forall>t. row = Some t \<longrightarrow> alive t \<longrightarrow> own_snap c task raw b0 (tSnapshot t))"

definition own_handle :: "'d codecs \<Rightarrow> string \<Rightarrow> json \<Rightarrow> 'd base \<Rightarrow> 'i \<Rightarrow> ('i, ('i, 'd) inst) run \<Rightarrow> bool" where
  "own_handle c task raw b0 i r \<longleftrightarrow>
     (if rRecovered r then own_snap c task raw b0 (tSnapshot (rTask r)) else rInput r = AnyIn i)"

definition module_inv :: "'d codecs \<Rightarrow> string \<Rightarrow> json \<Rightarrow> 'd base \<Rightarrow> 'i \<Rightarrow> ('i, ('i, 'd) inst) run \<Rightarrow> bool" where
  "module_inv c task raw b0 i r \<longleftrightarrow>
     own_inst task raw b0 (rInst r) \<and> own_row c task raw b0 (rRow r) \<and> own_handle c task raw b0 i r"

text \<open>What the steps that write neither the row nor the instance leave alone.\<close>

definition same_task :: "('i, 'x) run \<Rightarrow> ('i, 'x) run \<Rightarrow> bool" where
  "same_task r r' \<longleftrightarrow> rInst r' = rInst r \<and> rRow r' = rRow r \<and> rRecovered r' = rRecovered r
     \<and> rInput r' = rInput r \<and> tSnapshot (rTask r') = tSnapshot (rTask r)"

lemma module_inv_same: "module_inv c task raw b0 i r \<Longrightarrow> same_task r r' \<Longrightarrow> module_inv c task raw b0 i r'"
  by (simp add: module_inv_def own_handle_def same_task_def)

lemma same_task_epilogue: "same_task r (epilogue now err r)"
  by (simp add: same_task_def epilogue_def bring_current_def Let_def split: option.split)

lemma same_task_signal: "same_task r (with_signal eb r)"
  by (cases eb) (simp add: with_signal_def signal_def same_task_def split: pc.split)

lemma same_task_decide: "same_task r (decide next r)"
  by (simp add: same_task_def decide_def Let_def)

lemma same_task_advance:
  assumes "\<nexists>s. rPc r = SavingSuspend s" "\<nexists>s. rPc r = Saving s" "\<nexists>e out1 oc. rPc r = Stamping e out1 oc"
  shows "same_task r (advance w now fault r)"
proof (cases "rPc r")
  case (Live n)
  obtain err r' where h: "harvest w r = (err, r')" by (cases "harvest w r")
  then obtain out where "r' = r\<lparr>rEngine := (rEngine r)\<lparr>eOutput := out\<rparr>\<rparr>" by (rule harvest_frame)
  with h Live show ?thesis by (simp add: advance_def go_live_def same_task_def split: option.split)
next
  case (Returning e)
  with same_task_epilogue [of r now e] show ?thesis by (simp add: advance_def same_task_def)
next
  case (Top n)
  then show ?thesis by (cases n) (simp_all add: advance_def at_top_def same_task_def decide_def Let_def)
next
  case (Woken s)
  with same_task_decide [of r "Some s"] show ?thesis by (simp add: advance_def recheck_def same_task_def)
next
  case (Finishing e)
  then show ?thesis by (simp add: advance_def finish_def same_task_def Let_def)
qed (use assms in \<open>simp_all add: advance_def prepare_def teardown_def same_task_def Let_def\<close>)

text \<open>A checkpoint writes a snapshot of the instance that runs.\<close>

lemma module_inv_checkpoint:
  assumes "module_inv c task raw b0 i r"
    and "checkpoint (module_workflow c m task cp) now status st fault r = (err, r')"
  shows "module_inv c task raw b0 i r'"
proof (cases "r' = r")
  case False
  have "\<exists>t x blob. rInst r = Some x \<and> wSnapshot (module_workflow c m task cp) x = Inr blob
      \<and> r' = r\<lparr>rRow := Some (t\<lparr>tStatus := status, tState := st, tSnapshot := blob, tUpdatedAt := now\<rparr>)\<rparr>
    \<or> r' = r\<lparr>rRow := rRow r\<rparr> \<or> rRow r = None \<and> r' = r\<lparr>rRow := None\<rparr>"
    using assms(2) False by (auto simp: checkpoint_def SaveCheckpoint_def split: option.splits sum.splits if_splits prod.splits)
  then obtain t x blob where x: "rInst r = Some x" "wSnapshot (module_workflow c m task cp) x = Inr blob"
    and r': "r' = r\<lparr>rRow := Some (t\<lparr>tStatus := status, tState := st, tSnapshot := blob, tUpdatedAt := now\<rparr>)\<rparr>"
    using False by auto
  from assms(1) x(1) obtain b where b: "instBase x = Some b" "own_base task raw b0 b"
    by (auto simp: module_inv_def own_inst_def)
  with x(2) have "Snapshot c b = Inr blob"
    by (simp add: module_workflow_def ported_def split: sum.splits)
  with b have "own_snap c task raw b0 blob" by (auto simp: own_snap_def)
  with assms(1) show ?thesis by (simp add: module_inv_def own_row_def own_handle_def r')
qed (simp add: assms)

lemma module_inv_pc [simp]: "module_inv c task raw b0 i (r\<lparr>rPc := p\<rparr>) = module_inv c task raw b0 i r"
  by (simp add: module_inv_def own_handle_def)

lemma module_inv_mids [simp]: "module_inv c task raw b0 i (r\<lparr>rMids := ms\<rparr>) = module_inv c task raw b0 i r"
  by (simp add: module_inv_def own_handle_def)

lemma module_inv_engine [simp]: "module_inv c task raw b0 i (r\<lparr>rEngine := e\<rparr>) = module_inv c task raw b0 i r"
  by (simp add: module_inv_def own_handle_def)

lemma module_inv_stamp:
  assumes "module_inv c task raw b0 i r" "eng_inv r" "rPc r = Stamping err outcome out1"
  shows "module_inv c task raw b0 i (stamp now fault err outcome out1 r)"
proof -
  have "outcome = StatusDone \<or> outcome = StatusFailed \<or> outcome = StatusKilled"
    using assms(2,3) by (auto simp: eng_inv_def Let_def)
  then have "outcome \<noteq> StatusRunning" "outcome \<noteq> StatusSuspended" by auto
  with assms(1) show ?thesis
    by (auto simp: stamp_def MarkTerminal_def module_inv_def own_row_def own_handle_def alive_def split: option.split)
qed

lemma module_inv_advance:
  assumes i: "module_inv c task raw b0 i r" and e: "eng_inv r"
  shows "module_inv c task raw b0 i (advance (module_workflow c m task cp) now fault r)"
proof -
  consider (suspend) s where "rPc r = SavingSuspend s" | (save) s where "rPc r = Saving s"
    | (stamp) err oc out1 where "rPc r = Stamping err oc out1"
    | (other) "\<nexists>s. rPc r = SavingSuspend s" "\<nexists>s. rPc r = Saving s" "\<nexists>e out1 oc. rPc r = Stamping e out1 oc"
    by blast
  then show ?thesis
  proof cases
    case (suspend s)
    obtain err r' where k: "checkpoint (module_workflow c m task cp) now StatusSuspended s fault r = (err, r')" by fastforce
    with suspend module_inv_checkpoint [OF i k] show ?thesis by (simp add: advance_def split: option.split)
  next
    case (save s)
    obtain err r' where k: "checkpoint (module_workflow c m task cp) now StatusRunning s fault r = (err, r')" by fastforce
    with save module_inv_checkpoint [OF i k] show ?thesis by (simp add: advance_def split: option.split)
  next
    case (stamp err oc out1)
    with module_inv_stamp [OF i e stamp] show ?thesis by (simp add: advance_def)
  next
    case other
    from module_inv_same [OF i same_task_advance [OF other]] show ?thesis .
  qed
qed

text \<open>The instance of an admitted Start is the module's own, new or recovered.\<close>

lemma planned_own:
  assumes r: "rebuilds c m task i raw x0 b0" and h: "own_handle c task raw b0 i r"
    and p: "Start_plan (module_workflow c m task cp) r = Inr (x, start, suspended)"
  shows "\<exists>b. x = x0\<lparr>instBase := Some b\<rparr> \<and> own_base task raw b0 b"
proof (cases "rRecovered r")
  case True
  with h obtain b where b: "own_base task raw b0 b" "Snapshot c b = Inr (tSnapshot (rTask r))"
    by (auto simp: own_handle_def own_snap_def)
  from RestoreInstance_rebuilds [OF r b] p True b(1) show ?thesis
    by (auto simp: Start_plan_def Let_def module_workflow_def ported_def split: if_splits)
next
  case False
  with h p NewInstance_rebuilds [OF r] bind_own show ?thesis
    by (auto simp: own_handle_def Start_plan_def Let_def module_workflow_def ported_def)
qed

lemma module_inv_Start:
  assumes r: "rebuilds c m task i raw x0 b0" and i: "module_inv c task raw b0 i r"
  shows "module_inv c task raw b0 i (snd (Start (module_workflow c m task cp) now r))"
proof (cases "Start (module_workflow c m task cp) now r")
  case (Pair err r')
  show ?thesis
  proof (cases "Start_plan (module_workflow c m task cp) r")
    case (Inl e)
    with i module_inv_same [OF i same_task_epilogue] show ?thesis by (simp add: Start_def)
  next
    case (Inr plan)
    obtain x start suspended where plan: "plan = (x, start, suspended)" by (cases plan)
    show ?thesis
    proof (cases "admit suspended (rEngine r)")
      case (Inl e)
      with Inr plan module_inv_same [OF i same_task_epilogue] show ?thesis by (simp add: Start_def)
    next
      case Inr': (Inr e)
      have "own_handle c task raw b0 i r" using i by (simp add: module_inv_def)
      from planned_own [OF r this Inr [unfolded plan]] i Inr Inr' plan show ?thesis
        by (auto simp: Start_def module_inv_def own_inst_def own_handle_def)
    qed
  qed
qed

lemma module_inv_work:
  assumes "module_inv c task raw b0 i r" "keeps_base (rInst r) x"
  shows "module_inv c task raw b0 i (r\<lparr>rInst := Some x\<rparr>)"
  using assms by (auto simp: module_inv_def own_inst_def own_handle_def keeps_base_def own_base_def split: option.splits)

lemma module_lives_reachable: "module_lives c m task cp i r \<Longrightarrow> eng_reachable (module_workflow c m task cp) r"
  by (induction rule: module_lives.induct) (auto intro: eng_reachable.intros)

lemma module_inv_mid:
  assumes "module_inv c task raw b0 i r"
  shows "module_inv c task raw b0 i (midSave (module_workflow c m task cp) now fault r)"
proof (cases "rMids r")
  case (Cons s rest)
  obtain err r' where k: "checkpoint (module_workflow c m task cp) now StatusRunning s fault r = (err, r')" by fastforce
  with Cons module_inv_checkpoint [OF assms k] show ?thesis by (simp add: midSave_def)
qed (simp add: midSave_def assms)

lemma module_lives_inv:
  assumes "module_lives c m task cp i r" "rebuilds c m task i raw x0 b0"
  shows "module_inv c task raw b0 i r"
  using assms(1)
proof (induction rule: module_lives.induct)
  case (create t repo)
  then show ?case by (simp add: module_inv_def own_inst_def own_row_def own_handle_def fresh_def alive_def)
next
  case (crash r t input)
  then show ?case by (simp add: module_inv_def own_inst_def own_row_def own_handle_def fresh_def)
next
  case (step r ev)
  note i = step.IH
  note e = eng_reachable_inv [OF module_lives_reachable [OF step.hyps(1)]]
  show ?case
  proof (cases ev)
    case (EvStart now)
    with module_inv_Start [OF assms(2) i] show ?thesis by simp
  next
    case (EvAdvance now fault)
    with module_inv_advance [OF i e] show ?thesis by simp
  next
    case (EvWork x)
    with i step.hyps(2) show ?thesis by (auto simp: works_def module_inv_work split: pc.split)
  next
    case (EvReturn res)
    with i show ?thesis by (simp add: handler_returns_def split: pc.split)
  next
    case EvMidCheckpoint
    with i show ?thesis by (simp split: sum.split)
  qed (use i in \<open>simp_all add: module_inv_mid module_inv_same [OF i same_task_signal]\<close>)
qed

text \<open>C8. A module's task survives any number of crashes: whenever its row shows a run, whatever happened
  before, a handle recovered from the row is admitted by Start at the state of the row, parked if the row
  says suspended, and runs the instance that build makes of the original input, with exactly the effect
  log and the durable state that the row's snapshot was taken of.\<close>

theorem module_task_recovers:
  assumes "module_lives c m task cp i r" "rebuilds c m task i raw x0 b0" "rRow r = Some t" "alive t"
  shows "\<exists>b. Snapshot c b = Inr (tSnapshot t) \<and> bTask b = task \<and> bInput b = raw
    \<and> (case Start (module_workflow c m task cp) now (fresh True True input t) of (err, r') \<Rightarrow>
         err = None \<and> rInst r' = Some (x0\<lparr>instBase := Some b\<rparr>) \<and> rPc r' = Begun (Some (tState t))
         \<and> eState (rEngine r') = tStatus t)"
proof -
  from module_lives_inv [OF assms(1,2)] assms(3,4) obtain b
    where b: "own_base task raw b0 b" "Snapshot c b = Inr (tSnapshot t)"
    by (auto simp: module_inv_def own_row_def own_snap_def)
  note back1 = RestoreInstance_rebuilds [OF assms(2) b]
  have "Start_plan (module_workflow c m task cp) (fresh True True input t)
      = Inr (x0\<lparr>instBase := Some b\<rparr>, Some (tState t), tStatus t = StatusSuspended)"
    using back1 assms(4)
    by (auto simp: Start_plan_def Let_def fresh_def alive_def Terminal_def module_workflow_def ported_def)
  moreover have "admit (tStatus t = StatusSuspended) newEngine = Inr (newEngine\<lparr>eState := tStatus t\<rparr>)"
    using assms(4) by (auto simp: admit_def newEngine_def alive_def)
  ultimately have "Start (module_workflow c m task cp) now (fresh True True input t)
      = (None, (fresh True True input t)\<lparr>rEngine := newEngine\<lparr>eState := tStatus t\<rparr>,
           rInst := Some (x0\<lparr>instBase := Some b\<rparr>), rGraph := cpGraph cp (x0\<lparr>instBase := Some b\<rparr>),
           rPc := Begun (Some (tState t)), gRuns := 1\<rparr>)"
    by (simp add: Start_def fresh_def module_workflow_def)
  with b show ?thesis by (auto simp: own_base_def)
qed

text \<open>A module whose graph has one state; its handler pays, and the process crashes.\<close>

definition demo_caps :: "(nat, nat) caps" where
  "demo_caps = \<lparr>cpGraph = (\<lambda>_. \<lparr>gInitial = ''A'', gStates = [(''A'', ())]\<rparr>), cpOutput = (\<lambda>_. None),
     cpTeardown = (\<lambda>_ _ _. None)\<rparr>"

definition demo_created :: "(nat, (nat, nat) inst) run" where
  "demo_created = fresh True False (AnyIn 3) demo_task"

definition demo_paid_inst :: "(nat, nat) inst" where
  "demo_paid_inst = demo_inst\<lparr>instBase := Some ((demo_base 8)\<lparr>bEffects := [(''pay'', ''1'')]\<rparr>)\<rparr>"

abbreviation demo_module_wf :: "(nat, (nat, nat) inst) workflow" where
  "demo_module_wf \<equiv> module_workflow demo_codecs demo_module ''t'' demo_caps"

lemma demo_rebuilds:
  "rebuilds demo_codecs demo_module ''t'' 3 ''1111'' \<lparr>instBase = Some \<lparr>bTask = [], bInput = [], bEffects = [], bDurable = Some 3\<rparr>, instInput = 3\<rparr>
     \<lparr>bTask = [], bInput = [], bEffects = [], bDurable = Some 3\<rparr>"
  using demo_codecs_ok(1) by (simp add: rebuilds_def demo_module_def demo_mar_def demo_unm_def numeral_3_eq_3)

text \<open>Up to the handler of the state, which pays, checkpoints, and is cut off.\<close>

definition demo_entry :: "(nat, nat) inst eng_event list" where
  "demo_entry = [EvStart 2, EvAdvance 5 None, EvAdvance 5 None, EvAdvance 5 None, EvAdvance 5 None, EvAdvance 5 None]"

lemma demo_insts:
  "instBase demo_inst = Some (demo_base 3)" "instBase demo_paid_inst = Some ((demo_base 8)\<lparr>bEffects := [(''pay'', ''1'')]\<rparr>)"
  by (simp_all add: demo_inst_def demo_paid_inst_def)

lemmas demo_run_defs = demo_entry_def demo_created_def fresh_def Start_def Start_plan_def module_workflow_def demo_new_inst
  ported_def demo_insts admit_def newEngine_def advance_def prepare_def at_top_def decide_def go_live_def checkpoint_def
  SaveCheckpoint_def demo_task_def demo_caps_def Handler_def midCheckpoint_def eng_live_def midSave_def Let_def

lemma demo_entered:
  assumes "Snapshot c (demo_base 3) = Inr s1"
  shows "rInst (eng_steps (module_workflow c demo_module ''t'' demo_caps) demo_entry demo_created) = Some demo_inst"
  using assms by (simp add: demo_run_defs)

lemma demo_crash_row:
  assumes "Snapshot c (demo_base 3) = Inr s1" "Snapshot c ((demo_base 8)\<lparr>bEffects := [(''pay'', ''1'')]\<rparr>) = Inr s2"
  shows "rRow (eng_steps (module_workflow c demo_module ''t'' demo_caps)
      (demo_entry @ [EvWork demo_paid_inst, EvMidCheckpoint, EvMidSave 7 None]) demo_created)
    = Some (demo_task\<lparr>tStatus := StatusRunning, tState := ''A'', tSnapshot := s2, tUpdatedAt := 7\<rparr>)"
  using assms by (simp add: demo_run_defs)

lemma module_lives_steps:
  "module_lives c m task cp i r \<Longrightarrow> list_all (\<lambda>ev. \<forall>x. ev \<noteq> EvWork x) evs \<Longrightarrow>
     module_lives c m task cp i (eng_steps (module_workflow c m task cp) evs r)"
proof (induction evs arbitrary: r)
  case (Cons ev evs)
  then show ?case using module_lives.step [OF Cons.prems(1), of ev] by (cases ev) (simp_all add: works_def)
qed simp

theorem module_task_recovers_witness:
  "\<exists>t s1 b. Snapshot demo_codecs (demo_base 3) = Inr s1 \<and> alive t \<and> Snapshot demo_codecs b = Inr (tSnapshot t)
    \<and> rRow (eng_steps demo_module_wf (demo_entry @ [EvWork demo_paid_inst, EvMidCheckpoint, EvMidSave 7 None]) demo_created)
      = Some t
    \<and> rPc (snd (Start demo_module_wf 9 (fresh True True AnyNil t))) = Begun (Some ''A'')"
proof -
  obtain s1 s2 where s: "Snapshot demo_codecs (demo_base 3) = Inr s1"
    "Snapshot demo_codecs ((demo_base 8)\<lparr>bEffects := [(''pay'', ''1'')]\<rparr>) = Inr s2"
    by (simp add: Snapshot_def demo_base_def demo_codecs_def)
  let ?r = "eng_steps demo_module_wf (demo_entry @ [EvWork demo_paid_inst, EvMidCheckpoint, EvMidSave 7 None]) demo_created"
  let ?t = "demo_task\<lparr>tStatus := StatusRunning, tState := ''A'', tSnapshot := s2, tUpdatedAt := 7\<rparr>"
  have new: "module_lives demo_codecs demo_module ''t'' demo_caps 3 demo_created"
    unfolding demo_created_def by (rule module_lives.create) (simp add: demo_task_def)
  have "module_lives demo_codecs demo_module ''t'' demo_caps 3 (eng_steps demo_module_wf demo_entry demo_created)"
    by (rule module_lives_steps [OF new]) (simp add: demo_entry_def)
  moreover have "works (EvWork demo_paid_inst) (eng_steps demo_module_wf demo_entry demo_created)"
    unfolding works_def keeps_base_def demo_entered [OF s(1)] by (simp add: demo_insts own_base_def demo_base_def)
  ultimately have "module_lives demo_codecs demo_module ''t'' demo_caps 3
      (eng_steps demo_module_wf [EvMidCheckpoint, EvMidSave 7 None]
        (eng_step demo_module_wf (EvWork demo_paid_inst) (eng_steps demo_module_wf demo_entry demo_created)))"
    by (rule module_lives_steps [OF module_lives.step]) simp_all
  then have life: "module_lives demo_codecs demo_module ''t'' demo_caps 3 ?r" by simp
  have alive: "alive ?t" by (simp add: alive_def)
  note row = demo_crash_row [OF s]
  obtain err r' where st: "Start demo_module_wf 9 (fresh True True AnyNil ?t) = (err, r')" by fastforce
  from module_task_recovers [OF life demo_rebuilds row alive, of 9 AnyNil] obtain b
    where b: "Snapshot demo_codecs b = Inr (tSnapshot ?t)" and pc: "rPc r' = Begun (Some ''A'')"
    unfolding st by auto
  from pc st have "rPc (snd (Start demo_module_wf 9 (fresh True True AnyNil ?t))) = Begun (Some ''A'')" by simp
  with s(1) alive b row show ?thesis by blast
qed

end
