(* ===== verification/Tasks_Typed.thy ===== *)
theory Tasks_Typed
  imports Tasks_Manager Engine_Properties
begin

text \<open>
  The surface of a handle (the methods of Task in src/tasks/tasks.go, on a bare record too) and typed
  handles (src/tasks/typed.go): a task with an output that carries the workflow's declared type.

  Decoding is Go's JSON: a function from a blob to the value it fills and an error, since a failing
  decoder may have filled part of the value. The task of a handle is whatever the manager or the engine
  keeps for it. Task.Start is the run of the engine; what it returns, the answer of a refused Start and
  that of a run that has exited, is written out here, because the typed Start reads it.
\<close>

section \<open>The surface of a task\<close>

text \<open>A bare record has no engine: the live operations refuse, and the status is the durable one.\<close>

definition Record :: "'i thandle \<Rightarrow> task" where
  "Record h = hTask h"

definition Task_Assignment :: "(kind, resolved) gomap \<Rightarrow> kind \<Rightarrow> string \<times> string" where
  "Task_Assignment rs kind = (let a = get_or zeroResolved rs kind in (rvGroupID a, rvResourceID a))"

definition Task_IsRunning :: "engine option \<Rightarrow> bool" where
  "Task_IsRunning eng = (case eng of None \<Rightarrow> False | Some e \<Rightarrow> IsRunning e)"

definition LiveStatus :: "engine option \<Rightarrow> task \<Rightarrow> string" where
  "LiveStatus eng t =
     (case eng of
        None \<Rightarrow> tStatus t
      | Some e \<Rightarrow> if eState e \<noteq> StatusNotStarted then eState e else tStatus t)"

definition no_runtime :: "task_error option" where
  "no_runtime = Some (ErrMsg ''task has no runtime'')"

definition Task_Suspend :: "engine option \<Rightarrow> task_error option \<times> engine option" where
  "Task_Suspend eng = (case eng of None \<Rightarrow> (no_runtime, None) | Some e \<Rightarrow> (None, Some (Suspend e)))"

definition Task_Resume :: "engine option \<Rightarrow> task_error option \<times> engine option \<times> bool" where
  "Task_Resume eng =
     (case eng of
        None \<Rightarrow> (no_runtime, None, False)
      | Some e \<Rightarrow> (case Resume e of (e', sig) \<Rightarrow> (None, Some e', sig)))"

definition Task_Detach :: "engine option \<Rightarrow> task_error option \<times> engine option \<times> bool" where
  "Task_Detach eng =
     (case eng of
        None \<Rightarrow> (no_runtime, None, False)
      | Some e \<Rightarrow> (case Detach e of (err, e', sig) \<Rightarrow> (err, Some e', sig)))"

definition Task_Kill :: "engine option \<Rightarrow> task_error option \<times> engine option \<times> bool" where
  "Task_Kill eng =
     (case eng of
        None \<Rightarrow> (no_runtime, None, False)
      | Some e \<Rightarrow> (case Kill e of (e', sig) \<Rightarrow> (None, Some e', sig)))"

text \<open>A task recovered and not started yet answers with the status it starts under, except one whose run
  failed: that one says failed, and starts running.\<close>

theorem unstarted_status:
  assumes "Start w now r = (None, r')" "rRecovered r" "tStatus (rTask r) \<in> {StatusNotStarted, StatusRunning,
      StatusSuspended, StatusKilled, StatusFailed, StatusDone}"
  shows "LiveStatus (Some (rEngine r)) (rTask r) =
    (if tStatus (rTask r) = StatusFailed then StatusFailed else eState (rEngine r'))
    \<and> (tStatus (rTask r) = StatusFailed \<longrightarrow> eState (rEngine r') = StatusRunning)"
  using assms(1)
proof (cases rule: Start_cases)
  case (admitted x start suspended e)
  from admitted(2) have e: "eState (rEngine r) = StatusNotStarted"
    "e = (rEngine r)\<lparr>eState := (if suspended then StatusSuspended else StatusRunning)\<rparr>"
    by (auto elim: admit_cases)
  have "suspended \<longleftrightarrow> tStatus (rTask r) = StatusSuspended"
    "tStatus (rTask r) \<noteq> StatusNotStarted \<and> \<not> Terminal (tStatus (rTask r))"
    using admitted(1) assms(2) by (auto simp: Start_plan_def Let_def split: if_splits option.splits sum.splits)
  with e admitted(4) assms(3) show ?thesis by (auto simp: LiveStatus_def Terminal_def)
qed simp

section \<open>Typed handles\<close>

record ('t, 'o) typed =
  tyTask :: 't
  tyOutput :: 'o

record 'o out_codec =
  ocZero :: 'o
  ocUnmarshal :: "json \<Rightarrow> 'o \<times> string option"

definition decodeOutput :: "'o out_codec \<Rightarrow> json \<Rightarrow> 'o \<times> task_error option" where
  "decodeOutput c blob =
     (if length blob = 0 then (ocZero c, None)
      else (case ocUnmarshal c blob of
              (out, Some e) \<Rightarrow> (out, Some (ErrMsg (''decode output: '' @ e)))
            | (out, None) \<Rightarrow> (out, None)))"

definition Create ::
    "'o out_codec \<Rightarrow> string \<Rightarrow> time \<Rightarrow> string \<Rightarrow> 'i \<Rightarrow> (createConfig \<Rightarrow> createConfig) list \<Rightarrow> ('i, 'x, 's, 'r) tmgr
      \<Rightarrow> (tm_error + ('i thandle, 'o) typed) \<times> ('i, 'x, 's, 'r) tmgr" where
  "Create c newID now wfID input opts m =
     (case CreateTask newID now wfID (AnyIn input) opts m of
        (Inl e, m') \<Rightarrow> (Inl e, m')
      | (Inr h, m') \<Rightarrow> (Inr \<lparr>tyTask = h, tyOutput = ocZero c\<rparr>, m'))"

definition As :: "'o out_codec \<Rightarrow> json \<Rightarrow> 't \<Rightarrow> task_error + ('t, 'o) typed" where
  "As c output t =
     (case decodeOutput c output of
        (_, Some e) \<Rightarrow> Inl e
      | (out, None) \<Rightarrow> Inr \<lparr>tyTask = t, tyOutput = out\<rparr>)"

section \<open>Start\<close>

text \<open>What Task.Start returns: of a Start refused at once, from the handle before and after it, and of one
  whose run has exited.\<close>

definition Start_refused :: "('i, 'x) run \<Rightarrow> task_error \<Rightarrow> ('i, 'x) run \<Rightarrow> json \<times> task_error option" where
  "Start_refused r e r' =
     (if refused_early r \<or> err_is e ErrAlreadyStarted then ([], Some e) else (tOutput (rTask r'), Some e))"

definition Start_exited :: "('i, 'x) run \<Rightarrow> (json \<times> task_error option) option" where
  "Start_exited r =
     (case rPc r of
        Exited (Some e) \<Rightarrow> Some (if err_is e ErrAlreadyStarted then [] else tOutput (rTask r), Some e)
      | Exited None \<Rightarrow> Some (tOutput (rTask r), None)
      | _ \<Rightarrow> None)"

definition typed_Start ::
    "'o out_codec \<Rightarrow> json \<times> task_error option \<Rightarrow> ('t, 'o) typed \<Rightarrow> ('o \<times> task_error option) \<times> ('t, 'o) typed" where
  "typed_Start c answer t =
     (case answer of (blob, err) \<Rightarrow>
      case decodeOutput c blob of (out, derr) \<Rightarrow>
        ((out, case err of Some e \<Rightarrow> Some e | None \<Rightarrow> derr), t\<lparr>tyOutput := out\<rparr>))"

section \<open>What a typed handle shows\<close>

text \<open>A run that exits cleanly has brought the record of its handle current with what it harvested.\<close>

definition harvested :: "('i, 'x) run \<Rightarrow> bool" where
  "harvested r \<longleftrightarrow> (rPc r = Exited None \<longrightarrow> tOutput (rTask r) = eOutput (rEngine r))"

lemma harvested_epilogue: "harvested r \<Longrightarrow> harvested (epilogue now err r)"
  by (simp add: harvested_def epilogue_def bring_current_def Let_def split: pc.splits option.splits)

lemma advance_exits:
  assumes "rPc (advance w now fault r) = Exited err"
  shows "rPc r = Exited err \<and> advance w now fault r = r
    \<or> rPc r = Returning err \<and> advance w now fault r = (epilogue now err r)\<lparr>rPc := Exited err\<rparr>"
proof (cases "rPc r")
  case (Live n)
  with assms show ?thesis
    by (auto simp: advance_def go_live_def split: option.splits prod.splits)
next
  case (Top n)
  with assms show ?thesis by (auto simp: advance_def at_top_def decide_def Let_def split: option.splits if_splits)
next
  case (Stamping e1 out1 o1)
  with assms show ?thesis by (auto simp: advance_def stamp_def split: prod.splits if_splits)
next
  case (Finishing e1)
  with assms show ?thesis by (auto simp: advance_def finish_def Let_def split: if_splits)
qed (use assms in \<open>auto simp: advance_def prepare_def recheck_def decide_def teardown_def Let_def
       split: option.splits prod.splits if_splits\<close>)

lemma harvested_start:
  assumes "harvested r"
  shows "harvested (snd (Start w now r))"
proof (cases "Start w now r")
  case (Pair err r')
  show ?thesis
    using Pair assms harvested_epilogue [OF assms]
    by (auto simp: Start_def harvested_def [of "r\<lparr>rEngine := _, rInst := _, rGraph := _, rPc := _, gRuns := _\<rparr>"]
             split: sum.splits prod.splits if_splits)
qed

lemma harvested_engine:
  "harvested r \<Longrightarrow> eOutput e = eOutput (rEngine r) \<Longrightarrow> harvested (r\<lparr>rEngine := e\<rparr>)"
  by (simp add: harvested_def split: pc.splits)

lemma harvested_signal:
  assumes "harvested r" "eOutput (fst eb) = eOutput (rEngine r)"
  shows "harvested (with_signal eb r)"
  using harvested_engine [OF assms]
  by (cases eb) (auto simp: with_signal_def signal_def harvested_def split: pc.splits option.splits)

lemma harvested_mid:
  assumes "harvested r"
  shows "harvested (midSave w now fault r)"
proof (cases "rMids r")
  case (Cons s rest)
  obtain err r' where c: "checkpoint w now StatusRunning s fault r = (err, r')" by fastforce
  then obtain row where "r' = r\<lparr>rRow := row\<rparr>" by (rule checkpoint_frame)
  with c Cons assms show ?thesis by (simp add: midSave_def harvested_def)
qed (simp add: midSave_def assms)

lemma harvested_step: "harvested r \<Longrightarrow> harvested (eng_step w ev r)"
proof (cases ev)
  case (EvStart now)
  then show "harvested r \<Longrightarrow> ?thesis" by (simp add: harvested_start)
next
  case (EvAdvance now fault)
  then show "harvested r \<Longrightarrow> ?thesis"
    using advance_exits [of w now fault r None]
    by (auto simp: harvested_def epilogue_def bring_current_def Let_def split: pc.splits option.splits)
next
  case (EvWork x)
  then show "harvested r \<Longrightarrow> ?thesis" by (simp add: harvested_def split: pc.splits)
next
  case (EvReturn res)
  then show "harvested r \<Longrightarrow> ?thesis"
    by (auto simp: harvested_def handler_returns_def split: pc.splits sum.splits)
next
  case EvMidCheckpoint
  then show "harvested r \<Longrightarrow> ?thesis" by (auto simp: harvested_def split: sum.splits)
qed (simp_all add: harvested_mid harvested_signal harvested_engine frame_simps)

lemma eng_reachable_harvested: "eng_reachable w r \<Longrightarrow> harvested r"
  by (induction rule: eng_reachable.induct) (simp_all add: harvested_step, simp add: harvested_def fresh_def)

text \<open>A typed Start is an As: after a run that exits cleanly, a typed Start answers and keeps what typing
  the task afresh reads from its record, error for error, and both decode exactly what the run harvested.\<close>

theorem typed_start_is_as:
  assumes "eng_reachable w r" "rPc r = Exited None"
  shows "\<exists>answer out err. Start_exited r = Some answer
    \<and> typed_Start c answer t = ((out, err), t\<lparr>tyOutput := out\<rparr>)
    \<and> (out, err) = decodeOutput c (eOutput (rEngine r))
    \<and> As c (tOutput (rTask r)) tk = (case err of Some e \<Rightarrow> Inl e | None \<Rightarrow> Inr \<lparr>tyTask = tk, tyOutput = out\<rparr>)"
proof -
  have h: "tOutput (rTask r) = eOutput (rEngine r)"
    using eng_reachable_harvested [OF assms(1)] assms(2) by (simp add: harvested_def)
  obtain out err where d: "decodeOutput c (eOutput (rEngine r)) = (out, err)" by fastforce
  show ?thesis
    using assms(2) by (simp add: Start_exited_def typed_Start_def As_def h d split: option.split)
qed

theorem typed_start_is_as_witness:
  "\<exists>answer. Start_exited (eng_steps demo_wf to_done demo_new) = Some answer
    \<and> fst (typed_Start \<lparr>ocZero = '''', ocUnmarshal = (\<lambda>j. (j, None))\<rparr> answer \<lparr>tyTask = (), tyOutput = ''''\<rparr>)
      = (''out:x'', None)"
proof -
  have f: "rPc (eng_steps demo_wf to_done demo_new) = Exited None"
    "eOutput (rEngine (eng_steps demo_wf to_done demo_new)) = ''out:x''"
    by code_simp+
  from typed_start_is_as [OF demo_reach f(1), of "\<lparr>ocZero = '''', ocUnmarshal = (\<lambda>j. (j, None))\<rparr>"
      "\<lparr>tyTask = (), tyOutput = ''''\<rparr>" "()"] f(2)
  show ?thesis by (auto simp: decodeOutput_def)
qed

text \<open>A second Start of a handle, refused and without effect on the task, still replaces the output of the
  typed handle by the zero value.\<close>

theorem second_start_forgets_output:
  assumes "Start w now r = (Some e, r')" "err_is e ErrAlreadyStarted"
  shows "typed_Start c (Start_refused r e r') t = ((ocZero c, Some e), t\<lparr>tyOutput := ocZero c\<rparr>)"
  using assms by (simp add: typed_Start_def Start_refused_def decodeOutput_def)

end
