(* ===== verification/Scaffold.thy ===== *)
theory Scaffold
  imports Prelude "HOL-Library.Multiset"
begin

text \<open>
  The scaffolder (src/internal/scaffold/scaffold.go): the name of a package, the check of its options, the
  rendering of its files and the writing of them into a tree, and the search for the module the tree
  belongs to.

  Paths are slash separated and appear by their elements; an absolute clean path is the list of its
  elements. A file system is its files and directories, with a schedule of the calls that fail and of
  what a failed write leaves behind. The template and formatting packages are four functions; Go visits
  a map in any order, so each loop over one goes through a list the caller permutes.
\<close>

section \<open>Options\<close>

record options =
  oName :: string
  oPackage :: string
  oDurable :: bool
  oProxy :: bool
  oAccounts :: bool
  oPayments :: bool
  oEmail :: bool
  oPersist :: bool

fun strings_Join :: "string list \<Rightarrow> string \<Rightarrow> string" where
  "strings_Join [] sep = []"
| "strings_Join [s] sep = s"
| "strings_Join (s # t # ss) sep = s @ sep @ strings_Join (t # ss) sep"

definition Helpers :: "options \<Rightarrow> string" where
  "Helpers opt =
     strings_Join ((if oAccounts opt then [''profile''] else []) @ (if oPayments opt then [''payment''] else [])
       @ (if oEmail opt then [''inbox''] else [])) '', ''"

record template_data = options +
  tdModulePath :: string

text \<open>path.Clean on elements: the stack of what is kept, innermost first.\<close>

fun clean_step :: "bool \<Rightarrow> string \<Rightarrow> string list \<Rightarrow> string list" where
  "clean_step rooted s acc =
     (if s = [] \<or> s = ''.'' then acc
      else if s = ''..'' then
        (case acc of
           [] \<Rightarrow> if rooted then [] else [''..'']
         | t # ts \<Rightarrow> if t = ''..'' then ''..'' # acc else ts)
      else s # acc)"

definition path_Clean :: "bool \<Rightarrow> string list \<Rightarrow> string list" where
  "path_Clean rooted es = rev (fold (clean_step rooted) es [])"

fun split_on :: "char \<Rightarrow> string \<Rightarrow> string list" where
  "split_on sep [] = [[]]"
| "split_on sep (c # cs) =
     (if c = sep then [] # split_on sep cs
      else (case split_on sep cs of [] \<Rightarrow> [[c]] | e # es \<Rightarrow> (c # e) # es))"

definition path_Join :: "string list \<Rightarrow> string list" where
  "path_Join es = path_Clean (hd (concat (map (split_on CHR ''/'') (filter (\<lambda>e. e \<noteq> []) es)) @ [''x'']) = [])
     (concat (map (split_on CHR ''/'') (filter (\<lambda>e. e \<noteq> []) es)))"

definition outputs :: "options \<Rightarrow> (string \<times> string list) list" where
  "outputs opt =
     [(''templates/workflow.go.tmpl'', path_Join [oPackage opt, oPackage opt @ ''.go'']),
      (''templates/states/context.go.tmpl'', path_Join [oPackage opt, ''states'', ''context.go'']),
      (''templates/states/graph.go.tmpl'', path_Join [oPackage opt, ''states'', ''graph.go'']),
      (''templates/states/fetch.go.tmpl'', path_Join [oPackage opt, ''states'', ''fetch.go'']),
      (''templates/states/process.go.tmpl'', path_Join [oPackage opt, ''states'', ''process.go'']),
      (''templates/common/client.go.tmpl'', path_Join [oPackage opt, ''common'', ''client.go'']),
      (''templates/requests/get_page.go.tmpl'', path_Join [oPackage opt, ''requests'', ''get_page.go'']),
      (''templates/cmd/run/main.go.tmpl'', path_Join [oPackage opt, ''cmd'', ''run'', ''main.go''])]"

definition IsKeyword :: "string \<Rightarrow> bool" where
  "IsKeyword s \<longleftrightarrow> s \<in> set [''break'', ''case'', ''chan'', ''const'', ''continue'', ''default'', ''defer'', ''else'',
     ''fallthrough'', ''for'', ''func'', ''go'', ''goto'', ''if'', ''import'', ''interface'', ''map'', ''package'',
     ''range'', ''return'', ''select'', ''struct'', ''switch'', ''type'', ''var'']"

datatype scaffold_error =
    ScNameRequired
  | ScNoIdentifier string
  | ScUnusable string string
  | ScDurableInMemory
  | ScReadTemplate string string
  | ScParse string string
  | ScExecute string string
  | ScFormat "string list" string
  | ScExists "string list"
  | ScStat "string list" string
  | ScMkdir "string list" string
  | ScWrite "string list" string
  | ScNoGoMod
  | ScOpen "string list" string
  | ScScan string
  | ScNoModule "string list"
  | ScUsage
  | ScFlags string
  | ScRepo string
  | ScGetwd string

definition Options_Validate :: "options \<Rightarrow> scaffold_error option" where
  "Options_Validate opt =
     (if oName opt = [] then Some ScNameRequired
      else if oPackage opt = [] then Some (ScNoIdentifier (oName opt))
      else if IsKeyword (oPackage opt) \<or> oPackage opt = ''main'' then Some (ScUnusable (oName opt) (oPackage opt))
      else if oDurable opt \<and> \<not> oPersist opt then Some ScDurableInMemory
      else None)"

section \<open>Names\<close>

text \<open>The loop of PackageName over a lowered name; the text built so far decides about a digit.\<close>

fun packageName_loop :: "string \<Rightarrow> string \<Rightarrow> string" where
  "packageName_loop [] b = b"
| "packageName_loop (r # rs) b =
     (if CHR ''a'' \<le> r \<and> r \<le> CHR ''z'' \<or> r = CHR ''_'' then packageName_loop rs (b @ [r])
      else if CHR ''0'' \<le> r \<and> r \<le> CHR ''9'' then
        (if length b = 0 then packageName_loop rs b else packageName_loop rs (b @ [r]))
      else packageName_loop rs b)"

definition PackageName :: "(string \<Rightarrow> string) \<Rightarrow> string \<Rightarrow> string" where
  "PackageName lower name = packageName_loop (lower name) []"

section \<open>Rendering\<close>

record 't template_env =
  teRead :: "string \<Rightarrow> string + string"
  teParse :: "string \<Rightarrow> string \<Rightarrow> string + 't"
  teExecute :: "'t \<Rightarrow> template_data \<Rightarrow> string + string"
  teFormat :: "string \<Rightarrow> string + string"

fun render_loop ::
    "'t template_env \<Rightarrow> template_data \<Rightarrow> (string \<times> string list) list \<Rightarrow> (string list, string) gomap
      \<Rightarrow> scaffold_error + (string list, string) gomap" where
  "render_loop te data [] files = Inr files"
| "render_loop te data ((tmplPath, outPath) # rest) files =
     (case teRead te tmplPath of
        Inl e \<Rightarrow> Inl (ScReadTemplate tmplPath e)
      | Inr raw \<Rightarrow>
     (case teParse te tmplPath raw of
        Inl e \<Rightarrow> Inl (ScParse tmplPath e)
      | Inr tmpl \<Rightarrow>
     (case teExecute te tmpl data of
        Inl e \<Rightarrow> Inl (ScExecute tmplPath e)
      | Inr buf \<Rightarrow>
     (case teFormat te buf of
        Inl e \<Rightarrow> Inl (ScFormat outPath e)
      | Inr formatted \<Rightarrow> render_loop te data rest (put outPath formatted files)))))"

definition Render ::
    "'t template_env \<Rightarrow> ((string \<times> string list) list \<Rightarrow> (string \<times> string list) list) \<Rightarrow> string \<Rightarrow> options
      \<Rightarrow> scaffold_error + (string list, string) gomap" where
  "Render te visit modulePath opt =
     (case Options_Validate opt of
        Some e \<Rightarrow> Inl e
      | None \<Rightarrow> render_loop te (options.extend opt \<lparr>tdModulePath = modulePath\<rparr>) (visit (outputs opt)) [])"

section \<open>A file system\<close>

record fsys =
  fsFiles :: "(string list, string) gomap"
  fsDirs :: "string list list"
  fsFault :: "nat \<Rightarrow> string option"
  fsTorn :: "nat \<Rightarrow> string option"
  fsCalls :: nat

datatype stat = Exists | NotExist | StatError string

text \<open>A path below a file is an error of its own.\<close>

definition below_file :: "string list \<Rightarrow> fsys \<Rightarrow> bool" where
  "below_file p fs \<longleftrightarrow> (\<exists>q \<in> set (map fst (fsFiles fs)). strict_prefix q p)"

definition os_Stat :: "string list \<Rightarrow> fsys \<Rightarrow> stat \<times> fsys" where
  "os_Stat p fs =
     (let fs' = fs\<lparr>fsCalls := Suc (fsCalls fs)\<rparr>
      in case fsFault fs (fsCalls fs) of
           Some e \<Rightarrow> (StatError e, fs')
         | None \<Rightarrow>
             (if get (fsFiles fs) p \<noteq> None \<or> p \<in> set (fsDirs fs) then Exists
              else if below_file p fs then StatError ''not a directory''
              else NotExist, fs'))"

text \<open>MkdirAll makes the missing directories outermost first.\<close>

fun mkdirs :: "string list list \<Rightarrow> fsys \<Rightarrow> string option \<times> fsys" where
  "mkdirs [] fs = (None, fs)"
| "mkdirs (p # ps) fs =
     (if p \<in> set (fsDirs fs) then mkdirs ps fs
      else if get (fsFiles fs) p \<noteq> None then (Some ''not a directory'', fs)
      else (let fs' = fs\<lparr>fsCalls := Suc (fsCalls fs)\<rparr>
            in case fsFault fs (fsCalls fs) of
                 Some e \<Rightarrow> (Some e, fs')
               | None \<Rightarrow> mkdirs ps (fs'\<lparr>fsDirs := p # fsDirs fs'\<rparr>)))"

definition os_MkdirAll :: "string list \<Rightarrow> fsys \<Rightarrow> string option \<times> fsys" where
  "os_MkdirAll p fs = mkdirs (map (\<lambda>n. take n p) [0..<Suc (length p)]) fs"

text \<open>A failing write may leave something in the file.\<close>

definition os_WriteFile :: "string list \<Rightarrow> string \<Rightarrow> fsys \<Rightarrow> string option \<times> fsys" where
  "os_WriteFile p content fs =
     (let fs' = fs\<lparr>fsCalls := Suc (fsCalls fs)\<rparr>
      in if p \<in> set (fsDirs fs) then (Some ''is a directory'', fs')
         else (case fsFault fs (fsCalls fs) of
                 Some e \<Rightarrow>
                   (Some e, case fsTorn fs (fsCalls fs) of
                              None \<Rightarrow> fs' | Some t \<Rightarrow> fs'\<lparr>fsFiles := put p t (fsFiles fs')\<rparr>)
               | None \<Rightarrow> (None, fs'\<lparr>fsFiles := put p content (fsFiles fs')\<rparr>)))"

section \<open>Writing\<close>

text \<open>filepath.Join of an absolute clean root with a relative path.\<close>

definition filepath_Join :: "string list \<Rightarrow> string list \<Rightarrow> string list" where
  "filepath_Join root rel = path_Clean True (root @ rel)"

fun check_free :: "string list \<Rightarrow> (string list \<times> string) list \<Rightarrow> fsys \<Rightarrow> scaffold_error option \<times> fsys" where
  "check_free root [] fs = (None, fs)"
| "check_free root ((rel, content) # rest) fs =
     (case os_Stat (filepath_Join root rel) fs of
        (Exists, fs') \<Rightarrow> (Some (ScExists (filepath_Join root rel)), fs')
      | (StatError e, fs') \<Rightarrow> (Some (ScStat (filepath_Join root rel) e), fs')
      | (NotExist, fs') \<Rightarrow> check_free root rest fs')"

fun write_all ::
    "string list \<Rightarrow> (string list \<times> string) list \<Rightarrow> string list list \<Rightarrow> fsys
      \<Rightarrow> (scaffold_error + string list list) \<times> fsys" where
  "write_all root [] written fs = (Inr written, fs)"
| "write_all root ((rel, content) # rest) written fs =
     (case os_MkdirAll (butlast (filepath_Join root rel)) fs of
        (Some e, fs1) \<Rightarrow> (Inl (ScMkdir rel e), fs1)
      | (None, fs1) \<Rightarrow>
     (case os_WriteFile (filepath_Join root rel) content fs1 of
        (Some e, fs2) \<Rightarrow> (Inl (ScWrite rel e), fs2)
      | (None, fs2) \<Rightarrow> write_all root rest (written @ [rel]) fs2))"

record visits =
  viOutputs :: "(string \<times> string list) list \<Rightarrow> (string \<times> string list) list"
  viCheck :: "(string list \<times> string) list \<Rightarrow> (string list \<times> string) list"
  viWrite :: "(string list \<times> string) list \<Rightarrow> (string list \<times> string) list"

definition Write ::
    "'t template_env \<Rightarrow> visits \<Rightarrow> string list \<Rightarrow> string \<Rightarrow> options \<Rightarrow> fsys
      \<Rightarrow> (scaffold_error + string list list) \<times> fsys" where
  "Write te vi destRoot modulePath opt fs =
     (case Render te (viOutputs vi) modulePath opt of
        Inl e \<Rightarrow> (Inl e, fs)
      | Inr files \<Rightarrow>
     (case check_free destRoot (viCheck vi files) fs of
        (Some e, fs') \<Rightarrow> (Inl e, fs')
      | (None, fs') \<Rightarrow> write_all destRoot (viWrite vi files) [] fs'))"

section \<open>The module of a directory\<close>

lemma parent_shorter: "butlast d \<noteq> d \<Longrightarrow> length d - Suc 0 < length d"
  by (cases d) auto

text \<open>findGoMod walks towards the root; the path of a directory is its elements.\<close>

function findGoMod :: "string list \<Rightarrow> fsys \<Rightarrow> (scaffold_error + string list) \<times> fsys" where
  "findGoMod dir fs =
     (case os_Stat (dir @ [''go.mod'']) fs of
        (Exists, fs') \<Rightarrow> (Inr (dir @ [''go.mod'']), fs')
      | (_, fs') \<Rightarrow> if butlast dir = dir then (Inl ScNoGoMod, fs') else findGoMod (butlast dir) fs')"
  by pat_completeness auto

termination
  by (relation "measure (\<lambda>(dir, fs). length dir)") (auto intro: parent_shorter)

declare findGoMod.simps [simp del]

definition is_space :: "char \<Rightarrow> bool" where
  "is_space c \<longleftrightarrow> c \<in> set [CHR '' '', CHR 0x09, CHR 0x0A, CHR 0x0B, CHR 0x0C, CHR 0x0D]"

definition TrimSpace :: "string \<Rightarrow> string" where
  "TrimSpace s = rev (dropWhile is_space (rev (dropWhile is_space s)))"

definition CutPrefix :: "string \<Rightarrow> string \<Rightarrow> string option" where
  "CutPrefix s p = (if take (length p) s = p then Some (drop (length p) s) else None)"

text \<open>The longest line a scanner takes.\<close>

definition maxLine :: nat where "maxLine = 65536"

text \<open>The scanner hands out the lines one by one and stops at one too long. A return before the newline is
  space to what follows.\<close>

fun module_scan :: "string list \<Rightarrow> string list \<Rightarrow> scaffold_error + string" where
  "module_scan gomod [] = Inl (ScNoModule gomod)"
| "module_scan gomod (l # ls) =
     (if maxLine \<le> length l then Inl (ScScan ''token too long'')
      else (case CutPrefix (TrimSpace l) ''module '' of
              Some rest \<Rightarrow> Inr (TrimSpace rest)
            | None \<Rightarrow> module_scan gomod ls))"

definition ModulePath :: "string list \<Rightarrow> fsys \<Rightarrow> (scaffold_error + string) \<times> fsys" where
  "ModulePath dir fs =
     (case findGoMod dir fs of
        (Inl e, fs1) \<Rightarrow> (Inl e, fs1)
      | (Inr gomod, fs1) \<Rightarrow>
          (let fs2 = fs1\<lparr>fsCalls := Suc (fsCalls fs1)\<rparr>
           in case fsFault fs1 (fsCalls fs1) of
                Some e \<Rightarrow> (Inl (ScOpen gomod e), fs2)
              | None \<Rightarrow>
                  (case get (fsFiles fs1) gomod of
                     None \<Rightarrow> (Inl (ScScan ''is a directory''), fs2)
                   | Some text1 \<Rightarrow> (module_scan gomod (split_on CHR 0x0A text1), fs2))))"

end
