(* ===== verification/Command.thy ===== *)
theory Command
  imports Scaffold
begin

text \<open>
  The command (src/cmd/rogojin/main.go): its arguments, the flags, and the run of the scaffolder they ask
  for. Parsing flags is what Go's flag package does for six boolean flags and one string flag. The
  process is its arguments, its working directory and the file system; a run answers with its exit code and
  the paths it reports.
\<close>

section \<open>Arguments\<close>

definition has_dash :: "string \<Rightarrow> bool" where
  "has_dash a \<longleftrightarrow> (case a of c # cs \<Rightarrow> c = CHR ''-'' | [] \<Rightarrow> False)"

definition TrimDashes :: "string \<Rightarrow> string" where
  "TrimDashes a = dropWhile (\<lambda>c. c = CHR ''-'') a"

text \<open>The loop of splitName; the token after a separate repo flag is taken with it.\<close>

fun splitName_loop :: "string list \<Rightarrow> string \<Rightarrow> string list \<Rightarrow> string \<times> string list" where
  "splitName_loop [] name flags = (name, flags)"
| "splitName_loop [a] name flags =
     (if name = [] \<and> \<not> has_dash a then (a, flags) else (name, flags @ [a]))"
| "splitName_loop (a # b # args) name flags =
     (if name = [] \<and> \<not> has_dash a then splitName_loop (b # args) a flags
      else if TrimDashes a = ''repo'' then splitName_loop args name (flags @ [a, b])
      else splitName_loop (b # args) name (flags @ [a]))"

definition splitName :: "string list \<Rightarrow> string \<times> string list" where
  "splitName args = splitName_loop args [] []"

section \<open>Flags\<close>

record flag_values =
  fvNoDurable :: bool
  fvNoProxy :: bool
  fvNoAccounts :: bool
  fvNoPayments :: bool
  fvNoEmail :: bool
  fvRepo :: string

definition defaults :: flag_values where
  "defaults = \<lparr>fvNoDurable = False, fvNoProxy = False, fvNoAccounts = False, fvNoPayments = False,
     fvNoEmail = False, fvRepo = ''sqlite''\<rparr>"

text \<open>The boolean flags by name, None for a name that is none of them.\<close>

definition set_bool :: "string \<Rightarrow> bool \<Rightarrow> flag_values \<Rightarrow> flag_values option" where
  "set_bool name b fv =
     (if name = ''no-durable'' then Some (fv\<lparr>fvNoDurable := b\<rparr>)
      else if name = ''no-proxy'' then Some (fv\<lparr>fvNoProxy := b\<rparr>)
      else if name = ''no-accounts'' then Some (fv\<lparr>fvNoAccounts := b\<rparr>)
      else if name = ''no-payments'' then Some (fv\<lparr>fvNoPayments := b\<rparr>)
      else if name = ''no-email'' then Some (fv\<lparr>fvNoEmail := b\<rparr>)
      else None)"

definition ParseBool :: "string \<Rightarrow> bool option" where
  "ParseBool s =
     (if s \<in> set [''1'', ''t'', ''T'', ''TRUE'', ''true'', ''True''] then Some True
      else if s \<in> set [''0'', ''f'', ''F'', ''FALSE'', ''false'', ''False''] then Some False
      else None)"

text \<open>The name and the value of a flag: what is before and after the first equals sign, not in front.\<close>

definition cut_value :: "string \<Rightarrow> string \<times> string option" where
  "cut_value s =
     (let name = takeWhile (\<lambda>c. c \<noteq> CHR ''='') s
      in (name, if length name < length s then Some (drop (Suc (length name)) s) else None))"

text \<open>FlagSet.Parse: the values, and the arguments after the flags.\<close>

fun parse_flags :: "string list \<Rightarrow> flag_values \<Rightarrow> scaffold_error + (flag_values \<times> string list)" where
  "parse_flags [] fv = Inr (fv, [])"
| "parse_flags (s # args) fv =
     (if length s < 2 \<or> \<not> has_dash s then Inr (fv, s # args)
      else if s = ''--'' then Inr (fv, args)
      else
        (let rest = (if has_dash (tl s) then tl (tl s) else tl s)
         in if rest = [] \<or> hd rest = CHR ''-'' \<or> hd rest = CHR ''='' then Inl (ScFlags (''bad flag syntax: '' @ s))
            else
              (case cut_value rest of (name, val) \<Rightarrow>
                 if set_bool name True fv \<noteq> None then
                   (case val of
                      None \<Rightarrow> parse_flags args (the (set_bool name True fv))
                    | Some v \<Rightarrow>
                        (case ParseBool v of
                           None \<Rightarrow> Inl (ScFlags (''invalid boolean value for -'' @ name))
                         | Some b \<Rightarrow> parse_flags args (the (set_bool name b fv))))
                 else if name = ''repo'' then
                   (case (val, args) of
                      (Some v, _) \<Rightarrow> parse_flags args (fv\<lparr>fvRepo := v\<rparr>)
                    | (None, v # args') \<Rightarrow> parse_flags args' (fv\<lparr>fvRepo := v\<rparr>)
                    | (None, []) \<Rightarrow> Inl (ScFlags (''flag needs an argument: -'' @ name)))
                 else if name = ''help'' \<or> name = ''h'' then Inl (ScFlags ''flag: help requested'')
                 else Inl (ScFlags (''flag provided but not defined: -'' @ name)))))"

section \<open>The command\<close>

definition runNew ::
    "'t template_env \<Rightarrow> visits \<Rightarrow> (string \<Rightarrow> string) \<Rightarrow> string + string list \<Rightarrow> string list \<Rightarrow> fsys
      \<Rightarrow> (scaffold_error + (options \<times> string list list)) \<times> fsys" where
  "runNew te vi lower cwd args fs =
     (case splitName args of (name, flags) \<Rightarrow>
      case parse_flags flags defaults of
        Inl e \<Rightarrow> (Inl e, fs)
      | Inr (fv, rest) \<Rightarrow>
     (if name = [] \<or> rest \<noteq> [] then (Inl ScUsage, fs)
      else if fvRepo fv \<noteq> ''sqlite'' \<and> fvRepo fv \<noteq> ''memory'' then (Inl (ScRepo (fvRepo fv)), fs)
      else
        (let opts = \<lparr>oName = name, oPackage = PackageName lower name, oDurable = \<not> fvNoDurable fv,
                     oProxy = \<not> fvNoProxy fv, oAccounts = \<not> fvNoAccounts fv, oPayments = \<not> fvNoPayments fv,
                     oEmail = \<not> fvNoEmail fv, oPersist = (fvRepo fv = ''sqlite'')\<rparr>
         in case cwd of
              Inl e \<Rightarrow> (Inl (ScGetwd e), fs)
            | Inr dir \<Rightarrow>
                (case ModulePath dir fs of
                   (Inl e, fs1) \<Rightarrow> (Inl e, fs1)
                 | (Inr modulePath, fs1) \<Rightarrow>
                     (case Write te vi dir modulePath opts fs1 of
                        (Inl e, fs2) \<Rightarrow> (Inl e, fs2)
                      | (Inr written, fs2) \<Rightarrow> (Inr (opts, written), fs2))))))"

text \<open>main: the exit code, and what a new reported.\<close>

definition main_run ::
    "'t template_env \<Rightarrow> visits \<Rightarrow> (string \<Rightarrow> string) \<Rightarrow> string + string list \<Rightarrow> string list \<Rightarrow> fsys
      \<Rightarrow> (nat \<times> (options \<times> string list list) option) \<times> fsys" where
  "main_run te vi lower cwd argv fs =
     (case argv of
        [] \<Rightarrow> ((2, None), fs)
      | [_] \<Rightarrow> ((2, None), fs)
      | _ # sub # args \<Rightarrow>
          (if sub = ''new'' then
             (case runNew te vi lower cwd args fs of
                (Inl _, fs') \<Rightarrow> ((1, None), fs')
              | (Inr r, fs') \<Rightarrow> ((0, Some r), fs'))
           else if sub \<in> set [''-h'', ''--help'', ''help''] then ((0, None), fs)
           else ((2, None), fs)))"

end
