(* ===== verification/Scaffold_Properties.thy ===== *)
theory Scaffold_Properties
  imports Command
begin

text \<open>
  What the scaffolder promises: a derived name is an identifier and its files lie side by side in one
  directory, nothing that exists is overwritten, whatever fails, the module is that of the nearest
  go.mod, and a name may stand anywhere among the flags.
\<close>

section \<open>Paths\<close>

definition plain :: "string \<Rightarrow> bool" where
  "plain e \<longleftrightarrow> e \<noteq> [] \<and> e \<noteq> ''.'' \<and> e \<noteq> ''..'' \<and> CHR ''/'' \<notin> set e"

lemma clean_plain: "list_all plain es \<Longrightarrow> fold (clean_step rooted) es acc = rev es @ acc"
  by (induction es arbitrary: acc) (auto simp: plain_def)

lemma path_Clean_plain: "list_all plain es \<Longrightarrow> path_Clean rooted es = es"
  by (simp add: path_Clean_def clean_plain)

lemma path_Clean_append: "list_all plain es \<Longrightarrow> path_Clean rooted (ds @ es) = path_Clean rooted ds @ es"
  by (simp add: path_Clean_def clean_plain)

lemma split_plain: "CHR ''/'' \<notin> set e \<Longrightarrow> split_on CHR ''/'' e = [e]"
  by (induction e) auto

lemma split_all: "list_all plain es \<Longrightarrow> concat (map (split_on CHR ''/'') (filter (\<lambda>e. e \<noteq> []) es)) = es"
  by (induction es) (auto simp: plain_def split_plain)

lemma path_Join_plain: "list_all plain es \<Longrightarrow> path_Join es = es"
  by (simp add: path_Join_def split_all path_Clean_plain)

section \<open>Names\<close>

definition ident_char :: "char \<Rightarrow> bool" where
  "ident_char c \<longleftrightarrow> CHR ''a'' \<le> c \<and> c \<le> CHR ''z'' \<or> c = CHR ''_'' \<or> CHR ''0'' \<le> c \<and> c \<le> CHR ''9''"

definition go_ident :: "string \<Rightarrow> bool" where
  "go_ident s \<longleftrightarrow> s \<noteq> [] \<and> list_all ident_char s \<and> \<not> (CHR ''0'' \<le> hd s \<and> hd s \<le> CHR ''9'')"

lemma packageName_loop_ident:
  assumes "b = [] \<or> go_ident b"
  shows "packageName_loop rs b = [] \<or> go_ident (packageName_loop rs b)"
  using assms
proof (induction rs arbitrary: b)
  case (Cons r rs)
  have letter: "b @ [r] = [] \<or> go_ident (b @ [r])" if "CHR ''a'' \<le> r \<and> r \<le> CHR ''z'' \<or> r = CHR ''_''"
    using Cons.prems that by (auto simp: go_ident_def ident_char_def less_eq_char_def hd_append)
  have digit: "b @ [r] = [] \<or> go_ident (b @ [r])" if "CHR ''0'' \<le> r \<and> r \<le> CHR ''9''" "b \<noteq> []"
    using Cons.prems that by (auto simp: go_ident_def ident_char_def hd_append)
  show ?case using Cons.IH [OF letter] Cons.IH [OF digit] Cons.IH [OF Cons.prems] by (cases "b = []") auto
qed simp

lemma ident_char_neq: "ident_char c \<Longrightarrow> c \<noteq> CHR ''.'' \<and> c \<noteq> CHR ''/''"
  by (auto simp: ident_char_def less_eq_char_def)

lemma go_ident_plain:
  assumes "go_ident p"
  shows "plain p" "plain (p @ ''.go'')"
proof -
  obtain c cs where p: "p = c # cs" using assms by (cases p) (auto simp: go_ident_def)
  have c: "c \<noteq> CHR ''.''" using assms ident_char_neq [of c] by (simp add: go_ident_def p)
  have s: "CHR ''/'' \<notin> set p" using assms ident_char_neq by (auto simp: go_ident_def list_all_iff)
  show "plain p" using c s by (simp add: plain_def p)
  show "plain (p @ ''.go'')" using c s by (simp add: plain_def p)
qed

lemma outputs_ident:
  assumes "go_ident (oPackage opt)"
  shows "map snd (outputs opt) =
    (let p = oPackage opt in [[p, p @ ''.go''], [p, ''states'', ''context.go''], [p, ''states'', ''graph.go''],
      [p, ''states'', ''fetch.go''], [p, ''states'', ''process.go''], [p, ''common'', ''client.go''],
      [p, ''requests'', ''get_page.go''], [p, ''cmd'', ''run'', ''main.go'']])"
proof -
  have "path_Join (oPackage opt # es) = oPackage opt # es" if "list_all plain es" for es
    using go_ident_plain(1) [OF assms] that by (intro path_Join_plain) simp
  moreover have "plain (oPackage opt @ ''.go'')" using go_ident_plain(2) [OF assms] .
  ultimately show ?thesis by (simp add: outputs_def Let_def plain_def)
qed

text \<open>Whatever a workflow is called, the package derived from it is empty or a lower case Go identifier,
  and then its eight files are distinct and lie in the directory of that name, none outside it. Options
  that pass the check name neither a keyword nor main, and never ask for durability in memory.\<close>

theorem package_is_identifier:
  assumes "oPackage opt = PackageName lower name" "Options_Validate opt = None"
  shows "go_ident (oPackage opt) \<and> distinct (map snd (outputs opt)) \<and> length (outputs opt) = 8
    \<and> list_all (\<lambda>(t, path). hd path = oPackage opt \<and> list_all plain path) (outputs opt)
    \<and> \<not> IsKeyword (oPackage opt) \<and> oPackage opt \<noteq> ''main'' \<and> (oDurable opt \<longrightarrow> oPersist opt)"
proof -
  have v: "oPackage opt \<noteq> []" "\<not> IsKeyword (oPackage opt)" "oPackage opt \<noteq> ''main''" "oDurable opt \<longrightarrow> oPersist opt"
    using assms(2) by (auto simp: Options_Validate_def split: if_splits)
  have i: "go_ident (oPackage opt)"
    using packageName_loop_ident [of "[]" "lower name"] v(1) assms(1) by (simp add: PackageName_def)
  note o1 = outputs_ident [OF i, unfolded Let_def]
  have "distinct (map snd (outputs opt))" unfolding o1 by simp
  moreover have "list_all (\<lambda>path. hd path = oPackage opt \<and> list_all plain path) (map snd (outputs opt))"
    unfolding o1 using go_ident_plain [OF i] by (simp add: plain_def)
  moreover have "length (outputs opt) = 8" by (simp add: outputs_def)
  ultimately show ?thesis using v i by (auto simp: list_all_iff)
qed

theorem package_is_identifier_witness:
  "let opt = \<lparr>oName = ''9 Lives!'', oPackage = PackageName (\<lambda>_. ''9 lives!'') ''9 Lives!'', oDurable = True, oProxy = True,
     oAccounts = False, oPayments = False, oEmail = False, oPersist = True\<rparr>
   in oPackage opt = ''lives'' \<and> go_ident (oPackage opt) \<and> distinct (map snd (outputs opt))"
proof -
  let ?opt = "\<lparr>oName = ''9 Lives!'', oPackage = PackageName (\<lambda>_. ''9 lives!'') ''9 Lives!'', oDurable = True, oProxy = True,
     oAccounts = False, oPayments = False, oEmail = False, oPersist = True\<rparr>"
  have p: "oPackage ?opt = ''lives''" by (simp add: PackageName_def less_eq_char_def)
  then have "Options_Validate ?opt = None" by (simp add: Options_Validate_def IsKeyword_def)
  from package_is_identifier [OF _ this, of "\<lambda>_. ''9 lives!''" "''9 Lives!''"] p show ?thesis by (simp add: Let_def)
qed

text \<open>An identifier is not yet a package that compiles: the blank one passes the check, and one that ends
  in _test puts the workflow into a file the compiler takes for a test.\<close>

theorem blank_package_accepted:
  "Options_Validate \<lparr>oName = ''_'', oPackage = PackageName (\<lambda>n. n) ''_'', oDurable = True, oProxy = True,
     oAccounts = True, oPayments = True, oEmail = True, oPersist = True\<rparr> = None \<and> PackageName (\<lambda>n. n) ''_'' = ''_''"
  by (simp add: Options_Validate_def PackageName_def IsKeyword_def)

theorem test_package_is_a_test_file:
  "let opt = \<lparr>oName = ''load_test'', oPackage = PackageName (\<lambda>n. n) ''load_test'', oDurable = True, oProxy = True,
     oAccounts = True, oPayments = True, oEmail = True, oPersist = True\<rparr>
   in Options_Validate opt = None \<and> [''load_test'', ''load_test.go''] \<in> set (map snd (outputs opt))"
proof -
  have p: "PackageName (\<lambda>n. n) ''load_test'' = ''load_test''" by (simp add: PackageName_def less_eq_char_def)
  have i: "go_ident ''load_test''" by (simp add: go_ident_def ident_char_def less_eq_char_def)
  let ?opt = "\<lparr>oName = ''load_test'', oPackage = ''load_test'', oDurable = True, oProxy = True,
     oAccounts = True, oPayments = True, oEmail = True, oPersist = True\<rparr>"
  have "map snd (outputs ?opt) ! 0 = [''load_test'', ''load_test.go'']"
    using outputs_ident [of ?opt] i by (simp add: Let_def)
  moreover have "length (map snd (outputs ?opt)) = 8" by (simp add: outputs_def)
  ultimately have "[''load_test'', ''load_test.go''] \<in> set (map snd (outputs ?opt))"
    by (metis nth_mem zero_less_numeral)
  moreover have "Options_Validate ?opt = None" by (simp add: Options_Validate_def IsKeyword_def)
  ultimately show ?thesis unfolding p Let_def by blast
qed

section \<open>Writing\<close>

text \<open>What a step of the writing leaves: every file that was there, and its content.\<close>

definition files_kept :: "fsys \<Rightarrow> fsys \<Rightarrow> bool" where
  "files_kept fs fs' \<longleftrightarrow> (\<forall>p c. get (fsFiles fs) p = Some c \<longrightarrow> get (fsFiles fs') p = Some c)"

lemma files_keptD: "files_kept fs fs' \<Longrightarrow> get (fsFiles fs) p = Some c \<Longrightarrow> get (fsFiles fs') p = Some c"
  by (simp add: files_kept_def)

lemma os_Stat_files: "os_Stat p fs = (r, fs') \<Longrightarrow> fsFiles fs' = fsFiles fs"
  by (auto simp: os_Stat_def Let_def split: option.splits if_splits)

lemma os_Stat_free: "os_Stat p fs = (NotExist, fs') \<Longrightarrow> get (fsFiles fs) p = None"
  by (auto simp: os_Stat_def Let_def split: option.splits if_splits)

lemma check_free_files: "check_free root xs fs = (r, fs') \<Longrightarrow> fsFiles fs' = fsFiles fs"
proof (induction xs arbitrary: fs)
  case (Cons x xs)
  obtain rel c where x: "x = (rel, c)" by (cases x)
  obtain st fs1 where s: "os_Stat (filepath_Join root rel) fs = (st, fs1)" by fastforce
  show ?case using Cons.prems Cons.IH [of fs1] os_Stat_files [OF s] by (cases st) (simp_all add: x s)
qed simp

lemma check_free_free:
  "check_free root xs fs = (None, fs') \<Longrightarrow> (rel, c) \<in> set xs \<Longrightarrow> get (fsFiles fs) (filepath_Join root rel) = None"
proof (induction xs arbitrary: fs)
  case (Cons x xs)
  obtain rel1 c1 where x: "x = (rel1, c1)" by (cases x)
  obtain st fs1 where s: "os_Stat (filepath_Join root rel1) fs = (st, fs1)" by fastforce
  from Cons.prems(1) have n: "st = NotExist" by (cases st) (simp_all add: x s)
  with Cons.prems(1) have r: "check_free root xs fs1 = (None, fs')" by (simp add: x s)
  show ?case
  proof (cases "(rel, c) = x")
    case True
    with os_Stat_free [OF s [unfolded n]] x show ?thesis by simp
  next
    case False
    with Cons.prems(2) have "(rel, c) \<in> set xs" by simp
    from Cons.IH [OF r this] os_Stat_files [OF s] show ?thesis by simp
  qed
qed simp

lemma mkdirs_files: "fsFiles (snd (mkdirs ps fs)) = fsFiles fs"
proof (induction ps arbitrary: fs)
  case (Cons p ps)
  show ?case by (cases "fsFault fs (fsCalls fs)") (simp_all add: Cons.IH Let_def)
qed simp

lemma os_MkdirAll_files: "os_MkdirAll p fs = (r, fs') \<Longrightarrow> fsFiles fs' = fsFiles fs"
  by (metis mkdirs_files os_MkdirAll_def snd_conv)

lemma os_WriteFile_other: "os_WriteFile p c fs = (r, fs') \<Longrightarrow> q \<noteq> p \<Longrightarrow> get (fsFiles fs') q = get (fsFiles fs) q"
  by (auto simp: os_WriteFile_def Let_def split: if_splits option.splits)

lemma os_WriteFile_ok: "os_WriteFile p c fs = (None, fs') \<Longrightarrow> get (fsFiles fs') p = Some c"
  by (auto simp: os_WriteFile_def Let_def split: if_splits option.splits)

lemma write_all_other:
  assumes "p \<notin> (\<lambda>(rel, c). filepath_Join root rel) ` set xs"
  shows "get (fsFiles (snd (write_all root xs written fs))) p = get (fsFiles fs) p"
  using assms
proof (induction xs arbitrary: written fs)
  case (Cons x xs)
  obtain rel content where x: "x = (rel, content)" by (cases x)
  obtain e1 fs1 where m: "os_MkdirAll (butlast (filepath_Join root rel)) fs = (e1, fs1)" by fastforce
  obtain e2 fs2 where w: "os_WriteFile (filepath_Join root rel) content fs1 = (e2, fs2)" by fastforce
  have f: "fsFiles fs1 = fsFiles fs" using os_MkdirAll_files [OF m] .
  have g: "get (fsFiles fs2) p = get (fsFiles fs) p" using os_WriteFile_other [OF w, of p] f Cons.prems x by auto
  show ?case
  proof (cases e1)
    case (Some e)
    with m x f show ?thesis by simp
  next
    case None
    with m w x g Cons show ?thesis by (cases e2) simp_all
  qed
qed simp

lemma write_all_wrote:
  assumes "write_all root xs written fs = (Inr done1, fs')" "distinct (map (\<lambda>(rel, c). filepath_Join root rel) xs)"
  shows "done1 = written @ map fst xs \<and> (\<forall>(rel, c) \<in> set xs. get (fsFiles fs') (filepath_Join root rel) = Some c)"
  using assms
proof (induction xs arbitrary: written fs)
  case (Cons x xs)
  obtain rel content where x: "x = (rel, content)" by (cases x)
  obtain e1 fs1 where m: "os_MkdirAll (butlast (filepath_Join root rel)) fs = (e1, fs1)" by fastforce
  obtain e2 fs2 where w: "os_WriteFile (filepath_Join root rel) content fs1 = (e2, fs2)" by fastforce
  from Cons.prems(1) m x have n1: "e1 = None" by (cases e1) simp_all
  from Cons.prems(1) m w x n1 have n2: "e2 = None" by (cases e2) simp_all
  from Cons.prems(1) m w x n1 n2 have r: "write_all root xs (written @ [rel]) fs2 = (Inr done1, fs')" by simp
  have d: "filepath_Join root rel \<notin> (\<lambda>(rel, c). filepath_Join root rel) ` set xs"
    "distinct (map (\<lambda>(rel, c). filepath_Join root rel) xs)"
    using Cons.prems(2) x by auto
  have "get (fsFiles fs') (filepath_Join root rel) = Some content"
    using write_all_other [OF d(1), of "written @ [rel]" fs2] r os_WriteFile_ok [OF w [unfolded n2]] by simp
  with Cons.IH [OF r d(2)] x show ?case by simp
qed simp

text \<open>What one template renders to, when nothing fails.\<close>

definition rendering :: "'t template_env \<Rightarrow> template_data \<Rightarrow> string \<Rightarrow> string option" where
  "rendering te data tmplPath =
     (case teRead te tmplPath of
        Inl _ \<Rightarrow> None
      | Inr raw \<Rightarrow>
          (case teParse te tmplPath raw of
             Inl _ \<Rightarrow> None
           | Inr tmpl \<Rightarrow>
               (case teExecute te tmpl data of
                  Inl _ \<Rightarrow> None
                | Inr buf \<Rightarrow> (case teFormat te buf of Inl _ \<Rightarrow> None | Inr c \<Rightarrow> Some c))))"

lemma render_loop_step:
  assumes "render_loop te data ((t, path) # rest) files = Inr r"
  obtains c where "rendering te data t = Some c" "render_loop te data rest (put path c files) = Inr r"
  using assms by (auto simp: rendering_def split: sum.splits)

lemma render_loop_ok:
  assumes "render_loop te data xs files = Inr r" "distinct (map snd xs)" "wf_map files"
  shows "wf_map r \<and> (\<forall>path. path \<notin> snd ` set xs \<longrightarrow> get r path = get files path)
    \<and> (\<forall>(t, path) \<in> set xs. rendering te data t \<noteq> None \<and> get r path = rendering te data t)"
  using assms
proof (induction xs arbitrary: files)
  case (Cons x xs)
  obtain t path where x: "x = (t, path)" by (cases x)
  obtain c where c: "rendering te data t = Some c" "render_loop te data xs (put path c files) = Inr r"
    using Cons.prems(1) unfolding x by (rule render_loop_step)
  have d: "path \<notin> snd ` set xs" "distinct (map snd xs)" "wf_map (put path c files)"
    using Cons.prems(2,3) x by auto
  from Cons.IH [OF c(2) d(2,3)] d(1) c(1) show ?case by (auto simp: x)
qed simp

lemma filepath_Join_plain: "list_all plain rel \<Longrightarrow> filepath_Join root rel = path_Clean True root @ rel"
  by (simp add: filepath_Join_def path_Clean_append)

lemma write_all_kept:
  assumes w: "write_all root xs written fs = (res, fs')"
    and free: "\<And>rel c. (rel, c) \<in> set xs \<Longrightarrow> get (fsFiles fs) (filepath_Join root rel) = None"
  shows "files_kept fs fs'"
  unfolding files_kept_def
proof (intro allI impI)
  fix p c assume c: "get (fsFiles fs) p = Some c"
  have "p \<notin> (\<lambda>(rel, c). filepath_Join root rel) ` set xs" using free c by fastforce
  from write_all_other [OF this, of written fs] w c show "get (fsFiles fs') p = Some c" by simp
qed

text \<open>The outputs of an identifier, as the loops of Write meet them.\<close>

lemma outputs_plain:
  assumes "go_ident (oPackage opt)"
  shows "distinct (map snd (outputs opt))" "(t, rel) \<in> set (outputs opt) \<Longrightarrow> list_all plain rel"
proof -
  note o1 = outputs_ident [OF assms, unfolded Let_def]
  show "distinct (map snd (outputs opt))" unfolding o1 by simp
  have "list_all (list_all plain) (map snd (outputs opt))"
    unfolding o1 using go_ident_plain [OF assms] by (simp add: plain_def)
  then show "list_all plain rel" if "(t, rel) \<in> set (outputs opt)" using that by (auto simp: list_all_iff)
qed

lemma Render_ok:
  assumes r: "Render te visit modulePath opt = Inr files" and p: "oPackage opt = PackageName lower name"
    and m: "mset (visit (outputs opt)) = mset (outputs opt)"
  shows "go_ident (oPackage opt) \<and> wf_map files \<and> fst ` set files = snd ` set (outputs opt)
    \<and> (\<forall>(t, rel) \<in> set (outputs opt). rendering te (options.extend opt \<lparr>tdModulePath = modulePath\<rparr>) t \<noteq> None
        \<and> get files rel = rendering te (options.extend opt \<lparr>tdModulePath = modulePath\<rparr>) t)"
proof -
  have v: "Options_Validate opt = None" using r by (simp add: Render_def split: option.splits)
  have l: "render_loop te (options.extend opt \<lparr>tdModulePath = modulePath\<rparr>) (visit (outputs opt)) [] = Inr files"
    using r v by (simp add: Render_def)
  have "oPackage opt \<noteq> []" using v by (simp add: Options_Validate_def split: if_splits)
  then have i: "go_ident (oPackage opt)"
    using packageName_loop_ident [of "[]" "lower name"] p by (simp add: PackageName_def)
  have d: "distinct (map snd (visit (outputs opt)))"
    using outputs_plain(1) [OF i] by (metis m mset_eq_imp_distinct_iff mset_map)
  have s: "set (visit (outputs opt)) = set (outputs opt)" using m by (rule mset_eq_setD)
  have w: "wf_map ([] :: (string list, string) gomap)" by simp
  note k = render_loop_ok [OF l d w]
  have "rel \<in> fst ` set files \<longleftrightarrow> rel \<in> snd ` set (outputs opt)" for rel
  proof -
    have "rel \<in> fst ` set files \<longleftrightarrow> get files rel \<noteq> None"
      using get_Some_key [of files rel] by (auto simp: map_of_eq_None_iff)
    also have "\<dots> \<longleftrightarrow> rel \<in> snd ` set (outputs opt)"
    proof (cases "rel \<in> snd ` set (outputs opt)")
      case True
      then obtain t where "(t, rel) \<in> set (outputs opt)" by auto
      with k True show ?thesis unfolding s by fastforce
    next
      case False
      with k show ?thesis unfolding s by simp
    qed
    finally show ?thesis .
  qed
  then have "fst ` set files = snd ` set (outputs opt)" by blast
  with i k show ?thesis unfolding s by simp
qed

lemma render_loop_error: "render_loop te data xs files = Inl e \<Longrightarrow> e \<noteq> ScExists p"
  by (induction te data xs files rule: render_loop.induct) (auto split: sum.splits)

lemma Render_error:
  assumes "Render te visit modulePath opt = Inl e"
  shows "e \<noteq> ScExists p"
proof (cases "Options_Validate opt")
  case None
  with assms have "render_loop te (options.extend opt \<lparr>tdModulePath = modulePath\<rparr>) (visit (outputs opt)) [] = Inl e"
    by (simp add: Render_def)
  then show ?thesis by (rule render_loop_error)
next
  case (Some err)
  with assms show ?thesis by (auto simp: Render_def Options_Validate_def split: if_splits)
qed

lemma write_all_error: "write_all root xs written fs = (Inl e, fs') \<Longrightarrow> e \<noteq> ScExists p"
proof (induction xs arbitrary: written fs)
  case (Cons x xs)
  obtain rel content where x: "x = (rel, content)" by (cases x)
  obtain e1 fs1 where m: "os_MkdirAll (butlast (filepath_Join root rel)) fs = (e1, fs1)" by fastforce
  obtain e2 fs2 where w: "os_WriteFile (filepath_Join root rel) content fs1 = (e2, fs2)" by fastforce
  show ?case
  proof (cases e1)
    case Some
    with Cons.prems m x show ?thesis by auto
  next
    case None
    with Cons.prems Cons.IH m w x show ?thesis by (cases e2) auto
  qed
qed simp

lemma write_checked:
  assumes c: "check_free root cs fs = (None, fs1)" and w: "write_all root ws [] fs1 = (res, fs')"
    and m: "mset cs = mset files" "mset ws = mset files" "wf_map files"
    and p: "\<forall>rel \<in> fst ` set files. list_all plain rel"
  shows "files_kept fs fs'"
    "get (fsFiles fs') q = get (fsFiles fs) q \<or> q \<in> filepath_Join root ` fst ` set files"
    "res \<noteq> Inl (ScExists r)"
    "res = Inr written \<Longrightarrow> mset written = mset (map fst files)
      \<and> (\<forall>rel content. get files rel = Some content \<longrightarrow> get (fsFiles fs) (filepath_Join root rel) = None
            \<and> get (fsFiles fs') (filepath_Join root rel) = Some content)"
proof -
  have s: "set cs = set files" "set ws = set files" using m mset_eq_setD by blast+
  note f1 = check_free_files [OF c]
  have free: "get (fsFiles fs) (filepath_Join root rel) = None" if "(rel, content) \<in> set files" for rel content
    using check_free_free [OF c] that s by blast
  have "files_kept fs1 fs'" by (rule write_all_kept [OF w]) (use free s f1 in auto)
  then show "files_kept fs fs'" using f1 by (simp add: files_kept_def)
  show "get (fsFiles fs') q = get (fsFiles fs) q \<or> q \<in> filepath_Join root ` fst ` set files"
    using write_all_other [of q root ws "[]" fs1] w f1 s by force
  show "res \<noteq> Inl (ScExists r)" using write_all_error [of root ws "[]" fs1] w by blast
  assume res: "res = Inr written"
  have J: "filepath_Join root rel = path_Clean True root @ rel" if "rel \<in> fst ` set files" for rel
    using p that filepath_Join_plain by blast
  have "inj_on (filepath_Join root) (fst ` set files)"
    using J by (intro inj_onI) (metis same_append_eq)
  moreover have "distinct (map fst ws)" using m by (metis mset_eq_imp_distinct_iff mset_map)
  ultimately have "distinct (map (filepath_Join root) (map fst ws))"
    unfolding distinct_map [of _ "map fst ws"] set_map s by blast
  then have d: "distinct (map (\<lambda>(rel, c). filepath_Join root rel) ws)" by (simp add: comp_def split_def)
  from write_all_wrote [OF w [unfolded res] d] have
    o: "written = map fst ws" "\<And>rel content. (rel, content) \<in> set files \<Longrightarrow>
      get (fsFiles fs') (filepath_Join root rel) = Some content"
    unfolding s by auto
  have "mset written = mset (map fst files)" unfolding o(1) using m by simp
  with free o(2) show "mset written = mset (map fst files)
      \<and> (\<forall>rel content. get files rel = Some content \<longrightarrow> get (fsFiles fs) (filepath_Join root rel) = None
            \<and> get (fsFiles fs') (filepath_Join root rel) = Some content)"
    by (meson map_of_SomeD)
qed

text \<open>C37. Write never clobbers. Whatever fails, and at whatever point, a file that exists keeps its content,
  and nothing changes but the generated paths; a refusal changes no file. A write that succeeds reports
  exactly the generated paths, each of them was free, and each holds the formatted rendering of its
  template, in whatever order Go visits its maps.\<close>

theorem write_never_clobbers:
  assumes "Write te vi root modulePath opt fs = (res, fs')" "oPackage opt = PackageName lower name"
    and "\<forall>xs. mset (viOutputs vi xs) = mset xs" "\<forall>xs. mset (viCheck vi xs) = mset xs"
      "\<forall>xs. mset (viWrite vi xs) = mset xs"
  shows "(\<forall>p c. get (fsFiles fs) p = Some c \<longrightarrow> get (fsFiles fs') p = Some c)
    \<and> (\<forall>p. get (fsFiles fs') p = get (fsFiles fs) p \<or> p \<in> (\<lambda>(t, rel). filepath_Join root rel) ` set (outputs opt))
    \<and> (\<forall>p. res = Inl (ScExists p) \<longrightarrow> fsFiles fs' = fsFiles fs)
    \<and> (\<forall>written. res = Inr written \<longrightarrow>
         mset written = mset (map snd (outputs opt))
         \<and> (\<forall>(t, rel) \<in> set (outputs opt).
              get (fsFiles fs) (filepath_Join root rel) = None
              \<and> rendering te (options.extend opt \<lparr>tdModulePath = modulePath\<rparr>) t \<noteq> None
              \<and> get (fsFiles fs') (filepath_Join root rel)
                = rendering te (options.extend opt \<lparr>tdModulePath = modulePath\<rparr>) t))"
proof (cases "Render te (viOutputs vi) modulePath opt")
  case (Inl e)
  with assms(1) Render_error [OF Inl] show ?thesis by (auto simp: Write_def)
next
  case (Inr files)
  note ok = Render_ok [OF Inr assms(2) assms(3) [rule_format]]
  obtain e fs1 where c: "check_free root (viCheck vi files) fs = (e, fs1)" by fastforce
  note f1 = check_free_files [OF c]
  show ?thesis
  proof (cases e)
    case (Some err)
    with Inr c f1 assms(1) show ?thesis by (auto simp: Write_def)
  next
    case None
    have w: "write_all root (viWrite vi files) [] fs1 = (res, fs')"
      using Inr c None assms(1) by (simp add: Write_def)
    note i = outputs_plain [OF conjunct1 [OF ok]]
    have keys: "fst ` set files = snd ` set (outputs opt)" "wf_map files" using ok by blast+
    have "\<forall>rel \<in> fst ` set files. list_all plain rel" using i(2) unfolding keys(1) by auto
    note k = write_checked [OF c [unfolded None] w assms(4) [rule_format] assms(5) [rule_format] keys(2) this]
    have same: "mset (map fst files) = mset (map snd (outputs opt))"
      using keys i(1) by (intro iffD1 [OF set_eq_iff_mset_eq_distinct]) simp_all
    have paths: "(\<lambda>(t, rel). filepath_Join root rel) ` set (outputs opt) = filepath_Join root ` fst ` set files"
      unfolding keys(1) image_image by (simp add: case_prod_beta)
    have wrote: "mset written = mset (map snd (outputs opt))
        \<and> (\<forall>(t, rel) \<in> set (outputs opt).
              get (fsFiles fs) (filepath_Join root rel) = None
              \<and> rendering te (options.extend opt \<lparr>tdModulePath = modulePath\<rparr>) t \<noteq> None
              \<and> get (fsFiles fs') (filepath_Join root rel)
                = rendering te (options.extend opt \<lparr>tdModulePath = modulePath\<rparr>) t)"
      if "res = Inr written" for written
      using k(4) [OF that] ok same by (force simp: case_prod_beta)
    show ?thesis
      unfolding paths using k(1) [unfolded files_kept_def] k(2) k(3) wrote by blast
  qed
qed

text \<open>A tree with one workflow in it: another lands beside it, and the same one again is refused.\<close>

definition demo_templates :: "string template_env" where
  "demo_templates = \<lparr>teRead = Inr, teParse = (\<lambda>_ raw. Inr raw), teExecute = (\<lambda>raw data. Inr (tdModulePath data @ raw)),
     teFormat = Inr\<rparr>"

definition demo_visits :: visits where
  "demo_visits = \<lparr>viOutputs = rev, viCheck = rev, viWrite = (\<lambda>xs. xs)\<rparr>"

definition demo_tree :: fsys where
  "demo_tree = \<lparr>fsFiles = [([''w'', ''go.mod''], ''module m'')], fsDirs = [[], [''w'']], fsFault = (\<lambda>n. None),
     fsTorn = (\<lambda>n. None), fsCalls = 0\<rparr>"

definition demo_options :: options where
  "demo_options = \<lparr>oName = ''a'', oPackage = PackageName (\<lambda>n. n) ''a'', oDurable = True, oProxy = True, oAccounts = True,
     oPayments = True, oEmail = True, oPersist = True\<rparr>"

lemma demo_writes:
  "fst (Write demo_templates demo_visits [''w''] ''m'' demo_options demo_tree)
    = Inr (map snd (rev (outputs demo_options)))"
  by code_simp

theorem write_never_clobbers_witness:
  "let (res, fs') = Write demo_templates demo_visits [''w''] ''m'' demo_options demo_tree
   in get (fsFiles fs') [''w'', ''go.mod''] = Some ''module m''
      \<and> get (fsFiles fs') [''w'', ''a'', ''a.go''] = Some ''mtemplates/workflow.go.tmpl''"
proof -
  obtain res fs' where w: "Write demo_templates demo_visits [''w''] ''m'' demo_options demo_tree = (res, fs')" by fastforce
  have r: "res = Inr (map snd (rev (outputs demo_options)))" using demo_writes w by simp
  have "oPackage demo_options = PackageName (\<lambda>n. n) ''a''" by (simp add: demo_options_def)
  note k = write_never_clobbers [OF w this, simplified demo_visits_def, simplified]
  have "get (fsFiles demo_tree) [''w'', ''go.mod''] = Some ''module m''" by (simp add: demo_tree_def)
  with k have g: "get (fsFiles fs') [''w'', ''go.mod''] = Some ''module m''" by blast
  have "(''templates/workflow.go.tmpl'', [''a'', ''a.go'']) \<in> set (outputs demo_options)" by code_simp
  with k r have "get (fsFiles fs') (filepath_Join [''w''] [''a'', ''a.go''])
      = rendering demo_templates (options.extend demo_options \<lparr>tdModulePath = ''m''\<rparr>) ''templates/workflow.go.tmpl''"
    by blast
  moreover have "filepath_Join [''w''] [''a'', ''a.go''] = [''w'', ''a'', ''a.go'']" by code_simp
  ultimately show ?thesis using g w by (simp add: rendering_def demo_templates_def demo_options_def options.defs)
qed

section \<open>The arguments\<close>

definition flag_group :: "string list \<Rightarrow> bool" where
  "flag_group g \<longleftrightarrow>
     (case g of
        [a] \<Rightarrow> has_dash a \<and> TrimDashes a \<noteq> ''repo''
      | [a, v] \<Rightarrow> has_dash a \<and> TrimDashes a = ''repo''
      | _ \<Rightarrow> False)"

lemma flag_group_loop:
  assumes "flag_group g"
  shows "splitName_loop (g @ rest) name flags = splitName_loop rest name (flags @ g)"
proof -
  consider (one) a where "g = [a]" "has_dash a" "TrimDashes a \<noteq> ''repo''"
    | (two) a v where "g = [a, v]" "has_dash a" "TrimDashes a = ''repo''"
    using assms by (auto simp: flag_group_def split: list.splits)
  then show ?thesis
  proof cases
    case one
    then show ?thesis by (cases rest) simp_all
  qed simp
qed

lemma flag_groups_loop:
  "list_all flag_group gs \<Longrightarrow> splitName_loop (concat gs @ rest) name flags = splitName_loop rest name (flags @ concat gs)"
  by (induction gs arbitrary: flags) (simp_all add: flag_group_loop)

text \<open>A name may stand anywhere among the flags: before, between or after them, the flags reach the
  parser in their order with the value of a separate repo flag in its place, and the command does the
  same as with the name in front.\<close>

theorem name_sits_anywhere:
  assumes "list_all flag_group gs1" "list_all flag_group gs2" "name \<noteq> []" "\<not> has_dash name"
  shows "splitName (concat gs1 @ name # concat gs2) = (name, concat gs1 @ concat gs2)
    \<and> runNew te vi lower cwd (concat gs1 @ name # concat gs2) fs
      = runNew te vi lower cwd (name # concat gs1 @ concat gs2) fs"
proof -
  have n: "splitName_loop (name # rest) [] flags = splitName_loop rest name flags" for rest flags
    using assms(3,4) by (cases rest) simp_all
  have e: "splitName_loop (concat gs) nm flags = (nm, flags @ concat gs)" if "list_all flag_group gs" for gs nm flags
    using flag_groups_loop [OF that, of "[]"] by simp
  have s: "splitName (concat gs1 @ name # concat gs2) = (name, concat gs1 @ concat gs2)"
    unfolding splitName_def flag_groups_loop [OF assms(1)] n e [OF assms(2)] by simp
  have "splitName (name # concat (gs1 @ gs2)) = (name, concat (gs1 @ gs2))"
    unfolding splitName_def n by (subst e) (use assms in simp_all)
  with s show ?thesis by (simp add: runNew_def)
qed

theorem name_sits_anywhere_witness:
  "splitName [''--no-proxy'', ''--repo'', ''memory'', ''shop'', ''--no-durable'']
    = (''shop'', [''--no-proxy'', ''--repo'', ''memory'', ''--no-durable''])"
  using name_sits_anywhere [of "[[''--no-proxy''], [''--repo'', ''memory'']]" "[[''--no-durable'']]" "''shop''", THEN conjunct1]
  by (simp add: flag_group_def has_dash_def TrimDashes_def)

section \<open>The module\<close>

definition on_disk :: "fsys \<Rightarrow> string list \<Rightarrow> bool" where
  "on_disk fs p \<longleftrightarrow> get (fsFiles fs) p \<noteq> None \<or> p \<in> set (fsDirs fs)"

lemma os_Stat_sound:
  assumes "fsFault fs = (\<lambda>n. None)"
  shows "fst (os_Stat p fs) = Exists \<longleftrightarrow> on_disk fs p" "snd (os_Stat p fs) = fs\<lparr>fsCalls := Suc (fsCalls fs)\<rparr>"
  using assms by (simp_all add: os_Stat_def on_disk_def Let_def)

lemma on_disk_calls [simp]: "on_disk (fs\<lparr>fsCalls := n\<rparr>) p = on_disk fs p"
  by (simp add: on_disk_def)

text \<open>When nothing fails, the module is that of the nearest directory with a go.mod, from the working one
  up to the root, and there is no answer only when none of them has one.\<close>

theorem go_mod_nearest:
  assumes "fsFault fs = (\<lambda>n. None)"
  shows "case fst (findGoMod dir fs) of
      Inr p \<Rightarrow> \<exists>n \<le> length dir. p = take n dir @ [''go.mod''] \<and> on_disk fs p
        \<and> (\<forall>k. n < k \<and> k \<le> length dir \<longrightarrow> \<not> on_disk fs (take k dir @ [''go.mod'']))
    | Inl e \<Rightarrow> e = ScNoGoMod \<and> (\<forall>k. \<not> on_disk fs (take k dir @ [''go.mod'']))"
  using assms
proof (induction dir arbitrary: fs rule: rev_induct)
  case Nil
  then show ?case
    using os_Stat_sound [OF Nil, of "[''go.mod'']"]
    by (cases "os_Stat [''go.mod''] fs"; cases "fst (os_Stat [''go.mod''] fs)") (auto simp: findGoMod.simps [of "[]"])
next
  case (snoc d dir)
  let ?fs = "fs\<lparr>fsCalls := Suc (fsCalls fs)\<rparr>"
  note st = os_Stat_sound [OF snoc.prems, of "dir @ [d, ''go.mod'']"]
  show ?case
  proof (cases "on_disk fs (dir @ [d, ''go.mod''])")
    case True
    with st have "findGoMod (dir @ [d]) fs = (Inr (dir @ [d, ''go.mod'']), ?fs)"
      by (cases "os_Stat (dir @ [d, ''go.mod'']) fs") (simp add: findGoMod.simps [of "dir @ [d]"])
    with True show ?thesis by (auto intro!: exI [of _ "Suc (length dir)"])
  next
    case False
    with st have up: "findGoMod (dir @ [d]) fs = findGoMod dir ?fs"
      by (cases "os_Stat (dir @ [d, ''go.mod'']) fs"; cases "fst (os_Stat (dir @ [d, ''go.mod'']) fs)")
        (simp_all add: findGoMod.simps [of "dir @ [d]"])
    have take: "take k (dir @ [d]) = (if k \<le> length dir then take k dir else dir @ [d])" for k by simp
    have "fsFault ?fs = (\<lambda>n. None)" using snoc.prems by simp
    from snoc.IH [OF this] show ?thesis
      unfolding up take using False
      by (cases "fst (findGoMod dir ?fs)") (auto simp: le_Suc_eq split: if_splits)
  qed
qed

text \<open>A module directive keeps what follows the path on its line, a comment included.\<close>

theorem module_keeps_comment: "module_scan gomod [''module a // b''] = Inr ''a // b''"
  by (simp add: maxLine_def TrimSpace_def CutPrefix_def is_space_def)

end
