(* ===== verification/Proxies_Sampler.thy ===== *)
theory Proxies_Sampler
  imports Proxies Complex_Main
begin

text \<open>
  The sampler of the bayesian strategy (src/proxies/bayesian.go): Beta draws as quotients of gamma
  draws, each by the rejection loop of Marsaglia and Tsang.

  Floating point and the random source are parameters: a record of the operations the sampler uses,
  and a generator with its two draws. The rejection loop may reject for ever, so it is a partial
  function: not returning is the value None. The promises are over exact real arithmetic.
\<close>

record 'f fops =
  fLit :: "rat \<Rightarrow> 'f"
  fUint :: "64 word \<Rightarrow> 'f"
  fAdd :: "'f \<Rightarrow> 'f \<Rightarrow> 'f"
  fSub :: "'f \<Rightarrow> 'f \<Rightarrow> 'f"
  fMul :: "'f \<Rightarrow> 'f \<Rightarrow> 'f"
  fDiv :: "'f \<Rightarrow> 'f \<Rightarrow> 'f"
  fSqrt :: "'f \<Rightarrow> 'f"
  fLog :: "'f \<Rightarrow> 'f"
  fLess :: "'f \<Rightarrow> 'f \<Rightarrow> bool"
  fLe :: "'f \<Rightarrow> 'f \<Rightarrow> bool"

record ('f, 'g) source =
  NormFloat64 :: "'g \<Rightarrow> 'f \<times> 'g"
  Float64 :: "'g \<Rightarrow> 'f \<times> 'g"

section \<open>The generator of a strategy\<close>

text \<open>An option replaces the generator; by default it is seeded from the clock.\<close>

definition WithRand :: "'g \<Rightarrow> 'g \<Rightarrow> 'g" where
  "WithRand rng b = rng"

definition WithSeed :: "(64 word \<Rightarrow> 'g) \<Rightarrow> 64 word \<Rightarrow> 'g \<Rightarrow> 'g" where
  "WithSeed newSource seed b = newSource seed"

definition NewBayesian :: "(64 word \<Rightarrow> 'g) \<Rightarrow> 64 word \<Rightarrow> ('g \<Rightarrow> 'g) list \<Rightarrow> 'g" where
  "NewBayesian newSource now opts = fold (\<lambda>opt b. opt b) opts (newSource now)"

section \<open>The sampler\<close>

text \<open>One pass of the loop: a sample, or another pass; and the source it leaves.\<close>

definition gamma_pass ::
    "'f fops \<Rightarrow> ('f, 'g) source \<Rightarrow> 'f \<Rightarrow> 'f \<Rightarrow> 'g \<Rightarrow> 'f option \<times> 'g" where
  "gamma_pass F R d c g =
     (let (x, g1) = NormFloat64 R g;
          v = fAdd F (fLit F 1) (fMul F c x)
      in if fLe F v (fLit F 0) then (None, g1)
         else
           let v = fMul F (fMul F v v) v;
               (u, g2) = Float64 R g1
           in if fLess F u (fSub F (fLit F 1)
                  (fMul F (fMul F (fMul F (fMul F (fLit F (331 / 10000)) x) x) x) x))
              then (Some (fMul F d v), g2)
              else if fLess F (fLog F u)
                  (fAdd F (fMul F (fMul F (fLit F (1 / 2)) x) x)
                    (fMul F d (fAdd F (fSub F (fLit F 1) v) (fLog F v))))
              then (Some (fMul F d v), g2)
              else (None, g2))"

partial_function (option) gamma_loop ::
    "'f fops \<Rightarrow> ('f, 'g) source \<Rightarrow> 'f \<Rightarrow> 'f \<Rightarrow> 'g \<Rightarrow> ('f \<times> 'g) option" where
  "gamma_loop F R d c g =
     (case gamma_pass F R d c g of
        (Some r, g') \<Rightarrow> Some (r, g')
      | (None, g') \<Rightarrow> gamma_loop F R d c g')"

definition sampleGamma :: "'f fops \<Rightarrow> ('f, 'g) source \<Rightarrow> 'f \<Rightarrow> 'g \<Rightarrow> ('f \<times> 'g) option" where
  "sampleGamma F R shape g =
     (let d = fSub F shape (fLit F (1 / 3));
          c = fDiv F (fLit F 1) (fSqrt F (fMul F (fLit F 9) d))
      in gamma_loop F R d c g)"

definition sampleBeta :: "'f fops \<Rightarrow> ('f, 'g) source \<Rightarrow> 'f \<Rightarrow> 'f \<Rightarrow> 'g \<Rightarrow> ('f \<times> 'g) option" where
  "sampleBeta F R alpha beta g =
     (case sampleGamma F R alpha g of
        None \<Rightarrow> None
      | Some (x, g1) \<Rightarrow>
     (case sampleGamma F R beta g1 of
        None \<Rightarrow> None
      | Some (y, g2) \<Rightarrow> Some (fDiv F x (fAdd F x y), g2)))"

text \<open>The selection with this sampler. The best sample starts below every float, here None, with the
  zero proxy.\<close>

definition theta_of :: "'f fops \<Rightarrow> ('f, 'g) source \<Rightarrow> 'g \<Rightarrow> proxy \<Rightarrow> ('f \<times> 'g) option" where
  "theta_of F R g p =
     sampleBeta F R (fAdd F (fUint F (pxSuccesses p)) (fLit F 1))
       (fAdd F (fUint F (pxFailures p)) (fLit F 1)) g"

definition zero_proxy :: proxy where
  "zero_proxy = \<lparr>resID = [], resGroup = [], resOwner = [], resMax = 0, resCreated = 0, resUpdated = 0,
     pxURL = [], pxSuccesses = 0, pxFailures = 0\<rparr>"

fun thompson_loop ::
    "'f fops \<Rightarrow> ('f, 'g) source \<Rightarrow> proxy list \<Rightarrow> proxy \<times> 'f option \<Rightarrow> 'g \<Rightarrow> ((proxy \<times> 'f option) \<times> 'g) option" where
  "thompson_loop F R [] best g = Some (best, g)"
| "thompson_loop F R (p # ps) (best, bestTheta) g =
     (case theta_of F R g p of
        None \<Rightarrow> None
      | Some (theta, g') \<Rightarrow>
          thompson_loop F R ps
            (if (case bestTheta of None \<Rightarrow> True | Some b \<Rightarrow> fLess F b theta)
             then (p, Some theta) else (best, bestTheta)) g')"

definition thompson_Select ::
    "'f fops \<Rightarrow> ('f, 'g) source \<Rightarrow> 'g \<Rightarrow> proxy list \<Rightarrow> (proxy sel_result \<times> 'g) option" where
  "thompson_Select F R g cs =
     (if cs = [] then Some (SelectErr ''no candidates'', g)
      else map_option (\<lambda>((best, bestTheta), g'). (Picked best, g'))
             (thompson_loop F R cs (zero_proxy, None) g))"

section \<open>Over exact arithmetic\<close>

definition real_ops :: "real fops" where
  "real_ops = \<lparr>fLit = of_rat, fUint = (\<lambda>w. of_nat (unat w)), fAdd = (+), fSub = (-), fMul = (*),
     fDiv = (/), fSqrt = sqrt, fLog = ln, fLess = (<), fLe = (\<le>)\<rparr>"

lemma real_ops_simps [simp]:
  "fLit real_ops = of_rat" "fUint real_ops = (\<lambda>w. of_nat (unat w))" "fAdd real_ops = (+)"
  "fSub real_ops = (-)" "fMul real_ops = (*)" "fDiv real_ops = (/)" "fSqrt real_ops = sqrt"
  "fLog real_ops = ln" "fLess real_ops = (<)" "fLe real_ops = (\<le>)"
  by (simp_all add: real_ops_def)

text \<open>A source settles when the loop, however many draws its passes take, comes to a moderate normal
  draw followed by a uniform one that is not close to 1; a good source does with probability 1.\<close>

inductive settles :: "(real, 'g) source \<Rightarrow> 'g \<Rightarrow> bool" for R where
  moderate: "\<bar>fst (NormFloat64 R g)\<bar> \<le> 1 \<Longrightarrow> fst (Float64 R (snd (NormFloat64 R g))) < 24 / 25 \<Longrightarrow> settles R g"
| later: "settles R (snd (NormFloat64 R g)) \<Longrightarrow> settles R (snd (Float64 R (snd (NormFloat64 R g)))) \<Longrightarrow> settles R g"

lemma gamma_pass_pos:
  "gamma_pass real_ops R d c g = (Some r, g') \<Longrightarrow> 0 < d \<Longrightarrow> 0 < r"
  by (auto simp: gamma_pass_def Let_def split: prod.splits if_splits)

lemma gamma_pass_moderate:
  assumes c: "0 < c" "c < 1" and x: "\<bar>fst (NormFloat64 R g)\<bar> \<le> 1"
    and u: "fst (Float64 R (snd (NormFloat64 R g))) < 24 / 25"
  shows "fst (gamma_pass real_ops R d c g) \<noteq> None"
proof -
  obtain x g1 where X: "NormFloat64 R g = (x, g1)" by fastforce
  obtain u g2 where U: "Float64 R g1 = (u, g2)" by fastforce
  have "\<bar>c * x\<bar> < 1" using c x X by (simp add: abs_mult) (smt (verit) mult_left_le)
  then have v: "\<not> 1 + c * x \<le> 0" by linarith
  have "x * x * x * x = (x\<^sup>2)\<^sup>2" by (simp add: power2_eq_square)
  moreover have "x\<^sup>2 \<le> 1" using x X by (simp add: abs_square_le_1)
  then have "(x\<^sup>2)\<^sup>2 \<le> 1" by (rule power_le_one [OF zero_le_power2])
  ultimately have "331 / 10000 * x * x * x * x \<le> 331 / 10000" by (simp only: mult.assoc)
  then have "u < 1 - 331 / 10000 * x * x * x * x" using u X U by simp
  then show ?thesis using v by (simp add: gamma_pass_def Let_def X U of_rat_divide)
qed

lemma gamma_pass_source:
  "snd (gamma_pass F R d c g) \<in> {snd (NormFloat64 R g), snd (Float64 R (snd (NormFloat64 R g)))}"
  by (auto simp: gamma_pass_def Let_def split: prod.splits)

lemma gamma_loop_returns:
  assumes "settles R g" "0 < c" "c < 1" "0 < d"
  shows "\<exists>r g'. gamma_loop real_ops R d c g = Some (r, g') \<and> 0 < r"
  using assms
proof (induction rule: settles.induct)
  case (moderate g)
  then obtain r g' where "gamma_pass real_ops R d c g = (Some r, g')"
    using gamma_pass_moderate [of c R g d] by (metis not_None_eq prod.collapse)
  then show ?case using gamma_pass_pos moderate.prems by (subst gamma_loop.simps) fastforce
next
  case (later g)
  obtain res g' where P: "gamma_pass real_ops R d c g = (res, g')" by fastforce
  show ?case
  proof (cases res)
    case None
    have "g' = snd (NormFloat64 R g) \<or> g' = snd (Float64 R (snd (NormFloat64 R g)))"
      using gamma_pass_source [of real_ops R d c g] P by simp
    then show ?thesis using later P None by (subst gamma_loop.simps) auto
  next
    case (Some r)
    then show ?thesis using P gamma_pass_pos later.prems by (subst gamma_loop.simps) fastforce
  qed
qed

lemma sampleGamma_returns:
  assumes "\<forall>g. settles R g" "1 \<le> shape"
  shows "\<exists>r g'. sampleGamma real_ops R shape g = Some (r, g') \<and> 0 < r"
proof -
  define d where "d = shape - 1 / 3"
  define c where "c = 1 / sqrt (9 * d)"
  have d: "2 / 3 \<le> d" using assms(2) by (simp add: d_def)
  have s: "1 < sqrt (9 * d)" by (rule real_less_rsqrt) (use d in simp)
  then have "0 < c" unfolding c_def by (intro divide_pos_pos) linarith+
  moreover have "c < 1" unfolding c_def using s by (subst divide_less_eq_1_pos) simp_all
  moreover have "0 < d" using d by simp
  ultimately obtain r g' where r: "gamma_loop real_ops R d c g = Some (r, g')" "0 < r"
    using gamma_loop_returns [of R g c d] assms(1) by blast
  have "sampleGamma real_ops R shape g = gamma_loop real_ops R d c g"
    unfolding sampleGamma_def Let_def d_def c_def by (simp only: real_ops_simps of_rat_divide of_rat_1 of_rat_numeral_eq)
  with r show ?thesis by simp
qed

lemma sampleBeta_returns:
  assumes "\<forall>g. settles R g" "1 \<le> alpha" "1 \<le> beta"
  shows "\<exists>r g'. sampleBeta real_ops R alpha beta g = Some (r, g') \<and> 0 < r \<and> r < 1"
proof -
  obtain x g1 where x: "sampleGamma real_ops R alpha g = Some (x, g1)" "0 < x"
    using sampleGamma_returns [OF assms(1,2)] by blast
  obtain y g2 where y: "sampleGamma real_ops R beta g1 = Some (y, g2)" "0 < y"
    using sampleGamma_returns [OF assms(1,3)] by blast
  show ?thesis using x y by (simp add: sampleBeta_def)
qed

lemma tally_nonneg: "0 \<le> (unsigned (w :: 64 word) :: real)"
  by (metis of_nat_0_le_iff of_nat_unat)

lemma theta_of_returns:
  assumes "\<forall>g. settles R g"
  shows "\<exists>r g'. theta_of real_ops R g p = Some (r, g') \<and> 0 < r \<and> r < 1"
  unfolding theta_of_def by (rule sampleBeta_returns [OF assms]) (simp_all add: tally_nonneg)

text \<open>Where every draw returns, the selection is the strategy of the manager with a total sampler.\<close>

definition total_theta :: "'f fops \<Rightarrow> ('f, 'g) source \<Rightarrow> 'g \<Rightarrow> proxy \<Rightarrow> 'f \<times> 'g" where
  "total_theta F R g p = the (theta_of F R g p)"

lemma theta_of_total:
  assumes "\<forall>g. settles R g"
  shows "theta_of real_ops R g p = Some (total_theta real_ops R g p)"
  using theta_of_returns [OF assms, of g p] by (auto simp: total_theta_def)

lemma thompson_loop_total:
  assumes "\<forall>g. settles R g"
  shows "thompson_loop real_ops R ps (q, Some t) g =
    (case bayes_loop (total_theta real_ops R) ps (Some (q, t)) g of
       (Some (q', t'), g') \<Rightarrow> Some ((q', Some t'), g') | (None, g') \<Rightarrow> None)"
proof (induction ps arbitrary: q t g)
  case (Cons p ps)
  obtain theta g' where "total_theta real_ops R g p = (theta, g')" by fastforce
  with theta_of_total [OF assms, of g p] Cons.IH show ?case by simp
qed simp

lemma thompson_Select_total:
  assumes "\<forall>g. settles R g"
  shows "thompson_Select real_ops R g cs = Some (bayes_Select (total_theta real_ops R) g cs)"
proof (cases cs)
  case (Cons p ps)
  obtain theta h where t: "total_theta real_ops R g p = (theta, h)" by fastforce
  obtain best g' where b: "bayes_loop (total_theta real_ops R) ps (Some (p, theta)) h = (best, g')" by fastforce
  obtain q t' where q: "best = Some (q, t')" using bayes_loop_Some [OF b] by blast
  show ?thesis using Cons t b q
    by (simp add: thompson_Select_def bayes_Select_def theta_of_total [OF assms] thompson_loop_total [OF assms])
qed (simp add: thompson_Select_def bayes_Select_def)

lemma draws_between:
  assumes "\<forall>g. settles R g" "(p, t) \<in> set (draws (total_theta real_ops R) cs g)"
  shows "0 < t \<and> t < 1"
  using assms(2)
proof (induction cs arbitrary: g)
  case (Cons q cs)
  obtain theta g' where t: "total_theta real_ops R g q = (theta, g')" by fastforce
  have "0 < theta \<and> theta < 1"
    using theta_of_returns [OF assms(1), of g q] theta_of_total [OF assms(1), of g q] t by auto
  with Cons t show ?case by auto
qed simp


text \<open>A source that draws 3 and 9/10, which no pass accepts, then 0 and 1/2, and so on.\<close>

definition demo_source :: "(real, nat) source" where
  "demo_source =
     \<lparr>NormFloat64 = (\<lambda>n. (if n mod 4 = 0 then 3 else 0, n + 1)),
      Float64 = (\<lambda>n. (if n mod 4 = 1 then 99 / 100 else 1 / 2, n + 1))\<rparr>"

lemma demo_source_settles: "settles demo_source n"
proof -
  have mod: "n mod 4 = 0 \<or> n mod 4 = 1 \<or> n mod 4 = 2 \<or> n mod 4 = 3" for n :: nat by arith
  have m: "settles demo_source n" if "n mod 4 \<noteq> 0" "(n + 1) mod 4 \<noteq> 1" for n
    using that by (intro settles.moderate) (simp_all add: demo_source_def)
  have 1: "settles demo_source n" if "n mod 4 \<noteq> 0" for n
  proof (rule m [OF that])
    show "(n + 1) mod 4 \<noteq> 1" using that by presburger
  qed
  have "settles demo_source n" if "n mod 4 = 0" for n
  proof (rule settles.later)
    have "(n + 1) mod 4 \<noteq> 0" "(n + 2) mod 4 \<noteq> 0" using that by presburger+
    then show "settles demo_source (snd (NormFloat64 demo_source n))"
      "settles demo_source (snd (Float64 demo_source (snd (NormFloat64 demo_source n))))"
      using 1 by (simp_all add: demo_source_def)
  qed
  with 1 show ?thesis by blast
qed


end
