(* ===== verification/Workflows_Policies.thy ===== *)
theory Workflows_Policies
  imports Workflows Complex_Main
begin

text \<open>
  The policies of a state (src/workflows/policy.go): the backoffs, Timeout, and Retry over handlers that
  are given a context.

  A context is a value, the line of the contexts it descends from and its deadline. The world keeps
  the clock and the times at which contexts are cancelled, those still to come included: that is
  the schedule of everybody else, which a wait runs against. Floating point is a parameter, a
  record of the operations ExpBackoff calls.
\<close>

unbundle bit_operations_syntax

section \<open>Backoffs\<close>

type_synonym duration = "64 word"

text \<open>A backoff maps the number of a completed attempt, the first being 1, to a delay.\<close>

type_synonym backoff = "int \<Rightarrow> duration"

definition ConstantBackoff :: "duration \<Rightarrow> backoff" where
  "ConstantBackoff d = (\<lambda>attempt. d)"

record 'f floats =
  flDuration :: "duration \<Rightarrow> 'f"
  flInt :: "int \<Rightarrow> 'f"
  flMul :: "'f \<Rightarrow> 'f \<Rightarrow> 'f"
  flPow :: "'f \<Rightarrow> 'f \<Rightarrow> 'f"
  flTrunc :: "'f \<Rightarrow> duration"

definition ExpBackoff :: "'f floats \<Rightarrow> duration \<Rightarrow> 'f \<Rightarrow> duration \<Rightarrow> backoff" where
  "ExpBackoff F base factor mx = (\<lambda>attempt.
     (let d = flTrunc F (flMul F (flDuration F base) (flPow F factor (flInt F (attempt - 1))))
      in if d \<le>s 0 \<or> mx <s d then mx else d))"

section \<open>Contexts\<close>

record ctx =
  cxLine :: "nat list"
  cxDeadline :: "int option"

record runtime =
  rtNow :: int
  rtCancels :: "nat \<rightharpoonup> int"
  rtNext :: nat

definition Canceled :: herr where "Canceled = Plain ''context canceled''"
definition DeadlineExceeded :: herr where "DeadlineExceeded = Plain ''context deadline exceeded''"

definition earlier :: "(int \<times> herr) option \<Rightarrow> (int \<times> herr) option \<Rightarrow> (int \<times> herr) option" where
  "earlier x y =
     (case x of
        None \<Rightarrow> y
      | Some (t, e) \<Rightarrow> (case y of None \<Rightarrow> x | Some (t', e') \<Rightarrow> if t' < t then y else x))"

text \<open>When a context is done, and with which error: at its deadline, or when it or a context it
  descends from is cancelled, whichever is first.\<close>

definition doneAt :: "ctx \<Rightarrow> 'w runtime_scheme \<Rightarrow> (int \<times> herr) option" where
  "doneAt c w =
     fold (\<lambda>i. earlier (map_option (\<lambda>t. (t, Canceled)) (rtCancels w i))) (cxLine c)
       (map_option (\<lambda>t. (t, DeadlineExceeded)) (cxDeadline c))"

definition ctx_Err :: "ctx \<Rightarrow> 'w runtime_scheme \<Rightarrow> herr option" where
  "ctx_Err c w = (case doneAt c w of None \<Rightarrow> None | Some (t, e) \<Rightarrow> if t \<le> rtNow w then Some e else None)"

definition min_deadline :: "int option \<Rightarrow> int \<Rightarrow> int" where
  "min_deadline d t = (case d of None \<Rightarrow> t | Some t' \<Rightarrow> min t' t)"

definition WithTimeout :: "ctx \<Rightarrow> duration \<Rightarrow> 'w runtime_scheme \<Rightarrow> ctx \<times> 'w runtime_scheme" where
  "WithTimeout c d w =
     (\<lparr>cxLine = rtNext w # cxLine c,
       cxDeadline = Some (min_deadline (cxDeadline c) (rtNow w + sint d))\<rparr>,
      w\<lparr>rtNext := rtNext w + 1\<rparr>)"

definition cancel :: "ctx \<Rightarrow> 'w runtime_scheme \<Rightarrow> 'w runtime_scheme" where
  "cancel c w =
     (case cxLine c of
        [] \<Rightarrow> w
      | i # _ \<Rightarrow>
          w\<lparr>rtCancels := (rtCancels w)(i \<mapsto>
              (case rtCancels w i of None \<Rightarrow> rtNow w | Some t \<Rightarrow> min t (rtNow w)))\<rparr>)"

text \<open>The select between a timer and the context: the timer of a delay that is not positive fires at
  once. Of two that are ready together the context is taken.\<close>

definition Sleep :: "ctx \<Rightarrow> duration \<Rightarrow> 'w runtime_scheme \<Rightarrow> herr option \<times> 'w runtime_scheme" where
  "Sleep c d w =
     (let wake = rtNow w + max 0 (sint d)
      in case doneAt c w of
           None \<Rightarrow> (None, w\<lparr>rtNow := wake\<rparr>)
         | Some (t, e) \<Rightarrow>
             if t \<le> wake then (Some e, w\<lparr>rtNow := max t (rtNow w)\<rparr>) else (None, w\<lparr>rtNow := wake\<rparr>))"

section \<open>State options\<close>

type_synonym 'w chandler = "ctx \<Rightarrow> 'w runtime_scheme \<Rightarrow> (herr + string option) \<times> 'w runtime_scheme"
type_synonym 'w state_option = "'w chandler \<Rightarrow> 'w chandler"

definition Retrying :: "int \<Rightarrow> backoff \<Rightarrow> 'w state_option" where
  "Retrying attempts bo h =
     (\<lambda>c. Retry attempts (\<lambda>attempt. Sleep c (bo attempt)) (ctx_Err c) (h c))"

definition Timeout :: "duration \<Rightarrow> 'w state_option" where
  "Timeout d h =
     (\<lambda>c w. case WithTimeout c d w of
              (c', w1) \<Rightarrow> (case h c' w1 of (r, w2) \<Rightarrow> (r, cancel c' w2)))"

section \<open>What the backoffs promise\<close>

lemma ExpBackoff_bounds:
  "0 <s mx \<Longrightarrow> 0 <s ExpBackoff F base factor mx attempt \<and> ExpBackoff F base factor mx attempt \<le>s mx"
  by (auto simp: ExpBackoff_def Let_def word_sless_alt word_sle_eq)

text \<open>Real numbers as the floats: truncation is exact where the value fits, and what it gives elsewhere
  the platform chooses, the argument.\<close>

definition exact_floats :: "(real \<Rightarrow> duration) \<Rightarrow> real floats" where
  "exact_floats over =
     \<lparr>flDuration = (\<lambda>d. of_int (sint d)), flInt = of_int, flMul = (*), flPow = (powr),
      flTrunc = (\<lambda>x. if - (2 ^ 63) \<le> x \<and> x < 2 ^ 63
        then word_of_int (if x < 0 then \<lceil>x\<rceil> else \<lfloor>x\<rfloor>) else over x)\<rparr>"

lemma sint_word64: "- (2 ^ 63) \<le> (i :: int) \<Longrightarrow> i < 2 ^ 63 \<Longrightarrow> sint (word_of_int i :: 64 word) = i"
  by (simp add: sint_sbintrunc' signed_take_bit_int_eq_self)

lemma sint_range64: "- (2 ^ 63) \<le> sint (d :: 64 word)" "sint (d :: 64 word) < 2 ^ 63"
  using sint_ge [of d] sint_lt [of d] by simp_all

text \<open>Over exact numbers the delay is geometric, capped, however far the product is past 64 bits.\<close>

lemma ExpBackoff_exact:
  assumes base: "0 <s base" and mx: "0 <s mx" and k: "0 < k"
    and over: "\<And>x. over x \<le>s 0 \<or> mx \<le>s over x"
  shows "ExpBackoff (exact_floats over) base (real k) mx (int n + 1)
    = word_of_int (min (sint base * int k ^ n) (sint mx))"
proof -
  let ?p = "sint base * int k ^ n"
  have b: "0 < sint base" and m: "0 < sint mx" using base mx by (simp_all add: word_sless_alt)
  have pos: "0 < ?p" using b k by simp
  have e: "flMul (exact_floats over) (flDuration (exact_floats over) base)
      (flPow (exact_floats over) (real k) (flInt (exact_floats over) (int n + 1 - 1))) = of_int ?p"
    using k by (simp add: exact_floats_def powr_realpow)
  show ?thesis
  proof (cases "?p < 2 ^ 63")
    case True
    have "real_of_int ?p < real_of_int (2 ^ 63)" using True by (simp only: of_int_less_iff)
    moreover have "0 < real_of_int ?p" using pos by (simp only: of_int_0_less_iff)
    ultimately have t: "flTrunc (exact_floats over) (of_int ?p) = word_of_int ?p"
      using pos by (simp add: exact_floats_def del: of_int_mult of_int_power)
    have "sint (word_of_int ?p :: duration) = ?p" using True pos by (intro sint_word64) simp_all
    then show ?thesis using pos
      unfolding ExpBackoff_def Let_def e t
      by (auto simp: word_sless_alt word_sle_eq min_def)
  next
    case False
    have "real_of_int (2 ^ 63) \<le> real_of_int ?p" using False by (simp only: of_int_le_iff not_less)
    then have t: "flTrunc (exact_floats over) (of_int ?p) = over (of_int ?p)"
      by (simp add: exact_floats_def del: of_int_mult of_int_power)
    have min: "min ?p (sint mx) = sint mx" using False sint_range64(2) [of mx] by (simp add: min_def)
    have eq: "over x = mx" if "sint (over x) = sint mx" for x using that by (rule signed_word_eqI)
    show ?thesis using over [of "of_int ?p"] eq [of "of_int ?p"]
      unfolding ExpBackoff_def Let_def e t min
      by (auto simp: word_sless_alt word_sle_eq)
  qed
qed

section \<open>What the options promise\<close>

text \<open>A handler heeds its context when its run ends by the deadline, and time does not run back.\<close>

definition heeds :: "'w chandler \<Rightarrow> bool" where
  "heeds h \<longleftrightarrow> (\<forall>c w. rtNow w \<le> rtNow (snd (h c w)) \<and>
     (\<forall>t. cxDeadline c = Some t \<longrightarrow> rtNow (snd (h c w)) \<le> max (rtNow w) t))"

lemma doneAt_deadline:
  assumes "cxDeadline c = Some t"
  obtains t' e where "doneAt c w = Some (t', e)" "t' \<le> t"
proof -
  have "\<exists>t' e'. fold (\<lambda>i. earlier (map_option (\<lambda>t. (t, Canceled)) (rtCancels w i))) is (Some (s, e))
      = Some (t', e') \<and> t' \<le> s" for "is" s e
  proof (induction "is" arbitrary: s e)
    case (Cons i js)
    have "\<exists>s' e'. earlier (map_option (\<lambda>t. (t, Canceled)) (rtCancels w i)) (Some (s, e)) = Some (s', e')
        \<and> s' \<le> s"
      by (cases "rtCancels w i") (auto simp: earlier_def)
    then obtain s' e' where "earlier (map_option (\<lambda>t. (t, Canceled)) (rtCancels w i)) (Some (s, e)) = Some (s', e')"
      and "s' \<le> s"
      by blast
    with Cons.IH [of s' e'] show ?case by fastforce
  qed simp
  then show ?thesis using that assms unfolding doneAt_def by fastforce
qed

lemma Sleep_time:
  "rtNow w \<le> rtNow (snd (Sleep c d w))"
  "rtNow (snd (Sleep c d w)) \<le> rtNow w + max 0 (sint d)"
  by (auto simp: Sleep_def Let_def split: option.splits)

lemma Sleep_deadline: "cxDeadline c = Some t \<Longrightarrow> rtNow (snd (Sleep c d w)) \<le> max (rtNow w) t"
  by (erule doneAt_deadline [of _ _ w]) (auto simp: Sleep_def Let_def split: option.splits)

lemma cancel_now [simp]: "rtNow (cancel c w) = rtNow w"
  by (simp add: cancel_def split: list.splits)

lemma Timeout_time:
  assumes "heeds h"
  shows "rtNow w \<le> rtNow (snd (Timeout d h c w))"
    "rtNow (snd (Timeout d h c w)) \<le> rtNow w + max 0 (sint d)"
    "cxDeadline c = Some t \<Longrightarrow> rtNow (snd (Timeout d h c w)) \<le> max (rtNow w) t"
proof -
  obtain c' w1 where W: "WithTimeout c d w = (c', w1)" by fastforce
  obtain r w2 where R: "h c' w1 = (r, w2)" by fastforce
  have w1: "rtNow w1 = rtNow w" and c': "cxDeadline c' = Some (min_deadline (cxDeadline c) (rtNow w + sint d))"
    using W by (auto simp: WithTimeout_def)
  have h: "rtNow w1 \<le> rtNow w2" "rtNow w2 \<le> max (rtNow w1) (min_deadline (cxDeadline c) (rtNow w + sint d))"
    using assms c' R unfolding heeds_def by (metis snd_conv)+
  have T: "snd (Timeout d h c w) = cancel c' w2" by (simp add: Timeout_def W R)
  show "rtNow w \<le> rtNow (snd (Timeout d h c w))" using h w1 by (simp add: T)
  show "rtNow (snd (Timeout d h c w)) \<le> rtNow w + max 0 (sint d)"
    using h w1 by (auto simp: T min_deadline_def split: option.splits)
  show "rtNow (snd (Timeout d h c w)) \<le> max (rtNow w) t" if "cxDeadline c = Some t"
    using h w1 that by (auto simp: T min_deadline_def)
qed

lemma heeds_Timeout: "heeds h \<Longrightarrow> heeds (Timeout d h)"
  unfolding heeds_def using Timeout_time unfolding heeds_def by blast

lemma retry_loop_time:
  assumes h: "\<forall>w. rtNow w \<le> rtNow (snd (h w)) \<and> rtNow (snd (h w)) \<le> rtNow w + D"
    and b: "\<forall>a w. rtNow w \<le> rtNow (snd (wait a w)) \<and> rtNow (snd (wait a w)) \<le> rtNow w + B"
  shows "rtNow w \<le> rtNow (snd (retry_loop attempts wait ctxErr h attempt w)) \<and>
    rtNow (snd (retry_loop attempts wait ctxErr h attempt w))
      \<le> rtNow w + D + max 0 (attempts - attempt) * (D + B)"
  using h b
proof (induction attempts wait ctxErr h attempt w rule: retry_loop.induct)
  case (1 attempts wait ctxErr h attempt w)
  obtain r w1 where R: "h w = (r, w1)" by fastforce
  obtain e w2 where S: "wait attempt w1 = (e, w2)" by fastforce
  have hw: "rtNow w \<le> rtNow w1" "rtNow w1 \<le> rtNow w + D" using "1.prems"(1) R by (metis snd_conv)+
  have sw: "rtNow w1 \<le> rtNow w2" "rtNow w2 \<le> rtNow w1 + B" using "1.prems"(2) S by (metis snd_conv)+
  have DB: "0 \<le> D" "0 \<le> B" using hw sw by simp_all
  then have k: "0 \<le> max 0 (attempts - attempt) * (D + B)" by simp
  show ?case
  proof (cases "\<exists>err. r = Inl err \<and> as_permanent err = None \<and> attempt < attempts \<and> ctxErr w1 = None \<and> e = None")
    case True
    then obtain err where T: "r = Inl err" "as_permanent err = None" "attempt < attempts" "ctxErr w1 = None" "e = None"
      by blast
    have n: "\<not> (attempt \<ge> attempts \<or> ctxErr w1 \<noteq> None)" using T by simp
    have m: "max 0 (attempts - attempt) * (D + B) = max 0 (attempts - (attempt + 1)) * (D + B) + (D + B)"
      using T(3) by (simp add: max_def algebra_simps)
    have eq: "retry_loop attempts wait ctxErr h attempt w = retry_loop attempts wait ctxErr h (attempt + 1) w2"
      using T R S by (subst retry_loop.simps) simp
    from "1.IH" [OF R [symmetric] T(1,2) n S [symmetric] T(5) "1.prems"] hw sw m show ?thesis
      unfolding eq by linarith
  next
    case False
    then have "snd (retry_loop attempts wait ctxErr h attempt w) \<in> {w1, w2}"
      using R S by (subst retry_loop.simps) (auto split: sum.splits option.splits)
    moreover have "snd (retry_loop attempts wait ctxErr h attempt w) = w1 \<or> attempt < attempts"
      using False R S by (subst retry_loop.simps) (auto split: sum.splits option.splits)
    moreover have "D + B \<le> max 0 (attempts - attempt) * (D + B)" if "attempt < attempts"
      using that DB by (simp add: max_def mult_le_cancel_right1)
    ultimately show ?thesis using hw sw k DB by fastforce
  qed
qed

lemma Retrying_time:
  assumes h: "\<forall>w. rtNow w \<le> rtNow (snd (h c w)) \<and> rtNow (snd (h c w)) \<le> rtNow w + D"
    and b: "\<forall>a. max 0 (sint (bo a)) \<le> B"
  shows "rtNow w \<le> rtNow (snd (Retrying attempts bo h c w)) \<and>
    rtNow (snd (Retrying attempts bo h c w)) \<le> rtNow w + D + max 0 (attempts - 1) * (D + B)"
  unfolding Retrying_def Retry_def
proof (rule retry_loop_time [OF h], intro allI)
  fix a and w :: "'a runtime_scheme"
  show "rtNow w \<le> rtNow (snd (Sleep c (bo a) w)) \<and> rtNow (snd (Sleep c (bo a) w)) \<le> rtNow w + B"
    using Sleep_time [where c = c and d = "bo a" and w = w] b by (meson add_left_mono order_trans)
qed

lemma retry_loop_rel:
  assumes tr: "\<forall>x y z. P x y \<longrightarrow> P y z \<longrightarrow> P x z"
    and h: "\<forall>w. P w (snd (h w))" and b: "\<forall>a w. P w (snd (wait a w))"
  shows "P w (snd (retry_loop attempts wait ctxErr h attempt w))"
  using h b
proof (induction attempts wait ctxErr h attempt w rule: retry_loop.induct)
  case (1 attempts wait ctxErr h attempt w)
  obtain r w1 where R: "h w = (r, w1)" by fastforce
  obtain e w2 where S: "wait attempt w1 = (e, w2)" by fastforce
  have hw: "P w w1" using "1.prems"(1) R by (metis snd_conv)
  moreover have "P w1 w2" using "1.prems"(2) S by (metis snd_conv)
  ultimately have hw2: "P w w2" using tr by blast
  show ?case
  proof (cases "\<exists>err. r = Inl err \<and> as_permanent err = None \<and> attempt < attempts \<and> ctxErr w1 = None \<and> e = None")
    case True
    then obtain err where T: "r = Inl err" "as_permanent err = None" "attempt < attempts" "ctxErr w1 = None" "e = None"
      by blast
    have n: "\<not> (attempt \<ge> attempts \<or> ctxErr w1 \<noteq> None)" using T by simp
    have eq: "retry_loop attempts wait ctxErr h attempt w = retry_loop attempts wait ctxErr h (attempt + 1) w2"
      using T R S by (subst retry_loop.simps) simp
    from "1.IH" [OF R [symmetric] T(1,2) n S [symmetric] T(5) "1.prems"] hw2 tr show ?thesis
      unfolding eq by blast
  next
    case False
    then have "snd (retry_loop attempts wait ctxErr h attempt w) \<in> {w1, w2}"
      using R S by (subst retry_loop.simps) (auto split: sum.splits option.splits)
    then show ?thesis using hw hw2 by auto
  qed
qed

text \<open>Both options keep a handler heeding its context, so they nest to any depth.\<close>

definition advances :: "ctx \<Rightarrow> 'w runtime_scheme \<Rightarrow> 'w runtime_scheme \<Rightarrow> bool" where
  "advances c w w' \<longleftrightarrow> rtNow w \<le> rtNow w' \<and> (\<forall>t. cxDeadline c = Some t \<longrightarrow> rtNow w' \<le> max (rtNow w) t)"

lemma heeds_advances: "heeds h \<longleftrightarrow> (\<forall>c w. advances c w (snd (h c w)))"
  by (simp add: heeds_def advances_def)

lemma advances_trans: "\<forall>x y z. advances c x y \<longrightarrow> advances c y z \<longrightarrow> advances c x z"
  unfolding advances_def by (meson le_max_iff_disj max.boundedI max.cobounded1 order_trans max.mono order_refl)

lemma heeds_Retrying:
  assumes "heeds h"
  shows "heeds (Retrying attempts bo h)"
proof -
  have "advances c w (snd (retry_loop attempts (\<lambda>a. Sleep c (bo a)) (ctx_Err c) (h c) 1 w))"
    for c and w :: "'a runtime_scheme"
  proof (rule retry_loop_rel [where P = "advances c", OF advances_trans])
    show "\<forall>w. advances c w (snd (h c w))" using assms by (simp add: heeds_advances)
    show "\<forall>a w. advances c w (snd (Sleep c (bo a) w))"
      by (simp add: advances_def Sleep_time Sleep_deadline)
  qed
  then show ?thesis by (simp add: heeds_advances Retrying_def Retry_def)
qed

lemma retry_under_timeout:
  assumes "heeds h"
  shows "rtNow (snd (Timeout d (Retrying attempts bo h) c w)) \<le> rtNow w + max 0 (sint d)"
  by (rule Timeout_time(2) [OF heeds_Retrying [OF assms]])

lemma timeout_under_retry:
  assumes "heeds h" "0 <s mx"
  shows "rtNow (snd (Retrying attempts (ExpBackoff F base factor mx) (Timeout d h) c w))
    \<le> rtNow w + max 1 attempts * max 0 (sint d) + (max 1 attempts - 1) * sint mx"
proof -
  let ?bo = "ExpBackoff F base factor mx"
  have bo: "\<forall>a. max 0 (sint (?bo a)) \<le> sint mx"
    using ExpBackoff_bounds [OF assms(2), of F base factor] by (auto simp: word_sless_alt word_sle_eq)
  have h: "\<forall>w. rtNow w \<le> rtNow (snd (Timeout d h c w)) \<and>
      rtNow (snd (Timeout d h c w)) \<le> rtNow w + max 0 (sint d)"
    using Timeout_time [OF assms(1)] by blast
  have n: "max 0 (attempts - 1) = max 1 attempts - (1 :: int)" by simp
  from Retrying_time [where h = "Timeout d h" and c = c and w = w and attempts = attempts, OF h bo] show ?thesis
    unfolding n by (simp add: algebra_simps)
qed

text \<open>C24. Timeout after Retry puts one deadline over all the attempts and the waits between them;
  Retry after Timeout gives each attempt a deadline of its own. So a handler that heeds its context
  ends within the timeout in the first case, and in the second within the attempts times the timeout
  plus the waits, each at most the cap of the backoff.\<close>

theorem policies_bound_the_time:
  assumes "heeds h" "0 <s mx"
  shows "rtNow (snd (Timeout d (Retrying attempts (ExpBackoff F base factor mx) h) c w))
      \<le> rtNow w + max 0 (sint d) \<and>
    rtNow (snd (Retrying attempts (ExpBackoff F base factor mx) (Timeout d h) c w))
      \<le> rtNow w + max 1 attempts * max 0 (sint d) + (max 1 attempts - 1) * sint mx"
  by (intro conjI retry_under_timeout timeout_under_retry assms)

text \<open>A handler that hangs until its deadline.\<close>

definition hangs :: "unit chandler" where
  "hangs c w = (Inl DeadlineExceeded,
     w\<lparr>rtNow := (case cxDeadline c of None \<Rightarrow> rtNow w | Some t \<Rightarrow> max (rtNow w) t)\<rparr>)"

definition demo_runtime :: runtime where
  "demo_runtime = \<lparr>rtNow = 1000, rtCancels = (\<lambda>i. None), rtNext = 0\<rparr>"

theorem policies_bound_the_time_witness:
  "rtNow (snd (Timeout 120 (Retrying 3 (ExpBackoff (exact_floats (\<lambda>x. 0)) 1 2 10) hangs)
       \<lparr>cxLine = [], cxDeadline = None\<rparr> demo_runtime)) \<le> 1120 \<and>
   rtNow (snd (Retrying 3 (ExpBackoff (exact_floats (\<lambda>x. 0)) 1 2 10) (Timeout 120 hangs)
       \<lparr>cxLine = [], cxDeadline = None\<rparr> demo_runtime)) \<le> 1380"
proof -
  have h: "heeds hangs" by (auto simp: heeds_def hangs_def split: option.splits)
  have m: "0 <s (10 :: duration)" by (simp add: word_sless_alt)
  from policies_bound_the_time [OF h m, of 120 3 "exact_floats (\<lambda>x. 0)" 1 2 "\<lparr>cxLine = [], cxDeadline = None\<rparr>"
      demo_runtime]
  show ?thesis by (simp add: demo_runtime_def)
qed



end
