(* ===== verification/Checkout_Requests.thy ===== *)
theory Checkout_Requests
  imports Workflows_Policies
begin

text \<open>
  The ports of the checkout example (src/_examples/workflows/example/common and checkout/requests): the
  HTTP client of a task with its cookie jar, and the five requests its states fire.

  The HTTP library, its jar, the ordered form and Go's URL and JSON packages are parameters, a record
  of what the code calls of them. A JSON object is encoded from its tagged fields and decoded into
  the fields named, an absent one reading as the empty string; every response of the site is such an
  object. A Do acts on the clock and on what is outside the process, and leaves the jar as the
  response's own cookies make it.
\<close>

record url =
  urlScheme :: string
  urlHost :: string
  urlRest :: string

record 'j client =
  clJar :: "'j option"
  clProxy :: "url option"

record request =
  rqMethod :: string
  rqURL :: string
  rqHeader :: "(string, string) gomap"
  rqOrder :: "string list"
  rqBody :: "string option"

text \<open>An action on the clock and the world outside.\<close>

type_synonym ('r, 'w) io = "int \<times> 'w \<Rightarrow> 'r \<times> int \<times> 'w"

text \<open>When the context of a call is done, and with which error.\<close>

type_synonym stop = "(int \<times> herr) option"

record ('j, 'w) web =
  urlParse :: "string \<Rightarrow> string + url"
  jarNew :: "string + 'j"
  jarSet :: "url \<Rightarrow> (string \<times> string) list \<Rightarrow> 'j \<Rightarrow> 'j"
  requestErr :: "string \<Rightarrow> string \<Rightarrow> string option"
  formEncode :: "(string \<times> string) list \<Rightarrow> string"
  jsEncode :: "(string \<times> string) list \<Rightarrow> string + string"
  jsDecode :: "string list \<Rightarrow> string \<Rightarrow> string + (string \<Rightarrow> string)"
  clientDo :: "stop \<Rightarrow> 'j client \<Rightarrow> request \<Rightarrow> (((herr + string) \<times> 'j client), 'w) io"

section \<open>The client\<close>

definition NewClient :: "('j, 'w, 'm) web_scheme \<Rightarrow> string \<Rightarrow> herr + 'j client" where
  "NewClient W proxyURL =
     (case jarNew W of
        Inl e \<Rightarrow> Inl (Wrapped ''build cookie jar: '' (Plain e))
      | Inr jar \<Rightarrow>
          if proxyURL = [] then Inr \<lparr>clJar = Some jar, clProxy = None\<rparr>
          else (case urlParse W proxyURL of
                  Inl e \<Rightarrow> Inl (Wrapped ''parse proxy url: '' (Plain e))
                | Inr u \<Rightarrow> Inr \<lparr>clJar = Some jar, clProxy = Some u\<rparr>))"

definition SetCookies ::
    "('j, 'w, 'm) web_scheme \<Rightarrow> string \<Rightarrow> (string \<times> string) list \<Rightarrow> 'j client option \<Rightarrow> herr + 'j client" where
  "SetCookies W rawURL cookies client =
     (case client of
        None \<Rightarrow> Inl (Plain ''client has no cookie jar'')
      | Some cl \<Rightarrow>
     (case clJar cl of
        None \<Rightarrow> Inl (Plain ''client has no cookie jar'')
      | Some jar \<Rightarrow>
     (case urlParse W rawURL of
        Inl e \<Rightarrow> Inl (Wrapped ''parse cookie url: '' (Plain e))
      | Inr u \<Rightarrow>
          if urlScheme u = [] \<or> urlHost u = []
          then Inl (Plain (''cookie url '' @ rawURL @ '' has no scheme or host''))
          else Inr (cl\<lparr>clJar := Some (jarSet W u cookies jar)\<rparr>))))"

section \<open>Requests\<close>

text \<open>Query escaping: letters, digits and four marks stay, a space becomes a plus, any other byte its
  two hexadecimal digits.\<close>

definition hexDigit :: "nat \<Rightarrow> char" where
  "hexDigit n = (''0123456789ABCDEF'' ! n)"

definition unreserved :: "char \<Rightarrow> bool" where
  "unreserved ch \<longleftrightarrow> CHR ''a'' \<le> ch \<and> ch \<le> CHR ''z'' \<or> CHR ''A'' \<le> ch \<and> ch \<le> CHR ''Z''
     \<or> CHR ''0'' \<le> ch \<and> ch \<le> CHR ''9'' \<or> ch \<in> set ''-_.~''"

definition escapeByte :: "char \<Rightarrow> string" where
  "escapeByte ch =
     (if unreserved ch then [ch]
      else if ch = CHR '' '' then ''+''
      else [CHR ''%'', hexDigit (of_char ch div 16), hexDigit (of_char ch mod 16)])"

definition QueryEscape :: "string \<Rightarrow> string" where
  "QueryEscape s = concat (map escapeByte s)"

fun itoa :: "nat \<Rightarrow> string" where
  "itoa n = (if n < 10 then [char_of (48 + n)] else itoa (n div 10) @ [char_of (48 + n mod 10)])"

declare itoa.simps [simp del]

definition Itoa :: "int \<Rightarrow> string" where
  "Itoa i = (if i < 0 then ''-'' @ itoa (nat (- i)) else itoa (nat i))"

definition NewRequest :: "('j, 'w, 'm) web_scheme \<Rightarrow> string \<Rightarrow> string \<Rightarrow> string option \<Rightarrow> herr + request" where
  "NewRequest W method u body =
     (case requestErr W method u of
        Some e \<Rightarrow> Inl (Plain e)
      | None \<Rightarrow> Inr \<lparr>rqMethod = method, rqURL = u, rqHeader = [], rqOrder = [], rqBody = body\<rparr>)"

definition with_headers :: "(string \<times> string) list \<Rightarrow> string list \<Rightarrow> herr + request \<Rightarrow> herr + request" where
  "with_headers hs ord r =
     (case r of
        Inl e \<Rightarrow> Inl e
      | Inr q \<Rightarrow> Inr (q\<lparr>rqHeader := fold (\<lambda>(k, v). put k v) hs (rqHeader q), rqOrder := ord\<rparr>))"

definition GetHomepage_request :: "('j, 'w, 'm) web_scheme \<Rightarrow> string \<Rightarrow> string \<Rightarrow> herr + request" where
  "GetHomepage_request W u sz =
     with_headers [(''Accept'', ''application/json'')] [''Accept'']
       (NewRequest W ''GET'' (u @ ''?size='' @ QueryEscape sz) None)"

definition AddToCart_request ::
    "('j, 'w, 'm) web_scheme \<Rightarrow> string \<Rightarrow> string \<Rightarrow> string \<Rightarrow> int \<Rightarrow> herr + request" where
  "AddToCart_request W u variantID csrf quantity =
     with_headers [(''Content-Type'', ''application/x-www-form-urlencoded''), (''X-CSRF-Token'', csrf)]
       [''Content-Type'', ''X-CSRF-Token'']
       (NewRequest W ''POST'' u (Some (formEncode W [(''variantID'', variantID), (''quantity'', Itoa quantity)])))"

definition post_json :: "('j, 'w, 'm) web_scheme \<Rightarrow> string \<Rightarrow> (string \<times> string) list \<Rightarrow> herr + request" where
  "post_json W u fs =
     (case jsEncode W fs of
        Inl e \<Rightarrow> Inl (Plain e)
      | Inr body \<Rightarrow>
          with_headers [(''Content-Type'', ''application/json'')] [] (NewRequest W ''POST'' u (Some body)))"

definition SubmitCheckout_request ::
    "('j, 'w, 'm) web_scheme \<Rightarrow> string \<Rightarrow> string \<Rightarrow> string \<Rightarrow> string \<Rightarrow> string \<Rightarrow> herr + request" where
  "SubmitCheckout_request W u cartID email name address =
     post_json W u [(''cartID'', cartID), (''email'', email), (''name'', name), (''address'', address)]"

definition Login_request :: "('j, 'w, 'm) web_scheme \<Rightarrow> string \<Rightarrow> string \<Rightarrow> string \<Rightarrow> herr + request" where
  "Login_request W u email csrf = post_json W u [(''email'', email), (''csrfToken'', csrf)]"

definition FollowLink_request :: "('j, 'w, 'm) web_scheme \<Rightarrow> string \<Rightarrow> herr + request" where
  "FollowLink_request W u =
     with_headers [(''Accept'', ''application/json'')] [''Accept''] (NewRequest W ''GET'' u None)"

section \<open>Facts about the ports\<close>

lemma SetCookies_keeps_proxy:
  "SetCookies W rawURL cookies (Some cl) = Inr cl' \<Longrightarrow> clProxy cl' = clProxy cl"
  by (auto simp: SetCookies_def split: option.splits sum.splits if_splits)

lemma NewClient_jar: "NewClient W proxyURL = Inr cl \<Longrightarrow> clJar cl \<noteq> None"
  by (auto simp: NewClient_def split: sum.splits if_splits)

end
