(* ===== verification/Workflows_Effects.thy ===== *)
theory Workflows_Effects
  imports Workflows
begin

text \<open>
  Do (src/workflows/base.go) inside a world: the effect acts on a world that holds the instance, its base
  included, and its errors keep their chain, so that a permanent one is still permanent when it comes
  out. On an effect whose errors are plain texts it is the Do of the base's own theory.
\<close>

fun Error_text :: "herr \<Rightarrow> string" where
  "Error_text (Plain s) = s"
| "Error_text (Wrapped s e) = s @ Error_text e"
| "Error_text (PermanentErr e) = Error_text e"

definition Do_in ::
    "('w \<Rightarrow> 'd base) \<Rightarrow> (('d base \<Rightarrow> 'd base) \<Rightarrow> 'w \<Rightarrow> 'w) \<Rightarrow> 'v \<Rightarrow> ('v \<Rightarrow> string + json) \<Rightarrow> (json \<Rightarrow> string + 'v)
      \<Rightarrow> ('w \<Rightarrow> herr option \<times> 'w) option \<Rightarrow> string \<Rightarrow> ('w \<Rightarrow> (herr + 'v) \<times> 'w) \<Rightarrow> 'w
      \<Rightarrow> ('v \<times> herr option) \<times> 'w" where
  "Do_in getB updB zero marshal unmarshal saver key effect w =
     (case get (bEffects (getB w)) key of
        Some cached \<Rightarrow>
          (case unmarshal cached of
             Inl e \<Rightarrow> ((zero, Some (Wrapped (''effect '' @ key @ '': decode recorded result: '') (Plain e))), w)
           | Inr v \<Rightarrow> ((v, None), w))
      | None \<Rightarrow>
          (case effect w of
             (Inl e, w1) \<Rightarrow> ((zero, Some e), w1)
           | (Inr v, w1) \<Rightarrow>
               (case marshal v of
                  Inl e \<Rightarrow> ((zero, Some (Wrapped (''effect '' @ key @ '': marshal result: '') (Plain e))), w1)
                | Inr blob \<Rightarrow>
                    (let w2 = updB (\<lambda>b. b\<lparr>bEffects := put key blob (bEffects b)\<rparr>) w1
                     in case saver of
                          None \<Rightarrow> ((v, None), w2)
                        | Some save \<Rightarrow>
                            (case save w2 of
                               (Some e, w3) \<Rightarrow>
                                 ((v, Some (Wrapped (''effect '' @ key @ '': checkpoint: '') e)), w3)
                             | (None, w3) \<Rightarrow> ((v, None), w3))))))"

text \<open>The base apart from the world, and errors as their texts: the two definitions agree.\<close>

definition plainly :: "(string + 'v) \<times> 'w \<Rightarrow> (herr + 'v) \<times> 'w" where
  "plainly = apfst (\<lambda>r. case r of Inl e \<Rightarrow> Inl (Plain e) | Inr v \<Rightarrow> Inr v)"

definition base_and :: "('w \<Rightarrow> 'r \<times> 'w) \<Rightarrow> 'd base \<times> 'w \<Rightarrow> 'r \<times> 'd base \<times> 'w" where
  "base_and f = (\<lambda>(b, w). case f w of (r, w') \<Rightarrow> (r, b, w'))"

lemma Do_in_Do:
  assumes "\<And>j. unmarshal j = (case unmarshal' j of None \<Rightarrow> Inl [] | Some v \<Rightarrow> Inr v)"
  shows "case (Do_in fst apfst zero marshal unmarshal
        (map_option (\<lambda>save (b, w). case save b w of (e, w') \<Rightarrow> (map_option Plain e, b, w')) saver) key
        (base_and (plainly \<circ> effect)) (b, w),
      Do zero marshal unmarshal' saver key effect b w) of
    (((v1, e1), b1, w1), (v2, e2), b2, w2) \<Rightarrow> v1 = v2 \<and> (e1 = None \<longleftrightarrow> e2 = None) \<and> b1 = b2 \<and> w1 = w2"
  by (auto simp: Do_in_def Do_def Checkpoint_def Let_def assms base_and_def plainly_def
      split: option.splits prod.splits sum.splits)

end
