(* ===== verification/Checkout.thy ===== *)
theory Checkout
  imports Checkout_Requests Workflows_Effects Comms Proxies Accounts Tasks_Types
begin

text \<open>
  The checkout example (src/_examples/workflows/example/checkout): the context of a task with its lazily
  acquired resources, the six states, the graph with its policies, and Teardown.

  The instance lives in the world, as the receiver every handler shares; beside it are the bus, the
  clock and contexts, and what is outside. The managers the module was wired with are ports: what a
  call answers is outside, what the handler does with the answer is here. A lease is the handle of
  one acquisition with a copy of its record.
\<close>

section \<open>Data\<close>

record checkout_input =
  inProductURL :: string
  inSize :: string

record profile =
  prEmail :: string
  prName :: string
  prAddress :: string

record order =
  orOrderID :: string
  orStatus :: string

record homepage_state =
  hpVariantID :: string
  hpCSRFToken :: string

record queue_state = quCookie :: string

record login_state = loVerifyURL :: string

record cart_state = caID :: string

record durable =
  duHomepage :: homepage_state
  duQueue :: queue_state
  duLogin :: login_state
  duCart :: cart_state

definition zero_durable :: durable where
  "zero_durable = \<lparr>duHomepage = \<lparr>hpVariantID = [], hpCSRFToken = []\<rparr>, duQueue = \<lparr>quCookie = []\<rparr>,
     duLogin = \<lparr>loVerifyURL = []\<rparr>, duCart = \<lparr>caID = []\<rparr>\<rparr>"

definition zero_order :: order where
  "zero_order = \<lparr>orOrderID = [], orStatus = []\<rparr>"

record proxy_lease =
  xlID :: nat
  xlRes :: proxy

record account_lease =
  alID :: nat
  alRes :: account
  alGroup :: group

text \<open>The context of a task. What Persist registered is the durable state inside the base.\<close>

record 'j checkout_context =
  ckBase :: "durable base"
  ckDeps :: "(kind, resolved) gomap"
  ckIn :: checkout_input
  ckLease :: "proxy_lease option"
  ckAccountLease :: "account_lease option"
  ckClient :: "'j client option"
  ckInbox :: "nat option"
  ckOrder :: order

definition ckD :: "'j checkout_context \<Rightarrow> durable" where
  "ckD c = (case bDurable (ckBase c) of None \<Rightarrow> zero_durable | Some d \<Rightarrow> d)"

definition upd_D :: "(durable \<Rightarrow> durable) \<Rightarrow> 'j checkout_context \<Rightarrow> 'j checkout_context" where
  "upd_D f c = c\<lparr>ckBase := Persist (f (ckD c)) (ckBase c)\<rparr>"

definition new_base :: "durable base" where
  "new_base = Persist zero_durable \<lparr>bTask = [], bInput = [], bEffects = [], bDurable = None\<rparr>"

definition NewContext :: "checkout_input \<Rightarrow> (kind, resolved) gomap \<Rightarrow> 'j checkout_context" where
  "NewContext i deps =
     \<lparr>ckBase = new_base,
      ckDeps = deps, ckIn = i, ckLease = None, ckAccountLease = None, ckClient = None, ckInbox = None,
      ckOrder = zero_order\<rparr>"

definition Assignment :: "'j checkout_context \<Rightarrow> kind \<Rightarrow> resolved" where
  "Assignment c kind = get_or zeroResolved (ckDeps c) kind"

section \<open>The world of a handler\<close>

record ('j, 'w) world = runtime +
  wdInst :: "'j checkout_context"
  wdBus :: "string bus"
  wdEnv :: 'w

text \<open>The ports, beside the web: the leasing and email managers, the checkpoint the engine wires, random
  numbers, and what other tasks do on the bus while this one waits.\<close>

record ('j, 'w) ports = "('j, 'w) web" +
  ptAcquire :: "stop \<Rightarrow> assignment \<Rightarrow> (herr + proxy_lease, 'w) io"
  ptReleaseOutcome :: "stop \<Rightarrow> nat \<Rightarrow> bool \<Rightarrow> (herr option, 'w) io"
  ptLock :: "stop \<Rightarrow> assignment \<Rightarrow> (herr + account_lease, 'w) io"
  ptRelease :: "nat \<Rightarrow> (unit, 'w) io"
  ptListen :: "stop \<Rightarrow> string \<Rightarrow> string \<Rightarrow> string \<Rightarrow> time \<Rightarrow> (herr + nat, 'w) io"
  ptReceive :: "stop \<Rightarrow> nat \<Rightarrow> (herr + message option, 'w) io"
  ptCloseInbox :: "nat \<Rightarrow> (herr option, 'w) io"
  ptCheckpoint :: "(stop \<Rightarrow> durable base \<Rightarrow> (herr option, 'w) io) option"
  ptIntn :: "nat \<Rightarrow> (nat, 'w) io"
  ptUUID :: "(string, 'w) io"
  ptOthers :: "int \<Rightarrow> int \<Rightarrow> string bus \<Rightarrow> string bus"
  ptProfile :: "string \<Rightarrow> string + profile"
  ptMarshalOrder :: "order \<Rightarrow> string + json"
  ptUnmarshalOrder :: "json \<Rightarrow> string + order"

type_synonym ('a, 'j, 'w) act = "('j, 'w) world \<Rightarrow> (herr + 'a) \<times> ('j, 'w) world"

definition returns :: "'a \<Rightarrow> ('a, 'j, 'w) act" where
  "returns x = (\<lambda>w. (Inr x, w))"

definition lift :: "herr + 'a \<Rightarrow> ('a, 'j, 'w) act" where
  "lift r = (\<lambda>w. (r, w))"

definition fails :: "string \<Rightarrow> ('a, 'j, 'w) act" where
  "fails e = lift (Inl (Plain e))"

definition andThen :: "('a, 'j, 'w) act \<Rightarrow> ('a \<Rightarrow> ('b, 'j, 'w) act) \<Rightarrow> ('b, 'j, 'w) act" where
  "andThen m f = (\<lambda>w. case m w of (Inl e, w') \<Rightarrow> (Inl e, w') | (Inr x, w') \<Rightarrow> f x w')"

definition wrapE :: "string \<Rightarrow> ('a, 'j, 'w) act \<Rightarrow> ('a, 'j, 'w) act" where
  "wrapE s m = (\<lambda>w. case m w of (Inl e, w') \<Rightarrow> (Inl (Wrapped s e), w') | (Inr x, w') \<Rightarrow> (Inr x, w'))"

definition with_inst :: "('j checkout_context \<Rightarrow> ('a, 'j, 'w) act) \<Rightarrow> ('a, 'j, 'w) act" where
  "with_inst f = (\<lambda>w. f (wdInst w) w)"

definition upd_inst :: "('j checkout_context \<Rightarrow> 'j checkout_context) \<Rightarrow> ('j, 'w) world \<Rightarrow> ('j, 'w) world" where
  "upd_inst f w = w\<lparr>wdInst := f (wdInst w)\<rparr>"

definition change :: "('j checkout_context \<Rightarrow> 'j checkout_context) \<Rightarrow> (unit, 'j, 'w) act" where
  "change f = (\<lambda>w. (Inr (), upd_inst f w))"

text \<open>A call of something outside, and one whose answer is a value or an error.\<close>

definition outside :: "('r, 'w) io \<Rightarrow> ('j, 'w) world \<Rightarrow> 'r \<times> ('j, 'w) world" where
  "outside f w =
     (case f (rtNow w, wdEnv w) of (r, t, e) \<Rightarrow> (r, w\<lparr>rtNow := t, wdEnv := e\<rparr>))"

definition call :: "ctx \<Rightarrow> (stop \<Rightarrow> (herr + 'a, 'w) io) \<Rightarrow> ('a, 'j, 'w) act" where
  "call cx f = (\<lambda>w. outside (f (doneAt cx w)) w)"

section \<open>Lazy resources\<close>

definition task_of :: "'j checkout_context \<Rightarrow> string" where
  "task_of c = bTask (ckBase c)"

definition asg_of :: "'j checkout_context \<Rightarrow> resolved \<Rightarrow> assignment" where
  "asg_of c pl = \<lparr>asgTask = task_of c, asgGroup = rvGroupID pl, asgRes = rvResourceID pl\<rparr>"

definition lock_account :: "('j, 'w) ports \<Rightarrow> ctx \<Rightarrow> (unit, 'j, 'w) act" where
  "lock_account P cx = with_inst (\<lambda>c.
     if ckAccountLease c \<noteq> None then returns ()
     else
       let placement = Assignment c accountKind
       in if rvGroupID placement = []
          then fails (''task '' @ task_of c @ '' has no account group assigned'')
          else andThen (wrapE ''lock account: '' (call cx (\<lambda>st. ptLock P st (asg_of c placement))))
                 (\<lambda>lease. change (\<lambda>c. c\<lparr>ckAccountLease := Some lease\<rparr>)))"

definition Bind_profile :: "('j, 'w) ports \<Rightarrow> account \<Rightarrow> herr + profile" where
  "Bind_profile P a =
     (case account_Bind (ptProfile P) \<lparr>prEmail = [], prName = [], prAddress = []\<rparr> a of
        Inl (i, e) \<Rightarrow> Inl (Wrapped (''account '' @ i @ '': decode fields: '') (Plain e))
      | Inr p \<Rightarrow> Inr p)"

definition get_profile :: "('j, 'w) ports \<Rightarrow> ctx \<Rightarrow> (profile, 'j, 'w) act" where
  "get_profile P cx =
     andThen (lock_account P cx) (\<lambda>u. with_inst (\<lambda>c.
       case ckAccountLease c of
         None \<Rightarrow> fails ''no account lease''
       | Some lease \<Rightarrow> lift (Bind_profile P (alRes lease))))"

definition VerificationSender :: string where
  "VerificationSender = ''no-reply@site.example''"

definition get_inbox :: "('j, 'w) ports \<Rightarrow> ctx \<Rightarrow> time \<Rightarrow> (nat, 'j, 'w) act" where
  "get_inbox P cx since = with_inst (\<lambda>c.
     case ckInbox c of
       Some sub \<Rightarrow> returns sub
     | None \<Rightarrow>
         andThen (get_profile P cx) (\<lambda>p. with_inst (\<lambda>c.
           case ckAccountLease c of
             None \<Rightarrow> fails ''no account lease''
           | Some lease \<Rightarrow>
               let i = ForwardingEmail (alRes lease) (alGroup lease)
               in if i = []
                  then fails (''account '' @ resID (alRes lease) @ '' has no forwarding inbox attached'')
                  else andThen (wrapE (''listen to inbox '' @ i @ '': '')
                           (call cx (\<lambda>st. ptListen P st (task_of c) i VerificationSender since)))
                         (\<lambda>sub. andThen (change (\<lambda>c. c\<lparr>ckInbox := Some sub\<rparr>)) (\<lambda>u. returns sub)))))"

definition release_proxy :: "('j, 'w) ports \<Rightarrow> ctx \<Rightarrow> nat \<Rightarrow> bool \<Rightarrow> ('j, 'w) world \<Rightarrow> herr option \<times> ('j, 'w) world" where
  "release_proxy P cx i success w = outside (ptReleaseOutcome P (doneAt cx w) i success) w"

text \<open>The client: what fails after the lease was taken gives it back as a failure.\<close>

definition or_release :: "('j, 'w) ports \<Rightarrow> ctx \<Rightarrow> proxy_lease \<Rightarrow> herr + 'a \<Rightarrow> ('a, 'j, 'w) act" where
  "or_release P cx lease r =
     (case r of
        Inr x \<Rightarrow> returns x
      | Inl e \<Rightarrow> (\<lambda>w. (Inl e, snd (release_proxy P cx (xlID lease) False w))))"

definition queue_cookie :: "'j checkout_context \<Rightarrow> string \<times> string" where
  "queue_cookie c = (''queue'', quCookie (duQueue (ckD c)))"

definition ensure_client :: "('j, 'w) ports \<Rightarrow> ctx \<Rightarrow> (unit, 'j, 'w) act" where
  "ensure_client P cx = with_inst (\<lambda>c.
     if ckClient c \<noteq> None then returns ()
     else
       let placement = Assignment c proxyKind
       in if rvGroupID placement = []
          then fails (''task '' @ task_of c @ '' has no proxy group assigned'')
          else andThen (wrapE ''acquire proxy: '' (call cx (\<lambda>st. ptAcquire P st (asg_of c placement)))) (\<lambda>lease.
               andThen (or_release P cx lease (NewClient P (pxURL (xlRes lease)))) (\<lambda>cl.
               andThen (if quCookie (duQueue (ckD c)) = [] then returns cl
                        else or_release P cx lease
                          (SetCookies P (inProductURL (ckIn c)) [queue_cookie c] (Some cl))) (\<lambda>cl.
               change (\<lambda>c. c\<lparr>ckLease := Some lease, ckClient := Some cl\<rparr>)))))"

section \<open>Requests from a state\<close>

definition origin :: "('j, 'w) ports \<Rightarrow> string \<Rightarrow> herr + string" where
  "origin P rawURL =
     (case urlParse P rawURL of
        Inl e \<Rightarrow> Inl (Plain e)
      | Inr u \<Rightarrow> Inr (urlScheme u @ ''://'' @ urlHost u))"

text \<open>A request through the client of the task, whose jar the response may fill; and the decoding of
  its body.\<close>

definition fetch :: "('j, 'w) ports \<Rightarrow> ctx \<Rightarrow> herr + request \<Rightarrow> (string, 'j, 'w) act" where
  "fetch P cx req =
     andThen (lift req) (\<lambda>q. with_inst (\<lambda>c.
       case ckClient c of
         None \<Rightarrow> fails ''no client''
       | Some cl \<Rightarrow> (\<lambda>w.
           case outside (clientDo P (doneAt cx w) cl q) w of
             ((r, cl'), w') \<Rightarrow> (r, upd_inst (\<lambda>c. c\<lparr>ckClient := Some cl'\<rparr>) w'))))"

definition decode :: "('j, 'w) ports \<Rightarrow> string list \<Rightarrow> string \<Rightarrow> (string \<Rightarrow> string, 'j, 'w) act" where
  "decode P fs body = lift (case jsDecode P fs body of Inl e \<Rightarrow> Inl (Plain e) | Inr fs' \<Rightarrow> Inr fs')"

section \<open>The states\<close>

definition getHomepage :: string where "getHomepage = ''get-homepage''"
definition waitInQueue :: string where "waitInQueue = ''wait-in-queue''"
definition login :: string where "login = ''login''"
definition followLink :: string where "followLink = ''follow-link''"
definition addToCart :: string where "addToCart = ''add-to-cart''"
definition submitCheckout :: string where "submitCheckout = ''submit-checkout''"
definition queueCookieTopic :: string where "queueCookieTopic = ''queue-cookie''"

definition cookie_topic :: topic where
  "cookie_topic = NewTopic queueCookieTopic"

definition GetHomepage :: "('j, 'w) ports \<Rightarrow> ctx \<Rightarrow> (string option, 'j, 'w) act" where
  "GetHomepage P cx =
     andThen (ensure_client P cx) (\<lambda>u. with_inst (\<lambda>c.
     andThen (fetch P cx (GetHomepage_request P (inProductURL (ckIn c)) (inSize (ckIn c)))) (\<lambda>res.
     andThen (decode P [''variantID'', ''csrfToken''] res) (\<lambda>body.
     andThen (change (upd_D (\<lambda>d. d\<lparr>duHomepage :=
         \<lparr>hpVariantID = body ''variantID'', hpCSRFToken = body ''csrfToken''\<rparr>\<rparr>))) (\<lambda>u.
     returns (Some waitInQueue))))))"

text \<open>The bus part of the queue: subscribe, wait a random while, in which others publish, and take what
  has arrived or mint a cookie and share it. A subscription is closed on every way out. A publish
  that panics is an error here; on a sound bus there is none.\<close>

definition wait_on_bus :: "('j, 'w) ports \<Rightarrow> ctx \<Rightarrow> (unit, 'j, 'w) act" where
  "wait_on_bus P cx = (\<lambda>w.
     case outside (ptIntn P 100) w of
       (ms, w1) \<Rightarrow>
         (case Sleep cx (of_nat ms * 1000000) w1 of
            (stopped, w2) \<Rightarrow>
              let w3 = w2\<lparr>wdBus := ptOthers P (rtNow w1) (rtNow w2) (wdBus w2)\<rparr>
              in (case stopped of Some e \<Rightarrow> (Inl e, w3) | None \<Rightarrow> (Inr (), w3))))"

definition set_cookie :: "string \<Rightarrow> 'j checkout_context \<Rightarrow> 'j checkout_context" where
  "set_cookie cookie = upd_D (\<lambda>d. d\<lparr>duQueue := \<lparr>quCookie = cookie\<rparr>\<rparr>)"

definition take_or_mint :: "('j, 'w) ports \<Rightarrow> nat \<Rightarrow> (unit, 'j, 'w) act" where
  "take_or_mint P sub = (\<lambda>w.
     case receive sub (wdBus w) of
       Some (cookie, b) \<Rightarrow> (Inr (), upd_inst (set_cookie cookie) (w\<lparr>wdBus := b\<rparr>))
     | None \<Rightarrow>
         (case outside (ptUUID P) w of
            (cookie, w1) \<Rightarrow>
              let w2 = upd_inst (set_cookie cookie) w1
              in (case Emit cookie_topic cookie (wdBus w2) of
                    None \<Rightarrow> (Inl (Plain ''panic''), w2)
                  | Some (drops, b) \<Rightarrow> (Inr (), w2\<lparr>wdBus := b\<rparr>))))"

definition install_cookie :: "('j, 'w) ports \<Rightarrow> (unit, 'j, 'w) act" where
  "install_cookie P = with_inst (\<lambda>c.
     andThen (lift (SetCookies P (inProductURL (ckIn c)) [queue_cookie c] (ckClient c)))
       (\<lambda>cl. change (\<lambda>c. c\<lparr>ckClient := Some cl\<rparr>)))"

definition closing :: "nat \<Rightarrow> ('a, 'j, 'w) act \<Rightarrow> ('a, 'j, 'w) act" where
  "closing sub m = (\<lambda>w.
     case m w of
       (r, w') \<Rightarrow>
         (case CloseSub sub (wdBus w') of
            None \<Rightarrow> (Inl (Plain ''panic''), w')
          | Some b \<Rightarrow> (r, w'\<lparr>wdBus := b\<rparr>)))"

definition WaitInQueue :: "('j, 'w) ports \<Rightarrow> ctx \<Rightarrow> (string option, 'j, 'w) act" where
  "WaitInQueue P cx = (\<lambda>w.
     case topic_On cookie_topic (wdBus w) of
       (sub, b) \<Rightarrow>
         closing sub
           (andThen (wait_on_bus P cx) (\<lambda>u.
            andThen (take_or_mint P sub) (\<lambda>u.
            andThen (ensure_client P cx) (\<lambda>u.
            andThen (install_cookie P) (\<lambda>u.
            returns (Some login))))))
           (w\<lparr>wdBus := b\<rparr>))"

text \<open>The first field of a text that begins as a link; fields are what (ASCII) white space separates.\<close>

definition is_white :: "char \<Rightarrow> bool" where
  "is_white ch \<longleftrightarrow> ch \<in> {CHR '' '', CHR 0x09, CHR 0x0A, CHR 0x0B, CHR 0x0C, CHR 0x0D}"

fun Fields :: "string \<Rightarrow> string \<Rightarrow> string list" where
  "Fields [] word = (if word = [] then [] else [word])"
| "Fields (ch # s) word =
     (if is_white ch then (if word = [] then Fields s [] else word # Fields s []) else Fields s (word @ [ch]))"

definition HasPrefix :: "string \<Rightarrow> string \<Rightarrow> bool" where
  "HasPrefix s pre \<longleftrightarrow> take (length pre) s = pre"

definition firstURL :: "string \<Rightarrow> string" where
  "firstURL body =
     (case find (\<lambda>f. HasPrefix f ''http://'' \<or> HasPrefix f ''https://'') (Fields body []) of
        None \<Rightarrow> [] | Some f \<Rightarrow> f)"

definition second :: int where
  "second = 1000000000"

definition the_time :: "(int, 'j, 'w) act" where
  "the_time = (\<lambda>w. (Inr (rtNow w), w))"

definition Login :: "('j, 'w) ports \<Rightarrow> ctx \<Rightarrow> (string option, 'j, 'w) act" where
  "Login P cx =
     andThen (ensure_client P cx) (\<lambda>u.
     andThen (get_profile P cx) (\<lambda>p. with_inst (\<lambda>c.
     andThen (lift (origin P (inProductURL (ckIn c)))) (\<lambda>site.
     andThen the_time (\<lambda>now.
        andThen (fetch P cx (Login_request P (site @ ''/login'') (prEmail p) (hpCSRFToken (duHomepage (ckD c))))) (\<lambda>res.
        andThen (decode P [''status''] res) (\<lambda>body.
        andThen (get_inbox P cx (now - second)) (\<lambda>sub.
        andThen (call cx (\<lambda>st. ptReceive P st sub)) (\<lambda>got.
          case got of
            None \<Rightarrow> fails ''inbox closed before the verification mail arrived''
          | Some msg \<Rightarrow>
              if firstURL (msgText msg) = []
              then fails (''verification mail '' @ msgSubject msg @ '' carried no link'')
              else andThen (change (upd_D (\<lambda>d. d\<lparr>duLogin := \<lparr>loVerifyURL = firstURL (msgText msg)\<rparr>\<rparr>)))
                     (\<lambda>u. returns (Some followLink)))))))))))"

definition FollowLink :: "('j, 'w) ports \<Rightarrow> ctx \<Rightarrow> (string option, 'j, 'w) act" where
  "FollowLink P cx =
     andThen (ensure_client P cx) (\<lambda>u. with_inst (\<lambda>c.
     andThen (fetch P cx (FollowLink_request P (loVerifyURL (duLogin (ckD c))))) (\<lambda>res.
     andThen (decode P [''status''] res) (\<lambda>body.
     if body ''status'' \<noteq> ''verified''
     then fails (''verification link answered '' @ body ''status'' @ '', want verified'')
     else returns (Some addToCart)))))"

definition AddToCart :: "('j, 'w) ports \<Rightarrow> ctx \<Rightarrow> (string option, 'j, 'w) act" where
  "AddToCart P cx = with_inst (\<lambda>c.
     andThen (lift (origin P (inProductURL (ckIn c)))) (\<lambda>base.
     andThen (ensure_client P cx) (\<lambda>u. with_inst (\<lambda>c.
     andThen (fetch P cx (AddToCart_request P (base @ ''/cart'') (hpVariantID (duHomepage (ckD c)))
         (hpCSRFToken (duHomepage (ckD c))) 1)) (\<lambda>res.
     andThen (decode P [''cartID''] res) (\<lambda>body.
     andThen (change (upd_D (\<lambda>d. d\<lparr>duCart := \<lparr>caID = body ''cartID''\<rparr>\<rparr>))) (\<lambda>u.
     returns (Some submitCheckout))))))))"

definition submit_order :: "('j, 'w) ports \<Rightarrow> ctx \<Rightarrow> (order, 'j, 'w) act" where
  "submit_order P cx = with_inst (\<lambda>c.
     andThen (lift (origin P (inProductURL (ckIn c)))) (\<lambda>base.
     andThen (ensure_client P cx) (\<lambda>u.
     andThen (get_profile P cx) (\<lambda>p. with_inst (\<lambda>c.
     andThen (fetch P cx (SubmitCheckout_request P (base @ ''/checkout'') (caID (duCart (ckD c)))
         (prEmail p) (prName p) (prAddress p))) (\<lambda>res.
     andThen (decode P [''orderID'', ''status''] res) (\<lambda>body.
     if body ''status'' \<noteq> ''confirmed''
     then lift (Inl (PermanentErr (Plain (''checkout: order '' @ body ''orderID'' @ '' not confirmed: status ''
            @ body ''status''))))
     else returns \<lparr>orOrderID = body ''orderID'', orStatus = body ''status''\<rparr>)))))))"

definition upd_base :: "(durable base \<Rightarrow> durable base) \<Rightarrow> ('j, 'w) world \<Rightarrow> ('j, 'w) world" where
  "upd_base f = upd_inst (\<lambda>c. c\<lparr>ckBase := f (ckBase c)\<rparr>)"

definition SubmitCheckout :: "('j, 'w) ports \<Rightarrow> ctx \<Rightarrow> (string option, 'j, 'w) act" where
  "SubmitCheckout P cx = (\<lambda>w.
     case Do_in (\<lambda>w. ckBase (wdInst w)) upd_base zero_order (ptMarshalOrder P) (ptUnmarshalOrder P)
            (map_option (\<lambda>save w. outside (save (doneAt cx w) (ckBase (wdInst w))) w) (ptCheckpoint P))
            ''submit-order'' (submit_order P cx) w of
       ((order, Some e), w') \<Rightarrow> (Inl e, w')
     | ((order, None), w') \<Rightarrow> (Inr None, upd_inst (\<lambda>c. c\<lparr>ckOrder := order\<rparr>) w'))"

section \<open>The graph\<close>

definition transient :: "'f floats \<Rightarrow> 'f \<Rightarrow> backoff" where
  "transient F two = ExpBackoff F 500000000 two 5000000000"

definition checkout_graph ::
    "'f floats \<Rightarrow> 'f \<Rightarrow> ('j, 'w) ports \<Rightarrow> (ctx \<Rightarrow> (string option, 'j, 'w) act) graph" where
  "checkout_graph F two P =
     NewGraph getHomepage
       [On getHomepage (GetHomepage P) [Retrying 3 (transient F two)],
        On waitInQueue (WaitInQueue P) [],
        On login (Login P) [Timeout 120000000000],
        On followLink (FollowLink P) [Retrying 3 (transient F two)],
        On addToCart (AddToCart P) [Retrying 3 (transient F two)],
        On submitCheckout (SubmitCheckout P) [Retrying 3 (ExpBackoff F 1000000000 two 10000000000)]]"

section \<open>Teardown and output\<close>

definition errors_Join :: "herr option list \<Rightarrow> herr option" where
  "errors_Join es =
     (case List.map_filter (\<lambda>e. e) es of
        [] \<Rightarrow> None
      | e # es' \<Rightarrow> Some (Plain (foldl (\<lambda>s e. s @ [CHR 0x0A] @ Error_text e) (Error_text e) es')))"

definition checkout_Teardown ::
    "('j, 'w) ports \<Rightarrow> ctx \<Rightarrow> string \<Rightarrow> herr option \<Rightarrow> ('j, 'w) world \<Rightarrow> herr option \<times> ('j, 'w) world" where
  "checkout_Teardown P cx status runErr w =
     (let c = wdInst w;
          (e1, w1) = (case ckInbox c of None \<Rightarrow> (None, w) | Some sub \<Rightarrow> outside (ptCloseInbox P sub) w);
          (e2, w2) = (case ckLease c of
                        None \<Rightarrow> (None, w1)
                      | Some lease \<Rightarrow> release_proxy P cx (xlID lease) (runErr = None) w1);
          w3 = (case ckAccountLease c of
                  None \<Rightarrow> w2
                | Some lease \<Rightarrow> snd (outside (ptRelease P (alID lease)) w2))
      in (errors_Join [e1, e2], w3))"

definition checkout_Output :: "('j, 'w) ports \<Rightarrow> 'j checkout_context \<Rightarrow> string + json" where
  "checkout_Output P c = ptMarshalOrder P (ckOrder c)"

end
