(* ===== verification/Checkout_Rules.thy ===== *)
theory Checkout_Rules
  imports Checkout
begin

text \<open>
  How a reflexive and transitive relation between worlds is carried through the states of the checkout:
  as a contract on the primitives, in a locale, with one lemma per state inside it; and the ledger, a
  wrapping of the ports that notes every acquisition, release and confirmed order.
\<close>

definition moves :: "(('j, 'w) world \<Rightarrow> ('j, 'w) world \<Rightarrow> bool) \<Rightarrow> ('a, 'j, 'w) act \<Rightarrow> bool" where
  "moves R m \<longleftrightarrow> (\<forall>w. R w (snd (m w)))"

text \<open>A request that places an order.\<close>

definition places :: "request \<Rightarrow> bool" where
  "places q \<longleftrightarrow> rqMethod q = ''POST'' \<and> suffix ''/checkout'' (rqURL q)"

definition harmless :: "herr + request \<Rightarrow> bool" where
  "harmless r \<longleftrightarrow> (case r of Inl e \<Rightarrow> True | Inr q \<Rightarrow> \<not> places q)"

lemma harmless_requests [simp]:
  "harmless (GetHomepage_request P u sz)" "harmless (FollowLink_request P u)"
  "harmless (AddToCart_request P (base @ ''/cart'') v t n)" "harmless (Login_request P (base @ ''/login'') e t)"
proof -
  have cart: "\<not> suffix ''/checkout'' (base @ ''/cart'')" by (simp add: suffix_to_prefix)
  have login: "\<not> suffix ''/checkout'' (base @ ''/login'')" by (simp add: suffix_to_prefix)
  show "harmless (GetHomepage_request P u sz)" "harmless (FollowLink_request P u)"
    "harmless (AddToCart_request P (base @ ''/cart'') v t n)" "harmless (Login_request P (base @ ''/login'') e t)"
    using cart login
    by (auto simp: harmless_def places_def GetHomepage_request_def FollowLink_request_def AddToCart_request_def
        Login_request_def post_json_def with_headers_def NewRequest_def split: option.splits sum.splits)
qed

section \<open>The contract\<close>

locale world_rel =
  fixes R :: "('j, 'w) world \<Rightarrow> ('j, 'w) world \<Rightarrow> bool"
  assumes R_refl: "R w w"
    and R_trans: "R u v \<Longrightarrow> R v w \<Longrightarrow> R u w"
begin

lemma moves_lift [simp]: "moves R (lift r)" "moves R (returns x)" "moves R (fails e)"
  by (simp_all add: moves_def lift_def returns_def fails_def R_refl)

lemma moves_andThen [intro]:
  assumes "moves R m" "\<And>x. moves R (f x)"
  shows "moves R (andThen m f)"
  unfolding moves_def
proof
  fix w
  obtain r w1 where m: "m w = (r, w1)" by fastforce
  have "R w w1" using assms(1) m by (metis moves_def snd_conv)
  moreover have "R w1 (snd (f x w1))" for x using assms(2) by (simp add: moves_def)
  ultimately show "R w (snd (andThen m f w))"
    by (auto simp: andThen_def m split: sum.split intro: R_trans)
qed

lemma moves_wrapE [intro]: "moves R m \<Longrightarrow> moves R (wrapE s m)"
  by (simp add: moves_def wrapE_def split: prod.split sum.split) (metis snd_conv)

lemma moves_with_inst [intro]: "(\<And>c. moves R (f c)) \<Longrightarrow> moves R (with_inst f)"
  by (simp add: moves_def with_inst_def)

lemma R_Do_in:
  assumes e: "\<forall>w. R w (snd (effect w))"
    and u: "\<forall>k x w. R w (updB (\<lambda>b. b\<lparr>bEffects := put k x (bEffects b)\<rparr>) w)"
    and sv: "\<forall>save w. saver = Some save \<longrightarrow> R w (snd (save w))"
  shows "R w (snd (Do_in getB updB zero marshal unmarshal saver key effect w))"
proof (cases "get (bEffects (getB w)) key")
  case (Some cached)
  then show ?thesis by (simp add: Do_in_def R_refl split: sum.split)
next
  case None
  obtain r w1 where r: "effect w = (r, w1)" by fastforce
  have w1: "R w w1" using e r by (metis snd_conv)
  show ?thesis
  proof (cases "\<exists>v blob. r = Inr v \<and> marshal v = Inr blob")
    case False
    then show ?thesis using None w1 by (auto simp: Do_in_def r split: sum.split)
  next
    case True
    then obtain v blob where v: "r = Inr v" "marshal v = Inr blob" by blast
    define w2 where "w2 = updB (\<lambda>b. b\<lparr>bEffects := put key blob (bEffects b)\<rparr>) w1"
    have w2: "R w w2" using w1 u R_trans unfolding w2_def by blast
    show ?thesis
    proof (cases saver)
      case None
      then show ?thesis using \<open>get _ _ = None\<close> w2 by (simp add: Do_in_def r v w2_def)
    next
      case (Some save)
      obtain x w3 where x: "save w2 = (x, w3)" by fastforce
      have "R w w3" using sv Some x w2 R_trans by (metis snd_conv)
      then show ?thesis using \<open>get _ _ = None\<close> x Some
        by (simp add: Do_in_def r v w2_def split: option.split)
    qed
  qed
qed

end

locale policy_rel = world_rel R for R :: "('j, 'w) world \<Rightarrow> ('j, 'w) world \<Rightarrow> bool" +
  assumes R_runtime: "R w (w\<lparr>rtNow := t, rtCancels := cs, rtNext := n\<rparr>)"
begin

lemma Sleep_runtime:
  "snd (Sleep cx d w) = w\<lparr>rtNow := rtNow (snd (Sleep cx d w)), rtCancels := rtCancels w, rtNext := rtNext w\<rparr>"
  by (simp add: Sleep_def Let_def split: option.splits)

lemma moves_Sleep: "R w (snd (Sleep cx d w))"
  by (subst Sleep_runtime) (rule R_runtime)

lemma moves_Retrying:
  assumes "\<forall>cx. moves R (h cx)"
  shows "\<forall>cx. moves R (Retrying n bo h cx)"
proof
  fix cx
  have "R w (snd (retry_loop n (\<lambda>a. Sleep cx (bo a)) (ctx_Err cx) (h cx) 1 w))" for w
  proof (rule retry_loop_rel [where P = R])
    show "\<forall>x y z. R x y \<longrightarrow> R y z \<longrightarrow> R x z" using R_trans by blast
    show "\<forall>w. R w (snd (h cx w))" using assms by (simp add: moves_def)
    show "\<forall>a w. R w (snd (Sleep cx (bo a) w))" by (simp add: moves_Sleep)
  qed
  then show "moves R (Retrying n bo h cx)" by (simp add: moves_def Retrying_def Retry_def)
qed

lemma cancel_runtime: "\<exists>cs. cancel cx w = w\<lparr>rtNow := rtNow w, rtCancels := cs, rtNext := rtNext w\<rparr>"
proof (cases "cxLine cx")
  case Nil
  then have "cancel cx w = w\<lparr>rtNow := rtNow w, rtCancels := rtCancels w, rtNext := rtNext w\<rparr>" by (simp add: cancel_def)
  then show ?thesis by blast
next
  case (Cons i l)
  then show ?thesis by (intro exI) (simp add: cancel_def)
qed

lemma moves_Timeout:
  assumes "\<forall>cx. moves R (h cx)"
  shows "\<forall>cx. moves R (Timeout d h cx)"
proof
  fix cx
  have "R w (snd (Timeout d h cx w))" for w
  proof -
    obtain cx' w1 where c: "WithTimeout cx d w = (cx', w1)" by fastforce
    obtain r w2 where h: "h cx' w1 = (r, w2)" by fastforce
    have "w1 = w\<lparr>rtNow := rtNow w, rtCancels := rtCancels w, rtNext := rtNext w + 1\<rparr>"
      using c by (auto simp: WithTimeout_def)
    then have "R w w1" using R_runtime by metis
    moreover have "R w1 w2" using assms h by (metis moves_def snd_conv)
    moreover have "R w2 (cancel cx' w2)" using cancel_runtime R_runtime by metis
    ultimately show ?thesis by (simp add: Timeout_def c h) (blast intro: R_trans)
  qed
  then show "moves R (Timeout d h cx)" by (simp add: moves_def)
qed

text \<open>Where every state moves along the relation, so does every handler of the graph.\<close>

lemma moves_graph:
  assumes "\<And>cx. moves R (GetHomepage P cx)" "\<And>cx. moves R (WaitInQueue P cx)" "\<And>cx. moves R (Login P cx)"
    "\<And>cx. moves R (FollowLink P cx)" "\<And>cx. moves R (AddToCart P cx)" "\<And>cx. moves R (SubmitCheckout P cx)"
    and h: "Handler (checkout_graph F two P) s = Some h"
  shows "moves R (h cx)"
proof -
  note m = assms(1-6) [THEN allI, THEN moves_Retrying] assms(2) assms(3) [THEN allI, THEN moves_Timeout]
  show ?thesis
    using h m by (auto simp: checkout_graph_def graph_last_definition On_def split: if_splits)
qed

end

locale checkout_rel = policy_rel R for R :: "('j, 'w) world \<Rightarrow> ('j, 'w) world \<Rightarrow> bool" +
  fixes P :: "('j, 'w) ports"
  assumes R_bus: "R w (w\<lparr>wdBus := b\<rparr>)"
    and R_durable: "R w (upd_inst (upd_D f) w)"
    and R_order: "R w (upd_inst (\<lambda>c. c\<lparr>ckOrder := ord\<rparr>) w)"
    and R_client: "ckClient (wdInst w) \<noteq> None \<Longrightarrow> R w (upd_inst (\<lambda>c. c\<lparr>ckClient := Some cl\<rparr>) w)"
    and R_free: "R w (snd (outside (ptIntn P k) w))" "R w (snd (outside (ptUUID P) w))"
      "R w (snd (outside (ptReceive P st sub) w))" "ptCheckpoint P = Some save \<Longrightarrow> R w (snd (outside (save st base) w))"
    and R_do: "\<not> places q \<Longrightarrow> R w (snd (outside (clientDo P st cl q) w))"
    and R_account: "moves R (lock_account P cx)"
    and R_inbox: "moves R (get_inbox P cx since)"
    and R_ensure: "moves R (ensure_client P cx)"
begin

lemmas rules = moves_andThen moves_with_inst moves_wrapE moves_lift R_ensure R_account R_inbox

lemma moves_time: "moves R the_time"
  by (simp add: moves_def the_time_def R_refl)

lemma moves_durable: "moves R (change (upd_D f))"
  by (simp add: moves_def change_def R_durable)

lemma moves_profile: "moves R (get_profile P cx)"
  unfolding get_profile_def by (intro rules) (auto intro!: rules split: option.split)

lemma moves_receive: "moves R (call cx (\<lambda>st. ptReceive P st sub))"
  by (simp add: moves_def call_def R_free)

lemma moves_decode: "moves R (decode P fs body)"
  unfolding decode_def by (rule moves_lift)

lemma moves_fetch_if:
  assumes "\<And>q. req = Inr q \<Longrightarrow> \<forall>w st cl. R w (snd (outside (clientDo P st cl q) w))"
  shows "moves R (fetch P cx req)"
proof (cases req)
  case (Inl e)
  then show ?thesis by (simp add: moves_def fetch_def andThen_def lift_def R_refl)
next
  case (Inr q)
  have "R w (snd (fetch P cx req w))" for w
  proof (cases "ckClient (wdInst w)")
    case (Some cl)
    obtain r cl' w' where o: "outside (clientDo P (doneAt cx w) cl q) w = ((r, cl'), w')" by (metis prod.collapse)
    have "R w w'" using assms [OF Inr] o by (metis snd_conv)
    moreover have "wdInst w' = wdInst w" using o by (auto simp: outside_def split: prod.splits)
    then have "R w' (upd_inst (\<lambda>c. c\<lparr>ckClient := Some cl'\<rparr>) w')" using R_client [of w' cl'] Some by simp
    ultimately show ?thesis using Some Inr o
      by (simp add: fetch_def andThen_def lift_def with_inst_def) (rule R_trans)
  qed (simp add: fetch_def Inr andThen_def lift_def with_inst_def fails_def R_refl)
  then show ?thesis by (simp add: moves_def)
qed

lemma moves_fetch: "harmless req \<Longrightarrow> moves R (fetch P cx req)"
  by (rule moves_fetch_if) (simp add: harmless_def R_do)

lemma moves_GetHomepage: "moves R (GetHomepage P cx)"
  unfolding GetHomepage_def
  by (intro rules moves_fetch moves_decode moves_durable harmless_requests)

lemma moves_Login: "moves R (Login P cx)"
  unfolding Login_def
  by (intro rules moves_time moves_fetch moves_decode moves_durable moves_profile moves_receive harmless_requests)
    (auto split: option.split intro!: rules moves_durable)

lemma moves_FollowLink: "moves R (FollowLink P cx)"
  unfolding FollowLink_def
  by (intro rules moves_fetch moves_decode harmless_requests) (auto intro!: rules)

lemma moves_AddToCart: "moves R (AddToCart P cx)"
  unfolding AddToCart_def
  by (intro rules moves_fetch moves_decode moves_durable harmless_requests)

lemma moves_wait: "moves R (wait_on_bus P cx)"
  unfolding moves_def
proof
  fix w :: "('j, 'w) world"
  obtain ms w1 where 1: "outside (ptIntn P 100) w = (ms, w1)" by fastforce
  obtain st w2 where 2: "Sleep cx (of_nat ms * 1000000) w1 = (st, w2)" by fastforce
  have "R w w1" using R_free(1) [of w 100] 1 by simp
  moreover have "R w1 w2" using moves_Sleep [of w1 cx "of_nat ms * 1000000"] 2 by simp
  moreover have "R w2 (w2\<lparr>wdBus := b\<rparr>)" for b by (rule R_bus)
  ultimately show "R w (snd (wait_on_bus P cx w))"
    by (auto simp: wait_on_bus_def 1 2 Let_def split: option.split intro: R_trans)
qed

lemma R_bus_inst: "R w (upd_inst (set_cookie c) (w\<lparr>wdBus := b\<rparr>))"
  using R_trans [OF R_bus R_durable] by (simp add: set_cookie_def)

lemma moves_take: "moves R (take_or_mint P sub)"
  unfolding moves_def
proof
  fix w :: "('j, 'w) world"
  obtain cookie w1 where 1: "outside (ptUUID P) w = (cookie, w1)" by fastforce
  have "R w w1" using R_free(2) [of w] 1 by simp
  moreover have "R w1 (upd_inst (set_cookie cookie) w1)" by (simp add: set_cookie_def R_durable)
  moreover have "R v (v\<lparr>wdBus := b\<rparr>)" for v b by (rule R_bus)
  ultimately have "R w (upd_inst (set_cookie cookie) w1)" "R w ((upd_inst (set_cookie cookie) w1)\<lparr>wdBus := b\<rparr>)" for b
    by (blast intro: R_trans)+
  then show "R w (snd (take_or_mint P sub w))"
    by (auto simp: take_or_mint_def 1 Let_def R_bus_inst split: option.split)
qed

lemma moves_install: "moves R (install_cookie P)"
proof -
  have "R w (snd (install_cookie P w))" for w
  proof (cases "ckClient (wdInst w)")
    case None
    then show ?thesis by (simp add: install_cookie_def with_inst_def andThen_def lift_def SetCookies_def R_refl)
  next
    case (Some cl)
    then show ?thesis using R_client [of w]
      by (auto simp: install_cookie_def with_inst_def andThen_def lift_def change_def R_refl split: sum.split)
  qed
  then show ?thesis by (simp add: moves_def)
qed

lemma moves_closing:
  assumes "moves R m"
  shows "moves R (closing sub m)"
  unfolding moves_def
proof
  fix w
  obtain r w' where m: "m w = (r, w')" by fastforce
  have "R w w'" using assms m by (metis moves_def snd_conv)
  with R_bus [of w'] show "R w (snd (closing sub m w))"
    by (auto simp: closing_def m split: option.split intro: R_trans)
qed

lemma moves_WaitInQueue: "moves R (WaitInQueue P cx)"
proof -
  have b: "moves R (andThen (wait_on_bus P cx) (\<lambda>u.
      andThen (take_or_mint P sub) (\<lambda>u. andThen (ensure_client P cx) (\<lambda>u.
      andThen (install_cookie P) (\<lambda>u. returns (Some login))))))" for sub
    by (intro rules moves_wait moves_take moves_install)
  have "R w (snd (WaitInQueue P cx w))" for w
  proof -
    obtain sub bus where s: "topic_On cookie_topic (wdBus w) = (sub, bus)" by fastforce
    from moves_closing [OF b, of sub sub] R_bus [of w bus] show ?thesis
      by (auto simp: WaitInQueue_def s moves_def intro: R_trans)
  qed
  then show ?thesis by (simp add: moves_def)
qed

end

text \<open>A relation that an order may move along too.\<close>

locale checkout_all = checkout_rel R P for R and P :: "('j, 'w) ports" +
  assumes R_do_any: "R w (snd (outside (clientDo P st cl q) w))"
    and R_effects: "R w (upd_base (\<lambda>b. b\<lparr>bEffects := es b\<rparr>) w)"
begin

lemma moves_submit_order: "moves R (submit_order P cx)"
  unfolding submit_order_def
  by (intro rules moves_fetch_if moves_decode moves_profile allI R_do_any) (auto intro!: rules)

lemma moves_SubmitCheckout: "moves R (SubmitCheckout P cx)"
  unfolding moves_def
proof
  fix w :: "('j, 'w) world"
  let ?do = "Do_in (\<lambda>w. ckBase (wdInst w)) upd_base zero_order (ptMarshalOrder P) (ptUnmarshalOrder P)
      (map_option (\<lambda>save w. outside (save (doneAt cx w) (ckBase (wdInst w))) w) (ptCheckpoint P))
      ''submit-order'' (submit_order P cx) w"
  have "R w (snd ?do)"
    by (rule R_Do_in) (use moves_submit_order in \<open>auto simp: moves_def R_effects R_free(4)\<close>)
  then show "R w (snd (SubmitCheckout P cx w))"
    by (cases ?do) (auto simp: SubmitCheckout_def split: prod.split option.split intro: R_trans R_order)
qed

end

end
