(* ===== verification/Checkout_Properties.thy ===== *)
theory Checkout_Properties
  imports Checkout_Rules "HOL-Library.Multiset"
begin

text \<open>
  What the checkout workflow promises: it gives back what it takes, places one order, and follows its
  path. The ledger wraps the ports and notes what is taken, given back and placed; the promises are
  about the ledger of a run, whatever the ports under it answer.
\<close>

section \<open>The ledger\<close>

datatype event =
    Acquired nat | Released nat | Locked nat | Unlocked nat | Listened nat | Closed nat | Placed

definition logs :: "('r \<Rightarrow> event list) \<Rightarrow> ('r, 'w) io \<Rightarrow> ('r, 'w \<times> event list) io" where
  "logs g f = (\<lambda>(t, w, l). case f (t, w) of (r, t', w') \<Rightarrow> (r, t', w', l @ g r))"

abbreviation silent :: "('r, 'w) io \<Rightarrow> ('r, 'w \<times> event list) io" where
  "silent \<equiv> logs (\<lambda>r. [])"

text \<open>An answer to an order that confirms it.\<close>

definition confirms :: "('j, 'w) ports \<Rightarrow> request \<Rightarrow> herr + string \<Rightarrow> bool" where
  "confirms P q r \<longleftrightarrow> places q \<and>
     (case r of
        Inl e \<Rightarrow> False
      | Inr body \<Rightarrow>
          (case jsDecode P [''orderID'', ''status''] body of
             Inl e \<Rightarrow> False
           | Inr fs \<Rightarrow> fs ''status'' = ''confirmed''))"

definition on_ok :: "('a \<Rightarrow> event) \<Rightarrow> herr + 'a \<Rightarrow> event list" where
  "on_ok g r = (case r of Inl e \<Rightarrow> [] | Inr x \<Rightarrow> [g x])"

definition ledger :: "('j, 'w) ports \<Rightarrow> ('j, 'w \<times> event list) ports" where
  "ledger P =
     \<lparr>urlParse = urlParse P, jarNew = jarNew P, jarSet = jarSet P, requestErr = requestErr P,
      formEncode = formEncode P, jsEncode = jsEncode P, jsDecode = jsDecode P,
      clientDo = (\<lambda>st cl q. logs (\<lambda>(r, cl'). if confirms P q r then [Placed] else []) (clientDo P st cl q)),
      ptAcquire = (\<lambda>st a. logs (on_ok (\<lambda>l. Acquired (xlID l))) (ptAcquire P st a)),
      ptReleaseOutcome = (\<lambda>st i b. logs (\<lambda>r. [Released i]) (ptReleaseOutcome P st i b)),
      ptLock = (\<lambda>st a. logs (on_ok (\<lambda>l. Locked (alID l))) (ptLock P st a)),
      ptRelease = (\<lambda>i. logs (\<lambda>r. [Unlocked i]) (ptRelease P i)),
      ptListen = (\<lambda>st t i s d. logs (on_ok Listened) (ptListen P st t i s d)),
      ptReceive = (\<lambda>st i. silent (ptReceive P st i)),
      ptCloseInbox = (\<lambda>i. logs (\<lambda>r. [Closed i]) (ptCloseInbox P i)),
      ptCheckpoint = map_option (\<lambda>save st b. silent (save st b)) (ptCheckpoint P),
      ptIntn = (\<lambda>n. silent (ptIntn P n)), ptUUID = silent (ptUUID P), ptOthers = ptOthers P,
      ptProfile = ptProfile P, ptMarshalOrder = ptMarshalOrder P, ptUnmarshalOrder = ptUnmarshalOrder P\<rparr>"

fun acquired_of :: "event \<Rightarrow> nat option" where "acquired_of (Acquired i) = Some i" | "acquired_of _ = None"
fun released_of :: "event \<Rightarrow> nat option" where "released_of (Released i) = Some i" | "released_of _ = None"
fun locked_of_event :: "event \<Rightarrow> nat option" where "locked_of_event (Locked i) = Some i" | "locked_of_event _ = None"
fun unlocked_of :: "event \<Rightarrow> nat option" where "unlocked_of (Unlocked i) = Some i" | "unlocked_of _ = None"
fun listened_of :: "event \<Rightarrow> nat option" where "listened_of (Listened i) = Some i" | "listened_of _ = None"
fun closed_of :: "event \<Rightarrow> nat option" where "closed_of (Closed i) = Some i" | "closed_of _ = None"

definition nums :: "(event \<Rightarrow> nat option) \<Rightarrow> event list \<Rightarrow> nat multiset" where
  "nums f l = mset (List.map_filter f l)"

definition holding :: "nat option \<Rightarrow> nat multiset" where
  "holding x = (case x of None \<Rightarrow> {#} | Some i \<Rightarrow> {#i#})"

definition evs :: "('j, 'w \<times> event list) world \<Rightarrow> event list" where
  "evs w = snd (wdEnv w)"

text \<open>The books: what was taken and not given back is what the context holds, and the client and its
  lease come together.\<close>

definition books :: "'j checkout_context \<Rightarrow> event list \<Rightarrow> bool" where
  "books c l \<longleftrightarrow>
     nums acquired_of l = nums released_of l + holding (map_option xlID (ckLease c)) \<and>
     nums locked_of_event l = nums unlocked_of l + holding (map_option alID (ckAccountLease c)) \<and>
     nums listened_of l = nums closed_of l + holding (ckInbox c) \<and>
     (ckClient c = None \<longleftrightarrow> ckLease c = None)"

definition owes :: "('j, 'w \<times> event list) world \<Rightarrow> bool" where
  "owes w \<longleftrightarrow> books (wdInst w) (evs w)"

lemma nums_simps [simp]:
  "nums f [] = {#}" "nums f (l @ l') = nums f l + nums f l'"
  "nums f (e # l) = holding (f e) + nums f l"
  by (simp_all add: nums_def List.map_filter_def holding_def split: option.split)

lemma holding_simps [simp]: "holding None = {#}" "holding (Some i) = {#i#}"
  by (simp_all add: holding_def)

lemma ledger_same [simp]:
  "urlParse (ledger P) = urlParse P" "jarNew (ledger P) = jarNew P" "jarSet (ledger P) = jarSet P"
  "requestErr (ledger P) = requestErr P" "formEncode (ledger P) = formEncode P" "jsEncode (ledger P) = jsEncode P"
  "jsDecode (ledger P) = jsDecode P" "ptOthers (ledger P) = ptOthers P" "ptProfile (ledger P) = ptProfile P"
  "ptMarshalOrder (ledger P) = ptMarshalOrder P" "ptUnmarshalOrder (ledger P) = ptUnmarshalOrder P"
  by (simp_all add: ledger_def)

lemma ledger_calls:
  "ptAcquire (ledger P) = (\<lambda>st a. logs (on_ok (\<lambda>l. Acquired (xlID l))) (ptAcquire P st a))"
  "ptLock (ledger P) = (\<lambda>st a. logs (on_ok (\<lambda>l. Locked (alID l))) (ptLock P st a))"
  "ptListen (ledger P) = (\<lambda>st t i s d. logs (on_ok Listened) (ptListen P st t i s d))"
  "ptCheckpoint (ledger P) = map_option (\<lambda>save st b. silent (save st b)) (ptCheckpoint P)"
  by (simp_all add: ledger_def)

lemma outside_logs:
  "outside (logs g f) w =
     (case f (rtNow w, fst (wdEnv w)) of (r, t, e) \<Rightarrow> (r, w\<lparr>rtNow := t, wdEnv := (e, evs w @ g r)\<rparr>))"
  by (simp add: outside_def logs_def evs_def split: prod.split)

text \<open>A call leaves the instance alone and adds what it notes.\<close>

lemma outside_logs_parts:
  assumes "outside (logs g f) w = (r, w')"
  shows "wdInst w' = wdInst w" "evs w' = evs w @ g r"
  using assms by (auto simp: outside_logs evs_def split: prod.splits)

lemma world_parts [simp]:
  "wdInst (upd_inst f w) = f (wdInst w)" "evs (upd_inst f w) = evs w"
  "evs (w\<lparr>wdBus := b\<rparr>) = evs w" "evs (w\<lparr>rtNow := t, rtCancels := cs, rtNext := n\<rparr>) = evs w"
  by (simp_all add: upd_inst_def evs_def)

section \<open>What is taken is given back\<close>

text \<open>Keeping the books, and the inbox as it was.\<close>

definition keeps :: "('j, 'w \<times> event list) world \<Rightarrow> ('j, 'w \<times> event list) world \<Rightarrow> bool" where
  "keeps x y \<longleftrightarrow> (owes x \<longrightarrow> owes y)"

definition keeps_inbox :: "('j, 'w \<times> event list) world \<Rightarrow> ('j, 'w \<times> event list) world \<Rightarrow> bool" where
  "keeps_inbox x y \<longleftrightarrow> keeps x y \<and> ckInbox (wdInst y) = ckInbox (wdInst x)"

interpretation kept: policy_rel keeps
  by unfold_locales (auto simp: keeps_def owes_def)

interpretation kept_inbox: world_rel keeps_inbox
  by unfold_locales (auto simp: keeps_inbox_def keeps_def)

lemma keeps_inboxI: "(owes w \<Longrightarrow> owes w') \<Longrightarrow> ckInbox (wdInst w') = ckInbox (wdInst w) \<Longrightarrow> keeps_inbox w w'"
  by (simp add: keeps_inbox_def keeps_def)

lemma account_keeps: "moves keeps_inbox (lock_account (ledger P) cx)"
  unfolding moves_def
proof
  fix w :: "('a, 'b \<times> event list) world"
  let ?c = "wdInst w" and ?pl = "Assignment (wdInst w) accountKind"
  obtain r w' where l: "outside (ptLock (ledger P) (doneAt cx w) (asg_of ?c ?pl)) w = (r, w')" by fastforce
  note parts = outside_logs_parts [OF l [unfolded ledger_def, simplified]]
  show "keeps_inbox w (snd (lock_account (ledger P) cx w))"
  proof (cases "ckAccountLease ?c = None \<and> rvGroupID ?pl \<noteq> []")
    case False
    then show ?thesis
      by (auto simp: lock_account_def with_inst_def returns_def fails_def lift_def Let_def keeps_inbox_def keeps_def)
  next
    case True
    show ?thesis
    proof (cases r)
      case (Inl e)
      then show ?thesis using True l parts
        by (intro keeps_inboxI)
          (simp_all add: lock_account_def with_inst_def Let_def andThen_def wrapE_def call_def owes_def on_ok_def)
    next
      case (Inr lease)
      then show ?thesis using True l parts
        by (intro keeps_inboxI)
          (simp_all add: lock_account_def with_inst_def Let_def andThen_def wrapE_def call_def change_def owes_def
            on_ok_def books_def)
    qed
  qed
qed

lemma profile_keeps: "moves keeps_inbox (get_profile (ledger P) cx)"
  unfolding get_profile_def
  by (intro kept_inbox.moves_andThen account_keeps kept_inbox.moves_with_inst) (auto split: option.split)

lemma keeps_of_inbox: "moves keeps_inbox m \<Longrightarrow> moves keeps m"
  by (simp add: moves_def keeps_inbox_def)

lemma inbox_keeps: "moves keeps (get_inbox (ledger P) cx since)"
  unfolding moves_def
proof
  fix w :: "('a, 'b \<times> event list) world"
  show "keeps w (snd (get_inbox (ledger P) cx since w))"
  proof (cases "ckInbox (wdInst w)")
    case (Some sub)
    then show ?thesis by (simp add: get_inbox_def with_inst_def returns_def keeps_def)
  next
    case None
    obtain r w1 where p: "get_profile (ledger P) cx w = (r, w1)" by fastforce
    have w1: "keeps w w1" "ckInbox (wdInst w1) = None"
      using profile_keeps [of P cx] p None by (metis keeps_inbox_def moves_def snd_conv)+
    show ?thesis
    proof (cases "\<exists>u lease. r = Inr u \<and> ckAccountLease (wdInst w1) = Some lease
        \<and> ForwardingEmail (alRes lease) (alGroup lease) \<noteq> []")
      case False
      then show ?thesis using p None w1(1)
        by (auto simp: get_inbox_def with_inst_def andThen_def fails_def lift_def Let_def split: sum.split option.split)
    next
      case True
      then obtain u lease where t: "r = Inr u" "ckAccountLease (wdInst w1) = Some lease"
        "ForwardingEmail (alRes lease) (alGroup lease) \<noteq> []" by blast
      obtain sub w2 where l: "outside (ptListen (ledger P) (doneAt cx w1) (task_of (wdInst w1))
          (ForwardingEmail (alRes lease) (alGroup lease)) VerificationSender since) w1 = (sub, w2)" by fastforce
      note parts = outside_logs_parts [OF l [unfolded ledger_def, simplified]]
      have "keeps w1 (snd (get_inbox (ledger P) cx since w))"
      proof (cases sub)
        case (Inl e)
        then show ?thesis using p None t l parts
          by (simp add: get_inbox_def with_inst_def andThen_def Let_def wrapE_def call_def keeps_def owes_def on_ok_def)
      next
        case (Inr i)
        then show ?thesis using p None t l parts w1(2)
          by (simp add: get_inbox_def with_inst_def andThen_def Let_def wrapE_def call_def change_def returns_def
              keeps_def owes_def on_ok_def books_def)
      qed
      with w1(1) show ?thesis by (rule kept.R_trans)
    qed
  qed
qed

text \<open>The client: a lease that does not end up in the context is released on the spot.\<close>

lemma release_in_ledger:
  "wdInst (snd (release_proxy (ledger P) cx i b w)) = wdInst w"
  "evs (snd (release_proxy (ledger P) cx i b w)) = evs w @ [Released i]"
proof -
  obtain r w' where l: "outside (ptReleaseOutcome (ledger P) (doneAt cx w) i b) w = (r, w')" by fastforce
  note parts = outside_logs_parts [OF l [unfolded ledger_def, simplified]]
  from l parts show "wdInst (snd (release_proxy (ledger P) cx i b w)) = wdInst w"
    "evs (snd (release_proxy (ledger P) cx i b w)) = evs w @ [Released i]"
    by (simp_all add: release_proxy_def)
qed

lemma ensure_keeps: "moves keeps (ensure_client (ledger P) cx)"
  unfolding moves_def
proof
  fix w :: "('a, 'b \<times> event list) world"
  let ?c = "wdInst w" and ?pl = "Assignment (wdInst w) proxyKind"
  obtain r w1 where l: "outside (ptAcquire (ledger P) (doneAt cx w) (asg_of ?c ?pl)) w = (r, w1)" by fastforce
  note parts = outside_logs_parts [OF l [unfolded ledger_def, simplified]]
  show "keeps w (snd (ensure_client (ledger P) cx w))"
  proof (cases "ckClient ?c = None \<and> rvGroupID ?pl \<noteq> []")
    case False
    then show ?thesis
      by (auto simp: ensure_client_def with_inst_def returns_def fails_def lift_def Let_def keeps_def)
  next
    case True
    show ?thesis
    proof (cases r)
      case (Inl e)
      then show ?thesis using True l parts
        by (simp add: ensure_client_def with_inst_def Let_def andThen_def wrapE_def call_def keeps_def owes_def on_ok_def)
    next
      case (Inr lease)
      let ?cookie = "if quCookie (duQueue (ckD ?c)) = [] then Inr
          else (\<lambda>cl. SetCookies (ledger P) (inProductURL (ckIn ?c)) [queue_cookie ?c] (Some cl))"
      have run: "snd (ensure_client (ledger P) cx w) =
          (case NewClient (ledger P) (pxURL (xlRes lease)) of
             Inl e \<Rightarrow> snd (release_proxy (ledger P) cx (xlID lease) False w1)
           | Inr cl \<Rightarrow>
               (case ?cookie cl of
                  Inl e \<Rightarrow> snd (release_proxy (ledger P) cx (xlID lease) False w1)
                | Inr cl' \<Rightarrow> upd_inst (\<lambda>c. c\<lparr>ckLease := Some lease, ckClient := Some cl'\<rparr>) w1))"
        using True l Inr
        by (simp add: ensure_client_def with_inst_def Let_def andThen_def wrapE_def call_def or_release_def
            returns_def change_def split: sum.split)
      have "keeps w (snd (release_proxy (ledger P) cx (xlID lease) False w1))"
        using parts Inr by (simp add: keeps_def owes_def release_in_ledger on_ok_def books_def)
      moreover have "keeps w (upd_inst (\<lambda>c. c\<lparr>ckLease := Some lease, ckClient := Some cl'\<rparr>) w1)" for cl'
        using parts Inr True by (simp add: keeps_def owes_def on_ok_def books_def)
      ultimately show ?thesis unfolding run by (simp split: sum.split)
    qed
  qed
qed

lemma books_same:
  "ckLease c' = ckLease c \<Longrightarrow> ckAccountLease c' = ckAccountLease c \<Longrightarrow> ckInbox c' = ckInbox c
     \<Longrightarrow> (ckClient c' = None \<longleftrightarrow> ckClient c = None) \<Longrightarrow> books c' l = books c l"
  by (simp add: books_def)

lemma upd_D_parts [simp]:
  "ckLease (upd_D f c) = ckLease c" "ckAccountLease (upd_D f c) = ckAccountLease c"
  "ckInbox (upd_D f c) = ckInbox c" "ckClient (upd_D f c) = ckClient c" "ckOrder (upd_D f c) = ckOrder c"
  "bEffects (ckBase (upd_D f c)) = bEffects (ckBase c)" "ckIn (upd_D f c) = ckIn c"
  by (simp_all add: upd_D_def Persist_def)

lemma silent_keeps: "keeps w (snd (outside (silent f) w))"
proof -
  obtain r w' where l: "outside (silent f) w = (r, w')" by fastforce
  from outside_logs_parts [OF l] l show ?thesis by (simp add: keeps_def owes_def)
qed

lemma do_keeps: "keeps w (snd (outside (clientDo (ledger P) st cl q) w))"
proof -
  obtain r w' where l: "outside (clientDo (ledger P) st cl q) w = (r, w')" by fastforce
  note parts = outside_logs_parts [OF l [unfolded ledger_def, simplified]]
  from parts l show ?thesis
    by (cases r) (auto simp: keeps_def owes_def books_def)
qed

interpretation books_kept: checkout_all keeps "ledger P" for P
proof unfold_locales
  fix w :: "('a, 'b \<times> event list) world" and f cs t n b ord cl st sub base save k cx since q es
  show "keeps w (w\<lparr>wdBus := b\<rparr>)" by (simp add: keeps_def owes_def)
  show "keeps w (upd_inst (upd_D f) w)" by (simp add: keeps_def owes_def books_def)
  show "keeps w (upd_inst (\<lambda>c. c\<lparr>ckOrder := ord\<rparr>) w)" by (simp add: keeps_def owes_def books_def)
  show "ckClient (wdInst w) \<noteq> None \<Longrightarrow> keeps w (upd_inst (\<lambda>c. c\<lparr>ckClient := Some cl\<rparr>) w)"
    by (auto simp: keeps_def owes_def books_def)
  show "keeps w (snd (outside (ptIntn (ledger P) k) w))" "keeps w (snd (outside (ptUUID (ledger P)) w))"
    "keeps w (snd (outside (ptReceive (ledger P) st sub) w))"
    by (simp_all add: ledger_def silent_keeps)
  show "ptCheckpoint (ledger P) = Some save \<Longrightarrow> keeps w (snd (outside (save st base) w))"
    by (auto simp: ledger_def silent_keeps)
  show "keeps w (snd (outside (clientDo (ledger P) st cl q) w))" by (rule do_keeps)
  then show "keeps w (snd (outside (clientDo (ledger P) st cl q) w))" .
  show "moves keeps (lock_account (ledger P) cx)" by (rule keeps_of_inbox [OF account_keeps])
  show "moves keeps (get_inbox (ledger P) cx since)" by (rule inbox_keeps)
  show "moves keeps (ensure_client (ledger P) cx)" by (rule ensure_keeps)
  show "keeps w (upd_base (\<lambda>b. b\<lparr>bEffects := es b\<rparr>) w)"
    by (simp add: keeps_def owes_def books_def upd_base_def)
qed

section \<open>Runs\<close>

text \<open>A run of a task: handlers of the graph one after the other, in any order and under any contexts,
  and between them everybody else, who leaves the instance and the ledger of this task alone.\<close>

inductive checkout_run ::
    "(ctx \<Rightarrow> (string option, 'j, 'w \<times> event list) act) graph \<Rightarrow> checkout_input \<Rightarrow> (kind, resolved) gomap
      \<Rightarrow> ('j, 'w \<times> event list) world \<Rightarrow> bool"
  for g i deps where
  new: "wdInst w = NewContext i deps \<Longrightarrow> evs w = [] \<Longrightarrow> checkout_run g i deps w"
| state: "checkout_run g i deps w \<Longrightarrow> Handler g s = Some h \<Longrightarrow> checkout_run g i deps (snd (h cx w))"
| others: "checkout_run g i deps w \<Longrightarrow> wdInst w' = wdInst w \<Longrightarrow> evs w' = evs w \<Longrightarrow> checkout_run g i deps w'"

lemma run_owes:
  assumes "checkout_run (checkout_graph F two (ledger P)) i deps w"
  shows "owes w"
  using assms
proof (induction rule: checkout_run.induct)
  case (new w)
  then show ?case by (simp add: owes_def books_def NewContext_def)
next
  case (state w s h cx)
  have "moves keeps (h cx)"
    by (rule kept.moves_graph [OF books_kept.moves_GetHomepage books_kept.moves_WaitInQueue
          books_kept.moves_Login books_kept.moves_FollowLink books_kept.moves_AddToCart
          books_kept.moves_SubmitCheckout state(2)])
  with state.IH show ?case by (simp add: moves_def keeps_def)
next
  case (others w w')
  then show ?case by (simp add: owes_def)
qed

lemma Teardown_books:
  assumes "owes w" "checkout_Teardown (ledger P) cx status runErr w = (e, w')"
  shows "nums acquired_of (evs w') = nums released_of (evs w') \<and>
    nums locked_of_event (evs w') = nums unlocked_of (evs w') \<and>
    nums listened_of (evs w') = nums closed_of (evs w')"
proof -
  have close: "evs (snd (outside (ptCloseInbox (ledger P) i) v)) = evs v @ [Closed i] \<and>
      wdInst (snd (outside (ptCloseInbox (ledger P) i) v)) = wdInst v" for i v
  proof -
    obtain r v' where l: "outside (ptCloseInbox (ledger P) i) v = (r, v')" by fastforce
    from outside_logs_parts [OF l [unfolded ledger_def, simplified]] l show ?thesis by simp
  qed
  have unlock: "evs (snd (outside (ptRelease (ledger P) i) v)) = evs v @ [Unlocked i]" for i v
  proof -
    obtain r v' where l: "outside (ptRelease (ledger P) i) v = (r, v')" by (metis prod.exhaust)
    from outside_logs_parts [OF l [unfolded ledger_def, simplified]] l show ?thesis by simp
  qed
  define w1 where "w1 = (case ckInbox (wdInst w) of None \<Rightarrow> w | Some i \<Rightarrow> snd (outside (ptCloseInbox (ledger P) i) w))"
  define w2 where "w2 = (case ckLease (wdInst w) of None \<Rightarrow> w1
      | Some x \<Rightarrow> snd (release_proxy (ledger P) cx (xlID x) (runErr = None) w1))"
  have w1: "evs w1 = evs w @ (case ckInbox (wdInst w) of None \<Rightarrow> [] | Some i \<Rightarrow> [Closed i])"
    by (simp add: w1_def close split: option.split)
  have w2: "evs w2 = evs w1 @ (case ckLease (wdInst w) of None \<Rightarrow> [] | Some x \<Rightarrow> [Released (xlID x)])"
    by (simp add: w2_def release_in_ledger split: option.split)
  have "w' = (case ckAccountLease (wdInst w) of None \<Rightarrow> w2
      | Some x \<Rightarrow> snd (outside (ptRelease (ledger P) (alID x)) w2))"
    using assms(2) by (simp add: checkout_Teardown_def Let_def w1_def w2_def case_prod_beta split: option.splits)
  then have w': "evs w' = evs w2 @ (case ckAccountLease (wdInst w) of None \<Rightarrow> [] | Some x \<Rightarrow> [Unlocked (alID x)])"
    by (simp add: unlock split: option.split)
  show ?thesis using assms(1) unfolding w' w2 w1
    by (simp add: owes_def books_def split: option.splits)
qed

section \<open>One order\<close>

definition orders :: "event list \<Rightarrow> nat" where
  "orders l = length (filter (\<lambda>e. e = Placed) l)"

definition effects :: "('j, 'w \<times> event list) world \<Rightarrow> (string, json) gomap" where
  "effects w = bEffects (ckBase (wdInst w))"

lemma orders_simps [simp]: "orders [] = 0" "orders (l @ l') = orders l + orders l'"
  "orders (e # l) = (if e = Placed then 1 else 0) + orders l"
  by (simp_all add: orders_def)

definition same_orders :: "('j, 'w \<times> event list) world \<Rightarrow> ('j, 'w \<times> event list) world \<Rightarrow> bool" where
  "same_orders x y \<longleftrightarrow> orders (evs y) = orders (evs x) \<and> effects y = effects x"

interpretation unordered: policy_rel same_orders
  by unfold_locales (auto simp: same_orders_def effects_def)

lemma logs_same_orders:
  assumes "\<And>r. orders (g r) = 0"
  shows "same_orders w (snd (outside (logs g f) w))"
proof -
  obtain r w' where l: "outside (logs g f) w = (r, w')" by (metis prod.exhaust)
  from outside_logs_parts [OF l] l assms show ?thesis by (simp add: same_orders_def effects_def)
qed

lemma call_same_orders:
  "(\<And>st r. orders (g st r) = 0) \<Longrightarrow> moves same_orders (call cx (\<lambda>st. logs (g st) (f st)))"
  by (simp add: moves_def call_def logs_same_orders)

lemma orders_on_ok [simp]: "(\<And>x. g x \<noteq> Placed) \<Longrightarrow> orders (on_ok g r) = 0"
  by (simp add: on_ok_def split: sum.split)

lemma change_same_orders:
  "(\<And>c. bEffects (ckBase (f c)) = bEffects (ckBase c)) \<Longrightarrow> moves same_orders (change f)"
  by (simp add: moves_def change_def same_orders_def effects_def)

lemmas ordering_rules = unordered.moves_andThen unordered.moves_with_inst unordered.moves_wrapE
  unordered.moves_lift call_same_orders change_same_orders

lemma account_same_orders: "moves same_orders (lock_account (ledger P) cx)"
  unfolding lock_account_def ledger_calls Let_def by (auto intro!: ordering_rules)

lemma profile_same_orders: "moves same_orders (get_profile (ledger P) cx)"
  unfolding get_profile_def by (auto intro!: ordering_rules account_same_orders split: option.split)

lemma inbox_same_orders: "moves same_orders (get_inbox (ledger P) cx since)"
  unfolding get_inbox_def Let_def ledger_calls
  by (auto intro!: ordering_rules profile_same_orders split: option.split)

lemma release_same_orders: "moves same_orders (or_release (ledger P) cx lease r)"
  by (auto simp: or_release_def moves_def returns_def release_in_ledger same_orders_def effects_def split: sum.split)

lemma ensure_same_orders: "moves same_orders (ensure_client (ledger P) cx)"
  unfolding ensure_client_def Let_def ledger_calls
  by (auto intro!: ordering_rules release_same_orders)

interpretation orders_kept: checkout_rel same_orders "ledger P" for P
proof unfold_locales
  fix w :: "('a, 'b \<times> event list) world" and f cs t n b ord cl st sub base save k cx since q es
  show "same_orders w (w\<lparr>wdBus := b\<rparr>)" "same_orders w (upd_inst (upd_D f) w)"
    "same_orders w (upd_inst (\<lambda>c. c\<lparr>ckOrder := ord\<rparr>) w)" "same_orders w (upd_inst (\<lambda>c. c\<lparr>ckClient := Some cl\<rparr>) w)"
    by (simp_all add: same_orders_def effects_def)
  show "same_orders w (snd (outside (ptIntn (ledger P) k) w))" "same_orders w (snd (outside (ptUUID (ledger P)) w))"
    "same_orders w (snd (outside (ptReceive (ledger P) st sub) w))"
    by (simp_all add: ledger_def logs_same_orders)
  show "ptCheckpoint (ledger P) = Some save \<Longrightarrow> same_orders w (snd (outside (save st base) w))"
    by (auto simp: ledger_def logs_same_orders)
  show "\<not> places q \<Longrightarrow> same_orders w (snd (outside (clientDo (ledger P) st cl q) w))"
    by (simp add: ledger_def logs_same_orders confirms_def split: prod.split)
  show "moves same_orders (lock_account (ledger P) cx)" by (rule account_same_orders)
  show "moves same_orders (get_inbox (ledger P) cx since)" by (rule inbox_same_orders)
  show "moves same_orders (ensure_client (ledger P) cx)" by (rule ensure_same_orders)
qed

text \<open>An effect that may have placed an order, and says so by succeeding.\<close>

definition ordered :: "('a, 'j, 'w \<times> event list) act \<Rightarrow> bool" where
  "ordered m \<longleftrightarrow> (\<forall>w r w'. m w = (r, w') \<longrightarrow> effects w' = effects w \<and>
     (orders (evs w') = orders (evs w) \<or> orders (evs w') = orders (evs w) + 1 \<and> (\<exists>x. r = Inr x)))"

lemma ordered_andThen:
  assumes "moves same_orders m" "\<And>x. ordered (f x)"
  shows "ordered (andThen m f)"
  unfolding ordered_def
proof (intro allI impI)
  fix w r w' assume run: "andThen m f w = (r, w')"
  obtain r1 w1 where m: "m w = (r1, w1)" by fastforce
  have s: "orders (evs w1) = orders (evs w)" "effects w1 = effects w"
    using assms(1) m by (metis moves_def same_orders_def snd_conv)+
  show "effects w' = effects w \<and>
     (orders (evs w') = orders (evs w) \<or> orders (evs w') = orders (evs w) + 1 \<and> (\<exists>x. r = Inr x))"
  proof (cases r1)
    case (Inl e)
    then show ?thesis using run m s by (simp add: andThen_def)
  next
    case (Inr x)
    then have "f x w1 = (r, w')" using run m by (simp add: andThen_def)
    with assms(2) [of x] show ?thesis unfolding ordered_def s [symmetric] by blast
  qed
qed

lemma ordered_with_inst: "(\<And>c. ordered (f c)) \<Longrightarrow> ordered (with_inst f)"
  by (simp add: ordered_def with_inst_def)

lemma ordered_post:
  "ordered (andThen (fetch (ledger P) cx req) (\<lambda>res.
     andThen (decode (ledger P) [''orderID'', ''status''] res) (\<lambda>body.
     if body ''status'' \<noteq> ''confirmed'' then lift (Inl (e body)) else returns (x body))))"
  unfolding ordered_def
proof (intro allI impI)
  fix w r w'
  assume run: "andThen (fetch (ledger P) cx req) (\<lambda>res.
     andThen (decode (ledger P) [''orderID'', ''status''] res) (\<lambda>body.
     if body ''status'' \<noteq> ''confirmed'' then lift (Inl (e body)) else returns (x body))) w = (r, w')"
  show "effects w' = effects w \<and>
     (orders (evs w') = orders (evs w) \<or> orders (evs w') = orders (evs w) + 1 \<and> (\<exists>x. r = Inr x))"
  proof (cases "\<exists>q cl. req = Inr q \<and> ckClient (wdInst w) = Some cl")
    case False
    then have "w' = w" using run
      by (cases req) (auto simp: fetch_def andThen_def lift_def with_inst_def fails_def split: option.splits)
    then show ?thesis by simp
  next
    case True
    then obtain q cl where q: "req = Inr q" "ckClient (wdInst w) = Some cl" by blast
    obtain a cl' w1 where l: "outside (clientDo (ledger P) (doneAt cx w) cl q) w = ((a, cl'), w1)"
      by (metis prod.collapse)
    note parts = outside_logs_parts [OF l [unfolded ledger_def, simplified]]
    have w': "w' = upd_inst (\<lambda>c. c\<lparr>ckClient := Some cl'\<rparr>) w1"
      using run q l by (auto simp: fetch_def andThen_def lift_def with_inst_def decode_def returns_def
          split: sum.splits if_splits)
    have "\<exists>x. r = Inr x" if "confirms P q a"
      using that run q l
      by (auto simp: confirms_def fetch_def andThen_def lift_def with_inst_def decode_def returns_def
          split: sum.splits)
    then show ?thesis using parts by (simp add: w' effects_def)
  qed
qed

lemma ordered_submit: "ordered (submit_order (ledger P) cx)"
  unfolding submit_order_def
  by (intro ordered_with_inst ordered_andThen ordered_post unordered.moves_lift ensure_same_orders
      profile_same_orders)

definition once_ordered :: "('j, 'w \<times> event list) world \<Rightarrow> bool" where
  "once_ordered w \<longleftrightarrow> orders (evs w) \<le> 1 \<and>
     (orders (evs w) = 1 \<longrightarrow> get (effects w) ''submit-order'' \<noteq> None)"

definition keeps_once :: "('j, 'w \<times> event list) world \<Rightarrow> ('j, 'w \<times> event list) world \<Rightarrow> bool" where
  "keeps_once x y \<longleftrightarrow> (once_ordered x \<longrightarrow> once_ordered y)"

interpretation once: policy_rel keeps_once
  by unfold_locales (auto simp: keeps_once_def once_ordered_def effects_def)

lemma once_same: "same_orders x y \<Longrightarrow> keeps_once x y"
  by (simp add: same_orders_def keeps_once_def once_ordered_def)

lemma moves_once: "moves same_orders m \<Longrightarrow> moves keeps_once m"
  by (simp add: moves_def once_same)

lemma submit_once:
  assumes mar: "\<forall>ord. \<exists>j. ptMarshalOrder P ord = Inr j"
  shows "moves keeps_once (SubmitCheckout (ledger P) cx)"
  unfolding moves_def
proof
  fix w :: "('a, 'b \<times> event list) world"
  let ?saver = "map_option (\<lambda>save w. outside (save (doneAt cx w) (ckBase (wdInst w))) w) (ptCheckpoint (ledger P))"
  let ?do = "Do_in (\<lambda>w. ckBase (wdInst w)) upd_base zero_order (ptMarshalOrder (ledger P))
      (ptUnmarshalOrder (ledger P)) ?saver ''submit-order'' (submit_order (ledger P) cx) w"
  have "keeps_once w (snd ?do)"
  proof (cases "get (effects w) ''submit-order''")
    case (Some cached)
    then have "snd ?do = w" by (simp add: Do_in_def effects_def split: sum.split)
    then show ?thesis by (simp add: keeps_once_def)
  next
    case None
    then have n: "get (bEffects (ckBase (wdInst w))) ''submit-order'' = None" by (simp add: effects_def)
    obtain r w1 where e: "submit_order (ledger P) cx w = (r, w1)" by fastforce
    have o: "effects w1 = effects w" "orders (evs w1) = orders (evs w) \<or>
        orders (evs w1) = orders (evs w) + 1 \<and> (\<exists>x. r = Inr x)"
      using ordered_submit [of P cx] e unfolding ordered_def by blast+
    show ?thesis
    proof (cases r)
      case (Inl x)
      then have "snd ?do = w1" using n e by (simp add: Do_in_def)
      then show ?thesis using o Inl by (simp add: keeps_once_def once_ordered_def)
    next
      case (Inr ord)
      obtain j where j: "ptMarshalOrder P ord = Inr j" using mar by blast
      define w2 where "w2 = upd_base (\<lambda>b. b\<lparr>bEffects := put ''submit-order'' j (bEffects b)\<rparr>) w1"
      have w2: "get (effects w2) ''submit-order'' = Some j" "orders (evs w2) = orders (evs w1)"
        by (simp_all add: w2_def effects_def upd_base_def)
      have "same_orders w2 (snd ?do)"
      proof (cases "ptCheckpoint P")
        case None
        then show ?thesis using n e Inr j
          by (simp add: Do_in_def w2_def ledger_calls same_orders_def)
      next
        case (Some save)
        have "snd ?do = snd (outside (silent (save (doneAt cx w2) (ckBase (wdInst w2)))) w2)"
          using n e Inr j Some
          by (simp add: Do_in_def w2_def ledger_calls Let_def split: prod.split option.split)
        then show ?thesis by (simp add: logs_same_orders)
      qed
      then show ?thesis using w2 o(2) None
        by (auto simp: keeps_once_def once_ordered_def same_orders_def)
    qed
  qed
  moreover have k: "keeps_once v (upd_inst (\<lambda>c. c\<lparr>ckOrder := ord\<rparr>) v)" for v :: "('a, 'b \<times> event list) world" and ord
    by (rule once_same) (simp add: same_orders_def effects_def)
  ultimately show "keeps_once w (snd (SubmitCheckout (ledger P) cx w))"
    by (cases ?do) (auto simp: SubmitCheckout_def split: option.split intro: once.R_trans [OF _ k])
qed

lemma run_once:
  assumes "checkout_run (checkout_graph F two (ledger P)) i deps w" "\<forall>ord. \<exists>j. ptMarshalOrder P ord = Inr j"
  shows "once_ordered w"
  using assms(1)
proof (induction rule: checkout_run.induct)
  case (new w)
  then show ?case by (simp add: once_ordered_def)
next
  case (state w s h cx)
  have "moves keeps_once (h cx)"
    by (rule once.moves_graph [OF orders_kept.moves_GetHomepage [THEN moves_once]
          orders_kept.moves_WaitInQueue [THEN moves_once] orders_kept.moves_Login [THEN moves_once]
          orders_kept.moves_FollowLink [THEN moves_once] orders_kept.moves_AddToCart [THEN moves_once]
          submit_once [OF assms(2)] state(2)])
  with state.IH show ?case by (simp add: moves_def keeps_once_def)
next
  case (others w w')
  then show ?case by (simp add: once_ordered_def effects_def)
qed

section \<open>The path\<close>

definition path :: "string list" where
  "path = [getHomepage, waitInQueue, login, followLink, addToCart, submitCheckout]"

fun after :: "string \<Rightarrow> string list \<Rightarrow> string option" where
  "after s (x # y # zs) = (if s = x then Some y else after s (y # zs))"
| "after s _ = None"

definition gives :: "'a \<Rightarrow> ('a, 'j, 'w) act \<Rightarrow> bool" where
  "gives v m \<longleftrightarrow> (\<forall>w r. fst (m w) = Inr r \<longrightarrow> r = v)"

lemma gives_simps [simp]: "gives v (returns v)" "gives v (fails e)" "gives v (lift (Inl x))"
  by (simp_all add: gives_def returns_def fails_def lift_def)

lemma gives_andThen: "(\<And>x. gives v (f x)) \<Longrightarrow> gives v (andThen m f)"
  by (simp add: gives_def andThen_def split: prod.split sum.split)

lemma gives_with_inst: "(\<And>c. gives v (f c)) \<Longrightarrow> gives v (with_inst f)"
  by (simp add: gives_def with_inst_def)

lemma gives_closing: "gives v m \<Longrightarrow> gives v (closing sub m)"
  by (auto simp: gives_def closing_def split: prod.splits option.splits) (metis fst_conv)

lemma gives_Timeout: "(\<And>cx. gives v (h cx)) \<Longrightarrow> gives v (Timeout d h cx)"
  by (simp add: gives_def Timeout_def split: prod.split) (metis fst_conv)

lemma retry_answers:
  "(\<forall>w r. fst (h w) = Inr r \<longrightarrow> r = v) \<Longrightarrow> fst (retry_loop n wait ctxErr h a w) = Inr r \<Longrightarrow> r = v"
proof (induction n wait ctxErr h a w rule: retry_loop.induct)
  case (1 n wait ctxErr h a w)
  obtain x w1 where h: "h w = (x, w1)" by fastforce
  obtain e w2 where s: "wait a w1 = (e, w2)" by fastforce
  show ?case
  proof (cases "\<exists>err. x = Inl err \<and> as_permanent err = None \<and> \<not> (n \<le> a \<or> ctxErr w1 \<noteq> None) \<and> e = None")
    case True
    then obtain err where t: "x = Inl err" "as_permanent err = None" "\<not> (n \<le> a \<or> ctxErr w1 \<noteq> None)" "e = None"
      by blast
    have "fst (retry_loop n wait ctxErr h (a + 1) w2) = Inr r"
      using "1.prems"(2) t h s by (subst (asm) retry_loop.simps) simp
    with "1.IH" [OF h [symmetric] t(1,2,3) s [symmetric] t(4) "1.prems"(1)] show ?thesis .
  next
    case False
    then have "x = Inr r"
      using "1.prems"(2) h s by (subst (asm) retry_loop.simps) (auto split: sum.splits option.splits if_splits)
    then show ?thesis using "1.prems"(1) h by (metis fst_conv)
  qed
qed

lemma gives_Retrying: "(\<And>cx. gives v (h cx)) \<Longrightarrow> gives v (Retrying n bo h cx)"
  unfolding gives_def Retrying_def Retry_def
  by (intro allI impI) (rule retry_answers [rotated], assumption, blast)

lemmas answer_rules = gives_andThen gives_with_inst gives_simps

lemma gives_states:
  "gives (Some waitInQueue) (GetHomepage P cx)" "gives (Some login) (WaitInQueue P cx)"
  "gives (Some followLink) (Login P cx)" "gives (Some addToCart) (FollowLink P cx)"
  "gives (Some submitCheckout) (AddToCart P cx)" "gives None (SubmitCheckout P cx)"
proof -
  show "gives (Some waitInQueue) (GetHomepage P cx)" unfolding GetHomepage_def by (intro answer_rules)
  have "gives (Some login) (andThen (wait_on_bus P cx) (\<lambda>u. andThen (take_or_mint P sub) (\<lambda>u.
      andThen (ensure_client P cx) (\<lambda>u. andThen (install_cookie P) (\<lambda>u. returns (Some login))))))" for sub
    by (intro answer_rules)
  from gives_closing [OF this] show "gives (Some login) (WaitInQueue P cx)"
    by (simp add: gives_def WaitInQueue_def split: prod.split)
  show "gives (Some followLink) (Login P cx)"
    unfolding Login_def by (intro gives_andThen gives_with_inst) (auto intro!: answer_rules split: option.split)
  show "gives (Some addToCart) (FollowLink P cx)"
    unfolding FollowLink_def by (intro gives_andThen gives_with_inst) (simp add: gives_simps)
  show "gives (Some submitCheckout) (AddToCart P cx)" unfolding AddToCart_def by (intro answer_rules)
  show "gives None (SubmitCheckout P cx)"
    by (simp add: gives_def SubmitCheckout_def split: prod.split option.split)
qed

lemmas state_defs = getHomepage_def waitInQueue_def login_def followLink_def addToCart_def submitCheckout_def

lemma graph_answers:
  assumes "Handler (checkout_graph F two P) s = Some h"
  shows "s \<in> set path \<and> gives (after s path) (h cx)"
proof -
  note a = gives_states [THEN gives_Retrying] gives_states(2) gives_states(3) [THEN gives_Timeout]
  show ?thesis
    using assms
    by (auto simp: checkout_graph_def graph_last_definition On_def path_def state_defs a [unfolded state_defs]
        split: if_splits)
qed

end
