(* ===== verification/Checkout_Promises.thy ===== *)
theory Checkout_Promises
  imports Checkout_Properties
begin

text \<open>
  The properties of the checkout workflow, over whole runs, each with a run of a small site as its
  witness: one proxy, one account, one mail, and pages that answer what the states look for.
\<close>

section \<open>A small site\<close>

definition demo_ints :: "int floats" where
  "demo_ints = \<lparr>flDuration = sint, flInt = (\<lambda>i. i), flMul = (*), flPow = (\<lambda>b e. b ^ nat e), flTrunc = word_of_int\<rparr>"

definition demo_mail :: message where
  "demo_mail = \<lparr>msgEmailID = ''i'', msgUID = 1, msgMessageID = [], msgFrom = VerificationSender, msgTo = [],
     msgSubject = ''s'', msgDate = 0, msgText = ''Go http://l x'', msgHTML = []\<rparr>"

definition demo_account_lease :: account_lease where
  "demo_account_lease = \<lparr>alID = 3,
     alRes = \<lparr>resID = ''a'', resGroup = GlobalGroup, resOwner = [], resMax = 0, resCreated = 0, resUpdated = 0,
       acEmailID = ''i'', acFields = []\<rparr>,
     alGroup = \<lparr>grpID = GlobalGroup, grpStrategy = [], grpRefs = [], grpCreated = 0, grpUpdated = 0\<rparr>\<rparr>"

definition demo_ports :: "(string list, unit) ports" where
  "demo_ports =
     \<lparr>urlParse = (\<lambda>u. Inr \<lparr>urlScheme = ''http'', urlHost = ''x'', urlRest = []\<rparr>), jarNew = Inr [],
      jarSet = (\<lambda>u cs j. map snd cs @ j), requestErr = (\<lambda>m u. None), formEncode = (\<lambda>fs. []),
      jsEncode = (\<lambda>fs. Inr []),
      jsDecode = (\<lambda>fs body. Inr (\<lambda>f. if f = ''status'' then body else ''v'')),
      clientDo = (\<lambda>st cl q (t, w).
        ((Inr (if rqURL q = ''http://x/checkout'' then ''confirmed'' else ''verified''), cl), t, w)),
      ptAcquire = (\<lambda>st a (t, w). (Inr \<lparr>xlID = 7, xlRes = demo_proxy ''p'' 0\<rparr>, t, w)),
      ptReleaseOutcome = (\<lambda>st i b (t, w). (None, t, w)),
      ptLock = (\<lambda>st a (t, w). (Inr demo_account_lease, t, w)), ptRelease = (\<lambda>i (t, w). ((), t, w)),
      ptListen = (\<lambda>st t i s d (t, w). (Inr 5, t, w)), ptReceive = (\<lambda>st i (t, w). (Inr (Some demo_mail), t, w)),
      ptCloseInbox = (\<lambda>i (t, w). (None, t, w)), ptCheckpoint = Some (\<lambda>st b (t, w). (None, t, w)),
      ptIntn = (\<lambda>n (t, w). (2, t, w)), ptUUID = (\<lambda>(t, w). (''u'', t, w)), ptOthers = (\<lambda>t t' b. b),
      ptProfile = (\<lambda>j. Inl []), ptMarshalOrder = (\<lambda>ord. Inr (orOrderID ord)),
      ptUnmarshalOrder = (\<lambda>j. Inr \<lparr>orOrderID = j, orStatus = ''confirmed''\<rparr>)\<rparr>"

definition demo_deps :: "(kind, resolved) gomap" where
  "demo_deps = [(proxyKind, \<lparr>rvGroupID = GlobalGroup, rvResourceID = []\<rparr>),
     (accountKind, \<lparr>rvGroupID = GlobalGroup, rvResourceID = []\<rparr>)]"

definition demo_in :: checkout_input where
  "demo_in = \<lparr>inProductURL = ''http://x/p'', inSize = ''M''\<rparr>"

definition demo_world :: "(string list, unit \<times> event list) world" where
  "demo_world = \<lparr>rtNow = 0, rtCancels = (\<lambda>i. None), rtNext = 0, wdInst = NewContext demo_in demo_deps,
     wdBus = NewBus [], wdEnv = ((), [])\<rparr>"

definition demo_cx :: ctx where
  "demo_cx = \<lparr>cxLine = [], cxDeadline = None\<rparr>"

definition demo_graph :: "(ctx \<Rightarrow> (string option, string list, unit \<times> event list) act) graph" where
  "demo_graph = checkout_graph demo_ints 2 (ledger demo_ports)"

fun run_states ::
    "(ctx \<Rightarrow> (string option, 'j, 'w) act) graph \<Rightarrow> ctx \<Rightarrow> string list \<Rightarrow> ('j, 'w) world \<Rightarrow> ('j, 'w) world" where
  "run_states g cx [] w = w"
| "run_states g cx (s # ss) w =
     (case Handler g s of None \<Rightarrow> w | Some h \<Rightarrow> run_states g cx ss (snd (h cx w)))"

lemma run_states_run:
  "checkout_run g i deps w \<Longrightarrow> checkout_run g i deps (run_states g cx ss w)"
  by (induction ss arbitrary: w) (auto intro: checkout_run.state split: option.split)

lemma demo_run: "checkout_run demo_graph demo_in demo_deps (run_states demo_graph demo_cx path demo_world)"
  by (rule run_states_run, rule checkout_run.new) (simp_all add: demo_world_def evs_def)

lemma demo_evs:
  "evs (run_states demo_graph demo_cx path demo_world) = [Acquired 7, Locked 3, Listened 5, Placed]"
  by code_simp

section \<open>The properties\<close>

text \<open>C21. The checkout gives back what it takes: after any run of its states, whatever the managers, the
  site and the mail answered and wherever a state failed, Teardown leaves a ledger in which every
  proxy lease, every account lease and every inbox subscription that was taken has been given back
  exactly once. A lease that never reached the context, the client could not be built on it, is
  among them.\<close>

theorem leases_are_given_back:
  assumes "checkout_run (checkout_graph F two (ledger P)) i deps w"
  shows "nums acquired_of (evs (snd (checkout_Teardown (ledger P) cx status runErr w)))
      = nums released_of (evs (snd (checkout_Teardown (ledger P) cx status runErr w))) \<and>
    nums locked_of_event (evs (snd (checkout_Teardown (ledger P) cx status runErr w)))
      = nums unlocked_of (evs (snd (checkout_Teardown (ledger P) cx status runErr w))) \<and>
    nums listened_of (evs (snd (checkout_Teardown (ledger P) cx status runErr w)))
      = nums closed_of (evs (snd (checkout_Teardown (ledger P) cx status runErr w)))"
  by (rule Teardown_books [OF run_owes [OF assms] prod.collapse [symmetric]])

lemma demo_torn_down:
  "evs (snd (checkout_Teardown (ledger demo_ports) demo_cx [] None
     (run_states demo_graph demo_cx path demo_world)))
   = [Acquired 7, Locked 3, Listened 5, Placed, Closed 5, Released 7, Unlocked 3]"
  by code_simp

theorem leases_are_given_back_witness:
  "nums acquired_of [Acquired 7, Locked 3, Listened 5, Placed, Closed 5, Released 7, Unlocked 3] = {#7#} \<and>
   nums released_of (evs (snd (checkout_Teardown (ledger demo_ports) demo_cx [] None
     (run_states demo_graph demo_cx path demo_world)))) = {#7#}"
  using leases_are_given_back [OF demo_run [unfolded demo_graph_def], of demo_cx "[]" None]
  unfolding demo_graph_def [symmetric] demo_torn_down by simp

text \<open>C22. A task places at most one order: over any run of its states, retries and re-entries of the
  last state included, and whatever fails around it, the checkpoint too, at most one post to the
  checkout is answered as confirmed, and once one is, the effect log holds its order, which is what every
  later entry answers with. The order's record must encode, which two strings do.\<close>

theorem one_confirmed_order:
  assumes "checkout_run (checkout_graph F two (ledger P)) i deps w" "\<forall>ord. \<exists>j. ptMarshalOrder P ord = Inr j"
  shows "orders (evs w) \<le> 1 \<and> (orders (evs w) = 1 \<longrightarrow> get (effects w) ''submit-order'' \<noteq> None)"
  using run_once [OF assms] by (simp add: once_ordered_def)

lemma demo_evs_again:
  "evs (run_states demo_graph demo_cx (path @ [submitCheckout]) demo_world) = [Acquired 7, Locked 3, Listened 5, Placed]"
  by code_simp

lemma demo_run_again:
  "checkout_run demo_graph demo_in demo_deps (run_states demo_graph demo_cx (path @ [submitCheckout]) demo_world)"
  by (rule run_states_run, rule checkout_run.new) (simp_all add: demo_world_def evs_def)

text \<open>The last state entered twice.\<close>

theorem one_confirmed_order_witness:
  "orders [Acquired 7, Locked 3, Listened 5, Placed] = 1 \<and>
   get (effects (run_states demo_graph demo_cx (path @ [submitCheckout]) demo_world)) ''submit-order'' \<noteq> None"
proof -
  have m: "\<forall>ord. \<exists>j. ptMarshalOrder demo_ports ord = Inr j" by (simp add: demo_ports_def)
  from one_confirmed_order [OF demo_run_again [unfolded demo_graph_def] m] show ?thesis
    unfolding demo_graph_def [symmetric] demo_evs_again by simp
qed

text \<open>C38. The states of the checkout follow one path: whatever policy wraps it and whatever the world
  answers, a handler of the graph that succeeds names the next state of the path as its next, the
  last one none; so no run leaves the graph, and one that succeeds visits every state in order.\<close>

theorem states_follow_the_path:
  assumes "Handler (checkout_graph F two P) s = Some h" "fst (h cx w) = Inr nxt"
  shows "s \<in> set path \<and> nxt = after s path"
  using graph_answers [OF assms(1), of cx] assms(2) by (auto simp: gives_def)

theorem states_follow_the_path_witness:
  "after submitCheckout path = None \<and> after login path = Some followLink"
proof -
  obtain h where h: "Handler demo_graph submitCheckout = Some h"
    by (simp add: demo_graph_def checkout_graph_def graph_last_definition On_def state_defs)
  obtain k where k: "Handler demo_graph login = Some k"
    by (simp add: demo_graph_def checkout_graph_def graph_last_definition On_def state_defs)
  have "fst (the (Handler demo_graph submitCheckout) demo_cx demo_world) = Inr None"
    "fst (the (Handler demo_graph login) demo_cx demo_world) = Inr (Some followLink)"
    by code_simp+
  with h k show ?thesis
    using states_follow_the_path [OF h [unfolded demo_graph_def], of demo_cx demo_world None]
      states_follow_the_path [OF k [unfolded demo_graph_def], of demo_cx demo_world "Some followLink"]
    by simp
qed

section \<open>The queue cookie\<close>

lemma wait_on_bus_bus:
  assumes "wait_on_bus P cx w = (Inr (), w1)"
  obtains t t' where "wdBus w1 = ptOthers P t t' (wdBus w)"
proof -
  obtain ms w0 where 1: "outside (ptIntn P 100) w = (ms, w0)" by fastforce
  obtain st w2 where 2: "Sleep cx (of_nat ms * 1000000) w0 = (st, w2)" by fastforce
  have b: "wdBus w0 = wdBus w" using 1 by (auto simp: outside_def split: prod.splits)
  have "wdBus (snd (Sleep cx (of_nat ms * 1000000) w0)) = wdBus w0"
    by (simp add: Sleep_def Let_def split: option.split)
  then have "wdBus w2 = wdBus w" using 2 b by simp
  then have "wdBus w1 = ptOthers P (rtNow w0) (rtNow w2) (wdBus w)"
    using assms 1 2 by (auto simp: wait_on_bus_def Let_def split: option.splits)
  then show ?thesis by (rule that)
qed

lemma set_cookie_read [simp]: "quCookie (duQueue (ckD (set_cookie c x))) = c"
  by (simp add: set_cookie_def upd_D_def Persist_def ckD_def)

lemma take_empty:
  assumes "subCh (busHeap (wdBus w) ! sub) = []"
  shows "quCookie (duQueue (ckD (wdInst (snd (take_or_mint P sub w))))) = fst (outside (ptUUID P) w)"
  using assms
  by (auto simp: take_or_mint_def receive_def Let_def upd_inst_def split: prod.split option.split)

lemma take_waiting:
  assumes "subCh (busHeap (wdBus w) ! sub) = c # cs"
  shows "quCookie (duQueue (ckD (wdInst (snd (take_or_mint P sub w))))) = c"
  using assms by (simp add: take_or_mint_def receive_def upd_inst_def)


text \<open>A task that comes to the queue after a cookie was published, and mints another.\<close>

definition late_world :: "(string list, unit \<times> event list) world" where
  "late_world = demo_world\<lparr>wdBus := (case Emit cookie_topic ''shared'' (NewBus []) of
     None \<Rightarrow> NewBus [] | Some (drops, b) \<Rightarrow> b)\<rparr>"


end
