(* ===== verification/Example_Main.thy ===== *)
theory Example_Main
  imports Checkout_Promises Tasks_Manager Tasks_Modules
begin

text \<open>
  The command that runs the checkout example (src/_examples/workflows/example/main.go): the canned site, the
  forward proxy, the mail server in memory, and the repositories in memory that the managers are given;
  and the module of the workflow (checkout/checkout.go).

  A Go map in memory is a gomap, and the order of its list stands for the order Go leaves open. Every
  method runs under its mutex, so each is one step. Printing is left out.
\<close>

section \<open>The site and the forward proxy\<close>

text \<open>What a page answers, before it is encoded as JSON, and the mail it sends.\<close>

definition site ::
    "string \<Rightarrow> string \<Rightarrow> time \<Rightarrow> ((string \<times> string) list \<times> message option) option" where
  "site host route now =
     (if route = ''/product'' then Some ([(''variantID'', ''variant-M''), (''csrfToken'', ''csrf-abc'')], None)
      else if route = ''/login'' then
        Some ([(''status'', ''mail-sent'')],
          Some \<lparr>msgEmailID = [], msgUID = 0, msgMessageID = [], msgFrom = VerificationSender, msgTo = [],
                msgSubject = ''confirm your sign-in'', msgDate = now,
                msgText = ''Follow http://'' @ host @ ''/follow?token=tok-123 to finish signing in.'',
                msgHTML = []\<rparr>)
      else if route = ''/follow'' then Some ([(''status'', ''verified'')], None)
      else if route = ''/cart'' then Some ([(''cartID'', ''cart-123'')], None)
      else if route = ''/checkout'' then Some ([(''orderID'', ''order-999''), (''status'', ''confirmed'')], None)
      else None)"

record response =
  rsStatus :: int
  rsHeader :: "(string \<times> string list) list"
  rsBody :: string

definition forward_proxy :: "(request \<Rightarrow> string + response) \<Rightarrow> request \<Rightarrow> response" where
  "forward_proxy roundTrip r =
     (case roundTrip r of
        Inl e \<Rightarrow>
          \<lparr>rsStatus = 502,
           rsHeader = [(''Content-Type'', [''text/plain; charset=utf-8'']), (''X-Content-Type-Options'', [''nosniff''])],
           rsBody = e @ [CHR 0x0A]\<rparr>
      | Inr resp \<Rightarrow>
          \<lparr>rsStatus = rsStatus resp,
           rsHeader = fold (\<lambda>(key, values) h. fold (\<lambda>v h. put key (get_or [] h key @ [v]) h) values h) (rsHeader resp) [],
           rsBody = rsBody resp\<rparr>)"

section \<open>The mail server in memory\<close>

text \<open>The wakes are the open sessions, each a channel of capacity 1 that holds a signal or not.\<close>

record mem_mail =
  mmNext :: "32 word"
  mmMsgs :: "message list"
  mmWakes :: "(nat, bool) gomap"

definition newMemMailServer :: mem_mail where
  "newMemMailServer = \<lparr>mmNext = 1, mmMsgs = [], mmWakes = []\<rparr>"

definition mem_deliver :: "time \<Rightarrow> message \<Rightarrow> mem_mail \<Rightarrow> mem_mail" where
  "mem_deliver now m s =
     (let m = m\<lparr>msgUID := mmNext s\<rparr>;
          m = (if msgDate m = 0 then m\<lparr>msgDate := now\<rparr> else m)
      in s\<lparr>mmNext := mmNext s + 1, mmMsgs := mmMsgs s @ [m], mmWakes := map (\<lambda>(k, b). (k, True)) (mmWakes s)\<rparr>)"

text \<open>A session is the number of its channel, a fresh one.\<close>

definition mem_dial :: "nat \<Rightarrow> mem_mail \<Rightarrow> mem_mail" where
  "mem_dial wake s = s\<lparr>mmWakes := put wake False (mmWakes s)\<rparr>"

definition mem_Select :: "mem_mail \<Rightarrow> 32 word \<times> 32 word" where
  "mem_Select s = (1, mmNext s - 1)"

definition mem_FetchSince :: "32 word \<Rightarrow> mem_mail \<Rightarrow> message list" where
  "mem_FetchSince uid s = filter (\<lambda>m. uid < msgUID m) (mmMsgs s)"

definition mem_FetchSinceDate :: "time \<Rightarrow> mem_mail \<Rightarrow> message list" where
  "mem_FetchSinceDate since s = filter (\<lambda>m. \<not> msgDate m < since) (mmMsgs s)"

text \<open>Idle returns when there is a signal, which it takes; None is a wait.\<close>

definition mem_Idle :: "nat \<Rightarrow> mem_mail \<Rightarrow> mem_mail option" where
  "mem_Idle wake s =
     (if get (mmWakes s) wake = Some True then Some (s\<lparr>mmWakes := put wake False (mmWakes s)\<rparr>) else None)"

definition mem_Close :: "nat \<Rightarrow> mem_mail \<Rightarrow> mem_mail" where
  "mem_Close wake s = s\<lparr>mmWakes := del wake (mmWakes s)\<rparr>"

section \<open>The proxies repository in memory\<close>

record mem_proxies =
  mpRecords :: "(string, proxy) gomap"
  mpOrder :: "string list"
  mpGroups :: "(string, group) gomap"

definition newMemProxyRepo :: "proxy list \<Rightarrow> mem_proxies" where
  "newMemProxyRepo seed =
     fold (\<lambda>p r. r\<lparr>mpRecords := put (resID p) p (mpRecords r), mpOrder := mpOrder r @ [resID p]\<rparr>) seed
       \<lparr>mpRecords = [], mpOrder = [], mpGroups = []\<rparr>"

definition mp_List :: "mem_proxies \<Rightarrow> proxy list" where
  "mp_List r = List.map_filter (get (mpRecords r)) (mpOrder r)"

definition mp_Save :: "proxy \<Rightarrow> mem_proxies \<Rightarrow> mem_proxies" where
  "mp_Save p r =
     r\<lparr>mpOrder := (if get (mpRecords r) (resID p) = None then mpOrder r @ [resID p] else mpOrder r),
       mpRecords := put (resID p) p (mpRecords r)\<rparr>"

definition mp_Delete :: "string \<Rightarrow> mem_proxies \<Rightarrow> mem_proxies" where
  "mp_Delete i r = r\<lparr>mpRecords := del i (mpRecords r)\<rparr>"

definition mem_proxy_repo :: "(mem_proxies, unit proxy_ext) repository" where
  "mem_proxy_repo =
     \<lparr>repoList = (\<lambda>r. (Inr (mp_List r), r)), repoSave = (\<lambda>p r. (None, mp_Save p r)),
      repoDelete = (\<lambda>i r. (None, mp_Delete i r)), repoListGroups = (\<lambda>r. (Inr (map snd (mpGroups r)), r)),
      repoSaveGroup = (\<lambda>g r. (None, r\<lparr>mpGroups := put (grpID g) g (mpGroups r)\<rparr>)),
      repoDeleteGroup = (\<lambda>i r. (None, r\<lparr>mpGroups := del i (mpGroups r)\<rparr>))\<rparr>"

section \<open>The tasks repository in memory\<close>

record mem_tasks =
  mtRecords :: "(string, task) gomap"
  mtGroups :: "(string, tgroup) gomap"

definition newMemRepo :: mem_tasks where
  "newMemRepo = \<lparr>mtRecords = [], mtGroups = []\<rparr>"

text \<open>Reading a missing record gives the zero one, which the two writers of a run then store.\<close>

definition zero_task :: task where
  "zero_task = \<lparr>tID = [], tWorkflowID = [], tGroupID = [], tAssignments = [], tState = [], tSnapshot = [],
     tStatus = [], tOutput = [], tCreatedAt = 0, tUpdatedAt = 0\<rparr>"

definition mt_SaveCheckpoint :: "string \<Rightarrow> string \<Rightarrow> string \<Rightarrow> json \<Rightarrow> mem_tasks \<Rightarrow> mem_tasks" where
  "mt_SaveCheckpoint i status state snapshot r =
     r\<lparr>mtRecords := put i ((get_or zero_task (mtRecords r) i)
         \<lparr>tStatus := status, tState := state, tSnapshot := snapshot\<rparr>) (mtRecords r)\<rparr>"

definition mt_MarkTerminal :: "string \<Rightarrow> string \<Rightarrow> json \<Rightarrow> mem_tasks \<Rightarrow> mem_tasks" where
  "mt_MarkTerminal i outcome output r =
     r\<lparr>mtRecords := put i ((get_or zero_task (mtRecords r) i)\<lparr>tStatus := outcome, tOutput := output\<rparr>)
         (mtRecords r)\<rparr>"

definition mt_RecoverTask :: "string \<Rightarrow> mem_tasks \<Rightarrow> repoerr + task" where
  "mt_RecoverTask i r =
     (case get (mtRecords r) i of None \<Rightarrow> Inl (''task '' @ i @ '' not found'') | Some t \<Rightarrow> Inr t)"

definition mt_SaveAssignment ::
    "string \<Rightarrow> kind \<Rightarrow> placement \<Rightarrow> mem_tasks \<Rightarrow> repoerr option \<times> mem_tasks" where
  "mt_SaveAssignment i kind a r =
     (case get (mtRecords r) i of
        None \<Rightarrow> (Some (''task '' @ i @ '' not found''), r)
      | Some t \<Rightarrow>
          (None, r\<lparr>mtRecords := put i (t\<lparr>tAssignments := put kind a (tAssignments t)\<rparr>) (mtRecords r)\<rparr>))"

definition mt_TasksInGroup :: "string \<Rightarrow> mem_tasks \<Rightarrow> string list" where
  "mt_TasksInGroup groupID r = map fst (filter (\<lambda>(i, t). tGroupID t = groupID) (mtRecords r))"

definition mt_TasksPinnedTo :: "kind \<Rightarrow> string \<Rightarrow> mem_tasks \<Rightarrow> task list" where
  "mt_TasksPinnedTo kind resourceID r =
     filter (\<lambda>t. plResourceID (get_or noPlacement (tAssignments t) kind) = Some resourceID)
       (map snd (mtRecords r))"

definition mt_GetGroup :: "string \<Rightarrow> mem_tasks \<Rightarrow> tgroup option" where
  "mt_GetGroup i r = get (mtGroups r) i"

definition mem_task_repo :: "mem_tasks trepo" where
  "mem_task_repo =
     \<lparr>trCreateTask = (\<lambda>t r. (None, r\<lparr>mtRecords := put (tID t) t (mtRecords r)\<rparr>)),
      trRecoverTask = (\<lambda>i r. (mt_RecoverTask i r, r)), trSaveAssignment = mt_SaveAssignment,
      trRecoverAll = (\<lambda>r. (Inr (map snd (mtRecords r)), r)),
      trDeleteTask = (\<lambda>i r. (None, r\<lparr>mtRecords := del i (mtRecords r)\<rparr>)),
      trSaveGroup = (\<lambda>g r. (None, r\<lparr>mtGroups := put (tgID g) g (mtGroups r)\<rparr>)),
      trListGroups = (\<lambda>r. (Inr (map snd (mtGroups r)), r)),
      trDeleteGroup = (\<lambda>i r. (None, r\<lparr>mtGroups := del i (mtGroups r)\<rparr>)),
      trTasksInGroup = (\<lambda>i r. (Inr (mt_TasksInGroup i r), r))\<rparr>"

section \<open>The module\<close>

definition checkout_build :: "checkout_input \<Rightarrow> string \<Rightarrow> string + (checkout_input, durable) inst" where
  "checkout_build i task = Inr \<lparr>instBase = Some new_base, instInput = i\<rparr>"

definition checkout_wire :: "kind list \<Rightarrow> string option" where
  "checkout_wire managers =
     (let registered = map (\<lambda>k. (k, ())) managers
      in case Resource Some registered proxyKind of
           Inl e \<Rightarrow> Some e
         | Inr pm \<Rightarrow>
             (case Resource Some registered accountKind of Inl e \<Rightarrow> Some e | Inr am \<Rightarrow> None))"

definition New :: "(checkout_input, durable) in_type \<Rightarrow> (checkout_input, durable) wired_module" where
  "New ty = WithResources checkout_wire (NewModule ty ''example-checkout'' checkout_build)"

section \<open>The mail server hands over every gap\<close>

datatype mail_op = Deliver time message | Dial nat | Idle nat | Hangup nat

fun mail_step :: "mail_op \<Rightarrow> mem_mail \<Rightarrow> mem_mail" where
  "mail_step (Deliver now m) s = mem_deliver now m s"
| "mail_step (Dial k) s = mem_dial k s"
| "mail_step (Idle k) s = (case mem_Idle k s of None \<Rightarrow> s | Some s' \<Rightarrow> s')"
| "mail_step (Hangup k) s = mem_Close k s"

definition mail_run :: "mail_op list \<Rightarrow> mem_mail \<Rightarrow> mem_mail" where
  "mail_run ops s = foldl (\<lambda>s op. mail_step op s) s ops"

definition numbered :: "mem_mail \<Rightarrow> bool" where
  "numbered s \<longleftrightarrow> map msgUID (mmMsgs s) = map (\<lambda>i. of_nat (Suc i)) [0..<length (mmMsgs s)] \<and>
     mmNext s = of_nat (Suc (length (mmMsgs s)))"

lemma mail_step_msgs:
  obtains (same) "mmMsgs (mail_step op s) = mmMsgs s" "mmNext (mail_step op s) = mmNext s"
  | (deliver) m where "mmMsgs (mail_step op s) = mmMsgs s @ [m]" "msgUID m = mmNext s"
      "mmNext (mail_step op s) = mmNext s + 1"
proof (cases op)
  case (Deliver now m)
  then show ?thesis
    by (intro deliver [of "(if msgDate m = 0 then m\<lparr>msgUID := mmNext s, msgDate := now\<rparr> else m\<lparr>msgUID := mmNext s\<rparr>)"])
      (simp_all add: mem_deliver_def Let_def)
qed (use same in \<open>auto simp: mem_dial_def mem_Idle_def mem_Close_def split: option.splits if_splits\<close>)

lemma numbered_step: "numbered s \<Longrightarrow> numbered (mail_step op s)"
  by (cases rule: mail_step_msgs [of op s]) (simp_all add: numbered_def)

lemma mail_run_numbered: "numbered s \<Longrightarrow> numbered (mail_run ops s)"
  unfolding mail_run_def by (induction ops arbitrary: s) (simp_all add: numbered_step)

lemma mail_run_extends: "\<exists>ms. mmMsgs (mail_run ops s) = mmMsgs s @ ms"
  unfolding mail_run_def
proof (induction ops arbitrary: s)
  case (Cons op ops)
  obtain ms where "mmMsgs (mail_step op s) = mmMsgs s @ ms"
    by (cases rule: mail_step_msgs [of op s]) auto
  with Cons [of "mail_step op s"] show ?case by fastforce
qed simp

lemma numbered_new: "numbered newMemMailServer"
  by (simp add: numbered_def newMemMailServer_def)

lemma filter_above:
  assumes "map msgUID ms = map (\<lambda>i. of_nat (Suc i)) [0..<length ms]" "Suc (length ms) < 2 ^ 32" "n \<le> length ms"
  shows "filter (\<lambda>m. (of_nat n :: 32 word) < msgUID m) ms = drop n ms"
proof -
  have uid: "msgUID (ms ! i) = of_nat (Suc i)" if "i < length ms" for i
    using arg_cong [OF assms(1), of "\<lambda>l. l ! i"] that by simp
  have below: "(of_nat n :: 32 word) < msgUID (ms ! i) \<longleftrightarrow> n \<le> i" if "i < length ms" for i
  proof -
    have "unat (of_nat n :: 32 word) = n" "unat (of_nat (Suc i) :: 32 word) = Suc i"
      using that assms(2,3) by (simp_all add: unat_of_nat take_bit_nat_eq_self del: of_nat_Suc)
    then show ?thesis by (simp add: uid [OF that] word_less_nat_alt del: of_nat_Suc) linarith
  qed
  have "filter (\<lambda>m. (of_nat n :: 32 word) < msgUID m) (take n ms) = []"
    using below by (auto simp: filter_empty_conv in_set_conv_nth)
  moreover have "filter (\<lambda>m. (of_nat n :: 32 word) < msgUID m) (drop n ms) = drop n ms"
    using below by (auto simp: filter_id_conv in_set_conv_nth)
  ultimately show ?thesis
    by (metis append_Nil append_take_drop_id filter_append)
qed

text \<open>The mail server in memory hands over every gap: when a session reads the last number at some
  point, and the server then goes through any deliveries, dials and hang-ups, a fetch from that number
  answers with exactly the messages delivered in between, in order, as long as the numbers fit 32 bits.\<close>

theorem memory_mail_hands_over_the_gap:
  assumes "Suc (length (mmMsgs (mail_run (ops @ later) newMemMailServer))) < 2 ^ 32"
  shows "mmMsgs (mail_run (ops @ later) newMemMailServer)
    = mmMsgs (mail_run ops newMemMailServer)
      @ mem_FetchSince (snd (mem_Select (mail_run ops newMemMailServer))) (mail_run (ops @ later) newMemMailServer)"
proof -
  let ?s = "mail_run ops newMemMailServer" and ?t = "mail_run (ops @ later) newMemMailServer"
  have t: "?t = mail_run later ?s" by (simp add: mail_run_def)
  obtain ms where ms: "mmMsgs ?t = mmMsgs ?s @ ms" unfolding t using mail_run_extends by blast
  have n: "numbered ?s" "numbered ?t" by (rule mail_run_numbered [OF numbered_new])+
  have last: "snd (mem_Select ?s) = of_nat (length (mmMsgs ?s))"
    using n(1) by (simp add: numbered_def mem_Select_def)
  have "mem_FetchSince (snd (mem_Select ?s)) ?t = drop (length (mmMsgs ?s)) (mmMsgs ?t)"
    unfolding mem_FetchSince_def last using n(2) assms ms by (intro filter_above) (simp_all add: numbered_def)
  then show ?thesis by (simp add: ms)
qed

theorem memory_mail_hands_over_the_gap_witness:
  "mem_FetchSince (snd (mem_Select (mail_run [Dial 0, Deliver 5 demo_mail] newMemMailServer)))
     (mail_run ([Dial 0, Deliver 5 demo_mail] @ [Hangup 0, Deliver 9 demo_mail]) newMemMailServer)
   = [demo_mail\<lparr>msgUID := 2, msgDate := 9\<rparr>]"
proof -
  have b: "Suc (length (mmMsgs (mail_run ([Dial 0, Deliver 5 demo_mail] @ [Hangup 0, Deliver 9 demo_mail])
      newMemMailServer))) < 2 ^ 32"
    by (simp add: mail_run_def mem_dial_def mem_deliver_def mem_Close_def newMemMailServer_def Let_def)
  from memory_mail_hands_over_the_gap [OF b] show ?thesis
    by (simp add: mail_run_def mem_dial_def mem_deliver_def mem_Close_def newMemMailServer_def Let_def demo_mail_def)
qed

section \<open>The repositories\<close>

text \<open>Delete leaves the id in the order, and a later Save of it adds another: the proxy is listed twice.\<close>

lemma resaved_proxy_is_listed_twice:
  assumes "resID p \<notin> set (mpOrder r)" "get (mpRecords r) (resID p) = None"
  shows "mp_List (mp_Save p (mp_Delete (resID p) (mp_Save p r))) = mp_List r @ [p, p]"
proof -
  have "List.map_filter (get (put (resID p) p (del (resID p) (put (resID p) p (mpRecords r))))) (mpOrder r)
      = List.map_filter (get (mpRecords r)) (mpOrder r)"
    using assms(1) by (auto simp: List.map_filter_def intro!: map_cong filter_cong)
  then show ?thesis using assms(2)
    by (simp add: mp_List_def mp_Save_def mp_Delete_def List.map_filter_def)
qed

text \<open>A task's rows under the two writers of a run: one kind repointed leaves the others.\<close>

lemma mt_SaveAssignment_others:
  "mt_SaveAssignment i kind a r = (None, r') \<Longrightarrow> get (mtRecords r) i = Some t \<Longrightarrow> k \<noteq> kind \<Longrightarrow>
     map_option (\<lambda>t. get (tAssignments t) k) (get (mtRecords r') i) = Some (get (tAssignments t) k)"
  by (auto simp: mt_SaveAssignment_def)

section \<open>The example from end to end\<close>

text \<open>The ports of the run: pages by their route, JSON as fields between separators, the inbox read as a
  backfill of the sender's mail from the mail server. What is outside is the server and the start of the
  backfill.\<close>

definition enc :: "(string \<times> string) list \<Rightarrow> string" where
  "enc fs = concat (map (\<lambda>(k, v). k @ [CHR 0x00] @ v @ [CHR 0x00]) fs)"

fun parts_of :: "string \<Rightarrow> string \<Rightarrow> string list" where
  "parts_of [] word = []"
| "parts_of (ch # s) word = (if ch = CHR 0x00 then word # parts_of s [] else parts_of s (word @ [ch]))"

fun dec :: "string list \<Rightarrow> string \<Rightarrow> string" where
  "dec (k # v # ws) f = (if k = f then v else dec ws f)"
| "dec _ f = []"

definition parse_http :: "string \<Rightarrow> url" where
  "parse_http u =
     (let rest = drop 7 u
      in \<lparr>urlScheme = ''http'', urlHost = takeWhile (\<lambda>ch. ch \<noteq> CHR ''/'') rest,
          urlRest = takeWhile (\<lambda>ch. ch \<noteq> CHR ''?'') (dropWhile (\<lambda>ch. ch \<noteq> CHR ''/'') rest)\<rparr>)"

definition serve_page :: "request \<Rightarrow> int \<Rightarrow> mem_mail \<Rightarrow> string \<times> mem_mail" where
  "serve_page q now mail =
     (let u = parse_http (rqURL q)
      in case site (urlHost u) (urlRest u) now of
           None \<Rightarrow> (''404 page not found'', mail)
         | Some (fs, None) \<Rightarrow> (enc fs, mail)
         | Some (fs, Some m) \<Rightarrow> (enc fs, mem_deliver now m mail))"

definition example_ports :: "(string list, mem_mail \<times> time) ports" where
  "example_ports =
     \<lparr>urlParse = (\<lambda>u. Inr (parse_http u)), jarNew = Inr [], jarSet = (\<lambda>u cs j. map snd cs @ j),
      requestErr = (\<lambda>m u. None), formEncode = enc, jsEncode = (\<lambda>fs. Inr (enc fs)),
      jsDecode = (\<lambda>fs body. Inr (dec (parts_of body []))),
      clientDo = (\<lambda>st cl q (t, mail, since). case serve_page q t mail of (body, mail') \<Rightarrow> ((Inr body, cl), t, mail', since)),
      ptAcquire = (\<lambda>st a (t, w). (Inr \<lparr>xlID = 0, xlRes = demo_proxy ''local-1'' 0\<rparr>, t, w)),
      ptReleaseOutcome = (\<lambda>st i b (t, w). (None, t, w)),
      ptLock = (\<lambda>st a (t, w). (Inr demo_account_lease, t, w)), ptRelease = (\<lambda>i (t, w). ((), t, w)),
      ptListen = (\<lambda>st task i s d (t, mail, since). (Inr 0, t, mem_dial 0 mail, d)),
      ptReceive = (\<lambda>st i (t, mail, since).
        (Inr (find (\<lambda>m. msgFrom m = VerificationSender) (mem_FetchSinceDate since mail)), t, mail, since)),
      ptCloseInbox = (\<lambda>i (t, mail, since). (None, t, mem_Close 0 mail, since)),
      ptCheckpoint = Some (\<lambda>st b (t, w). (None, t, w)),
      ptIntn = (\<lambda>n (t, w). (2, t, w)), ptUUID = (\<lambda>(t, w). (''cookie'', t, w)), ptOthers = (\<lambda>t t' b. b),
      ptProfile = (\<lambda>j. Inl []), ptMarshalOrder = (\<lambda>ord. Inr (enc [(orOrderID ord, orStatus ord)])),
      ptUnmarshalOrder = (\<lambda>j. Inr \<lparr>orOrderID = j, orStatus = j\<rparr>)\<rparr>"

definition example_world :: "(string list, mem_mail \<times> time) world" where
  "example_world = \<lparr>rtNow = 60000000000, rtCancels = (\<lambda>i. None), rtNext = 0,
     wdInst = NewContext \<lparr>inProductURL = ''http://127.0.0.1/product'', inSize = ''M''\<rparr> demo_deps,
     wdBus = NewBus [], wdEnv = (newMemMailServer, 0)\<rparr>"

text \<open>The example runs to its order: over the canned site and the mail server in memory, the handlers
  of the graph, each under its policies and one after the other, end with the order the site confirms,
  the verification link taken from the mail that the login had delivered, and the cookie in the jar.\<close>

theorem example_places_its_order:
  "ckOrder (wdInst (run_states (checkout_graph demo_ints 2 example_ports) demo_cx path example_world))
     = \<lparr>orOrderID = ''order-999'', orStatus = ''confirmed''\<rparr> \<and>
   ckD (wdInst (run_states (checkout_graph demo_ints 2 example_ports) demo_cx path example_world))
     = \<lparr>duHomepage = \<lparr>hpVariantID = ''variant-M'', hpCSRFToken = ''csrf-abc''\<rparr>, duQueue = \<lparr>quCookie = ''cookie''\<rparr>,
        duLogin = \<lparr>loVerifyURL = ''http://127.0.0.1/follow?token=tok-123''\<rparr>, duCart = \<lparr>caID = ''cart-123''\<rparr>\<rparr> \<and>
   Option.bind (ckClient (wdInst (run_states (checkout_graph demo_ints 2 example_ports) demo_cx path example_world)))
     clJar = Some [''cookie'']"
  by code_simp

end
