(* ===== verification/Example_Setup.thy ===== *)
theory Example_Setup
  imports Example_Main Tasks_Typed
begin

text \<open>
  What main of the checkout example (src/_examples/workflows/example/main.go) does before it starts the task:
  the managers made and filled, wired into one another and into the workflow, and the task created. Each
  step that fails ends the program with its error. The URLs of the two servers, the id of the task and
  the clock are given; the dialer of the email manager, which only a listener uses, is left out.
\<close>

datatype fatal =
    FatalProxies lease_error
  | FatalEmail email_error
  | FatalAddEmail email_error
  | FatalNilEmail
  | FatalAccounts lease_error
  | FatalAddAccount lease_error
  | FatalTasks tm_error
  | FatalRegister tm_error
  | FatalCreate tm_error

text \<open>The managers the tasks manager is given, one constructor per kind.\<close>

datatype managed =
    ProxyManager "(mem_proxies, unit proxy_ext) manager"
  | AccountManager "(unit, unit account_ext) manager"

definition local_proxy :: "string \<Rightarrow> proxy" where
  "local_proxy u = \<lparr>resID = ''local-1'', resGroup = GlobalGroup, resOwner = [], resMax = 0, resCreated = 0,
     resUpdated = 0, pxURL = u, pxSuccesses = 0, pxFailures = 0\<rparr>"

definition inbox_1 :: email where
  "inbox_1 = \<lparr>emID = ''inbox-1'', emAddress = ''orders@example.com'',
     emInbox = Some \<lparr>ibVendor = Gmail, ibAuth = \<lparr>auKind = AuthPassword, auUsername = [],
       auPassword = ''app-password'', auClientID = [], auClientSecret = [], auRefreshToken = [], auTokenURL = []\<rparr>,
       ibLastUID = 0, ibUIDValidity = 0\<rparr>,
     emCreatedAt = 0, emUpdatedAt = 0\<rparr>"

definition buyer_1 :: "json \<Rightarrow> account" where
  "buyer_1 fs = \<lparr>resID = ''buyer-1'', resGroup = GlobalGroup, resOwner = [], resMax = 0, resCreated = 0,
     resUpdated = 0, acEmailID = ''inbox-1'', acFields = fs\<rparr>"

definition buyer :: profile where
  "buyer = \<lparr>prEmail = ''buyer@example.com'', prName = ''Buyer'', prAddress = ''1 Example St''\<rparr>"

definition checkout_flow ::
    "(checkout_input, 'x) workflow \<Rightarrow> (checkout_input, durable) wired_module \<Rightarrow> (checkout_input, 'x) registered" where
  "checkout_flow engine m =
     \<lparr>wfEngine = engine,
      wfValidateInput = (\<lambda>i. map_option ErrMsg (ValidateInput (module.truncate m) i)),
      wfUseResources = Some (\<lambda>ks. map_option ErrMsg (UseResources m ks))\<rparr>"

definition example_setup ::
    "('g \<Rightarrow> proxy \<Rightarrow> ('r :: linorder) \<times> 'g) \<Rightarrow> 'g \<Rightarrow> (string \<Rightarrow> string) \<Rightarrow> (profile \<Rightarrow> json)
      \<Rightarrow> (checkout_input, durable) in_type \<Rightarrow> (checkout_input, 'x) workflow \<Rightarrow> order out_codec
      \<Rightarrow> string \<Rightarrow> string \<Rightarrow> string \<Rightarrow> time
      \<Rightarrow> fatal + (checkout_input thandle, order) typed \<times> (checkout_input, 'x, mem_tasks, managed) tmgr
           \<times> (unit, (unit, unit account_ext) manager) emgr option" where
  "example_setup sampleBeta seed lower profileFields ty engine codec siteURL forwardURL newID now =
     (case proxies_NewManager sampleBeta seed (Some mem_proxy_repo) [] now (newMemProxyRepo [local_proxy forwardURL]) of
        (Inl e, _) \<Rightarrow> Inl (FatalProxies e)
      | (Inr pm, _) \<Rightarrow>
     (case email_NewManager lower None [] () of
        (Inl e, _) \<Rightarrow> Inl (FatalEmail e)
      | (Inr em, _) \<Rightarrow>
     (case email_Add now inbox_1 em of
        (Some e, _) \<Rightarrow> Inl (FatalAddEmail e)
      | (None, em) \<Rightarrow>
     (case WithEmail (Some em) of
        None \<Rightarrow> Inl FatalNilEmail
      | Some withEmail \<Rightarrow>
     (case accounts_NewManager None [withEmail] now () of
        (Inl e, _) \<Rightarrow> Inl (FatalAccounts e)
      | (Inr (am, em), _) \<Rightarrow>
     (case Add now (buyer_1 (profileFields buyer)) am of
        (Some e, _) \<Rightarrow> Inl (FatalAddAccount e)
      | (None, am) \<Rightarrow>
     (case tasks_NewManager (Some mem_task_repo)
             [(proxyKind, Some (ProxyManager pm)), (accountKind, Some (AccountManager am))] newMemRepo of
        (Inl e, _) \<Rightarrow> Inl (FatalTasks e)
      | (Inr tm, _) \<Rightarrow>
     (case RegisterWorkflow ''example-checkout'' (checkout_flow engine (New ty)) tm of
        (Some e, _) \<Rightarrow> Inl (FatalRegister e)
      | (None, tm) \<Rightarrow>
     (case Create codec newID now ''example-checkout'' \<lparr>inProductURL = siteURL @ ''/product'', inSize = ''M''\<rparr>
             [WithResourceGroup proxyKind GlobalGroup, WithResourceGroup accountKind GlobalGroup] tm of
        (Inl e, _) \<Rightarrow> Inl (FatalCreate e)
      | (Inr h, tm) \<Rightarrow> Inr (h, tm, em))))))))))"

text \<open>Nothing of this can fail: whatever the sampler, the codecs and the URLs, the program reaches the
  task, which stands in the repository unstarted, to lease both kinds from their global groups, in
  managers that hold the proxy and the account, and with the guard in the email manager.\<close>

lemma mem_proxy_repo_fields:
  "repoList mem_proxy_repo r = (Inr (mp_List r), r)" "repoListGroups mem_proxy_repo r = (Inr (map snd (mpGroups r)), r)"
  "repoSaveGroup mem_proxy_repo g r = (None, r\<lparr>mpGroups := put (grpID g) g (mpGroups r)\<rparr>)"
  by (simp_all add: mem_proxy_repo_def)

lemma noop_fields:
  "repoList noopRepository s = (Inr [], s)" "repoListGroups noopRepository s = (Inr [], s)"
  "repoSaveGroup noopRepository g s = (None, s)" "repoSave noopRepository x s = (None, s)"
  by (simp_all add: noopRepository_def)

lemmas leasing_setup = NewManager_def Let_def ensureGlobal_def emptyManager_def WithStrategy_def
  repo_save_group_def adoptGroup_def validateGroup_def loadResource_def validateHolderPolicy_def UnlimitedHolders_def

lemma proxies_ready:
  "\<exists>pm. proxies_NewManager sampleBeta seed (Some mem_proxy_repo) [] now (newMemProxyRepo [local_proxy u])
     = (Inr pm, mStore pm) \<and> get (mPool pm) ''local-1'' = Some (local_proxy u)"
  by (simp add: proxies_NewManager_def leasing_setup mem_proxy_repo_fields newMemProxyRepo_def local_proxy_def
      mp_List_def List.map_filter_def StrategyRoundRobin_def StrategyBayesian_def GlobalGroup_def)

text \<open>After the proxy is deleted and saved again, the next manager over the repository does not start.\<close>

lemma resaved_proxy_stops_the_manager:
  "fst (proxies_NewManager sampleBeta seed (Some mem_proxy_repo) [] now
     (mp_Save (local_proxy u) (mp_Delete ''local-1'' (newMemProxyRepo [local_proxy u]))))
   = Inl (EDuplicateResource ''local-1'')"
  by (simp add: proxies_NewManager_def leasing_setup mem_proxy_repo_fields newMemProxyRepo_def local_proxy_def
      mp_List_def mp_Save_def mp_Delete_def List.map_filter_def StrategyRoundRobin_def StrategyBayesian_def GlobalGroup_def)

lemma accounts_ready:
  "\<exists>am. accounts_NewManager None [\<lambda>cfg. Some em] now () = (Inr (am, Some (GuardDeletes accounts_guard em)), mStore am)
     \<and> (\<exists>am'. Add now (buyer_1 fs) am = (None, am') \<and>
          get (mPool am') ''buyer-1'' = Some ((buyer_1 fs)\<lparr>resCreated := now, resUpdated := now\<rparr>))"
  by (simp add: accounts_NewManager_def leasing_setup noop_fields Add_def buyer_1_def repo_save_def
      broadcast_def StrategyRoundRobin_def GlobalGroup_def)

lemma email_ready:
  "\<exists>em. email_NewManager lower None [] () = (Inr em, ()) \<and>
     (\<exists>em'. email_Add now inbox_1 em = (None, em') \<and> get (emInventory em') ''inbox-1'' \<noteq> None)"
  by (simp add: email_NewManager_def email_noopRepository_def Let_def email_Add_def inbox_1_def validateInbox_def
      endpoint_def vendor_defs)

lemma kinds_valid: "kind_Validate proxyKind = None" "kind_Validate accountKind = None" "proxyKind \<noteq> accountKind"
  by code_simp+

lemma tasks_ready:
  "\<exists>tm. tasks_NewManager (Some mem_task_repo) [(proxyKind, Some r1), (accountKind, Some r2)] newMemRepo
     = (Inr tm, newMemRepo) \<and> tmResources tm = [(proxyKind, r1), (accountKind, r2)]
     \<and> tmWorkflows tm = [] \<and> tmRepo tm = Some mem_task_repo \<and> tmStore tm = newMemRepo
     \<and> get (tmGroups tm) TasksGlobalGroup = Some (zeroTGroup TasksGlobalGroup)"
  by (simp add: tasks_NewManager_def tasks_WithResource_def kinds_valid kinds_valid(3) [symmetric] Let_def
      mem_task_repo_def newMemRepo_def)

lemma register_ready:
  assumes "tmResources tm = [(proxyKind, r1), (accountKind, r2)]" "tmWorkflows tm = []"
  shows "RegisterWorkflow ''example-checkout'' (checkout_flow engine (New ty)) tm
    = (None, tm\<lparr>tmWorkflows := [(''example-checkout'', checkout_flow engine (New ty))]\<rparr>)"
  using assms
  by (simp add: RegisterWorkflow_def checkout_flow_def UseResources_def New_def WithResources_def NewModule_def
      checkout_wire_def Resource_def Let_def kinds_valid)

definition both_global :: "(kind, resolved) gomap \<Rightarrow> bool" where
  "both_global rs \<longleftrightarrow> (\<forall>k \<in> {proxyKind, accountKind}. get rs k = Some \<lparr>rvGroupID = GlobalGroup, rvResourceID = []\<rparr>)"

lemma create_ready:
  assumes "tmRepo tm = Some mem_task_repo" "tmStore tm = newMemRepo"
    "get (tmWorkflows tm) ''example-checkout'' = Some (checkout_flow engine (New ty))"
    "get (tmGroups tm) TasksGlobalGroup = Some (zeroTGroup TasksGlobalGroup)"
  shows "\<exists>h tm'. Create codec newID now ''example-checkout'' input
      [WithResourceGroup proxyKind GlobalGroup, WithResourceGroup accountKind GlobalGroup] tm = (Inr h, tm') \<and>
    both_global (hResolved (tyTask h)) \<and> tStatus (hTask (tyTask h)) = StatusNotStarted \<and>
    get (mtRecords (tmStore tm')) newID = Some (hTask (tyTask h)) \<and> handle_at tm' newID = Some (tyTask h)"
  using assms
  by (simp add: Create_def CreateTask_def getWorkflow_def newConfig_def WithResourceGroup_def assign_def validKinds_def
      kinds_valid kinds_valid(3) [symmetric] tasks_getGroup_def tasks_GetGroup_def createTask_def checkout_flow_def
      ValidateInput_def assertInput_def New_def WithResources_def NewModule_def module.truncate_def Let_def
      mem_task_repo_def newMemRepo_def install_def handle_at_def resolveAll_def zeroTGroup_def resolve_def
      noPlacement_def both_global_def)

text \<open>Whatever the sampler, the codecs and the URLs, the program reaches the task: it stands in the
  repository unstarted and behind its handle, to lease both kinds from their global groups.\<close>

theorem example_reaches_its_task:
  fixes engine :: "(checkout_input, 'x) workflow"
  shows "\<exists>h tm em. example_setup sampleBeta seed lower profileFields ty engine codec siteURL forwardURL newID now
      = Inr (h, tm, Some em) \<and>
    both_global (hResolved (tyTask h)) \<and> tStatus (hTask (tyTask h)) = StatusNotStarted \<and>
    get (mtRecords (tmStore tm)) newID = Some (hTask (tyTask h)) \<and> handle_at tm newID = Some (tyTask h)"
proof -
  obtain pm where p: "proxies_NewManager sampleBeta seed (Some mem_proxy_repo) [] now
      (newMemProxyRepo [local_proxy forwardURL]) = (Inr pm, mStore pm)"
    using proxies_ready [of sampleBeta seed now forwardURL] by (elim exE conjE)
  obtain em0 em :: "(unit, (unit, unit account_ext) manager) emgr" where e: "email_NewManager lower None [] () = (Inr em0, ())" "email_Add now inbox_1 em0 = (None, em)"
    using email_ready [of lower now] by (elim exE conjE)
  obtain am am' where a: "accounts_NewManager None [\<lambda>cfg. Some em] now ()
      = (Inr (am, Some (GuardDeletes accounts_guard em)), mStore am)"
      "Add now (buyer_1 (profileFields buyer)) am = (None, am')"
    using accounts_ready [of em now "profileFields buyer"] by (elim exE conjE)
  obtain tm :: "(checkout_input, 'x, mem_tasks, managed) tmgr" where t: "tasks_NewManager (Some mem_task_repo)
      [(proxyKind, Some (ProxyManager pm)), (accountKind, Some (AccountManager am'))] newMemRepo = (Inr tm, newMemRepo)"
      "tmResources tm = [(proxyKind, ProxyManager pm), (accountKind, AccountManager am')]" "tmWorkflows tm = []"
      "tmRepo tm = Some mem_task_repo" "tmStore tm = newMemRepo"
      "get (tmGroups tm) TasksGlobalGroup = Some (zeroTGroup TasksGlobalGroup)"
    using tasks_ready [of "ProxyManager pm" "AccountManager am'"] by (elim exE conjE)
  let ?tm = "tm\<lparr>tmWorkflows := [(''example-checkout'', checkout_flow engine (New ty))]\<rparr>"
  have tm: "tmRepo ?tm = Some mem_task_repo" "tmStore ?tm = newMemRepo"
    "get (tmWorkflows ?tm) ''example-checkout'' = Some (checkout_flow engine (New ty))"
    "get (tmGroups ?tm) TasksGlobalGroup = Some (zeroTGroup TasksGlobalGroup)"
    using t(4-6) by simp_all
  obtain h tm' where c: "Create codec newID now ''example-checkout''
      \<lparr>inProductURL = siteURL @ ''/product'', inSize = ''M''\<rparr>
      [WithResourceGroup proxyKind GlobalGroup, WithResourceGroup accountKind GlobalGroup] ?tm = (Inr h, tm')"
    "both_global (hResolved (tyTask h))" "tStatus (hTask (tyTask h)) = StatusNotStarted"
    "get (mtRecords (tmStore tm')) newID = Some (hTask (tyTask h))" "handle_at tm' newID = Some (tyTask h)"
    using create_ready [OF tm, of codec newID now "\<lparr>inProductURL = siteURL @ ''/product'', inSize = ''M''\<rparr>"]
    by (elim exE conjE)
  have "example_setup sampleBeta seed lower profileFields ty engine codec siteURL forwardURL newID now
      = Inr (h, tm', Some (GuardDeletes accounts_guard em))"
    unfolding example_setup_def WithEmail_def
    by (simp only: p e a t(1) register_ready [OF t(2,3)] c(1) prod.case sum.case option.case)
  with c show ?thesis by blast
qed

end
