(* ===== verification/Spec2Isabelle.thy ===== *)
theory Spec2Isabelle
  imports Leasing_Properties Leasing_Selection Sqlite_Proxies Comms Workflows Engine_Properties Tasks_Properties
    Email_Properties Email_Vendors Sqlite_Open Sqlite_Migrate Sqlite_Accounts
    Sqlite_Email Tasks_Recovery Tasks_Modules Tasks_Typed Scaffold_Properties
    Proxies_Sampler Workflows_Policies Checkout_Promises Example_Main Example_Setup
begin

text \<open>
  A verification development for rogojin, a Go framework that runs long-lived workflows: tasks that lease
  shared resources (proxies, accounts, payments), read mail, survive crashes through a database, and steer
  each other over a bus.

  \<^bold>\<open>The program and its parts.\<close>
  A task runs a workflow, a graph of states, under an engine (src/tasks/engine.go). The tasks manager
  (src/tasks/manager.go) creates, recovers, groups, repoints and deletes tasks, resolves which group and
  which pinned resource of each kind a task may lease, and releases a deleted task's locks through the
  resource managers. Each resource kind is one instance of the generic leasing manager (src/leasing) with
  its own model and strategy (src/proxies, src/accounts, src/payments). The email manager (src/email) keeps
  one listener per inbox while somebody listens and fans new mail out to subscriptions; the accounts manager
  installs a guard in it so that an inbox in use cannot be deleted. Workflow instances embed a Base
  (src/workflows) that keeps an effect log and a durable state, which the engine snapshots before each state.
  Everything durable goes through a repository port, which src/sqlite implements on one SQLite file with a
  migration ledger. src/comms is the in-memory bus. src/internal/scaffold and src/cmd/rogojin write a new
  workflow package into a module. src/_examples holds a workflow that uses all of it, a checkout over HTTP,
  and a command that runs it against servers and repositories in memory.

  \<^bold>\<open>Theories.\<close>
  \<^item> Prelude: Go maps as association lists with distinct keys, and lemmas on them.
  \<^item> Leasing_Types, Leasing_Manager (every operation of src/leasing/manager.go as a critical section),
    Leasing_Invariant, Leasing_Acquire, Leasing_Ops (each keeps the invariant), Leasing_System (concurrent
    callers as a step relation: acquires asleep on the condition variable, leases with their once flag),
    Leasing_Selection (the strategy port as a locale, round robin as its instance), Leasing_Store (the
    repository port as a locale), Leasing_Demo (a run by hand), Leasing_Properties.
  \<^item> Proxies, Accounts, Payments: the kinds, as extensions of the resource record. Proxies_Sampler: the Beta
    sampler of the bayesian strategy.
  \<^item> Comms: the bus.
  \<^item> Workflows: statuses, graph, Base with Do, Once, Snapshot and restore, Module, Retry. Workflows_Policies: contexts,
    Timeout, the backoffs and Retry under a context. Workflows_Effects: Do inside a world that holds the
    instance, agreeing with the Do of Workflows.
  \<^item> Tasks_Types, Engine (the engine as a machine whose locked sections and unlocked calls are steps),
    Engine_Properties, Tasks_Manager, Tasks_Deletion (the resource managers as a locale), Tasks_Locks (the
    leasing manager as its instance), Tasks_Properties, Tasks_Store (the task repository as a locale),
    Tasks_Recovery (the manager and the engines' writes on the SQLite store), Tasks_Modules (modules as the
    engine's workflows, and lives of tasks over crashes), Tasks_Typed (the surface of a handle, typed
    handles).
  \<^item> Email_Types, Email_Manager, Email_Listener (the listener goroutine as a machine interleaved with the
    manager), Email_Invariant, Email_Delivery, Email_Demo, Email_Properties, Email_Vendors (the sessions with
    the mail vendors).
  \<^item> Sqlite_Store (what the stores of leasing kinds share), Sqlite_Proxies, Sqlite_Accounts, Sqlite_Email,
    Sqlite_Tasks (rows and statements, instances of the port locales), Sqlite_Open, Sqlite_Migrate (the
    ledger).
  \<^item> Scaffold, Command, Scaffold_Properties: the scaffolder and its command.
  \<^item> Checkout_Requests (HTTP requests and the client), Checkout (the context, its lazy resources, the states,
    the graph), Checkout_Rules (locales: what a relation between worlds must allow to be carried through the
    states and the policies), Checkout_Properties (the ledger of what is taken and given back; the
    locales' instances), Checkout_Promises, Example_Main (the servers and repositories in memory, a run
    from end to end), Example_Setup (main up to the created task).

  \<^bold>\<open>State and operations.\<close>
  A manager is a record of what its Go struct holds; an operation is one function from it to an answer and
  the manager it leaves, since it holds the mutex from its first read to its last write. Where the code
  lets go of the mutex (waiting for a resource, a run between two locked sections, a listener between two
  critical sections, the listing of RecoverAll) the model has separate steps, and the theorems hold for all
  interleavings. Shared pointers (task handles, subscriptions, listeners) are addresses of a heap. The store
  is a field of the manager, with a schedule of the calls that fail, so every error path of a write is a
  branch. A Go error is an option or the left of a sum; a panic is no result. Cursors of the round robin and
  counters of proxies are 64-bit words, UIDs 32-bit words.

  \<^bold>\<open>What the lemmas show.\<close>
  \<^item> Leasing: holders never exceed a cap, a lock is exclusive, no acquire sleeps through the release it
    waits for, leases and durable locks agree with the counts, a strategy under its contract never makes an
    acquire wait in vain; round robin keeps the contract until its cursor wraps.
  \<^item> Engine and handle: one run per handle, a row that follows the run and carries its outcome, a parked run
    that wakes, a kill that stays, a sealed engine that never starts, a parked run that a restart parks again.
  \<^item> Tasks manager: what deletion of a task and of a group frees, and that one that fails leaves the task
    startable; repointing keeps no stale lock; recovery spares the live; well-formedness in all
    reachable states; on the SQLite store every task survives a restart.
  \<^item> Workflows: an effect runs at most once per key over crashes, and a module's task, after any number of
    crashes, is rebuilt as the instance its row was snapshotted from; retry returns the first final answer,
    and the nesting of Retry and Timeout decides what bounds the time; the backoff is geometric up to its cap.
  \<^item> Bayesian strategy: the rejection loop ends on a source that settles, and samples lie between 0 and 1.
  \<^item> Checkout: whatever is answered and wherever a run fails, every lease and subscription is given back once;
    at most one order is confirmed; the states follow one path; the queue cookie is shared while waiting only.
  \<^item> Email: no listener moves its cursor past mail somebody attached was owed and not offered; a fan-out
    reaches exactly whom it should; closing never panics; a stopped listener winds down; a
    dial that fails leaves no session open.
  \<^item> SQLite: each store mirrors its manager and reads back what was written; a migration sweep is all or
    nothing and runs each step once.
  \<^item> Bus: a subscriber gets a subsequence of what was published, in order.
  \<^item> Scaffolder: derived names are identifiers, nothing that exists is overwritten, whatever fails.

  \<^bold>\<open>Bounds and termination.\<close>
  No definition uses fuel. The rejection loop of the sampler may not end: it is a partial function with the
  value None for that, and it is proved to answer. Loops over lists and maps are structural; the retry loop and the walk to the
  nearest go.mod carry measures; loops that wait (an acquire, a parked run, a listener) are machines whose
  steps are given from outside. A loop over a Go map goes through a list in any order.

  \<^bold>\<open>Parameters.\<close>
  JSON, RFC 3339 and SQLite's json_set are encoders and decoders that undo each other, named where used;
  strings.ToLower, the IMAP library and the HTTP client, the MIME reader, the template and formatting packages, the SQL of a migration step, the
  body of a handler, a workflow's graph and teardown, and a clock are functions or answers given to the
  model. Floating point is a record of operations, for the backoff and for the sampler; the promises are
  over exact numbers, with the conversion of what does not fit left open. The random generator, the HTTP
  client of the checkout with its jar, URL parsing, and for the checkout's handlers the managers they call,
  are ports: what a call answers is given, what the handler makes of it is modelled.

  \<^bold>\<open>Not modelled.\<close>
  What the IMAP library, the HTTP client and the network do (their answers are given; what the code makes of
  them is modelled, and so is its race with an ending context); rounding in floating point, and the bits of
  the random generator; the texts the programs print; the listening sockets of the example's servers, and the
  run of its task, which is the engine's.
\<close>

end
